(* ===== verification/Cmodel_Prelude.thy ===== *)
theory Cmodel_Prelude
  imports Main "HOL-Library.Word"
begin

text \<open>
  Shared vocabulary of the development: how the C side of SmartOS live is rendered in HOL.

  \<^item> A C function that can do more than return is an \<^verbatim>\<open>outcome\<close>: \<open>Inr\<close> of what it
    computes, or \<open>Inl\<close> of a \<^verbatim>\<open>fault\<close> (an access outside an object, a failed
    \<^verbatim>\<open>VERIFY\<close>, an exit of the process, undefined arithmetic).
  \<^item> A function that returns \<open>0\<close> or \<open>-1\<close> with \<^verbatim>\<open>errno\<close> returns a
    \<^verbatim>\<open>cret\<close> next to the state it leaves behind, so that what a failing call does to its
    argument stays visible.
  \<^item> A heap object of bytes is a list of \<open>char option\<close>, \<open>None\<close> for a byte that was never
    written; \<^verbatim>\<open>buf_put\<close> is the only way to write into one and it checks the bounds.
  \<^item> The allocator is a parameter: \<^verbatim>\<open>mem n\<close> is the address it returns for a request of
    \<open>n\<close> bytes, \<open>None\<close> for a null pointer.
\<close>

section \<open>Faults, error returns and sequencing\<close>

datatype fault =
    Fault_OOB            \<comment> \<open>an access outside the bounds of an object\<close>
  | Fault_UB             \<comment> \<open>signed overflow, or a read of an indeterminate byte\<close>
  | Fault_Range          \<comment> \<open>an \<^verbatim>\<open>int\<close> conversion of a size above \<^verbatim>\<open>INT_MAX\<close>\<close>
  | Fault_Null           \<comment> \<open>a dereference of a null pointer\<close>
  | Fault_Abort          \<comment> \<open>\<^verbatim>\<open>abort()\<close>, a failed \<^verbatim>\<open>VERIFY\<close>\<close>
  | Fault_Exit int       \<comment> \<open>\<^verbatim>\<open>err()\<close>/\<^verbatim>\<open>errx()\<close>/\<^verbatim>\<open>exit()\<close> with a status\<close>
  | Fault_Blocked        \<comment> \<open>the environment supplies no further event\<close>
  | Fault_Fuel           \<comment> \<open>the bound given for a loop that may not end is used up\<close>

type_synonym 'a outcome = "fault + 'a"

datatype errno =
    ENOENT | EINTR | ENOMEM | EEXIST | EINVAL | ENOSPC | EOVERFLOW | EPROTO
  | ENOTSUP | ECANCELED | ERANGE | EAGAIN | EBUSY | EPERM | EACCES | E_OTHER nat

text \<open>The result of an \<^verbatim>\<open>int\<close> function that returns 0, or -1 with \<^verbatim>\<open>errno\<close> set.\<close>

datatype cret = Ret_ok | Ret_err errno

type_synonym allocator = "nat \<Rightarrow> nat option"

text \<open>
  The allocator never fails and never places an object at an address below the object's own
  size (the null page and the program text lie there).
\<close>

definition good_alloc :: "allocator \<Rightarrow> bool" where
  "good_alloc mem \<longleftrightarrow> (\<forall>n. \<exists>a. mem n = Some a \<and> n \<le> a)"

text \<open>A concrete allocator with that property, used where an instance is needed.\<close>

definition heap_base :: allocator where
  "heap_base n = Some (2 ^ 40 + n)"

lemma good_heap_base [simp]: "good_alloc heap_base"
  by (simp add: good_alloc_def heap_base_def)

lemma good_allocD: "good_alloc mem \<Longrightarrow> \<exists>a. mem n = Some a \<and> n \<le> a"
  by (simp add: good_alloc_def)

text \<open>The contract of the allocator, for the clients that run out of no memory.\<close>

locale working_heap =
  fixes mem :: allocator
  assumes good: "good_alloc mem"

definition bindr :: "'a outcome \<Rightarrow> ('a \<Rightarrow> 'b outcome) \<Rightarrow> 'b outcome" where
  "bindr m f = (case m of Inl e \<Rightarrow> Inl e | Inr x \<Rightarrow> f x)"

named_theorems cmodel_simps \<open>rewrite rules that run a model function on known arguments\<close>

lemma bindr_Inl [simp, cmodel_simps]: "bindr (Inl e) f = Inl e"
  and bindr_Inr [simp, cmodel_simps]: "bindr (Inr x) f = f x"
  by (simp_all add: bindr_def)

lemma bindr_eq_Inr_iff:
  "bindr m f = Inr y \<longleftrightarrow> (\<exists>x. m = Inr x \<and> f x = Inr y)"
  by (cases m) auto

lemma bindr_eq_Inl_iff:
  "bindr m f = Inl e \<longleftrightarrow> m = Inl e \<or> (\<exists>x. m = Inr x \<and> f x = Inl e)"
  by (cases m) auto

lemma bindr_assoc: "bindr (bindr m f) g = bindr m (\<lambda>x. bindr (f x) g)"
  by (cases m) auto

lemma bindr_Inr_right [simp]: "bindr m Inr = m"
  by (cases m) auto

lemma bindr_cong [fundef_cong]:
  "m = n \<Longrightarrow> (\<And>x. n = Inr x \<Longrightarrow> f x = g x) \<Longrightarrow> bindr m f = bindr n g"
  by (cases n) (auto simp: bindr_def)

text \<open>
  The idiom \<^verbatim>\<open>if (f(x) != 0) return (-1);\<close> around a function that returns 0 or -1: the rest
  runs only after a success, an error is passed on with the state it left.
\<close>

definition bindc :: "(cret \<times> 'a) outcome \<Rightarrow> ('a \<Rightarrow> (cret \<times> 'a) outcome) \<Rightarrow> (cret \<times> 'a) outcome" where
  "bindc m f = bindr m (\<lambda>(r, x). case r of Ret_ok \<Rightarrow> f x | Ret_err e \<Rightarrow> Inr (Ret_err e, x))"

lemma bindc_simps [simp, cmodel_simps]:
  "bindc (Inr (Ret_ok, x)) f = f x" "bindc (Inr (Ret_err e, x)) f = Inr (Ret_err e, x)"
  "bindc (Inl flt) f = Inl flt"
  by (simp_all add: bindc_def)

text \<open>The idiom \<^verbatim>\<open>if (f(x) != 0) err(1, ...);\<close>: an error ends the program.\<close>

definition or_exit :: "(cret \<times> 'a) outcome \<Rightarrow> 'a outcome" where
  "or_exit m = bindr m (\<lambda>(r, x). case r of Ret_ok \<Rightarrow> Inr x | Ret_err e \<Rightarrow> Inl (Fault_Exit 1))"

lemma or_exit_simps [simp, cmodel_simps]:
  "or_exit (Inr (Ret_ok, x)) = Inr x" "or_exit (Inr (Ret_err e, x)) = Inl (Fault_Exit 1)" "or_exit (Inl flt) = Inl flt"
  by (simp_all add: or_exit_def)

lemma bindc_eq_Inr_iff:
  "bindc m f = Inr y \<longleftrightarrow> (\<exists>x. m = Inr (Ret_ok, x) \<and> f x = Inr y) \<or> (\<exists>e x. m = Inr (Ret_err e, x) \<and> y = (Ret_err e, x))"
proof (cases m)
  case (Inr p)
  then show ?thesis by (cases p; cases "fst p") auto
qed simp

text \<open>
  Total correctness of an outcome: it returns normally, and the result satisfies \<open>Q\<close>.
\<close>

definition returns :: "'a outcome \<Rightarrow> ('a \<Rightarrow> bool) \<Rightarrow> bool" where
  "returns m Q \<longleftrightarrow> (\<exists>x. m = Inr x \<and> Q x)"

lemma returns_Inr [simp]: "returns (Inr x) Q \<longleftrightarrow> Q x"
  and returns_Inl [simp]: "\<not> returns (Inl e) Q"
  by (simp_all add: returns_def)

lemma returns_bindI:
  "returns m R \<Longrightarrow> (\<And>x. R x \<Longrightarrow> returns (f x) Q) \<Longrightarrow> returns (bindr m f) Q"
  by (auto simp: returns_def)

lemma returns_mono: "returns m R \<Longrightarrow> (\<And>x. R x \<Longrightarrow> Q x) \<Longrightarrow> returns m Q"
  by (auto simp: returns_def)

lemma returnsD: "returns m Q \<Longrightarrow> \<exists>x. m = Inr x \<and> Q x"
  by (simp add: returns_def)

text \<open>Partial correctness, for frame conditions: if it returns, the result satisfies \<open>Q\<close>.\<close>

definition ensures :: "'a outcome \<Rightarrow> ('a \<Rightarrow> bool) \<Rightarrow> bool" where
  "ensures m Q \<longleftrightarrow> (\<forall>x. m = Inr x \<longrightarrow> Q x)"

lemma ensures_Inr [simp]: "ensures (Inr x) Q \<longleftrightarrow> Q x"
  and ensures_Inl [simp]: "ensures (Inl e) Q"
  by (simp_all add: ensures_def)

lemma ensures_bindI: "(\<And>x. m = Inr x \<Longrightarrow> ensures (f x) Q) \<Longrightarrow> ensures (bindr m f) Q"
  by (auto simp: ensures_def bindr_eq_Inr_iff)

lemma ensures_seqI: "ensures m R \<Longrightarrow> (\<And>x. R x \<Longrightarrow> ensures (f x) Q) \<Longrightarrow> ensures (bindr m f) Q"
  by (auto simp: ensures_def bindr_eq_Inr_iff)

lemma ensures_ifI:
  "(b \<Longrightarrow> ensures m Q) \<Longrightarrow> (\<not> b \<Longrightarrow> ensures n Q) \<Longrightarrow> ensures (if b then m else n) Q"
  by simp

lemma ensures_mono: "ensures m R \<Longrightarrow> (\<And>x. R x \<Longrightarrow> Q x) \<Longrightarrow> ensures m Q"
  by (auto simp: ensures_def)

lemma ensuresD: "ensures m Q \<Longrightarrow> m = Inr x \<Longrightarrow> Q x"
  by (simp add: ensures_def)

lemma ensures_trivial [simp]: "ensures m (\<lambda>x. True)"
  by (simp add: ensures_def)

text \<open>
  The computation does not abort, and if it returns the result satisfies \<open>Q\<close>: what a
  function with a \<^verbatim>\<open>VERIFY\<close> or an \<^verbatim>\<open>ABORT\<close> has to show.
\<close>

definition safe :: "'a outcome \<Rightarrow> ('a \<Rightarrow> bool) \<Rightarrow> bool" where
  "safe m Q \<longleftrightarrow> m \<noteq> Inl Fault_Abort \<and> ensures m Q"

abbreviation no_abort :: "'a outcome \<Rightarrow> bool" where
  "no_abort m \<equiv> safe m (\<lambda>_. True)"

lemma safe_Inr [simp]: "safe (Inr x) Q \<longleftrightarrow> Q x"
  and safe_Inl [simp]: "safe (Inl e) Q \<longleftrightarrow> e \<noteq> Fault_Abort"
  by (simp_all add: safe_def)

lemma safe_bindI: "safe m R \<Longrightarrow> (\<And>x. R x \<Longrightarrow> safe (f x) Q) \<Longrightarrow> safe (bindr m f) Q"
  by (cases m) simp_all

lemma safe_bind_valI: "no_abort m \<Longrightarrow> (\<And>x. m = Inr x \<Longrightarrow> safe (f x) Q) \<Longrightarrow> safe (bindr m f) Q"
  by (cases m) simp_all

lemma safe_ifI:
  "(b \<Longrightarrow> safe m Q) \<Longrightarrow> (\<not> b \<Longrightarrow> safe n Q) \<Longrightarrow> safe (if b then m else n) Q"
  by simp

lemma safe_mono: "safe m R \<Longrightarrow> (\<And>x. R x \<Longrightarrow> Q x) \<Longrightarrow> safe m Q"
  by (cases m) simp_all

lemma safe_conjI: "no_abort m \<Longrightarrow> ensures m Q \<Longrightarrow> safe m Q"
  by (cases m) simp_all

lemma safe_frameI: "safe m Q \<Longrightarrow> (\<And>x. m = Inr x \<Longrightarrow> R x) \<Longrightarrow> safe m (\<lambda>x. Q x \<and> R x)"
  by (cases m) simp_all

lemma safeD: "safe m Q \<Longrightarrow> m = Inr x \<Longrightarrow> Q x"
  by simp

section \<open>C strings and byte buffers\<close>

abbreviation NUL :: char where
  "NUL \<equiv> CHR 0x00"

abbreviation NL :: char where
  "NL \<equiv> CHR 0x0A"

text \<open>\<^verbatim>\<open>cstr bs\<close> is the string a \<^verbatim>\<open>char *\<close> at the start of \<open>bs\<close> denotes.\<close>

definition cstr :: "char list \<Rightarrow> char list" where
  "cstr bs = takeWhile (\<lambda>c. c \<noteq> NUL) bs"

definition nul_free :: "char list \<Rightarrow> bool" where
  "nul_free cs \<longleftrightarrow> NUL \<notin> set cs"

lemma nul_free_simps [simp, cmodel_simps]:
  "nul_free []"
  "nul_free (c # cs) \<longleftrightarrow> c \<noteq> NUL \<and> nul_free cs"
  "nul_free (xs @ ys) \<longleftrightarrow> nul_free xs \<and> nul_free ys"
  by (auto simp: nul_free_def)

lemma cstr_nul_free [simp]: "nul_free (cstr bs)"
  by (auto simp: nul_free_def cstr_def dest: set_takeWhileD)

lemma cstr_id [simp]: "nul_free cs \<Longrightarrow> cstr cs = cs"
  by (auto simp: nul_free_def cstr_def takeWhile_eq_all_conv)

lemma cstr_append_nul [simp]: "nul_free cs \<Longrightarrow> cstr (cs @ NUL # bs) = cs"
  by (induction cs) (auto simp: cstr_def)

lemma cstr_simps [simp, cmodel_simps]:
  "cstr [] = []"
  "cstr (c # cs) = (if c = NUL then [] else c # cstr cs)"
  by (simp_all add: cstr_def)

lemma length_cstr_le: "length (cstr bs) \<le> length bs"
  by (simp add: cstr_def length_takeWhile_le)

type_synonym buf = "char option list"

text \<open>A fresh object, and an object whose size \<^verbatim>\<open>realloc\<close> changed.\<close>

definition buf_alloc :: "nat \<Rightarrow> buf" where
  "buf_alloc n = replicate n None"

definition buf_realloc :: "buf \<Rightarrow> nat \<Rightarrow> buf" where
  "buf_realloc b n = take n b @ replicate (n - length b) None"

text \<open>Write the bytes \<open>cs\<close> at offset \<open>i\<close>.\<close>

definition buf_put :: "buf \<Rightarrow> nat \<Rightarrow> char list \<Rightarrow> buf outcome" where
  "buf_put b i cs =
     (if i + length cs \<le> length b
      then Inr (take i b @ map Some cs @ drop (i + length cs) b)
      else Inl Fault_OOB)"

text \<open>Read the C string that starts at the beginning of an object.\<close>

fun buf_cstr :: "buf \<Rightarrow> char list outcome" where
  "buf_cstr [] = Inl Fault_OOB"
| "buf_cstr (None # b) = Inl Fault_UB"
| "buf_cstr (Some c # b) =
     (if c = NUL then Inr [] else bindr (buf_cstr b) (\<lambda>cs. Inr (c # cs)))"

text \<open>Read the first \<open>n\<close> bytes of an object.\<close>

fun buf_bytes :: "buf \<Rightarrow> nat \<Rightarrow> char list outcome" where
  "buf_bytes b 0 = Inr []"
| "buf_bytes [] (Suc n) = Inl Fault_OOB"
| "buf_bytes (None # b) (Suc n) = Inl Fault_UB"
| "buf_bytes (Some c # b) (Suc n) = bindr (buf_bytes b n) (\<lambda>cs. Inr (c # cs))"

text \<open>The object holds the bytes \<open>cs\<close> from its start.\<close>

definition buf_holds :: "buf \<Rightarrow> char list \<Rightarrow> bool" where
  "buf_holds b cs \<longleftrightarrow> (\<exists>r. b = map Some cs @ r)"

lemma length_buf_alloc [simp]: "length (buf_alloc n) = n"
  by (simp add: buf_alloc_def)

lemma length_buf_realloc [simp]: "length (buf_realloc b n) = n"
  by (simp add: buf_realloc_def)

lemma length_buf_put: "buf_put b i cs = Inr b' \<Longrightarrow> length b' = length b"
  by (auto simp: buf_put_def split: if_splits)

lemma buf_put_OOB_iff: "buf_put b i cs = Inl e \<longleftrightarrow> length b < i + length cs \<and> e = Fault_OOB"
  by (auto simp: buf_put_def)

lemma buf_holds_length: "buf_holds b cs \<Longrightarrow> length cs \<le> length b"
  by (auto simp: buf_holds_def)

lemma buf_holds_realloc:
  "buf_holds b cs \<Longrightarrow> length cs \<le> n \<Longrightarrow> buf_holds (buf_realloc b n) cs"
  by (auto simp: buf_holds_def buf_realloc_def)

lemma buf_holds_Nil [simp]: "buf_holds b []"
  by (simp add: buf_holds_def)

lemma buf_holds_prefix: "buf_holds b (xs @ ys) \<Longrightarrow> buf_holds b xs"
  by (auto simp: buf_holds_def)

text \<open>Appending after a held prefix: the central fact of every growing string below.\<close>

lemma buf_put_append:
  assumes "buf_holds b xs" and "length xs + length cs \<le> length b"
  shows "\<exists>b'. buf_put b (length xs) cs = Inr b' \<and> buf_holds b' (xs @ cs)
           \<and> length b' = length b"
  using assms by (auto simp: buf_put_def buf_holds_def)

lemma buf_cstr_map_Some:
  "nul_free cs \<Longrightarrow> buf_cstr (map Some cs @ Some NUL # r) = Inr cs"
  by (induction cs) auto

lemma buf_cstr_takeWhile:
  "buf_cstr (map Some cs @ Some NUL # r) = Inr (cstr cs)"
  by (induction cs) auto

lemma buf_cstr_holds: "buf_holds b (cs @ [NUL]) \<Longrightarrow> buf_cstr b = Inr (cstr cs)"
  by (auto simp: buf_holds_def buf_cstr_takeWhile)

lemma buf_bytes_map_Some: "buf_bytes (map Some cs @ r) (length cs) = Inr cs"
  by (induction cs) auto

lemma buf_bytes_holds: "buf_holds b (cs @ ds) \<Longrightarrow> buf_bytes b (length cs) = Inr cs"
  by (auto simp: buf_holds_def buf_bytes_map_Some)

text \<open>\<^verbatim>\<open>strdup\<close>: a copy in fresh memory, or a null pointer.\<close>

definition strdup :: "allocator \<Rightarrow> char list \<Rightarrow> char list option" where
  "strdup mem s = (case mem (length s + 1) of None \<Rightarrow> None | Some _ \<Rightarrow> Some s)"

lemma strdup_good: "good_alloc mem \<Longrightarrow> strdup mem s = Some s"
  using good_allocD [of mem "length s + 1"] by (auto simp: strdup_def)

section \<open>Character classes and numerals (C locale)\<close>

definition isspace :: "char \<Rightarrow> bool" where
  "isspace c \<longleftrightarrow> c = CHR 0x20 \<or> (9 \<le> (of_char c :: nat) \<and> (of_char c :: nat) \<le> 13)"

definition islower :: "char \<Rightarrow> bool" where
  "islower c \<longleftrightarrow> 97 \<le> (of_char c :: nat) \<and> (of_char c :: nat) \<le> 122"

definition isdigit :: "char \<Rightarrow> bool" where
  "isdigit c \<longleftrightarrow> 48 \<le> (of_char c :: nat) \<and> (of_char c :: nat) \<le> 57"

definition isalnum :: "char \<Rightarrow> bool" where
  "isalnum c \<longleftrightarrow> isdigit c \<or> islower c \<or> (65 \<le> (of_char c :: nat) \<and> (of_char c :: nat) \<le> 90)"

section \<open>Growth by doubling\<close>

definition INT_MAX :: nat where
  "INT_MAX = 2 ^ 31 - 1"

text \<open>
  The loop \<^verbatim>\<open>while (chunksz < len) chunksz *= 2\<close> of both string implementations; they start
  it at 64, so the guard \<open>0 < c\<close> always holds and only serves the termination proof.
\<close>

function double_until :: "nat \<Rightarrow> nat \<Rightarrow> nat" where
  "double_until c n = (if 0 < c \<and> c < n then double_until (2 * c) n else c)"
  by pat_completeness auto
termination
  by (relation "measure (\<lambda>(c, n). n - c)") auto

declare double_until.simps [simp del]

lemma double_until_ge: "0 < c \<Longrightarrow> n \<le> double_until c n"
proof (induction c n rule: double_until.induct)
  case (1 c n)
  then show ?case by (cases "c < n") (auto simp: double_until.simps [of c n])
qed

lemma double_until_pos: "0 < c \<Longrightarrow> c \<le> double_until c n"
proof (induction c n rule: double_until.induct)
  case (1 c n)
  then show ?case by (cases "c < n") (auto simp: double_until.simps [of c n])
qed

lemma double_until_less: "0 < c \<Longrightarrow> double_until c n < 2 * n \<or> double_until c n = c"
proof (induction c n rule: double_until.induct)
  case (1 c n)
  then show ?case by (cases "c < n") (auto simp: double_until.simps [of c n])
qed

lemma double_until_power: "\<exists>k. double_until c n = c * 2 ^ k"
proof (induction c n rule: double_until.induct)
  case (1 c n)
  show ?case
  proof (cases "0 < c \<and> c < n")
    case True
    with 1 obtain k where "double_until (2 * c) n = 2 * c * 2 ^ k" by blast
    with True have "double_until c n = c * 2 ^ Suc k" by (simp add: double_until.simps [of c n])
    then show ?thesis ..
  next
    case False
    then have "double_until c n = c * 2 ^ 0" by (subst double_until.simps) auto
    then show ?thesis ..
  qed
qed

lemma double_until_exact: "0 < c \<Longrightarrow> double_until c (c * 2 ^ k) = c * 2 ^ k"
proof (induction k arbitrary: c)
  case 0
  then show ?case by (simp add: double_until.simps [of c])
next
  case (Suc k)
  then have "double_until (2 * c) (2 * c * 2 ^ k) = 2 * c * 2 ^ k" by simp
  moreover have "c < c * 2 ^ Suc k"
    using Suc.prems one_less_power [of "2::nat" "Suc k"] by simp
  ultimately show ?case
    using Suc.prems by (simp add: double_until.simps [of c] mult.assoc mult.left_commute)
qed

text \<open>The chunk is exactly the requested length iff that length is a doubling of the start.\<close>

lemma double_until_fixed_iff: "0 < c \<Longrightarrow> double_until c n = n \<longleftrightarrow> (\<exists>k. n = c * 2 ^ k)"
  using double_until_power [of c n] double_until_exact by metis

lemma unat32_less: "unat (w :: 32 word) < 2 ^ 32"
  by (rule order_less_le_trans [OF unsigned_less]) simp

lemma unat32_Suc:
  assumes "c \<noteq> (-1 :: 32 word)"
  shows "unat (c + 1) = unat c + 1"
proof -
  have "unat c \<noteq> unat (-1 :: 32 word)" using assms by (simp add: word_unat_eq_iff)
  moreover have "unat (-1 :: 32 word) = 2 ^ 32 - 1" by (simp add: unsigned_minus_1_eq_mask mask_eq_exp_minus_1)
  ultimately have "unat c + unat (1 :: 32 word) < 2 ^ LENGTH(32)" using unat32_less [of c] by simp
  then have "unat (c + 1) = unat c + unat (1 :: 32 word)" by (rule unat_add_lem [THEN iffD1])
  then show ?thesis by simp
qed

end
