(* ===== verification/Avl_Library.thy ===== *)
theory Avl_Library
  imports Cmodel_Prelude
begin

text \<open>
  The AVL trees of the C library, on which \<^verbatim>\<open>strset.c\<close> and \<^verbatim>\<open>fswatcher.c\<close> are built. The implementation is
  not part of the repository: its operations are the record \<^verbatim>\<open>avl_ops\<close>, a parameter of the definitions
  that use it, and what its manual page promises is the locale \<^verbatim>\<open>avl_library\<close>. Besides: \<^verbatim>\<open>strcmp\<close>, the
  order both programs build their comparators from.
\<close>

section \<open>The tree library\<close>

type_synonym 'n comparator = "'n \<Rightarrow> 'n \<Rightarrow> int"

text \<open>
  \<^verbatim>\<open>avl_find\<close> returns the node or a null pointer, and the place an insertion would go to;
  \<^verbatim>\<open>avl_destroy_nodes\<close> is given as the nodes its successive calls hand out up to the null
  pointer, and the tree that is left.
\<close>

record ('t, 'n) avl_ops =
  avl_create :: "'n comparator \<Rightarrow> 't"
  avl_find :: "'t \<Rightarrow> 'n \<Rightarrow> 'n option \<times> nat"
  avl_insert :: "'t \<Rightarrow> 'n \<Rightarrow> nat \<Rightarrow> 't"
  avl_add :: "'t \<Rightarrow> 'n \<Rightarrow> 't"
  avl_remove :: "'t \<Rightarrow> 'n \<Rightarrow> 't"
  avl_first :: "'t \<Rightarrow> 'n option"
  AVL_NEXT :: "'t \<Rightarrow> 'n \<Rightarrow> 'n option"
  avl_numnodes :: "'t \<Rightarrow> nat"
  avl_is_empty :: "'t \<Rightarrow> bool"
  avl_destroy_nodes :: "'t \<Rightarrow> 'n list \<times> 't"

text \<open>The sign of \<^verbatim>\<open>strcmp\<close>: bytes are compared as \<^verbatim>\<open>unsigned char\<close>.\<close>

fun strcmp :: "char list \<Rightarrow> char list \<Rightarrow> int" where
  "strcmp [] [] = 0"
| "strcmp [] (d # ds) = -1"
| "strcmp (c # cs) [] = 1"
| "strcmp (c # cs) (d # ds) =
     (if c = d then strcmp cs ds else if (of_char c :: nat) < of_char d then -1 else 1)"

section \<open>What the tree library promises\<close>

text \<open>A comparison function orders the nodes (up to nodes it takes for equal).\<close>

definition comparator_order :: "'n comparator \<Rightarrow> bool" where
  "comparator_order cmp \<longleftrightarrow> (\<forall>x. cmp x x = 0) \<and> (\<forall>x y. cmp x y < 0 \<longleftrightarrow> 0 < cmp y x) \<and>
     (\<forall>x y z. cmp x y \<le> 0 \<longrightarrow> cmp y z \<le> 0 \<longrightarrow> cmp x z \<le> 0)"

text \<open>
  The laws, as the manual page of the library states them: \<open>nodes\<close> lists the nodes of a tree in
  order, \<open>avl_ok cmp t\<close> says that \<open>t\<close> was built with the comparator \<open>cmp\<close>.
\<close>

locale avl_library =
  fixes A :: "('t, 'n) avl_ops" and avl_ok :: "'n comparator \<Rightarrow> 't \<Rightarrow> bool" and nodes :: "'t \<Rightarrow> 'n list"
  assumes create: "comparator_order cmp \<Longrightarrow> avl_ok cmp (avl_create A cmp) \<and> nodes (avl_create A cmp) = []"
    and ordered: "avl_ok cmp t \<Longrightarrow> sorted_wrt (\<lambda>x y. cmp x y < 0) (nodes t)"
    and find: "avl_ok cmp t \<Longrightarrow> fst (avl_find A t s) = List.find (\<lambda>x. cmp s x = 0) (nodes t)"
    and insertion: "avl_ok cmp t \<Longrightarrow> avl_find A t s = (None, w) \<Longrightarrow> avl_ok cmp (avl_insert A t s w) \<and>
      nodes (avl_insert A t s w) = filter (\<lambda>x. cmp x s < 0) (nodes t) @ s # filter (\<lambda>x. cmp s x < 0) (nodes t)"
    and addition: "avl_ok cmp t \<Longrightarrow> \<forall>x \<in> set (nodes t). cmp s x \<noteq> 0 \<Longrightarrow> avl_ok cmp (avl_add A t s) \<and>
      nodes (avl_add A t s) = filter (\<lambda>x. cmp x s < 0) (nodes t) @ s # filter (\<lambda>x. cmp s x < 0) (nodes t)"
    and removal: "avl_ok cmp t \<Longrightarrow> x \<in> set (nodes t) \<Longrightarrow>
      avl_ok cmp (avl_remove A t x) \<and> nodes (avl_remove A t x) = remove1 x (nodes t)"
    and first_node: "avl_ok cmp t \<Longrightarrow> avl_first A t = (case nodes t of [] \<Rightarrow> None | x # _ \<Rightarrow> Some x)"
    and next_node: "avl_ok cmp t \<Longrightarrow> nodes t = xs @ x # ys \<Longrightarrow>
      AVL_NEXT A t x = (case ys of [] \<Rightarrow> None | y # _ \<Rightarrow> Some y)"
    and numnodes: "avl_ok cmp t \<Longrightarrow> avl_numnodes A t = length (nodes t)"
    and is_empty: "avl_ok cmp t \<Longrightarrow> avl_is_empty A t \<longleftrightarrow> nodes t = []"
    and destroy: "avl_ok cmp t \<Longrightarrow> set (fst (avl_destroy_nodes A t)) = set (nodes t) \<and>
      avl_ok cmp (snd (avl_destroy_nodes A t)) \<and> nodes (snd (avl_destroy_nodes A t)) = []"

section \<open>strcmp is an order\<close>

lemma of_char_nat_neq: "c \<noteq> d \<Longrightarrow> (of_char c :: nat) \<noteq> of_char d"
  by simp

lemma strcmp_eq_0 [simp]: "strcmp x y = 0 \<longleftrightarrow> x = y"
  by (induction x y rule: strcmp.induct) auto

lemma strcmp_self [simp]: "strcmp x x = 0"
  by simp

lemma strcmp_antisym: "strcmp x y < 0 \<longleftrightarrow> 0 < strcmp y x"
  by (induction x y rule: strcmp.induct) (auto simp: linorder_not_less order_le_less dest: of_char_nat_neq)

lemma strcmp_trans: "strcmp x y \<le> 0 \<Longrightarrow> strcmp y z \<le> 0 \<Longrightarrow> strcmp x z \<le> 0"
proof (induction x y arbitrary: z rule: strcmp.induct)
  case (1 z)
  then show ?case by simp
next
  case (2 d ds)
  then show ?case by (cases z) auto
next
  case (3 c cs)
  then show ?case by simp
next
  case (4 c cs d ds)
  show ?case
  proof (cases z)
    case Nil
    with 4 show ?thesis by simp
  next
    case (Cons e es)
    with 4 show ?thesis by (auto split: if_splits)
  qed
qed

lemma sorted_strcmp_distinct: "sorted_wrt (\<lambda>x y. strcmp x y < 0) xs \<Longrightarrow> distinct xs"
  by (induction xs) (auto simp: strcmp_self)

lemma sorted_comparator_distinct:
  "comparator_order cmp \<Longrightarrow> sorted_wrt (\<lambda>x y. cmp x y < 0) xs \<Longrightarrow> distinct xs"
  by (induction xs) (auto simp: comparator_order_def)

section \<open>A tree library\<close>

text \<open>An instance of the laws: the tree as the ordered list of its nodes.\<close>

definition list_avl :: "('n comparator \<times> 'n list, 'n) avl_ops" where
  "list_avl = \<lparr>
     avl_create = (\<lambda>cmp. (cmp, [])),
     avl_find = (\<lambda>(cmp, xs) s. (List.find (\<lambda>x. cmp s x = 0) xs, length (filter (\<lambda>x. cmp x s < 0) xs))),
     avl_insert = (\<lambda>(cmp, xs) s w. (cmp, take w xs @ s # drop w xs)),
     avl_add = (\<lambda>(cmp, xs) s. (cmp, filter (\<lambda>x. cmp x s < 0) xs @ s # filter (\<lambda>x. cmp s x < 0) xs)),
     avl_remove = (\<lambda>(cmp, xs) s. (cmp, remove1 s xs)),
     avl_first = (\<lambda>(cmp, xs). case xs of [] \<Rightarrow> None | x # _ \<Rightarrow> Some x),
     AVL_NEXT = (\<lambda>(cmp, xs) s. case dropWhile (\<lambda>x. x \<noteq> s) xs of _ # y # _ \<Rightarrow> Some y | _ \<Rightarrow> None),
     avl_numnodes = (\<lambda>(cmp, xs). length xs),
     avl_is_empty = (\<lambda>(cmp, xs). xs = []),
     avl_destroy_nodes = (\<lambda>(cmp, xs). (xs, (cmp, [])))\<rparr>"

definition list_avl_ok :: "'n comparator \<Rightarrow> 'n comparator \<times> 'n list \<Rightarrow> bool" where
  "list_avl_ok cmp t \<longleftrightarrow> comparator_order cmp \<and> fst t = cmp \<and> sorted_wrt (\<lambda>x y. cmp x y < 0) (snd t)"

lemma comparator_facts:
  assumes "comparator_order cmp"
  shows "cmp x x = 0" "cmp x y < 0 \<longleftrightarrow> 0 < cmp y x" "cmp x y \<le> 0 \<Longrightarrow> cmp y z \<le> 0 \<Longrightarrow> cmp x z \<le> 0"
  using assms unfolding comparator_order_def by blast+

lemma comparator_less_trans:
  assumes "comparator_order cmp" "cmp x y < 0" "cmp y z < 0"
  shows "cmp x z < 0"
proof (rule ccontr)
  assume "\<not> cmp x z < 0"
  then have "cmp z x \<le> 0" using comparator_facts(2) [OF assms(1), of x z] comparator_facts(2) [OF assms(1), of z x] by linarith
  then have "cmp y x \<le> 0" using comparator_facts(3) [OF assms(1), of y z x] assms(3) by linarith
  then show False using comparator_facts(2) [OF assms(1), of x y] assms(2) by linarith
qed

text \<open>In an ordered list, what is below a missing node is a prefix and what is above it the rest.\<close>

lemma sorted_split_at:
  assumes "comparator_order cmp" "sorted_wrt (\<lambda>x y. cmp x y < 0) xs" "\<forall>x \<in> set xs. cmp s x \<noteq> 0"
  shows "xs = filter (\<lambda>x. cmp x s < 0) xs @ filter (\<lambda>x. cmp s x < 0) xs"
  using assms(2,3)
proof (induction xs)
  case (Cons x xs)
  note facts = comparator_facts [OF assms(1)]
  have tri: "cmp x s < 0 \<or> cmp s x < 0" using Cons.prems(2) facts(2) [of x s] facts(2) [of s x] by auto
  show ?case
  proof (cases "cmp x s < 0")
    case True
    moreover have "\<not> cmp s x < 0" using True facts(2) [of x s] by simp
    ultimately show ?thesis using Cons by auto
  next
    case False
    then have sx: "cmp s x < 0" using tri by simp
    then have above: "cmp s y < 0" if "y \<in> set xs" for y
      using comparator_less_trans [OF assms(1) sx] Cons.prems(1) that by auto
    then have "filter (\<lambda>x. cmp s x < 0) xs = xs" by simp
    moreover have "\<not> cmp y s < 0" if "y \<in> set xs" for y using above [OF that] facts(2) [of s y] by simp
    then have "filter (\<lambda>x. cmp x s < 0) xs = []" by (simp add: filter_empty_conv)
    ultimately show ?thesis using False sx by simp
  qed
qed simp

lemma sorted_wrt_split_at:
  assumes "comparator_order cmp" "sorted_wrt (\<lambda>x y. cmp x y < 0) xs"
  shows "sorted_wrt (\<lambda>x y. cmp x y < 0) (filter (\<lambda>x. cmp x s < 0) xs @ s # filter (\<lambda>x. cmp s x < 0) xs)"
  using assms(2) comparator_less_trans [OF assms(1)]
  by (auto simp: sorted_wrt_append sorted_wrt_filter)

lemma sorted_wrt_remove1: "sorted_wrt P xs \<Longrightarrow> sorted_wrt P (remove1 x xs)"
  by (induction xs) (auto dest: set_remove1_subset [THEN subsetD])

interpretation la: avl_library list_avl list_avl_ok snd
proof (unfold_locales, goal_cases)
  case (4 cmp t s w)
  obtain xs where t: "t = (cmp, xs)" using 4(1) by (cases t) (auto simp: list_avl_ok_def)
  have ord: "comparator_order cmp" "sorted_wrt (\<lambda>x y. cmp x y < 0) xs" using 4(1) t by (simp_all add: list_avl_ok_def)
  have no: "\<forall>x \<in> set xs. cmp s x \<noteq> 0" and w: "w = length (filter (\<lambda>x. cmp x s < 0) xs)"
    using 4(2) t by (auto simp: list_avl_def find_None_iff)
  note sp = sorted_split_at [OF ord no]
  have "take w xs = filter (\<lambda>x. cmp x s < 0) xs" "drop w xs = filter (\<lambda>x. cmp s x < 0) xs"
    using arg_cong [OF sp, of "take w"] arg_cong [OF sp, of "drop w"] w by simp_all
  then show ?case using ord(1) sorted_wrt_split_at [OF ord] t by (simp add: list_avl_def list_avl_ok_def)
next
  case (5 cmp t s)
  then show ?case using sorted_wrt_split_at [of cmp "snd t" s] by (cases t) (auto simp: list_avl_def list_avl_ok_def)
next
  case (8 cmp t xs x ys)
  then have "distinct (xs @ x # ys)"
    using sorted_comparator_distinct [of cmp "snd t"] by (simp add: list_avl_ok_def)
  then have "dropWhile (\<lambda>y. y \<noteq> x) (xs @ x # ys) = x # ys" by (induction xs) auto
  then show ?case using 8(2) by (cases t) (auto simp: list_avl_def split: list.splits)
qed (auto simp: list_avl_def list_avl_ok_def split_beta sorted_wrt_remove1)

end
