(* ===== verification/Libc_Numbers.thy ===== *)
theory Libc_Numbers
  imports Cmodel_Prelude
begin

text \<open>
  Numerals as the C library reads and prints them: \<^verbatim>\<open>strtoul\<close>, \<^verbatim>\<open>strtol\<close> and
  \<^verbatim>\<open>atoi\<close> on one side, the \<^verbatim>\<open>%u\<close>, \<^verbatim>\<open>%d\<close> and \<^verbatim>\<open>%08x\<close> conversions on the
  other, and that reading undoes printing. The metadata protocol (framing), the JSON parser
  (numbers, array keys) and the manifest reader (modes) use them.
\<close>

section \<open>Digits\<close>

text \<open>The value of a digit in a base up to 16, as \<^verbatim>\<open>strtol\<close> reads it.\<close>

definition digit_val :: "char \<Rightarrow> nat option" where
  "digit_val c =
     (let n = (of_char c :: nat) in
      if 48 \<le> n \<and> n \<le> 57 then Some (n - 48)
      else if 97 \<le> n \<and> n \<le> 102 then Some (n - 87)
      else if 65 \<le> n \<and> n \<le> 70 then Some (n - 55)
      else None)"

definition is_base_digit :: "nat \<Rightarrow> char \<Rightarrow> bool" where
  "is_base_digit b c \<longleftrightarrow> (case digit_val c of None \<Rightarrow> False | Some d \<Rightarrow> d < b)"

definition digit_char :: "nat \<Rightarrow> char" where
  "digit_char d = (if d < 10 then char_of (48 + d) else char_of (87 + d))"

fun digits_rev :: "nat \<Rightarrow> nat \<Rightarrow> nat list" where
  "digits_rev b n = (if b < 2 \<or> n < b then [n] else (n mod b) # digits_rev b (n div b))"

declare digits_rev.simps [simp del]

text \<open>The numeral of \<open>n\<close> in base \<open>b\<close> without leading zeros, and padded to a width.\<close>

definition show_base :: "nat \<Rightarrow> nat \<Rightarrow> char list" where
  "show_base b n = map digit_char (rev (digits_rev b n))"

definition pad_zero :: "nat \<Rightarrow> char list \<Rightarrow> char list" where
  "pad_zero w cs = replicate (w - length cs) (CHR ''0'') @ cs"

definition eval_base :: "nat \<Rightarrow> char list \<Rightarrow> nat" where
  "eval_base b cs =
     foldl (\<lambda>a c. a * b + (case digit_val c of None \<Rightarrow> 0 | Some d \<Rightarrow> d)) 0 cs"

text \<open>\<^verbatim>\<open>printf\<close> conversions.\<close>

definition fmt_u :: "nat \<Rightarrow> char list" where
  "fmt_u n = show_base 10 n"

definition fmt_d :: "int \<Rightarrow> char list" where
  "fmt_d i = (if i < 0 then CHR ''-'' # show_base 10 (nat (- i)) else show_base 10 (nat i))"

definition fmt_08x :: "32 word \<Rightarrow> char list" where
  "fmt_08x w = pad_zero 8 (show_base 16 (unat w))"

section \<open>strtoul, strtol and atoi\<close>

definition skip_sign :: "char list \<Rightarrow> bool \<times> char list" where
  "skip_sign s =
     (case s of
        [] \<Rightarrow> (False, s)
      | c # r \<Rightarrow> if c = CHR ''-'' then (True, r) else if c = CHR ''+'' then (False, r) else (False, s))"

definition skip_0x :: "nat \<Rightarrow> char list \<Rightarrow> char list" where
  "skip_0x b s =
     (case s of
        z # x # d # r \<Rightarrow>
          if b = 16 \<and> z = CHR ''0'' \<and> (x = CHR ''x'' \<or> x = CHR ''X'') \<and> is_base_digit 16 d
          then d # r else s
      | _ \<Rightarrow> s)"

text \<open>Sign, magnitude and the unread rest; \<open>None\<close> when there is no number to read.\<close>

definition scan_number :: "nat \<Rightarrow> char list \<Rightarrow> (bool \<times> nat \<times> char list) option" where
  "scan_number b s =
     (let (neg, s1) = skip_sign (dropWhile isspace s);
          s2 = skip_0x b s1;
          ds = takeWhile (is_base_digit b) s2
      in if ds = [] then None
         else Some (neg, eval_base b ds, dropWhile (is_base_digit b) s2))"

definition ULONG_MAX :: nat where "ULONG_MAX = 2 ^ 64 - 1"
definition LONG_MAX :: int where "LONG_MAX = 2 ^ 63 - 1"
definition LONG_MIN :: int where "LONG_MIN = - (2 ^ 63)"

text \<open>The value and what \<^verbatim>\<open>endptr\<close> points at (the input itself when nothing was read).\<close>

definition strtoul :: "nat \<Rightarrow> char list \<Rightarrow> nat \<times> char list" where
  "strtoul b s =
     (case scan_number b s of
        None \<Rightarrow> (0, s)
      | Some (neg, v, r) \<Rightarrow>
          (if ULONG_MAX < v then ULONG_MAX
           else if neg then nat ((- int v) mod 2 ^ 64) else v, r))"

text \<open>\<^verbatim>\<open>strtol\<close> also reports a range error.\<close>

definition strtol :: "nat \<Rightarrow> char list \<Rightarrow> int \<times> char list \<times> errno option" where
  "strtol b s =
     (case scan_number b s of
        None \<Rightarrow> (0, s, None)
      | Some (neg, v, r) \<Rightarrow>
          let i = (if neg then - int v else int v)
          in if LONG_MAX < i then (LONG_MAX, r, Some ERANGE)
             else if i < LONG_MIN then (LONG_MIN, r, Some ERANGE)
             else (i, r, None))"

text \<open>\<^verbatim>\<open>atoi\<close> is \<^verbatim>\<open>(int)strtol(s, NULL, 10)\<close>: the low 32 bits of the value.\<close>

definition int32_of :: "int \<Rightarrow> int" where
  "int32_of i = (let m = i mod 2 ^ 32 in if m < 2 ^ 31 then m else m - 2 ^ 32)"

definition atoi :: "char list \<Rightarrow> int" where
  "atoi s = int32_of (fst (strtol 10 s))"

section \<open>Reading what was printed\<close>

lemma digit_val_digit_char: "d < 16 \<Longrightarrow> digit_val (digit_char d) = Some d"
  by (auto simp: digit_val_def digit_char_def Let_def)

lemma is_base_digit_digit_char: "d < b \<Longrightarrow> b \<le> 16 \<Longrightarrow> is_base_digit b (digit_char d)"
  by (simp add: is_base_digit_def digit_val_digit_char)

lemma digits_rev_less: "2 \<le> b \<Longrightarrow> d \<in> set (digits_rev b n) \<Longrightarrow> d < b"
proof (induction b n rule: digits_rev.induct)
  case (1 b n)
  show ?case
  proof (cases "n < b")
    case True
    with 1 show ?thesis by (simp add: digits_rev.simps [of b n])
  next
    case False
    with 1 show ?thesis by (auto simp: digits_rev.simps [of b n])
  qed
qed

lemma digits_rev_nonempty [simp]: "digits_rev b n \<noteq> []"
  by (simp add: digits_rev.simps [of b n])

lemma show_base_nonempty [simp]: "show_base b n \<noteq> []"
  by (simp add: show_base_def)

lemma show_base_digits:
  "2 \<le> b \<Longrightarrow> b \<le> 16 \<Longrightarrow> c \<in> set (show_base b n) \<Longrightarrow> is_base_digit b c"
  by (auto simp: show_base_def is_base_digit_digit_char dest: digits_rev_less)

lemma eval_base_append: "eval_base b (xs @ [c]) =
    eval_base b xs * b + (case digit_val c of None \<Rightarrow> 0 | Some d \<Rightarrow> d)"
  by (simp add: eval_base_def)

lemma eval_base_zeros: "eval_base b (replicate k (CHR ''0'') @ cs) = eval_base b cs"
proof -
  have "digit_val (CHR ''0'') = Some 0" by (simp add: digit_val_def)
  then have "foldl (\<lambda>a c. a * b + (case digit_val c of None \<Rightarrow> 0 | Some d \<Rightarrow> d)) 0
      (replicate k (CHR ''0'')) = 0"
    by (induction k) auto
  then show ?thesis by (simp add: eval_base_def)
qed

lemma eval_show_base:
  assumes "2 \<le> b" and "b \<le> 16"
  shows "eval_base b (show_base b n) = n"
  using assms
proof (induction b n rule: digits_rev.induct)
  case (1 b n)
  show ?case
  proof (cases "n < b")
    case True
    with 1 show ?thesis
      by (simp add: show_base_def digits_rev.simps [of b n] eval_base_def digit_val_digit_char)
  next
    case False
    with 1 have IH: "eval_base b (show_base b (n div b)) = n div b" by simp
    have "show_base b n = show_base b (n div b) @ [digit_char (n mod b)]"
      using False 1 by (simp add: show_base_def digits_rev.simps [of b n])
    moreover have "digit_val (digit_char (n mod b)) = Some (n mod b)"
      using 1 mod_less_divisor [of b n] by (intro digit_val_digit_char) linarith
    ultimately show ?thesis by (simp add: eval_base_append IH)
  qed
qed

lemma is_base_digit_class:
  assumes "is_base_digit b c"
  shows "\<not> isspace c" "c \<noteq> CHR ''-''" "c \<noteq> CHR ''+''" "c \<noteq> CHR ''x''" "c \<noteq> CHR ''X''"
    "c \<noteq> CHR '' ''" "c \<noteq> NUL"
  using assms
  by (auto simp: is_base_digit_def digit_val_def isspace_def Let_def split: if_splits)

text \<open>A numeral followed by something that is no digit is read completely.\<close>

lemma scan_number_digits:
  assumes "ds \<noteq> []" and "\<forall>c \<in> set ds. is_base_digit b c"
    and "r = [] \<or> \<not> is_base_digit b (hd r)" and "r = [] \<or> hd r \<notin> {CHR ''x'', CHR ''X''}"
  shows "scan_number b (ds @ r) = Some (False, eval_base b ds, r)"
proof -
  obtain d ds' where ds: "ds = d # ds'" using assms(1) by (cases ds) auto
  note cls = is_base_digit_class [of b d]
  have d: "is_base_digit b d" using assms(2) ds by simp
  have 1: "dropWhile isspace (ds @ r) = ds @ r" using ds cls(1) [OF d] by simp
  have 2: "skip_sign (ds @ r) = (False, ds @ r)"
    using ds cls(2,3) [OF d] by (simp add: skip_sign_def)
  have snd_ok: "ds' @ r = x # y # zs \<Longrightarrow> x \<noteq> CHR ''x'' \<and> x \<noteq> CHR ''X''" for x y zs
    using assms(2,4) ds is_base_digit_class(4,5) [of b] by (cases ds') auto
  have 3: "skip_0x b (ds @ r) = ds @ r"
    using ds snd_ok by (auto simp: skip_0x_def split: list.splits)
  have 4: "takeWhile (is_base_digit b) (ds @ r) = ds"
    using assms(2,3) by (cases r) (auto simp: takeWhile_eq_all_conv takeWhile_append2)
  have 5: "dropWhile (is_base_digit b) (ds @ r) = r"
    using assms(2,3) by (cases r) (auto simp: dropWhile_append2)
  show ?thesis unfolding scan_number_def using assms(1) by (simp add: 1 2 3 4 5)
qed

lemma strtoul_show_base:
  assumes "2 \<le> b" "b \<le> 16" "n \<le> ULONG_MAX"
    and "r = [] \<or> \<not> is_base_digit b (hd r)" and "r = [] \<or> hd r \<notin> {CHR ''x'', CHR ''X''}"
  shows "strtoul b (show_base b n @ r) = (n, r)"
proof -
  have "scan_number b (show_base b n @ r) = Some (False, n, r)"
    using assms show_base_digits [OF assms(1,2)]
    by (subst scan_number_digits) (auto simp: eval_show_base)
  then show ?thesis using assms(3) by (simp add: strtoul_def)
qed

lemma pad_zero_digits:
  assumes "2 \<le> b" "b \<le> 16" shows "\<forall>c \<in> set (pad_zero w (show_base b n)). is_base_digit b c"
proof -
  have "is_base_digit b (CHR ''0'')" using assms by (simp add: is_base_digit_def digit_val_def)
  then show ?thesis using assms by (auto simp: pad_zero_def dest: show_base_digits)
qed

lemma fmt_08x_nonempty [simp]: "fmt_08x w \<noteq> []"
  by (simp add: fmt_08x_def pad_zero_def)

lemma fmt_08x_digits: "c \<in> set (fmt_08x w) \<Longrightarrow> is_base_digit 16 c"
  unfolding fmt_08x_def using pad_zero_digits [of 16 8 "unat w"] by simp

lemma strtoul_fmt_08x:
  assumes "r = [] \<or> \<not> is_base_digit 16 (hd r)" and "r = [] \<or> hd r \<notin> {CHR ''x'', CHR ''X''}"
  shows "strtoul 16 (fmt_08x w @ r) = (unat w, r)"
proof -
  have "unat w < 2 ^ 32" using unat32_less [of w] by simp
  moreover have "eval_base 16 (fmt_08x w) = unat w"
    by (simp add: fmt_08x_def pad_zero_def eval_base_zeros eval_show_base)
  moreover have "scan_number 16 (fmt_08x w @ r) = Some (False, eval_base 16 (fmt_08x w), r)"
    using assms fmt_08x_digits by (intro scan_number_digits) auto
  ultimately show ?thesis by (simp add: strtoul_def ULONG_MAX_def)
qed

lemma digits_rev_length:
  "2 \<le> b \<Longrightarrow> n < b ^ k \<Longrightarrow> 0 < k \<Longrightarrow> length (digits_rev b n) \<le> k"
proof (induction b n arbitrary: k rule: digits_rev.induct)
  case (1 b n)
  show ?case
  proof (cases "n < b")
    case True
    with 1 show ?thesis by (simp add: digits_rev.simps [of b n])
  next
    case False
    then obtain k' where k: "k = Suc k'" "0 < k'"
      using 1(3,4) by (cases k; cases "k - 1") auto
    have "n div b < b ^ k'"
      using 1(2,3) k by (simp add: less_mult_imp_div_less mult.commute)
    then show ?thesis
      using False 1 k by (auto simp: digits_rev.simps [of b n])
  qed
qed

lemma length_fmt_08x: "length (fmt_08x w) = 8"
proof -
  have "unat w < 16 ^ 8" using unat32_less [of w] by simp
  then have "length (show_base 16 (unat w)) \<le> 8"
    by (simp add: show_base_def digits_rev_length)
  then show ?thesis by (simp add: fmt_08x_def pad_zero_def)
qed

lemma int32_of_range: "- (2 ^ 31) \<le> int32_of i \<and> int32_of i < 2 ^ 31"
proof -
  have "0 \<le> i mod 2 ^ 32 \<and> i mod 2 ^ 32 < 2 ^ 32" by simp
  then show ?thesis unfolding int32_of_def Let_def by auto
qed

lemma int32_of_id: "- (2 ^ 31) \<le> i \<Longrightarrow> i < 2 ^ 31 \<Longrightarrow> int32_of i = i"
proof (cases "0 \<le> i")
  case True
  assume "i < 2 ^ 31"
  with True have "i mod 2 ^ 32 = i" by simp
  with \<open>i < 2 ^ 31\<close> show ?thesis by (simp add: int32_of_def)
next
  case False
  assume "- (2 ^ 31) \<le> i"
  with False have "(i + 2 ^ 32) mod 2 ^ 32 = i + 2 ^ 32" by (intro mod_pos_pos_trivial) auto
  then have "i mod 2 ^ 32 = i + 2 ^ 32" by simp
  with \<open>- (2 ^ 31) \<le> i\<close> show ?thesis by (simp add: int32_of_def)
qed

end
