(* ===== verification/Strset.thy ===== *)
theory Strset
  imports Avl_Library Libc_Numbers
begin

text \<open>
  \<^verbatim>\<open>src/tools/common/strset.c\<close>: a set of strings on top of the AVL trees of the C library.
  The trees are those of theory \<^verbatim>\<open>Avl_Library\<close>, a parameter of every definition here. A node of the tree is the string it carries (the back pointer to the
  set, \<^verbatim>\<open>ssn_container\<close>, is the set the operation is called on).
\<close>

unbundle bit_operations_syntax

section \<open>The set\<close>

datatype strset_compare = STRSET_COMPARE_LEFT_FIRST | STRSET_COMPARE_EQUAL | STRSET_COMPARE_RIGHT_FIRST

type_synonym strset_compare_func = "char list \<Rightarrow> char list \<Rightarrow> strset_compare"

definition STRSET_IGNORE_DUPLICATES :: "32 word" where
  "STRSET_IGNORE_DUPLICATES = 0x01"

definition STRSET_IGNORE_MISSING :: "32 word" where
  "STRSET_IGNORE_MISSING = 0x02"

definition STRSET_FLAGS_ALL :: "32 word" where
  "STRSET_FLAGS_ALL = STRSET_IGNORE_DUPLICATES"

definition STRSET_WALK_NEXT :: "32 word" where
  "STRSET_WALK_NEXT = 0x00"

definition STRSET_WALK_DONE :: "32 word" where
  "STRSET_WALK_DONE = 0x01"

definition STRSET_WALK_CANCEL :: "32 word" where
  "STRSET_WALK_CANCEL = 0x02"

definition STRSET_WALK_REMOVE :: "32 word" where
  "STRSET_WALK_REMOVE = 0x10"

definition STRSET_WALK_WHATNEXT :: "32 word \<Rightarrow> 32 word" where
  "STRSET_WALK_WHATNEXT a = a AND 0xf"

record 't strset =
  ss_strings :: 't
  ss_flags :: "32 word"
  ss_walking :: int
  ss_compare :: "strset_compare_func option"

definition strset_comparator :: "strset_compare_func option \<Rightarrow> char list comparator" where
  "strset_comparator func l r =
     (case func of
        Some f \<Rightarrow>
          (case f l r of
             STRSET_COMPARE_LEFT_FIRST \<Rightarrow> -1
           | STRSET_COMPARE_RIGHT_FIRST \<Rightarrow> 1
           | STRSET_COMPARE_EQUAL \<Rightarrow> 0)
      | None \<Rightarrow> (let cmp = strcmp l r in if cmp < 0 then -1 else if 0 < cmp then 1 else 0))"

text \<open>\<^verbatim>\<open>sizeof (strset_t)\<close> is 64 and \<^verbatim>\<open>sizeof (strset_node_t)\<close> 40 on LP64.\<close>

definition strset_allocx ::
    "('t, char list) avl_ops \<Rightarrow> allocator \<Rightarrow> 32 word \<Rightarrow> strset_compare_func option \<Rightarrow> cret \<times> 't strset option" where
  "strset_allocx A mem flags cmp =
     (if flags AND NOT STRSET_FLAGS_ALL \<noteq> 0 then (Ret_err EINVAL, None)
      else (case mem 64 of
              None \<Rightarrow> (Ret_err ENOMEM, None)
            | Some _ \<Rightarrow>
                (Ret_ok, Some \<lparr>ss_strings = avl_create A (strset_comparator cmp), ss_flags = flags,
                               ss_walking = 0, ss_compare = cmp\<rparr>)))"

definition strset_alloc :: "('t, char list) avl_ops \<Rightarrow> allocator \<Rightarrow> 32 word \<Rightarrow> cret \<times> 't strset option" where
  "strset_alloc A mem flags = strset_allocx A mem flags None"

definition strset_node_alloc :: "allocator \<Rightarrow> char list \<Rightarrow> char list option" where
  "strset_node_alloc mem str = (case mem 40 of None \<Rightarrow> None | Some _ \<Rightarrow> strdup mem str)"

definition strset_reset :: "('t, char list) avl_ops \<Rightarrow> 't strset \<Rightarrow> 't strset outcome" where
  "strset_reset A ss =
     (if ss_walking ss \<noteq> 0 then Inl Fault_Abort
      else (let (freed, t) = avl_destroy_nodes A (ss_strings ss)
            in if avl_is_empty A t then Inr (ss\<lparr>ss_strings := t\<rparr>) else Inl Fault_Abort))"

text \<open>The freed set is gone: the result is only whether the call returns.\<close>

definition strset_free :: "('t, char list) avl_ops \<Rightarrow> 't strset option \<Rightarrow> unit outcome" where
  "strset_free A ssp =
     (case ssp of
        None \<Rightarrow> Inr ()
      | Some ss \<Rightarrow>
          if ss_walking ss \<noteq> 0 then Inl Fault_Abort
          else bindr (strset_reset A ss) (\<lambda>_. Inr ()))"

definition strset_remove ::
    "('t, char list) avl_ops \<Rightarrow> 't strset \<Rightarrow> char list option \<Rightarrow> (cret \<times> 't strset) outcome" where
  "strset_remove A ss torm =
     (if ss_walking ss \<noteq> 0 then Inl Fault_Abort
      else (case torm of
              None \<Rightarrow> Inl Fault_Abort
            | Some s \<Rightarrow>
                (case fst (avl_find A (ss_strings ss) s) of
                   None \<Rightarrow>
                     if ss_flags ss AND STRSET_IGNORE_MISSING \<noteq> 0 then Inr (Ret_ok, ss)
                     else Inr (Ret_err ENOENT, ss)
                 | Some ssn \<Rightarrow> Inr (Ret_ok, ss\<lparr>ss_strings := avl_remove A (ss_strings ss) ssn\<rparr>))))"

definition strset_add ::
    "('t, char list) avl_ops \<Rightarrow> allocator \<Rightarrow> 't strset \<Rightarrow> char list option \<Rightarrow> (cret \<times> 't strset) outcome" where
  "strset_add A mem ss str =
     (case str of
        None \<Rightarrow> Inl Fault_Abort
      | Some s \<Rightarrow>
          (case avl_find A (ss_strings ss) s of
             (Some _, _) \<Rightarrow>
               if ss_flags ss AND STRSET_IGNORE_DUPLICATES \<noteq> 0 then Inr (Ret_ok, ss)
               else Inr (Ret_err EEXIST, ss)
           | (None, where_to) \<Rightarrow>
               (case strset_node_alloc mem s of
                  None \<Rightarrow> Inr (Ret_err ENOMEM, ss)
                | Some ssn \<Rightarrow>
                    Inr (Ret_ok, ss\<lparr>ss_strings := avl_insert A (ss_strings ss) ssn where_to\<rparr>))))"

definition strset_contains :: "('t, char list) avl_ops \<Rightarrow> 't strset \<Rightarrow> char list option \<Rightarrow> bool outcome" where
  "strset_contains A ss search =
     (case search of
        None \<Rightarrow> Inl Fault_Abort
      | Some s \<Rightarrow> Inr (fst (avl_find A (ss_strings ss) s) \<noteq> None))"

text \<open>The \<^verbatim>\<open>ulong_t\<close> count is returned as an \<^verbatim>\<open>int\<close>.\<close>

definition strset_count :: "('t, char list) avl_ops \<Rightarrow> 't strset \<Rightarrow> int" where
  "strset_count A ss = int32_of (int (avl_numnodes A (ss_strings ss)))"

text \<open>
  The callback of a walk sees the set and its own state; it may change both (a set that is being
  walked can be added to, and walked again). As it may add strings for ever the loop has fuel.
\<close>

type_synonym ('t, 'a) strset_walk_func =
  "'t strset \<Rightarrow> char list \<Rightarrow> 'a \<Rightarrow> (32 word \<times> 't strset \<times> 'a) outcome"

fun strset_walk_loop ::
    "('t, char list) avl_ops \<Rightarrow> ('t, 'a) strset_walk_func \<Rightarrow> nat \<Rightarrow> char list option \<Rightarrow> 't strset \<Rightarrow> 'a
     \<Rightarrow> (errno option \<times> 't strset \<times> 'a) outcome" where
  "strset_walk_loop A walk_cb n None ss arg = Inr (None, ss, arg)"
| "strset_walk_loop A walk_cb 0 (Some cur) ss arg = Inl Fault_Fuel"
| "strset_walk_loop A walk_cb (Suc n) (Some cur) ss arg =
     bindr (walk_cb ss cur arg) (\<lambda>(ret, ss, arg).
       let nxt = AVL_NEXT A (ss_strings ss) cur;
           ss = (if ret AND STRSET_WALK_REMOVE \<noteq> 0
                 then ss\<lparr>ss_strings := avl_remove A (ss_strings ss) cur\<rparr> else ss);
           whatnext = STRSET_WALK_WHATNEXT ret
       in if whatnext = STRSET_WALK_NEXT then strset_walk_loop A walk_cb n nxt ss arg
          else if whatnext = STRSET_WALK_DONE then Inr (None, ss, arg)
          else if whatnext = STRSET_WALK_CANCEL then Inr (Some ECANCELED, ss, arg)
          else Inl Fault_Abort)"

definition strset_walk ::
    "('t, char list) avl_ops \<Rightarrow> nat \<Rightarrow> 't strset \<Rightarrow> ('t, 'a) strset_walk_func \<Rightarrow> 'a \<Rightarrow> (cret \<times> 't strset \<times> 'a) outcome" where
  "strset_walk A fuel ss walk_cb arg =
     (let ss = ss\<lparr>ss_walking := ss_walking ss + 1\<rparr>
      in bindr (strset_walk_loop A walk_cb fuel (avl_first A (ss_strings ss)) ss arg)
           (\<lambda>(error, ss, arg).
              Inr (case error of None \<Rightarrow> Ret_ok | Some e \<Rightarrow> Ret_err e,
                   ss\<lparr>ss_walking := ss_walking ss - 1\<rparr>, arg)))"

lemma default_comparator: "strset_comparator None x y < 0 \<longleftrightarrow> strcmp x y < 0"
  "strset_comparator None x y = 0 \<longleftrightarrow> x = y"  "strset_comparator None x y \<le> 0 \<longleftrightarrow> strcmp x y \<le> 0"
  "0 < strset_comparator None x y \<longleftrightarrow> 0 < strcmp x y"
  by (auto simp: strset_comparator_def Let_def)

lemma default_comparator_order [simp]: "comparator_order (strset_comparator None)"
  unfolding comparator_order_def default_comparator
  using strcmp_antisym strcmp_trans by blast

section \<open>The abstract set\<close>

datatype set_op = Op_add "char list" | Op_remove "char list"

text \<open>What an operation returns and what it makes of the set: \<open>d\<close> and \<open>m\<close> are the flags.\<close>

fun set_step :: "bool \<Rightarrow> bool \<Rightarrow> set_op \<Rightarrow> char list set \<Rightarrow> cret \<times> char list set" where
  "set_step d m (Op_add x) S =
     (if x \<in> S then (if d then Ret_ok else Ret_err EEXIST, S) else (Ret_ok, insert x S))"
| "set_step d m (Op_remove x) S =
     (if x \<in> S then (Ret_ok, S - {x}) else (if m then Ret_ok else Ret_err ENOENT, S))"

fun set_run :: "bool \<Rightarrow> bool \<Rightarrow> set_op list \<Rightarrow> char list set \<Rightarrow> cret list \<times> char list set" where
  "set_run d m [] S = ([], S)"
| "set_run d m (opn # ops) S =
     (let (r, S) = set_step d m opn S; (rs, S) = set_run d m ops S in (r # rs, S))"

text \<open>The same sequence of calls on an implementation.\<close>

fun ops_run ::
    "('s \<Rightarrow> char list \<Rightarrow> (cret \<times> 's) outcome) \<Rightarrow> ('s \<Rightarrow> char list \<Rightarrow> (cret \<times> 's) outcome)
     \<Rightarrow> set_op list \<Rightarrow> 's \<Rightarrow> (cret list \<times> 's) outcome" where
  "ops_run add rem [] s = Inr ([], s)"
| "ops_run add rem (opn # ops) s =
     bindr (case opn of Op_add x \<Rightarrow> add s x | Op_remove x \<Rightarrow> rem s x) (\<lambda>(r, s).
     bindr (ops_run add rem ops s) (\<lambda>(rs, s). Inr (r # rs, s)))"

locale string_set =
  fixes add :: "'s \<Rightarrow> char list \<Rightarrow> (cret \<times> 's) outcome"
    and rem :: "'s \<Rightarrow> char list \<Rightarrow> (cret \<times> 's) outcome"
    and mem_of :: "'s \<Rightarrow> char list \<Rightarrow> bool outcome"
    and d m :: bool and inv :: "'s \<Rightarrow> bool" and elems :: "'s \<Rightarrow> char list set"
  assumes add_step: "inv s \<Longrightarrow> \<exists>s'. add s x = Inr (fst (set_step d m (Op_add x) (elems s)), s') \<and>
      inv s' \<and> elems s' = snd (set_step d m (Op_add x) (elems s))"
    and rem_step: "inv s \<Longrightarrow> \<exists>s'. rem s x = Inr (fst (set_step d m (Op_remove x) (elems s)), s') \<and>
      inv s' \<and> elems s' = snd (set_step d m (Op_remove x) (elems s))"
    and mem_of_iff: "inv s \<Longrightarrow> mem_of s x = Inr (x \<in> elems s)"
begin

lemma run_refines:
  "inv s \<Longrightarrow> \<exists>s'. ops_run add rem ops s = Inr (fst (set_run d m ops (elems s)), s') \<and>
     inv s' \<and> elems s' = snd (set_run d m ops (elems s))"
proof (induction ops arbitrary: s)
  case (Cons opn ops)
  have "\<exists>s1. (case opn of Op_add x \<Rightarrow> add s x | Op_remove x \<Rightarrow> rem s x) =
      Inr (fst (set_step d m opn (elems s)), s1) \<and> inv s1 \<and> elems s1 = snd (set_step d m opn (elems s))"
  proof (cases opn)
    case (Op_add x)
    then show ?thesis using add_step [OF Cons.prems, of x] by (simp del: set_step.simps)
  next
    case (Op_remove x)
    then show ?thesis using rem_step [OF Cons.prems, of x] by (simp del: set_step.simps)
  qed
  then obtain s1 where s1: "(case opn of Op_add x \<Rightarrow> add s x | Op_remove x \<Rightarrow> rem s x) =
      Inr (fst (set_step d m opn (elems s)), s1)" "inv s1" "elems s1 = snd (set_step d m opn (elems s))"
    by blast
  show ?case
    using Cons.IH [OF s1(2)] s1 by (auto simp: Let_def split_beta)
qed simp

end

text \<open>The provider: the string set over the tree library, with memory and the default comparison.\<close>

locale strset_heap = avl_library A avl_ok nodes + working_heap mem
  for A :: "('t, char list) avl_ops" and avl_ok nodes mem +
  fixes flags :: "32 word"
begin

definition set_inv :: "'t strset \<Rightarrow> bool" where
  "set_inv ss \<longleftrightarrow> avl_ok (strset_comparator None) (ss_strings ss) \<and> ss_flags ss = flags \<and>
     ss_walking ss = 0 \<and> ss_compare ss = None"

definition set_elems :: "'t strset \<Rightarrow> char list set" where
  "set_elems ss = set (nodes (ss_strings ss))"

lemma nodes_distinct: "avl_ok (strset_comparator None) t \<Longrightarrow> distinct (nodes t)"
  using ordered [of "strset_comparator None" t] by (simp add: default_comparator sorted_strcmp_distinct)

lemma find_default:
  assumes "avl_ok (strset_comparator None) t"
  shows "fst (avl_find A t s) = (if s \<in> set (nodes t) then Some s else None)"
proof -
  have "List.find (\<lambda>x. s = x) xs = (if s \<in> set xs then Some s else None)" for xs :: "char list list"
    by (induction xs) auto
  then show ?thesis using find [OF assms] by (simp add: default_comparator)
qed

lemma insertion_default:
  assumes "avl_ok (strset_comparator None) t" "avl_find A t s = (None, w)"
  shows "avl_ok (strset_comparator None) (avl_insert A t s w)" "set (nodes (avl_insert A t s w)) = insert s (set (nodes t))"
proof -
  have "s \<notin> set (nodes t)" using find_default [OF assms(1), of s] assms(2) by (auto split: if_splits)
  then have "strcmp x s < 0 \<or> strcmp s x < 0" if "x \<in> set (nodes t)" for x
    using that strcmp_antisym [of s x] strcmp_eq_0 [of x s] by (metis linorder_neqE)
  then show "avl_ok (strset_comparator None) (avl_insert A t s w)"
    "set (nodes (avl_insert A t s w)) = insert s (set (nodes t))"
    using insertion [OF assms] by (auto simp: default_comparator)
qed

lemma node_alloc_good: "strset_node_alloc mem s = Some s"
  using good_allocD [OF good, of 40] strdup_good [OF good] by (auto simp: strset_node_alloc_def)

end

sublocale strset_heap \<subseteq> str: string_set "\<lambda>ss s. strset_add A mem ss (Some s)"
  "\<lambda>ss s. strset_remove A ss (Some s)" "\<lambda>ss s. strset_contains A ss (Some s)"
  "flags AND STRSET_IGNORE_DUPLICATES \<noteq> 0" "flags AND STRSET_IGNORE_MISSING \<noteq> 0" set_inv set_elems
proof (unfold_locales, goal_cases)
  case (1 s x)
  obtain r w where f: "avl_find A (ss_strings s) x = (r, w)" by (cases "avl_find A (ss_strings s) x")
  have ok: "avl_ok (strset_comparator None) (ss_strings s)" using 1 by (simp add: set_inv_def)
  show ?case
    using 1 find_default [OF ok, of x] insertion_default [OF ok] f node_alloc_good
    by (cases r) (auto simp: strset_add_def set_inv_def set_elems_def split: if_splits)
next
  case (2 s x)
  have ok: "avl_ok (strset_comparator None) (ss_strings s)" using 2 by (simp add: set_inv_def)
  show ?case
    using 2 find_default [OF ok, of x] removal [OF ok, of x] nodes_distinct [OF ok]
    by (auto simp: strset_remove_def set_inv_def set_elems_def)
next
  case (3 s x)
  then show ?case
    using find_default [of "ss_strings s" x] by (simp add: strset_contains_def set_inv_def set_elems_def)
qed

section \<open>Walking\<close>

text \<open>
  A callback that leaves the set alone: it answers with \<open>dec\<close> and updates its own state with \<open>upd\<close>.
  The reference walk runs over the list of strings and returns the error, the strings left in the
  set and the final state.
\<close>

definition plain_cb ::
    "(char list \<Rightarrow> 'a \<Rightarrow> 32 word) \<Rightarrow> (char list \<Rightarrow> 'a \<Rightarrow> 'a) \<Rightarrow> ('t, 'a) strset_walk_func" where
  "plain_cb dec upd ss s arg = Inr (dec s arg, ss, upd s arg)"

fun walk_spec ::
    "(char list \<Rightarrow> 'a \<Rightarrow> 32 word) \<Rightarrow> (char list \<Rightarrow> 'a \<Rightarrow> 'a) \<Rightarrow> char list list \<Rightarrow> 'a
     \<Rightarrow> errno option \<times> char list list \<times> 'a" where
  "walk_spec dec upd [] arg = (None, [], arg)"
| "walk_spec dec upd (x # xs) arg =
     (let ret = dec x arg; w = STRSET_WALK_WHATNEXT ret;
          kept = (if ret AND STRSET_WALK_REMOVE \<noteq> 0 then [] else [x])
      in if w = STRSET_WALK_NEXT
         then (let (e, ys, a) = walk_spec dec upd xs (upd x arg) in (e, kept @ ys, a))
         else (if w = STRSET_WALK_DONE then None else Some ECANCELED, kept @ xs, upd x arg))"

definition walk_answers :: "(char list \<Rightarrow> 'a \<Rightarrow> 32 word) \<Rightarrow> bool" where
  "walk_answers dec \<longleftrightarrow>
     (\<forall>s a. STRSET_WALK_WHATNEXT (dec s a) \<in> {STRSET_WALK_NEXT, STRSET_WALK_DONE, STRSET_WALK_CANCEL})"

lemmas walk_consts = STRSET_WALK_NEXT_def STRSET_WALK_DONE_def STRSET_WALK_CANCEL_def

locale string_avl = avl_library A avl_ok nodes
  for A :: "('t, char list) avl_ops" and avl_ok nodes
begin

lemma walk_loop_spec:
  assumes order: "comparator_order cmp" and valid: "walk_answers dec"
  shows "avl_ok cmp (ss_strings ss) \<Longrightarrow> nodes (ss_strings ss) = pre @ xs \<Longrightarrow> length xs \<le> n \<Longrightarrow>
    \<exists>t. avl_ok cmp t \<and> nodes t = pre @ fst (snd (walk_spec dec upd xs arg)) \<and>
      strset_walk_loop A (plain_cb dec upd) n (case xs of [] \<Rightarrow> None | x # _ \<Rightarrow> Some x) ss arg =
        Inr (fst (walk_spec dec upd xs arg), ss\<lparr>ss_strings := t\<rparr>, snd (snd (walk_spec dec upd xs arg)))"
proof (induction xs arbitrary: ss pre n arg)
  case Nil
  then show ?case by (cases n) auto
next
  case (Cons x xs)
  let ?ret = "dec x arg" and ?t = "ss_strings ss"
  let ?t' = "if ?ret AND STRSET_WALK_REMOVE \<noteq> 0 then avl_remove A ?t x else ?t"
  let ?kept = "if ?ret AND STRSET_WALK_REMOVE \<noteq> 0 then [] else [x]"
  obtain n' where n: "n = Suc n'" using Cons.prems(3) by (cases n) auto
  have nx: "AVL_NEXT A ?t x = (case xs of [] \<Rightarrow> None | y # _ \<Rightarrow> Some y)"
    using next_node [OF Cons.prems(1,2)] .
  have "x \<notin> set pre"
    using sorted_comparator_distinct [OF order ordered [OF Cons.prems(1)]] Cons.prems(2) by simp
  then have t': "avl_ok cmp ?t'" "nodes ?t' = (pre @ ?kept) @ xs"
    using removal [OF Cons.prems(1), of x] Cons.prems(1,2) by (auto simp: remove1_append)
  let ?ss = "ss\<lparr>ss_strings := ?t'\<rparr>"
  have ss: "(if ?ret AND STRSET_WALK_REMOVE \<noteq> 0 then ss\<lparr>ss_strings := avl_remove A ?t x\<rparr> else ss) = ?ss"
    by simp
  consider "STRSET_WALK_WHATNEXT ?ret = STRSET_WALK_NEXT" | "STRSET_WALK_WHATNEXT ?ret = STRSET_WALK_DONE"
    | "STRSET_WALK_WHATNEXT ?ret = STRSET_WALK_CANCEL"
    using valid by (auto simp: walk_answers_def)
  then show ?case
  proof cases
    case 1
    have "avl_ok cmp (ss_strings ?ss)" "nodes (ss_strings ?ss) = (pre @ ?kept) @ xs" "length xs \<le> n'"
      using t' Cons.prems(3) n by simp_all
    from Cons.IH [OF this, of "upd x arg"] 1 show ?thesis
      by (auto simp: n plain_cb_def Let_def nx split_beta ss)
  next
    case 2
    then show ?thesis using t' by (auto simp: n plain_cb_def Let_def walk_consts ss)
  next
    case 3
    then show ?thesis using t' by (auto simp: n plain_cb_def Let_def walk_consts ss)
  qed
qed

lemma walk_refines:
  assumes order: "comparator_order (strset_comparator (ss_compare ss))" and valid: "walk_answers dec"
    and ok: "avl_ok (strset_comparator (ss_compare ss)) (ss_strings ss)"
    and fuel: "avl_numnodes A (ss_strings ss) \<le> fuel"
    and spec: "walk_spec dec upd (nodes (ss_strings ss)) arg = (e, kept, arg')"
  shows "\<exists>ss'. strset_walk A fuel ss (plain_cb dec upd) arg =
      Inr (case e of None \<Rightarrow> Ret_ok | Some x \<Rightarrow> Ret_err x, ss', arg') \<and>
    nodes (ss_strings ss') = kept \<and> avl_ok (strset_comparator (ss_compare ss)) (ss_strings ss') \<and>
    ss_walking ss' = ss_walking ss \<and> ss_flags ss' = ss_flags ss \<and> ss_compare ss' = ss_compare ss"
proof -
  let ?ss = "ss\<lparr>ss_walking := ss_walking ss + 1\<rparr>" and ?xs = "nodes (ss_strings ss)"
  have "avl_ok (strset_comparator (ss_compare ss)) (ss_strings ?ss)" "nodes (ss_strings ?ss) = [] @ ?xs"
    "length ?xs \<le> fuel" using ok fuel numnodes [OF ok] by simp_all
  from walk_loop_spec [OF order valid this, of upd arg] show ?thesis
    using first_node [OF ok] spec by (auto simp: strset_walk_def Let_def)
qed

text \<open>
  A walk whose callback always goes on and leaves the set alone is a fold over the strings in order,
  under an invariant of the callback's state.
\<close>

lemma walk_loop_fold:
  assumes ok: "avl_ok cmp (ss_strings ss)"
    and cb: "\<And>x a. x \<in> set (nodes (ss_strings ss)) \<Longrightarrow> I a \<Longrightarrow> cb ss x a = Inr (STRSET_WALK_NEXT, ss, f x a) \<and> I (f x a)"
  shows "nodes (ss_strings ss) = pre @ xs \<Longrightarrow> length xs \<le> n \<Longrightarrow> I a \<Longrightarrow>
    strset_walk_loop A cb n (case xs of [] \<Rightarrow> None | x # _ \<Rightarrow> Some x) ss a = Inr (None, ss, fold f xs a) \<and> I (fold f xs a)"
proof (induction xs arbitrary: pre n a)
  case (Cons x xs)
  obtain n' where n: "n = Suc n'" using Cons.prems(2) by (cases n) auto
  have nx: "AVL_NEXT A (ss_strings ss) x = (case xs of [] \<Rightarrow> None | y # _ \<Rightarrow> Some y)"
    using next_node [OF ok Cons.prems(1)] .
  have "cb ss x a = Inr (STRSET_WALK_NEXT, ss, f x a)" "I (f x a)" using cb [of x a] Cons.prems(1,3) by auto
  then show ?case
    using Cons.IH [of "pre @ [x]" n' "f x a"] Cons.prems(1,2) n nx
    by (simp add: Let_def STRSET_WALK_WHATNEXT_def walk_consts)
qed simp

lemma walk_fold:
  assumes ok: "avl_ok cmp (ss_strings ss)" and "I a"
    and cb: "\<And>ss' x a. ss_strings ss' = ss_strings ss \<Longrightarrow> x \<in> set (nodes (ss_strings ss)) \<Longrightarrow> I a \<Longrightarrow>
      cb ss' x a = Inr (STRSET_WALK_NEXT, ss', f x a) \<and> I (f x a)"
  shows "strset_walk A (avl_numnodes A (ss_strings ss)) ss cb a = Inr (Ret_ok, ss, fold f (nodes (ss_strings ss)) a) \<and>
    I (fold f (nodes (ss_strings ss)) a)"
proof -
  let ?ss = "ss\<lparr>ss_walking := ss_walking ss + 1\<rparr>" and ?xs = "nodes (ss_strings ss)"
  have "strset_walk_loop A cb (avl_numnodes A (ss_strings ss)) (case ?xs of [] \<Rightarrow> None | x # _ \<Rightarrow> Some x) ?ss a =
      Inr (None, ?ss, fold f ?xs a) \<and> I (fold f ?xs a)"
  proof (rule walk_loop_fold [where I = I and pre = "[]"])
    show "avl_ok cmp (ss_strings ?ss)" using ok by simp
    show "cb ?ss x b = Inr (STRSET_WALK_NEXT, ?ss, f x b) \<and> I (f x b)" if "x \<in> set (nodes (ss_strings ?ss))" "I b" for x b
      using cb [of ?ss x b] that by simp
  qed (use numnodes [OF ok] assms(2) in simp_all)
  then show ?thesis using first_node [OF ok] by (simp add: strset_walk_def Let_def)
qed

end

interpretation ls: string_avl list_avl list_avl_ok snd
  by unfold_locales

context strset_heap
begin

lemma flags_allowed:
  assumes "strset_alloc A mem flags = (Ret_ok, Some ss)"
  shows "flags AND STRSET_IGNORE_MISSING = 0"
proof -
  have "flags AND NOT (1 :: 32 word) = 0"
    using assms by (auto simp: strset_alloc_def strset_allocx_def STRSET_FLAGS_ALL_def
        STRSET_IGNORE_DUPLICATES_def split: if_splits)
  then have "(flags AND NOT (1 :: 32 word)) AND 2 = 0" by (simp only: and_zero_eq zero_and_eq)
  then have "flags AND (NOT (1 :: 32 word) AND 2) = 0" by (simp only: and.assoc)
  moreover have "NOT (1 :: 32 word) AND 2 = 2" by simp
  ultimately show ?thesis by (simp only: STRSET_IGNORE_MISSING_def)
qed

lemma alloc_inv:
  assumes "strset_alloc A mem flags = (Ret_ok, Some ss)"
  shows "set_inv ss" "set_elems ss = {}"
  using assms create [OF default_comparator_order]
  by (auto simp: strset_alloc_def strset_allocx_def set_inv_def set_elems_def split: if_splits option.splits)

lemma count_card: "set_inv ss \<Longrightarrow> strset_count A ss = int32_of (int (card (set_elems ss)))"
  using numnodes [of "strset_comparator None" "ss_strings ss"] nodes_distinct [of "ss_strings ss"]
  by (simp add: strset_count_def set_inv_def set_elems_def distinct_card)

lemma contains_iff: "set_inv ss \<Longrightarrow> strset_contains A ss (Some s) = Inr (s \<in> set_elems ss)"
  by (rule str.mem_of_iff)

lemma free_returns: "set_inv ss \<Longrightarrow> strset_free A (Some ss) = Inr ()"
  using destroy [of "strset_comparator None" "ss_strings ss"] is_empty [of "strset_comparator None" "snd (avl_destroy_nodes A (ss_strings ss))"]
  by (simp add: strset_free_def strset_reset_def set_inv_def split_beta)

lemma fresh_run:
  assumes "strset_alloc A mem flags = (Ret_ok, Some ss)"
    and "set_run (flags AND STRSET_IGNORE_DUPLICATES \<noteq> 0) False ops {} = (rs, S)"
  shows "\<exists>ss'. ops_run (\<lambda>ss s. strset_add A mem ss (Some s)) (\<lambda>ss s. strset_remove A ss (Some s)) ops ss
    = Inr (rs, ss') \<and> set_inv ss' \<and> set_elems ss' = S"
  using str.run_refines [OF alloc_inv(1) [OF assms(1)], of ops] assms(2) flags_allowed [OF assms(1)]
  by (simp add: alloc_inv(2) [OF assms(1)])

end

section \<open>Properties\<close>

text \<open>C31: The string set refines a set. With a tree library that keeps its promises, memory and the
  default comparison, a fresh set on which any sequence of additions and removals is run gives, call
  by call, the answers of the abstract set (\<^verbatim>\<open>EEXIST\<close> for a duplicate unless duplicates are ignored,
  \<^verbatim>\<open>ENOENT\<close> for a missing string), and afterwards \<^verbatim>\<open>strset_contains\<close> decides membership,
  \<^verbatim>\<open>strset_count\<close> is the number of elements as an \<^verbatim>\<open>int\<close>, and \<^verbatim>\<open>strset_free\<close> does not abort.\<close>

theorem strset_refines_set:
  assumes "avl_library A avl_ok nodes" "good_alloc mem" "strset_alloc A mem flags = (Ret_ok, Some ss)"
    and "set_run (flags AND STRSET_IGNORE_DUPLICATES \<noteq> 0) False ops {} = (rs, S)"
  shows "returns (ops_run (\<lambda>ss s. strset_add A mem ss (Some s)) (\<lambda>ss s. strset_remove A ss (Some s)) ops ss)
    (\<lambda>(rs', ss'). rs' = rs \<and> (\<forall>s. strset_contains A ss' (Some s) = Inr (s \<in> S)) \<and>
       strset_count A ss' = int32_of (int (card S)) \<and> strset_free A (Some ss') = Inr ())"
proof -
  have h: "strset_heap A avl_ok nodes mem" using assms(1,2) by (simp add: strset_heap_def working_heap_def)
  note facts = strset_heap.count_card [OF h] strset_heap.free_returns [OF h]
    strset_heap.contains_iff [OF h]
  show ?thesis
    using strset_heap.fresh_run [OF h assms(3,4)] facts by (auto simp: returns_def)
qed

definition strset_sample :: "(char list comparator \<times> char list list) strset" where
  "strset_sample = \<lparr>ss_strings = (strset_comparator None, []), ss_flags = 1, ss_walking = 0, ss_compare = None\<rparr>"

lemma strset_sample_alloc: "strset_alloc list_avl heap_base 1 = (Ret_ok, Some strset_sample)"
  by (simp add: strset_alloc_def strset_allocx_def strset_sample_def list_avl_def heap_base_def
      STRSET_FLAGS_ALL_def STRSET_IGNORE_DUPLICATES_def)

theorem strset_refines_set_witness:
  "returns (ops_run (\<lambda>ss s. strset_add list_avl heap_base ss (Some s)) (\<lambda>ss s. strset_remove list_avl ss (Some s))
      [Op_add ''b'', Op_add ''a'', Op_add ''b'', Op_remove ''c''] strset_sample)
    (\<lambda>(rs', ss'). rs' = [Ret_ok, Ret_ok, Ret_ok, Ret_err ENOENT] \<and> strset_contains list_avl ss' (Some ''a'') = Inr True)"
proof -
  have "set_run (1 AND STRSET_IGNORE_DUPLICATES \<noteq> 0) False [Op_add ''b'', Op_add ''a'', Op_add ''b'', Op_remove ''c''] {}
      = ([Ret_ok, Ret_ok, Ret_ok, Ret_err ENOENT], {''a'', ''b''})"
    by (simp add: STRSET_IGNORE_DUPLICATES_def)
  from strset_refines_set [OF la.avl_library_axioms good_heap_base strset_sample_alloc this]
  show ?thesis by (rule returns_mono) auto
qed

text \<open>C32: A walk visits the strings in the order of the comparison. For a callback that leaves the set
  alone, with as much fuel as there are strings, the walk returns, and it does what the reference
  walk over the ordered list of strings does: the strings the callback asked to remove, and only
  those, are gone, the walk stops at the first string with another answer than \<^verbatim>\<open>NEXT\<close>, it fails
  with \<^verbatim>\<open>ECANCELED\<close> exactly if that answer was \<^verbatim>\<open>CANCEL\<close>, and the set is as open to removals as it
  was before.\<close>

theorem strset_walk_refines_list_walk:
  assumes "avl_library A avl_ok nodes" "comparator_order (strset_comparator (ss_compare ss))"
    and "avl_ok (strset_comparator (ss_compare ss)) (ss_strings ss)" "walk_answers dec"
    and "avl_numnodes A (ss_strings ss) \<le> fuel"
    and "walk_spec dec upd (nodes (ss_strings ss)) arg = (e, kept, arg')"
  shows "sorted_wrt (\<lambda>x y. strset_comparator (ss_compare ss) x y < 0) (nodes (ss_strings ss)) \<and>
    returns (strset_walk A fuel ss (plain_cb dec upd) arg) (\<lambda>(r, ss', a).
      r = (case e of None \<Rightarrow> Ret_ok | Some x \<Rightarrow> Ret_err x) \<and> a = arg' \<and> nodes (ss_strings ss') = kept \<and>
      ss_walking ss' = ss_walking ss)"
  using string_avl.walk_refines [OF string_avl.intro [OF assms(1)] assms(2,4,3,5,6)] avl_library.ordered [OF assms(1,3)]
  by (auto simp: returns_def)

theorem strset_walk_refines_list_walk_witness:
  "returns (strset_walk list_avl 3 (strset_sample\<lparr>ss_strings := (strset_comparator None, [''a'', ''b'', ''c''])\<rparr>)
      (plain_cb (\<lambda>s n. if s = ''b'' then 0x11 else 0x00) (\<lambda>s n. n + length s)) 0)
    (\<lambda>(r, ss', n). r = Ret_ok \<and> n = 2 \<and> snd (ss_strings ss') = [''a'', ''c''])"
proof -
  let ?ss = "strset_sample\<lparr>ss_strings := (strset_comparator None, [''a'', ''b'', ''c''])\<rparr>"
  let ?dec = "\<lambda>s n :: nat. if s = ''b'' then 0x11 else (0x00 :: 32 word)"
  let ?upd = "\<lambda>s (n :: nat). n + length s"
  have cmp: "ss_compare ?ss = None" "comparator_order (strset_comparator (ss_compare ?ss))"
    by (simp_all add: strset_sample_def)
  have ok: "list_avl_ok (strset_comparator (ss_compare ?ss)) (ss_strings ?ss)"
    by (simp add: list_avl_ok_def cmp default_comparator)
  have dec: "walk_answers ?dec"
    by (simp add: walk_answers_def STRSET_WALK_WHATNEXT_def walk_consts)
  have fuel: "avl_numnodes list_avl (ss_strings ?ss) \<le> 3" by (simp add: list_avl_def)
  have "walk_spec ?dec ?upd (snd (ss_strings ?ss)) 0 = (None, [''a'', ''c''], 2)"
    by (simp add: STRSET_WALK_WHATNEXT_def walk_consts STRSET_WALK_REMOVE_def Let_def)
  from strset_walk_refines_list_walk [OF la.avl_library_axioms cmp(2) ok dec fuel this]
  show ?thesis by (elim conjE returns_mono) auto
qed

end
