(* ===== verification/String_Buffer.thy ===== *)
theory String_Buffer
  imports Cmodel_Prelude
begin

text \<open>
  The contract that the two growable string implementations of the repository promise to their
  clients: \<^verbatim>\<open>string_t\<close> of the metadata client (theory \<open>Dynstr\<close>) and \<^verbatim>\<open>custr_t\<close> of the
  build tools, the path code and the JSON parser (theory \<open>Custr\<close>).

  \<open>rep s cs\<close> says that \<open>s\<close> is well formed and holds the bytes \<open>cs\<close>. Appending one character
  always succeeds (given memory); appending a string is promised only once the buffer owns
  storage, because both implementations mis-size the very first allocation
  (\<open>dynstr_append_overflow_iff\<close>, \<open>custr_append_overflow_iff\<close>).
\<close>

locale string_buffer =
  fixes rep :: "'s \<Rightarrow> char list \<Rightarrow> bool"
    and owns :: "'s \<Rightarrow> bool"
    and appendc :: "'s \<Rightarrow> char \<Rightarrow> 's option"
    and append :: "'s \<Rightarrow> char list \<Rightarrow> 's option"
    and reset :: "'s \<Rightarrow> 's option"
    and text_of :: "'s \<Rightarrow> char list outcome"
  assumes appendc_ok: "rep s cs \<Longrightarrow> \<exists>s'. appendc s c = Some s' \<and> rep s' (cs @ [c]) \<and> owns s'"
    and append_ok: "rep s cs \<Longrightarrow> owns s \<Longrightarrow> length (cstr t) \<le> 2 ^ 30 \<Longrightarrow>
           \<exists>s'. append s t = Some s' \<and> rep s' (cs @ cstr t) \<and> owns s'"
    and reset_ok: "rep s cs \<Longrightarrow> \<exists>s'. reset s = Some s' \<and> rep s' [] \<and> owns s' = owns s"
    and text_ok: "rep s cs \<Longrightarrow> owns s \<Longrightarrow> text_of s = Inr (cstr cs)"
    and rep_unique: "rep s cs \<Longrightarrow> rep s ds \<Longrightarrow> cs = ds"
begin

text \<open>Appending character by character, the way every scanner of the repository collects a token.\<close>

primrec appendcs :: "'s \<Rightarrow> char list \<Rightarrow> 's option" where
  "appendcs s [] = Some s"
| "appendcs s (c # cs) = Option.bind (appendc s c) (\<lambda>s'. appendcs s' cs)"

lemma appendcs_ok:
  "rep s cs \<Longrightarrow> \<exists>s'. appendcs s ds = Some s' \<and> rep s' (cs @ ds) \<and> (owns s \<or> ds \<noteq> [] \<longrightarrow> owns s')"
proof (induction ds arbitrary: s cs)
  case Nil
  then show ?case by simp
next
  case (Cons d ds)
  obtain s1 where s1: "appendc s d = Some s1" "rep s1 (cs @ [d])" "owns s1"
    using appendc_ok [OF Cons.prems] by blast
  from Cons.IH [OF s1(2)] obtain s2
    where s2: "appendcs s1 ds = Some s2" "rep s2 ((cs @ [d]) @ ds)" "owns s2"
    using s1(3) by blast
  then show ?case using s1 by simp
qed

text \<open>Collecting a token into a buffer that was reset gives exactly the token.\<close>

lemma reset_then_collect:
  assumes "rep s cs" and "tok \<noteq> []"
  shows "\<exists>s1 s2. reset s = Some s1 \<and> appendcs s1 tok = Some s2 \<and> rep s2 tok \<and>
           text_of s2 = Inr (cstr tok)"
proof -
  obtain s1 where s1: "reset s = Some s1" "rep s1 []" using reset_ok [OF assms(1)] by blast
  obtain s2 where "appendcs s1 tok = Some s2" "rep s2 tok" "owns s2"
    using appendcs_ok [OF s1(2), of tok] assms(2) by auto
  then show ?thesis using s1 text_ok by blast
qed

text \<open>One string append is the same as appending its characters one by one.\<close>

lemma append_as_appendcs:
  assumes "rep s cs" "owns s" "nul_free t" "length t \<le> 2 ^ 30"
  shows "\<exists>s1 s2. append s t = Some s1 \<and> appendcs s t = Some s2 \<and>
           (\<forall>ds. rep s1 ds \<longleftrightarrow> rep s2 ds)"
proof -
  obtain s1 where s1: "append s t = Some s1" "rep s1 (cs @ t)"
    using append_ok [OF assms(1,2), of t] assms(3,4) by auto
  obtain s2 where "appendcs s t = Some s2" "rep s2 (cs @ t)"
    using appendcs_ok [OF assms(1), of t] by blast
  then show ?thesis using s1 rep_unique by metis
qed

end

end
