(* ===== verification/Custr.thy ===== *)
theory Custr
  imports String_Buffer
begin

text \<open>
  \<^verbatim>\<open>src/src/common/strings/custr.c\<close>: the growable string of the path code, the line parser and
  the JSON parser. The record is \<^verbatim>\<open>struct custr\<close>; the buffer pointer carries its address,
  because the bound passed to the second \<^verbatim>\<open>vsnprintf\<close> is computed from it. What a format and
  its arguments produce is an argument of \<open>custr_append_vprintf\<close>: an error, or the text.
\<close>

section \<open>State and operations\<close>

record custr =
  cus_strlen :: nat
  cus_datalen :: nat
  cus_data :: "(nat \<times> buf) option"
  cus_fixed :: bool   \<comment> \<open>\<^verbatim>\<open>CUSTR_FIXEDBUF\<close>\<close>

definition STRING_CHUNK_SIZE :: nat where
  "STRING_CHUNK_SIZE = 64"

definition custr_reset :: "custr \<Rightarrow> custr outcome" where
  "custr_reset cus =
     (case cus_data cus of
        None \<Rightarrow> Inr cus
      | Some (a, b) \<Rightarrow>
          bindr (buf_put b 0 [NUL]) (\<lambda>b'. Inr (cus\<lparr>cus_strlen := 0, cus_data := Some (a, b')\<rparr>)))"

definition custr_len :: "custr \<Rightarrow> nat" where
  "custr_len cus = cus_strlen cus"

definition custr_cstr :: "custr \<Rightarrow> char list outcome" where
  "custr_cstr cus =
     (case cus_data cus of
        None \<Rightarrow> if cus_strlen cus = 0 \<and> cus_datalen cus = 0 then Inr [] else Inl Fault_Abort
      | Some (a, b) \<Rightarrow> buf_cstr b)"

text \<open>
  \<^verbatim>\<open>vsnprintf\<close>: the formatted text, or an error; a text longer than \<^verbatim>\<open>INT_MAX\<close> is the error
  \<^verbatim>\<open>EOVERFLOW\<close>. With a bound \<open>n\<close> it writes at most \<open>n\<close> bytes, the terminator included.
\<close>

type_synonym formatted = "errno + char list"

definition vsn_text :: "formatted \<Rightarrow> errno + char list" where
  "vsn_text fmt =
     (case fmt of Inl e \<Rightarrow> Inl e
      | Inr text \<Rightarrow> if INT_MAX < length text then Inl EOVERFLOW else Inr text)"

definition vsn_write :: "buf \<Rightarrow> nat \<Rightarrow> nat \<Rightarrow> char list \<Rightarrow> buf outcome" where
  "vsn_write b i n text = (if n = 0 then Inr b else buf_put b i (take (n - 1) text @ [NUL]))"

text \<open>\<^verbatim>\<open>(uintptr_t)cus_data - (uintptr_t)cus_strlen\<close>, an unsigned 64-bit subtraction.\<close>

definition print_bound :: "nat \<Rightarrow> nat \<Rightarrow> nat" where
  "print_bound addr len = (if len \<le> addr then addr - len else addr + 2 ^ 64 - len)"

text \<open>The replacement buffer: \<^verbatim>\<open>malloc\<close>, copy with the terminator, free, swap.\<close>

definition custr_grow :: "allocator \<Rightarrow> custr \<Rightarrow> nat \<Rightarrow> (cret \<times> custr) outcome" where
  "custr_grow mem cus chunksz =
     (let n = cus_datalen cus + chunksz
      in if cus_fixed cus then Inr (Ret_err EOVERFLOW, cus)
         else (case mem n of
                 None \<Rightarrow> Inr (Ret_err ENOMEM, cus)
               | Some a \<Rightarrow>
                   (case cus_data cus of
                      None \<Rightarrow> Inr (Ret_ok, cus\<lparr>cus_data := Some (a, buf_alloc n), cus_datalen := n\<rparr>)
                    | Some (_, b) \<Rightarrow>
                        if length b < cus_strlen cus + 1 \<or> n < cus_strlen cus + 1 then Inl Fault_OOB
                        else Inr (Ret_ok, cus\<lparr>cus_data := Some (a, buf_realloc (take (cus_strlen cus + 1) b) n),
                                              cus_datalen := n\<rparr>))))"

definition custr_append_vprintf :: "allocator \<Rightarrow> custr \<Rightarrow> formatted \<Rightarrow> (cret \<times> custr) outcome" where
  "custr_append_vprintf mem cus fmt =
     (case vsn_text fmt of
        Inl e \<Rightarrow> Inr (Ret_err e, cus)
      | Inr text \<Rightarrow>
          let len = length text; chunksz = double_until STRING_CHUNK_SIZE len
          in bindr (if cus_datalen cus \<le> len + cus_strlen cus + 1
                    then custr_grow mem cus chunksz else Inr (Ret_ok, cus))
               (\<lambda>(r, cus').
                  case r of
                    Ret_err e \<Rightarrow> Inr (r, cus')
                  | Ret_ok \<Rightarrow>
                      (case cus_data cus' of
                         None \<Rightarrow> Inl Fault_Null
                       | Some (a, b) \<Rightarrow>
                           bindr (vsn_write b (cus_strlen cus') (print_bound a (cus_strlen cus')) text)
                             (\<lambda>b'. Inr (Ret_ok, cus'\<lparr>cus_data := Some (a, b'),
                                                     cus_strlen := cus_strlen cus' + len\<rparr>)))))"

definition custr_append_printf :: "allocator \<Rightarrow> custr \<Rightarrow> formatted \<Rightarrow> (cret \<times> custr) outcome" where
  "custr_append_printf mem cus fmt = custr_append_vprintf mem cus fmt"

definition custr_appendc :: "allocator \<Rightarrow> custr \<Rightarrow> char \<Rightarrow> (cret \<times> custr) outcome" where
  "custr_appendc mem cus newc = custr_append_printf mem cus (Inr [newc])"

definition custr_append :: "allocator \<Rightarrow> custr \<Rightarrow> char list \<Rightarrow> (cret \<times> custr) outcome" where
  "custr_append mem cus name = custr_append_printf mem cus (Inr (cstr name))"

text \<open>\<^verbatim>\<open>sizeof (custr_t)\<close> is 32 on a 64-bit machine.\<close>

definition custr_alloc :: "allocator \<Rightarrow> cret \<times> custr option" where
  "custr_alloc mem =
     (case mem 32 of
        None \<Rightarrow> (Ret_err ENOMEM, None)
      | Some _ \<Rightarrow> (Ret_ok, Some \<lparr>cus_strlen = 0, cus_datalen = 0, cus_data = None, cus_fixed = False\<rparr>))"

text \<open>\<open>buf\<close> is the caller's buffer with its address, \<open>None\<close> a null pointer.\<close>

definition custr_alloc_buf ::
    "allocator \<Rightarrow> (nat \<times> buf) option \<Rightarrow> nat \<Rightarrow> (cret \<times> custr option) outcome" where
  "custr_alloc_buf mem buf buflen =
     (if buflen = 0 \<or> buf = None then Inr (Ret_err EINVAL, None)
      else (case custr_alloc mem of
              (Ret_err e, c) \<Rightarrow> Inr (Ret_err e, c)
            | (Ret_ok, None) \<Rightarrow> Inl Fault_Null
            | (Ret_ok, Some cus) \<Rightarrow>
                (case the buf of (a, b) \<Rightarrow>
                   bindr (buf_put b 0 [NUL]) (\<lambda>b'.
                   Inr (Ret_ok, Some (cus\<lparr>cus_data := Some (a, b'), cus_datalen := buflen,
                                          cus_strlen := 0, cus_fixed := True\<rparr>))))))"

section \<open>Well-formedness and abstraction\<close>

definition custr_rep :: "custr \<Rightarrow> char list \<Rightarrow> bool" where
  "custr_rep cus cs \<longleftrightarrow> cus_strlen cus = length cs \<and>
     (case cus_data cus of
        None \<Rightarrow> cus_datalen cus = 0 \<and> cs = [] \<and> \<not> cus_fixed cus
      | Some (a, b) \<Rightarrow> length b = cus_datalen cus \<and> buf_holds b (cs @ [NUL]) \<and> cus_datalen cus \<le> a)"

abbreviation custr_owns :: "custr \<Rightarrow> bool" where
  "custr_owns cus \<equiv> cus_data cus \<noteq> None"

lemma custr_rep_unique: "custr_rep s cs \<Longrightarrow> custr_rep s ds \<Longrightarrow> cs = ds"
  by (auto simp: custr_rep_def buf_holds_def split: option.splits)

lemma custr_cstr_rep: "custr_rep s cs \<Longrightarrow> custr_cstr s = Inr (cstr cs)"
  by (auto simp: custr_rep_def custr_cstr_def split: option.splits dest: buf_cstr_holds)

lemma custr_len_rep: "custr_rep s cs \<Longrightarrow> custr_len s = length cs"
  by (simp add: custr_rep_def custr_len_def)

lemma custr_reset_rep:
  assumes "custr_rep s cs"
  shows "\<exists>s'. custr_reset s = Inr s' \<and> custr_rep s' [] \<and> custr_owns s' = custr_owns s \<and>
    cus_fixed s' = cus_fixed s \<and> cus_datalen s' = cus_datalen s"
proof (cases "cus_data s")
  case None
  with assms show ?thesis by (auto simp: custr_reset_def custr_rep_def)
next
  case (Some p)
  obtain a b where p: "p = (a, b)" by (cases p)
  have b: "length b = cus_datalen s" "buf_holds b (cs @ [NUL])" "cus_datalen s \<le> a"
    using assms Some p by (auto simp: custr_rep_def)
  have "length ([] :: char list) + length [NUL] \<le> length b"
    using buf_holds_length [OF b(2)] by simp
  from buf_put_append [OF buf_holds_Nil this] obtain b'
    where "buf_put b 0 [NUL] = Inr b'" "buf_holds b' [NUL]" "length b' = length b"
    by auto
  with Some b p show ?thesis by (auto simp: custr_reset_def custr_rep_def)
qed

text \<open>Growing keeps the text and makes room; it is the only step that can fail.\<close>

lemma custr_grow_rep:
  assumes "custr_rep s cs" "\<not> cus_fixed s" "mem (cus_datalen s + k) = Some a" "cus_datalen s + k \<le> a"
  shows "\<exists>s' b. custr_grow mem s k = Inr (Ret_ok, s') \<and> cus_data s' = Some (a, b) \<and>
    cus_strlen s' = length cs \<and> cus_datalen s' = cus_datalen s + k \<and> length b = cus_datalen s + k \<and>
    buf_holds b cs \<and> \<not> cus_fixed s'"
proof (cases "cus_data s")
  case None
  with assms show ?thesis by (auto simp: custr_grow_def custr_rep_def)
next
  case (Some p)
  obtain a0 b0 where p: "p = (a0, b0)" by (cases p)
  have b0: "length b0 = cus_datalen s" "buf_holds b0 (cs @ [NUL])" "cus_strlen s = length cs"
    using assms(1) Some p by (auto simp: custr_rep_def)
  have le: "length cs + 1 \<le> cus_datalen s" using buf_holds_length [OF b0(2)] b0(1) by simp
  have "buf_holds (take (length cs + 1) b0) (cs @ [NUL])"
    using b0(2) by (auto simp: buf_holds_def)
  then have "buf_holds (buf_realloc (take (length cs + 1) b0) (cus_datalen s + k)) (cs @ [NUL])"
    using le by (intro buf_holds_realloc) simp_all
  then have "buf_holds (buf_realloc (take (length cs + 1) b0) (cus_datalen s + k)) cs"
    by (rule buf_holds_prefix)
  then show ?thesis
    using Some p assms(2,3) b0 le by (auto simp: custr_grow_def Let_def)
qed

lemma custr_write_rep:
  assumes "cus_data s = Some (a, b)" "cus_strlen s = length cs" "length b = cus_datalen s"
    and "buf_holds b cs" "length cs + length text + 1 \<le> cus_datalen s" "cus_datalen s \<le> a"
  shows "\<exists>b'. vsn_write b (cus_strlen s) (print_bound a (cus_strlen s)) text = Inr b' \<and>
    custr_rep (s\<lparr>cus_data := Some (a, b'), cus_strlen := cus_strlen s + length text\<rparr>) (cs @ text)"
proof -
  have bound: "print_bound a (length cs) = a - length cs" "length text < a - length cs"
    using assms by (simp_all add: print_bound_def)
  then have tk: "take (a - length cs - 1) text = text" by simp
  obtain b' where "buf_put b (length cs) (text @ [NUL]) = Inr b'" "length b' = length b"
    "buf_holds b' (cs @ text @ [NUL])"
    using buf_put_append [OF assms(4), of "text @ [NUL]"] assms(3,5) by auto
  then show ?thesis
    using assms(2,3,6) bound tk by (auto simp: vsn_write_def custr_rep_def)
qed

text \<open>
  Appending, on every branch. \<open>fits\<close> is the room test of the source; the first allocation has
  room for the text only if its length is not a doubling of the chunk size.
\<close>

abbreviation custr_fits :: "custr \<Rightarrow> char list \<Rightarrow> bool" where
  "custr_fits s text \<equiv> length text + cus_strlen s + 1 < cus_datalen s"

lemma custr_append_fits:
  assumes "custr_rep s cs" "length text \<le> INT_MAX" "custr_fits s text"
  shows "\<exists>s'. custr_append_vprintf mem s (Inr text) = Inr (Ret_ok, s') \<and> custr_rep s' (cs @ text) \<and>
    custr_owns s' \<and> cus_fixed s' = cus_fixed s \<and> cus_datalen s' = cus_datalen s"
proof -
  obtain a b where d: "cus_data s = Some (a, b)" "length b = cus_datalen s" "buf_holds b (cs @ [NUL])"
    "cus_strlen s = length cs" "cus_datalen s \<le> a"
    using assms(1,3) by (auto simp: custr_rep_def split: option.splits)
  have "length cs + length text + 1 \<le> cus_datalen s" using assms(3) d(4) by simp
  from custr_write_rep [OF d(1,4,2) buf_holds_prefix [OF d(3)] this d(5)]
  show ?thesis
    using assms(2,3) d(1) by (auto simp: custr_append_vprintf_def vsn_text_def Let_def)
qed

lemma custr_append_grows:
  assumes "custr_rep s cs" "length text \<le> INT_MAX" "\<not> custr_fits s text" "\<not> cus_fixed s"
    and "good_alloc mem"
    and "custr_owns s \<or> double_until 64 (length text) \<noteq> length text"
  shows "\<exists>s'. custr_append_vprintf mem s (Inr text) = Inr (Ret_ok, s') \<and> custr_rep s' (cs @ text) \<and>
    custr_owns s' \<and> \<not> cus_fixed s'"
proof -
  let ?k = "double_until 64 (length text)"
  have k: "length text \<le> ?k" "64 \<le> ?k" by (simp_all add: double_until_ge double_until_pos)
  obtain a where a: "mem (cus_datalen s + ?k) = Some a" "cus_datalen s + ?k \<le> a"
    using good_allocD [OF assms(5)] by blast
  obtain s1 b where g: "custr_grow mem s ?k = Inr (Ret_ok, s1)" "cus_data s1 = Some (a, b)"
    "cus_strlen s1 = length cs" "cus_datalen s1 = cus_datalen s + ?k" "length b = cus_datalen s + ?k"
    "buf_holds b cs" "\<not> cus_fixed s1"
    using custr_grow_rep [where mem = mem and k = ?k, OF assms(1,4) a] by blast
  have room: "length cs + length text + 1 \<le> cus_datalen s1"
  proof (cases "cus_data s")
    case None
    with assms(1,6) k g(4) show ?thesis by (auto simp: custr_rep_def)
  next
    case (Some p)
    with assms(1) have "length cs + 1 \<le> cus_datalen s"
      by (auto simp: custr_rep_def dest: buf_holds_length)
    with k g(4) show ?thesis by simp
  qed
  have "length b = cus_datalen s1" "cus_datalen s1 \<le> a" using g(4,5) a(2) by simp_all
  from custr_write_rep [OF g(2,3) this(1) g(6) room this(2)]
  show ?thesis
    using assms(2,3) g(1,2,7) by (auto simp: custr_append_vprintf_def vsn_text_def Let_def STRING_CHUNK_SIZE_def)
qed

lemma custr_append_rep:
  assumes "custr_rep s cs" "length text \<le> INT_MAX" "\<not> cus_fixed s" "good_alloc mem"
    and "custr_owns s \<or> double_until 64 (length text) \<noteq> length text"
  shows "\<exists>s'. custr_append_vprintf mem s (Inr text) = Inr (Ret_ok, s') \<and> custr_rep s' (cs @ text) \<and>
    custr_owns s' \<and> \<not> cus_fixed s'"
  using custr_append_fits [OF assms(1,2)] custr_append_grows [OF assms(1,2) _ assms(3-5)] assms(3)
  by metis

text \<open>A call that reports an error leaves the string as it was, as the header promises.\<close>

lemma custr_append_error_frame:
  assumes "custr_append_vprintf mem s fmt = Inr (Ret_err e, s')"
  shows "s' = s"
  using assms
  by (auto simp: custr_append_vprintf_def custr_grow_def Let_def bindr_eq_Inr_iff
      split: sum.splits if_splits option.splits cret.splits)

lemma custr_append_fixed:
  assumes "custr_rep s cs" "length text \<le> INT_MAX" "cus_fixed s" "\<not> custr_fits s text"
  shows "custr_append_vprintf mem s (Inr text) = Inr (Ret_err EOVERFLOW, s)"
  using assms by (auto simp: custr_append_vprintf_def vsn_text_def custr_grow_def Let_def)

text \<open>The first text appended to an empty string, when its length is a doubling of the chunk size.\<close>

lemma custr_append_fresh_OOB:
  assumes "custr_rep s cs" "length text \<le> INT_MAX" "\<not> custr_owns s"
    and "double_until 64 (length text) = length text"
    and "mem (length text) = Some a" "length text < a"
  shows "custr_append_vprintf mem s (Inr text) = Inl Fault_OOB"
proof -
  have s: "cus_data s = None" "cus_datalen s = 0" "cus_strlen s = 0" "\<not> cus_fixed s"
    using assms(1,3) by (cases "cus_data s"; simp add: custr_rep_def)+
  have "length text \<le> a - Suc 0" using assms(6) by simp
  then show ?thesis
    using s assms
    by (simp add: custr_append_vprintf_def vsn_text_def custr_grow_def Let_def STRING_CHUNK_SIZE_def
        print_bound_def vsn_write_def buf_put_def)
qed

section \<open>The contract\<close>

definition cret_option :: "(cret \<times> 'a) outcome \<Rightarrow> 'a option" where
  "cret_option m = (case m of Inr (Ret_ok, x) \<Rightarrow> Some x | _ \<Rightarrow> None)"

lemma cret_option_simps [simp]:
  "cret_option (Inr (Ret_ok, x)) = Some x" "cret_option (Inr (Ret_err e, x)) = None"
  "cret_option (Inl f) = None"
  by (simp_all add: cret_option_def)

text \<open>Strings in growable storage, the ones every client of the repository uses.\<close>

definition custr_dyn :: "custr \<Rightarrow> char list \<Rightarrow> bool" where
  "custr_dyn s cs \<longleftrightarrow> custr_rep s cs \<and> \<not> cus_fixed s"

lemma custr_alloc_dyn: "good_alloc mem \<Longrightarrow> \<exists>s. custr_alloc mem = (Ret_ok, Some s) \<and> custr_dyn s []"
  by (drule good_allocD [of _ 32]) (auto simp: custr_alloc_def custr_dyn_def custr_rep_def)

lemma custr_appendc_dyn:
  assumes "custr_dyn s cs" "good_alloc mem"
  shows "\<exists>s'. custr_appendc mem s c = Inr (Ret_ok, s') \<and> custr_dyn s' (cs @ [c]) \<and> custr_owns s'"
proof -
  have "double_until 64 (Suc 0) \<noteq> Suc 0" using double_until_pos [of 64 "Suc 0"] by simp
  then show ?thesis
    using custr_append_rep [of s cs "[c]" mem] assms
    by (simp add: custr_dyn_def custr_appendc_def custr_append_printf_def INT_MAX_def) blast
qed

lemma custr_append_dyn:
  assumes "custr_dyn s cs" "good_alloc mem" "length (cstr t) \<le> INT_MAX"
    and "custr_owns s \<or> double_until 64 (length (cstr t)) \<noteq> length (cstr t)"
  shows "\<exists>s'. custr_append mem s t = Inr (Ret_ok, s') \<and> custr_dyn s' (cs @ cstr t) \<and> custr_owns s'"
  using custr_append_rep [of s cs "cstr t" mem] assms
  by (simp add: custr_dyn_def custr_append_def custr_append_printf_def) blast

lemma custr_reset_dyn: "custr_dyn cu cs \<Longrightarrow> \<exists>cu'. custr_reset cu = Inr cu' \<and> custr_dyn cu' []"
  using custr_reset_rep [of cu cs] by (auto simp: custr_dyn_def)

lemma custr_dyn_reads: "custr_dyn cu cs \<Longrightarrow> nul_free cs \<Longrightarrow> custr_cstr cu = Inr cs \<and> custr_len cu = length cs"
  using custr_cstr_rep [of cu cs] custr_len_rep [of cu cs] by (simp add: custr_dyn_def)

sublocale working_heap \<subseteq> cus: string_buffer custr_dyn "\<lambda>s. custr_owns s"
  "\<lambda>s c. cret_option (custr_appendc mem s c)"
  "\<lambda>s t. cret_option (custr_append mem s t)"
  "\<lambda>s. case custr_reset s of Inl e \<Rightarrow> None | Inr s' \<Rightarrow> Some s'" custr_cstr
proof (unfold_locales, goal_cases)
  case (1 s cs c)
  then show ?case using custr_appendc_dyn [OF 1 good, of c] by auto
next
  case (2 s cs t)
  then show ?case using custr_append_dyn [OF 2(1) good, of t] by (auto simp: INT_MAX_def)
next
  case (3 s cs)
  then show ?case using custr_reset_rep [of s cs] by (auto simp: custr_dyn_def)
next
  case (4 s cs)
  then show ?case using custr_cstr_rep by (simp add: custr_dyn_def)
next
  case (5 s cs ds)
  then show ?case using custr_rep_unique by (auto simp: custr_dyn_def)
qed

section \<open>Properties\<close>

text \<open>C27: Appending formatted text to a growable string, given memory, overruns the new buffer by
  one byte exactly when the string is still without storage and the text has a length of 64, 128,
  256, \<open>\<dots>\<close> characters; otherwise the string afterwards holds the old text and the new one.\<close>

theorem custr_append_overflow_iff:
  assumes "custr_rep s cs" "\<not> cus_fixed s" "length text \<le> INT_MAX"
    and "good_alloc mem" "mem (length text) = Some a" "length text < a"
  shows "(custr_append_vprintf mem s (Inr text) = Inl Fault_OOB \<longleftrightarrow>
            \<not> custr_owns s \<and> (\<exists>k. length text = 64 * 2 ^ k)) \<and>
         (custr_append_vprintf mem s (Inr text) \<noteq> Inl Fault_OOB \<longrightarrow>
            returns (custr_append_vprintf mem s (Inr text))
              (\<lambda>(r, s'). r = Ret_ok \<and> custr_rep s' (cs @ text) \<and> custr_cstr s' = Inr (cstr (cs @ text))))"
proof (cases "custr_owns s \<or> double_until 64 (length text) \<noteq> length text")
  case True
  from custr_append_rep [OF assms(1,3,2,4) True] obtain s' where
    "custr_append_vprintf mem s (Inr text) = Inr (Ret_ok, s')" "custr_rep s' (cs @ text)" by blast
  with True custr_cstr_rep show ?thesis using double_until_fixed_iff [of 64 "length text"] by auto
next
  case False
  with custr_append_fresh_OOB [where mem = mem, OF assms(1,3) _ _ assms(5,6)] show ?thesis
    using double_until_fixed_iff [of 64 "length text"] by auto
qed

definition custr_empty :: custr where
  "custr_empty = \<lparr>cus_strlen = 0, cus_datalen = 0, cus_data = None, cus_fixed = False\<rparr>"

theorem custr_append_overflow_iff_witness:
  "custr_append_vprintf heap_base custr_empty (Inr (replicate 128 (CHR ''a''))) = Inl Fault_OOB"
proof -
  have k: "\<exists>k. length (replicate 128 (CHR ''a'')) = 64 * 2 ^ k" by (rule exI [of _ 1]) simp
  have r: "custr_rep custr_empty []" "\<not> cus_fixed custr_empty" "\<not> custr_owns custr_empty"
    by (simp_all add: custr_empty_def custr_rep_def)
  show ?thesis
    using custr_append_overflow_iff [OF r(1,2) _ good_heap_base, of "replicate 128 (CHR ''a'')"] k r(3)
    by (simp add: INT_MAX_def heap_base_def)
qed

text \<open>A string over a caller's fixed buffer never writes outside it: text that fits with two
  bytes to spare is appended, anything longer is refused with \<^verbatim>\<open>EOVERFLOW\<close>. And whatever the
  reason for an error (no room, no memory, a formatting error), the string is left unmodified, as
  the header promises.\<close>

theorem custr_fixed_buffer:
  assumes "custr_alloc_buf mem (Some (addr, buf)) buflen = Inr (Ret_ok, Some s)"
    and "length buf = buflen" "buflen \<le> addr" "length text \<le> INT_MAX"
  shows "(length text + 2 \<le> buflen \<longrightarrow>
      returns (custr_append_vprintf mem' s (Inr text)) (\<lambda>(r, s'). r = Ret_ok \<and> custr_rep s' text)) \<and>
    (buflen < length text + 2 \<longrightarrow>
      custr_append_vprintf mem' s (Inr text) = Inr (Ret_err EOVERFLOW, s)) \<and>
    (\<forall>t fmt e t'. custr_append_vprintf mem' t fmt = Inr (Ret_err e, t') \<longrightarrow> t' = t)"
proof -
  have "buflen \<noteq> 0" using assms(1) by (cases "buflen = 0") (simp_all add: custr_alloc_buf_def)
  then obtain b where b: "buf_put buf 0 [NUL] = Inr b" "buf_holds b [NUL]" "length b = buflen"
    using buf_put_append [OF buf_holds_Nil, of "[NUL]" buf] assms(2) by auto
  have s: "custr_rep s []" "cus_fixed s" "cus_datalen s = buflen" "cus_strlen s = 0"
    using assms(1,3) b \<open>buflen \<noteq> 0\<close>
    by (auto simp: custr_alloc_buf_def custr_alloc_def custr_rep_def split: option.splits)
  show ?thesis
    using custr_append_fits [OF s(1) assms(4), of mem'] custr_append_fixed [OF s(1) assms(4) s(2), of mem']
      custr_append_error_frame s(3,4)
    by auto
qed

theorem custr_fixed_buffer_witness:
  "\<exists>s. custr_alloc_buf heap_base (Some (4096, replicate 4 None)) 4 = Inr (Ret_ok, Some s) \<and>
     custr_append_vprintf heap_base s (Inr ''abc'') = Inr (Ret_err EOVERFLOW, s)"
proof -
  have "\<exists>s. custr_alloc_buf heap_base (Some (4096, replicate 4 None)) 4 = Inr (Ret_ok, Some s)"
    by (simp add: custr_alloc_buf_def custr_alloc_def heap_base_def buf_put_def)
  then obtain s where s: "custr_alloc_buf heap_base (Some (4096, replicate 4 None)) 4 = Inr (Ret_ok, Some s)" ..
  show ?thesis
    using custr_fixed_buffer [OF s, of "''abc''" heap_base] s by (auto simp: INT_MAX_def)
qed

end
