(* ===== verification/Strlist.thy ===== *)
theory Strlist
  imports Cmodel_Prelude
begin

text \<open>
  \<^verbatim>\<open>src/src/common/strings/strlist.c\<close>: the growable array of strings behind argument vectors,
  environments and parsed lines. The record is \<^verbatim>\<open>struct strlist\<close>: the pointer array with every
  allocated element (a null pointer is \<open>None\<close>) and the capacity, a 32-bit \<^verbatim>\<open>unsigned int\<close>
  whose arithmetic wraps. Array accesses are checked against the allocated length.
\<close>

section \<open>State and operations\<close>

record strlist =
  sl_strings :: "char list option list"
  sl_capacity :: "32 word"

definition GROW_COUNT :: "32 word" where
  "GROW_COUNT = 32"

definition sl_read :: "strlist \<Rightarrow> nat \<Rightarrow> char list option outcome" where
  "sl_read sl i = (if i < length (sl_strings sl) then Inr (sl_strings sl ! i) else Inl Fault_OOB)"

definition sl_write :: "strlist \<Rightarrow> nat \<Rightarrow> char list option \<Rightarrow> strlist outcome" where
  "sl_write sl i v =
     (if i < length (sl_strings sl) then Inr (sl\<lparr>sl_strings := (sl_strings sl)[i := v]\<rparr>)
      else Inl Fault_OOB)"

text \<open>\<^verbatim>\<open>capacity + 1\<close> is computed in 32 bits.\<close>

definition strlist_alloc :: "allocator \<Rightarrow> 32 word \<Rightarrow> cret \<times> strlist option" where
  "strlist_alloc mem capacity =
     (case mem 16 of
        None \<Rightarrow> (Ret_err ENOMEM, None)
      | Some _ \<Rightarrow>
          (case mem (unat (capacity + 1) * 8) of
             None \<Rightarrow> (Ret_err ENOMEM, None)
           | Some _ \<Rightarrow>
               (Ret_ok, Some \<lparr>sl_strings = replicate (unat (capacity + 1)) None,
                              sl_capacity = capacity\<rparr>)))"

text \<open>
  \<^verbatim>\<open>MAX_CAPACITY\<close> is a \<^verbatim>\<open>size_t\<close>; on a 64-bit machine it is far above every \<^verbatim>\<open>unsigned int\<close>.
  The copy writes \<^verbatim>\<open>old_capacity\<close> elements into an array of \<^verbatim>\<open>1 + new_capacity\<close>, a 32-bit sum.
\<close>

definition MAX_CAPACITY :: nat where
  "MAX_CAPACITY = (2 ^ 64 - 1) div 8 - 1"

definition strlist_grow_by :: "allocator \<Rightarrow> strlist \<Rightarrow> 32 word \<Rightarrow> (cret \<times> strlist) outcome" where
  "strlist_grow_by mem sl grow_by =
     (let old_capacity = sl_capacity sl;
          new_capacity = old_capacity + grow_by;
          oldn = unat old_capacity;
          newn = unat (1 + new_capacity)
      in if grow_by = 0 then Inr (Ret_ok, sl)
         else if MAX_CAPACITY - oldn < unat grow_by then Inr (Ret_err ENOSPC, sl)
         else (case mem (newn * 8) of
                 None \<Rightarrow> Inr (Ret_err ENOMEM, sl)
               | Some _ \<Rightarrow>
                   if length (sl_strings sl) < oldn \<or> newn < oldn then Inl Fault_OOB
                   else Inr (Ret_ok, sl\<lparr>sl_strings := take oldn (sl_strings sl) @ replicate (newn - oldn) None,
                                        sl_capacity := new_capacity\<rparr>)))"

text \<open>The loops over \<^verbatim>\<open>i < sl_capacity\<close>, by the number of elements left.\<close>

fun strlist_reset_loop :: "nat \<Rightarrow> nat \<Rightarrow> strlist \<Rightarrow> strlist outcome" where
  "strlist_reset_loop 0 i sl = Inr sl"
| "strlist_reset_loop (Suc n) i sl =
     bindr (sl_read sl i) (\<lambda>_. bindr (sl_write sl i None) (\<lambda>sl. strlist_reset_loop n (i + 1) sl))"

definition strlist_reset :: "strlist \<Rightarrow> strlist outcome" where
  "strlist_reset sl = strlist_reset_loop (unat (sl_capacity sl)) 0 sl"

fun strlist_scan :: "nat \<Rightarrow> nat \<Rightarrow> strlist \<Rightarrow> nat option outcome" where
  "strlist_scan 0 i sl = Inr None"
| "strlist_scan (Suc n) i sl =
     bindr (sl_read sl i) (\<lambda>v. if v = None then Inr (Some i) else strlist_scan n (i + 1) sl)"

definition strlist_set ::
    "allocator \<Rightarrow> strlist \<Rightarrow> 32 word \<Rightarrow> char list option \<Rightarrow> (cret \<times> strlist) outcome" where
  "strlist_set mem sl idx str =
     (case str of
        None \<Rightarrow> Inl Fault_Abort
      | Some s \<Rightarrow>
          bindc (if sl_capacity sl \<le> idx
                 then strlist_grow_by mem sl (idx - sl_capacity sl + 1 + GROW_COUNT)
                 else Inr (Ret_ok, sl))
            (\<lambda>sl.
               if \<not> idx < sl_capacity sl then Inl Fault_Abort
               else (case strdup mem (cstr s) of
                       None \<Rightarrow> Inr (Ret_err ENOMEM, sl)
                     | Some t \<Rightarrow>
                         bindr (sl_read sl (unat idx)) (\<lambda>_.
                         bindr (sl_write sl (unat idx) (Some t)) (\<lambda>sl. Inr (Ret_ok, sl))))))"

text \<open>\<^verbatim>\<open>VERIFY(try++ < 2)\<close>: at most two passes, else the process aborts.\<close>

fun strlist_first_empty_try ::
    "allocator \<Rightarrow> nat \<Rightarrow> strlist \<Rightarrow> (cret \<times> 32 word \<times> strlist) outcome" where
  "strlist_first_empty_try mem 0 sl = Inl Fault_Abort"
| "strlist_first_empty_try mem (Suc tries) sl =
     bindr (strlist_scan (unat (sl_capacity sl)) 0 sl) (\<lambda>r.
       case r of
         Some i \<Rightarrow> Inr (Ret_ok, of_nat i, sl)
       | None \<Rightarrow>
           bindr (strlist_grow_by mem sl GROW_COUNT) (\<lambda>(r, sl).
             case r of
               Ret_err e \<Rightarrow> Inr (Ret_err e, 0, sl)
             | Ret_ok \<Rightarrow> strlist_first_empty_try mem tries sl))"

definition strlist_first_empty :: "allocator \<Rightarrow> strlist \<Rightarrow> (cret \<times> 32 word \<times> strlist) outcome" where
  "strlist_first_empty mem sl = strlist_first_empty_try mem 2 sl"

definition strlist_set_tail ::
    "allocator \<Rightarrow> strlist \<Rightarrow> char list option \<Rightarrow> (cret \<times> strlist) outcome" where
  "strlist_set_tail mem sl str =
     bindr (strlist_first_empty mem sl) (\<lambda>(r, idx, sl).
       case r of
         Ret_err e \<Rightarrow> Inr (Ret_err e, sl)
       | Ret_ok \<Rightarrow> strlist_set mem sl idx str)"

definition strlist_contig_count :: "strlist \<Rightarrow> 32 word outcome" where
  "strlist_contig_count sl =
     bindr (strlist_scan (unat (sl_capacity sl)) 0 sl) (\<lambda>r.
       case r of Some i \<Rightarrow> Inr (of_nat i) | None \<Rightarrow> Inr (sl_capacity sl))"

definition strlist_capacity :: "strlist \<Rightarrow> 32 word" where
  "strlist_capacity sl = sl_capacity sl"

definition strlist_get :: "strlist \<Rightarrow> 32 word \<Rightarrow> char list option outcome" where
  "strlist_get sl idx = (if sl_capacity sl \<le> idx then Inr None else sl_read sl (unat idx))"

definition strlist_adopt :: "strlist \<Rightarrow> 32 word \<Rightarrow> (char list option \<times> strlist) outcome" where
  "strlist_adopt sl idx =
     (if sl_capacity sl \<le> idx then Inr (None, sl)
      else bindr (sl_read sl (unat idx)) (\<lambda>t.
           bindr (sl_write sl (unat idx) None) (\<lambda>sl. Inr (t, sl))))"

definition strlist_array :: "strlist \<Rightarrow> char list option list" where
  "strlist_array sl = sl_strings sl"

section \<open>The invariant\<close>

text \<open>
  One element more than the capacity is allocated and it is a null pointer: the array handed out
  by \<^verbatim>\<open>strlist_array\<close> is terminated.
\<close>

definition strlist_ok :: "strlist \<Rightarrow> bool" where
  "strlist_ok sl \<longleftrightarrow> length (sl_strings sl) = unat (sl_capacity sl) + 1 \<and>
     sl_strings sl ! unat (sl_capacity sl) = None"

lemma nth_all_None [simp]: "(None # replicate n None) ! n = None"
  by (induction n) simp_all

lemma strlist_alloc_ok:
  assumes "good_alloc mem" "capacity \<noteq> -1"
  shows "\<exists>sl. strlist_alloc mem capacity = (Ret_ok, Some sl) \<and> strlist_ok sl \<and> sl_capacity sl = capacity \<and>
    sl_strings sl = replicate (unat capacity + 1) None"
proof -
  have "unat (capacity + 1) = unat capacity + 1"
    using unat32_Suc [OF assms(2)] .
  then show ?thesis
    using good_allocD [OF assms(1), of 16] good_allocD [OF assms(1), of "unat (capacity + 1) * 8"]
    by (auto simp: strlist_alloc_def strlist_ok_def nth_append)
qed

text \<open>Growth without wrap-around keeps the elements and adds empty ones.\<close>

lemma strlist_grow_by_ok:
  assumes "good_alloc mem" "strlist_ok sl" "g \<noteq> 0" "unat (sl_capacity sl) + unat g + 1 < 2 ^ 32"
  shows "\<exists>sl'. strlist_grow_by mem sl g = Inr (Ret_ok, sl') \<and> strlist_ok sl' \<and>
    sl_capacity sl' = sl_capacity sl + g \<and> unat (sl_capacity sl') = unat (sl_capacity sl) + unat g \<and>
    sl_strings sl' = sl_strings sl @ replicate (unat g) None"
proof -
  let ?c = "unat (sl_capacity sl)"
  have new: "unat (sl_capacity sl + g) = ?c + unat g"
    by (rule unat_add_lem [THEN iffD1]) (use assms(4) in simp)
  have "unat (1 + (sl_capacity sl + g)) = 1 + (?c + unat g)"
    using assms(4) new by (subst unat_add_lem [THEN iffD1]) simp_all
  then have n: "unat (1 + (sl_capacity sl + g)) = ?c + unat g + 1" by simp
  have ok: "length (sl_strings sl) = ?c + 1" "sl_strings sl ! ?c = None"
    using assms(2) by (simp_all add: strlist_ok_def)
  have "sl_strings sl = take ?c (sl_strings sl) @ [None]"
    using ok take_Suc_conv_app_nth [of ?c "sl_strings sl"] by simp
  then have st: "take ?c (sl_strings sl) @ replicate (unat g + 1) None = sl_strings sl @ replicate (unat g) None"
    by (metis append.assoc append_Cons append_Nil replicate_Suc Suc_eq_plus1)
  have big: "\<not> MAX_CAPACITY - ?c < unat g"
    using assms(4) by (simp add: MAX_CAPACITY_def)
  obtain a where "mem ((?c + unat g + 1) * 8) = Some a" using good_allocD [OF assms(1)] by blast
  then show ?thesis
    using assms(3) ok(1) n new big st
    by (auto simp: strlist_grow_by_def Let_def strlist_ok_def nth_append ok(2))
qed

text \<open>The scan finds the first empty element below the capacity.\<close>

abbreviation occupied :: "strlist \<Rightarrow> nat" where
  "occupied sl \<equiv> length (takeWhile (\<lambda>v. v \<noteq> None) (sl_strings sl))"

lemma strlist_scan_from:
  "i + n \<le> length (sl_strings sl) \<Longrightarrow> strlist_scan n i sl =
     (let k = length (takeWhile (\<lambda>v. v \<noteq> None) (drop i (sl_strings sl)))
      in if k < n then Inr (Some (i + k)) else Inr None)"
proof (induction n arbitrary: i)
  case (Suc n)
  then have i: "i < length (sl_strings sl)" by simp
  have d: "drop i (sl_strings sl) = sl_strings sl ! i # drop (Suc i) (sl_strings sl)"
    using i by (rule Cons_nth_drop_Suc [symmetric])
  show ?case
    using Suc.IH [of "Suc i"] Suc.prems i unfolding d
    by (auto simp: sl_read_def Let_def)
qed simp

lemma occupied_le: "strlist_ok sl \<Longrightarrow> occupied sl \<le> unat (sl_capacity sl)"
  unfolding strlist_ok_def by (metis (mono_tags) length_takeWhile_le less_Suc_eq_le Suc_eq_plus1
      le_eq_less_or_eq nth_length_takeWhile takeWhile_nth linorder_not_less nth_mem set_takeWhileD)

lemma strlist_scan_ok:
  assumes "strlist_ok sl"
  shows "strlist_scan (unat (sl_capacity sl)) 0 sl =
    Inr (if occupied sl < unat (sl_capacity sl) then Some (occupied sl) else None)"
  using strlist_scan_from [of 0 "unat (sl_capacity sl)" sl] assms
  by (simp add: strlist_ok_def Let_def)

section \<open>The abstract map\<close>

text \<open>A list is a finite map from indices to strings; every operation is an update of the map.\<close>

definition sl_abs :: "strlist \<Rightarrow> nat \<Rightarrow> char list option" where
  "sl_abs sl i = (if i < length (sl_strings sl) then sl_strings sl ! i else None)"

lemma strlist_get_abs:
  assumes "strlist_ok sl"
  shows "strlist_get sl idx = Inr (sl_abs sl (unat idx))"
proof (cases "sl_capacity sl \<le> idx")
  case True
  then have "unat (sl_capacity sl) \<le> unat idx" by (simp add: word_le_nat_alt)
  then show ?thesis
    using True assms by (cases "unat idx = unat (sl_capacity sl)")
      (auto simp: strlist_get_def strlist_ok_def sl_abs_def)
next
  case False
  then have "unat idx < unat (sl_capacity sl)" by (simp add: word_le_nat_alt)
  then show ?thesis using False assms by (simp add: strlist_get_def sl_read_def strlist_ok_def sl_abs_def)
qed

lemma sl_abs_grown:
  "sl_strings sl' = sl_strings sl @ replicate n None \<Longrightarrow> sl_abs sl' = sl_abs sl"
  by (rule ext) (auto simp: sl_abs_def nth_append)

lemma strlist_write_ok:
  assumes "strlist_ok sl" "idx < sl_capacity sl"
  shows "\<exists>sl'. sl_write sl (unat idx) v = Inr sl' \<and> strlist_ok sl' \<and> sl_capacity sl' = sl_capacity sl \<and>
    sl_strings sl' = (sl_strings sl)[unat idx := v] \<and> sl_abs sl' = (sl_abs sl)(unat idx := v)"
  using assms by (auto simp: sl_write_def strlist_ok_def word_less_nat_alt sl_abs_def nth_list_update)

lemma strlist_set_inside:
  assumes "good_alloc mem" "strlist_ok sl" "idx < sl_capacity sl"
  shows "\<exists>sl'. strlist_set mem sl idx (Some s) = Inr (Ret_ok, sl') \<and> strlist_ok sl' \<and>
    sl_capacity sl' = sl_capacity sl \<and> sl_strings sl' = (sl_strings sl)[unat idx := Some (cstr s)] \<and>
    sl_abs sl' = (sl_abs sl)(unat idx \<mapsto> cstr s)"
proof -
  obtain sl' where sl': "sl_write sl (unat idx) (Some (cstr s)) = Inr sl'" "strlist_ok sl'"
    "sl_capacity sl' = sl_capacity sl" "sl_strings sl' = (sl_strings sl)[unat idx := Some (cstr s)]"
    "sl_abs sl' = (sl_abs sl)(unat idx \<mapsto> cstr s)"
    using strlist_write_ok [OF assms(2,3)] by blast
  have "unat idx < length (sl_strings sl)"
    using assms(2,3) by (simp add: strlist_ok_def word_less_nat_alt)
  moreover have "\<not> sl_capacity sl \<le> idx" using assms(3) by simp
  ultimately show ?thesis
    using assms(3) sl' strdup_good [OF assms(1), of "cstr s"] by (simp add: strlist_set_def sl_read_def)
qed

lemma strlist_set_grows:
  assumes "good_alloc mem" "strlist_ok sl" "sl_capacity sl \<le> idx" "unat idx + 34 < 2 ^ 32"
  shows "\<exists>sl'. strlist_set mem sl idx (Some s) = Inr (Ret_ok, sl') \<and> strlist_ok sl' \<and>
    sl_abs sl' = (sl_abs sl)(unat idx \<mapsto> cstr s)"
proof -
  let ?g = "idx - sl_capacity sl + 1 + GROW_COUNT"
  have le: "unat (sl_capacity sl) \<le> unat idx" using assms(3) by (simp add: word_le_nat_alt)
  have sub: "unat (idx - sl_capacity sl) = unat idx - unat (sl_capacity sl)"
    using assms(3) by (rule unat_sub)
  have "unat (idx - sl_capacity sl + 33) = unat (idx - sl_capacity sl) + unat (33 :: 32 word)"
    by (rule unat_add_lem [THEN iffD1]) (use assms(4) sub in simp)
  then have g: "unat ?g = unat idx - unat (sl_capacity sl) + 33"
    using sub by (simp add: GROW_COUNT_def add.assoc)
  have g0: "?g \<noteq> 0" using g by (metis add_is_0 unat_0 zero_neq_numeral)
  obtain sl1 where sl1: "strlist_grow_by mem sl ?g = Inr (Ret_ok, sl1)" "strlist_ok sl1"
    "unat (sl_capacity sl1) = unat (sl_capacity sl) + unat ?g"
    "sl_strings sl1 = sl_strings sl @ replicate (unat ?g) None"
    using strlist_grow_by_ok [OF assms(1,2) g0] g le assms(4) by auto
  have lt: "idx < sl_capacity sl1" using sl1(3) g le by (simp add: word_less_nat_alt)
  obtain sl2 where "strlist_set mem sl1 idx (Some s) = Inr (Ret_ok, sl2)" "strlist_ok sl2"
    "sl_abs sl2 = (sl_abs sl1)(unat idx \<mapsto> cstr s)"
    using strlist_set_inside [OF assms(1) sl1(2) lt] by blast
  then show ?thesis
    using sl1(1) assms(3) lt sl_abs_grown [OF sl1(4)] by (simp add: strlist_set_def linorder_not_less [symmetric])
qed

text \<open>Near the top of the index range the 32-bit sums wrap and the call cannot succeed.\<close>

lemma strlist_set_wraps:
  assumes "good_alloc mem" "sl_capacity sl \<le> idx" "2 ^ 32 \<le> unat idx + 33"
  shows "strlist_set mem sl idx (Some s) \<in> {Inl Fault_Abort, Inl Fault_OOB}"
proof -
  let ?g = "idx - sl_capacity sl + 1 + GROW_COUNT"
  have new: "sl_capacity sl + ?g = idx + 33" by (simp add: GROW_COUNT_def)
  have "unat (idx + 33) = (unat idx + 33) mod 2 ^ 32" by (simp add: unat_word_ariths)
  also have "\<dots> = (unat idx + 33 - 2 ^ 32) mod 2 ^ 32" using assms(3) by (rule le_mod_geq)
  also have "\<dots> = unat idx + 33 - 2 ^ 32" using unat32_less [of idx] by (intro mod_less) simp
  finally have small: "unat (idx + 33) < 33" using unat32_less [of idx] by linarith
  have "\<not> idx < idx + 33" using small assms(3) by (simp add: word_less_nat_alt)
  moreover have "\<not> idx < sl_capacity sl" using assms(2) by simp
  moreover obtain a where "mem (unat (1 + (sl_capacity sl + ?g)) * 8) = Some a"
    using good_allocD [OF assms(1)] by blast
  moreover have "\<not> MAX_CAPACITY - unat (sl_capacity sl) < unat ?g"
    using unat32_less [of "sl_capacity sl"] unat32_less [of ?g] by (simp add: MAX_CAPACITY_def)
  ultimately show ?thesis
    using assms(2) by (auto simp: strlist_set_def strlist_grow_by_def Let_def new)
qed

section \<open>Appending\<close>

text \<open>A list that was only ever appended to.\<close>

definition strlist_holds :: "strlist \<Rightarrow> char list list \<Rightarrow> bool" where
  "strlist_holds sl xs \<longleftrightarrow> strlist_ok sl \<and> length xs \<le> unat (sl_capacity sl) \<and>
     sl_strings sl = map Some xs @ replicate (unat (sl_capacity sl) + 1 - length xs) None"

lemma occupied_holds: "strlist_holds sl xs \<Longrightarrow> occupied sl = length xs"
  by (auto simp: strlist_holds_def takeWhile_append Suc_diff_le)

lemma strlist_holds_unique: "strlist_holds sl xs \<Longrightarrow> strlist_holds sl ys \<Longrightarrow> xs = ys"
proof -
  assume a: "strlist_holds sl xs" "strlist_holds sl ys"
  then have "length xs = length ys" using occupied_holds by metis
  moreover have "map Some xs = take (length xs) (sl_strings sl)"
    using a(1) by (simp add: strlist_holds_def)
  moreover have "map Some ys = take (length ys) (sl_strings sl)"
    using a(2) by (simp add: strlist_holds_def)
  ultimately have "map Some xs = map Some ys" by simp
  then show ?thesis by (simp add: inj_map_eq_map)
qed

lemma strlist_first_empty_holds:
  assumes "good_alloc mem" "strlist_holds sl xs" "length xs + 34 < 2 ^ 32"
  shows "\<exists>sl'. strlist_first_empty mem sl = Inr (Ret_ok, of_nat (length xs), sl') \<and>
    strlist_holds sl' xs \<and> length xs < unat (sl_capacity sl')"
proof -
  have ok: "strlist_ok sl" using assms(2) by (simp add: strlist_holds_def)
  note scan = strlist_scan_ok [OF ok] occupied_holds [OF assms(2)]
  show ?thesis
  proof (cases "length xs < unat (sl_capacity sl)")
    case True
    then show ?thesis using scan assms(2) by (simp add: strlist_first_empty_def numeral_2_eq_2)
  next
    case False
    then have full: "unat (sl_capacity sl) = length xs" using assms(2) by (simp add: strlist_holds_def)
    obtain sl1 where sl1: "strlist_grow_by mem sl GROW_COUNT = Inr (Ret_ok, sl1)" "strlist_ok sl1"
      "unat (sl_capacity sl1) = unat (sl_capacity sl) + 32" "sl_strings sl1 = sl_strings sl @ replicate 32 None"
      using strlist_grow_by_ok [OF assms(1) ok, of GROW_COUNT] full assms(3) by (auto simp: GROW_COUNT_def)
    have h: "strlist_holds sl1 xs"
      using sl1(2-4) assms(2) full unfolding strlist_holds_def
      by (simp add: replicate_app_Cons_same flip: replicate_Suc replicate_add)
    then show ?thesis
      using scan sl1(1,3) strlist_scan_ok [OF sl1(2)] occupied_holds [OF h] full
      by (simp add: strlist_first_empty_def numeral_2_eq_2)
  qed
qed

lemma strlist_set_tail_holds:
  assumes "good_alloc mem" "strlist_holds sl xs" "length xs + 34 < 2 ^ 32"
  shows "\<exists>sl'. strlist_set_tail mem sl (Some s) = Inr (Ret_ok, sl') \<and> strlist_holds sl' (xs @ [cstr s])"
proof -
  obtain sl1 where sl1: "strlist_first_empty mem sl = Inr (Ret_ok, of_nat (length xs), sl1)"
    "strlist_holds sl1 xs" "length xs < unat (sl_capacity sl1)"
    using strlist_first_empty_holds [OF assms] by blast
  have u: "unat (of_nat (length xs) :: 32 word) = length xs"
    using assms(3) by (simp add: unsigned_of_nat take_bit_nat_eq_self)
  have ok: "strlist_ok sl1" using sl1(2) by (simp add: strlist_holds_def)
  have lt: "of_nat (length xs) < sl_capacity sl1" using sl1(3) u by (simp add: word_less_nat_alt)
  obtain sl2 where sl2: "strlist_set mem sl1 (of_nat (length xs)) (Some s) = Inr (Ret_ok, sl2)" "strlist_ok sl2"
    "sl_capacity sl2 = sl_capacity sl1" "sl_strings sl2 = (sl_strings sl1)[length xs := Some (cstr s)]"
    using strlist_set_inside [OF assms(1) ok lt] u by auto
  have "unat (sl_capacity sl1) + 1 - length xs = Suc (unat (sl_capacity sl1) - length xs)"
    using sl1(3) by simp
  then have "sl_strings sl2 = map Some (xs @ [cstr s]) @ replicate (unat (sl_capacity sl1) - length xs) None"
    using sl1(2) sl2(4) by (simp add: strlist_holds_def list_update_append)
  then have "strlist_holds sl2 (xs @ [cstr s])"
    using sl1(3) sl2(2,3) by (simp add: strlist_holds_def Suc_diff_le)
  then show ?thesis using sl1(1) sl2(1) by (simp add: strlist_set_tail_def)
qed

lemma strlist_contig_count_holds:
  assumes "strlist_holds sl xs"
  shows "strlist_contig_count sl = Inr (of_nat (length xs))"
proof -
  have ok: "strlist_ok sl" using assms by (simp add: strlist_holds_def)
  show ?thesis
  proof (cases "length xs < unat (sl_capacity sl)")
    case False
    then have "unat (sl_capacity sl) = length xs" using assms by (simp add: strlist_holds_def)
    then have "of_nat (unat (sl_capacity sl)) = (of_nat (length xs) :: 32 word)" by simp
    then have "sl_capacity sl = of_nat (length xs)" by simp
    then show ?thesis
      using strlist_scan_ok [OF ok] occupied_holds [OF assms] False by (simp add: strlist_contig_count_def)
  qed (use strlist_scan_ok [OF ok] occupied_holds [OF assms] in \<open>simp add: strlist_contig_count_def\<close>)
qed

lemma sl_abs_holds:
  "strlist_holds sl xs \<Longrightarrow> sl_abs sl = (\<lambda>i. if i < length xs then Some (xs ! i) else None)"
  by (rule ext) (auto simp: sl_abs_def strlist_holds_def nth_append nth_Cons split: nat.splits)

text \<open>Handing a string over to the caller empties its element.\<close>

lemma strlist_get_holds:
  "strlist_holds sl xs \<Longrightarrow> strlist_get sl idx = Inr (if unat idx < length xs then Some (xs ! unat idx) else None)"
  using strlist_get_abs [of sl idx] sl_abs_holds [of sl xs] by (simp add: strlist_holds_def)

lemma strlist_adopt_abs:
  assumes "strlist_ok sl"
  shows "\<exists>sl'. strlist_adopt sl idx = Inr (sl_abs sl (unat idx), sl') \<and> strlist_ok sl' \<and>
    sl_abs sl' = (sl_abs sl)(unat idx := None)"
proof (cases "sl_capacity sl \<le> idx")
  case True
  then have "sl_abs sl (unat idx) = None"
    using strlist_get_abs [OF assms, of idx] by (simp add: strlist_get_def)
  then show ?thesis using True assms by (auto simp: strlist_adopt_def)
next
  case False
  then have "strlist_get sl idx = sl_read sl (unat idx)" by (simp add: strlist_get_def)
  then have "sl_read sl (unat idx) = Inr (sl_abs sl (unat idx))" using strlist_get_abs [OF assms] by simp
  then show ?thesis
    using False strlist_write_ok [OF assms, of idx None] by (auto simp: strlist_adopt_def linorder_not_le)
qed

text \<open>Clearing.\<close>

lemma strlist_reset_loop_ok:
  "i + n < length (sl_strings sl) \<Longrightarrow> \<exists>sl'. strlist_reset_loop n i sl = Inr sl' \<and>
     sl_capacity sl' = sl_capacity sl \<and> length (sl_strings sl') = length (sl_strings sl) \<and>
     (\<forall>j < length (sl_strings sl). sl_strings sl' ! j = (if i \<le> j \<and> j < i + n then None else sl_strings sl ! j))"
proof (induction n arbitrary: i sl)
  case (Suc n)
  let ?sl = "sl\<lparr>sl_strings := (sl_strings sl)[i := None]\<rparr>"
  have "Suc i + n < length (sl_strings ?sl)" using Suc.prems by simp
  from Suc.IH [OF this] obtain sl' where "strlist_reset_loop n (Suc i) ?sl = Inr sl'"
    "sl_capacity sl' = sl_capacity sl" "length (sl_strings sl') = length (sl_strings sl)"
    "\<forall>j < length (sl_strings sl). sl_strings sl' ! j =
       (if Suc i \<le> j \<and> j < Suc i + n then None else (sl_strings sl)[i := None] ! j)" by auto
  then show ?case
    using Suc.prems by (auto simp: sl_read_def sl_write_def nth_list_update)
qed auto

lemma strlist_reset_ok:
  assumes "strlist_ok sl"
  shows "\<exists>sl'. strlist_reset sl = Inr sl' \<and> strlist_holds sl' [] \<and> sl_capacity sl' = sl_capacity sl"
proof -
  let ?c = "unat (sl_capacity sl)"
  have ok: "length (sl_strings sl) = ?c + 1" "sl_strings sl ! ?c = None"
    using assms by (simp_all add: strlist_ok_def)
  have "0 + ?c < length (sl_strings sl)" using ok(1) by simp
  from strlist_reset_loop_ok [OF this] obtain sl' where sl': "strlist_reset sl = Inr sl'"
    "sl_capacity sl' = sl_capacity sl" "length (sl_strings sl') = ?c + 1"
    "\<forall>j < ?c + 1. sl_strings sl' ! j = (if j < ?c then None else sl_strings sl ! j)"
    using ok(1) by (auto simp: strlist_reset_def)
  then have "sl_strings sl' ! j = None" if "j < ?c + 1" for j
    using that ok(2) by (cases "j = ?c") auto
  then have "sl_strings sl' = replicate (?c + 1) None"
    using sl'(3) by (intro nth_equalityI) (simp_all del: replicate_Suc replicate.simps)
  then show ?thesis using sl' by (auto simp: strlist_holds_def strlist_ok_def)
qed

section \<open>The contract\<close>

text \<open>What the parsers need of the list: a place to push strings to, one after the other.\<close>

locale string_sink =
  fixes holds :: "'s \<Rightarrow> char list list \<Rightarrow> bool"
    and push :: "'s \<Rightarrow> char list \<Rightarrow> (cret \<times> 's) outcome"
    and room :: nat
  assumes push_ok: "holds s xs \<Longrightarrow> length xs < room \<Longrightarrow>
      \<exists>s'. push s x = Inr (Ret_ok, s') \<and> holds s' (xs @ [cstr x])"
    and holds_unique: "holds s xs \<Longrightarrow> holds s ys \<Longrightarrow> xs = ys"
begin

primrec push_all :: "'s \<Rightarrow> char list list \<Rightarrow> (cret \<times> 's) outcome" where
  "push_all s [] = Inr (Ret_ok, s)"
| "push_all s (x # xs) = bindc (push s x) (\<lambda>s'. push_all s' xs)"

lemma push_all_ok:
  "holds s ys \<Longrightarrow> length ys + length xs \<le> room \<Longrightarrow>
   \<exists>s'. push_all s xs = Inr (Ret_ok, s') \<and> holds s' (ys @ map cstr xs)"
proof (induction xs arbitrary: s ys)
  case (Cons x xs)
  obtain s1 where "push s x = Inr (Ret_ok, s1)" "holds s1 (ys @ [cstr x])"
    using push_ok [OF Cons.prems(1)] Cons.prems(2) by fastforce
  with Cons.IH [of s1 "ys @ [cstr x]"] Cons.prems(2) show ?case by simp
qed simp

end

definition STRLIST_ROOM :: nat where
  "STRLIST_ROOM = 2 ^ 32 - 34"

sublocale working_heap \<subseteq> sink: string_sink strlist_holds "\<lambda>sl s. strlist_set_tail mem sl (Some s)" STRLIST_ROOM
proof (unfold_locales, goal_cases)
  case (1 sl xs x)
  then show ?case using strlist_set_tail_holds [OF good 1(1)] by (simp add: STRLIST_ROOM_def)
next
  case (2 sl xs ys)
  then show ?case by (rule strlist_holds_unique)
qed

section \<open>Properties\<close>

text \<open>C29: The array is a map from indices to strings, and \<^verbatim>\<open>strlist_set\<close> is an update of the map:
  with memory and an index not within 34 of the top of the 32-bit range it succeeds, whatever the
  capacity was, the new string (a copy) is found at the index, and every other index reads as
  before. The array stays terminated by a null pointer.\<close>

theorem strlist_set_updates_map:
  assumes "good_alloc mem" "strlist_ok sl" "unat idx + 34 < 2 ^ 32"
  shows "returns (strlist_set mem sl idx (Some s)) (\<lambda>(r, sl'). r = Ret_ok \<and>
    (\<forall>j. strlist_get sl' j = (if j = idx then Inr (Some (cstr s)) else strlist_get sl j)) \<and>
    last (strlist_array sl') = None \<and> length (strlist_array sl') = unat (strlist_capacity sl') + 1)"
proof -
  obtain sl' where sl': "strlist_set mem sl idx (Some s) = Inr (Ret_ok, sl')" "strlist_ok sl'"
    "sl_abs sl' = (sl_abs sl)(unat idx \<mapsto> cstr s)"
    using strlist_set_inside [OF assms(1,2)] strlist_set_grows [OF assms(1,2) _ assms(3)]
    by (cases "idx < sl_capacity sl") (force, fastforce simp: linorder_not_less)
  have "last (strlist_array sl') = None" "length (strlist_array sl') = unat (strlist_capacity sl') + 1"
    using sl'(2) last_conv_nth [of "sl_strings sl'"] length_0_conv [of "sl_strings sl'"]
    by (simp_all add: strlist_ok_def strlist_array_def strlist_capacity_def del: length_0_conv)
  then show ?thesis
    using sl' strlist_get_abs [OF assms(2)] strlist_get_abs [OF sl'(2)]
    by (auto simp: word_unat_eq_iff)
qed

definition strlist_sample :: strlist where
  "strlist_sample = \<lparr>sl_strings = [None], sl_capacity = 0\<rparr>"

theorem strlist_set_updates_map_witness:
  "returns (strlist_set heap_base strlist_sample 5 (Some ''x''))
     (\<lambda>(r, sl'). r = Ret_ok \<and> strlist_get sl' 5 = Inr (Some ''x'') \<and> strlist_get sl' 4 = Inr None)"
proof -
  have ok: "strlist_ok strlist_sample" by (simp add: strlist_sample_def strlist_ok_def)
  have "strlist_get strlist_sample 4 = Inr None" by (simp add: strlist_sample_def strlist_get_def)
  then show ?thesis
    by (intro returns_mono [OF strlist_set_updates_map [OF good_heap_base ok]]) auto
qed

text \<open>Indices within 33 of the top of the 32-bit range and not below the capacity cannot be
  set: the sums for the new capacity wrap around, and the call dies, either in the copy of the old
  array into a smaller one or in the \<^verbatim>\<open>VERIFY\<close> after it, instead of failing with \<^verbatim>\<open>ENOSPC\<close>.\<close>

theorem strlist_set_wraps_around:
  assumes "good_alloc mem" "sl_capacity sl \<le> idx" "2 ^ 32 \<le> unat idx + 33"
  shows "strlist_set mem sl idx (Some s) \<in> {Inl Fault_Abort, Inl Fault_OOB}"
  using strlist_set_wraps [OF assms] .

theorem strlist_set_wraps_around_witness:
  "strlist_set heap_base strlist_sample 0xFFFFFFFF (Some ''x'') \<in> {Inl Fault_Abort, Inl Fault_OOB}"
  by (rule strlist_set_wraps_around) (simp_all add: strlist_sample_def)

text \<open>\<^verbatim>\<open>strlist_set_tail\<close> refines appending to a list: starting from a list that was only appended
  to, it puts a copy of the string behind the last element, growing the array when it is full (its
  comment promises \<^verbatim>\<open>ENOSPC\<close> instead); \<^verbatim>\<open>strlist_contig_count\<close> is the length and
  \<^verbatim>\<open>strlist_reset\<close> the empty list.\<close>

theorem strlist_set_tail_appends:
  assumes "good_alloc mem" "strlist_holds sl xs" "length xs + 34 < 2 ^ 32"
  shows "returns (strlist_set_tail mem sl (Some s)) (\<lambda>(r, sl'). r = Ret_ok \<and>
      strlist_holds sl' (xs @ [cstr s]) \<and> strlist_contig_count sl' = Inr (of_nat (length xs + 1)) \<and>
      take (length xs + 2) (strlist_array sl') = map Some (xs @ [cstr s]) @ [None]) \<and>
    returns (strlist_reset sl) (\<lambda>sl'. strlist_holds sl' [])"
proof -
  obtain sl' where sl': "strlist_set_tail mem sl (Some s) = Inr (Ret_ok, sl')" "strlist_holds sl' (xs @ [cstr s])"
    using strlist_set_tail_holds [OF assms] by blast
  have arr: "take (length xs + 2) (strlist_array sl') = map Some (xs @ [cstr s]) @ [None]"
    using sl'(2) by (auto simp: strlist_holds_def strlist_array_def Suc_diff_le)
  have "strlist_ok sl" using assms(2) by (simp add: strlist_holds_def)
  then show ?thesis
    using sl' arr strlist_contig_count_holds [OF sl'(2)] strlist_reset_ok by fastforce
qed

theorem strlist_set_tail_appends_witness:
  "returns (strlist_set_tail heap_base strlist_sample (Some ''x''))
     (\<lambda>(r, sl'). r = Ret_ok \<and> strlist_holds sl' [''x''])"
  using strlist_set_tail_appends [of heap_base strlist_sample "[]" "''x''"]
  by (auto simp: strlist_sample_def strlist_holds_def [of _ "[]"] strlist_ok_def elim!: returns_mono)

end
