(* ===== verification/Line_Parser.thy ===== *)
theory Line_Parser
  imports Custr Strlist
begin

text \<open>
  \<^verbatim>\<open>src/tools/common/parser.c\<close>: splitting a line at a delimiter and into blank-separated words,
  with comments. A word is collected in a \<open>custr\<close>, a finished one pushed to a \<open>strlist\<close>; the
  functions below are the C functions over those two, and the specifications are plain list
  functions.
\<close>

section \<open>Splitting at a delimiter\<close>

fun split_loop ::
    "allocator \<Rightarrow> char \<Rightarrow> custr \<Rightarrow> strlist \<Rightarrow> char list \<Rightarrow> (cret \<times> strlist) outcome" where
  "split_loop mem delim cu sl [] =
     (if 0 < custr_len cu
      then bindr (custr_cstr cu) (\<lambda>s. strlist_set_tail mem sl (Some s))
      else Inr (Ret_ok, sl))"
| "split_loop mem delim cu sl (cc # line) =
     (if cc = delim
      then bindr (custr_cstr cu) (\<lambda>s.
           bindc (strlist_set_tail mem sl (Some s)) (\<lambda>sl.
           bindr (custr_reset cu) (\<lambda>cu. split_loop mem delim cu sl line)))
      else bindr (custr_appendc mem cu cc) (\<lambda>(r, cu).
           case r of
             Ret_err e \<Rightarrow> Inr (Ret_err e, sl)
           | Ret_ok \<Rightarrow> split_loop mem delim cu sl line))"

definition split_on :: "allocator \<Rightarrow> char list \<Rightarrow> char \<Rightarrow> strlist \<Rightarrow> (cret \<times> strlist) outcome" where
  "split_on mem line delim sl =
     (case custr_alloc mem of
        (Ret_err e, _) \<Rightarrow> Inr (Ret_err e, sl)
      | (Ret_ok, None) \<Rightarrow> Inl Fault_Null
      | (Ret_ok, Some cu) \<Rightarrow> split_loop mem delim cu sl (cstr line))"

text \<open>The fields: every text in front of a delimiter, and a last one if it is not empty.\<close>

fun split_fields :: "char \<Rightarrow> char list \<Rightarrow> char list \<Rightarrow> char list list" where
  "split_fields d acc [] = (if acc = [] then [] else [acc])"
| "split_fields d acc (c # s) =
     (if c = d then acc # split_fields d [] s else split_fields d (acc @ [c]) s)"

section \<open>Words of a line\<close>

datatype parse_state = ST_WHITESPACE | ST_TOKEN

datatype lextype = LEX_ENDL | LEX_WHITESPACE | LEX_OTHER

definition lextype_of :: "char \<Rightarrow> lextype" where
  "lextype_of cc =
     (if cc \<in> {NUL, CHR ''#'', NL, CHR 0x0D} then LEX_ENDL
      else if cc \<in> {CHR '' '', CHR 0x09} then LEX_WHITESPACE
      else LEX_OTHER)"

text \<open>The character under the cursor; the terminator at the end.\<close>

definition cur_char :: "char list \<Rightarrow> char" where
  "cur_char s = (case s of [] \<Rightarrow> NUL | c # _ \<Rightarrow> c)"

function parse_loop ::
    "allocator \<Rightarrow> parse_state \<Rightarrow> custr \<Rightarrow> strlist \<Rightarrow> char list \<Rightarrow> (cret \<times> strlist) outcome" where
  "parse_loop mem state cu sl c =
     (case state of
        ST_WHITESPACE \<Rightarrow>
          (case lextype_of (cur_char c) of
             LEX_ENDL \<Rightarrow> Inr (Ret_ok, sl)
           | LEX_WHITESPACE \<Rightarrow> parse_loop mem ST_WHITESPACE cu sl (tl c)
           | LEX_OTHER \<Rightarrow> parse_loop mem ST_TOKEN cu sl c)
      | ST_TOKEN \<Rightarrow>
          (case lextype_of (cur_char c) of
             LEX_ENDL \<Rightarrow> bindr (custr_cstr cu) (\<lambda>s. strlist_set_tail mem sl (Some s))
           | LEX_WHITESPACE \<Rightarrow>
               bindr (custr_cstr cu) (\<lambda>s.
               bindc (strlist_set_tail mem sl (Some s)) (\<lambda>sl.
               bindr (custr_reset cu) (\<lambda>cu. parse_loop mem ST_WHITESPACE cu sl c)))
           | LEX_OTHER \<Rightarrow>
               bindr (custr_appendc mem cu (cur_char c)) (\<lambda>(r, cu).
                 case r of
                   Ret_err e \<Rightarrow> Inr (Ret_err e, sl)
                 | Ret_ok \<Rightarrow> parse_loop mem ST_TOKEN cu sl (tl c))))"
  by pat_completeness auto
termination
proof (relation "measure (\<lambda>(mem, state, cu, sl, c). 2 * length c +
    (case (state, lextype_of (cur_char c)) of
       (ST_WHITESPACE, LEX_OTHER) \<Rightarrow> 1 | (ST_TOKEN, LEX_WHITESPACE) \<Rightarrow> 1 | _ \<Rightarrow> 0))", goal_cases)
  case 1
  then show ?case by simp
next
  case (2 mem state cu sl c)
  then show ?case
    by (cases c) (auto simp: cur_char_def lextype_of_def split: parse_state.split lextype.split if_splits)
next
  case (3 mem state cu sl c)
  then show ?case by simp
next
  case (4 mem state cu sl c)
  then show ?case by simp
next
  case (5 mem state cu sl c)
  then show ?case
    by (cases c) (auto simp: cur_char_def lextype_of_def split: parse_state.split lextype.split if_splits)
qed

declare parse_loop.simps [simp del]

definition parse_line :: "allocator \<Rightarrow> char list \<Rightarrow> strlist \<Rightarrow> (cret \<times> strlist) outcome" where
  "parse_line mem line sl =
     (case custr_alloc mem of
        (Ret_err e, _) \<Rightarrow> Inr (Ret_err e, sl)
      | (Ret_ok, None) \<Rightarrow> Inl Fault_Null
      | (Ret_ok, Some cu) \<Rightarrow> parse_loop mem ST_WHITESPACE cu sl (cstr line))"

text \<open>The words of a line: the text up to a comment or line end, cut at blanks and tabs.\<close>

fun blank_words :: "char list \<Rightarrow> char list \<Rightarrow> char list list" where
  "blank_words acc [] = (if acc = [] then [] else [acc])"
| "blank_words acc (c # s) =
     (if lextype_of c = LEX_WHITESPACE then (if acc = [] then [] else [acc]) @ blank_words [] s
      else blank_words (acc @ [c]) s)"

definition line_words :: "char list \<Rightarrow> char list list" where
  "line_words line = blank_words [] (takeWhile (\<lambda>c. lextype_of c \<noteq> LEX_ENDL) line)"

section \<open>The loops compute the specifications\<close>

context working_heap
begin

lemma push_word:
  assumes "custr_dyn cu acc" "nul_free acc" "strlist_holds sl xs" "length xs < STRLIST_ROOM"
  shows "\<exists>sl' cu'. bindr (custr_cstr cu) (\<lambda>s. strlist_set_tail mem sl (Some s)) = Inr (Ret_ok, sl') \<and>
    strlist_holds sl' (xs @ [acc]) \<and> custr_reset cu = Inr cu' \<and> custr_dyn cu' []"
proof -
  have "custr_cstr cu = Inr acc"
    using assms(1,2) custr_cstr_rep [of cu acc] by (simp add: custr_dyn_def)
  moreover obtain sl' where "strlist_set_tail mem sl (Some acc) = Inr (Ret_ok, sl')" "strlist_holds sl' (xs @ [acc])"
    using sink.push_ok [OF assms(3,4), of acc] assms(2) by auto
  moreover obtain cu' where "custr_reset cu = Inr cu'" "custr_dyn cu' []"
    using custr_reset_rep [of cu acc] assms(1) by (auto simp: custr_dyn_def)
  ultimately show ?thesis by simp
qed

lemma push_word_then:
  assumes "custr_dyn cu acc" "nul_free acc" "strlist_holds sl xs" "length xs < STRLIST_ROOM"
  shows "\<exists>sl' cu'. bindr (custr_cstr cu) (\<lambda>s. bindc (strlist_set_tail mem sl (Some s)) (\<lambda>sl.
      bindr (custr_reset cu) (\<lambda>cu. f cu sl))) = f cu' sl' \<and>
    strlist_holds sl' (xs @ [acc]) \<and> custr_dyn cu' []"
proof -
  have c: "custr_cstr cu = Inr acc"
    using assms(1,2) custr_cstr_rep [of cu acc] by (simp add: custr_dyn_def)
  obtain sl' cu' where "strlist_set_tail mem sl (Some acc) = Inr (Ret_ok, sl')"
    "strlist_holds sl' (xs @ [acc])" "custr_reset cu = Inr cu'" "custr_dyn cu' []"
    using push_word [OF assms] c by auto
  then show ?thesis using c by (intro exI [of _ sl'] exI [of _ cu']) simp
qed

lemma split_loop_ok:
  "custr_dyn cu acc \<Longrightarrow> nul_free acc \<Longrightarrow> nul_free s \<Longrightarrow> strlist_holds sl xs \<Longrightarrow>
   length xs + length (split_fields d acc s) \<le> STRLIST_ROOM \<Longrightarrow>
   \<exists>sl'. split_loop mem d cu sl s = Inr (Ret_ok, sl') \<and> strlist_holds sl' (xs @ split_fields d acc s)"
proof (induction s arbitrary: cu acc sl xs)
  case Nil
  have len: "custr_len cu = length acc" using Nil(1) custr_len_rep by (simp add: custr_dyn_def)
  show ?case
    using push_word [OF Nil(1,2,4)] Nil(4,5) len by (cases "acc = []") auto
next
  case (Cons c s)
  show ?case
  proof (cases "c = d")
    case True
    then have room: "length xs < STRLIST_ROOM" using Cons.prems(5) by simp
    obtain sl1 cu1 where st: "split_loop mem d cu sl (c # s) = split_loop mem d cu1 sl1 s"
      "strlist_holds sl1 (xs @ [acc])" "custr_dyn cu1 []"
      using push_word_then [OF Cons.prems(1,2,4) room, of "\<lambda>cu sl. split_loop mem d cu sl s"] True by auto
    show ?thesis
      using Cons.IH [OF st(3) _ _ st(2)] Cons.prems(3,5) True unfolding st(1) by simp
  next
    case False
    obtain cu1 where "custr_appendc mem cu c = Inr (Ret_ok, cu1)" "custr_dyn cu1 (acc @ [c])"
      using custr_appendc_dyn [OF Cons.prems(1) good, of c] by blast
    with Cons.IH [of cu1 "acc @ [c]"] Cons.prems False show ?thesis by simp
  qed
qed

abbreviation word_part :: "char list \<Rightarrow> char list" where
  "word_part s \<equiv> takeWhile (\<lambda>c. lextype_of c \<noteq> LEX_ENDL) s"

lemma parse_loop_ok:
  "nul_free s \<Longrightarrow> strlist_holds sl xs \<Longrightarrow> length xs + length s < STRLIST_ROOM \<Longrightarrow>
   (custr_dyn cu [] \<longrightarrow> (\<exists>sl'. parse_loop mem ST_WHITESPACE cu sl s = Inr (Ret_ok, sl') \<and>
      strlist_holds sl' (xs @ line_words s))) \<and>
   (custr_dyn cu acc \<longrightarrow> acc \<noteq> [] \<longrightarrow> nul_free acc \<longrightarrow>
     (\<exists>sl'. parse_loop mem ST_TOKEN cu sl s = Inr (Ret_ok, sl') \<and>
      strlist_holds sl' (xs @ blank_words acc (word_part s))))"
proof (induction s arbitrary: cu acc sl xs)
  case Nil
  then show ?case
    using push_word [of cu acc sl xs]
    by (auto simp: parse_loop.simps [of mem ST_WHITESPACE cu sl "[]"]
        parse_loop.simps [of mem ST_TOKEN cu sl "[]"] cur_char_def lextype_of_def line_words_def)
next
  case (Cons c s)
  note IH = Cons.IH [of sl xs] and room = Cons.prems(3)
  have nf: "nul_free s" "c \<noteq> NUL" using Cons.prems(1) by auto
  have app: "\<exists>cu1. custr_appendc mem cu c = Inr (Ret_ok, cu1) \<and> custr_dyn cu1 (acc @ [c])"
    if "custr_dyn cu acc" for cu acc
    using custr_appendc_dyn [OF that good, of c] by blast
  have ws: "\<exists>sl'. parse_loop mem ST_WHITESPACE cu sl (c # s) = Inr (Ret_ok, sl') \<and>
      strlist_holds sl' (xs @ line_words (c # s))"
    if w: "custr_dyn cu []" "strlist_holds sl xs" "length xs + length s < STRLIST_ROOM" for cu sl xs
  proof (cases "lextype_of c")
    case LEX_ENDL
    then show ?thesis using w
      by (simp add: parse_loop.simps [of mem ST_WHITESPACE] cur_char_def line_words_def)
  next
    case LEX_WHITESPACE
    then show ?thesis using Cons.IH [OF nf(1) w(2,3), of cu] w(1)
      by (simp add: parse_loop.simps [of mem ST_WHITESPACE cu sl "c # s"] cur_char_def line_words_def)
  next
    case LEX_OTHER
    obtain cu1 where cu1: "custr_appendc mem cu c = Inr (Ret_ok, cu1)" "custr_dyn cu1 [c]"
      using app [OF w(1)] by auto
    show ?thesis using Cons.IH [OF nf(1) w(2,3), of cu1 "[c]"] cu1 LEX_OTHER nf(2)
      by (simp add: parse_loop.simps [of mem ST_WHITESPACE cu sl "c # s"]
          parse_loop.simps [of mem ST_TOKEN cu sl "c # s"] cur_char_def line_words_def)
  qed
  have tok: "\<exists>sl'. parse_loop mem ST_TOKEN cu sl (c # s) = Inr (Ret_ok, sl') \<and>
      strlist_holds sl' (xs @ blank_words acc (word_part (c # s)))"
    if a: "custr_dyn cu acc" "acc \<noteq> []" "nul_free acc"
  proof (cases "lextype_of c")
    case LEX_ENDL
    then show ?thesis using push_word [OF a(1,3) Cons.prems(2)] room a(2)
      by (auto simp: parse_loop.simps [of mem ST_TOKEN] cur_char_def)
  next
    case LEX_WHITESPACE
    have "length xs < STRLIST_ROOM" using room by simp
    from push_word_then [OF a(1,3) Cons.prems(2) this, of "\<lambda>cu sl. parse_loop mem ST_WHITESPACE cu sl (c # s)"]
    obtain sl1 cu1 where st: "parse_loop mem ST_TOKEN cu sl (c # s) = parse_loop mem ST_WHITESPACE cu1 sl1 (c # s)"
      "strlist_holds sl1 (xs @ [acc])" "custr_dyn cu1 []"
      using LEX_WHITESPACE by (auto simp: parse_loop.simps [of mem ST_TOKEN cu sl] cur_char_def)
    show ?thesis
      using ws [OF st(3,2)] room LEX_WHITESPACE a(2) unfolding st(1) by (simp add: line_words_def)
  next
    case LEX_OTHER
    obtain cu1 where cu1: "custr_appendc mem cu c = Inr (Ret_ok, cu1)" "custr_dyn cu1 (acc @ [c])"
      using app [OF a(1)] by auto
    show ?thesis using Cons.IH [OF nf(1) Cons.prems(2), of cu1 "acc @ [c]"] room cu1 LEX_OTHER nf(2) a
      by (simp add: parse_loop.simps [of mem ST_TOKEN cu sl "c # s"] cur_char_def)
  qed
  show ?case using ws [OF _ Cons.prems(2)] tok room by simp
qed

end

lemma parse_line_returns:
  assumes "good_alloc mem" "nul_free line" "strlist_holds sl xs" "length xs + length line < STRLIST_ROOM"
  shows "returns (parse_line mem line sl) (\<lambda>(r, sl'). r = Ret_ok \<and> strlist_holds sl' (xs @ line_words line))"
proof -
  obtain cu where "custr_alloc mem = (Ret_ok, Some cu)" "custr_dyn cu []"
    using custr_alloc_dyn [OF assms(1)] by blast
  then show ?thesis
    using working_heap.parse_loop_ok [OF _ assms(2-4), of mem cu "[]"] assms(1,2)
    by (auto simp: parse_line_def working_heap_def)
qed

lemma split_on_returns:
  assumes "good_alloc mem" "nul_free line" "strlist_holds sl xs"
    and "length xs + length (split_fields d [] line) \<le> STRLIST_ROOM"
  shows "returns (split_on mem line d sl) (\<lambda>(r, sl'). r = Ret_ok \<and> strlist_holds sl' (xs @ split_fields d [] line))"
proof -
  obtain cu where "custr_alloc mem = (Ret_ok, Some cu)" "custr_dyn cu []"
    using custr_alloc_dyn [OF assms(1)] by blast
  then show ?thesis
    using working_heap.split_loop_ok [OF _ _ _ assms(2,3,4), of mem cu] assms(1,2)
    by (auto simp: split_on_def working_heap_def)
qed

section \<open>Lines written for the parser\<close>

definition plain_word :: "char list \<Rightarrow> bool" where
  "plain_word w \<longleftrightarrow> w \<noteq> [] \<and> (\<forall>c \<in> set w. lextype_of c = LEX_OTHER)"

definition blanks :: "char list \<Rightarrow> bool" where
  "blanks b \<longleftrightarrow> (\<forall>c \<in> set b. lextype_of c = LEX_WHITESPACE)"

text \<open>Words with white space before each of them, trailing white space, then a line end or comment.\<close>

fun print_words :: "(char list \<times> char list) list \<Rightarrow> char list" where
  "print_words [] = []"
| "print_words ((b, w) # bws) = b @ w @ print_words bws"

lemma blank_words_blanks: "blanks b \<Longrightarrow> blank_words [] (b @ s) = blank_words [] s"
  by (induction b) (auto simp: blanks_def)

lemma blank_words_word:
  "\<forall>c \<in> set w. lextype_of c = LEX_OTHER \<Longrightarrow> blank_words acc (w @ s) = blank_words (acc @ w) s"
  by (induction w arbitrary: acc) auto

lemma blank_words_end:
  "acc \<noteq> [] \<Longrightarrow> blanks b \<Longrightarrow> b \<noteq> [] \<Longrightarrow> blank_words acc (b @ s) = acc # blank_words [] s"
proof -
  assume a: "acc \<noteq> []" "blanks b" "b \<noteq> []"
  then obtain c b' where "b = c # b'" "lextype_of c = LEX_WHITESPACE" "blanks b'"
    by (cases b) (auto simp: blanks_def)
  then show ?thesis using a(1) blank_words_blanks by simp
qed

lemma blank_words_print:
  assumes "\<forall>(b, w) \<in> set bws. blanks b \<and> plain_word w" "\<forall>(b, w) \<in> set (tl bws). b \<noteq> []" "blanks t"
  shows "blank_words [] (print_words bws @ t) = map snd bws"
  using assms
proof (induction bws)
  case Nil
  then show ?case using blank_words_blanks [of t "[]"] by simp
next
  case (Cons p bws)
  obtain b w where p: "p = (b, w)" by (cases p)
  with Cons.prems have bw: "blanks b" "w \<noteq> []" "\<forall>c \<in> set w. lextype_of c = LEX_OTHER"
    by (auto simp: plain_word_def)
  have IH: "blank_words [] (print_words bws @ t) = map snd bws"
  proof (rule Cons.IH)
    show "\<forall>(b, w) \<in> set bws. blanks b \<and> plain_word w" using Cons.prems(1) by simp
    show "\<forall>(b, w) \<in> set (tl bws). b \<noteq> []" using Cons.prems(2) by (cases bws) simp_all
    show "blanks t" by (rule Cons.prems(3))
  qed
  have "blank_words w (print_words bws @ t) = w # map snd bws"
  proof (cases bws)
    case Nil
    then show ?thesis using blank_words_end [OF bw(2) Cons.prems(3), of "[]"] bw(2) by (cases "t = []") simp_all
  next
    case (Cons q rest)
    obtain b2 w2 where q: "q = (b2, w2)" by (cases q)
    then have b2: "blanks b2" "b2 \<noteq> []" using Cons.prems Cons by auto
    have "blank_words [] (w2 @ print_words rest @ t) = map snd bws"
      using IH blank_words_blanks [OF b2(1), of "w2 @ print_words rest @ t"] Cons q by simp
    then show ?thesis using blank_words_end [OF bw(2) b2, of "w2 @ print_words rest @ t"] Cons q by simp
  qed
  then show ?case
    using blank_words_blanks [OF bw(1)] blank_words_word [OF bw(3), of "[]"] p by simp
qed

lemma print_words_chars:
  "\<forall>(b, w) \<in> set bws. blanks b \<and> plain_word w \<Longrightarrow> c \<in> set (print_words bws) \<Longrightarrow> lextype_of c \<noteq> LEX_ENDL"
  by (induction bws rule: print_words.induct) (auto simp: blanks_def plain_word_def)

lemma line_words_print:
  assumes "\<forall>(b, w) \<in> set bws. blanks b \<and> plain_word w" "\<forall>(b, w) \<in> set (tl bws). b \<noteq> []" "blanks t"
    and "rest = [] \<or> lextype_of (hd rest) = LEX_ENDL"
  shows "line_words (print_words bws @ t @ rest) = map snd bws"
proof -
  have "\<forall>c \<in> set (print_words bws @ t). lextype_of c \<noteq> LEX_ENDL"
    using print_words_chars [OF assms(1)] assms(3) by (auto simp: blanks_def)
  then have "takeWhile (\<lambda>c. lextype_of c \<noteq> LEX_ENDL) ((print_words bws @ t) @ rest) = print_words bws @ t"
    using assms(4) by (subst takeWhile_append2) (auto, cases rest, auto)
  then show ?thesis using blank_words_print [OF assms(1-3)] by (simp add: line_words_def)
qed

lemma split_fields_print:
  assumes "\<forall>f \<in> set fs. d \<notin> set f" "d \<notin> set l"
  shows "split_fields d [] (concat (map (\<lambda>f. f @ [d]) fs) @ l) = fs @ (if l = [] then [] else [l])"
proof -
  have app: "d \<notin> set f \<Longrightarrow> split_fields d acc (f @ s) = split_fields d (acc @ f) s" for f acc s
    by (induction f arbitrary: acc) auto
  show ?thesis
    using assms(1)
  proof (induction fs)
    case Nil
    then show ?case using app [OF assms(2), of "[]" "[]"] by simp
  next
    case (Cons f fs)
    then show ?case using app [of f "[]" "d # concat (map (\<lambda>f. f @ [d]) fs) @ l"] by simp
  qed
qed

section \<open>Properties\<close>

text \<open>C30: \<^verbatim>\<open>parse_line\<close> reads back the words of a line: words without blanks, comment characters and
  line ends, printed with any white space before each of them (at least one character between two
  words), any trailing white space, and then nothing, a line end, or a comment, are pushed to the
  list in their order, and nothing else is.\<close>

theorem parse_line_roundtrip:
  assumes "good_alloc mem" "strlist_holds sl xs"
    and "\<forall>(b, w) \<in> set bws. blanks b \<and> plain_word w" "\<forall>(b, w) \<in> set (tl bws). b \<noteq> []" "blanks t"
    and "rest = [] \<or> lextype_of (hd rest) = LEX_ENDL"
    and "nul_free (print_words bws @ t @ rest)"
    and "length xs + length (print_words bws @ t @ rest) < STRLIST_ROOM"
  shows "returns (parse_line mem (print_words bws @ t @ rest) sl)
    (\<lambda>(r, sl'). r = Ret_ok \<and> strlist_holds sl' (xs @ map snd bws))"
  using parse_line_returns [OF assms(1,7,2,8)] line_words_print [OF assms(3-6)] by simp

theorem parse_line_roundtrip_witness:
  "returns (parse_line heap_base ''f a/b  0644 # note'' strlist_sample)
    (\<lambda>(r, sl'). r = Ret_ok \<and> strlist_holds sl' [''f'', ''a/b'', ''0644''])"
proof -
  have h: "strlist_holds strlist_sample []"
    by (simp add: strlist_sample_def strlist_holds_def strlist_ok_def)
  show ?thesis
    using parse_line_roundtrip [OF good_heap_base h, of "[('''', ''f''), ('' '', ''a/b''), (''  '', ''0644'')]"
        "'' ''" "''# note''"]
    by (simp add: blanks_def plain_word_def lextype_of_def STRLIST_ROOM_def)
qed

text \<open>\<^verbatim>\<open>split_on\<close> reads back fields: texts without the delimiter, each followed by it, and a last
  text without one, are pushed in their order; an empty field between two delimiters is kept, an
  empty last one is not.\<close>

theorem split_on_roundtrip:
  assumes "good_alloc mem" "strlist_holds sl xs"
    and "\<forall>f \<in> set fs. d \<notin> set f" "d \<notin> set l"
    and "nul_free (concat (map (\<lambda>f. f @ [d]) fs) @ l)" "length xs + length fs < STRLIST_ROOM"
  shows "returns (split_on mem (concat (map (\<lambda>f. f @ [d]) fs) @ l) d sl)
    (\<lambda>(r, sl'). r = Ret_ok \<and> strlist_holds sl' (xs @ fs @ (if l = [] then [] else [l])))"
  using split_on_returns [OF assms(1,5,2), of d] split_fields_print [OF assms(3,4)] assms(6) by simp

theorem split_on_roundtrip_witness:
  "returns (split_on heap_base ''a==b'' (CHR ''='') strlist_sample)
    (\<lambda>(r, sl'). r = Ret_ok \<and> strlist_holds sl' [''a'', '''', ''b''])"
proof -
  have h: "strlist_holds strlist_sample []"
    by (simp add: strlist_sample_def strlist_holds_def strlist_ok_def)
  show ?thesis
    using split_on_roundtrip [OF good_heap_base h, of "[''a'', '''']" "CHR ''=''" "''b''"]
    by (simp add: STRLIST_ROOM_def)
qed

end
