(* ===== verification/Manifest.thy ===== *)
theory Manifest
  imports Line_Parser Libc_Numbers
begin

text \<open>
  \<^verbatim>\<open>src/tools/common/manifest.c\<close>: the reader of the platform image manifests, one entry per
  line: \<^verbatim>\<open>f name mode user group\<close> for a file, \<^verbatim>\<open>d\<close> for a directory, \<^verbatim>\<open>s name=target\<close> for a
  symbolic link and \<^verbatim>\<open>h\<close> for a hard link. The entry is a record with a null pointer as \<open>None\<close>;
  the file is what \<^verbatim>\<open>fopen\<close>, \<^verbatim>\<open>fstat\<close> and the successive \<^verbatim>\<open>getline\<close> calls answer. The
  messages printed to the standard error are not modelled.
\<close>

unbundle bit_operations_syntax

section \<open>Entries\<close>

datatype manifest_ent_type =
    ME_TYPE_INVALID | ME_TYPE_DIRECTORY | ME_TYPE_FILE | ME_TYPE_HARDLINK | ME_TYPE_SYMLINK

record manifest_ent =
  me_type :: manifest_ent_type
  me_name :: "char list option"
  me_target :: "char list option"
  me_mode :: "32 word"
  me_user :: "char list option"
  me_group :: "char list option"

datatype me_cb_ret = MECB_NEXT | MECB_DONE | MECB_CANCEL

text \<open>The four strings are freed and the whole structure is cleared.\<close>

definition manifest_ent_reset :: "manifest_ent \<Rightarrow> manifest_ent" where
  "manifest_ent_reset me =
     \<lparr>me_type = ME_TYPE_INVALID, me_name = None, me_target = None, me_mode = 0,
      me_user = None, me_group = None\<rparr>"

definition manifest_ent_type_name :: "manifest_ent_type \<Rightarrow> char list" where
  "manifest_ent_type_name type =
     (case type of
        ME_TYPE_FILE \<Rightarrow> ''FILE''
      | ME_TYPE_DIRECTORY \<Rightarrow> ''DIRECTORY''
      | ME_TYPE_HARDLINK \<Rightarrow> ''HARDLINK''
      | ME_TYPE_SYMLINK \<Rightarrow> ''SYMLINK''
      | ME_TYPE_INVALID \<Rightarrow> ''INVALID'')"

section \<open>Lines\<close>

text \<open>The test \<^verbatim>\<open>s[0] == '\0'\<close> and \<^verbatim>\<open>strlen(s)\<close>, which dereference the pointer.\<close>

definition empty_str :: "char list option \<Rightarrow> bool outcome" where
  "empty_str s = (case s of None \<Rightarrow> Inl Fault_Null | Some s \<Rightarrow> Inr (cstr s = []))"

definition strlen_of :: "char list option \<Rightarrow> nat outcome" where
  "strlen_of s = (case s of None \<Rightarrow> Inl Fault_Null | Some s \<Rightarrow> Inr (length (cstr s)))"

text \<open>A line handler returns with the entry and with the word list it may have taken strings from.\<close>

type_synonym line_result = "(cret \<times> manifest_ent \<times> strlist) outcome"

definition line_fail :: "errno \<Rightarrow> manifest_ent \<Rightarrow> strlist \<Rightarrow> line_result" where
  "line_fail error me sl = Inr (Ret_err error, manifest_ent_reset me, sl)"

definition process_manifest_line_link :: "allocator \<Rightarrow> manifest_ent \<Rightarrow> strlist \<Rightarrow> line_result" where
  "process_manifest_line_link mem me line =
     bindr (strlist_contig_count line) (\<lambda>count.
     if count \<noteq> 2 then line_fail EPROTO me line
     else (case strlist_alloc mem 2 of
       (Ret_err e, _) \<Rightarrow> line_fail e me line
     | (Ret_ok, None) \<Rightarrow> Inl Fault_Null
     | (Ret_ok, Some flds) \<Rightarrow>
         bindr (strlist_get line 1) (\<lambda>s.
         case s of None \<Rightarrow> Inl Fault_Null | Some s \<Rightarrow>
         bindr (split_on mem s (CHR ''='') flds) (\<lambda>(r, flds).
         case r of
           Ret_err e \<Rightarrow> line_fail (if e = ENOSPC then EPROTO else e) me line
         | Ret_ok \<Rightarrow>
             bindr (strlist_contig_count flds) (\<lambda>count.
             if count \<noteq> 2 then line_fail EPROTO me line
             else
               bindr (strlist_adopt flds 0) (\<lambda>(name, flds).
               bindr (strlist_adopt flds 1) (\<lambda>(target, flds).
               let me = me\<lparr>me_name := name, me_target := target\<rparr> in
               bindr (empty_str (me_name me)) (\<lambda>e1.
               bindr (if e1 then Inr True else empty_str (me_target me)) (\<lambda>e.
               if e then line_fail EPROTO me line else Inr (Ret_ok, me, line))))))))))"

text \<open>
  \<^verbatim>\<open>strtol\<close> fails only when it returns 0 with \<^verbatim>\<open>errno\<close> set, which an overflow does not do; the
  \<^verbatim>\<open>long\<close> is cut to 32 bits.
\<close>

definition parse_octal :: "char list option \<Rightarrow> errno + 32 word" where
  "parse_octal input =
     (case input of
        None \<Rightarrow> Inl EINVAL
      | Some s \<Rightarrow>
          if cstr s = [] then Inl EINVAL
          else (let (out, endp, err) = strtol 8 (cstr s) in
            case (out = 0, err) of
              (True, Some e) \<Rightarrow> Inl e
            | _ \<Rightarrow> if endp \<noteq> [] then Inl EINVAL else Inr (word_of_int out)))"

definition process_manifest_line_file :: "allocator \<Rightarrow> manifest_ent \<Rightarrow> strlist \<Rightarrow> line_result" where
  "process_manifest_line_file mem me line =
     bindr (strlist_contig_count line) (\<lambda>count.
     if count \<noteq> 5 then line_fail EPROTO me line
     else
       bindr (strlist_get line 2) (\<lambda>mode.
       case parse_octal mode of
         Inl e \<Rightarrow> line_fail EPROTO me line
       | Inr val \<Rightarrow>
           if val AND NOT 0xFFF \<noteq> 0 then line_fail EPROTO me line
           else
             let me = me\<lparr>me_mode := val\<rparr> in
             bindr (strlist_adopt line 1) (\<lambda>(name, line).
             bindr (strlist_adopt line 3) (\<lambda>(user, line).
             bindr (strlist_adopt line 4) (\<lambda>(group, line).
             let me = me\<lparr>me_name := name, me_user := user, me_group := group\<rparr> in
             bindr (empty_str (me_name me)) (\<lambda>e1.
             bindr (if e1 then Inr True else empty_str (me_user me)) (\<lambda>e2.
             bindr (if e2 then Inr True else empty_str (me_group me)) (\<lambda>e.
             if e then line_fail EPROTO me line else Inr (Ret_ok, me, line)))))))))"

text \<open>The handlers by type character, and the search of the table.\<close>

definition typehandlers ::
    "(char \<times> manifest_ent_type \<times> (allocator \<Rightarrow> manifest_ent \<Rightarrow> strlist \<Rightarrow> line_result)) list" where
  "typehandlers =
     [(CHR ''h'', ME_TYPE_HARDLINK, process_manifest_line_link),
      (CHR ''s'', ME_TYPE_SYMLINK, process_manifest_line_link),
      (CHR ''f'', ME_TYPE_FILE, process_manifest_line_file),
      (CHR ''d'', ME_TYPE_DIRECTORY, process_manifest_line_file)]"

fun dispatch_line ::
    "(char \<times> manifest_ent_type \<times> (allocator \<Rightarrow> manifest_ent \<Rightarrow> strlist \<Rightarrow> line_result)) list
     \<Rightarrow> allocator \<Rightarrow> char \<Rightarrow> manifest_ent \<Rightarrow> strlist \<Rightarrow> line_result" where
  "dispatch_line [] mem c me sl = Inr (Ret_err EPROTO, me, sl)"
| "dispatch_line ((th_char, th_type, th_func) # th) mem c me sl =
     (if th_char \<noteq> c then dispatch_line th mem c me sl
      else th_func mem (me\<lparr>me_type := th_type\<rparr>) sl)"

definition line_out :: "line_result \<Rightarrow> (cret \<times> manifest_ent) outcome" where
  "line_out res = bindr res (\<lambda>(r, me, sl).
     case r of
       Ret_ok \<Rightarrow> Inr (Ret_ok, me)
     | Ret_err e \<Rightarrow> Inr (Ret_err e, manifest_ent_reset me))"

definition process_manifest_line ::
    "allocator \<Rightarrow> char list \<Rightarrow> manifest_ent \<Rightarrow> (cret \<times> manifest_ent) outcome" where
  "process_manifest_line mem line me =
     (case strlist_alloc mem 5 of
        (Ret_err e, _) \<Rightarrow> Inr (Ret_err e, manifest_ent_reset me)
      | (Ret_ok, None) \<Rightarrow> Inl Fault_Null
      | (Ret_ok, Some sl) \<Rightarrow> line_out (
          bindr (parse_line mem line sl) (\<lambda>(r, sl).
          case r of
            Ret_err e \<Rightarrow> Inr (Ret_err e, me, sl)
          | Ret_ok \<Rightarrow>
              bindr (strlist_contig_count sl) (\<lambda>count.
              bindr (strlist_get sl 0) (\<lambda>first.
              bindr (if count = 0 then Inr 0 else strlen_of first) (\<lambda>len.
              if len = 0 then Inr (Ret_ok, me\<lparr>me_type := ME_TYPE_INVALID\<rparr>, sl)
              else if len \<noteq> 1 then Inr (Ret_err EPROTO, me, sl)
              else dispatch_line typehandlers mem (hd (cstr (the first))) me sl))))))"

section \<open>Files\<close>

text \<open>
  What the C library answers about the manifest: the error of \<^verbatim>\<open>fopen\<close>, the mode bits \<^verbatim>\<open>fstat\<close>
  reports (\<open>None\<close> if it fails) and whether they are those of a regular file, the lines, and the
  error that ends them (\<open>None\<close> at the end of the file). \<open>mf_stale\<close> is the value \<^verbatim>\<open>errno\<close>
  happens to have when the file is not a regular one.
\<close>

record manifest_file =
  mf_open :: "errno option"
  mf_stat :: "bool option"
  mf_stale :: "errno option"
  mf_lines :: "char list list"
  mf_error :: "errno option"

definition is_regular_file :: "manifest_file \<Rightarrow> bool" where
  "is_regular_file mf = (case mf_stat mf of Some isreg \<Rightarrow> isreg | None \<Rightarrow> False)"

type_synonym 'a manifest_ent_cb = "manifest_ent \<Rightarrow> 'a \<Rightarrow> (me_cb_ret \<times> manifest_ent \<times> 'a) outcome"

text \<open>The result: the return value, \<^verbatim>\<open>errno\<close> (\<open>None\<close> for 0) and the state of the callback.\<close>

type_synonym 'a read_result = "(int \<times> errno option \<times> 'a) outcome"

fun read_manifest_lines ::
    "allocator \<Rightarrow> 'a manifest_ent_cb \<Rightarrow> errno option \<Rightarrow> char list list \<Rightarrow> manifest_ent \<Rightarrow> 'a \<Rightarrow> 'a read_result" where
  "read_manifest_lines mem mecb fin [] me arg =
     (case fin of None \<Rightarrow> Inr (0, None, arg) | Some e \<Rightarrow> Inr (-1, Some e, arg))"
| "read_manifest_lines mem mecb fin (line # lines) me arg =
     bindr (process_manifest_line mem line me) (\<lambda>(r, me).
     case r of
       Ret_err e \<Rightarrow> Inr (-1, Some e, arg)
     | Ret_ok \<Rightarrow>
         if me_type me \<noteq> ME_TYPE_INVALID
         then bindr (mecb me arg) (\<lambda>(what, me, arg).
              case what of
                MECB_NEXT \<Rightarrow> read_manifest_lines mem mecb fin lines (manifest_ent_reset me) arg
              | MECB_DONE \<Rightarrow> Inr (0, None, arg)
              | MECB_CANCEL \<Rightarrow> Inr (0, Some ECANCELED, arg))
         else read_manifest_lines mem mecb fin lines (manifest_ent_reset me) arg)"

definition manifest_ent_zero :: manifest_ent where
  "manifest_ent_zero =
     \<lparr>me_type = ME_TYPE_INVALID, me_name = None, me_target = None, me_mode = 0,
      me_user = None, me_group = None\<rparr>"

definition read_manifest_file ::
    "allocator \<Rightarrow> manifest_file \<Rightarrow> 'a manifest_ent_cb \<Rightarrow> 'a \<Rightarrow> 'a read_result" where
  "read_manifest_file mem mf mecb arg =
     (case mf_open mf of
        Some e \<Rightarrow> Inr (-1, Some e, arg)
      | None \<Rightarrow>
          if \<not> is_regular_file mf then Inr (-1, mf_stale mf, arg)
          else read_manifest_lines mem mecb (mf_error mf) (mf_lines mf) manifest_ent_zero arg)"

section \<open>The reference reading of a line\<close>

text \<open>The entry the words of a line denote; \<open>None\<close> for a malformed line.\<close>

definition link_spec :: "manifest_ent_type \<Rightarrow> char list list \<Rightarrow> manifest_ent option" where
  "link_spec ty ws =
     (case ws of
        [w] \<Rightarrow>
          (case split_fields (CHR ''='') [] w of
             [n, t] \<Rightarrow>
               if n = [] \<or> t = [] then None
               else Some (manifest_ent_zero\<lparr>me_type := ty, me_name := Some n, me_target := Some t\<rparr>)
           | _ \<Rightarrow> None)
      | _ \<Rightarrow> None)"

definition file_spec :: "manifest_ent_type \<Rightarrow> char list list \<Rightarrow> manifest_ent option" where
  "file_spec ty ws =
     (case ws of
        [n, md, u, g] \<Rightarrow>
          (case parse_octal (Some md) of
             Inr v \<Rightarrow>
               if v AND NOT 0xFFF = 0
               then Some (manifest_ent_zero\<lparr>me_type := ty, me_name := Some n, me_mode := v,
                            me_user := Some u, me_group := Some g\<rparr>)
               else None
           | Inl e \<Rightarrow> None)
      | _ \<Rightarrow> None)"

definition entry_spec :: "char list list \<Rightarrow> manifest_ent option" where
  "entry_spec ws =
     (case ws of
        [] \<Rightarrow> Some manifest_ent_zero
      | t # ws \<Rightarrow>
          if t = ''h'' then link_spec ME_TYPE_HARDLINK ws
          else if t = ''s'' then link_spec ME_TYPE_SYMLINK ws
          else if t = ''f'' then file_spec ME_TYPE_FILE ws
          else if t = ''d'' then file_spec ME_TYPE_DIRECTORY ws
          else None)"

section \<open>Words and fields\<close>

lemma blank_words_plain:
  "\<forall>c \<in> set s. lextype_of c \<noteq> LEX_ENDL \<Longrightarrow> \<forall>c \<in> set acc. lextype_of c = LEX_OTHER \<Longrightarrow>
   \<forall>w \<in> set (blank_words acc s). plain_word w"
proof (induction s arbitrary: acc)
  case (Cons c s)
  show ?case
  proof (cases "lextype_of c")
    case LEX_OTHER
    with Cons.IH [of "acc @ [c]"] Cons.prems show ?thesis by auto
  qed (use Cons.IH [of "[]"] Cons.prems in \<open>auto simp: plain_word_def\<close>)
qed (auto simp: plain_word_def)

lemma line_words_plain: "w \<in> set (line_words line) \<Longrightarrow> plain_word w"
  using blank_words_plain [of "takeWhile (\<lambda>c. lextype_of c \<noteq> LEX_ENDL) line" "[]"]
  by (auto simp: line_words_def dest: set_takeWhileD)

lemma plain_word_cstr: "plain_word w \<Longrightarrow> nul_free w \<and> w \<noteq> [] \<and> cstr w = w"
proof -
  assume w: "plain_word w"
  have "NUL \<notin> set w" using w by (force simp: plain_word_def lextype_of_def)
  then show ?thesis using w by (simp add: plain_word_def nul_free_def)
qed

lemma length_blank_words: "length (blank_words acc s) \<le> length s + (if acc = [] then 0 else 1)"
proof (induction s arbitrary: acc)
  case (Cons c s)
  show ?case using Cons [of "[]"] Cons [of "acc @ [c]"] by auto
qed simp

lemma length_line_words: "length (line_words line) \<le> length line"
  using length_blank_words [of "[]" "takeWhile (\<lambda>c. lextype_of c \<noteq> LEX_ENDL) line"]
    length_takeWhile_le [of "\<lambda>c. lextype_of c \<noteq> LEX_ENDL" line] by (simp add: line_words_def)

lemma length_word_of_line: "w \<in> set (blank_words acc s) \<Longrightarrow> length w \<le> length acc + length s"
proof (induction s arbitrary: acc)
  case (Cons c s)
  then show ?case using Cons.IH [of "[]"] Cons.IH [of "acc @ [c]"] by (fastforce split: if_splits)
qed (auto split: if_splits)

lemma length_line_word: "w \<in> set (line_words line) \<Longrightarrow> length w \<le> length line"
  using length_word_of_line [of w "[]" "takeWhile (\<lambda>c. lextype_of c \<noteq> LEX_ENDL) line"]
    length_takeWhile_le [of "\<lambda>c. lextype_of c \<noteq> LEX_ENDL" line] by (simp add: line_words_def)

lemma length_split_fields: "length (split_fields d acc s) \<le> length s + 1"
proof (induction s arbitrary: acc)
  case (Cons c s)
  show ?case using Cons [of "[]"] Cons [of "acc @ [c]"] by auto
qed simp

lemma split_fields_nul_free:
  "nul_free s \<Longrightarrow> nul_free acc \<Longrightarrow> f \<in> set (split_fields d acc s) \<Longrightarrow> nul_free f"
proof (induction s arbitrary: acc)
  case (Cons c s)
  then show ?case using Cons.IH [of "[]"] Cons.IH [of "acc @ [c]"] by (auto split: if_splits)
qed (auto split: if_splits)

lemma of_nat_count_inj:
  "n < 2 ^ 32 \<Longrightarrow> m < 2 ^ 32 \<Longrightarrow> (of_nat n :: 32 word) = of_nat m \<longleftrightarrow> n = m"
  by (simp add: word_unat_eq_iff unsigned_of_nat take_bit_nat_eq_self)

lemma of_nat_count_eq:
  "n < 2 ^ 32 \<Longrightarrow> numeral k < (2 ^ 32 :: nat) \<Longrightarrow> (of_nat n :: 32 word) = numeral k \<longleftrightarrow> n = numeral k"
  using of_nat_count_inj [of n "numeral k"] by (simp only: of_nat_numeral)

lemma of_nat_count_0: "n < 2 ^ 32 \<Longrightarrow> (of_nat n :: 32 word) = 0 \<longleftrightarrow> n = 0"
  using of_nat_count_inj [of n 0] by simp

section \<open>The handlers compute the reference\<close>

lemma manifest_ent_reset_zero: "manifest_ent_reset me = manifest_ent_zero"
  by (simp add: manifest_ent_reset_def manifest_ent_zero_def)

lemma list_of_length:
  "length xs = 2 \<longleftrightarrow> (\<exists>a b. xs = [a, b])" "length xs = 4 \<longleftrightarrow> (\<exists>a b c d. xs = [a, b, c, d])"
  by (auto simp: numeral_eq_Suc length_Suc_conv)

lemma strlist_alloc_empty:
  assumes "good_alloc mem" "capacity \<noteq> -1"
  shows "\<exists>sl. strlist_alloc mem capacity = (Ret_ok, Some sl) \<and> strlist_holds sl []"
proof -
  obtain sl where "strlist_alloc mem capacity = (Ret_ok, Some sl)" "strlist_ok sl" "sl_capacity sl = capacity"
    "sl_strings sl = replicate (unat capacity + 1) None"
    using strlist_alloc_ok [OF assms] by blast
  then show ?thesis by (simp del: replicate.simps add: strlist_holds_def)
qed

lemma strlist_adopt_pair:
  assumes "strlist_holds sl [n, t]"
  shows "\<exists>sl1 sl2. strlist_adopt sl 0 = Inr (Some n, sl1) \<and> strlist_adopt sl1 1 = Inr (Some t, sl2)"
proof -
  have ok: "strlist_ok sl" using assms by (simp add: strlist_holds_def)
  obtain sl1 where "strlist_adopt sl 0 = Inr (sl_abs sl 0, sl1)" "strlist_ok sl1" "sl_abs sl1 = (sl_abs sl)(0 := None)"
    using strlist_adopt_abs [OF ok, of 0] by auto
  moreover from this(2) obtain sl2 where "strlist_adopt sl1 1 = Inr (sl_abs sl1 1, sl2)"
    using strlist_adopt_abs [of sl1 1] by auto
  ultimately show ?thesis using sl_abs_holds [OF assms] by simp
qed

lemma process_link_spec:
  assumes "good_alloc mem" "strlist_holds sl (t # ws)" "\<forall>w \<in> set ws. plain_word w"
    and "length ws + 1 < 2 ^ 32" "\<forall>w \<in> set ws. length w + 2 < STRLIST_ROOM"
  shows "process_manifest_line_link mem (manifest_ent_zero\<lparr>me_type := ty\<rparr>) sl =
    Inr (case link_spec ty ws of None \<Rightarrow> (Ret_err EPROTO, manifest_ent_zero, sl) | Some e \<Rightarrow> (Ret_ok, e, sl))"
proof (cases "length ws = 1")
  case False
  have "(of_nat (length (t # ws)) :: 32 word) = 2 \<longleftrightarrow> length (t # ws) = 2"
    by (rule of_nat_count_eq) (use assms(4) in simp_all)
  then have "strlist_contig_count sl \<noteq> Inr 2" using strlist_contig_count_holds [OF assms(2)] False by simp
  moreover have "link_spec ty ws = None" using False by (auto simp: link_spec_def split: list.split)
  ultimately show ?thesis using strlist_contig_count_holds [OF assms(2)]
    by (auto simp: process_manifest_line_link_def line_fail_def manifest_ent_reset_zero)
next
  case True
  then obtain w where ws: "ws = [w]" by (auto simp: length_Suc_conv)
  have w: "nul_free w" "length w + 2 < STRLIST_ROOM" using assms(3,5) ws plain_word_cstr by auto
  let ?fs = "split_fields (CHR ''='') [] w"
  have count: "strlist_contig_count sl = Inr 2" "strlist_get sl 1 = Inr (Some w)"
    using strlist_contig_count_holds [OF assms(2)] strlist_get_holds [OF assms(2), of 1] ws by simp_all
  obtain flds where flds: "strlist_alloc mem 2 = (Ret_ok, Some flds)" "strlist_holds flds []"
    using strlist_alloc_empty [OF assms(1), of 2] by auto
  obtain flds' where sp: "split_on mem w (CHR ''='') flds = Inr (Ret_ok, flds')" "strlist_holds flds' ?fs"
    using split_on_returns [OF assms(1) w(1) flds(2), of "CHR ''=''"] length_split_fields [of "CHR ''=''" "[]" w] w(2)
    by (auto simp: returns_def)
  have nf: "\<forall>f \<in> set ?fs. cstr f = f" using split_fields_nul_free [OF w(1), of "[]"] by (auto intro!: cstr_id)
  have c2: "strlist_contig_count flds' = Inr (of_nat (length ?fs))" using strlist_contig_count_holds [OF sp(2)] .
  show ?thesis
  proof (cases "length ?fs = 2")
    case True
    then obtain n tg where fs: "?fs = [n, tg]" by (auto simp: list_of_length)
    obtain f1 f2 where "strlist_adopt flds' 0 = Inr (Some n, f1)" "strlist_adopt f1 1 = Inr (Some tg, f2)"
      using strlist_adopt_pair [of flds' n tg] sp(2) fs by auto
    then show ?thesis
      using count flds sp c2 fs nf ws
      by (simp add: process_manifest_line_link_def link_spec_def empty_str_def Let_def line_fail_def manifest_ent_reset_zero)
  next
    case False
    have "(of_nat (length ?fs) :: 32 word) = 2 \<longleftrightarrow> length ?fs = 2"
      by (rule of_nat_count_eq) (use length_split_fields [of "CHR ''=''" "[]" w] w(2) in \<open>simp_all add: STRLIST_ROOM_def\<close>)
    moreover have "link_spec ty ws = None" using False ws by (auto simp: link_spec_def split: list.split)
    ultimately show ?thesis
      using count flds sp c2 ws False
      by (simp add: process_manifest_line_link_def line_fail_def manifest_ent_reset_zero)
  qed
qed

lemma strlist_adopt_file:
  assumes "strlist_holds sl [t, n, md, u, g]"
  shows "\<exists>sl1 sl2 sl3. strlist_adopt sl 1 = Inr (Some n, sl1) \<and> strlist_adopt sl1 3 = Inr (Some u, sl2) \<and>
    strlist_adopt sl2 4 = Inr (Some g, sl3)"
proof -
  have ok: "strlist_ok sl" using assms by (simp add: strlist_holds_def)
  obtain sl1 where "strlist_adopt sl 1 = Inr (sl_abs sl 1, sl1)" "strlist_ok sl1" "sl_abs sl1 = (sl_abs sl)(1 := None)"
    using strlist_adopt_abs [OF ok, of 1] by auto
  moreover from this(2) obtain sl2 where "strlist_adopt sl1 3 = Inr (sl_abs sl1 3, sl2)" "strlist_ok sl2"
      "sl_abs sl2 = (sl_abs sl1)(3 := None)"
    using strlist_adopt_abs [of sl1 3] by auto
  moreover from this(2) obtain sl3 where "strlist_adopt sl2 4 = Inr (sl_abs sl2 4, sl3)"
    using strlist_adopt_abs [of sl2 4] by auto
  ultimately show ?thesis using sl_abs_holds [OF assms] by simp
qed

lemma process_file_spec:
  assumes "strlist_holds sl (t # ws)" "\<forall>w \<in> set ws. plain_word w" "length ws + 1 < 2 ^ 32"
  shows "\<exists>sl'. process_manifest_line_file mem (manifest_ent_zero\<lparr>me_type := ty\<rparr>) sl =
    Inr (case file_spec ty ws of None \<Rightarrow> (Ret_err EPROTO, manifest_ent_zero, sl') | Some e \<Rightarrow> (Ret_ok, e, sl'))"
proof (cases "length ws = 4")
  case False
  have "(of_nat (length (t # ws)) :: 32 word) = 5 \<longleftrightarrow> length (t # ws) = 5"
    by (rule of_nat_count_eq) (use assms(3) in simp_all)
  then have "(of_nat (length (t # ws)) :: 32 word) \<noteq> 5" using False by simp
  moreover have "file_spec ty ws = None" using False by (auto simp: file_spec_def split: list.split)
  ultimately show ?thesis using strlist_contig_count_holds [OF assms(1)]
    by (simp add: process_manifest_line_file_def line_fail_def manifest_ent_reset_zero)
next
  case True
  then obtain n md u g where ws: "ws = [n, md, u, g]" by (auto simp: list_of_length)
  have count: "strlist_contig_count sl = Inr 5" "strlist_get sl 2 = Inr (Some md)"
    using strlist_contig_count_holds [OF assms(1)] strlist_get_holds [OF assms(1), of 2] ws by simp_all
  have ne: "cstr n \<noteq> []" "cstr u \<noteq> []" "cstr g \<noteq> []" using assms(2) ws plain_word_cstr by auto
  obtain sl1 sl2 sl3 where "strlist_adopt sl 1 = Inr (Some n, sl1)" "strlist_adopt sl1 3 = Inr (Some u, sl2)"
    "strlist_adopt sl2 4 = Inr (Some g, sl3)"
    using strlist_adopt_file [of sl t n md u g] assms(1) ws by auto
  then show ?thesis
    using count ne ws
    by (auto simp: process_manifest_line_file_def file_spec_def empty_str_def line_fail_def
        manifest_ent_reset_zero split: sum.split)
qed

lemma dispatch_spec:
  assumes "good_alloc mem" "strlist_holds sl ([c] # ws)" "\<forall>w \<in> set ws. plain_word w"
    and "length ws + 1 < 2 ^ 32" "\<forall>w \<in> set ws. length w + 2 < STRLIST_ROOM"
  shows "\<exists>sl'. dispatch_line typehandlers mem c manifest_ent_zero sl =
    Inr (case entry_spec ([c] # ws) of None \<Rightarrow> (Ret_err EPROTO, manifest_ent_zero, sl') | Some e \<Rightarrow> (Ret_ok, e, sl'))"
proof -
  note link = process_link_spec [OF assms] and fil = process_file_spec [OF assms(2-4), of mem]
  consider "c = CHR ''h''" | "c = CHR ''s''" | "c = CHR ''f''" | "c = CHR ''d''"
    | "c \<noteq> CHR ''h''" "c \<noteq> CHR ''s''" "c \<noteq> CHR ''f''" "c \<noteq> CHR ''d''" by blast
  then show ?thesis
  proof cases
    case 1
    then show ?thesis using link [of ME_TYPE_HARDLINK] by (simp add: typehandlers_def entry_spec_def) blast
  next
    case 2
    then show ?thesis using link [of ME_TYPE_SYMLINK] by (simp add: typehandlers_def entry_spec_def) blast
  next
    case 3
    then show ?thesis using fil [of ME_TYPE_FILE] by (simp add: typehandlers_def entry_spec_def)
  next
    case 4
    then show ?thesis using fil [of ME_TYPE_DIRECTORY] by (simp add: typehandlers_def entry_spec_def)
  next
    case 5
    then show ?thesis by (simp add: typehandlers_def entry_spec_def)
  qed
qed

text \<open>The whole line: the entry, or \<^verbatim>\<open>EPROTO\<close> and a cleared entry.\<close>

lemma process_line_spec:
  assumes "good_alloc mem" "nul_free line" "length line + 2 < STRLIST_ROOM"
  shows "process_manifest_line mem line manifest_ent_zero =
    Inr (case entry_spec (line_words line) of
           None \<Rightarrow> (Ret_err EPROTO, manifest_ent_zero) | Some e \<Rightarrow> (Ret_ok, e))"
proof -
  obtain sl0 where sl0: "strlist_alloc mem 5 = (Ret_ok, Some sl0)" "strlist_holds sl0 []"
    using strlist_alloc_empty [OF assms(1), of 5] by auto
  obtain sl where sl: "parse_line mem line sl0 = Inr (Ret_ok, sl)" "strlist_holds sl (line_words line)"
    using parse_line_returns [OF assms(1,2) sl0(2)] assms(3) by (auto simp: returns_def)
  note start = sl0(1) sl(1) strlist_contig_count_holds [OF sl(2)] strlist_get_holds [OF sl(2), of 0]
  have zero: "manifest_ent_zero\<lparr>me_type := ME_TYPE_INVALID\<rparr> = manifest_ent_zero"
    by (simp add: manifest_ent_zero_def)
  show ?thesis
  proof (cases "line_words line")
    case Nil
    with start zero show ?thesis by (simp add: process_manifest_line_def line_out_def entry_spec_def)
  next
    case (Cons t ws)
    have len: "length ws + 1 < 2 ^ 32" "\<forall>w \<in> set ws. length w + 2 < STRLIST_ROOM"
      using length_line_words [of line] length_line_word [of _ line] assms(3) Cons
      by (auto simp: STRLIST_ROOM_def) fastforce
    have plain: "cstr t = t" "t \<noteq> []" "\<forall>w \<in> set ws. plain_word w"
      using line_words_plain [of _ line] plain_word_cstr [of t] Cons by auto
    have "(of_nat (length (t # ws)) :: 32 word) \<noteq> 0"
      by (subst of_nat_count_0) (use len(1) in simp_all)
    then have cnt: "(1 + of_nat (length ws) :: 32 word) \<noteq> 0" by simp
    show ?thesis
    proof (cases "length t = 1")
      case False
      then show ?thesis using start cnt plain Cons
        by (auto simp: process_manifest_line_def line_out_def entry_spec_def strlen_of_def manifest_ent_reset_zero)
    next
      case True
      then obtain c where c: "t = [c]" by (auto simp: length_Suc_conv)
      then have "process_manifest_line mem line manifest_ent_zero =
          line_out (dispatch_line typehandlers mem c manifest_ent_zero sl)"
        using start cnt plain Cons by (simp add: process_manifest_line_def strlen_of_def)
      then show ?thesis
        using dispatch_spec [OF assms(1) _ plain(3) len, of sl c] sl(2) c Cons
        by (auto simp: line_out_def manifest_ent_reset_zero split: option.split)
    qed
  qed
qed

section \<open>Printing entries\<close>

definition print_ent :: "manifest_ent \<Rightarrow> char list" where
  "print_ent e =
     (case me_type e of
        ME_TYPE_HARDLINK \<Rightarrow> ''h '' @ the (me_name e) @ ''='' @ the (me_target e)
      | ME_TYPE_SYMLINK \<Rightarrow> ''s '' @ the (me_name e) @ ''='' @ the (me_target e)
      | ME_TYPE_FILE \<Rightarrow> ''f '' @ the (me_name e) @ '' '' @ show_base 8 (unat (me_mode e)) @ '' '' @
          the (me_user e) @ '' '' @ the (me_group e)
      | ME_TYPE_DIRECTORY \<Rightarrow> ''d '' @ the (me_name e) @ '' '' @ show_base 8 (unat (me_mode e)) @ '' '' @
          the (me_user e) @ '' '' @ the (me_group e)
      | ME_TYPE_INVALID \<Rightarrow> []) @ [NL]"

text \<open>The entries that can be written: plain words, an equals sign in no name of a link, permission bits only.\<close>

definition link_ent :: "manifest_ent \<Rightarrow> bool" where
  "link_ent e \<longleftrightarrow> (\<exists>ty n t. e = manifest_ent_zero\<lparr>me_type := ty, me_name := Some n, me_target := Some t\<rparr> \<and>
     ty \<in> {ME_TYPE_HARDLINK, ME_TYPE_SYMLINK} \<and> plain_word n \<and> plain_word t \<and>
     CHR ''='' \<notin> set n \<and> CHR ''='' \<notin> set t)"

definition file_ent :: "manifest_ent \<Rightarrow> bool" where
  "file_ent e \<longleftrightarrow> (\<exists>ty n v u g. e = manifest_ent_zero\<lparr>me_type := ty, me_name := Some n, me_mode := v,
       me_user := Some u, me_group := Some g\<rparr> \<and>
     ty \<in> {ME_TYPE_FILE, ME_TYPE_DIRECTORY} \<and> plain_word n \<and> plain_word u \<and> plain_word g \<and>
     v AND NOT 0xFFF = 0)"

lemma show_base_plain: "plain_word (show_base 8 n)"
proof -
  have "lextype_of c = LEX_OTHER" if "c \<in> set (show_base 8 n)" for c
    using show_base_digits [of 8 c n] that
    by (auto simp: is_base_digit_def digit_val_def lextype_of_def Let_def split: if_splits)
  then show ?thesis by (simp add: plain_word_def)
qed

lemma parse_octal_show: "parse_octal (Some (show_base 8 (unat (v :: 32 word)))) = Inr v"
proof -
  have "scan_number 8 (show_base 8 (unat v) @ []) = Some (False, eval_base 8 (show_base 8 (unat v)), [])"
    by (rule scan_number_digits) (auto dest: show_base_digits [rotated 2])
  then have "strtol 8 (show_base 8 (unat v)) = (int (unat v), [], None)"
    using unat32_less [of v]
    by (simp add: strtol_def eval_show_base LONG_MAX_def LONG_MIN_def Let_def linorder_not_less order_trans [OF _ uint_nonnegative])
  moreover have "cstr (show_base 8 (unat v)) = show_base 8 (unat v)"
    using plain_word_cstr [OF show_base_plain] by blast
  ultimately show ?thesis by (simp add: parse_octal_def uint_0_iff split: bool.split)
qed

lemma line_words_simple:
  assumes "\<forall>w \<in> set ws. plain_word w" "plain_word w0"
  shows "line_words (w0 @ concat (map (\<lambda>w. CHR '' '' # w) ws) @ [NL]) = w0 # ws"
proof -
  have sp: "blanks '' ''" by (simp add: blanks_def lextype_of_def)
  have pr: "print_words (map (Pair '' '') ws) = concat (map (\<lambda>w. CHR '' '' # w) ws)" by (induction ws) auto
  have "line_words (print_words (([], w0) # map (Pair '' '') ws) @ [] @ [NL]) = map snd (([], w0) # map (Pair '' '') ws)"
    by (rule line_words_print) (use assms sp in \<open>auto simp: blanks_def lextype_of_def\<close>)
  then show ?thesis by (simp add: pr comp_def)
qed

lemma line_words_link:
  assumes "link_ent e"
  shows "entry_spec (line_words (print_ent e)) = Some e"
proof -
  obtain ty n t where e: "e = manifest_ent_zero\<lparr>me_type := ty, me_name := Some n, me_target := Some t\<rparr>"
    "ty \<in> {ME_TYPE_HARDLINK, ME_TYPE_SYMLINK}" "plain_word n" "plain_word t"
    "CHR ''='' \<notin> set n" "CHR ''='' \<notin> set t"
    using assms by (auto simp: link_ent_def)
  have w: "plain_word (n @ ''='' @ t)" using e(3,4) by (auto simp: plain_word_def lextype_of_def)
  have f: "split_fields (CHR ''='') [] (n @ ''='' @ t) = [n, t]"
    using split_fields_print [of "[n]" "CHR ''=''" t] e(4-6) by (simp add: plain_word_def)
  have "line_words (w0 @ concat (map (\<lambda>w. CHR '' '' # w) [n @ ''='' @ t]) @ [NL]) = [w0, n @ ''='' @ t]"
    if "plain_word w0" for w0 using line_words_simple [of "[n @ ''='' @ t]" w0] w that by simp
  from this [of "''h''"] this [of "''s''"] show ?thesis
    using e(1-4) f by (auto simp: print_ent_def entry_spec_def link_spec_def plain_word_def lextype_of_def)
qed

lemma line_words_file:
  assumes "file_ent e"
  shows "entry_spec (line_words (print_ent e)) = Some e"
proof -
  obtain ty n v u g where e: "e = manifest_ent_zero\<lparr>me_type := ty, me_name := Some n, me_mode := v,
       me_user := Some u, me_group := Some g\<rparr>"
    "ty \<in> {ME_TYPE_FILE, ME_TYPE_DIRECTORY}" "plain_word n" "plain_word u" "plain_word g" "v AND NOT 0xFFF = 0"
    using assms by (auto simp: file_ent_def)
  have "line_words (w0 @ concat (map (\<lambda>w. CHR '' '' # w) [n, show_base 8 (unat v), u, g]) @ [NL]) =
      [w0, n, show_base 8 (unat v), u, g]" if "plain_word w0" for w0
    using line_words_simple [of "[n, show_base 8 (unat v), u, g]" w0] e(3-5) that show_base_plain by simp
  from this [of "''f''"] this [of "''d''"] show ?thesis
    using e(1,2,6) parse_octal_show [of v]
    by (auto simp: print_ent_def entry_spec_def file_spec_def plain_word_def lextype_of_def)
qed

text \<open>The callback that collects the entries, and the reader on entries it can be given.\<close>

definition collect_cb :: "manifest_ent list manifest_ent_cb" where
  "collect_cb e acc = Inr (MECB_NEXT, e, acc @ [e])"

text \<open>A line without an entry: white space and then nothing, a comment or the line end.\<close>

definition empty_line :: "char list \<Rightarrow> bool" where
  "empty_line line \<longleftrightarrow> line_words line = []"

definition fits :: "char list \<Rightarrow> bool" where
  "fits line \<longleftrightarrow> nul_free line \<and> length line + 2 < STRLIST_ROOM"

lemma ent_type_valid: "link_ent e \<or> file_ent e \<Longrightarrow> me_type e \<noteq> ME_TYPE_INVALID"
  by (auto simp: link_ent_def file_ent_def)

lemma read_lines_collect:
  assumes "good_alloc mem"
  shows "\<forall>l \<in> set ls. fits (fst l) \<and> (case snd l of None \<Rightarrow> empty_line (fst l)
      | Some e \<Rightarrow> (link_ent e \<or> file_ent e) \<and> fst l = print_ent e) \<Longrightarrow>
    read_manifest_lines mem collect_cb fin (map fst ls) manifest_ent_zero acc =
      Inr (case fin of None \<Rightarrow> 0 | Some _ \<Rightarrow> -1, fin, acc @ List.map_filter snd ls)"
proof (induction ls arbitrary: acc)
  case Nil
  then show ?case by (simp add: List.map_filter_def split: option.split)
next
  case (Cons l ls)
  have l: "nul_free (fst l)" "length (fst l) + 2 < STRLIST_ROOM" using Cons.prems by (auto simp: fits_def)
  note step = process_line_spec [OF assms l] and IH = Cons.IH [unfolded ball_simps]
  show ?case
  proof (cases "snd l")
    case None
    then have "entry_spec (line_words (fst l)) = Some manifest_ent_zero"
      using Cons.prems by (simp add: empty_line_def entry_spec_def)
    moreover have "me_type manifest_ent_zero = ME_TYPE_INVALID" by (simp add: manifest_ent_zero_def)
    ultimately show ?thesis
      using step Cons.IH Cons.prems None by (simp add: manifest_ent_reset_zero List.map_filter_def)
  next
    case (Some e)
    then have "entry_spec (line_words (fst l)) = Some e" "me_type e \<noteq> ME_TYPE_INVALID"
      using Cons.prems line_words_link [of e] line_words_file [of e] ent_type_valid [of e] by auto
    then show ?thesis
      using step Cons.IH Cons.prems Some
      by (simp add: manifest_ent_reset_zero List.map_filter_def collect_cb_def)
  qed
qed

text \<open>The reader with any callback, over the entries of the lines (\<open>None\<close> for a malformed line).\<close>

fun entries_run :: "'a manifest_ent_cb \<Rightarrow> errno option \<Rightarrow> manifest_ent option list \<Rightarrow> 'a \<Rightarrow> 'a read_result" where
  "entries_run mecb fin [] arg = (case fin of None \<Rightarrow> Inr (0, None, arg) | Some e \<Rightarrow> Inr (-1, Some e, arg))"
| "entries_run mecb fin (None # es) arg = Inr (-1, Some EPROTO, arg)"
| "entries_run mecb fin (Some e # es) arg =
     (if me_type e = ME_TYPE_INVALID then entries_run mecb fin es arg
      else bindr (mecb e arg) (\<lambda>(what, _, arg).
             case what of
               MECB_NEXT \<Rightarrow> entries_run mecb fin es arg
             | MECB_DONE \<Rightarrow> Inr (0, None, arg)
             | MECB_CANCEL \<Rightarrow> Inr (0, Some ECANCELED, arg)))"

lemma read_lines_run:
  assumes "good_alloc mem" "\<forall>l \<in> set lines. fits l"
  shows "read_manifest_lines mem mecb fin lines manifest_ent_zero arg =
    entries_run mecb fin (map (\<lambda>l. entry_spec (line_words l)) lines) arg"
  using assms(2)
proof (induction lines arbitrary: arg)
  case (Cons l lines)
  then have l: "nul_free l" "length l + 2 < STRLIST_ROOM" by (simp_all add: fits_def)
  show ?case
    using process_line_spec [OF assms(1) l] Cons
    by (cases "entry_spec (line_words l)")
      (auto simp: manifest_ent_reset_zero bindr_def split: sum.split me_cb_ret.split)
qed simp

text \<open>A manifest that can be read, and the entries of its lines.\<close>

definition manifest_entries :: "manifest_file \<Rightarrow> manifest_ent list \<Rightarrow> bool" where
  "manifest_entries mf es \<longleftrightarrow> mf_open mf = None \<and> mf_stat mf = Some True \<and> mf_error mf = None \<and>
     (\<forall>l \<in> set (mf_lines mf). fits l) \<and> map (\<lambda>l. entry_spec (line_words l)) (mf_lines mf) = map Some es"

lemma read_entries_run:
  assumes "good_alloc mem" "manifest_entries mf es"
  shows "read_manifest_file mem mf mecb arg = entries_run mecb None (map Some es) arg"
  using assms(2) read_lines_run [OF assms(1), of "mf_lines mf" mecb None arg]
  by (simp add: manifest_entries_def read_manifest_file_def is_regular_file_def)

lemma entry_spec_directory:
  assumes "entry_spec (line_words l) = Some e" "me_type e = ME_TYPE_DIRECTORY"
  shows "\<exists>n. me_name e = Some n \<and> plain_word n"
  using assms line_words_plain [of _ l]
  by (auto simp: entry_spec_def link_spec_def file_spec_def manifest_ent_zero_def
      split: list.splits if_splits sum.splits)

section \<open>Properties\<close>



text \<open>C34: A manifest is read back: from a regular file whose lines are printed entries (files,
  directories, hard and symbolic links) and empty or comment lines in any order, the reader hands
  exactly the entries, in the order of the file, to its callback, and returns 0 at the end of the
  file, or -1 with the error of \<^verbatim>\<open>getline\<close>.\<close>

theorem read_manifest_file_roundtrip:
  assumes "good_alloc mem" "mf_open mf = None" "mf_stat mf = Some True" "mf_lines mf = map fst ls"
    and "\<forall>l \<in> set ls. nul_free (fst l) \<and> length (fst l) + 2 < STRLIST_ROOM \<and>
      (case snd l of None \<Rightarrow> empty_line (fst l)
       | Some e \<Rightarrow> (link_ent e \<or> file_ent e) \<and> fst l = print_ent e)"
  shows "read_manifest_file mem mf collect_cb [] =
    Inr (case mf_error mf of None \<Rightarrow> 0 | Some _ \<Rightarrow> -1, mf_error mf, List.map_filter snd ls)"
  using read_lines_collect [OF assms(1), of ls "mf_error mf" "[]"] assms(2-5)
  by (simp add: read_manifest_file_def is_regular_file_def fits_def)

definition manifest_sample :: manifest_file where
  "manifest_sample = \<lparr>mf_open = None, mf_stat = Some True, mf_stale = None,
     mf_lines = [''# image'' @ [NL], ''d etc 755 root sys'' @ [NL], ''s bin=./usr/bin'' @ [NL]], mf_error = None\<rparr>"

definition ent_etc :: manifest_ent where
  "ent_etc = manifest_ent_zero\<lparr>me_type := ME_TYPE_DIRECTORY, me_name := Some ''etc'', me_mode := 0x1ED,
     me_user := Some ''root'', me_group := Some ''sys''\<rparr>"

definition ent_bin :: manifest_ent where
  "ent_bin = manifest_ent_zero\<lparr>me_type := ME_TYPE_SYMLINK, me_name := Some ''bin'', me_target := Some ''./usr/bin''\<rparr>"

theorem read_manifest_file_roundtrip_witness:
  "read_manifest_file heap_base manifest_sample collect_cb [] = Inr (0, None, [ent_etc, ent_bin])"
proof -
  let ?ls = "[(''# image'' @ [NL], None), (''d etc 755 root sys'' @ [NL], Some ent_etc),
    (''s bin=./usr/bin'' @ [NL], Some ent_bin)]"
  have p: "plain_word ''etc''" "plain_word ''root''" "plain_word ''sys''" "plain_word ''bin''" "plain_word ''./usr/bin''"
    by (simp_all add: plain_word_def lextype_of_def)
  have "file_ent ent_etc"
    unfolding file_ent_def ent_etc_def
    by (rule exI [of _ ME_TYPE_DIRECTORY], rule exI [of _ "''etc''"], rule exI [of _ "0x1ED"],
        rule exI [of _ "''root''"], rule exI [of _ "''sys''"]) (simp add: p)
  moreover have "link_ent ent_bin"
    unfolding link_ent_def ent_bin_def
    by (rule exI [of _ ME_TYPE_SYMLINK], rule exI [of _ "''bin''"], rule exI [of _ "''./usr/bin''"]) (simp add: p)
  moreover have "print_ent ent_etc = ''d etc 755 root sys'' @ [NL]" "print_ent ent_bin = ''s bin=./usr/bin'' @ [NL]"
    by code_simp+
  moreover have "empty_line (''# image'' @ [NL])" by (simp add: empty_line_def line_words_def lextype_of_def)
  ultimately show ?thesis
    using read_manifest_file_roundtrip [OF good_heap_base, of manifest_sample ?ls]
    by (simp add: manifest_sample_def List.map_filter_def STRLIST_ROOM_def)
qed

text \<open>How a manifest read ends. After lines that were read and answered with \<^verbatim>\<open>NEXT\<close>, a malformed
  line ends it with -1 and \<^verbatim>\<open>EPROTO\<close>, \<^verbatim>\<open>DONE\<close> with 0 and no error, and \<^verbatim>\<open>CANCEL\<close> with 0 as well: only
  \<^verbatim>\<open>errno\<close> tells a cancelled read from a finished one. Nothing behind that line is looked at.\<close>

theorem read_manifest_file_ends:
  assumes "good_alloc mem" "mf_open mf = None" "mf_stat mf = Some True" "mf_lines mf = line # rest"
    and "nul_free line" "length line + 2 < STRLIST_ROOM"
  shows "(entry_spec (line_words line) = None \<longrightarrow>
      read_manifest_file mem mf mecb arg = Inr (-1, Some EPROTO, arg)) \<and>
    (\<forall>e me' arg'. entry_spec (line_words line) = Some e \<longrightarrow> me_type e \<noteq> ME_TYPE_INVALID \<longrightarrow>
      (mecb e arg = Inr (MECB_DONE, me', arg') \<longrightarrow> read_manifest_file mem mf mecb arg = Inr (0, None, arg')) \<and>
      (mecb e arg = Inr (MECB_CANCEL, me', arg') \<longrightarrow>
         read_manifest_file mem mf mecb arg = Inr (0, Some ECANCELED, arg')) \<and>
      (mecb e arg = Inr (MECB_NEXT, me', arg') \<longrightarrow>
         read_manifest_file mem mf mecb arg = read_manifest_file mem (mf\<lparr>mf_lines := rest\<rparr>) mecb arg'))"
  using process_line_spec [OF assms(1,5,6)] assms(2-4)
  by (simp add: read_manifest_file_def is_regular_file_def manifest_ent_reset_zero)

theorem read_manifest_file_ends_witness:
  "read_manifest_file heap_base (manifest_sample\<lparr>mf_lines := [''f x'', ''d etc 755 root sys'']\<rparr>) collect_cb [] =
     Inr (-1, Some EPROTO, [])"
proof -
  have "line_words ''f x'' = [''f'', ''x'']" by (simp add: line_words_def lextype_of_def)
  then have "entry_spec (line_words ''f x'') = None" by (simp add: entry_spec_def file_spec_def)
  then show ?thesis
    using read_manifest_file_ends [OF good_heap_base, of "manifest_sample\<lparr>mf_lines := [''f x'', ''d etc 755 root sys'']\<rparr>"
        "''f x''" "[''d etc 755 root sys'']" collect_cb "[]"]
    by (simp add: manifest_sample_def STRLIST_ROOM_def)
qed

end
