(* ===== verification/Mancf.thy ===== *)
theory Mancf
  imports Strset Manifest Custr
begin

text \<open>
  \<^verbatim>\<open>src/tools/mancf/main.c\<close>: the tool that writes \<^verbatim>\<open>/usr/share/man/man.cf\<close>. It collects the manual sections
  a manifest ships into a string set, transfers them one after the other to a string list in an order
  that respects a table of partial ordering rules, and prints the list. The tree library below the
  string set is a parameter. A call of \<^verbatim>\<open>err\<close> or \<^verbatim>\<open>errx\<close> is \<^verbatim>\<open>Fault_Exit 1\<close>; messages on the standard error
  are not modelled.
\<close>

unbundle bit_operations_syntax

section \<open>Patterns\<close>

text \<open>
  \<^verbatim>\<open>fnmatch\<close> without flags in the C locale, for the patterns of the table: literal characters, \<^verbatim>\<open>?\<close>, \<^verbatim>\<open>*\<close>
  and bracket expressions with characters and ranges (no negation, no classes and no escapes, which
  the table has not). A bracket that is not closed stands for itself.
\<close>

fun bracket_scan :: "char \<Rightarrow> bool \<Rightarrow> char list \<Rightarrow> (bool \<times> char list) option" where
  "bracket_scan c hit [] = None"
| "bracket_scan c hit (a # p) =
     (if a = CHR '']'' then Some (hit, p)
      else case p of
        d # b # p' \<Rightarrow>
          if d = CHR ''-'' \<and> b \<noteq> CHR '']''
          then bracket_scan c (hit \<or> (of_char a :: nat) \<le> of_char c \<and> (of_char c :: nat) \<le> of_char b) p'
          else bracket_scan c (hit \<or> a = c) p
      | _ \<Rightarrow> bracket_scan c (hit \<or> a = c) p)"

function fnmatch :: "char list \<Rightarrow> char list \<Rightarrow> bool" where
  "fnmatch [] s = (s = [])"
| "fnmatch (p # ps) s =
     (if p = CHR ''*'' then fnmatch ps s \<or> (case s of [] \<Rightarrow> False | c # s' \<Rightarrow> fnmatch (p # ps) s')
      else (case s of
        [] \<Rightarrow> False
      | c # s' \<Rightarrow>
          if p = CHR ''?'' then fnmatch ps s'
          else if p = CHR ''['' then
            (case bracket_scan c False ps of
               Some (hit, rest) \<Rightarrow> hit \<and> fnmatch rest s'
             | None \<Rightarrow> c = p \<and> fnmatch ps s')
          else c = p \<and> fnmatch ps s'))"
  by pat_completeness auto
termination by (relation "(\<lambda>(p, s). length s) <*mlex*> measure (\<lambda>(p, s). length p)") (auto simp: wf_mlex mlex_prod_def)

section \<open>The ordering rules\<close>

record manorder =
  mao_more_important :: "char list"
  mao_less_important :: "char list"

definition cm_manorders :: "manorder list" where
  "cm_manorders =
     [\<lparr>mao_more_important = ''1m'', mao_less_important = ''1b''\<rparr>,
      \<lparr>mao_more_important = ''8*'', mao_less_important = ''1b''\<rparr>,
      \<lparr>mao_more_important = ''8*'', mao_less_important = ''[2-7]*''\<rparr>,
      \<lparr>mao_more_important = ''3c'', mao_less_important = ''3?*''\<rparr>,
      \<lparr>mao_more_important = ''3socket'', mao_less_important = ''3xnet''\<rparr>,
      \<lparr>mao_more_important = ''3socket'', mao_less_important = ''3head''\<rparr>,
      \<lparr>mao_more_important = '''', mao_less_important = ''''\<rparr>]"

definition cm_pdir :: "char list" where
  "cm_pdir = ''usr/share/man''"

text \<open>The loop over the table ends at the entry with an empty pattern.\<close>

fun manorder_scan :: "manorder list \<Rightarrow> char list \<Rightarrow> char list \<Rightarrow> bool outcome" where
  "manorder_scan [] sect other_section = Inl Fault_OOB"
| "manorder_scan (mao # rest) sect other_section =
     (if mao_more_important mao = [] then Inr False
      else if fnmatch (mao_more_important mao) sect \<and> fnmatch (mao_less_important mao) other_section then Inr True
      else manorder_scan rest sect other_section)"

definition section_is_more_important :: "char list \<Rightarrow> char list \<Rightarrow> bool outcome" where
  "section_is_more_important sect other_section =
     (if strcmp sect other_section = 0 then Inr False
      else manorder_scan cm_manorders sect other_section)"

section \<open>The program\<close>

record 't mancf =
  mcf_manifest_path :: "char list option"
  mcf_trailing_comma :: bool
  mcf_sections :: "'t strset"
  mcf_output :: strlist

text \<open>\<^verbatim>\<open>mancf_reset\<close> frees the path and the set; the list of the output is dropped without being freed.\<close>

definition mancf_reset :: "('t, char list) avl_ops \<Rightarrow> 't mancf \<Rightarrow> unit outcome" where
  "mancf_reset A mcf = strset_free A (Some (mcf_sections mcf))"

definition mancf_init :: "('t, char list) avl_ops \<Rightarrow> allocator \<Rightarrow> 't mancf outcome" where
  "mancf_init A mem =
     (case strset_alloc A mem 0 of
        (Ret_ok, Some sections) \<Rightarrow>
          (case strlist_alloc mem 0 of
             (Ret_ok, Some output) \<Rightarrow>
               Inr \<lparr>mcf_manifest_path = None, mcf_trailing_comma = False, mcf_sections = sections, mcf_output = output\<rparr>
           | _ \<Rightarrow> Inl (Fault_Exit 1))
      | _ \<Rightarrow> Inl (Fault_Exit 1))"

definition section_sort_walk_blocked_check :: "char list \<Rightarrow> ('t, bool) strset_walk_func" where
  "section_sort_walk_blocked_check sect ss other_sect blocked =
     bindr (section_is_more_important other_sect sect) (\<lambda>more.
       Inr (if more then (STRSET_WALK_DONE, ss, True) else (STRSET_WALK_NEXT, ss, blocked)))"

text \<open>
  The state of the outer callback is the output list and \<^verbatim>\<open>made_progress\<close>. The set it walks again inside is
  the set that is being walked; as no callback of this program adds a string, a walk has as much fuel
  as the set has nodes. The result of \<^verbatim>\<open>strlist_set_tail\<close> is ignored.
\<close>

definition section_sort_walk :: "('t, char list) avl_ops \<Rightarrow> allocator \<Rightarrow> ('t, strlist \<times> bool) strset_walk_func" where
  "section_sort_walk A mem ss sect st =
     (case st of (output, made_progress) \<Rightarrow>
       bindr (strset_walk A (avl_numnodes A (ss_strings ss)) ss (section_sort_walk_blocked_check sect) False)
         (\<lambda>(r, ss, blocked).
           case r of
             Ret_err e \<Rightarrow> Inl (Fault_Exit 1)
           | Ret_ok \<Rightarrow>
               if \<not> blocked
               then bindr (strlist_set_tail mem output (Some sect)) (\<lambda>(_, output).
                    Inr (STRSET_WALK_DONE OR STRSET_WALK_REMOVE, ss, output, True))
               else Inr (STRSET_WALK_NEXT, ss, output, made_progress)))"

text \<open>The options as \<^verbatim>\<open>getopt\<close> returns them, each with its argument (\<open>''''\<close> when it takes none).\<close>

definition mancf_usage :: "int \<Rightarrow> 'a outcome" where
  "mancf_usage rc = Inl (Fault_Exit rc)"

fun mancf_getopt_loop :: "allocator \<Rightarrow> (char \<times> char list) list \<Rightarrow> 't mancf \<Rightarrow> 't mancf outcome" where
  "mancf_getopt_loop mem [] mcf = Inr mcf"
| "mancf_getopt_loop mem ((c, optarg) # opts) mcf =
     (if c = CHR ''f'' then mancf_getopt_loop mem opts (mcf\<lparr>mcf_manifest_path := strdup mem optarg\<rparr>)
      else if c = CHR ''t'' then mancf_getopt_loop mem opts (mcf\<lparr>mcf_trailing_comma := True\<rparr>)
      else if c = CHR ''h'' then mancf_usage 0
      else if c = CHR '':'' \<or> c = CHR ''?'' then mancf_usage 2
      else mancf_getopt_loop mem opts mcf)"

definition mancf_parse_opts :: "allocator \<Rightarrow> (char \<times> char list) list \<Rightarrow> 't mancf \<Rightarrow> 't mancf outcome" where
  "mancf_parse_opts mem opts mcf =
     bindr (mancf_getopt_loop mem opts mcf) (\<lambda>mcf.
     case mcf_manifest_path mcf of
       None \<Rightarrow> mancf_usage 2
     | Some path \<Rightarrow> if path = [] then mancf_usage 2 else Inr mcf)"

text \<open>\<^verbatim>\<open>asprintf\<close> allocates the prefix; a failure of it ends the program.\<close>

definition populate_sections :: "('t, char list) avl_ops \<Rightarrow> allocator \<Rightarrow> 't mancf manifest_ent_cb" where
  "populate_sections A mem me mcf =
     (case strdup mem (cm_pdir @ ''/man'') of
        None \<Rightarrow> Inl (Fault_Exit 1)
      | Some prefix \<Rightarrow>
          let len = length prefix in
          (case me_type me of
             ME_TYPE_DIRECTORY \<Rightarrow>
               (case me_name me of
                  None \<Rightarrow> Inl Fault_Null
                | Some name \<Rightarrow>
                    if take len (cstr name) \<noteq> prefix then Inr (MECB_NEXT, me, mcf)
                    else (let sect = drop len (cstr name) in
                      if length sect < 1 \<or> CHR ''/'' \<in> set sect then Inr (MECB_NEXT, me, mcf)
                      else bindr (strset_add A mem (mcf_sections mcf) (Some sect)) (\<lambda>(r, sections).
                        case r of
                          Ret_err e \<Rightarrow> Inl (Fault_Exit 1)
                        | Ret_ok \<Rightarrow> Inr (MECB_NEXT, me, mcf\<lparr>mcf_sections := sections\<rparr>))))
           | _ \<Rightarrow> Inr (MECB_NEXT, me, mcf)))"

definition append_to_str :: "allocator \<Rightarrow> char list \<Rightarrow> custr \<Rightarrow> 't mancf \<Rightarrow> (32 word \<times> custr) outcome" where
  "append_to_str mem pattern mansect mcf =
     bindr (if \<not> mcf_trailing_comma mcf \<and> 0 < custr_len mansect
            then or_exit (custr_appendc mem mansect (CHR '','')) else Inr mansect) (\<lambda>mansect.
     bindr (or_exit (custr_append mem mansect pattern)) (\<lambda>mansect.
     bindr (if mcf_trailing_comma mcf
            then or_exit (custr_appendc mem mansect (CHR '','')) else Inr mansect) (\<lambda>mansect.
     Inr (STRSET_WALK_NEXT, mansect))))"

definition man_cf_text :: "char list \<Rightarrow> char list" where
  "man_cf_text mansects =
     ''#'' @ [NL] @
     ''# This file is automatically generated by the \"mancf\" tool'' @ [NL] @
     ''# in \"smartos-live.git\".  It affects the search order of'' @ [NL] @
     ''# manual page sections for pages shipped in \"/usr/share/man\".'' @ [NL] @
     ''#'' @ [NL] @
     ''# NOTE: All sections must be listed in this file, or they will'' @ [NL] @
     ''#       NOT be searched.  See man(1) for more details.'' @ [NL] @
     ''#'' @ [NL] @
     ''MANSECTS='' @ mansects @ [NL]"

text \<open>The loop by the number of iterations left: the list, and with it its count, does not change.\<close>

fun make_sects_loop :: "allocator \<Rightarrow> 't mancf \<Rightarrow> nat \<Rightarrow> 32 word \<Rightarrow> custr \<Rightarrow> custr outcome" where
  "make_sects_loop mem mcf 0 i mansect = Inr mansect"
| "make_sects_loop mem mcf (Suc n) i mansect =
     bindr (strlist_get (mcf_output mcf) i) (\<lambda>pattern.
     case pattern of
       None \<Rightarrow> Inl Fault_Null
     | Some pattern \<Rightarrow>
         bindr (append_to_str mem pattern mansect mcf) (\<lambda>(_, mansect).
         make_sects_loop mem mcf n (i + 1) mansect))"

text \<open>The result is the text written to the standard output; \<open>out_ok\<close> tells whether it can be written.\<close>

definition make_sects :: "allocator \<Rightarrow> bool \<Rightarrow> 't mancf \<Rightarrow> char list outcome" where
  "make_sects mem out_ok mcf =
     (case custr_alloc mem of
        (Ret_ok, Some mansect) \<Rightarrow>
          bindr (strlist_contig_count (mcf_output mcf)) (\<lambda>count.
          bindr (make_sects_loop mem mcf (unat count) 0 mansect) (\<lambda>mansect.
          bindr (custr_cstr mansect) (\<lambda>s.
          if out_ok then Inr (man_cf_text s) else Inl (Fault_Exit 1))))
      | _ \<Rightarrow> Inl (Fault_Exit 1))"

text \<open>
  The loop of \<^verbatim>\<open>main\<close>, with fuel: a turn that does not end the program removes a section, so as much fuel
  as there are sections is enough.
\<close>

fun sort_sections :: "('t, char list) avl_ops \<Rightarrow> allocator \<Rightarrow> nat \<Rightarrow> 't mancf \<Rightarrow> 't mancf outcome" where
  "sort_sections A mem n mcf =
     (if 0 < strset_count A (mcf_sections mcf)
      then (case n of
              0 \<Rightarrow> Inl Fault_Fuel
            | Suc n \<Rightarrow>
                bindr (strset_walk A (avl_numnodes A (ss_strings (mcf_sections mcf))) (mcf_sections mcf)
                   (section_sort_walk A mem) (mcf_output mcf, False)) (\<lambda>(r, sections, output, made_progress).
                case r of
                  Ret_err e \<Rightarrow> Inl (Fault_Exit 1)
                | Ret_ok \<Rightarrow>
                    if \<not> made_progress then Inl (Fault_Exit 1)
                    else sort_sections A mem n (mcf\<lparr>mcf_sections := sections, mcf_output := output\<rparr>)))
      else Inr mcf)"

text \<open>
  What the program is run with: the files by path, whether the standard output can be written, and
  whether \<^verbatim>\<open>ABORT_ON_EXIT\<close> is set. The result: the exit status and the standard output.
\<close>

record mancf_world =
  mw_files :: "char list \<Rightarrow> manifest_file"
  mw_stdout_ok :: bool
  mw_abort_on_exit :: bool

definition mancf_main ::
    "('t, char list) avl_ops \<Rightarrow> allocator \<Rightarrow> mancf_world \<Rightarrow> (char \<times> char list) list \<Rightarrow> (int \<times> char list) outcome" where
  "mancf_main A mem w opts =
     bindr (mancf_init A mem) (\<lambda>mcf.
     bindr (mancf_parse_opts mem opts mcf) (\<lambda>mcf.
     bindr (read_manifest_file mem (mw_files w (the (mcf_manifest_path mcf))) (populate_sections A mem) mcf)
       (\<lambda>(ret, _, mcf).
     bindr (if ret \<noteq> 0 then Inr (50, [], mcf)
            else bindr (sort_sections A mem (avl_numnodes A (ss_strings (mcf_sections mcf))) mcf) (\<lambda>mcf.
                 bindr (make_sects mem (mw_stdout_ok w) mcf) (\<lambda>out. Inr (0, out, mcf)))) (\<lambda>(rval, out, mcf).
     bindr (mancf_reset A mcf) (\<lambda>_.
     if mw_abort_on_exit w then Inl Fault_Abort else Inr (rval, out))))))"

declare sort_sections.simps [simp del] fnmatch.simps [simp del]

section \<open>The rules\<close>

text \<open>What the table says: the relation between two sections, spelled out.\<close>

definition in_section :: "char list \<Rightarrow> char list \<Rightarrow> bool" where
  "in_section cs s \<longleftrightarrow> s \<noteq> [] \<and> hd s \<in> set cs"

definition more_important :: "char list \<Rightarrow> char list \<Rightarrow> bool" where
  "more_important a b \<longleftrightarrow> a \<noteq> b \<and>
     ((a = ''1m'' \<or> in_section ''8'' a) \<and> b = ''1b'' \<or> in_section ''8'' a \<and> in_section ''234567'' b \<or>
      a = ''3c'' \<and> in_section ''3'' b \<and> 2 \<le> length b \<or> a = ''3socket'' \<and> b \<in> {''3xnet'', ''3head''})"

lemma fnmatch_star [simp]: "fnmatch ''*'' s"
  by (induction s) (simp_all add: fnmatch.simps)

lemma fnmatch_Nil [simp]: "fnmatch [] s \<longleftrightarrow> s = []"
  by (simp add: fnmatch.simps)

lemma fnmatch_plain:
  "p \<notin> {CHR ''*'', CHR ''?'', CHR ''[''} \<Longrightarrow> fnmatch (p # ps) s \<longleftrightarrow> s \<noteq> [] \<and> hd s = p \<and> fnmatch ps (tl s)"
  by (cases s) (auto simp: fnmatch.simps(2))

lemma fnmatch_any: "fnmatch (CHR ''?'' # ps) s \<longleftrightarrow> s \<noteq> [] \<and> fnmatch ps (tl s)"
  by (cases s) (simp_all add: fnmatch.simps(2))

lemma two_to_seven: "50 \<le> (of_char c :: nat) \<and> (of_char c :: nat) \<le> 55 \<longleftrightarrow> c \<in> set ''234567''"
proof
  assume "50 \<le> (of_char c :: nat) \<and> (of_char c :: nat) \<le> 55"
  then have "(of_char c :: nat) \<in> {of_char (CHR ''2''), of_char (CHR ''3''), of_char (CHR ''4''), of_char (CHR ''5''),
      of_char (CHR ''6''), of_char (CHR ''7'')}" by simp linarith
  then show "c \<in> set ''234567''" by (simp only: of_char_eq_iff insert_iff empty_iff) auto
qed auto

lemma fnmatch_bracket:
  "bracket_scan c False ps = Some (hit, rest) \<Longrightarrow> fnmatch (CHR ''['' # ps) (c # s) \<longleftrightarrow> hit \<and> fnmatch rest s"
  by (simp add: fnmatch.simps(2))

lemma fnmatch_two_to_seven: "fnmatch ''[2-7]*'' s \<longleftrightarrow> in_section ''234567'' s"
proof (cases s)
  case (Cons c s')
  have "bracket_scan c False ''2-7]*'' = Some (c \<in> set ''234567'', ''*'')" unfolding two_to_seven [symmetric] by simp
  from fnmatch_bracket [OF this, of s'] show ?thesis using Cons by (simp add: in_section_def)
qed (simp add: fnmatch.simps(2) in_section_def)

lemma fnmatch_table:
  "fnmatch ''8*'' s \<longleftrightarrow> in_section ''8'' s" "fnmatch ''3?*'' s \<longleftrightarrow> in_section ''3'' s \<and> 2 \<le> length s"
  "fnmatch ''1m'' s \<longleftrightarrow> s = ''1m''" "fnmatch ''1b'' s \<longleftrightarrow> s = ''1b''" "fnmatch ''3c'' s \<longleftrightarrow> s = ''3c''"
  "fnmatch ''3socket'' s \<longleftrightarrow> s = ''3socket''" "fnmatch ''3xnet'' s \<longleftrightarrow> s = ''3xnet''" "fnmatch ''3head'' s \<longleftrightarrow> s = ''3head''"
proof -
  have lit: "fnmatch (p # ps) s \<longleftrightarrow> s = p # ps"
    if "p \<notin> {CHR ''*'', CHR ''?'', CHR ''[''}" "\<And>s. fnmatch ps s \<longleftrightarrow> s = ps" for p ps s
    using that by (cases s) (auto simp: fnmatch_plain)
  show "fnmatch ''8*'' s \<longleftrightarrow> in_section ''8'' s" by (simp add: fnmatch_plain in_section_def)
  show "fnmatch ''3?*'' s \<longleftrightarrow> in_section ''3'' s \<and> 2 \<le> length s"
    by (cases s; cases "tl s") (simp_all add: fnmatch_plain fnmatch_any in_section_def)
  show "fnmatch ''1m'' s \<longleftrightarrow> s = ''1m''" "fnmatch ''1b'' s \<longleftrightarrow> s = ''1b''" "fnmatch ''3c'' s \<longleftrightarrow> s = ''3c''"
    "fnmatch ''3socket'' s \<longleftrightarrow> s = ''3socket''" "fnmatch ''3xnet'' s \<longleftrightarrow> s = ''3xnet''" "fnmatch ''3head'' s \<longleftrightarrow> s = ''3head''"
    by (intro lit; simp)+
qed

lemma section_order: "section_is_more_important a b = Inr (more_important a b)"
  by (simp add: section_is_more_important_def cm_manorders_def more_important_def fnmatch_two_to_seven fnmatch_table)
    blast

text \<open>A rank that every rule raises: the rules have no cycle.\<close>

definition section_rank :: "char list \<Rightarrow> nat" where
  "section_rank s = (if s = ''1m'' \<or> in_section ''8'' s then 0 else if s = ''3c'' then 1 else if s = ''3socket'' then 2 else 3)"

lemma more_important_rank: "more_important a b \<Longrightarrow> section_rank a < section_rank b"
  unfolding more_important_def by (elim conjE disjE) (simp_all add: section_rank_def in_section_def, auto)

section \<open>The order of the output\<close>

text \<open>
  The specification: the output is chosen greedily. A section is blocked in a set of sections when
  another one of them is more important; the next section of the output is the first one, in the
  order of \<^verbatim>\<open>strcmp\<close>, that is not blocked in what is left.
\<close>

definition sect_blocked :: "char list set \<Rightarrow> char list \<Rightarrow> bool" where
  "sect_blocked S s \<longleftrightarrow> (\<exists>other \<in> S. more_important other s)"

fun man_order :: "char list set \<Rightarrow> char list list \<Rightarrow> bool" where
  "man_order S [] \<longleftrightarrow> S = {}"
| "man_order S (y # ys) \<longleftrightarrow> y \<in> S \<and> \<not> sect_blocked S y \<and>
     (\<forall>s \<in> S. \<not> sect_blocked S s \<longrightarrow> strcmp y s \<le> 0) \<and> man_order (S - {y}) ys"

lemma man_order_set: "man_order S ys \<Longrightarrow> set ys = S \<and> distinct ys"
  by (induction ys arbitrary: S) auto

lemma man_order_respects: "man_order S ys \<Longrightarrow> sorted_wrt (\<lambda>x y. \<not> more_important y x) ys"
proof (induction ys arbitrary: S)
  case (Cons y ys)
  then show ?case using man_order_set [of "S - {y}" ys] by (auto simp: sect_blocked_def)
qed simp

lemma man_order_unique: "man_order S xs \<Longrightarrow> man_order S ys \<Longrightarrow> xs = ys"
proof (induction xs arbitrary: S ys)
  case (Cons x xs)
  then obtain y ys' where ys: "ys = y # ys'" by (cases ys) auto
  have "strcmp x y \<le> 0" "strcmp y x \<le> 0" using Cons.prems ys by auto
  then have "strcmp x y = 0" using strcmp_antisym [of x y] by linarith
  then have "x = y" by simp
  then show ?case using Cons ys by auto
qed (auto intro: man_order.elims(2))

text \<open>As the rules have no cycle, some section is never blocked.\<close>

lemma some_unblocked:
  assumes "finite S" "S \<noteq> {}"
  shows "\<exists>s \<in> S. \<not> sect_blocked S s"
proof -
  obtain s where s: "s \<in> S" "\<forall>t \<in> S. section_rank s \<le> section_rank t"
    using ex_min_if_finite [of "section_rank ` S"] assms by (metis (no_types, lifting) arg_min_if_finite(1,2) linorder_not_less)
  then have "\<not> sect_blocked S s"
    unfolding sect_blocked_def using more_important_rank by (meson linorder_not_less)
  then show ?thesis using s(1) by blast
qed

context string_avl
begin

lemma blocked_check_loop:
  assumes "avl_ok cmp (ss_strings ss)"
  shows "nodes (ss_strings ss) = pre @ xs \<Longrightarrow> length xs \<le> n \<Longrightarrow>
    strset_walk_loop A (section_sort_walk_blocked_check sect) n (case xs of [] \<Rightarrow> None | x # _ \<Rightarrow> Some x) ss b =
      Inr (None, ss, b \<or> sect_blocked (set xs) sect)"
proof (induction xs arbitrary: pre n b)
  case (Cons x xs)
  obtain n' where n: "n = Suc n'" using Cons.prems(2) by (cases n) auto
  have nx: "AVL_NEXT A (ss_strings ss) x = (case xs of [] \<Rightarrow> None | y # _ \<Rightarrow> Some y)"
    using next_node [OF assms Cons.prems(1)] .
  show ?case
    using Cons.IH [of "pre @ [x]" n' b] Cons.prems n nx
    by (auto simp: section_sort_walk_blocked_check_def section_order sect_blocked_def Let_def
        STRSET_WALK_WHATNEXT_def walk_consts STRSET_WALK_REMOVE_def)
qed (simp add: sect_blocked_def)

lemma blocked_check:
  assumes ok: "avl_ok cmp (ss_strings ss)"
  shows "strset_walk A (avl_numnodes A (ss_strings ss)) ss (section_sort_walk_blocked_check sect) False =
    Inr (Ret_ok, ss, sect_blocked (set (nodes (ss_strings ss))) sect)"
proof -
  let ?ss = "ss\<lparr>ss_walking := ss_walking ss + 1\<rparr>"
  have "avl_ok cmp (ss_strings ?ss)" "nodes (ss_strings ?ss) = [] @ nodes (ss_strings ss)"
    "length (nodes (ss_strings ss)) \<le> avl_numnodes A (ss_strings ss)" using ok numnodes [OF ok] by simp_all
  from blocked_check_loop [OF this, of sect False] first_node [OF ok] show ?thesis
    by (simp add: strset_walk_def Let_def)
qed

lemma sort_callback:
  assumes "avl_ok cmp (ss_strings ss)"
  shows "section_sort_walk A mem ss sect (output, made) =
    (if sect_blocked (set (nodes (ss_strings ss))) sect then Inr (0, ss, output, made)
     else bindr (strlist_set_tail mem output (Some sect)) (\<lambda>(_, output). Inr (0x11, ss, output, True)))"
  by (simp add: section_sort_walk_def blocked_check [OF assms] walk_consts STRSET_WALK_REMOVE_def)

lemma sort_walk_loop:
  assumes "good_alloc mem" "avl_ok cmp (ss_strings ss)" "strlist_holds output ys" "length ys + 34 < 2 ^ 32"
    and N: "N = set (nodes (ss_strings ss))"
  shows "nodes (ss_strings ss) = pre @ xs \<Longrightarrow> length xs \<le> n \<Longrightarrow> \<forall>x \<in> set xs. nul_free x \<Longrightarrow>
    List.find (\<lambda>s. \<not> sect_blocked N s) xs = Some s \<Longrightarrow>
    \<exists>output'. strset_walk_loop A (section_sort_walk A mem) n (case xs of [] \<Rightarrow> None | x # _ \<Rightarrow> Some x) ss (output, made) =
      Inr (None, ss\<lparr>ss_strings := avl_remove A (ss_strings ss) s\<rparr>, output', True) \<and> strlist_holds output' (ys @ [s])"
proof (induction xs arbitrary: pre n)
  case (Cons x xs)
  obtain n' where n: "n = Suc n'" using Cons.prems(2) by (cases n) auto
  have nx: "AVL_NEXT A (ss_strings ss) x = (case xs of [] \<Rightarrow> None | y # _ \<Rightarrow> Some y)"
    using next_node [OF assms(2) Cons.prems(1)] .
  note step = sort_callback [OF assms(2)] Let_def n nx STRSET_WALK_WHATNEXT_def walk_consts STRSET_WALK_REMOVE_def
  show ?case
  proof (cases "sect_blocked N x")
    case True
    then show ?thesis using Cons.IH [of "pre @ [x]" n'] Cons.prems n N by (simp add: step)
  next
    case False
    then have "s = x" using Cons.prems(4) by simp
    moreover obtain output' where "strlist_set_tail mem output (Some x) = Inr (Ret_ok, output')"
      "strlist_holds output' (ys @ [x])"
      using strlist_set_tail_holds [OF assms(1,3,4), of x] Cons.prems(3) by auto
    ultimately show ?thesis using False N by (simp add: step)
  qed
qed simp

text \<open>One turn of the loop takes the first section that is not blocked.\<close>

lemma sort_turn:
  assumes "good_alloc mem" "strlist_holds output ys" "length ys + 34 < 2 ^ 32"
    and ok: "avl_ok (strset_comparator None) (ss_strings ss)"
    and N: "N = set (nodes (ss_strings ss))" "N \<noteq> {}" "\<forall>x \<in> N. nul_free x"
  shows "\<exists>s output'. strset_walk A (avl_numnodes A (ss_strings ss)) ss (section_sort_walk A mem) (output, False) =
      Inr (Ret_ok, ss\<lparr>ss_strings := avl_remove A (ss_strings ss) s\<rparr>, output', True) \<and> strlist_holds output' (ys @ [s]) \<and>
    s \<in> N \<and> \<not> sect_blocked N s \<and> (\<forall>x \<in> N. \<not> sect_blocked N x \<longrightarrow> strcmp s x \<le> 0)"
proof -
  let ?xs = "nodes (ss_strings ss)" and ?ss = "ss\<lparr>ss_walking := ss_walking ss + 1\<rparr>"
  obtain s where s: "List.find (\<lambda>s. \<not> sect_blocked N s) ?xs = Some s"
    using some_unblocked [of N] N(1,2) find_None_iff [of "\<lambda>s. \<not> sect_blocked N s" ?xs] by fastforce
  have "sorted_wrt (\<lambda>x y. strcmp x y < 0) ?xs" using ordered [OF ok] by (simp add: default_comparator)
  then have min: "\<forall>x \<in> set xs. \<not> sect_blocked N x \<longrightarrow> strcmp s x \<le> 0"
    if "List.find (\<lambda>s. \<not> sect_blocked N s) xs = Some s" "sorted_wrt (\<lambda>x y. strcmp x y < 0) xs" for xs
    using that by (induction xs) (fastforce split: if_splits)+
  have pick: "s \<in> N" "\<not> sect_blocked N s" using s N(1) by (auto simp: find_Some_iff)
  have "avl_ok (strset_comparator None) (ss_strings ?ss)" "N = set (nodes (ss_strings ?ss))" using ok N(1) by simp_all
  from sort_walk_loop [OF assms(1) this(1) assms(2,3) this(2), of "[]" ?xs "avl_numnodes A (ss_strings ss)" s False]
  obtain output' where "strset_walk_loop A (section_sort_walk A mem) (avl_numnodes A (ss_strings ss))
      (avl_first A (ss_strings ss)) ?ss (output, False) =
      Inr (None, ?ss\<lparr>ss_strings := avl_remove A (ss_strings ss) s\<rparr>, output', True)" "strlist_holds output' (ys @ [s])"
    using N s numnodes [OF ok] first_node [OF ok] by auto
  then show ?thesis
    using pick min [OF s] \<open>sorted_wrt _ ?xs\<close> N(1) by (auto simp: strset_walk_def Let_def)
qed

lemma sort_sections_order:
  assumes "good_alloc mem"
  shows "avl_ok (strset_comparator None) (ss_strings (mcf_sections mcf)) \<Longrightarrow>
    N = set (nodes (ss_strings (mcf_sections mcf))) \<Longrightarrow> \<forall>x \<in> N. nul_free x \<Longrightarrow>
    length (nodes (ss_strings (mcf_sections mcf))) = n \<Longrightarrow> strlist_holds (mcf_output mcf) ys \<Longrightarrow> length ys + n < 2 ^ 31 \<Longrightarrow>
    \<exists>t output zs. sort_sections A mem n mcf =
        Inr (mcf\<lparr>mcf_sections := (mcf_sections mcf)\<lparr>ss_strings := t\<rparr>, mcf_output := output\<rparr>) \<and>
      avl_ok (strset_comparator None) t \<and> strlist_holds output (ys @ zs) \<and> man_order N zs"
proof (induction n arbitrary: mcf N ys)
  case 0
  then have "strset_count A (mcf_sections mcf) = 0" by (simp add: strset_count_def numnodes [OF 0(1)] int32_of_def)
  then show ?case
    using 0 by (intro exI [of _ "ss_strings (mcf_sections mcf)"] exI [of _ "mcf_output mcf"] exI [of _ "[]"])
      (simp add: sort_sections.simps)
next
  case (Suc n)
  let ?ss = "mcf_sections mcf"
  note ok = Suc.prems(1)
  have cnt: "0 < strset_count A ?ss"
    using Suc.prems(4,6) numnodes [OF ok] int32_of_id [of "int (Suc n)"] by (simp add: strset_count_def)
  have ne: "N \<noteq> {}" using Suc.prems(2,4) by auto
  obtain s output' where turn: "strset_walk A (avl_numnodes A (ss_strings ?ss)) ?ss (section_sort_walk A mem) (mcf_output mcf, False) =
      Inr (Ret_ok, ?ss\<lparr>ss_strings := avl_remove A (ss_strings ?ss) s\<rparr>, output', True)" "strlist_holds output' (ys @ [s])"
    "s \<in> N" "\<not> sect_blocked N s" "\<forall>x \<in> N. \<not> sect_blocked N x \<longrightarrow> strcmp s x \<le> 0"
    using sort_turn [OF assms Suc.prems(5) _ ok Suc.prems(2) ne Suc.prems(3)] Suc.prems(6) by auto
  have d: "distinct (nodes (ss_strings ?ss))"
    using sorted_comparator_distinct [OF default_comparator_order ordered [OF ok]] .
  have rm: "avl_ok (strset_comparator None) (avl_remove A (ss_strings ?ss) s)"
    "nodes (avl_remove A (ss_strings ?ss) s) = remove1 s (nodes (ss_strings ?ss))"
    using removal [OF ok, of s] turn(3) Suc.prems(2) by auto
  let ?mcf = "mcf\<lparr>mcf_sections := ?ss\<lparr>ss_strings := avl_remove A (ss_strings ?ss) s\<rparr>, mcf_output := output'\<rparr>"
  have len: "length (nodes (ss_strings (mcf_sections ?mcf))) = n" and rest: "N - {s} = set (nodes (ss_strings (mcf_sections ?mcf)))"
    using rm(2) d turn(3) Suc.prems(2,4) by (simp_all add: length_remove1)
  have ok': "avl_ok (strset_comparator None) (ss_strings (mcf_sections ?mcf))" "\<forall>x \<in> N - {s}. nul_free x"
    "strlist_holds (mcf_output ?mcf) (ys @ [s])" "length (ys @ [s]) + n < 2 ^ 31"
    using rm(1) turn(2) Suc.prems(3,6) by simp_all
  obtain t outs zs where
    "sort_sections A mem n ?mcf = Inr (?mcf\<lparr>mcf_sections := (mcf_sections ?mcf)\<lparr>ss_strings := t\<rparr>, mcf_output := outs\<rparr>)"
    "avl_ok (strset_comparator None) t" "strlist_holds outs ((ys @ [s]) @ zs)" "man_order (N - {s}) zs"
    using Suc.IH [OF ok'(1) rest ok'(2) len ok'(3,4)] by blast
  then show ?case
    using cnt turn by (intro exI [of _ t] exI [of _ outs] exI [of _ "s # zs"]) (simp add: sort_sections.simps [of _ _ "Suc n"])
qed

end

section \<open>Reading the manifest\<close>

text \<open>The section a manifest entry ships, if it is the directory of one.\<close>

definition man_prefix :: "char list" where
  "man_prefix = cm_pdir @ ''/man''"

definition section_of :: "manifest_ent \<Rightarrow> char list option" where
  "section_of e =
     (let sect = drop (length man_prefix) (the (me_name e)) in
      if me_type e = ME_TYPE_DIRECTORY \<and> the (me_name e) = man_prefix @ sect \<and> sect \<noteq> [] \<and> CHR ''/'' \<notin> set sect
      then Some sect else None)"

text \<open>An entry as the reader hands it out: the name of a directory is a string.\<close>

definition named_directory :: "manifest_ent \<Rightarrow> bool" where
  "named_directory e \<longleftrightarrow> (me_type e = ME_TYPE_DIRECTORY \<longrightarrow> (\<exists>n. me_name e = Some n \<and> nul_free n))"

lemma named_directory_entry: "entry_spec (line_words l) = Some e \<Longrightarrow> named_directory e"
  using entry_spec_directory [of l e] plain_word_cstr by (auto simp: named_directory_def)

lemma section_of_plain: "named_directory e \<Longrightarrow> section_of e = Some s \<Longrightarrow> nul_free s \<and> s \<noteq> []"
  by (auto simp: named_directory_def section_of_def nul_free_def Let_def dest: in_set_dropD split: if_splits)

context strset_heap
begin

lemma populate_section:
  assumes "flags = 0" "set_inv (mcf_sections mcf)" "named_directory e"
  shows "case section_of e of
      None \<Rightarrow> populate_sections A mem e mcf = Inr (MECB_NEXT, e, mcf)
    | Some s \<Rightarrow> if s \<in> set_elems (mcf_sections mcf) then populate_sections A mem e mcf = Inl (Fault_Exit 1)
        else \<exists>ss. populate_sections A mem e mcf = Inr (MECB_NEXT, e, mcf\<lparr>mcf_sections := ss\<rparr>) \<and> set_inv ss \<and>
          set_elems ss = insert s (set_elems (mcf_sections mcf))"
proof (cases "me_type e = ME_TYPE_DIRECTORY")
  case True
  then obtain n where n: "me_name e = Some n" "nul_free n" using assms(3) by (auto simp: named_directory_def)
  let ?sect = "drop (length man_prefix) n"
  have p: "take (length man_prefix) n \<noteq> man_prefix \<longleftrightarrow> n \<noteq> man_prefix @ ?sect"
    by (metis append_eq_conv_conj append_take_drop_id)
  show ?thesis
    using str.add_step [OF assms(2), of ?sect] True n strdup_good [OF good]
    by (auto simp: populate_sections_def section_of_def man_prefix_def [symmetric] p assms(1) Let_def)
next
  case False
  then show ?thesis
    using strdup_good [OF good] by (simp add: populate_sections_def section_of_def Let_def split: manifest_ent_type.split)
qed

lemma populate_run:
  assumes "flags = 0"
  shows "set_inv (mcf_sections mcf) \<Longrightarrow> \<forall>e \<in> set es. named_directory e \<Longrightarrow>
    if distinct (List.map_filter section_of es) \<and> set (List.map_filter section_of es) \<inter> set_elems (mcf_sections mcf) = {}
    then \<exists>ss. entries_run (populate_sections A mem) None (map Some es) mcf = Inr (0, None, mcf\<lparr>mcf_sections := ss\<rparr>) \<and>
      set_inv ss \<and> set_elems ss = set_elems (mcf_sections mcf) \<union> set (List.map_filter section_of es)
    else entries_run (populate_sections A mem) None (map Some es) mcf = Inl (Fault_Exit 1)"
proof (induction es arbitrary: mcf)
  case Nil
  then show ?case by (auto simp: List.map_filter_def intro!: exI [of _ "mcf_sections mcf"])
next
  case (Cons e es)
  note step = populate_section [OF assms Cons.prems(1), of e] and IH = Cons.IH [unfolded ball_simps]
  show ?case
  proof (cases "section_of e")
    case None
    then have "entries_run (populate_sections A mem) None (map Some (e # es)) mcf =
        entries_run (populate_sections A mem) None (map Some es) mcf" using step Cons.prems(2) by simp
    moreover have "List.map_filter section_of (e # es) = List.map_filter section_of es"
      using None by (simp add: List.map_filter_def)
    ultimately show ?thesis using Cons.IH [OF Cons.prems(1)] Cons.prems(2) by simp
  next
    case (Some s)
    then have ty: "me_type e \<noteq> ME_TYPE_INVALID" by (auto simp: section_of_def Let_def split: if_splits)
    have mf: "List.map_filter section_of (e # es) = s # List.map_filter section_of es"
      using Some by (simp add: List.map_filter_def)
    show ?thesis
    proof (cases "s \<in> set_elems (mcf_sections mcf)")
      case True
      then show ?thesis using Some ty step Cons.prems(2) mf by simp
    next
      case False
      then obtain ss where ss: "populate_sections A mem e mcf = Inr (MECB_NEXT, e, mcf\<lparr>mcf_sections := ss\<rparr>)" "set_inv ss"
        "set_elems ss = insert s (set_elems (mcf_sections mcf))"
        using Some step Cons.prems(2) by auto
      have "entries_run (populate_sections A mem) None (map Some (e # es)) mcf =
          entries_run (populate_sections A mem) None (map Some es) (mcf\<lparr>mcf_sections := ss\<rparr>)" using ss(1) ty by simp
      then show ?thesis
        using Cons.IH [of "mcf\<lparr>mcf_sections := ss\<rparr>"] ss(2,3) Cons.prems(2) mf False
        by (auto split: if_splits)
    qed
  qed
qed

end

section \<open>Printing the list\<close>

text \<open>The sections separated by commas, or each followed by one.\<close>

fun comma_separated :: "char list list \<Rightarrow> char list" where
  "comma_separated [] = []"
| "comma_separated [y] = y"
| "comma_separated (y # ys) = y @ '','' @ comma_separated ys"

definition sect_text :: "bool \<Rightarrow> char list list \<Rightarrow> char list" where
  "sect_text trailing ys = (if trailing then concat (map (\<lambda>y. y @ '','') ys) else comma_separated ys)"

lemma sect_text_Nil [simp]: "sect_text trailing [] = []"
  by (simp add: sect_text_def)

lemma comma_separated_snoc: "comma_separated (ys @ [y]) = (if ys = [] then y else comma_separated ys @ '','' @ y)"
  by (induction ys rule: comma_separated.induct) auto

lemma comma_separated_Nil: "\<forall>y \<in> set ys. y \<noteq> [] \<Longrightarrow> comma_separated ys = [] \<longleftrightarrow> ys = []"
  by (cases ys rule: comma_separated.cases) auto

lemma nul_free_comma_separated: "\<forall>y \<in> set ys. nul_free y \<Longrightarrow> nul_free (comma_separated ys)"
  by (induction ys rule: comma_separated.induct) auto

lemma nul_free_sect_text: "\<forall>y \<in> set ys. nul_free y \<Longrightarrow> nul_free (sect_text trailing ys)"
  by (auto simp: sect_text_def nul_free_comma_separated) (auto simp: nul_free_def)

text \<open>Names below the chunk size of the growable string cannot hit its growth defect.\<close>

definition short_name :: "char list \<Rightarrow> bool" where
  "short_name y \<longleftrightarrow> nul_free y \<and> y \<noteq> [] \<and> length y < 64"

lemma append_short:
  assumes "good_alloc mem" "custr_dyn s cs" "short_name y"
  shows "\<exists>s'. custr_append mem s y = Inr (Ret_ok, s') \<and> custr_dyn s' (cs @ y)"
proof -
  have "length y < double_until 64 (length y)" using double_until_pos [of 64 "length y"] assms(3) by (simp add: short_name_def)
  then show ?thesis using custr_append_dyn [OF assms(2,1), of y] assms(3) by (auto simp: short_name_def INT_MAX_def)
qed

lemma append_to_str_text:
  assumes "good_alloc mem" "custr_dyn m (sect_text (mcf_trailing_comma mcf) ys)" "\<forall>x \<in> set ys. short_name x" "short_name y"
  shows "\<exists>m'. append_to_str mem y m mcf = Inr (STRSET_WALK_NEXT, m') \<and>
    custr_dyn m' (sect_text (mcf_trailing_comma mcf) (ys @ [y]))"
proof (cases "mcf_trailing_comma mcf")
  case True
  obtain m1 where m1: "custr_append mem m y = Inr (Ret_ok, m1)" "custr_dyn m1 (sect_text True ys @ y)"
    using append_short [OF assms(1,2,4)] True by auto
  then show ?thesis
    using custr_appendc_dyn [OF m1(2) assms(1), of "CHR '',''"] True
    by (auto simp: append_to_str_def sect_text_def)
next
  case False
  have len: "custr_len m = length (comma_separated ys)"
    using custr_dyn_reads [OF assms(2) nul_free_sect_text] assms(3) False by (simp add: short_name_def sect_text_def)
  have Nil: "comma_separated ys = [] \<longleftrightarrow> ys = []" using comma_separated_Nil assms(3) by (simp add: short_name_def)
  have dyn: "custr_dyn m (comma_separated ys)" using assms(2) False by (simp add: sect_text_def)
  show ?thesis
  proof (cases "ys = []")
    case True
    then show ?thesis
      using append_short [OF assms(1) dyn assms(4)] False len by (auto simp: append_to_str_def sect_text_def)
  next
    case more: False
    obtain m1 where m1: "custr_appendc mem m (CHR '','') = Inr (Ret_ok, m1)" "custr_dyn m1 (comma_separated ys @ '','')"
      using custr_appendc_dyn [OF dyn assms(1)] by blast
    then show ?thesis
      using append_short [OF assms(1) m1(2) assms(4)] False len Nil more
      by (auto simp: append_to_str_def sect_text_def comma_separated_snoc)
  qed
qed

lemma make_sects_loop_text:
  assumes "good_alloc mem" "strlist_holds (mcf_output mcf) ys" "\<forall>x \<in> set ys. short_name x" "length ys < 2 ^ 32"
  shows "n + i = length ys \<Longrightarrow> custr_dyn m (sect_text (mcf_trailing_comma mcf) (take i ys)) \<Longrightarrow>
    \<exists>m'. make_sects_loop mem mcf n (of_nat i) m = Inr m' \<and> custr_dyn m' (sect_text (mcf_trailing_comma mcf) ys)"
proof (induction n arbitrary: i m)
  case (Suc n)
  have i: "i < length ys" "unat (of_nat i :: 32 word) = i"
    using Suc.prems(1) assms(4) by (simp_all add: unsigned_of_nat take_bit_nat_eq_self)
  have get: "strlist_get (mcf_output mcf) (of_nat i) = Inr (Some (ys ! i))"
    using strlist_get_holds [OF assms(2), of "of_nat i"] i by simp
  have "\<forall>x \<in> set (take i ys). short_name x" "short_name (ys ! i)" using assms(3) i(1) by (auto dest: in_set_takeD)
  then obtain m' where m': "append_to_str mem (ys ! i) m mcf = Inr (STRSET_WALK_NEXT, m')"
    "custr_dyn m' (sect_text (mcf_trailing_comma mcf) (take (Suc i) ys))"
    using append_to_str_text [OF assms(1) Suc.prems(2)] i(1) by (auto simp: take_Suc_conv_app_nth)
  have "(of_nat i + 1 :: 32 word) = of_nat (Suc i)" by simp
  then show ?case using Suc.IH [of "Suc i" m'] Suc.prems(1) get m' by (simp add: add.commute)
qed simp

lemma make_sects_text:
  assumes "good_alloc mem" "strlist_holds (mcf_output mcf) ys" "\<forall>x \<in> set ys. short_name x" "length ys < 2 ^ 32"
  shows "make_sects mem True mcf = Inr (man_cf_text (sect_text (mcf_trailing_comma mcf) ys))"
proof -
  obtain m where m: "custr_alloc mem = (Ret_ok, Some m)" "custr_dyn m []" using custr_alloc_dyn [OF assms(1)] by blast
  have u: "unat (of_nat (length ys) :: 32 word) = length ys"
    using assms(4) by (simp add: unsigned_of_nat take_bit_nat_eq_self)
  obtain m' where m': "make_sects_loop mem mcf (length ys) 0 m = Inr m'" "custr_dyn m' (sect_text (mcf_trailing_comma mcf) ys)"
    using make_sects_loop_text [OF assms, of "length ys" 0 m] m(2) by auto
  have "custr_cstr m' = Inr (sect_text (mcf_trailing_comma mcf) ys)"
    using custr_dyn_reads [OF m'(2) nul_free_sect_text] assms(3) by (simp add: short_name_def)
  then show ?thesis
    using m(1) m'(1) u strlist_contig_count_holds [OF assms(2)] by (simp add: make_sects_def)
qed

section \<open>The whole program\<close>

lemma getopt_loop_result:
  assumes "good_alloc mem"
  shows "set (map fst opts) \<subseteq> set ''ft'' \<Longrightarrow> mancf_getopt_loop mem opts mcf =
    Inr (mcf\<lparr>mcf_manifest_path := (case filter (\<lambda>p. fst p = CHR ''f'') opts of [] \<Rightarrow> mcf_manifest_path mcf
               | fs \<Rightarrow> Some (snd (last fs))),
             mcf_trailing_comma := mcf_trailing_comma mcf \<or> CHR ''t'' \<in> set (map fst opts)\<rparr>)"
proof (induction opts arbitrary: mcf)
  case (Cons opt opts)
  then show ?case using strdup_good [OF assms] by (cases opt) (auto split: list.split)
qed simp

lemma manifest_entries_named: "manifest_entries mf es \<Longrightarrow> \<forall>e \<in> set es. named_directory e"
  unfolding manifest_entries_def by (metis (no_types, lifting) image_iff list.set_map named_directory_entry)

context strset_heap
begin

lemma main_sorted:
  assumes "flags = 0" "mancf_init A mem = Inr mcf0" "mancf_parse_opts mem opts mcf0 = Inr mcf"
    and mcf: "mcf_sections mcf = mcf_sections mcf0" "mcf_output mcf = mcf_output mcf0" "mcf_manifest_path mcf = Some path"
    and mf: "manifest_entries (mw_files w path) es" "mw_stdout_ok w" "\<not> mw_abort_on_exit w"
    and secs: "secs = List.map_filter section_of es" "\<forall>s \<in> set secs. length s < 64" "length secs < 2 ^ 31"
  shows "if distinct secs
    then \<exists>ys. mancf_main A mem w opts = Inr (0, man_cf_text (sect_text (mcf_trailing_comma mcf) ys)) \<and> man_order (set secs) ys
    else mancf_main A mem w opts = Inl (Fault_Exit 1)"
proof -
  obtain ss0 where ss0: "strset_alloc A mem flags = (Ret_ok, Some ss0)" "mcf_sections mcf = ss0"
    "strlist_alloc mem 0 = (Ret_ok, Some (mcf_output mcf))"
    using assms(1,2) mcf by (auto simp: mancf_init_def split: prod.splits cret.splits option.splits)
  note inv0 = alloc_inv [OF ss0(1)]
  have holds0: "strlist_holds (mcf_output mcf) []"
    using strlist_alloc_ok [OF good, of 0] ss0(3) by (auto simp: strlist_holds_def)
  have read: "read_manifest_file mem (mw_files w path) (populate_sections A mem) mcf =
      entries_run (populate_sections A mem) None (map Some es) mcf"
    by (rule read_entries_run [OF good mf(1)])
  have run: "if distinct secs
      then \<exists>ss. entries_run (populate_sections A mem) None (map Some es) mcf = Inr (0, None, mcf\<lparr>mcf_sections := ss\<rparr>) \<and>
        set_inv ss \<and> set_elems ss = set secs
      else entries_run (populate_sections A mem) None (map Some es) mcf = Inl (Fault_Exit 1)"
    using populate_run [OF assms(1) _ manifest_entries_named [OF mf(1)], of mcf] inv0 unfolding ss0(2) secs(1)
    by (cases "distinct (List.map_filter section_of es)") simp_all
  show ?thesis
  proof (cases "distinct secs")
    case True
    then obtain ss where ss: "entries_run (populate_sections A mem) None (map Some es) mcf = Inr (0, None, mcf\<lparr>mcf_sections := ss\<rparr>)"
      "set_inv ss" "set_elems ss = set secs" using run by auto
    let ?mcf = "mcf\<lparr>mcf_sections := ss\<rparr>"
    have ok: "avl_ok (strset_comparator None) (ss_strings (mcf_sections ?mcf))" using ss(2) by (simp add: set_inv_def)
    have N: "set secs = set (nodes (ss_strings (mcf_sections ?mcf)))" using ss(3) by (simp add: set_elems_def)
    have short: "\<forall>s \<in> set secs. short_name s"
      using secs section_of_plain manifest_entries_named [OF mf(1)]
      by (fastforce simp: short_name_def List.map_filter_def)
    then have free: "\<forall>s \<in> set secs. nul_free s" by (simp add: short_name_def)
    have len: "length (nodes (ss_strings (mcf_sections ?mcf))) = length secs"
      using nodes_distinct [OF ok] N True by (metis distinct_card)
    have holds1: "strlist_holds (mcf_output ?mcf) []" and small: "length ([] :: char list list) + length secs < 2 ^ 31"
      using holds0 secs(3) by simp_all
    obtain t outs zs where sorted:
      "sort_sections A mem (length secs) ?mcf = Inr (?mcf\<lparr>mcf_sections := ss\<lparr>ss_strings := t\<rparr>, mcf_output := outs\<rparr>)"
      "avl_ok (strset_comparator None) t" "strlist_holds outs zs" "man_order (set secs) zs"
      using string_avl.sort_sections_order [OF string_avl.intro [OF avl_library_axioms] good ok N free len holds1 small]
      by auto
    let ?mcf' = "?mcf\<lparr>mcf_sections := ss\<lparr>ss_strings := t\<rparr>, mcf_output := outs\<rparr>"
    have zs: "set zs = set secs" "length zs = length secs"
      using man_order_set [OF sorted(4)] True by (simp_all add: distinct_card [symmetric])
    have "make_sects mem True ?mcf' = Inr (man_cf_text (sect_text (mcf_trailing_comma mcf) zs))"
      using make_sects_text [OF good, of ?mcf' zs] sorted(3) short zs secs(3) by simp
    moreover have "set_inv (ss\<lparr>ss_strings := t\<rparr>)" using ss(2) sorted(2) by (simp add: set_inv_def)
    then have "mancf_reset A ?mcf' = Inr ()" using free_returns by (simp add: mancf_reset_def)
    ultimately have "mancf_main A mem w opts = Inr (0, man_cf_text (sect_text (mcf_trailing_comma mcf) zs))"
      using assms(2,3) mcf(3) mf(2,3) read ss(1) sorted(1) numnodes [OF ok] len by (simp add: mancf_main_def)
    then show ?thesis using True sorted(4) by auto
  next
    case False
    then show ?thesis using assms(2,3) mcf(3) read run by (simp add: mancf_main_def)
  qed
qed

end

section \<open>Properties\<close>

text \<open>C35: \<^verbatim>\<open>mancf\<close> writes every section once, in the promised order. Given the manifest with \<^verbatim>\<open>-f\<close>, with memory
  and a tree library that keeps its promises, the program ends with status 0 and prints the file with
  the names of the shipped section directories: each of them once, no section before one that the table
  calls more important, and ties broken by \<^verbatim>\<open>strcmp\<close> (every section is the least one that none of the
  remaining ones blocks). The loop always makes progress, so the message about a cycle in the rules
  is never printed. Only a manifest that lists the directory of a section twice makes it fail, with
  status 1. Section names are shorter than 64 bytes, below the growth defect of the string buffer.\<close>

theorem mancf_writes_ordered_sections:
  assumes "avl_library A avl_ok nodes" "good_alloc mem"
    and "set (map fst opts) \<subseteq> set ''ft''" "filter (\<lambda>p. fst p = CHR ''f'') opts = fs @ [(CHR ''f'', path)]" "path \<noteq> []"
    and "manifest_entries (mw_files w path) es" "mw_stdout_ok w" "\<not> mw_abort_on_exit w"
    and "secs = List.map_filter section_of es" "\<forall>s \<in> set secs. length s < 64" "length secs < 2 ^ 31"
  shows "if distinct secs
    then \<exists>ys. mancf_main A mem w opts = Inr (0, man_cf_text (sect_text (CHR ''t'' \<in> set (map fst opts)) ys)) \<and>
      man_order (set secs) ys \<and> set ys = set secs \<and> distinct ys \<and>
      sorted_wrt (\<lambda>x y. section_is_more_important y x = Inr False) ys
    else mancf_main A mem w opts = Inl (Fault_Exit 1)"
proof -
  have h: "strset_heap A avl_ok nodes mem" using assms(1,2) by (simp add: strset_heap_def working_heap_def)
  obtain ss where ss: "strset_alloc A mem 0 = (Ret_ok, Some ss)"
    using good_allocD [OF assms(2), of 64] by (auto simp: strset_alloc_def strset_allocx_def)
  obtain sl where sl: "strlist_alloc mem 0 = (Ret_ok, Some sl)" using strlist_alloc_ok [OF assms(2), of 0] by auto
  define mcf0 where "mcf0 = \<lparr>mcf_manifest_path = None, mcf_trailing_comma = False, mcf_sections = ss, mcf_output = sl\<rparr>"
  have init: "mancf_init A mem = Inr mcf0" using ss sl by (simp add: mancf_init_def mcf0_def)
  have opts: "mancf_parse_opts mem opts mcf0 =
      Inr (mcf0\<lparr>mcf_manifest_path := Some path, mcf_trailing_comma := CHR ''t'' \<in> set (map fst opts)\<rparr>)"
    using getopt_loop_result [OF assms(2,3), of mcf0] assms(4,5)
    by (cases fs) (simp_all add: mancf_parse_opts_def mcf0_def)
  show ?thesis
    using strset_heap.main_sorted [OF h refl init opts _ _ _ assms(6-11)] man_order_set [of "set secs"] man_order_respects [of "set secs"]
    by (auto simp: section_order split: if_splits)
qed

definition man_dir :: "char list \<Rightarrow> manifest_ent" where
  "man_dir s = manifest_ent_zero\<lparr>me_type := ME_TYPE_DIRECTORY, me_name := Some (''usr/share/man/man'' @ s), me_mode := 0x1ED,
     me_user := Some ''root'', me_group := Some ''bin''\<rparr>"

definition man_world :: mancf_world where
  "man_world = \<lparr>mw_files = (\<lambda>_. \<lparr>mf_open = None, mf_stat = Some True, mf_stale = None,
     mf_lines = map (\<lambda>s. print_ent (man_dir s)) [''1b'', ''3socket'', ''8'', ''3c''], mf_error = None\<rparr>),
     mw_stdout_ok = True, mw_abort_on_exit = False\<rparr>"

lemma man_dir_read:
  assumes "plain_word s"
  shows "entry_spec (line_words (print_ent (man_dir s))) = Some (man_dir s)"
proof (rule line_words_file)
  have "plain_word ''usr/share/man/man''" "plain_word ''root''" "plain_word ''bin''" by (simp_all add: plain_word_def lextype_of_def)
  then show "file_ent (man_dir s)"
    unfolding file_ent_def man_dir_def using assms
    by (intro exI [of _ ME_TYPE_DIRECTORY] exI [of _ "''usr/share/man/man'' @ s"] exI [of _ "0x1ED :: 32 word"]
        exI [of _ "''root''"] exI [of _ "''bin''"]) (simp add: plain_word_def)
qed

theorem mancf_writes_ordered_sections_witness:
  "mancf_main list_avl heap_base man_world [(CHR ''f'', ''manifest'')] = Inr (0, man_cf_text ''8,1b,3c,3socket'')"
proof -
  let ?secs = "[''1b'', ''3socket'', ''8'', ''3c'']"
  have plain: "\<forall>s \<in> set ?secs. plain_word s" by (simp add: plain_word_def lextype_of_def)
  have "show_base 8 493 = ''755''" by code_simp
  then have "\<forall>s \<in> set ?secs. fits (print_ent (man_dir s))"
    by (simp add: fits_def print_ent_def man_dir_def STRLIST_ROOM_def)
  then have e: "manifest_entries (mw_files man_world ''manifest'') (map man_dir ?secs)"
    using man_dir_read plain by (simp add: manifest_entries_def man_world_def)
  have s: "?secs = List.map_filter section_of (map man_dir ?secs)"
    by (simp add: List.map_filter_def section_of_def man_prefix_def cm_pdir_def man_dir_def)
  have "man_order (set ?secs) [''8'', ''1b'', ''3c'', ''3socket'']"
    by code_simp
  then have u: "ys = [''8'', ''1b'', ''3c'', ''3socket'']" if "man_order (set ?secs) ys" for ys
    using man_order_unique [OF that] by blast
  have o: "set (map fst [(CHR ''f'', ''manifest'')]) \<subseteq> set ''ft''"
    "filter (\<lambda>p. fst p = CHR ''f'') [(CHR ''f'', ''manifest'')] = [] @ [(CHR ''f'', ''manifest'')]" "''manifest'' \<noteq> []"
    "mw_stdout_ok man_world" "\<not> mw_abort_on_exit man_world" "\<forall>s \<in> set ?secs. length s < 64" "length ?secs < 2 ^ 31" "distinct ?secs"
    by (simp_all add: man_world_def)
  obtain ys where "mancf_main list_avl heap_base man_world [(CHR ''f'', ''manifest'')] =
      Inr (0, man_cf_text (sect_text (CHR ''t'' \<in> set (map fst [(CHR ''f'', ''manifest'')])) ys))" "man_order (set ?secs) ys"
    using mancf_writes_ordered_sections [OF la.avl_library_axioms good_heap_base o(1-3) e o(4,5) s o(6,7)]
    unfolding if_P [OF o(8)] by blast
  moreover have "sect_text (CHR ''t'' \<in> set (map fst [(CHR ''f'', ''manifest'')])) [''8'', ''1b'', ''3c'', ''3socket''] =
      ''8,1b,3c,3socket''" by (simp add: sect_text_def)
  ultimately show ?thesis using u [of ys] by simp
qed

end
