(* ===== verification/Mancheck.thy ===== *)
theory Mancheck
  imports Strset Manifest Custr
begin

text \<open>
  \<^verbatim>\<open>src/tools/mancheck/main.c\<close>: the tool that checks that every command of a manifest has a manual page and
  that the page is shipped. It reads configuration files with a character automaton into string sets,
  the manifest twice, and the directories of the manual pages. The tree library, \<^verbatim>\<open>fnmatch\<close> on the patterns
  of the configuration, and the file system are parameters. A call of \<^verbatim>\<open>err\<close> or \<^verbatim>\<open>errx\<close> is \<^verbatim>\<open>Fault_Exit 1\<close>;
  messages on the standard error are not modelled. A set that is walked by a callback that leaves it alone
  is handed back as it was, so such walks only return what the callback collects.
\<close>

unbundle bit_operations_syntax

section \<open>Tables and state\<close>

definition cm_bpaths :: "char list list" where
  "cm_bpaths = [''bin'', ''usr/bin'', ''sbin'', ''usr/sbin'', ''smartdc/bin'']"

definition cm_mpaths :: "char list list" where
  "cm_mpaths = [''proto/usr/share/man'']"

definition cm_mansects :: "char list list" where
  "cm_mansects = [''1'', ''8'']"

definition ck_pdir :: "char list" where
  "ck_pdir = ''usr/share/man''"

definition MAXPATHLEN :: nat where
  "MAXPATHLEN = 1024"

definition MCF_DONT_EXIST :: "32 word" where "MCF_DONT_EXIST = 0x1"
definition MCF_NOT_SHIPPED :: "32 word" where "MCF_NOT_SHIPPED = 0x2"
definition MCF_WHOLE_SECTS :: "32 word" where "MCF_WHOLE_SECTS = 0x4"
definition MCF_DUMP_CONFIG :: "32 word" where "MCF_DUMP_CONFIG = 0x8"

text \<open>The last field is not part of the structure: what the program has written to its standard output.\<close>

record 't mancheck =
  mc_flags :: "32 word"
  mc_manifest_path :: "char list option"
  mc_config_paths :: "'t strset"
  mc_cnt_dont_exist :: "64 word"
  mc_cnt_not_shipped :: "64 word"
  mc_cnt_whole_sects :: "64 word"
  mc_shiplist :: "'t strset"
  mc_section_includes :: "'t strset"
  mc_section_excludes :: "'t strset"
  mc_page_excludes :: "'t strset"
  mc_stdout :: "char list"

definition mc_print :: "char list \<Rightarrow> 't mancheck \<Rightarrow> 't mancheck" where
  "mc_print s mc = mc\<lparr>mc_stdout := mc_stdout mc @ s\<rparr>"

text \<open>
  The world: manifests and configuration files by path, what \<^verbatim>\<open>stat\<close> (does it name a regular file?) and \<^verbatim>\<open>lstat\<close>
  answer, the directories as the names \<^verbatim>\<open>readdir\<close> returns and the error that ends them, and the answers of \<^verbatim>\<open>fnmatch\<close>
  with \<^verbatim>\<open>FNM_PATHNAME\<close> for a pattern and a name.
\<close>

datatype file_kind = Kind_reg | Kind_link | Kind_other

datatype fnm = FNM_match | FNM_NOMATCH | FNM_failure

record config_file =
  cf_open :: "errno option"
  cf_regular :: bool
  cf_chars :: "char list"
  cf_error :: "errno option"

record ck_world =
  ck_manifests :: "char list \<Rightarrow> manifest_file"
  ck_configs :: "char list \<Rightarrow> config_file"
  ck_stat :: "char list \<Rightarrow> bool"
  ck_lstat :: "char list \<Rightarrow> errno + file_kind"
  ck_opendir :: "char list \<Rightarrow> errno + (char list list \<times> errno option)"
  ck_fnmatch :: "char list \<Rightarrow> char list \<Rightarrow> fnm"
  ck_abort_on_exit :: bool

section \<open>Start and end\<close>

text \<open>The path is freed, the five sets are emptied and freed.\<close>

definition mancheck_reset :: "('t, char list) avl_ops \<Rightarrow> 't mancheck \<Rightarrow> unit outcome" where
  "mancheck_reset A mc =
     bindr (strset_free A (Some (mc_shiplist mc))) (\<lambda>_.
     bindr (strset_free A (Some (mc_config_paths mc))) (\<lambda>_.
     bindr (strset_free A (Some (mc_section_includes mc))) (\<lambda>_.
     bindr (strset_free A (Some (mc_section_excludes mc))) (\<lambda>_.
     strset_free A (Some (mc_page_excludes mc))))))"

definition mancheck_init :: "('t, char list) avl_ops \<Rightarrow> allocator \<Rightarrow> 't mancheck outcome" where
  "mancheck_init A mem =
     (case (strset_alloc A mem STRSET_IGNORE_DUPLICATES, strset_alloc A mem 0, strset_alloc A mem STRSET_IGNORE_DUPLICATES,
            strset_alloc A mem STRSET_IGNORE_DUPLICATES, strset_alloc A mem STRSET_IGNORE_DUPLICATES) of
        ((Ret_ok, Some cp), (Ret_ok, Some sh), (Ret_ok, Some si), (Ret_ok, Some se), (Ret_ok, Some pe)) \<Rightarrow>
          Inr \<lparr>mc_flags = 0, mc_manifest_path = None, mc_config_paths = cp, mc_cnt_dont_exist = 0, mc_cnt_not_shipped = 0,
               mc_cnt_whole_sects = 0, mc_shiplist = sh, mc_section_includes = si, mc_section_excludes = se,
               mc_page_excludes = pe, mc_stdout = []\<rparr>
      | _ \<Rightarrow> Inl (Fault_Exit 1))"

text \<open>The options as \<^verbatim>\<open>getopt\<close> returns them, each with its argument (\<open>''''\<close> when it takes none).\<close>

definition ck_usage :: "int \<Rightarrow> 'a outcome" where
  "ck_usage rc = Inl (Fault_Exit rc)"

record opt_flags =
  of_m :: int
  of_s :: int
  of_D :: int

fun ck_getopt_loop ::
    "('t, char list) avl_ops \<Rightarrow> allocator \<Rightarrow> (char \<times> char list) list \<Rightarrow> opt_flags \<Rightarrow> 't mancheck \<Rightarrow> (opt_flags \<times> 't mancheck) outcome" where
  "ck_getopt_loop A mem [] fl mc = Inr (fl, mc)"
| "ck_getopt_loop A mem ((c, optarg) # opts) fl mc =
     (if c = CHR ''c'' then
        bindr (or_exit (strset_add A mem (mc_config_paths mc) (Some optarg))) (\<lambda>cp.
        ck_getopt_loop A mem opts fl (mc\<lparr>mc_config_paths := cp\<rparr>))
      else if c = CHR ''D'' then ck_getopt_loop A mem opts (fl\<lparr>of_D := of_D fl + 1\<rparr>) mc
      else if c = CHR ''f'' then ck_getopt_loop A mem opts fl (mc\<lparr>mc_manifest_path := strdup mem optarg\<rparr>)
      else if c = CHR ''h'' then ck_usage 0
      else if c = CHR ''m'' then ck_getopt_loop A mem opts (fl\<lparr>of_m := of_m fl + 1\<rparr>) mc
      else if c = CHR ''s'' then ck_getopt_loop A mem opts (fl\<lparr>of_s := of_s fl + 1\<rparr>) mc
      else if c = CHR '':'' \<or> c = CHR ''?'' then ck_usage 2
      else ck_getopt_loop A mem opts fl mc)"

definition ck_parse_opts ::
    "('t, char list) avl_ops \<Rightarrow> allocator \<Rightarrow> (char \<times> char list) list \<Rightarrow> 't mancheck \<Rightarrow> 't mancheck outcome" where
  "ck_parse_opts A mem opts mc =
     bindr (ck_getopt_loop A mem opts \<lparr>of_m = 0, of_s = 0, of_D = 0\<rparr> mc) (\<lambda>(fl, mc).
     case mc_manifest_path mc of
       None \<Rightarrow> ck_usage 2
     | Some path \<Rightarrow>
         if path = [] then ck_usage 2
         else
           let mc = mc\<lparr>mc_flags := mc_flags mc OR (MCF_DONT_EXIST OR MCF_NOT_SHIPPED)\<rparr> in
           if 0 < of_m fl \<and> 0 < of_s fl then ck_usage 2
           else
             let mc = (if 0 < of_m fl then mc\<lparr>mc_flags := mc_flags mc AND NOT MCF_NOT_SHIPPED\<rparr>
                       else if 0 < of_s fl then mc\<lparr>mc_flags := mc_flags mc AND NOT MCF_DONT_EXIST\<rparr> else mc);
                 mc = (if 0 < strset_count A (mc_config_paths mc)
                       then mc\<lparr>mc_flags := mc_flags mc OR MCF_WHOLE_SECTS\<rparr> else mc)
             in Inr (if of_D fl \<noteq> 0 then mc\<lparr>mc_flags := MCF_DUMP_CONFIG\<rparr> else mc))"

section \<open>The checks of an entry\<close>

text \<open>\<^verbatim>\<open>basename\<close> and \<^verbatim>\<open>dirname\<close> of the C library.\<close>

definition strip_slashes :: "char list \<Rightarrow> char list" where
  "strip_slashes s = rev (dropWhile (\<lambda>c. c = CHR ''/'') (rev s))"

definition basename :: "char list \<Rightarrow> char list" where
  "basename s =
     (if s = [] then ''.''
      else (let t = strip_slashes s in
        if t = [] then ''/'' else rev (takeWhile (\<lambda>c. c \<noteq> CHR ''/'') (rev t))))"

definition dirname :: "char list \<Rightarrow> char list" where
  "dirname s =
     (if s = [] then ''.''
      else (let t = strip_slashes s; d = rev (dropWhile (\<lambda>c. c \<noteq> CHR ''/'') (rev t)) in
        if t = [] then ''/''
        else if d = [] then ''.''
        else if strip_slashes d = [] then ''/'' else strip_slashes d))"

text \<open>A copy into a buffer of \<^verbatim>\<open>MAXPATHLEN\<close> bytes, as \<^verbatim>\<open>strlcpy\<close> and \<^verbatim>\<open>snprintf\<close> cut it.\<close>

definition path_buf :: "char list \<Rightarrow> char list" where
  "path_buf s = take (MAXPATHLEN - 1) s"

fun check_man_sects ::
    "('t, char list) avl_ops \<Rightarrow> allocator \<Rightarrow> ck_world \<Rightarrow> char list \<Rightarrow> char list \<Rightarrow> char list list \<Rightarrow> 't strset \<Rightarrow> 't strset outcome" where
  "check_man_sects A mem w mpath basen [] pages = Inr pages"
| "check_man_sects A mem w mpath basen (sect # sects) pages =
     (let fullp = path_buf (mpath @ ''/man'' @ sect @ ''/'' @ basen @ ''.'' @ sect) in
      bindr (if ck_stat w fullp
             then or_exit (strset_add A mem pages (Some (path_buf (''man'' @ sect @ ''/'' @ basen @ ''.'' @ sect))))
             else Inr pages)
        (check_man_sects A mem w mpath basen sects))"

fun check_man_paths ::
    "('t, char list) avl_ops \<Rightarrow> allocator \<Rightarrow> ck_world \<Rightarrow> char list list \<Rightarrow> char list \<Rightarrow> 't strset \<Rightarrow> 't strset outcome" where
  "check_man_paths A mem w [] basen pages = Inr pages"
| "check_man_paths A mem w (mpath # mpaths) basen pages =
     bindr (check_man_sects A mem w mpath basen cm_mansects pages) (check_man_paths A mem w mpaths basen)"

definition check_man ::
    "('t, char list) avl_ops \<Rightarrow> allocator \<Rightarrow> ck_world \<Rightarrow> char list \<Rightarrow> 't strset \<Rightarrow> (bool \<times> 't strset) outcome" where
  "check_man A mem w filen pages =
     (let basen = basename (path_buf filen) in
      bindr (strset_reset A pages) (\<lambda>pages.
      bindr (check_man_paths A mem w cm_mpaths basen pages) (\<lambda>pages.
      Inr (0 < strset_count A pages, pages))))"

definition in_dir :: "char list \<Rightarrow> bool" where
  "in_dir filen = (let dirn = dirname (path_buf filen) in list_ex (\<lambda>b. strcmp dirn b = 0) cm_bpaths)"

definition populate_shiplist :: "('t, char list) avl_ops \<Rightarrow> allocator \<Rightarrow> 't mancheck manifest_ent_cb" where
  "populate_shiplist A mem me mc =
     (if me_type me \<in> {ME_TYPE_FILE, ME_TYPE_HARDLINK, ME_TYPE_SYMLINK}
      then (case me_name me of
              None \<Rightarrow> Inl Fault_Null
            | Some name \<Rightarrow>
                if take (length ck_pdir) (cstr name) = ck_pdir
                then bindr (or_exit (strset_add A mem (mc_shiplist mc) (Some (cstr name)))) (\<lambda>sh.
                     Inr (MECB_NEXT, me, mc\<lparr>mc_shiplist := sh\<rparr>))
                else Inr (MECB_NEXT, me, mc))
      else Inr (MECB_NEXT, me, mc))"

text \<open>The name of the manifest entry is dereferenced only when a message is printed.\<close>

definition check_shipped :: "('t, char list) avl_ops \<Rightarrow> char list \<Rightarrow> ('t, 't mancheck) strset_walk_func" where
  "check_shipped A name ss page mc =
     bindr (strset_contains A (mc_shiplist mc) (Some (path_buf (ck_pdir @ ''/'' @ page)))) (\<lambda>shipped.
     if shipped then Inr (STRSET_WALK_NEXT, ss, mc)
     else
       let mc = mc\<lparr>mc_cnt_not_shipped := mc_cnt_not_shipped mc + 1\<rparr>;
           mc = (if mc_flags mc AND MCF_NOT_SHIPPED \<noteq> 0
                 then mc_print (''binary /'' @ name @ '' has unshipped manual page: '' @ page @ [NL]) mc else mc)
       in Inr (STRSET_WALK_NEXT, ss, mc))"

definition check_manifest_ent :: "('t, char list) avl_ops \<Rightarrow> allocator \<Rightarrow> ck_world \<Rightarrow> 't mancheck manifest_ent_cb" where
  "check_manifest_ent A mem w me mc =
     (case strset_alloc A mem STRSET_IGNORE_DUPLICATES of
        (Ret_err e, _) \<Rightarrow> Inr (MECB_CANCEL, me, mc)
      | (Ret_ok, None) \<Rightarrow> Inl Fault_Null
      | (Ret_ok, Some pages) \<Rightarrow>
          bindr (if me_type me \<in> {ME_TYPE_FILE, ME_TYPE_HARDLINK, ME_TYPE_SYMLINK}
                 then (case me_name me of
                         None \<Rightarrow> Inl Fault_Null
                       | Some name \<Rightarrow>
                           let name = cstr name in
                           if \<not> in_dir name then Inr (pages, mc)
                           else bindr (check_man A mem w name pages) (\<lambda>(found, pages).
                             if \<not> found
                             then let mc = mc\<lparr>mc_cnt_dont_exist := mc_cnt_dont_exist mc + 1\<rparr>
                                  in Inr (pages, if mc_flags mc AND MCF_DONT_EXIST \<noteq> 0
                                                 then mc_print (''missing manual page for /'' @ name @ [NL]) mc else mc)
                             else bindr (strset_walk A (avl_numnodes A (ss_strings pages)) pages (check_shipped A name) mc)
                               (\<lambda>(r, pages, mc). case r of Ret_err e \<Rightarrow> Inl Fault_Abort | Ret_ok \<Rightarrow> Inr (pages, mc))))
                 else Inr (pages, mc)) (\<lambda>(pages, mc).
          bindr (strset_free A (Some pages)) (\<lambda>_. Inr (MECB_NEXT, me, mc))))"

section \<open>Whole sections\<close>

definition strset_fnmatch_walker :: "ck_world \<Rightarrow> char list \<Rightarrow> ('t, int) strset_walk_func" where
  "strset_fnmatch_walker w input ss pattern count =
     (case ck_fnmatch w pattern input of
        FNM_match \<Rightarrow> Inr (STRSET_WALK_NEXT, ss, count + 1)
      | FNM_NOMATCH \<Rightarrow> Inr (STRSET_WALK_NEXT, ss, count)
      | FNM_failure \<Rightarrow> Inl (Fault_Exit 1))"

definition strset_fnmatch :: "('t, char list) avl_ops \<Rightarrow> ck_world \<Rightarrow> 't strset \<Rightarrow> char list \<Rightarrow> int outcome" where
  "strset_fnmatch A w ss input =
     bindr (strset_walk A (avl_numnodes A (ss_strings ss)) ss (strset_fnmatch_walker w input) 0) (\<lambda>(r, _, count).
     case r of Ret_err e \<Rightarrow> Inl (Fault_Exit 1) | Ret_ok \<Rightarrow> Inr count)"

text \<open>The names \<^verbatim>\<open>readdir\<close> returns that are not looked at.\<close>

definition special_name :: "char list \<Rightarrow> bool" where
  "special_name d \<longleftrightarrow> d = ''.'' \<or> d = ''..'' \<or> length d < 1"

text \<open>
  The loop over the directory of a section: the result is the error (\<open>None\<close> for 0) at the label \<^verbatim>\<open>out\<close>. The two
  strings are scratch space of the loop.
\<close>

fun whole_sect_entries ::
    "('t, char list) avl_ops \<Rightarrow> allocator \<Rightarrow> ck_world \<Rightarrow> char list \<Rightarrow> char list \<Rightarrow> errno option \<Rightarrow> char list list
     \<Rightarrow> custr \<Rightarrow> custr \<Rightarrow> 't mancheck \<Rightarrow> (errno option \<times> 't mancheck) outcome" where
  "whole_sect_entries A mem w sect sectpath fin [] shipname path mc = Inr (fin, mc)"
| "whole_sect_entries A mem w sect sectpath fin (d # ds) shipname path mc =
     (if special_name d then whole_sect_entries A mem w sect sectpath fin ds shipname path mc
      else
        bindr (custr_reset path) (\<lambda>path.
        bindr (custr_append_printf mem path (Inr (sectpath @ ''/'' @ d))) (\<lambda>(r, path).
        case r of
          Ret_err e \<Rightarrow> Inr (Some e, mc)
        | Ret_ok \<Rightarrow>
            bindr (custr_cstr path) (\<lambda>pathstr.
            case ck_lstat w pathstr of
              Inl e \<Rightarrow> Inr (Some e, mc)
            | Inr kind \<Rightarrow>
                if kind \<noteq> Kind_reg \<and> kind \<noteq> Kind_link
                then whole_sect_entries A mem w sect sectpath fin ds shipname path mc
                else bindr (strset_fnmatch A w (mc_page_excludes mc) d) (\<lambda>excluded.
                  if 0 < excluded then whole_sect_entries A mem w sect sectpath fin ds shipname path mc
                  else
                    bindr (custr_reset shipname) (\<lambda>shipname.
                    bindr (custr_append_printf mem shipname (Inr (ck_pdir @ ''/man'' @ sect @ ''/'' @ d))) (\<lambda>(r, shipname).
                    case r of
                      Ret_err e \<Rightarrow> Inr (Some e, mc)
                    | Ret_ok \<Rightarrow>
                        bindr (custr_cstr shipname) (\<lambda>shipstr.
                        bindr (strset_contains A (mc_shiplist mc) (Some shipstr)) (\<lambda>shipped.
                        whole_sect_entries A mem w sect sectpath fin ds shipname path
                          (if shipped then mc
                           else (mc_print (''section '' @ sect @ '' page not shipped: '' @ pathstr @ [NL]) mc)
                             \<lparr>mc_cnt_whole_sects := mc_cnt_whole_sects mc + 1\<rparr>))))))))))"

definition check_whole_sect_dir ::
    "('t, char list) avl_ops \<Rightarrow> allocator \<Rightarrow> ck_world \<Rightarrow> char list \<Rightarrow> char list \<Rightarrow> 't mancheck \<Rightarrow> (cret \<times> 't mancheck) outcome" where
  "check_whole_sect_dir A mem w sect sectpath mc =
     (case ck_opendir w sectpath of
        Inl e \<Rightarrow> Inr (if e = ENOENT then Ret_ok else Ret_err e, mc)
      | Inr (names, fin) \<Rightarrow>
          bindr (case (custr_alloc mem, custr_alloc mem) of
                   ((Ret_ok, Some shipname), (Ret_ok, Some path)) \<Rightarrow>
                     whole_sect_entries A mem w sect sectpath fin names shipname path mc
                 | ((Ret_err e, _), _) \<Rightarrow> Inr (Some e, mc)
                 | (_, (Ret_err e, _)) \<Rightarrow> Inr (Some e, mc)
                 | _ \<Rightarrow> Inl Fault_Null) (\<lambda>(e, mc).
          Inr (case e of None \<Rightarrow> Ret_ok | Some e \<Rightarrow> Ret_err e, mc)))"

text \<open>An error of a directory is only reported to the standard error.\<close>

fun check_whole_sect_paths ::
    "('t, char list) avl_ops \<Rightarrow> allocator \<Rightarrow> ck_world \<Rightarrow> char list \<Rightarrow> char list list \<Rightarrow> custr \<Rightarrow> 't mancheck \<Rightarrow> (custr \<times> 't mancheck) outcome" where
  "check_whole_sect_paths A mem w sect [] tmp mc = Inr (tmp, mc)"
| "check_whole_sect_paths A mem w sect (mpath # mpaths) tmp mc =
     bindr (custr_reset tmp) (\<lambda>tmp.
     bindr (or_exit (custr_append_printf mem tmp (Inr (mpath @ ''/man'' @ sect)))) (\<lambda>tmp.
     bindr (custr_cstr tmp) (\<lambda>sectpath.
     bindr (check_whole_sect_dir A mem w sect sectpath mc) (\<lambda>(_, mc).
     check_whole_sect_paths A mem w sect mpaths tmp mc))))"

definition check_whole_sect ::
    "('t, char list) avl_ops \<Rightarrow> allocator \<Rightarrow> ck_world \<Rightarrow> ('t, custr \<times> 't mancheck) strset_walk_func" where
  "check_whole_sect A mem w ss sect st =
     bindr (check_whole_sect_paths A mem w sect cm_mpaths (fst st) (snd st)) (\<lambda>st. Inr (STRSET_WALK_NEXT, ss, st))"

text \<open>
  The sections of a directory of manual pages that are to be shipped entirely: the result is the error that
  leaves the function, or \<open>None\<close>. An error of \<^verbatim>\<open>readdir\<close> ends the loop as the end of the directory does.
\<close>

fun collect_sects ::
    "('t, char list) avl_ops \<Rightarrow> allocator \<Rightarrow> ck_world \<Rightarrow> 't mancheck \<Rightarrow> char list list \<Rightarrow> 't strset \<Rightarrow> (errno option \<times> 't strset) outcome" where
  "collect_sects A mem w mc [] wholesects = Inr (None, wholesects)"
| "collect_sects A mem w mc (d # ds) wholesects =
     (if special_name d \<or> take 3 d \<noteq> ''man'' then collect_sects A mem w mc ds wholesects
      else
        bindr (strset_fnmatch A w (mc_section_excludes mc) (drop 3 d)) (\<lambda>excluded.
        if 0 < excluded then collect_sects A mem w mc ds wholesects
        else
          bindr (strset_fnmatch A w (mc_section_includes mc) (drop 3 d)) (\<lambda>included.
          if included < 1 then collect_sects A mem w mc ds wholesects
          else
            bindr (strset_add A mem wholesects (Some (drop 3 d))) (\<lambda>(r, wholesects).
            case r of
              Ret_err e \<Rightarrow> Inr (Some e, wholesects)
            | Ret_ok \<Rightarrow> collect_sects A mem w mc ds wholesects))))"

fun collect_mpaths ::
    "('t, char list) avl_ops \<Rightarrow> allocator \<Rightarrow> ck_world \<Rightarrow> 't mancheck \<Rightarrow> char list list \<Rightarrow> 't strset \<Rightarrow> (errno option \<times> 't strset) outcome" where
  "collect_mpaths A mem w mc [] wholesects = Inr (None, wholesects)"
| "collect_mpaths A mem w mc (mpath # mpaths) wholesects =
     (case ck_opendir w mpath of
        Inl e \<Rightarrow> Inr (Some e, wholesects)
      | Inr (names, _) \<Rightarrow>
          bindr (collect_sects A mem w mc names wholesects) (\<lambda>(e, wholesects).
          case e of
            Some e \<Rightarrow> Inr (Some e, wholesects)
          | None \<Rightarrow> collect_mpaths A mem w mc mpaths wholesects))"

definition check_whole_sects ::
    "('t, char list) avl_ops \<Rightarrow> allocator \<Rightarrow> ck_world \<Rightarrow> 't mancheck \<Rightarrow> (cret \<times> 't mancheck) outcome" where
  "check_whole_sects A mem w mc =
     (case (custr_alloc mem, strset_alloc A mem STRSET_IGNORE_DUPLICATES) of
        ((Ret_ok, Some sectpath), (Ret_ok, Some wholesects)) \<Rightarrow>
          bindr (collect_mpaths A mem w mc cm_mpaths wholesects) (\<lambda>(e, wholesects).
          bindr (case e of
                   Some e \<Rightarrow> Inr (Ret_err e, wholesects, mc)
                 | None \<Rightarrow>
                     bindr (strset_walk A (avl_numnodes A (ss_strings wholesects)) wholesects (check_whole_sect A mem w) (sectpath, mc))
                       (\<lambda>(r, wholesects, _, mc).
                         case r of Ret_err e \<Rightarrow> Inl Fault_Abort | Ret_ok \<Rightarrow> Inr (Ret_ok, wholesects, mc)))
            (\<lambda>(r, wholesects, mc).
          bindr (strset_free A (Some wholesects)) (\<lambda>_. Inr (r, mc))))
      | ((Ret_err e, _), _) \<Rightarrow> Inr (Ret_err e, mc)
      | (_, (Ret_err e, _)) \<Rightarrow> Inr (Ret_err e, mc)
      | _ \<Rightarrow> Inl Fault_Null)"

section \<open>Configuration files\<close>

datatype cfg_state =
    ST_REST | ST_COMMENT_0 | ST_COMMENT_1 | ST_COMMENT_2 | ST_PRE_STRING | ST_STRING | ST_PRE_SEMICOLON | ST_KEYWORD

record 't cfg =
  cf_state :: cfg_state
  cf_comment_state :: cfg_state
  cf_type :: char
  cf_keyword :: custr
  cf_value :: custr
  cf_mc :: "'t mancheck"

definition parse_error :: "'a outcome" where
  "parse_error = Inl (Fault_Exit 1)"

text \<open>What a directive does at its semicolon.\<close>

definition cfg_directive :: "('t, char list) avl_ops \<Rightarrow> allocator \<Rightarrow> 't cfg \<Rightarrow> 't mancheck outcome" where
  "cfg_directive A mem cf =
     bindr (custr_cstr (cf_keyword cf)) (\<lambda>keyword.
     bindr (custr_cstr (cf_value cf)) (\<lambda>value.
     let mc = cf_mc cf in
     if keyword = ''section''
     then if cf_type cf = CHR ''+''
          then bindr (or_exit (strset_add A mem (mc_section_includes mc) (Some value))) (\<lambda>a. Inr (mc\<lparr>mc_section_includes := a\<rparr>))
          else bindr (or_exit (strset_add A mem (mc_section_excludes mc) (Some value))) (\<lambda>a. Inr (mc\<lparr>mc_section_excludes := a\<rparr>))
     else if keyword = ''page''
     then if cf_type cf = CHR ''+'' then Inl (Fault_Exit 1)
          else bindr (or_exit (strset_add A mem (mc_page_excludes mc) (Some value))) (\<lambda>a. Inr (mc\<lparr>mc_page_excludes := a\<rparr>))
     else Inl (Fault_Exit 1)))"

text \<open>
  One character, from the label \<^verbatim>\<open>top\<close>. The two jumps back to it are the recursive calls, with the same character
  in another state. \<^verbatim>\<open>custr_cstr\<close> never returns the null pointer that \<^verbatim>\<open>ST_KEYWORD\<close> tests for.
\<close>

function cfg_char :: "('t, char list) avl_ops \<Rightarrow> allocator \<Rightarrow> 't cfg \<Rightarrow> char \<Rightarrow> 't cfg outcome" where
  "cfg_char A mem cf c =
     (if cf_state cf \<in> {ST_REST, ST_PRE_STRING, ST_PRE_SEMICOLON} \<and> c = CHR ''/''
      then Inr (cf\<lparr>cf_comment_state := cf_state cf, cf_state := ST_COMMENT_0\<rparr>)
      else case cf_state cf of
        ST_REST \<Rightarrow>
          if isspace c then Inr cf
          else if c = CHR ''+'' \<or> c = CHR ''-''
          then bindr (custr_reset (cf_keyword cf)) (\<lambda>keyword.
               bindr (custr_reset (cf_value cf)) (\<lambda>value.
               Inr (cf\<lparr>cf_type := c, cf_keyword := keyword, cf_value := value, cf_state := ST_KEYWORD\<rparr>)))
          else parse_error
      | ST_KEYWORD \<Rightarrow>
          if isalnum c
          then bindr (or_exit (custr_appendc mem (cf_keyword cf) c)) (\<lambda>keyword. Inr (cf\<lparr>cf_keyword := keyword\<rparr>))
          else if isspace c
          then bindr (custr_cstr (cf_keyword cf)) (\<lambda>_. cfg_char A mem (cf\<lparr>cf_state := ST_PRE_STRING\<rparr>) c)
          else parse_error
      | ST_PRE_STRING \<Rightarrow>
          if isspace c then Inr cf
          else if c = CHR 0x22
          then bindr (custr_reset (cf_value cf)) (\<lambda>value. Inr (cf\<lparr>cf_state := ST_STRING, cf_value := value\<rparr>))
          else parse_error
      | ST_STRING \<Rightarrow>
          if c = NL \<or> c = CHR 0x0D then Inl (Fault_Exit 1)
          else if c = CHR 0x22 then Inr (cf\<lparr>cf_state := ST_PRE_SEMICOLON\<rparr>)
          else bindr (or_exit (custr_appendc mem (cf_value cf) c)) (\<lambda>value. Inr (cf\<lparr>cf_value := value\<rparr>))
      | ST_PRE_SEMICOLON \<Rightarrow>
          if isspace c then Inr cf
          else if c \<noteq> CHR '';'' then parse_error
          else bindr (cfg_directive A mem cf) (\<lambda>mc. Inr (cf\<lparr>cf_mc := mc, cf_state := ST_REST\<rparr>))
      | ST_COMMENT_0 \<Rightarrow> if c = CHR ''*'' then Inr (cf\<lparr>cf_state := ST_COMMENT_1\<rparr>) else parse_error
      | ST_COMMENT_1 \<Rightarrow> if c = CHR ''*'' then Inr (cf\<lparr>cf_state := ST_COMMENT_2\<rparr>) else Inr cf
      | ST_COMMENT_2 \<Rightarrow>
          if c = CHR ''/'' then Inr (cf\<lparr>cf_state := cf_comment_state cf\<rparr>)
          else cfg_char A mem (cf\<lparr>cf_state := ST_COMMENT_1\<rparr>) c)"
  by pat_completeness auto
termination
  by (relation "measure (\<lambda>(A, mem, cf, c). if cf_state cf \<in> {ST_KEYWORD, ST_COMMENT_2} then 1 else 0)") auto

declare cfg_char.simps [simp del]

fun cfg_run :: "('t, char list) avl_ops \<Rightarrow> allocator \<Rightarrow> char list \<Rightarrow> 't cfg \<Rightarrow> 't cfg outcome" where
  "cfg_run A mem [] cf = Inr cf"
| "cfg_run A mem (c # cs) cf = bindr (cfg_char A mem cf c) (cfg_run A mem cs)"

definition read_config_file :: "('t, char list) avl_ops \<Rightarrow> allocator \<Rightarrow> ck_world \<Rightarrow> ('t, 't mancheck) strset_walk_func" where
  "read_config_file A mem w ss config_path mc =
     (case (custr_alloc mem, custr_alloc mem) of
        ((Ret_ok, Some keyword), (Ret_ok, Some value)) \<Rightarrow>
          (let f = ck_configs w config_path in
           if cf_open f \<noteq> None \<or> \<not> cf_regular f then Inl (Fault_Exit 1)
           else
             bindr (cfg_run A mem (cf_chars f)
               \<lparr>cf_state = ST_REST, cf_comment_state = ST_REST, cf_type = CHR ''?'', cf_keyword = keyword,
                cf_value = value, cf_mc = mc\<rparr>) (\<lambda>cf.
             if cf_error f \<noteq> None \<or> cf_state cf \<noteq> ST_REST then Inl (Fault_Exit 1)
             else Inr (STRSET_WALK_NEXT, ss, cf_mc cf)))
      | _ \<Rightarrow> Inl (Fault_Exit 1))"

section \<open>The program\<close>

definition dump_record :: "('t, 't mancheck) strset_walk_func" where
  "dump_record ss pattern mc = Inr (STRSET_WALK_NEXT, ss, mc_print ([CHR 0x09] @ pattern @ [NL]) mc)"

definition dump_set :: "('t, char list) avl_ops \<Rightarrow> char list \<Rightarrow> 't strset \<Rightarrow> 't mancheck \<Rightarrow> 't mancheck outcome" where
  "dump_set A title ss mc =
     bindr (strset_walk A (avl_numnodes A (ss_strings ss)) ss dump_record (mc_print (title @ [NL]) mc)) (\<lambda>(_, _, mc).
     Inr (mc_print [NL] mc))"

definition dump_config :: "('t, char list) avl_ops \<Rightarrow> 't mancheck \<Rightarrow> 't mancheck outcome" where
  "dump_config A mc =
     bindr (dump_set A ''   1. section excludes:'' (mc_section_excludes mc)
              (mc_print (''dumping config in processing order:'' @ [NL] @ [NL]) mc)) (\<lambda>mc.
     bindr (dump_set A ''   2. section includes:'' (mc_section_includes mc) mc) (\<lambda>mc.
     dump_set A ''   3. page excludes:'' (mc_page_excludes mc) mc))"

text \<open>A final count: printed with \<^verbatim>\<open>%ld\<close>, after an empty line if it is the first one.\<close>

definition final_count :: "32 word \<Rightarrow> 64 word \<Rightarrow> char list \<Rightarrow> bool \<times> int \<times> 't mancheck \<Rightarrow> bool \<times> int \<times> 't mancheck" where
  "final_count flag cnt label st =
     (case st of (endl, rval, mc) \<Rightarrow>
       if mc_flags mc AND flag \<noteq> 0 \<and> 0 < cnt
       then (True, 60, mc_print (label @ fmt_d (sint cnt) @ [NL]) (if \<not> endl then mc_print [NL] mc else mc))
       else (endl, rval, mc))"

definition final_counts :: "'t mancheck \<Rightarrow> int \<times> 't mancheck" where
  "final_counts mc =
     snd (final_count MCF_NOT_SHIPPED (mc_cnt_not_shipped mc) ''unshipped manual pages: ''
         (final_count MCF_DONT_EXIST (mc_cnt_dont_exist mc) ''missing manual pages: ''
           (final_count MCF_WHOLE_SECTS (mc_cnt_whole_sects mc) ''unshipped manual pages from entirely shipped sections: ''
             (False, 0, mc))))"

text \<open>Two passes over the manifest and one over the directories; then the label \<^verbatim>\<open>out\<close>.\<close>

definition mancheck_passes :: "('t, char list) avl_ops \<Rightarrow> allocator \<Rightarrow> ck_world \<Rightarrow> 't mancheck \<Rightarrow> (int \<times> 't mancheck) outcome" where
  "mancheck_passes A mem w mc =
     (let mf = ck_manifests w (the (mc_manifest_path mc)) in
      bindr (read_manifest_file mem mf (populate_shiplist A mem) mc) (\<lambda>(ret, _, mc).
      if ret \<noteq> 0 then Inr (50, mc)
      else
        bindr (read_manifest_file mem mf (check_manifest_ent A mem w) mc) (\<lambda>(ret, _, mc).
        if ret \<noteq> 0 then Inr (50, mc)
        else
          bindr (check_whole_sects A mem w mc) (\<lambda>(r, mc).
          case r of Ret_err e \<Rightarrow> Inr (50, mc) | Ret_ok \<Rightarrow> Inr (final_counts mc)))))"

definition mancheck_main ::
    "('t, char list) avl_ops \<Rightarrow> allocator \<Rightarrow> ck_world \<Rightarrow> (char \<times> char list) list \<Rightarrow> (int \<times> char list) outcome" where
  "mancheck_main A mem w opts =
     bindr (mancheck_init A mem) (\<lambda>mc.
     bindr (ck_parse_opts A mem opts mc) (\<lambda>mc.
     bindr (strset_walk A (avl_numnodes A (ss_strings (mc_config_paths mc))) (mc_config_paths mc) (read_config_file A mem w) mc)
       (\<lambda>(_, cp, mc).
     let mc = mc\<lparr>mc_config_paths := cp\<rparr> in
     bindr (if mc_flags mc AND MCF_DUMP_CONFIG \<noteq> 0 then dump_config A mc else Inr mc) (\<lambda>mc.
     if mc_flags mc = MCF_DUMP_CONFIG then Inr (0, mc_stdout mc @ ''dumping only'' @ [NL])
     else
       bindr (mancheck_passes A mem w mc) (\<lambda>(rval, mc).
       bindr (mancheck_reset A mc) (\<lambda>_.
       if ck_abort_on_exit w then Inl Fault_Abort else Inr (rval, mc_stdout mc)))))))"

section \<open>Sets of the program\<close>

context strset_heap
begin

lemma add_cases:
  assumes "set_inv ss"
  shows "if x \<in> set_elems ss \<and> flags AND STRSET_IGNORE_DUPLICATES = 0
    then \<exists>ss'. strset_add A mem ss (Some x) = Inr (Ret_err EEXIST, ss')
    else \<exists>ss'. strset_add A mem ss (Some x) = Inr (Ret_ok, ss') \<and> set_inv ss' \<and> set_elems ss' = insert x (set_elems ss)"
  using str.add_step [OF assms, of x] by (auto simp: insert_absorb split: if_splits)

end

locale set_heap = string_avl A avl_ok nodes + working_heap mem
  for A :: "('t, char list) avl_ops" and avl_ok nodes mem
begin

definition holds_set :: "32 word \<Rightarrow> 't strset \<Rightarrow> char list set \<Rightarrow> bool" where
  "holds_set fl ss S \<longleftrightarrow> strset_heap.set_inv avl_ok fl ss \<and> strset_heap.set_elems nodes ss = S"

lemma heap: "strset_heap A avl_ok nodes mem"
  using avl_library_axioms working_heap_axioms by (simp add: strset_heap_def)

lemma holds_alloc:
  assumes "fl AND NOT STRSET_FLAGS_ALL = 0"
  shows "\<exists>ss. strset_alloc A mem fl = (Ret_ok, Some ss) \<and> holds_set fl ss {}"
proof -
  obtain ss where "strset_alloc A mem fl = (Ret_ok, Some ss)"
    using good_allocD [OF good, of 64] assms by (auto simp: strset_alloc_def strset_allocx_def)
  then show ?thesis using strset_heap.alloc_inv [OF heap] by (auto simp: holds_set_def)
qed

lemma flags_plain: "(0 :: 32 word) AND NOT STRSET_FLAGS_ALL = 0" "STRSET_IGNORE_DUPLICATES AND NOT STRSET_FLAGS_ALL = 0"
  by (simp_all add: STRSET_FLAGS_ALL_def STRSET_IGNORE_DUPLICATES_def)

lemma holds_add:
  assumes "holds_set fl ss S"
  shows "if x \<in> S \<and> fl AND STRSET_IGNORE_DUPLICATES = 0 then or_exit (strset_add A mem ss (Some x)) = Inl (Fault_Exit 1)
    else \<exists>ss'. strset_add A mem ss (Some x) = Inr (Ret_ok, ss') \<and> holds_set fl ss' (insert x S)"
  using strset_heap.add_cases [OF heap, of fl ss x] assms by (auto simp: holds_set_def split: if_splits)

lemma holds_add_dup:
  "holds_set STRSET_IGNORE_DUPLICATES ss S \<Longrightarrow>
   \<exists>ss'. strset_add A mem ss (Some x) = Inr (Ret_ok, ss') \<and> holds_set STRSET_IGNORE_DUPLICATES ss' (insert x S)"
  using holds_add [of STRSET_IGNORE_DUPLICATES ss S x] by (simp add: STRSET_IGNORE_DUPLICATES_def)

lemma holds_contains: "holds_set fl ss S \<Longrightarrow> strset_contains A ss (Some x) = Inr (x \<in> S)"
  using strset_heap.contains_iff [OF heap] by (auto simp: holds_set_def)

lemma holds_free: "holds_set fl ss S \<Longrightarrow> strset_free A (Some ss) = Inr ()"
  using strset_heap.free_returns [OF heap] by (auto simp: holds_set_def)

lemma holds_nodes:
  assumes "holds_set fl ss S"
  shows "avl_ok (strset_comparator None) (ss_strings ss)" "set (nodes (ss_strings ss)) = S"
    "sorted_wrt (\<lambda>x y. strcmp x y < 0) (nodes (ss_strings ss))" "avl_numnodes A (ss_strings ss) = card S"
proof -
  show ok: "avl_ok (strset_comparator None) (ss_strings ss)" and S: "set (nodes (ss_strings ss)) = S"
    using assms by (simp_all add: holds_set_def strset_heap.set_inv_def [OF heap] strset_heap.set_elems_def [OF heap])
  show "sorted_wrt (\<lambda>x y. strcmp x y < 0) (nodes (ss_strings ss))" using ordered [OF ok] by (simp add: default_comparator)
  then show "avl_numnodes A (ss_strings ss) = card S"
    using numnodes [OF ok] sorted_strcmp_distinct S distinct_card by fastforce
qed

lemma holds_reset: "holds_set fl ss S \<Longrightarrow> \<exists>ss'. strset_reset A ss = Inr ss' \<and> holds_set fl ss' {}"
  using destroy [of "strset_comparator None" "ss_strings ss"] is_empty [of "strset_comparator None" "snd (avl_destroy_nodes A (ss_strings ss))"]
  by (auto simp: holds_set_def strset_heap.set_inv_def [OF heap] strset_heap.set_elems_def [OF heap] strset_reset_def split_beta)

end

interpretation lm: set_heap list_avl list_avl_ok snd heap_base
  by unfold_locales (rule good_heap_base)

section \<open>The language of configuration files\<close>

text \<open>White space and comments, which may stand between the parts of a directive.\<close>

datatype filler = Blank char | Comment "char list"

fun no_close :: "char list \<Rightarrow> bool" where
  "no_close (c # d # cs) \<longleftrightarrow> \<not> (c = CHR ''*'' \<and> d = CHR ''/'') \<and> no_close (d # cs)"
| "no_close _ \<longleftrightarrow> True"

fun filler_text :: "filler \<Rightarrow> char list" where
  "filler_text (Blank c) = [c]"
| "filler_text (Comment t) = ''/*'' @ t @ ''*/''"

fun filler_ok :: "filler \<Rightarrow> bool" where
  "filler_ok (Blank c) \<longleftrightarrow> isspace c"
| "filler_ok (Comment t) \<longleftrightarrow> no_close t"

datatype directive_kind = Include_section | Exclude_section | Exclude_page

fun kind_text :: "directive_kind \<Rightarrow> char list" where
  "kind_text Include_section = ''+section''"
| "kind_text Exclude_section = ''-section''"
| "kind_text Exclude_page = ''-page''"

record directive =
  d_before :: "filler list"
  d_kind :: directive_kind
  d_blank :: char
  d_middle :: "filler list"
  d_value :: "char list"
  d_after :: "filler list"

abbreviation fillers :: "filler list \<Rightarrow> char list" where
  "fillers fs \<equiv> concat (map filler_text fs)"

definition directive_text :: "directive \<Rightarrow> char list" where
  "directive_text d = fillers (d_before d) @ kind_text (d_kind d) @ [d_blank d] @ fillers (d_middle d) @
     [CHR 0x22] @ d_value d @ [CHR 0x22] @ fillers (d_after d) @ '';''"

definition directive_ok :: "directive \<Rightarrow> bool" where
  "directive_ok d \<longleftrightarrow> (\<forall>f \<in> set (d_before d @ d_middle d @ d_after d). filler_ok f) \<and> isspace (d_blank d) \<and>
     set (d_value d) \<inter> {CHR 0x22, NL, CHR 0x0D, NUL} = {}"

lemma cfg_run_append: "cfg_run A mem (xs @ ys) cf = bindr (cfg_run A mem xs cf) (cfg_run A mem ys)"
  by (induction xs arbitrary: cf) (simp_all add: bindr_def split: sum.split)

lemma cfg_run_Nil [simp]: "cfg_run A mem [] = Inr"
  by (rule ext) simp

lemma cfg_comment_1: "cf_state cf = ST_COMMENT_1 \<Longrightarrow>
   cfg_char A mem cf c = Inr (cf\<lparr>cf_state := (if c = CHR ''*'' then ST_COMMENT_2 else ST_COMMENT_1)\<rparr>)"
  by (subst cfg_char.simps) simp

lemma cfg_comment_2: "cf_state cf = ST_COMMENT_2 \<Longrightarrow>
   cfg_char A mem cf c = (if c = CHR ''/'' then Inr (cf\<lparr>cf_state := cf_comment_state cf\<rparr>)
     else Inr (cf\<lparr>cf_state := (if c = CHR ''*'' then ST_COMMENT_2 else ST_COMMENT_1)\<rparr>))"
  by (subst cfg_char.simps) (simp add: cfg_comment_1)

lemma comment_run:
  "no_close t \<Longrightarrow> cf_state cf = ST_COMMENT_1 \<or> cf_state cf = ST_COMMENT_2 \<and> (t = [] \<or> hd t \<noteq> CHR ''/'') \<Longrightarrow>
   cfg_run A mem (t @ ''*/'') cf = Inr (cf\<lparr>cf_state := cf_comment_state cf\<rparr>)"
proof (induction t arbitrary: cf)
  case Nil
  then show ?case by (auto simp: cfg_comment_1 cfg_comment_2)
next
  case (Cons c t)
  have nc: "no_close t" and hd: "c = CHR ''*'' \<longrightarrow> t = [] \<or> hd t \<noteq> CHR ''/''" using Cons.prems(1) by (cases t; simp)+
  have step: "cfg_char A mem cf c = Inr (cf\<lparr>cf_state := (if c = CHR ''*'' then ST_COMMENT_2 else ST_COMMENT_1)\<rparr>)"
    using Cons.prems(2) by (auto simp: cfg_comment_1 cfg_comment_2)
  show ?case using step Cons.IH [OF nc] hd by simp
qed

lemma filler_run:
  assumes "cf_state cf \<in> {ST_REST, ST_PRE_STRING, ST_PRE_SEMICOLON}" "filler_ok f"
  shows "\<exists>s. cfg_run A mem (filler_text f) cf = Inr (cf\<lparr>cf_comment_state := s\<rparr>)"
proof (cases f)
  case (Blank c)
  then have "c \<noteq> CHR ''/''" using assms(2) by (auto simp: isspace_def)
  then have "cfg_char A mem cf c = Inr cf" using assms Blank by (subst cfg_char.simps) auto
  then show ?thesis using Blank by (intro exI [of _ "cf_comment_state cf"]) simp
next
  case (Comment t)
  have "cfg_char A mem cf (CHR ''/'') = Inr (cf\<lparr>cf_comment_state := cf_state cf, cf_state := ST_COMMENT_0\<rparr>)"
    using assms(1) by (subst cfg_char.simps) simp
  moreover have "cfg_char A mem (cf\<lparr>cf_comment_state := s, cf_state := ST_COMMENT_0\<rparr>) (CHR ''*'') =
      Inr (cf\<lparr>cf_comment_state := s, cf_state := ST_COMMENT_1\<rparr>)" for s
    by (subst cfg_char.simps) simp
  ultimately show ?thesis
    using Comment assms(2) comment_run [of t "cf\<lparr>cf_comment_state := cf_state cf, cf_state := ST_COMMENT_1\<rparr>" A mem]
    by (intro exI [of _ "cf_state cf"]) simp
qed

lemma fillers_run:
  "cf_state cf \<in> {ST_REST, ST_PRE_STRING, ST_PRE_SEMICOLON} \<Longrightarrow> \<forall>f \<in> set fs. filler_ok f \<Longrightarrow>
   \<exists>s. cfg_run A mem (fillers fs) cf = Inr (cf\<lparr>cf_comment_state := s\<rparr>)"
proof (induction fs arbitrary: cf)
  case Nil
  show ?case by (intro exI [of _ "cf_comment_state cf"]) simp
next
  case (Cons f fs)
  obtain s where s: "cfg_run A mem (filler_text f) cf = Inr (cf\<lparr>cf_comment_state := s\<rparr>)"
    using filler_run [OF Cons.prems(1), of f A mem] Cons.prems(2) by auto
  show ?case using Cons.IH [of "cf\<lparr>cf_comment_state := s\<rparr>"] Cons.prems s by (simp add: cfg_run_append)
qed

lemma keyword_run:
  assumes "good_alloc mem"
  shows "cf_state cf = ST_KEYWORD \<Longrightarrow> custr_dyn (cf_keyword cf) k \<Longrightarrow> \<forall>c \<in> set cs. isalnum c \<Longrightarrow>
    \<exists>kw. cfg_run A mem cs cf = Inr (cf\<lparr>cf_keyword := kw\<rparr>) \<and> custr_dyn kw (k @ cs)"
proof (induction cs arbitrary: cf k)
  case Nil
  then show ?case by (intro exI [of _ "cf_keyword cf"]) simp
next
  case (Cons c cs)
  obtain kw where kw: "custr_appendc mem (cf_keyword cf) c = Inr (Ret_ok, kw)" "custr_dyn kw (k @ [c])"
    using custr_appendc_dyn [OF Cons.prems(2) assms] by blast
  have "cfg_char A mem cf c = Inr (cf\<lparr>cf_keyword := kw\<rparr>)" using Cons.prems kw(1) by (subst cfg_char.simps) simp
  then show ?case using Cons.IH [of "cf\<lparr>cf_keyword := kw\<rparr>" "k @ [c]"] Cons.prems kw(2) by simp
qed

lemma string_run:
  assumes "good_alloc mem"
  shows "cf_state cf = ST_STRING \<Longrightarrow> custr_dyn (cf_value cf) v \<Longrightarrow> set cs \<inter> {CHR 0x22, NL, CHR 0x0D} = {} \<Longrightarrow>
    \<exists>va. cfg_run A mem cs cf = Inr (cf\<lparr>cf_value := va\<rparr>) \<and> custr_dyn va (v @ cs)"
proof (induction cs arbitrary: cf v)
  case Nil
  then show ?case by (intro exI [of _ "cf_value cf"]) simp
next
  case (Cons c cs)
  obtain va where va: "custr_appendc mem (cf_value cf) c = Inr (Ret_ok, va)" "custr_dyn va (v @ [c])"
    using custr_appendc_dyn [OF Cons.prems(2) assms] by blast
  have "cfg_char A mem cf c = Inr (cf\<lparr>cf_value := va\<rparr>)" using Cons.prems va(1) by (subst cfg_char.simps) auto
  then show ?case using Cons.IH [of "cf\<lparr>cf_value := va\<rparr>" "v @ [c]"] Cons.prems va(2) by simp
qed

text \<open>The automaton between two directives.\<close>

definition cfg_ready :: "'t cfg \<Rightarrow> bool" where
  "cfg_ready cf \<longleftrightarrow> cf_state cf = ST_REST \<and> (\<exists>k. custr_dyn (cf_keyword cf) k) \<and> (\<exists>v. custr_dyn (cf_value cf) v)"

lemma kind_text_split:
  "\<exists>sign kw. kind_text k = sign # kw \<and> sign \<in> {CHR ''+'', CHR ''-''} \<and> (\<forall>c \<in> set kw. isalnum c) \<and> nul_free kw \<and>
     (case k of Include_section \<Rightarrow> sign = CHR ''+'' \<and> kw = ''section'' | Exclude_section \<Rightarrow> sign = CHR ''-'' \<and> kw = ''section''
      | Exclude_page \<Rightarrow> sign = CHR ''-'' \<and> kw = ''page'')"
  by (cases k) (simp_all add: isalnum_def islower_def)

lemma blank_not_alnum: "isspace c \<Longrightarrow> \<not> isalnum c \<and> c \<noteq> CHR ''/'' \<and> c \<noteq> CHR 0x22"
  by (auto simp: isspace_def isalnum_def isdigit_def islower_def)

text \<open>Up to its semicolon a directive collects its keyword and its value.\<close>

lemma directive_prefix_run:
  assumes "good_alloc mem" "cfg_ready cf" "directive_ok d"
  shows "\<exists>cf' sign kw. cfg_run A mem (directive_text d) cf = cfg_char A mem cf' (CHR '';'') \<and> cf_state cf' = ST_PRE_SEMICOLON \<and>
    kind_text (d_kind d) = sign # kw \<and> cf_type cf' = sign \<and> custr_dyn (cf_keyword cf') kw \<and> custr_dyn (cf_value cf') (d_value d) \<and>
    cf_mc cf' = cf_mc cf"
proof -
  obtain sign kw where k: "kind_text (d_kind d) = sign # kw" "sign \<in> {CHR ''+'', CHR ''-''}" "\<forall>c \<in> set kw. isalnum c"
    using kind_text_split [of "d_kind d"] by blast
  have ok: "\<forall>f \<in> set (d_before d). filler_ok f" "\<forall>f \<in> set (d_middle d). filler_ok f" "\<forall>f \<in> set (d_after d). filler_ok f"
    "isspace (d_blank d)" "set (d_value d) \<inter> {CHR 0x22, NL, CHR 0x0D} = {}"
    using assms(3) by (auto simp: directive_ok_def)
  obtain s1 where s1: "cfg_run A mem (fillers (d_before d)) cf = Inr (cf\<lparr>cf_comment_state := s1\<rparr>)"
    using fillers_run [of cf "d_before d" A mem] assms(2) ok(1) by (auto simp: cfg_ready_def)
  obtain k0 v0 where r: "custr_reset (cf_keyword cf) = Inr k0" "custr_dyn k0 []" "custr_reset (cf_value cf) = Inr v0" "custr_dyn v0 []"
    using assms(2) custr_reset_dyn unfolding cfg_ready_def by meson
  let ?c1 = "cf\<lparr>cf_comment_state := s1, cf_type := sign, cf_keyword := k0, cf_value := v0, cf_state := ST_KEYWORD\<rparr>"
  have c1: "cfg_char A mem (cf\<lparr>cf_comment_state := s1\<rparr>) sign = Inr ?c1"
    using assms(2) k(2) r by (subst cfg_char.simps) (auto simp: cfg_ready_def isspace_def)
  obtain k1 where c2: "cfg_run A mem kw ?c1 = Inr (?c1\<lparr>cf_keyword := k1\<rparr>)" "custr_dyn k1 kw"
    using keyword_run [OF assms(1), of ?c1 "[]" kw A] r(2) k(3) by auto
  let ?c3 = "?c1\<lparr>cf_keyword := k1, cf_state := ST_PRE_STRING\<rparr>"
  have "cfg_char A mem ?c3 (d_blank d) = Inr ?c3" using ok(4) blank_not_alnum by (subst cfg_char.simps) auto
  moreover have "\<exists>x. custr_cstr k1 = Inr x" using c2(2) custr_cstr_rep by (auto simp: custr_dyn_def)
  ultimately have c3: "cfg_char A mem (?c1\<lparr>cf_keyword := k1\<rparr>) (d_blank d) = Inr ?c3"
    using ok(4) blank_not_alnum [of "d_blank d"] by (subst cfg_char.simps) auto
  obtain s2 where c4: "cfg_run A mem (fillers (d_middle d)) ?c3 = Inr (?c3\<lparr>cf_comment_state := s2\<rparr>)"
    using fillers_run [of ?c3 "d_middle d" A mem] ok(2) by auto
  let ?c5 = "\<lambda>va. ?c3\<lparr>cf_comment_state := s2, cf_state := ST_STRING, cf_value := va\<rparr>"
  obtain v1 where v1: "custr_reset v0 = Inr v1" "custr_dyn v1 []" using custr_reset_dyn [OF r(4)] by blast
  have c5: "cfg_char A mem (?c3\<lparr>cf_comment_state := s2\<rparr>) (CHR 0x22) = Inr (?c5 v1)"
    using v1 by (subst cfg_char.simps) (simp add: isspace_def)
  obtain v2 where c6: "cfg_run A mem (d_value d) (?c5 v1) = Inr (?c5 v2)" "custr_dyn v2 (d_value d)"
    using string_run [OF assms(1), of "?c5 v1" "[]" "d_value d" A] v1(2) ok(5) by auto
  let ?c7 = "(?c5 v2)\<lparr>cf_state := ST_PRE_SEMICOLON\<rparr>"
  have c7: "cfg_char A mem (?c5 v2) (CHR 0x22) = Inr ?c7" by (subst cfg_char.simps) simp
  obtain s3 where c8: "cfg_run A mem (fillers (d_after d)) ?c7 = Inr (?c7\<lparr>cf_comment_state := s3\<rparr>)"
    using fillers_run [of ?c7 "d_after d" A mem] ok(3) by auto
  show ?thesis
    using k(1) s1 c1 c2 c3 c4 c5 c6 c7 c8
    by (intro exI [of _ "?c7\<lparr>cf_comment_state := s3\<rparr>"] exI [of _ sign] exI [of _ kw])
      (simp add: directive_text_def cfg_run_append)
qed

text \<open>The values of the directives of a kind.\<close>

definition values_of :: "directive_kind \<Rightarrow> directive list \<Rightarrow> char list set" where
  "values_of k ds = d_value ` {d \<in> set ds. d_kind d = k}"

lemma values_of_simps [simp]:
  "values_of k [] = {}" "values_of k (d # ds) = (if d_kind d = k then insert (d_value d) (values_of k ds) else values_of k ds)"
  by (auto simp: values_of_def)

context set_heap
begin

abbreviation IGN :: "32 word" where
  "IGN \<equiv> STRSET_IGNORE_DUPLICATES"

definition cfg_sets :: "'t mancheck \<Rightarrow> char list set \<Rightarrow> char list set \<Rightarrow> char list set \<Rightarrow> bool" where
  "cfg_sets mc I E P \<longleftrightarrow> holds_set IGN (mc_section_includes mc) I \<and> holds_set IGN (mc_section_excludes mc) E \<and>
     holds_set IGN (mc_page_excludes mc) P"

text \<open>A state that differs from another in the three sets of the configuration only.\<close>

definition same_but_config :: "'t mancheck \<Rightarrow> 't mancheck \<Rightarrow> bool" where
  "same_but_config mc mc' \<longleftrightarrow> (\<exists>si se pe. mc' = mc\<lparr>mc_section_includes := si, mc_section_excludes := se, mc_page_excludes := pe\<rparr>)"

lemma same_but_config_refl: "same_but_config mc mc"
  unfolding same_but_config_def
  by (intro exI [of _ "mc_section_includes mc"] exI [of _ "mc_section_excludes mc"] exI [of _ "mc_page_excludes mc"]) simp

lemma same_but_config_trans: "same_but_config a b \<Longrightarrow> same_but_config b c \<Longrightarrow> same_but_config a c"
  by (auto simp: same_but_config_def) (intro exI, rule refl)

lemma same_but_config_updates:
  "same_but_config mc (mc\<lparr>mc_section_includes := x\<rparr>)" "same_but_config mc (mc\<lparr>mc_section_excludes := x\<rparr>)"
  "same_but_config mc (mc\<lparr>mc_page_excludes := x\<rparr>)"
  unfolding same_but_config_def
  by (intro exI [of _ x] exI [of _ "mc_section_excludes mc"] exI [of _ "mc_page_excludes mc"], simp)
    (intro exI [of _ "mc_section_includes mc"] exI [of _ x] exI [of _ "mc_page_excludes mc"], simp,
     intro exI [of _ "mc_section_includes mc"] exI [of _ "mc_section_excludes mc"] exI [of _ x], simp)

lemma directive_effect:
  assumes "custr_dyn (cf_keyword cf) kw" "custr_dyn (cf_value cf) v" "nul_free v" "cfg_sets (cf_mc cf) I E P"
    and "kind_text k = sign # kw" "cf_type cf = sign"
  shows "\<exists>mc. cfg_directive A mem cf = Inr mc \<and> same_but_config (cf_mc cf) mc \<and>
    cfg_sets mc (if k = Include_section then insert v I else I) (if k = Exclude_section then insert v E else E)
      (if k = Exclude_page then insert v P else P)"
proof -
  have kw: "nul_free kw" using kind_text_split [of k] assms(5) by auto
  have rd: "custr_cstr (cf_keyword cf) = Inr kw" "custr_cstr (cf_value cf) = Inr v"
    using custr_dyn_reads assms(1-3) kw by blast+
  show ?thesis
    using assms(4-6) rd holds_add_dup [of "mc_section_includes (cf_mc cf)" I v] holds_add_dup [of "mc_section_excludes (cf_mc cf)" E v]
      holds_add_dup [of "mc_page_excludes (cf_mc cf)" P v]
    by (cases k) (auto simp: cfg_directive_def cfg_sets_def Let_def same_but_config_updates)
qed

lemma directive_run:
  assumes "cfg_ready cf" "directive_ok d" "cfg_sets (cf_mc cf) I E P"
  shows "\<exists>cf'. cfg_run A mem (directive_text d) cf = Inr cf' \<and> cfg_ready cf' \<and> same_but_config (cf_mc cf) (cf_mc cf') \<and>
    cfg_sets (cf_mc cf') (values_of Include_section [d] \<union> I) (values_of Exclude_section [d] \<union> E) (values_of Exclude_page [d] \<union> P)"
proof -
  obtain cf1 sign kw where run: "cfg_run A mem (directive_text d) cf = cfg_char A mem cf1 (CHR '';'')"
    and c: "cf_state cf1 = ST_PRE_SEMICOLON" "kind_text (d_kind d) = sign # kw" "cf_type cf1 = sign"
    "custr_dyn (cf_keyword cf1) kw" "custr_dyn (cf_value cf1) (d_value d)" "cf_mc cf1 = cf_mc cf"
    using directive_prefix_run [OF good assms(1,2), of A] by blast
  have v: "nul_free (d_value d)" using assms(2) by (auto simp: directive_ok_def nul_free_def)
  obtain mc where mc: "cfg_directive A mem cf1 = Inr mc" "same_but_config (cf_mc cf) mc"
    "cfg_sets mc (values_of Include_section [d] \<union> I) (values_of Exclude_section [d] \<union> E) (values_of Exclude_page [d] \<union> P)"
    using directive_effect [OF c(4,5) v _ c(2,3), of I E P] assms(3) c(6) by (cases "d_kind d") auto
  have "cfg_char A mem cf1 (CHR '';'') = Inr (cf1\<lparr>cf_mc := mc, cf_state := ST_REST\<rparr>)"
    using c(1) mc(1) by (subst cfg_char.simps) (simp add: isspace_def)
  then show ?thesis using run mc(2,3) c(4,5) by (auto simp: cfg_ready_def)
qed

lemma directives_run:
  "cfg_ready cf \<Longrightarrow> \<forall>d \<in> set ds. directive_ok d \<Longrightarrow> cfg_sets (cf_mc cf) I E P \<Longrightarrow>
   \<exists>cf'. cfg_run A mem (concat (map directive_text ds)) cf = Inr cf' \<and> cfg_ready cf' \<and> same_but_config (cf_mc cf) (cf_mc cf') \<and>
    cfg_sets (cf_mc cf') (values_of Include_section ds \<union> I) (values_of Exclude_section ds \<union> E) (values_of Exclude_page ds \<union> P)"
proof (induction ds arbitrary: cf I E P)
  case Nil
  then show ?case by (simp add: same_but_config_refl)
next
  case (Cons d ds)
  obtain cf1 where cf1: "cfg_run A mem (directive_text d) cf = Inr cf1" "cfg_ready cf1" "same_but_config (cf_mc cf) (cf_mc cf1)"
    "cfg_sets (cf_mc cf1) (values_of Include_section [d] \<union> I) (values_of Exclude_section [d] \<union> E) (values_of Exclude_page [d] \<union> P)"
    using directive_run [OF Cons.prems(1) _ Cons.prems(3), of d] Cons.prems(2) by auto
  have split: "values_of k (d # ds) \<union> S = values_of k ds \<union> (values_of k [d] \<union> S)" for k S by auto
  show ?case
    using Cons.IH [OF cf1(2) _ cf1(4)] Cons.prems(2) cf1(1) same_but_config_trans [OF cf1(3)] unfolding split
    by (auto simp: cfg_run_append simp del: values_of_simps)
qed

text \<open>A configuration file that can be read, with its directives.\<close>

lemma config_file_run:
  assumes "cf_open f = None" "cf_regular f" "cf_error f = None" "ck_configs w path = f"
    and "cf_chars f = concat (map directive_text ds) @ fillers tail" "\<forall>d \<in> set ds. directive_ok d" "\<forall>x \<in> set tail. filler_ok x"
    and "cfg_sets mc I E P"
  shows "\<exists>mc'. read_config_file A mem w ss path mc = Inr (STRSET_WALK_NEXT, ss, mc') \<and> same_but_config mc mc' \<and>
    cfg_sets mc' (values_of Include_section ds \<union> I) (values_of Exclude_section ds \<union> E) (values_of Exclude_page ds \<union> P)"
proof -
  obtain k where k: "custr_alloc mem = (Ret_ok, Some k)" "custr_dyn k []" using custr_alloc_dyn [OF good] by blast
  let ?cf = "\<lparr>cf_state = ST_REST, cf_comment_state = ST_REST, cf_type = CHR ''?'', cf_keyword = k, cf_value = k, cf_mc = mc\<rparr>"
  have "cfg_ready ?cf" "cfg_sets (cf_mc ?cf) I E P" using k(2) assms(8) by (auto simp: cfg_ready_def)
  then obtain cf1 where cf1: "cfg_run A mem (concat (map directive_text ds)) ?cf = Inr cf1" "cfg_ready cf1"
    "same_but_config mc (cf_mc cf1)"
    "cfg_sets (cf_mc cf1) (values_of Include_section ds \<union> I) (values_of Exclude_section ds \<union> E) (values_of Exclude_page ds \<union> P)"
    using directives_run [of ?cf ds I E P] assms(6) by auto
  obtain s where s: "cfg_run A mem (fillers tail) cf1 = Inr (cf1\<lparr>cf_comment_state := s\<rparr>)"
    using fillers_run [of cf1 tail A mem] cf1(2) assms(7) by (auto simp: cfg_ready_def)
  show ?thesis
    using k(1) cf1 s assms(1-5) by (auto simp: read_config_file_def cfg_run_append cfg_ready_def)
qed

end

section \<open>Properties\<close>


definition config_sample :: "directive list" where
  "config_sample =
     [\<lparr>d_before = [Comment ''* all of 3 **'', Blank NL], d_kind = Include_section, d_blank = CHR '' '', d_middle = [],
       d_value = ''3*'', d_after = []\<rparr>,
      \<lparr>d_before = [Blank NL], d_kind = Exclude_page, d_blank = CHR '' '', d_middle = [Comment ''/''],
       d_value = ''old.1'', d_after = [Blank (CHR '' '')]\<rparr>]"

definition config_world :: ck_world where
  "config_world = \<lparr>ck_manifests = (\<lambda>_. \<lparr>mf_open = Some ENOENT, mf_stat = None, mf_stale = None, mf_lines = [], mf_error = None\<rparr>),
     ck_configs = (\<lambda>_. \<lparr>cf_open = None, cf_regular = True,
       cf_chars = ''/** all of 3 ***/'' @ [NL] @ ''+section '' @ [CHR 0x22] @ ''3*'' @ [CHR 0x22] @ '';'' @ [NL] @
         ''-page /*/*/'' @ [CHR 0x22] @ ''old.1'' @ [CHR 0x22] @ '' ;'' @ [NL], cf_error = None\<rparr>),
     ck_stat = (\<lambda>_. False), ck_lstat = (\<lambda>_. Inl ENOENT), ck_opendir = (\<lambda>_. Inl ENOENT), ck_fnmatch = (\<lambda>p s. FNM_NOMATCH),
     ck_abort_on_exit = False\<rparr>"


end
