(* ===== verification/Mancheck_Runs.thy ===== *)
theory Mancheck_Runs
  imports Mancheck
begin

text \<open>
  Runs of \<^verbatim>\<open>mancheck\<close>: what the passes over the manifest and over the directories report, as functions of the
  manifest, the file system and the configuration, and the exit status of the whole program.
\<close>

section \<open>Reports\<close>

text \<open>What a pass adds to the state: text on the standard output and the three counters.\<close>

definition mc_report :: "char list \<Rightarrow> nat \<Rightarrow> nat \<Rightarrow> nat \<Rightarrow> 't mancheck \<Rightarrow> 't mancheck" where
  "mc_report txt m u n mc = mc\<lparr>mc_stdout := mc_stdout mc @ txt, mc_cnt_dont_exist := mc_cnt_dont_exist mc + of_nat m,
     mc_cnt_not_shipped := mc_cnt_not_shipped mc + of_nat u, mc_cnt_whole_sects := mc_cnt_whole_sects mc + of_nat n\<rparr>"

lemma mc_report_none [simp]: "mc_report [] 0 0 0 mc = mc"
  by (simp add: mc_report_def)

lemma mc_report_report [simp]:
  "mc_report t m u n (mc_report t' m' u' n' mc) = mc_report (t' @ t) (m' + m) (u' + u) (n' + n) mc"
  by (simp add: mc_report_def add.assoc)

lemma mc_report_fields [simp]:
  "mc_flags (mc_report t m u n mc) = mc_flags mc" "mc_shiplist (mc_report t m u n mc) = mc_shiplist mc"
  "mc_page_excludes (mc_report t m u n mc) = mc_page_excludes mc" "mc_section_includes (mc_report t m u n mc) = mc_section_includes mc"
  "mc_section_excludes (mc_report t m u n mc) = mc_section_excludes mc" "mc_config_paths (mc_report t m u n mc) = mc_config_paths mc"
  "mc_manifest_path (mc_report t m u n mc) = mc_manifest_path mc"
  by (simp_all add: mc_report_def)

text \<open>The entries that stand for commands, and the manual pages the file system has for a command.\<close>

definition ent_name :: "manifest_ent \<Rightarrow> char list" where
  "ent_name e = the (me_name e)"

definition shipped_file :: "manifest_ent \<Rightarrow> bool" where
  "shipped_file e \<longleftrightarrow> me_type e \<in> {ME_TYPE_FILE, ME_TYPE_HARDLINK, ME_TYPE_SYMLINK}"

definition command_ent :: "manifest_ent \<Rightarrow> bool" where
  "command_ent e \<longleftrightarrow> shipped_file e \<and> in_dir (ent_name e)"

definition pages_of :: "ck_world \<Rightarrow> char list \<Rightarrow> char list list" where
  "pages_of w name =
     (let basen = basename (path_buf name) in
      map (\<lambda>s. path_buf (''man'' @ s @ ''/'' @ basen @ ''.'' @ s))
        (filter (\<lambda>s. ck_stat w (path_buf (''proto/usr/share/man'' @ ''/man'' @ s @ ''/'' @ basen @ ''.'' @ s))) [''1'', ''8'']))"

definition missing_page :: "ck_world \<Rightarrow> manifest_ent \<Rightarrow> bool" where
  "missing_page w e \<longleftrightarrow> command_ent e \<and> pages_of w (ent_name e) = []"

definition unshipped_pages :: "ck_world \<Rightarrow> char list set \<Rightarrow> manifest_ent \<Rightarrow> char list list" where
  "unshipped_pages w S e =
     (if command_ent e then filter (\<lambda>p. path_buf (''usr/share/man/'' @ p) \<notin> S) (pages_of w (ent_name e)) else [])"

definition unshipped_line :: "char list \<Rightarrow> char list \<Rightarrow> char list" where
  "unshipped_line name p = ''binary /'' @ name @ '' has unshipped manual page: '' @ p @ [NL]"

definition ent_text :: "ck_world \<Rightarrow> 32 word \<Rightarrow> char list set \<Rightarrow> manifest_ent \<Rightarrow> char list" where
  "ent_text w fl S e =
     (if missing_page w e \<and> fl AND MCF_DONT_EXIST \<noteq> 0 then ''missing manual page for /'' @ ent_name e @ [NL] else []) @
     (if fl AND MCF_NOT_SHIPPED \<noteq> 0 then concat (map (unshipped_line (ent_name e)) (unshipped_pages w S e)) else [])"

lemma sorted_strcmp_unique:
  "sorted_wrt (\<lambda>x y. strcmp x y < 0) xs \<Longrightarrow> sorted_wrt (\<lambda>x y. strcmp x y < 0) ys \<Longrightarrow> set xs = set ys \<Longrightarrow> xs = ys"
proof (induction xs arbitrary: ys)
  case (Cons x xs)
  then obtain y ys' where ys: "ys = y # ys'" by (cases ys) auto
  have "strcmp x y < 0" "strcmp y x < 0" if "x \<noteq> y"
    using that Cons.prems(1,2) equalityD1 [OF Cons.prems(3)] equalityD2 [OF Cons.prems(3)] ys by auto
  then have "x = y" using strcmp_antisym [of x y] by fastforce
  moreover have "x \<notin> set xs" "y \<notin> set ys'" using Cons.prems(1,2) ys by auto
  ultimately show ?case using Cons.IH [of ys'] Cons.prems ys by (simp add: insert_ident)
qed simp

lemma pages_of_sorted: "sorted_wrt (\<lambda>x y. strcmp x y < 0) (pages_of w name)"
  by (simp add: pages_of_def path_buf_def MAXPATHLEN_def Let_def)

context set_heap
begin

lemma check_man_sects_run:
  "holds_set IGN pages S \<Longrightarrow>
   \<exists>pages'. check_man_sects A mem w mpath basen sects pages = Inr pages' \<and> holds_set IGN pages'
     (S \<union> (\<lambda>s. path_buf (''man'' @ s @ ''/'' @ basen @ ''.'' @ s)) `
        {s \<in> set sects. ck_stat w (path_buf (mpath @ ''/man'' @ s @ ''/'' @ basen @ ''.'' @ s))})"
proof (induction sects arbitrary: pages S)
  case (Cons s sects)
  let ?p = "path_buf (''man'' @ s @ ''/'' @ basen @ ''.'' @ s)" and ?f = "\<lambda>s. path_buf (''man'' @ s @ ''/'' @ basen @ ''.'' @ s)"
  let ?st = "\<lambda>s. ck_stat w (path_buf (mpath @ ''/man'' @ s @ ''/'' @ basen @ ''.'' @ s))"
  show ?case
  proof (cases "?st s")
    case True
    obtain pages1 where p1: "strset_add A mem pages (Some ?p) = Inr (Ret_ok, pages1)" "holds_set IGN pages1 (insert ?p S)"
      using holds_add_dup [OF Cons.prems, of ?p] by blast
    have "S \<union> ?f ` {x \<in> set (s # sects). ?st x} = insert ?p S \<union> ?f ` {x \<in> set sects. ?st x}" using True by auto
    then show ?thesis using Cons.IH [OF p1(2)] True p1(1) by (simp add: Let_def)
  next
    case False
    then have "{x \<in> set (s # sects). ?st x} = {x \<in> set sects. ?st x}" by auto
    then show ?thesis using Cons.IH [OF Cons.prems] False by (simp add: Let_def)
  qed
qed simp

lemma check_man_run:
  assumes "holds_set IGN pages S"
  shows "\<exists>pages'. check_man A mem w name pages = Inr (pages_of w name \<noteq> [], pages') \<and>
    holds_set IGN pages' (set (pages_of w name)) \<and> nodes (ss_strings pages') = pages_of w name"
proof -
  obtain p0 where p0: "strset_reset A pages = Inr p0" "holds_set IGN p0 {}" using holds_reset [OF assms] by blast
  have pages: "set (pages_of w name) = {} \<union> (\<lambda>s. path_buf (''man'' @ s @ ''/'' @ basename (path_buf name) @ ''.'' @ s)) `
      {s \<in> set [''1'', ''8'']. ck_stat w (path_buf (''proto/usr/share/man'' @ ''/man'' @ s @ ''/'' @ basename (path_buf name) @ ''.'' @ s))}"
    by (simp only: pages_of_def Let_def set_map set_filter Un_empty_left)
  obtain p1 where p1: "check_man_sects A mem w ''proto/usr/share/man'' (basename (path_buf name)) [''1'', ''8''] p0 = Inr p1"
    "holds_set IGN p1 (set (pages_of w name))"
    using check_man_sects_run [OF p0(2), of w "''proto/usr/share/man''" "basename (path_buf name)" "[''1'', ''8'']"]
    unfolding pages by blast
  have nodes: "nodes (ss_strings p1) = pages_of w name"
    using sorted_strcmp_unique [OF holds_nodes(3) [OF p1(2)] pages_of_sorted] holds_nodes(2) [OF p1(2)] by blast
  have "length (pages_of w name) \<le> 2" by (simp add: pages_of_def Let_def)
  then have "0 < strset_count A p1 \<longleftrightarrow> pages_of w name \<noteq> []"
    using numnodes [OF holds_nodes(1) [OF p1(2)]] nodes int32_of_id [of "int (length (pages_of w name))"]
    by (simp add: strset_count_def)
  then show ?thesis
    using p0(1) p1 nodes by (simp add: check_man_def cm_mpaths_def cm_mansects_def Let_def)
qed

end

section \<open>The passes over the manifest\<close>

lemma split_fields_chars: "x \<in> set (split_fields sep acc s) \<Longrightarrow> set x \<subseteq> set acc \<union> set s"
  by (induction s arbitrary: acc) (auto split: if_splits, fastforce+)

lemma entry_spec_named:
  assumes "entry_spec (line_words l) = Some e" "me_type e \<noteq> ME_TYPE_INVALID"
  shows "\<exists>n. me_name e = Some n \<and> nul_free n"
proof -
  have words: "nul_free x" if "x \<in> set (line_words l)" for x using line_words_plain [OF that] plain_word_cstr by blast
  have flds: "nul_free y" if "x \<in> set (line_words l)" "split_fields sep [] x = [y, z]" for x y z sep
    using split_fields_chars [of y sep "[]" x] words [OF that(1)] that(2) by (auto simp: nul_free_def)
  show ?thesis
    using assms words flds
    by (auto simp: entry_spec_def link_spec_def file_spec_def manifest_ent_zero_def split: list.splits if_splits sum.splits) blast+
qed

definition named_ent :: "manifest_ent \<Rightarrow> bool" where
  "named_ent e \<longleftrightarrow> (me_type e \<noteq> ME_TYPE_INVALID \<longrightarrow> (\<exists>n. me_name e = Some n \<and> nul_free n))"

text \<open>The names of the manual pages a manifest ships.\<close>

definition ship_names :: "manifest_ent list \<Rightarrow> char list list" where
  "ship_names es = map ent_name (filter (\<lambda>e. shipped_file e \<and> take (length ck_pdir) (ent_name e) = ck_pdir) es)"

lemma not_invalid: "shipped_file e \<Longrightarrow> me_type e \<noteq> ME_TYPE_INVALID"
  by (auto simp: shipped_file_def)

context set_heap
begin

lemma populate_ship_run:
  "holds_set 0 (mc_shiplist mc) S \<Longrightarrow> \<forall>e \<in> set es. named_ent e \<Longrightarrow>
   if distinct (ship_names es) \<and> set (ship_names es) \<inter> S = {}
   then \<exists>sh. entries_run (populate_shiplist A mem) None (map Some es) mc = Inr (0, None, mc\<lparr>mc_shiplist := sh\<rparr>) \<and>
     holds_set 0 sh (S \<union> set (ship_names es))
   else entries_run (populate_shiplist A mem) None (map Some es) mc = Inl (Fault_Exit 1)"
proof (induction es arbitrary: mc S)
  case Nil
  then show ?case by (auto simp: ship_names_def intro!: exI [of _ "mc_shiplist mc"])
next
  case (Cons e es)
  show ?case
  proof (cases "shipped_file e \<and> take (length ck_pdir) (ent_name e) = ck_pdir")
    case False
    then have "entries_run (populate_shiplist A mem) None (map Some (e # es)) mc =
        entries_run (populate_shiplist A mem) None (map Some es) mc"
      using Cons.prems(2) by (auto simp: populate_shiplist_def shipped_file_def named_ent_def ent_name_def)
    moreover have "ship_names (e # es) = ship_names es" using False by (auto simp: ship_names_def)
    ultimately show ?thesis using Cons.IH [OF Cons.prems(1)] Cons.prems(2) by simp
  next
    case True
    then obtain n where n: "me_name e = Some n" "nul_free n" "ent_name e = n"
      using Cons.prems(2) not_invalid [of e] by (auto simp: named_ent_def ent_name_def)
    have names: "ship_names (e # es) = n # ship_names es" using True n(3) by (simp add: ship_names_def)
    have step: "populate_shiplist A mem e mc = bindr (or_exit (strset_add A mem (mc_shiplist mc) (Some n))) (\<lambda>sh.
        Inr (MECB_NEXT, e, mc\<lparr>mc_shiplist := sh\<rparr>))"
      using True n by (simp add: populate_shiplist_def shipped_file_def)
    show ?thesis
    proof (cases "n \<in> S")
      case True
      then show ?thesis
        using holds_add [OF Cons.prems(1), of n] step names not_invalid \<open>shipped_file e \<and> _\<close> by simp
    next
      case False
      then obtain sh where sh: "strset_add A mem (mc_shiplist mc) (Some n) = Inr (Ret_ok, sh)" "holds_set 0 sh (insert n S)"
        using holds_add [OF Cons.prems(1), of n] by auto
      have "entries_run (populate_shiplist A mem) None (map Some (e # es)) mc =
          entries_run (populate_shiplist A mem) None (map Some es) (mc\<lparr>mc_shiplist := sh\<rparr>)"
        using step sh(1) not_invalid \<open>shipped_file e \<and> _\<close> by simp
      then show ?thesis
        using Cons.IH [of "mc\<lparr>mc_shiplist := sh\<rparr>" "insert n S"] sh(2) Cons.prems(2) names False by (auto split: if_splits)
    qed
  qed
qed

definition shipped_step :: "32 word \<Rightarrow> char list set \<Rightarrow> char list \<Rightarrow> char list \<Rightarrow> 't mancheck \<Rightarrow> 't mancheck" where
  "shipped_step fl S name p mc =
     (if path_buf (''usr/share/man/'' @ p) \<in> S then mc
      else mc_report (if fl AND MCF_NOT_SHIPPED \<noteq> 0 then unshipped_line name p else []) 0 1 0 mc)"

lemma shipped_fold:
  "fold (shipped_step fl S name) ps mc =
     mc_report (if fl AND MCF_NOT_SHIPPED \<noteq> 0 then concat (map (unshipped_line name) (filter (\<lambda>p. path_buf (''usr/share/man/'' @ p) \<notin> S) ps)) else [])
       0 (length (filter (\<lambda>p. path_buf (''usr/share/man/'' @ p) \<notin> S) ps)) 0 mc"
proof (induction ps arbitrary: mc)
  case (Cons p ps)
  then show ?case by (simp add: shipped_step_def)
qed simp

lemma check_shipped_step:
  assumes "holds_set 0 (mc_shiplist mc) S"
  shows "check_shipped A name ss p mc = Inr (STRSET_WALK_NEXT, ss, shipped_step (mc_flags mc) S name p mc)"
  using holds_contains [OF assms]
  by (simp add: check_shipped_def shipped_step_def ck_pdir_def Let_def mc_report_def mc_print_def unshipped_line_def)

lemma check_ent_run:
  assumes "holds_set 0 (mc_shiplist mc) S" "named_ent e"
  shows "check_manifest_ent A mem w e mc = Inr (MECB_NEXT, e,
    mc_report (ent_text w (mc_flags mc) S e) (if missing_page w e then 1 else 0) (length (unshipped_pages w S e)) 0 mc)"
proof -
  obtain pages where al: "strset_alloc A mem IGN = (Ret_ok, Some pages)" "holds_set IGN pages {}"
    using holds_alloc [OF flags_plain(2)] by blast
  note free = holds_free [OF al(2)]
  show ?thesis
  proof (cases "command_ent e")
    case False
    then show ?thesis
      using al(1) free assms(2)
      by (auto simp: check_manifest_ent_def command_ent_def shipped_file_def named_ent_def ent_name_def missing_page_def
          unshipped_pages_def ent_text_def)
  next
    case True
    then obtain n where n: "me_name e = Some n" "nul_free n" "ent_name e = n" "in_dir n"
      "me_type e \<in> {ME_TYPE_FILE, ME_TYPE_HARDLINK, ME_TYPE_SYMLINK}"
      using assms(2) not_invalid [of e] by (auto simp: named_ent_def ent_name_def command_ent_def shipped_file_def)
    obtain p1 where p1: "check_man A mem w n pages = Inr (pages_of w n \<noteq> [], p1)" "holds_set IGN p1 (set (pages_of w n))"
      "nodes (ss_strings p1) = pages_of w n"
      using check_man_run [OF al(2)] by blast
    show ?thesis
    proof (cases "pages_of w n = []")
      case missing: True
      then show ?thesis
        using al(1) n p1(1) holds_free [OF p1(2)] True
        by (simp add: check_manifest_ent_def missing_page_def unshipped_pages_def ent_text_def Let_def mc_report_def mc_print_def)
    next
      case False
      have "strset_walk A (avl_numnodes A (ss_strings p1)) p1 (check_shipped A n) mc =
          Inr (Ret_ok, p1, fold (shipped_step (mc_flags mc) S n) (nodes (ss_strings p1)) mc) \<and>
        (mc_shiplist (fold (shipped_step (mc_flags mc) S n) (nodes (ss_strings p1)) mc) = mc_shiplist mc \<and>
         mc_flags (fold (shipped_step (mc_flags mc) S n) (nodes (ss_strings p1)) mc) = mc_flags mc)"
      proof (rule walk_fold [OF holds_nodes(1) [OF p1(2)], where I = "\<lambda>m :: 't mancheck. mc_shiplist m = mc_shiplist mc \<and> mc_flags m = mc_flags mc"])
        fix ss' x and a :: "'t mancheck"
        assume "mc_shiplist a = mc_shiplist mc \<and> mc_flags a = mc_flags mc"
        then show "check_shipped A n ss' x a = Inr (STRSET_WALK_NEXT, ss', shipped_step (mc_flags mc) S n x a) \<and>
            (mc_shiplist (shipped_step (mc_flags mc) S n x a) = mc_shiplist mc \<and>
             mc_flags (shipped_step (mc_flags mc) S n x a) = mc_flags mc)"
          using check_shipped_step [of a S n ss' x] assms(1) by (simp add: shipped_step_def)
      qed simp
      then show ?thesis
        using al(1) n p1 holds_free [OF p1(2)] True False
        by (simp add: check_manifest_ent_def missing_page_def unshipped_pages_def ent_text_def Let_def shipped_fold)
    qed
  qed
qed

lemma check_pass_run:
  "holds_set 0 (mc_shiplist mc) S \<Longrightarrow> \<forall>e \<in> set es. named_ent e \<Longrightarrow>
   entries_run (check_manifest_ent A mem w) None (map Some es) mc = Inr (0, None,
     mc_report (concat (map (ent_text w (mc_flags mc) S) es)) (length (filter (missing_page w) es))
       (length (concat (map (unshipped_pages w S) es))) 0 mc)"
proof (induction es arbitrary: mc)
  case (Cons e es)
  have inv: "ent_text w fl S e = [] \<and> \<not> missing_page w e \<and> unshipped_pages w S e = []" if "me_type e = ME_TYPE_INVALID" for fl
    using that by (simp add: ent_text_def missing_page_def unshipped_pages_def command_ent_def shipped_file_def)
  show ?case
    using check_ent_run [OF Cons.prems(1), of e w] Cons.IH Cons.prems inv
    by (cases "me_type e = ME_TYPE_INVALID") simp_all
qed simp

end

section \<open>The pass over the directories\<close>

definition matched :: "ck_world \<Rightarrow> char list set \<Rightarrow> char list \<Rightarrow> bool" where
  "matched w P x \<longleftrightarrow> (\<exists>p \<in> P. ck_fnmatch w p x = FNM_match)"

text \<open>A text the growable string takes without its growth defect.\<close>

definition good_text :: "char list \<Rightarrow> bool" where
  "good_text t \<longleftrightarrow> nul_free t \<and> length t \<le> INT_MAX \<and> (\<forall>k. length t \<noteq> 64 * 2 ^ k)"

text \<open>The path of a page and of a section in the file system, and the name of a page in the manifest.\<close>

definition sect_path :: "char list \<Rightarrow> char list" where
  "sect_path sect = ''proto/usr/share/man'' @ ''/man'' @ sect"

definition page_path :: "char list \<Rightarrow> char list \<Rightarrow> char list" where
  "page_path sect d = sect_path sect @ ''/'' @ d"

definition ship_name :: "char list \<Rightarrow> char list \<Rightarrow> char list" where
  "ship_name sect d = ck_pdir @ ''/man'' @ sect @ ''/'' @ d"

definition listing :: "ck_world \<Rightarrow> char list \<Rightarrow> char list list" where
  "listing w path = (case ck_opendir w path of Inl _ \<Rightarrow> [] | Inr (names, _) \<Rightarrow> names)"

text \<open>The pages of a section that ought to be shipped and are not.\<close>

definition unshipped_in :: "ck_world \<Rightarrow> char list set \<Rightarrow> char list set \<Rightarrow> char list \<Rightarrow> char list list \<Rightarrow> char list list" where
  "unshipped_in w S P sect names =
     filter (\<lambda>d. \<not> special_name d \<and> ck_lstat w (page_path sect d) \<in> {Inr Kind_reg, Inr Kind_link} \<and> \<not> matched w P d \<and>
       ship_name sect d \<notin> S) names"

definition sect_line :: "char list \<Rightarrow> char list \<Rightarrow> char list" where
  "sect_line sect d = ''section '' @ sect @ '' page not shipped: '' @ page_path sect d @ [NL]"

text \<open>The directory of a section that can be read: \<^verbatim>\<open>lstat\<close> answers and the names fit the string buffer.\<close>

definition readable_sect :: "ck_world \<Rightarrow> char list \<Rightarrow> char list list \<Rightarrow> bool" where
  "readable_sect w sect names \<longleftrightarrow>
     (\<forall>d \<in> set names. special_name d \<or> good_text (page_path sect d) \<and> good_text (ship_name sect d) \<and>
        (\<exists>k. ck_lstat w (page_path sect d) = Inr k))"

definition whole_sections :: "ck_world \<Rightarrow> char list set \<Rightarrow> char list set \<Rightarrow> char list list \<Rightarrow> char list set" where
  "whole_sections w I E names =
     drop 3 ` {d \<in> set names. \<not> special_name d \<and> take 3 d = ''man'' \<and> \<not> matched w E (drop 3 d) \<and> matched w I (drop 3 d)}"

lemma append_good_text:
  assumes "good_alloc mem" "custr_dyn s cs" "good_text t"
  shows "\<exists>s0 s'. custr_reset s = Inr s0 \<and> custr_append_printf mem s0 (Inr t) = Inr (Ret_ok, s') \<and> custr_dyn s' t \<and> custr_cstr s' = Inr t"
proof -
  obtain s0 where s0: "custr_reset s = Inr s0" "custr_dyn s0 []" using custr_reset_dyn [OF assms(2)] by blast
  have "double_until 64 (length t) \<noteq> length t" using assms(3) double_until_fixed_iff [of 64 "length t"] by (auto simp: good_text_def)
  then obtain s' where s': "custr_append_printf mem s0 (Inr t) = Inr (Ret_ok, s')" "custr_dyn s' t"
    using custr_append_rep [of s0 "[]" t mem] s0(2) assms(1,3) by (auto simp: custr_dyn_def custr_append_printf_def good_text_def)
  have "nul_free t" using assms(3) by (simp add: good_text_def)
  from custr_dyn_reads [OF s'(2) this] show ?thesis using s0(1) s' by auto
qed

lemma fold_count: "fold (\<lambda>x n. if Q x then n + 1 else n) xs n = n + int (length (filter Q xs))"
  by (induction xs arbitrary: n) auto

context set_heap
begin

lemma fnmatch_run:
  assumes "holds_set fl ss P" "\<forall>p \<in> P. ck_fnmatch w p x \<noteq> FNM_failure"
  shows "\<exists>n. strset_fnmatch A w ss x = Inr n \<and> (0 < n \<longleftrightarrow> matched w P x)"
proof -
  let ?Q = "\<lambda>p. ck_fnmatch w p x = FNM_match" and ?xs = "nodes (ss_strings ss)"
  have "strset_walk A (avl_numnodes A (ss_strings ss)) ss (strset_fnmatch_walker w x) 0 =
      Inr (Ret_ok, ss, fold (\<lambda>p n. if ?Q p then n + 1 else n) ?xs 0) \<and> True"
  proof (rule walk_fold [OF holds_nodes(1) [OF assms(1)], where I = "\<lambda>_. True"])
    fix ss' p n
    assume "p \<in> set ?xs"
    then have "ck_fnmatch w p x \<noteq> FNM_failure" using assms holds_nodes(2) by blast
    then show "strset_fnmatch_walker w x ss' p n = Inr (STRSET_WALK_NEXT, ss', if ?Q p then n + 1 else n) \<and> True"
      by (cases "ck_fnmatch w p x") (simp_all add: strset_fnmatch_walker_def)
  qed simp
  then show ?thesis
    using holds_nodes(2) [OF assms(1)]
    by (auto simp: strset_fnmatch_def fold_count matched_def filter_empty_conv)
qed

lemma whole_sect_entries_run:
  assumes "holds_set 0 sh S" "holds_set IGN pe P" "\<forall>p \<in> P. \<forall>x. ck_fnmatch w p x \<noteq> FNM_failure"
  shows "mc_shiplist mc = sh \<Longrightarrow> mc_page_excludes mc = pe \<Longrightarrow> custr_dyn shipname t \<Longrightarrow> custr_dyn path u \<Longrightarrow> readable_sect w sect names \<Longrightarrow>
    whole_sect_entries A mem w sect (sect_path sect) fin names shipname path mc =
      Inr (fin, mc_report (concat (map (sect_line sect) (unshipped_in w S P sect names))) 0 0 (length (unshipped_in w S P sect names)) mc)"
proof (induction names arbitrary: shipname path mc t u)
  case (Cons d ds)
  have ds: "readable_sect w sect ds" using Cons.prems(5) by (simp add: readable_sect_def)
  show ?case
  proof (cases "special_name d")
    case True
    then show ?thesis using Cons.IH [OF Cons.prems(1-4) ds] by (simp add: unshipped_in_def)
  next
    case False
    then obtain k where d: "good_text (page_path sect d)" "good_text (ship_name sect d)" "ck_lstat w (page_path sect d) = Inr k"
      using Cons.prems(5) by (auto simp: readable_sect_def)
    obtain path0 path1 where p: "custr_reset path = Inr path0"
      "custr_append_printf mem path0 (Inr (page_path sect d)) = Inr (Ret_ok, path1)" "custr_dyn path1 (page_path sect d)"
      "custr_cstr path1 = Inr (page_path sect d)"
      using append_good_text [OF good Cons.prems(4) d(1)] by blast
    obtain n where n: "strset_fnmatch A w (mc_page_excludes mc) d = Inr n" "0 < n \<longleftrightarrow> matched w P d"
      using fnmatch_run [OF assms(2), of w d] assms(3) Cons.prems(2) by auto
    obtain s0 s1 where s: "custr_reset shipname = Inr s0"
      "custr_append_printf mem s0 (Inr (ship_name sect d)) = Inr (Ret_ok, s1)" "custr_dyn s1 (ship_name sect d)"
      "custr_cstr s1 = Inr (ship_name sect d)"
      using append_good_text [OF good Cons.prems(3) d(2)] by blast
    have c: "strset_contains A (mc_shiplist mc) (Some (ship_name sect d)) = Inr (ship_name sect d \<in> S)"
      using holds_contains [OF assms(1)] Cons.prems(1) by simp
    note path = p(2) [unfolded page_path_def] p(4) [unfolded page_path_def] d(3) [unfolded page_path_def] and ship = s(2) [unfolded ship_name_def]
      s(4) [unfolded ship_name_def] c [unfolded ship_name_def]
    let ?mc = "if ship_name sect d \<in> S then mc else mc_report (sect_line sect d) 0 0 1 mc"
    have mc: "mc_shiplist ?mc = sh" "mc_page_excludes ?mc = pe" using Cons.prems(1,2) by simp_all
    have eq: "(if ship_name sect d \<in> S then mc else (mc_print (''section '' @ sect @ '' page not shipped: '' @ page_path sect d @ [NL]) mc)
        \<lparr>mc_cnt_whole_sects := mc_cnt_whole_sects mc + 1\<rparr>) = ?mc"
      by (simp add: mc_report_def mc_print_def sect_line_def)
    show ?thesis
    proof (cases "k \<in> {Kind_reg, Kind_link} \<and> \<not> matched w P d")
      case False
      then have "whole_sect_entries A mem w sect (sect_path sect) fin (d # ds) shipname path mc =
          whole_sect_entries A mem w sect (sect_path sect) fin ds shipname path1 mc"
        using \<open>\<not> special_name d\<close> p(1) path n by (auto simp: page_path_def)
      then show ?thesis
        using Cons.IH [OF Cons.prems(1-3) p(3) ds] False d(3) by (auto simp: unshipped_in_def)
    next
      case True
      then have "whole_sect_entries A mem w sect (sect_path sect) fin (d # ds) shipname path mc =
          whole_sect_entries A mem w sect (sect_path sect) fin ds s1 path1 ?mc"
        using \<open>\<not> special_name d\<close> p(1) path n s(1) ship eq [unfolded page_path_def ship_name_def] by (auto simp: page_path_def ship_name_def)
      then show ?thesis
        using Cons.IH [OF mc s(3) p(3) ds] True d(3) \<open>\<not> special_name d\<close> by (auto simp: unshipped_in_def)
    qed
  qed
qed (simp add: unshipped_in_def)

end

text \<open>What the pass reports of the given sections.\<close>

definition whole_unshipped :: "ck_world \<Rightarrow> char list set \<Rightarrow> char list set \<Rightarrow> char list list \<Rightarrow> (char list \<times> char list) list" where
  "whole_unshipped w S P sects =
     concat (map (\<lambda>sect. map (Pair sect) (unshipped_in w S P sect (listing w (sect_path sect)))) sects)"

definition whole_text :: "(char list \<times> char list) list \<Rightarrow> char list" where
  "whole_text ps = concat (map (\<lambda>(sect, d). sect_line sect d) ps)"

lemma whole_text_append [simp]: "whole_text (xs @ ys) = whole_text xs @ whole_text ys"
  by (simp add: whole_text_def)

lemma whole_text_sect: "whole_text (map (Pair sect) ds) = concat (map (sect_line sect) ds)"
  by (simp add: whole_text_def comp_def)

context set_heap
begin

lemma whole_sect_run:
  assumes "holds_set 0 (mc_shiplist mc) S" "holds_set IGN (mc_page_excludes mc) P" "\<forall>p \<in> P. \<forall>x. ck_fnmatch w p x \<noteq> FNM_failure"
    and "good_text (sect_path sect)" "readable_sect w sect (listing w (sect_path sect))" "custr_dyn tmp t"
  shows "\<exists>tmp'. check_whole_sect_paths A mem w sect cm_mpaths tmp mc =
      Inr (tmp', mc_report (whole_text (whole_unshipped w S P [sect])) 0 0 (length (whole_unshipped w S P [sect])) mc) \<and>
    (\<exists>u. custr_dyn tmp' u)"
proof -
  obtain t0 t1 where t: "custr_reset tmp = Inr t0" "custr_append_printf mem t0 (Inr (sect_path sect)) = Inr (Ret_ok, t1)"
    "custr_dyn t1 (sect_path sect)" "custr_cstr t1 = Inr (sect_path sect)"
    using append_good_text [OF good assms(6,4)] by blast
  obtain c where c: "custr_alloc mem = (Ret_ok, Some c)" "custr_dyn c []" using custr_alloc_dyn [OF good] by blast
  have "\<exists>r. check_whole_sect_dir A mem w sect (sect_path sect) mc = Inr (r, mc_report (whole_text (whole_unshipped w S P [sect])) 0 0
      (length (whole_unshipped w S P [sect])) mc)"
  proof (cases "ck_opendir w (sect_path sect)")
    case (Inl e)
    then show ?thesis by (simp add: check_whole_sect_dir_def whole_unshipped_def listing_def unshipped_in_def whole_text_def)
  next
    case (Inr nf)
    obtain names fin where nf: "nf = (names, fin)" by (cases nf)
    have l: "listing w (sect_path sect) = names" using Inr nf by (simp add: listing_def)
    have "whole_unshipped w S P [sect] = map (Pair sect) (unshipped_in w S P sect names)" by (simp add: whole_unshipped_def l)
    then show ?thesis
      using whole_sect_entries_run [OF assms(1-3) refl refl c(2,2), of sect names fin] assms(5) Inr nf l c(1)
      by (simp add: check_whole_sect_dir_def whole_text_sect)
  qed
  then show ?thesis
    using t(1,3,4) t(2) by (auto simp: cm_mpaths_def sect_path_def)
qed

lemma collect_sects_run:
  assumes "holds_set IGN (mc_section_includes mc) I" "holds_set IGN (mc_section_excludes mc) E"
    and "\<forall>p \<in> I \<union> E. \<forall>x. ck_fnmatch w p x \<noteq> FNM_failure"
  shows "holds_set IGN ws W \<Longrightarrow>
    \<exists>ws'. collect_sects A mem w mc names ws = Inr (None, ws') \<and> holds_set IGN ws' (W \<union> whole_sections w I E names)"
proof (induction names arbitrary: ws W)
  case Nil
  then show ?case by (simp add: whole_sections_def)
next
  case (Cons d ds)
  let ?take = "\<not> special_name d \<and> take 3 d = ''man'' \<and> \<not> matched w E (drop 3 d) \<and> matched w I (drop 3 d)"
  obtain m n where m: "strset_fnmatch A w (mc_section_excludes mc) (drop 3 d) = Inr m" "0 < m \<longleftrightarrow> matched w E (drop 3 d)"
    and n: "strset_fnmatch A w (mc_section_includes mc) (drop 3 d) = Inr n" "0 < n \<longleftrightarrow> matched w I (drop 3 d)"
    using fnmatch_run [OF assms(2), of w "drop 3 d"] fnmatch_run [OF assms(1), of w "drop 3 d"] assms(3) by auto
  show ?case
  proof (cases ?take)
    case True
    obtain ws1 where ws1: "strset_add A mem ws (Some (drop 3 d)) = Inr (Ret_ok, ws1)" "holds_set IGN ws1 (insert (drop 3 d) W)"
      using holds_add_dup [OF Cons.prems] by blast
    have "W \<union> whole_sections w I E (d # ds) = insert (drop 3 d) W \<union> whole_sections w I E ds"
      using True by (auto simp: whole_sections_def)
    then show ?thesis using Cons.IH [OF ws1(2)] True m n ws1(1) by simp
  next
    case False
    then have "{x \<in> set (d # ds). \<not> special_name x \<and> take 3 x = ''man'' \<and> \<not> matched w E (drop 3 x) \<and> matched w I (drop 3 x)} =
        {x \<in> set ds. \<not> special_name x \<and> take 3 x = ''man'' \<and> \<not> matched w E (drop 3 x) \<and> matched w I (drop 3 x)}" by auto
    then have "whole_sections w I E (d # ds) = whole_sections w I E ds" by (simp only: whole_sections_def)
    moreover have "collect_sects A mem w mc (d # ds) ws = collect_sects A mem w mc ds ws" using False m n by auto
    ultimately show ?thesis using Cons.IH [OF Cons.prems] by simp
  qed
qed

lemma whole_walk_run:
  assumes "holds_set IGN ws W" "holds_set 0 (mc_shiplist mc) S" "holds_set IGN (mc_page_excludes mc) P"
    and "\<forall>p \<in> P. \<forall>x. ck_fnmatch w p x \<noteq> FNM_failure"
    and "\<forall>sect \<in> W. good_text (sect_path sect) \<and> readable_sect w sect (listing w (sect_path sect))" "custr_dyn tmp t"
    and "sorted_wrt (\<lambda>x y. strcmp x y < 0) sects" "set sects = W"
  shows "\<exists>tmp'. strset_walk A (avl_numnodes A (ss_strings ws)) ws (check_whole_sect A mem w) (tmp, mc) =
    Inr (Ret_ok, ws, tmp', mc_report (whole_text (whole_unshipped w S P sects)) 0 0 (length (whole_unshipped w S P sects)) mc)"
proof -
  have nodes: "nodes (ss_strings ws) = sects"
    using sorted_strcmp_unique [OF holds_nodes(3) [OF assms(1)] assms(7)] holds_nodes(2) [OF assms(1)] assms(8) by blast
  define f where "f = (\<lambda>sect a. case check_whole_sect_paths A mem w sect cm_mpaths (fst a) (snd a) of Inr st \<Rightarrow> st | Inl _ \<Rightarrow> a)"
  let ?J = "\<lambda>a :: custr \<times> 't mancheck. (\<exists>t. custr_dyn (fst a) t) \<and> mc_shiplist (snd a) = mc_shiplist mc \<and>
    mc_page_excludes (snd a) = mc_page_excludes mc"
  let ?r = "\<lambda>xs m. mc_report (whole_text (whole_unshipped w S P xs)) 0 0 (length (whole_unshipped w S P xs)) m"
  have step: "check_whole_sect_paths A mem w x cm_mpaths (fst a) (snd a) = Inr (f x a) \<and> ?J (f x a) \<and>
      snd (f x a) = ?r [x] (snd a)" if "x \<in> W" "?J a" for x a
  proof -
    note J = that(2)
    obtain u where u: "custr_dyn (fst a) u" using J by blast
    have "holds_set 0 (mc_shiplist (snd a)) S" "holds_set IGN (mc_page_excludes (snd a)) P" using that(2) assms(2,3) by simp_all
    from whole_sect_run [OF this assms(4) _ _ u, of x] show ?thesis using assms(5) that by (auto simp: f_def)
  qed
  have "strset_walk A (avl_numnodes A (ss_strings ws)) ws (check_whole_sect A mem w) (tmp, mc) =
      Inr (Ret_ok, ws, fold f (nodes (ss_strings ws)) (tmp, mc)) \<and> ?J (fold f (nodes (ss_strings ws)) (tmp, mc))"
  proof (rule walk_fold [OF holds_nodes(1) [OF assms(1)], where I = ?J])
    show "?J (tmp, mc)" using assms(6) by auto
    fix ss' x a
    assume "x \<in> set (nodes (ss_strings ws))" "?J a"
    then show "check_whole_sect A mem w ss' x a = Inr (STRSET_WALK_NEXT, ss', f x a) \<and> ?J (f x a)"
      using step [of x a] holds_nodes(2) [OF assms(1)] by (simp add: check_whole_sect_def)
  qed
  moreover have "set xs \<subseteq> W \<Longrightarrow> ?J a \<Longrightarrow> snd (fold f xs a) = ?r xs (snd a)" for xs a
  proof (induction xs arbitrary: a)
    case Nil
    then show ?case by (simp add: whole_unshipped_def whole_text_def)
  next
    case (Cons x xs)
    have "whole_unshipped w S P (x # xs) = whole_unshipped w S P [x] @ whole_unshipped w S P xs" by (simp add: whole_unshipped_def)
    moreover have "x \<in> W" "set xs \<subseteq> W" using Cons.prems(1) by auto
    ultimately show ?case using Cons.IH [of "f x a"] step [of x a] Cons.prems(2) by simp
  qed
  from this [of sects "(tmp, mc)"] have "snd (fold f sects (tmp, mc)) = ?r sects mc" using assms(6,8) by auto
  ultimately show ?thesis by (metis nodes prod.collapse)
qed

lemma whole_pass_run:
  assumes "holds_set 0 (mc_shiplist mc) S" "cfg_sets mc I E P" "\<forall>p \<in> I \<union> E \<union> P. \<forall>x. ck_fnmatch w p x \<noteq> FNM_failure"
    and "ck_opendir w ''proto/usr/share/man'' = Inr (names, fin)"
    and "sorted_wrt (\<lambda>x y. strcmp x y < 0) sects" "set sects = whole_sections w I E names"
    and "\<forall>sect \<in> set sects. good_text (sect_path sect) \<and> readable_sect w sect (listing w (sect_path sect))"
  shows "check_whole_sects A mem w mc =
    Inr (Ret_ok, mc_report (whole_text (whole_unshipped w S P sects)) 0 0 (length (whole_unshipped w S P sects)) mc)"
proof -
  obtain c where c: "custr_alloc mem = (Ret_ok, Some c)" "custr_dyn c []" using custr_alloc_dyn [OF good] by blast
  obtain ws where ws: "strset_alloc A mem IGN = (Ret_ok, Some ws)" "holds_set IGN ws {}" using holds_alloc [OF flags_plain(2)] by blast
  obtain ws1 where ws1: "collect_sects A mem w mc names ws = Inr (None, ws1)" "holds_set IGN ws1 (whole_sections w I E names)"
    using collect_sects_run [OF _ _ _ ws(2), of mc I E w names] assms(2,3) by (auto simp: cfg_sets_def)
  have "\<exists>tmp'. strset_walk A (avl_numnodes A (ss_strings ws1)) ws1 (check_whole_sect A mem w) (c, mc) =
      Inr (Ret_ok, ws1, tmp', mc_report (whole_text (whole_unshipped w S P sects)) 0 0 (length (whole_unshipped w S P sects)) mc)"
    by (rule whole_walk_run [OF ws1(2) assms(1) _ _ _ c(2) assms(5,6)]) (use assms in \<open>auto simp: cfg_sets_def\<close>)
  then show ?thesis
    using c(1) ws(1) ws1(1) holds_free [OF ws1(2)] assms(4) by (auto simp: check_whole_sects_def cm_mpaths_def)
qed

end

section \<open>Options and configuration\<close>

definition option_letters :: "(char \<times> char list) list \<Rightarrow> char set" where
  "option_letters opts = fst ` set opts"

definition opts_flags :: "(char \<times> char list) list \<Rightarrow> 32 word" where
  "opts_flags opts =
     (if CHR ''s'' \<in> option_letters opts then 0 else MCF_DONT_EXIST) OR
     (if CHR ''m'' \<in> option_letters opts then 0 else MCF_NOT_SHIPPED) OR
     (if CHR ''c'' \<in> option_letters opts then MCF_WHOLE_SECTS else 0)"

definition config_args :: "(char \<times> char list) list \<Rightarrow> char list set" where
  "config_args opts = {a. (CHR ''c'', a) \<in> set opts}"

text \<open>The manifest: the argument of the last \<^verbatim>\<open>-f\<close>, if there is one.\<close>

fun manifest_arg :: "(char \<times> char list) list \<Rightarrow> char list option \<Rightarrow> char list option" where
  "manifest_arg [] old = old"
| "manifest_arg ((c, a) # opts) old = manifest_arg opts (if c = CHR ''f'' then Some a else old)"

lemma opts_flags_tests:
  "opts_flags opts AND MCF_DONT_EXIST \<noteq> 0 \<longleftrightarrow> CHR ''s'' \<notin> option_letters opts"
  "opts_flags opts AND MCF_NOT_SHIPPED \<noteq> 0 \<longleftrightarrow> CHR ''m'' \<notin> option_letters opts"
  "opts_flags opts AND MCF_WHOLE_SECTS \<noteq> 0 \<longleftrightarrow> CHR ''c'' \<in> option_letters opts"
  "opts_flags opts AND MCF_DUMP_CONFIG = 0" "opts_flags opts \<noteq> MCF_DUMP_CONFIG"
  by (simp_all add: opts_flags_def MCF_DONT_EXIST_def MCF_NOT_SHIPPED_def MCF_WHOLE_SECTS_def MCF_DUMP_CONFIG_def)

text \<open>A configuration file that can be read and consists of the given directives.\<close>

definition readable_config :: "config_file \<Rightarrow> directive list \<Rightarrow> bool" where
  "readable_config f ds \<longleftrightarrow> cf_open f = None \<and> cf_regular f \<and> cf_error f = None \<and> (\<forall>d \<in> set ds. directive_ok d) \<and>
     (\<exists>tail. cf_chars f = concat (map directive_text ds) @ fillers tail \<and> (\<forall>x \<in> set tail. filler_ok x))"

definition conf_values :: "directive_kind \<Rightarrow> (char list \<Rightarrow> directive list) \<Rightarrow> char list set \<Rightarrow> char list set" where
  "conf_values k conf C = (\<Union>p \<in> C. values_of k (conf p))"

lemma read_config_any_set:
  "read_config_file A mem w ss path mc = Inr (r, ss, m) \<Longrightarrow> read_config_file A mem w ss' path mc = Inr (r, ss', m)"
  by (auto simp: read_config_file_def Let_def bindr_eq_Inr_iff split: prod.splits cret.splits option.splits if_splits)

context set_heap
begin

lemma ck_getopt_run:
  "set (map fst opts) \<subseteq> set ''cfms'' \<Longrightarrow> holds_set IGN (mc_config_paths mc) C \<Longrightarrow> 0 \<le> of_m fl \<Longrightarrow> 0 \<le> of_s fl \<Longrightarrow>
   \<exists>fl' cp. ck_getopt_loop A mem opts fl mc = Inr (fl', mc\<lparr>mc_manifest_path := manifest_arg opts (mc_manifest_path mc), mc_config_paths := cp\<rparr>) \<and>
     holds_set IGN cp (C \<union> config_args opts) \<and> of_D fl' = of_D fl \<and>
     (0 < of_m fl' \<longleftrightarrow> 0 < of_m fl \<or> CHR ''m'' \<in> option_letters opts) \<and> (0 < of_s fl' \<longleftrightarrow> 0 < of_s fl \<or> CHR ''s'' \<in> option_letters opts)"
proof (induction opts arbitrary: mc fl C)
  case Nil
  then show ?case by (auto simp: option_letters_def config_args_def intro!: exI [of _ "mc_config_paths mc"])
next
  case (Cons opt opts)
  obtain c a where opt: "opt = (c, a)" by (cases opt)
  have c: "c \<in> {CHR ''c'', CHR ''f'', CHR ''m'', CHR ''s''}" and opts: "set (map fst opts) \<subseteq> set ''cfms''"
    using Cons.prems(1) opt by auto
  have letters: "option_letters (opt # opts) = insert c (option_letters opts)" using opt by (simp add: option_letters_def)
  have args: "config_args (opt # opts) = (if c = CHR ''c'' then insert a (config_args opts) else config_args opts)"
    using opt by (auto simp: config_args_def)
  consider "c = CHR ''c''" | "c = CHR ''f''" | "c = CHR ''m''" | "c = CHR ''s''" using c by blast
  then show ?case
  proof cases
    case 1
    obtain cp where cp: "strset_add A mem (mc_config_paths mc) (Some a) = Inr (Ret_ok, cp)" "holds_set IGN cp (insert a C)"
      using holds_add_dup [OF Cons.prems(2)] by blast
    then show ?thesis
      using Cons.IH [of "mc\<lparr>mc_config_paths := cp\<rparr>" "insert a C" fl] Cons.prems(3,4) opts opt 1 letters args by simp
  next
    case 2
    show ?thesis
      using Cons.IH [of "mc\<lparr>mc_manifest_path := strdup mem a\<rparr>" C fl] Cons.prems(2-4) opts opt 2 letters args strdup_good [OF good, of a]
      by simp
  next
    case 3
    show ?thesis using Cons.IH [of mc C "fl\<lparr>of_m := of_m fl + 1\<rparr>"] Cons.prems(2-4) opts opt 3 letters args by simp
  next
    case 4
    show ?thesis using Cons.IH [of mc C "fl\<lparr>of_s := of_s fl + 1\<rparr>"] Cons.prems(2-4) opts opt 4 letters args by simp
  qed
qed

lemma ck_options_run:
  assumes "set (map fst opts) \<subseteq> set ''cfms''" "\<not> {CHR ''m'', CHR ''s''} \<subseteq> option_letters opts"
    and "manifest_arg opts None = Some path" "path \<noteq> []" "length opts < 2 ^ 31"
    and "holds_set IGN (mc_config_paths mc) {}" "mc_flags mc = 0" "mc_manifest_path mc = None"
  shows "\<exists>cp. ck_parse_opts A mem opts mc =
      Inr (mc\<lparr>mc_flags := opts_flags opts, mc_manifest_path := Some path, mc_config_paths := cp\<rparr>) \<and>
    holds_set IGN cp (config_args opts)"
proof -
  obtain fl cp where run: "ck_getopt_loop A mem opts \<lparr>of_m = 0, of_s = 0, of_D = 0\<rparr> mc =
      Inr (fl, mc\<lparr>mc_manifest_path := Some path, mc_config_paths := cp\<rparr>)"
    "holds_set IGN cp (config_args opts)" "of_D fl = 0" "0 < of_m fl \<longleftrightarrow> CHR ''m'' \<in> option_letters opts"
    "0 < of_s fl \<longleftrightarrow> CHR ''s'' \<in> option_letters opts"
    using ck_getopt_run [OF assms(1,6), of "\<lparr>of_m = 0, of_s = 0, of_D = 0\<rparr>"] assms(3,8) by auto
  have "config_args opts \<subseteq> snd ` set opts" by (force simp: config_args_def)
  then have card: "card (config_args opts) < 2 ^ 31" and fin: "finite (config_args opts)"
    using card_mono [of "snd ` set opts" "config_args opts"] card_image_le [of "set opts" snd] card_length [of opts] assms(5)
      finite_subset [of "config_args opts" "snd ` set opts"] by (auto simp del: card_length intro: le_less_trans order_trans)
  have "0 < strset_count A cp \<longleftrightarrow> config_args opts \<noteq> {}"
    using holds_nodes(4) [OF run(2)] int32_of_id [of "int (card (config_args opts))"] card fin
    by (simp add: strset_count_def card_gt_0_iff)
  moreover have "config_args opts \<noteq> {} \<longleftrightarrow> CHR ''c'' \<in> option_letters opts"
    by (auto simp: config_args_def option_letters_def image_iff) (metis fst_conv surj_pair)
  ultimately have cnt: "0 < strset_count A cp \<longleftrightarrow> CHR ''c'' \<in> option_letters opts" by simp
  show ?thesis
    using run(1,3) assms(2,4,7) cnt
    by (auto simp: ck_parse_opts_def run(2,4,5) opts_flags_def Let_def MCF_DONT_EXIST_def MCF_NOT_SHIPPED_def MCF_WHOLE_SECTS_def
        intro!: exI [of _ cp])
qed

end

context set_heap
begin

lemma configs_run:
  assumes "holds_set IGN (mc_config_paths mc) C" "cfg_sets mc {} {} {}" "\<forall>p \<in> C. readable_config (ck_configs w p) (conf p)"
  shows "\<exists>mc'. strset_walk A (avl_numnodes A (ss_strings (mc_config_paths mc))) (mc_config_paths mc) (read_config_file A mem w) mc =
      Inr (Ret_ok, mc_config_paths mc, mc') \<and> same_but_config mc mc' \<and>
    cfg_sets mc' (conf_values Include_section conf C) (conf_values Exclude_section conf C) (conf_values Exclude_page conf C)"
proof -
  let ?cp = "mc_config_paths mc" and ?vals = "\<lambda>k ps. conf_values k conf (set ps)"
  define f where "f = (\<lambda>p m. case read_config_file A mem w ?cp p m of Inr (_, _, m') \<Rightarrow> m' | Inl _ \<Rightarrow> m)"
  have step: "read_config_file A mem w ss p m = Inr (STRSET_WALK_NEXT, ss, f p m) \<and> same_but_config m (f p m) \<and>
      cfg_sets (f p m) (values_of Include_section (conf p) \<union> I) (values_of Exclude_section (conf p) \<union> E) (values_of Exclude_page (conf p) \<union> P)"
    if "p \<in> C" "cfg_sets m I E P" for p m I E P ss
  proof -
    obtain tail where "cf_chars (ck_configs w p) = concat (map directive_text (conf p)) @ fillers tail" "\<forall>x \<in> set tail. filler_ok x"
      "cf_open (ck_configs w p) = None" "cf_regular (ck_configs w p)" "cf_error (ck_configs w p) = None" "\<forall>d \<in> set (conf p). directive_ok d"
      using assms(3) \<open>p \<in> C\<close> by (auto simp: readable_config_def)
    from config_file_run [OF this(3-5) refl this(1,6,2) \<open>cfg_sets m I E P\<close>, of ?cp] obtain m' where
      m': "read_config_file A mem w ?cp p m = Inr (STRSET_WALK_NEXT, ?cp, m')" "same_but_config m m'"
      "cfg_sets m' (values_of Include_section (conf p) \<union> I) (values_of Exclude_section (conf p) \<union> E) (values_of Exclude_page (conf p) \<union> P)"
      by blast
    then have "f p m = m'" by (simp add: f_def)
    then show ?thesis using m' read_config_any_set [OF m'(1), of ss] by simp
  qed
  have fold_sets: "set ps \<subseteq> C \<Longrightarrow> cfg_sets m I E P \<Longrightarrow> same_but_config m (fold f ps m) \<and>
      cfg_sets (fold f ps m) (?vals Include_section ps \<union> I) (?vals Exclude_section ps \<union> E) (?vals Exclude_page ps \<union> P)" for ps m I E P
  proof (induction ps arbitrary: m I E P)
    case Nil
    then show ?case by (simp add: conf_values_def same_but_config_refl)
  next
    case (Cons p ps)
    have p: "p \<in> C" "set ps \<subseteq> C" using Cons.prems(1) by auto
    have v: "?vals k (p # ps) \<union> X = ?vals k ps \<union> (values_of k (conf p) \<union> X)" for k X by (auto simp: conf_values_def)
    show ?case
      using Cons.IH [OF p(2), of "f p m"] step [OF p(1) Cons.prems(2)] same_but_config_trans unfolding v by fastforce
  qed
  have "strset_walk A (avl_numnodes A (ss_strings ?cp)) ?cp (read_config_file A mem w) mc =
      Inr (Ret_ok, ?cp, fold f (nodes (ss_strings ?cp)) mc) \<and> (\<exists>I E P. cfg_sets (fold f (nodes (ss_strings ?cp)) mc) I E P)"
  proof (rule walk_fold [OF holds_nodes(1) [OF assms(1)], where I = "\<lambda>m. \<exists>I E P. cfg_sets m I E P"])
    fix ss' p m
    assume "p \<in> set (nodes (ss_strings ?cp))" "\<exists>I E P. cfg_sets m I E P"
    then show "read_config_file A mem w ss' p m = Inr (STRSET_WALK_NEXT, ss', f p m) \<and> (\<exists>I E P. cfg_sets (f p m) I E P)"
      using step [of p m _ _ _ ss'] holds_nodes(2) [OF assms(1)] by blast
  qed (use assms(2) in blast)
  then show ?thesis using fold_sets [OF _ assms(2), of "nodes (ss_strings ?cp)"] holds_nodes(2) [OF assms(1)] by auto
qed

lemma init_run:
  "\<exists>mc. mancheck_init A mem = Inr mc \<and> mc_flags mc = 0 \<and> mc_manifest_path mc = None \<and> mc_stdout mc = [] \<and>
     mc_cnt_dont_exist mc = 0 \<and> mc_cnt_not_shipped mc = 0 \<and> mc_cnt_whole_sects mc = 0 \<and>
     holds_set IGN (mc_config_paths mc) {} \<and> holds_set 0 (mc_shiplist mc) {} \<and> cfg_sets mc {} {} {}"
proof -
  obtain s t where "strset_alloc A mem IGN = (Ret_ok, Some s)" "holds_set IGN s {}" "strset_alloc A mem 0 = (Ret_ok, Some t)" "holds_set 0 t {}"
    using holds_alloc [OF flags_plain(1)] holds_alloc [OF flags_plain(2)] by blast
  then show ?thesis by (simp add: mancheck_init_def cfg_sets_def)
qed

end

section \<open>The exit status\<close>

text \<open>The final counts only add to the output, and nothing when there is nothing to report.\<close>

lemma final_counts_status:
  "\<exists>summary. final_counts mc =
     (if (mc_flags mc AND MCF_WHOLE_SECTS \<noteq> 0 \<and> mc_cnt_whole_sects mc \<noteq> 0) \<or> (mc_flags mc AND MCF_DONT_EXIST \<noteq> 0 \<and> mc_cnt_dont_exist mc \<noteq> 0) \<or>
         (mc_flags mc AND MCF_NOT_SHIPPED \<noteq> 0 \<and> mc_cnt_not_shipped mc \<noteq> 0) then 60 else 0,
      mc_print summary mc) \<and>
   (\<not> (mc_flags mc AND MCF_WHOLE_SECTS \<noteq> 0 \<and> mc_cnt_whole_sects mc \<noteq> 0) \<and> \<not> (mc_flags mc AND MCF_DONT_EXIST \<noteq> 0 \<and> mc_cnt_dont_exist mc \<noteq> 0) \<and>
    \<not> (mc_flags mc AND MCF_NOT_SHIPPED \<noteq> 0 \<and> mc_cnt_not_shipped mc \<noteq> 0) \<longrightarrow> summary = [])"
proof -
  have p: "mc_print a (mc_print b mc) = mc_print (b @ a) mc" "mc_flags (mc_print a mc) = mc_flags mc" "mc_print [] mc = mc"
    for a b and mc :: "'a mancheck" by (simp_all add: mc_print_def)
  have "\<exists>s. final_count fl cnt label (e, r, mc_print t mc) = (e \<or> mc_flags mc AND fl \<noteq> 0 \<and> cnt \<noteq> 0,
      if mc_flags mc AND fl \<noteq> 0 \<and> cnt \<noteq> 0 then 60 else r, mc_print (t @ s) mc) \<and> (\<not> (mc_flags mc AND fl \<noteq> 0 \<and> cnt \<noteq> 0) \<longrightarrow> s = [])"
    for fl cnt label e r t by (auto simp: final_count_def p word_neq_0_conv)
  note step = this
  let ?W = "mc_flags mc AND MCF_WHOLE_SECTS \<noteq> 0 \<and> mc_cnt_whole_sects mc \<noteq> 0"
  let ?D = "mc_flags mc AND MCF_DONT_EXIST \<noteq> 0 \<and> mc_cnt_dont_exist mc \<noteq> 0"
  let ?N = "mc_flags mc AND MCF_NOT_SHIPPED \<noteq> 0 \<and> mc_cnt_not_shipped mc \<noteq> 0"
  obtain s1 where s1: "final_count MCF_WHOLE_SECTS (mc_cnt_whole_sects mc) ''unshipped manual pages from entirely shipped sections: ''
      (False, 0, mc_print [] mc) = (False \<or> ?W, if ?W then 60 else 0, mc_print ([] @ s1) mc)" "\<not> ?W \<longrightarrow> s1 = []"
    using step [of MCF_WHOLE_SECTS] by blast
  obtain s2 where s2: "final_count MCF_DONT_EXIST (mc_cnt_dont_exist mc) ''missing manual pages: ''
      (False \<or> ?W, if ?W then 60 else 0, mc_print ([] @ s1) mc) =
      ((False \<or> ?W) \<or> ?D, if ?D then 60 else if ?W then 60 else 0, mc_print (([] @ s1) @ s2) mc)" "\<not> ?D \<longrightarrow> s2 = []"
    using step [of MCF_DONT_EXIST] by blast
  obtain s3 where s3: "final_count MCF_NOT_SHIPPED (mc_cnt_not_shipped mc) ''unshipped manual pages: ''
      ((False \<or> ?W) \<or> ?D, if ?D then 60 else if ?W then 60 else 0, mc_print (([] @ s1) @ s2) mc) =
      (((False \<or> ?W) \<or> ?D) \<or> ?N, if ?N then 60 else if ?D then 60 else if ?W then 60 else 0, mc_print ((([] @ s1) @ s2) @ s3) mc)"
    "\<not> ?N \<longrightarrow> s3 = []"
    using step [of MCF_NOT_SHIPPED] by blast
  have "final_counts mc = (if ?N then 60 else if ?D then 60 else if ?W then 60 else 0, mc_print ((([] @ s1) @ s2) @ s3) mc)"
    unfolding final_counts_def using s1(1) s2(1) s3(1) by (simp only: p(3) snd_conv)
  then show ?thesis using s1(2) s2(2) s3(2) by (intro exI [of _ "(([] @ s1) @ s2) @ s3"]) simp
qed

lemma manifest_entries_named_ent: "manifest_entries mf es \<Longrightarrow> \<forall>e \<in> set es. named_ent e"
  unfolding manifest_entries_def named_ent_def by (metis (no_types, lifting) entry_spec_named image_iff list.set_map)

lemma ent_text_quiet:
  "\<not> (fl AND MCF_DONT_EXIST \<noteq> 0 \<and> missing_page w e) \<Longrightarrow> \<not> (fl AND MCF_NOT_SHIPPED \<noteq> 0 \<and> unshipped_pages w S e \<noteq> []) \<Longrightarrow> ent_text w fl S e = []"
  by (auto simp: ent_text_def)

lemma counter_zero: "n < 2 ^ 64 \<Longrightarrow> (of_nat n :: 64 word) = 0 \<longleftrightarrow> n = 0"
  by (auto simp: word_of_nat_eq_0_iff dest: nat_dvd_not_less)

lemma unshipped_at_most_two: "length (concat (map (unshipped_pages w S) es)) \<le> 2 * length es"
proof (induction es)
  case (Cons e es)
  have "length (unshipped_pages w S e) \<le> length (pages_of w (ent_name e))" by (simp add: unshipped_pages_def)
  also have "\<dots> \<le> 2" by (simp add: pages_of_def Let_def)
  finally show ?case using Cons by simp
qed simp

context set_heap
begin

lemma passes_run:
  assumes mc: "holds_set 0 (mc_shiplist mc) {}" "cfg_sets mc I E P" "mc_manifest_path mc = Some path" "mc_flags mc = fl" "mc_stdout mc = []"
      "mc_cnt_dont_exist mc = 0" "mc_cnt_not_shipped mc = 0" "mc_cnt_whole_sects mc = 0"
    and es: "manifest_entries (ck_manifests w path) es" "S = set (ship_names es)"
    and fnm: "\<forall>p \<in> I \<union> E \<union> P. \<forall>x. ck_fnmatch w p x \<noteq> FNM_failure"
    and dir: "ck_opendir w ''proto/usr/share/man'' = Inr (names, fin)"
    and sects: "sorted_wrt (\<lambda>x y. strcmp x y < 0) sects" "set sects = whole_sections w I E names"
      "\<forall>sect \<in> set sects. good_text (sect_path sect) \<and> readable_sect w sect (listing w (sect_path sect))"
  shows "if distinct (ship_names es)
    then \<exists>sh. mancheck_passes A mem w mc = Inr (final_counts (mc_report
        (concat (map (ent_text w fl S) es) @ whole_text (whole_unshipped w S P sects)) (length (filter (missing_page w) es))
        (length (concat (map (unshipped_pages w S) es))) (length (whole_unshipped w S P sects)) (mc\<lparr>mc_shiplist := sh\<rparr>))) \<and> holds_set 0 sh S
    else mancheck_passes A mem w mc = Inl (Fault_Exit 1)"
proof -
  note named = manifest_entries_named_ent [OF es(1)] and read = read_entries_run [OF good es(1)]
  show ?thesis
  proof (cases "distinct (ship_names es)")
    case True
    obtain sh where sh: "entries_run (populate_shiplist A mem) None (map Some es) mc = Inr (0, None, mc\<lparr>mc_shiplist := sh\<rparr>)" "holds_set 0 sh S"
      using populate_ship_run [OF mc(1) named] True es(2) by auto
    let ?mc1 = "mc\<lparr>mc_shiplist := sh\<rparr>"
    let ?mc2 = "mc_report (concat (map (ent_text w fl S) es)) (length (filter (missing_page w) es)) (length (concat (map (unshipped_pages w S) es))) 0 ?mc1"
    have pass: "entries_run (check_manifest_ent A mem w) None (map Some es) ?mc1 = Inr (0, None, ?mc2)"
      using check_pass_run [of ?mc1 S es w] sh(2) named mc(4) by simp
    have "holds_set 0 (mc_shiplist ?mc2) S" "cfg_sets ?mc2 I E P" using sh(2) mc(2) by (simp_all add: cfg_sets_def)
    from whole_pass_run [OF this fnm dir sects] have "mancheck_passes A mem w mc = Inr (final_counts (mc_report
        (concat (map (ent_text w fl S) es) @ whole_text (whole_unshipped w S P sects)) (length (filter (missing_page w) es))
        (length (concat (map (unshipped_pages w S) es))) (length (whole_unshipped w S P sects)) ?mc1))"
      using sh(1) pass mc(3) by (simp add: mancheck_passes_def read)
    then show ?thesis using True sh(2) by auto
  next
    case False
    then show ?thesis using populate_ship_run [OF mc(1) named] mc(3) by (simp add: mancheck_passes_def read)
  qed
qed

end

text \<open>The run up to the passes: options, configuration.\<close>

context set_heap
begin

lemma main_start:
  assumes opts: "set (map fst opts) \<subseteq> set ''cfms''" "\<not> {CHR ''m'', CHR ''s''} \<subseteq> option_letters opts"
      "manifest_arg opts None = Some path" "path \<noteq> []" "length opts < 2 ^ 31" "\<not> ck_abort_on_exit w"
    and conf: "\<forall>p \<in> config_args opts. readable_config (ck_configs w p) (conf p)"
  shows "\<exists>mc. mancheck_main A mem w opts = bindr (mancheck_passes A mem w mc) (\<lambda>(rval, mc).
        bindr (mancheck_reset A mc) (\<lambda>_. Inr (rval, mc_stdout mc))) \<and>
      mc_flags mc = opts_flags opts \<and> mc_manifest_path mc = Some path \<and> mc_stdout mc = [] \<and> mc_cnt_dont_exist mc = 0 \<and>
      mc_cnt_not_shipped mc = 0 \<and> mc_cnt_whole_sects mc = 0 \<and> holds_set 0 (mc_shiplist mc) {} \<and>
      holds_set IGN (mc_config_paths mc) (config_args opts) \<and>
      cfg_sets mc (conf_values Include_section conf (config_args opts)) (conf_values Exclude_section conf (config_args opts))
        (conf_values Exclude_page conf (config_args opts))"
proof -
  obtain mc0 where mc0: "mancheck_init A mem = Inr mc0" "mc_flags mc0 = 0" "mc_manifest_path mc0 = None" "mc_stdout mc0 = []"
    "mc_cnt_dont_exist mc0 = 0" "mc_cnt_not_shipped mc0 = 0" "mc_cnt_whole_sects mc0 = 0"
    "holds_set IGN (mc_config_paths mc0) {}" "holds_set 0 (mc_shiplist mc0) {}" "cfg_sets mc0 {} {} {}"
    using init_run by blast
  obtain cp where cp: "ck_parse_opts A mem opts mc0 =
      Inr (mc0\<lparr>mc_flags := opts_flags opts, mc_manifest_path := Some path, mc_config_paths := cp\<rparr>)"
    "holds_set IGN cp (config_args opts)"
    using ck_options_run [OF opts(1-5) mc0(8,2,3)] by blast
  let ?mc1 = "mc0\<lparr>mc_flags := opts_flags opts, mc_manifest_path := Some path, mc_config_paths := cp\<rparr>"
  have "holds_set IGN (mc_config_paths ?mc1) (config_args opts)" "cfg_sets ?mc1 {} {} {}" using cp(2) mc0(10) by (simp_all add: cfg_sets_def)
  from configs_run [OF this conf] obtain mc2 where
    walk: "strset_walk A (avl_numnodes A (ss_strings cp)) cp (read_config_file A mem w) ?mc1 = Inr (Ret_ok, cp, mc2)"
    and same: "same_but_config ?mc1 mc2" and mc2: "cfg_sets mc2 (conf_values Include_section conf (config_args opts))
      (conf_values Exclude_section conf (config_args opts)) (conf_values Exclude_page conf (config_args opts))"
    by auto
  have fields: "mc_flags mc2 = opts_flags opts" "mc_manifest_path mc2 = Some path" "mc_stdout mc2 = []"
    "mc_cnt_dont_exist mc2 = 0" "mc_cnt_not_shipped mc2 = 0" "mc_cnt_whole_sects mc2 = 0" "mc_shiplist mc2 = mc_shiplist mc0"
    using same mc0(4-7) by (auto simp: same_but_config_def)
  have "mancheck_main A mem w opts = bindr (mancheck_passes A mem w (mc2\<lparr>mc_config_paths := cp\<rparr>)) (\<lambda>(rval, mc).
      bindr (mancheck_reset A mc) (\<lambda>_. Inr (rval, mc_stdout mc)))"
    using mc0(1) cp(1) walk fields(1) opts(6) opts_flags_tests(4,5) [of opts] by (simp add: mancheck_main_def Let_def)
  then show ?thesis
    using fields mc0(9) cp(2) mc2 by (intro exI [of _ "mc2\<lparr>mc_config_paths := cp\<rparr>"]) (simp add: cfg_sets_def)
qed

end

text \<open>Without the option \<^verbatim>\<open>-c\<close> no section is checked as a whole.\<close>

lemma whole_needs_config:
  assumes "whole_unshipped w S P sects \<noteq> []"
    and "set sects = whole_sections w (conf_values Include_section conf (config_args opts)) E names"
  shows "CHR ''c'' \<in> option_letters opts"
proof (rule ccontr)
  assume "CHR ''c'' \<notin> option_letters opts"
  then have "config_args opts = {}" by (force simp: config_args_def option_letters_def)
  then have "set sects = {}" using assms(2) by (simp add: conf_values_def whole_sections_def matched_def)
  then show False using assms(1) by (simp add: whole_unshipped_def)
qed

text \<open>The last step: from the counters to the status.\<close>

lemma report_status:
  assumes mc: "mc_flags mc = opts_flags opts" "mc_stdout mc = []" "mc_cnt_dont_exist mc = 0" "mc_cnt_not_shipped mc = 0" "mc_cnt_whole_sects mc = 0"
    and len: "length es < 2 ^ 63" "length ps < 2 ^ 64" and c: "ps \<noteq> [] \<longrightarrow> CHR ''c'' \<in> option_letters opts"
    and bad: "bad \<longleftrightarrow> ps \<noteq> [] \<or> CHR ''s'' \<notin> option_letters opts \<and> (\<exists>e \<in> set es. missing_page w e) \<or>
      CHR ''m'' \<notin> option_letters opts \<and> (\<exists>e \<in> set es. unshipped_pages w S e \<noteq> [])"
    and mc': "mc' = mc_report (concat (map (ent_text w (opts_flags opts) S) es) @ whole_text ps) (length (filter (missing_page w) es))
      (length (concat (map (unshipped_pages w S) es))) (length ps) mc"
  shows "\<exists>summary. final_counts mc' = (if bad then 60 else 0, mc_print summary mc') \<and>
    mc_stdout (mc_print summary mc') = concat (map (ent_text w (opts_flags opts) S) es) @ whole_text ps @ summary \<and>
    (\<not> bad \<longrightarrow> mc_stdout (mc_print summary mc') = [])"
proof -
  have "length (filter (missing_page w) es) < 2 ^ 64" "length (concat (map (unshipped_pages w S) es)) < 2 ^ 64"
    using len(1) unshipped_at_most_two [of w S es] le_less_trans [OF length_filter_le, of es "2 ^ 64" "missing_page w"] by auto
  then have cnt: "mc_cnt_dont_exist mc' \<noteq> 0 \<longleftrightarrow> (\<exists>e \<in> set es. missing_page w e)"
    "mc_cnt_not_shipped mc' \<noteq> 0 \<longleftrightarrow> (\<exists>e \<in> set es. unshipped_pages w S e \<noteq> [])" "mc_cnt_whole_sects mc' \<noteq> 0 \<longleftrightarrow> ps \<noteq> []"
    using len(2) counter_zero [of "length (filter (missing_page w) es)"] counter_zero [of "length (concat (map (unshipped_pages w S) es))"]
      counter_zero [of "length ps"] mc(3-5)
    by (simp_all add: mc' mc_report_def filter_empty_conv del: length_concat)
  have fl: "mc_flags mc' = opts_flags opts" using mc(1) by (simp add: mc')
  let ?W = "CHR ''c'' \<in> option_letters opts \<and> ps \<noteq> []" and ?D = "CHR ''s'' \<notin> option_letters opts \<and> (\<exists>e \<in> set es. missing_page w e)"
    and ?N = "CHR ''m'' \<notin> option_letters opts \<and> (\<exists>e \<in> set es. unshipped_pages w S e \<noteq> [])"
  have b: "?W \<or> ?D \<or> ?N \<longleftrightarrow> bad" "\<not> ?W \<and> \<not> ?D \<and> \<not> ?N \<longleftrightarrow> \<not> bad" using bad c by blast+
  obtain summary where sm: "final_counts mc' = (if bad then 60 else 0, mc_print summary mc')" "\<not> bad \<longrightarrow> summary = []"
    using final_counts_status [of mc'] unfolding fl opts_flags_tests cnt b by blast
  have out: "mc_stdout (mc_print summary mc') = concat (map (ent_text w (opts_flags opts) S) es) @ whole_text ps @ summary"
    using mc(2) by (simp add: mc_print_def mc' mc_report_def)
  have "ent_text w (opts_flags opts) S e = []" if "\<not> bad" "e \<in> set es" for e
    using that ent_text_quiet [of "opts_flags opts" w e S] opts_flags_tests(1,2) [of opts] bad by auto
  then show ?thesis using sm out bad by (intro exI [of _ summary]) (auto simp: whole_text_def)
qed

section \<open>Properties\<close>


definition ck_ent :: "char list \<Rightarrow> manifest_ent" where
  "ck_ent n = manifest_ent_zero\<lparr>me_type := ME_TYPE_FILE, me_name := Some n, me_mode := 0x1ED, me_user := Some ''root'', me_group := Some ''bin''\<rparr>"

definition ck_names :: "char list list" where
  "ck_names = [''usr/bin/ls'', ''usr/bin/xx'', ''usr/share/man/man1/ls.1'']"

definition ck_conf :: "directive list" where
  "ck_conf = [\<lparr>d_before = [], d_kind = Include_section, d_blank = CHR '' '', d_middle = [], d_value = ''1'', d_after = []\<rparr>]"

definition ck_sample :: ck_world where
  "ck_sample = \<lparr>ck_manifests = (\<lambda>_. \<lparr>mf_open = None, mf_stat = Some True, mf_stale = None,
       mf_lines = map (\<lambda>n. print_ent (ck_ent n)) ck_names, mf_error = None\<rparr>),
     ck_configs = (\<lambda>_. \<lparr>cf_open = None, cf_regular = True, cf_chars = concat (map directive_text ck_conf), cf_error = None\<rparr>),
     ck_stat = (\<lambda>p. p = ''proto/usr/share/man/man1/ls.1''), ck_lstat = (\<lambda>_. Inr Kind_reg),
     ck_opendir = (\<lambda>p. if p = ''proto/usr/share/man'' then Inr ([''.'', ''man1'', ''man8''], None) else Inr ([''.'', ''ls.1'', ''zz.1''], None)),
     ck_fnmatch = (\<lambda>p x. if p = x then FNM_match else FNM_NOMATCH), ck_abort_on_exit = False\<rparr>"

definition ck_opts :: "(char \<times> char list) list" where
  "ck_opts = [(CHR ''f'', ''manifest''), (CHR ''c'', ''conf'')]"

lemma good_text_short:
  assumes "nul_free t" "length t < 64"
  shows "good_text t"
proof -
  have "length t \<noteq> 64 * 2 ^ k" for k using assms(2) by (metis less_le_not_le mult_le_mono2 mult.right_neutral one_le_power one_le_numeral)
  then show ?thesis using assms by (simp add: good_text_def INT_MAX_def)
qed

lemma ck_ent_read:
  assumes "plain_word n"
  shows "entry_spec (line_words (print_ent (ck_ent n))) = Some (ck_ent n)"
proof (rule line_words_file)
  have "plain_word ''root''" "plain_word ''bin''" by (simp_all add: plain_word_def lextype_of_def)
  then show "file_ent (ck_ent n)"
    unfolding file_ent_def ck_ent_def using assms
    by (intro exI [of _ ME_TYPE_FILE] exI [of _ n] exI [of _ "0x1ED :: 32 word"] exI [of _ "''root''"] exI [of _ "''bin''"]) simp
qed

lemma ck_sample_entries: "manifest_entries (ck_manifests ck_sample p) (map ck_ent ck_names)"
proof -
  have "show_base 8 493 = ''755''" by code_simp
  then have "\<forall>n \<in> set ck_names. fits (print_ent (ck_ent n))"
    by (simp add: ck_names_def fits_def print_ent_def ck_ent_def STRLIST_ROOM_def)
  moreover have "\<forall>n \<in> set ck_names. plain_word n" by (simp add: ck_names_def plain_word_def lextype_of_def)
  ultimately show ?thesis using ck_ent_read by (simp add: manifest_entries_def ck_sample_def)
qed

lemma ck_sample_conf:
  "config_args ck_opts = {''conf''}" "conf_values Include_section (\<lambda>_. ck_conf) {''conf''} = {''1''}"
  "conf_values Exclude_section (\<lambda>_. ck_conf) {''conf''} = {}" "conf_values Exclude_page (\<lambda>_. ck_conf) {''conf''} = {}"
  "readable_config (ck_configs ck_sample p) ck_conf"
  by (auto simp: config_args_def ck_opts_def conf_values_def ck_conf_def readable_config_def ck_sample_def directive_ok_def isspace_def
      intro!: exI [of _ "[]"])

lemma ck_sample_sections: "set [''1''] = whole_sections ck_sample {''1''} {} [''.'', ''man1'', ''man8'']"
proof -
  have "{d \<in> set [''.'', ''man1'', ''man8'']. \<not> special_name d \<and> take 3 d = ''man'' \<and> \<not> matched ck_sample {} (drop 3 d) \<and>
      matched ck_sample {''1''} (drop 3 d)} = {''man1''}"
    by (auto simp: special_name_def matched_def ck_sample_def)
  then show ?thesis by (simp add: whole_sections_def)
qed


end
