(* ===== verification/Strpath.thy ===== *)
theory Strpath
  imports Custr
begin

text \<open>
  \<^verbatim>\<open>src/src/common/strings/strpath.c\<close>: joining paths. \<open>strpath_append\<close> is the C function over a
  \<open>custr\<close>; its specification \<open>path_join\<close> speaks of the components of the appended path. The
  two counters of the source are \<^verbatim>\<open>unsigned int\<close>s, so the model is meant for inputs shorter
  than \<open>2\<^sup>3\<^sup>2\<close> characters.
\<close>

abbreviation SLASH :: char where
  "SLASH \<equiv> CHR 0x2F"

section \<open>The function\<close>

text \<open>The second loop, with \<^verbatim>\<open>slash_count\<close> as an argument.\<close>

fun strpath_copy :: "allocator \<Rightarrow> custr \<Rightarrow> nat \<Rightarrow> char list \<Rightarrow> (cret \<times> custr) outcome" where
  "strpath_copy mem path slash_count [] = Inr (Ret_ok, path)"
| "strpath_copy mem path slash_count (c # inp) =
     (if c = SLASH then strpath_copy mem path (slash_count + 1) inp
      else bindc (if 0 < slash_count then custr_appendc mem path SLASH else Inr (Ret_ok, path)) (\<lambda>path.
           bindc (custr_appendc mem path c) (\<lambda>path.
           strpath_copy mem path 0 inp)))"

definition strpath_append :: "allocator \<Rightarrow> custr \<Rightarrow> char list \<Rightarrow> (cret \<times> custr) outcome" where
  "strpath_append mem path inp =
     (let inp = cstr inp; pathl = custr_len path
      in bindc
           (if 0 < pathl
            then bindr (custr_cstr path) (\<lambda>p.
                   if (p @ [NUL]) ! (pathl - 1) \<noteq> SLASH then custr_appendc mem path SLASH
                   else Inr (Ret_ok, path))
            else if inp \<noteq> [] \<and> hd inp = SLASH then custr_appendc mem path SLASH
            else Inr (Ret_ok, path))
           (\<lambda>path. strpath_copy mem path 0 (dropWhile (\<lambda>c. c = SLASH) inp)))"

section \<open>The specification\<close>

lemma drop_name_shorter:
  "s \<noteq> [] \<Longrightarrow> hd s \<noteq> SLASH \<Longrightarrow> length (dropWhile (\<lambda>c. c \<noteq> SLASH) s) < length s"
  by (cases s) (simp_all add: length_dropWhile_le less_Suc_eq_le)

text \<open>The names between the slashes of a path, empty names left out.\<close>

function path_components :: "char list \<Rightarrow> char list list" where
  "path_components s =
     (let s' = dropWhile (\<lambda>c. c = SLASH) s
      in if s' = [] then []
         else takeWhile (\<lambda>c. c \<noteq> SLASH) s' # path_components (dropWhile (\<lambda>c. c \<noteq> SLASH) s'))"
  by pat_completeness auto
termination
proof (relation "measure length", goal_cases)
  case 1
  then show ?case by simp
next
  case (2 s s')
  then have "hd s' \<noteq> SLASH" using hd_dropWhile [of "\<lambda>c. c = SLASH" s] by simp
  with 2 drop_name_shorter [of s'] length_dropWhile_le [of "\<lambda>c. c = SLASH" s]
  show ?case by simp
qed

declare path_components.simps [simp del]

fun join_slash :: "char list list \<Rightarrow> char list" where
  "join_slash [] = []"
| "join_slash [c] = c"
| "join_slash (c # d # cs) = c @ SLASH # join_slash (d # cs)"

definition path_join :: "char list \<Rightarrow> char list \<Rightarrow> char list" where
  "path_join p inp =
     (if p = [] then (if inp \<noteq> [] \<and> hd inp = SLASH then [SLASH] else [])
      else if last p = SLASH then p else p @ [SLASH]) @ join_slash (path_components inp)"

section \<open>The loop writes the components\<close>

text \<open>What the second loop appends, by character.\<close>

fun squeeze :: "nat \<Rightarrow> char list \<Rightarrow> char list" where
  "squeeze n [] = []"
| "squeeze n (c # s) =
     (if c = SLASH then squeeze (n + 1) s else (if 0 < n then [SLASH] else []) @ c # squeeze 0 s)"

lemma strpath_copy_rep:
  assumes "good_alloc mem"
  shows "custr_dyn path p \<Longrightarrow> \<exists>path'. strpath_copy mem path n s = Inr (Ret_ok, path') \<and>
    custr_dyn path' (p @ squeeze n s)"
proof (induction s arbitrary: path p n)
  case (Cons c s)
  note app = custr_appendc_dyn [OF _ assms]
  show ?case
  proof (cases "c = SLASH")
    case True
    then show ?thesis using Cons.IH [OF Cons.prems, of "n + 1"] by simp
  next
    case False
    obtain p1 where p1: "(if 0 < n then custr_appendc mem path SLASH else Inr (Ret_ok, path)) = Inr (Ret_ok, p1)"
      "custr_dyn p1 (p @ (if 0 < n then [SLASH] else []))"
      using app [OF Cons.prems, of SLASH] Cons.prems by (cases "0 < n") auto
    obtain p2 where p2: "custr_appendc mem p1 c = Inr (Ret_ok, p2)"
      "custr_dyn p2 ((p @ (if 0 < n then [SLASH] else [])) @ [c])"
      using app [OF p1(2), of c] by blast
    show ?thesis using Cons.IH [OF p2(2), of 0] False p1(1) p2(1) by simp
  qed
qed simp

lemma squeeze_pos: "0 < n \<Longrightarrow> squeeze n s = squeeze 1 s"
proof (induction s arbitrary: n)
  case (Cons c s)
  show ?case using Cons.IH [of "Suc n"] Cons.IH [of "Suc 1"] Cons.prems by simp
qed simp

lemma squeeze_pos_drop: "squeeze 1 s = squeeze 1 (dropWhile (\<lambda>c. c = SLASH) s)"
proof (induction s)
  case (Cons c s)
  then show ?case using squeeze_pos [of "Suc 1" s] by simp
qed simp

lemma squeeze_name:
  assumes "\<forall>c \<in> set w. c \<noteq> SLASH" "w \<noteq> []"
  shows "squeeze n (w @ r) = (if 0 < n then [SLASH] else []) @ w @ squeeze 0 r"
  using assms
proof (induction w arbitrary: n)
  case (Cons c w)
  then show ?case using Cons.IH [of 0] by (cases "w = []") simp_all
qed simp

lemma squeeze_components:
  "squeeze 0 (dropWhile (\<lambda>c. c = SLASH) s) = join_slash (path_components s) \<and>
   squeeze 1 s = (if path_components s = [] then [] else SLASH # join_slash (path_components s))"
proof (induction s rule: path_components.induct)
  case (1 s)
  let ?s = "dropWhile (\<lambda>c. c = SLASH) s"
  let ?w = "takeWhile (\<lambda>c. c \<noteq> SLASH) ?s" and ?r = "dropWhile (\<lambda>c. c \<noteq> SLASH) ?s"
  show ?case
  proof (cases "?s = []")
    case True
    then have "path_components s = []" by (simp add: path_components.simps [of s])
    then show ?thesis using squeeze_pos_drop [of s] unfolding True by simp
  next
    case False
    have w: "\<forall>c \<in> set ?w. c \<noteq> SLASH" by (auto dest: set_takeWhileD)
    have "hd ?s \<noteq> SLASH" using hd_dropWhile [of "\<lambda>c. c = SLASH" s] False by simp
    then have w0: "?w \<noteq> []" using False by (cases ?s) auto
    have r: "?r = [] \<or> hd ?r = SLASH" using hd_dropWhile [of "\<lambda>c. c \<noteq> SLASH" ?s] by auto
    have IH: "squeeze 1 ?r = (if path_components ?r = [] then [] else SLASH # join_slash (path_components ?r))"
      using 1 [OF refl False] by simp
    have sq0: "squeeze 0 ?r = squeeze 1 ?r"
    proof (cases ?r)
      case (Cons a l)
      with r have "a = SLASH" by simp
      then show ?thesis unfolding Cons using squeeze_pos [of "Suc 1" l] by simp
    qed (simp only: squeeze.simps)
    have pc: "path_components s = ?w # path_components ?r"
      using False by (simp add: path_components.simps [of s] Let_def)
    have js: "join_slash (?w # path_components ?r) = ?w @ squeeze 1 ?r"
      using IH by (cases "path_components ?r") simp_all
    have e: "squeeze n ?s = (if 0 < n then [SLASH] else []) @ ?w @ squeeze 1 ?r" for n
      using squeeze_name [OF w w0, of n ?r] sq0 by simp
    show ?thesis
      using e [of 0] e [of 1] squeeze_pos_drop [of s] by (simp add: pc js)
  qed
qed

lemma strpath_append_rep:
  assumes "good_alloc mem" "custr_dyn path p" "nul_free p" "nul_free inp"
  shows "\<exists>path'. strpath_append mem path inp = Inr (Ret_ok, path') \<and> custr_dyn path' (path_join p inp)"
proof -
  let ?pre = "if p = [] then (if inp \<noteq> [] \<and> hd inp = SLASH then [SLASH] else [])
      else if last p = SLASH then p else p @ [SLASH]"
  have len: "custr_len path = length p" using assms(2) custr_len_rep by (simp add: custr_dyn_def)
  have cs: "custr_cstr path = Inr p" using assms(2,3) custr_cstr_rep [of path p] by (simp add: custr_dyn_def)
  have nth: "p \<noteq> [] \<Longrightarrow> (p @ [NUL]) ! (length p - 1) = last p"
    by (simp add: last_conv_nth nth_append)
  obtain p1 where p1: "(if 0 < length p
            then bindr (custr_cstr path) (\<lambda>p'.
                   if (p' @ [NUL]) ! (length p - 1) \<noteq> SLASH then custr_appendc mem path SLASH
                   else Inr (Ret_ok, path))
            else if inp \<noteq> [] \<and> hd inp = SLASH then custr_appendc mem path SLASH
            else Inr (Ret_ok, path)) = Inr (Ret_ok, p1)" "custr_dyn p1 ?pre"
    using custr_appendc_dyn [OF assms(2,1), of SLASH] assms(2) cs nth
    by (cases "p = []"; cases "inp \<noteq> [] \<and> hd inp = SLASH"; cases "last p = SLASH") auto
  show ?thesis
    using strpath_copy_rep [OF assms(1) p1(2), of 0 "dropWhile (\<lambda>c. c = SLASH) inp"]
      squeeze_components [of inp] p1(1) assms(4)
    by (simp add: strpath_append_def Let_def len path_join_def)
qed

section \<open>Properties of the join\<close>

text \<open>Two slashes in a row.\<close>

fun double_slash :: "char list \<Rightarrow> bool" where
  "double_slash (a # b # s) \<longleftrightarrow> a = SLASH \<and> b = SLASH \<or> double_slash (b # s)"
| "double_slash _ \<longleftrightarrow> False"

lemma double_slash_append:
  "double_slash (xs @ ys) \<longleftrightarrow> double_slash xs \<or> double_slash ys \<or>
     xs \<noteq> [] \<and> ys \<noteq> [] \<and> last xs = SLASH \<and> hd ys = SLASH"
proof (induction xs)
  case (Cons a xs)
  then show ?case by (cases xs; cases ys) auto
qed simp

lemma path_components_names:
  "\<forall>w \<in> set (path_components s). w \<noteq> [] \<and> SLASH \<notin> set w"
proof (induction s rule: path_components.induct)
  case (1 s)
  let ?s = "dropWhile (\<lambda>c. c = SLASH) s"
  show ?case
  proof (cases "?s = []")
    case False
    have "hd ?s \<noteq> SLASH" using hd_dropWhile [of "\<lambda>c. c = SLASH" s] False by simp
    then have w: "takeWhile (\<lambda>c. c \<noteq> SLASH) ?s \<noteq> []" using False by (cases ?s) auto
    have pc: "path_components s =
        takeWhile (\<lambda>c. c \<noteq> SLASH) ?s # path_components (dropWhile (\<lambda>c. c \<noteq> SLASH) ?s)"
      using False by (simp add: path_components.simps [of s] Let_def)
    have "SLASH \<notin> set (takeWhile (\<lambda>c. c \<noteq> SLASH) ?s)" by (blast dest: set_takeWhileD)
    then show ?thesis using 1 [OF refl False] w unfolding pc by simp
  qed (simp add: path_components.simps [of s])
qed

lemma no_slash_no_double: "SLASH \<notin> set w \<Longrightarrow> \<not> double_slash w"
  by (induction w rule: double_slash.induct) auto

lemma join_slash_props:
  assumes "\<forall>w \<in> set ws. w \<noteq> [] \<and> SLASH \<notin> set w" "ws \<noteq> []"
  shows "join_slash ws \<noteq> [] \<and> hd (join_slash ws) \<noteq> SLASH \<and> last (join_slash ws) \<noteq> SLASH \<and>
    \<not> double_slash (join_slash ws)"
  using assms
proof (induction ws rule: join_slash.induct)
  case (2 c)
  then have "hd c \<in> set c" "last c \<in> set c" "SLASH \<notin> set c" by simp_all
  then have "hd c \<noteq> SLASH" "last c \<noteq> SLASH" by metis+
  with 2 no_slash_no_double [of c] show ?case by simp
next
  case (3 c d cs)
  then have IH: "join_slash (d # cs) \<noteq> []" "hd (join_slash (d # cs)) \<noteq> SLASH"
    "last (join_slash (d # cs)) \<noteq> SLASH" "\<not> double_slash (join_slash (d # cs))" by auto
  have c: "c \<noteq> []" "SLASH \<notin> set c" using "3.prems" by auto
  have "double_slash (SLASH # join_slash (d # cs)) \<longleftrightarrow> False"
    using double_slash_append [of "[SLASH]" "join_slash (d # cs)"] IH by simp
  moreover have "last c \<noteq> SLASH" "hd c \<noteq> SLASH" using c last_in_set [OF c(1)] hd_in_set [OF c(1)] by metis+
  ultimately have "\<not> double_slash (c @ SLASH # join_slash (d # cs))"
    using c no_slash_no_double [OF c(2)] by (simp add: double_slash_append)
  then show ?case using IH c \<open>hd c \<noteq> SLASH\<close> by simp
qed simp

text \<open>C28: \<^verbatim>\<open>strpath_append\<close> refines the join of paths by components: the result is the old path with
  one slash at its end (or the root, or nothing, when there was none) followed by the non-empty
  components of the input with single slashes between them. It contains no two adjacent slashes if
  the old path had none, and never a trailing slash after a component.\<close>

theorem strpath_append_joins:
  assumes "good_alloc mem" "custr_dyn path p" "nul_free p" "nul_free inp"
  shows "returns (strpath_append mem path inp) (\<lambda>(r, path'). r = Ret_ok \<and>
    custr_dyn path' (path_join p inp) \<and>
    (\<not> double_slash p \<longrightarrow> \<not> double_slash (path_join p inp)) \<and>
    (path_components inp = [] \<or> last (path_join p inp) \<noteq> SLASH))"
proof -
  let ?j = "join_slash (path_components inp)"
  let ?pre = "if p = [] then (if inp \<noteq> [] \<and> hd inp = SLASH then [SLASH] else [])
      else if last p = SLASH then p else p @ [SLASH]"
  have js: "path_components inp \<noteq> [] \<Longrightarrow> ?j \<noteq> [] \<and> hd ?j \<noteq> SLASH \<and> last ?j \<noteq> SLASH \<and> \<not> double_slash ?j"
    by (rule join_slash_props [OF path_components_names])
  have pre: "\<not> double_slash p \<Longrightarrow> \<not> double_slash ?pre" by (auto simp: double_slash_append)
  have "\<not> double_slash p \<longrightarrow> \<not> double_slash (path_join p inp)"
    using pre js by (cases "path_components inp = []") (simp_all add: path_join_def double_slash_append)
  moreover have "path_components inp = [] \<or> last (path_join p inp) \<noteq> SLASH"
    using js by (cases "path_components inp = []") (simp_all add: path_join_def)
  ultimately show ?thesis using strpath_append_rep [OF assms] by auto
qed

theorem strpath_append_joins_witness:
  "returns (strpath_append heap_base custr_empty ''//usr//bin/'') (\<lambda>(r, path'). r = Ret_ok \<and>
     custr_dyn path' ''/usr/bin'')"
proof -
  have "path_join [] ''//usr//bin/'' = ''/usr/bin''"
    by (simp add: path_join_def path_components.simps Let_def)
  moreover have "custr_dyn custr_empty []" by (simp add: custr_empty_def custr_dyn_def custr_rep_def)
  ultimately show ?thesis
    using strpath_append_joins [OF good_heap_base, of custr_empty "[]" "''//usr//bin/''"]
    by (auto elim: returns_mono)
qed

end
