(* ===== verification/Docker_Env.thy ===== *)
theory Docker_Env
  imports Strlist Strpath
begin

text \<open>
  The environment and the search path of a Docker zone, from
  \<^verbatim>\<open>src/src/dockerinit/src/docker-common.c\<close>: fatal errors, environment entries of the form
  \<^verbatim>\<open>name=value\<close> in a string list, the list of search directories and the lookup of a command.
  Strings are C strings: lists of characters without the null character. Log messages are not
  modelled; what \<^verbatim>\<open>stat\<close> says of a path is a parameter.
\<close>

section \<open>Fatal errors\<close>

text \<open>The values of \<^verbatim>\<open>dockerinit_err_t\<close> the functions below use; the enumeration counts from 1.\<close>

type_synonym dockerinit_err = int

definition ERR_UNEXPECTED :: dockerinit_err where "ERR_UNEXPECTED = 1"
definition ERR_CHDIR :: dockerinit_err where "ERR_CHDIR = 2"
definition ERR_GID_NAN :: dockerinit_err where "ERR_GID_NAN = 5"
definition ERR_MDATA_FAIL :: dockerinit_err where "ERR_MDATA_FAIL = 8"
definition ERR_MDATA_INIT :: dockerinit_err where "ERR_MDATA_INIT = 9"
definition ERR_NO_COMMAND :: dockerinit_err where "ERR_NO_COMMAND = 13"
definition ERR_NOT_FOUND :: dockerinit_err where "ERR_NOT_FOUND = 17"
definition ERR_PARSE_JSON :: dockerinit_err where "ERR_PARSE_JSON = 20"
definition ERR_STAT_CMD :: dockerinit_err where "ERR_STAT_CMD = 25"
definition ERR_STAT_DIR :: dockerinit_err where "ERR_STAT_DIR = 26"
definition ERR_STAT_EXEC :: dockerinit_err where "ERR_STAT_EXEC = 27"
definition ERR_STRDUP :: dockerinit_err where "ERR_STRDUP = 28"
definition ERR_UID_NAN :: dockerinit_err where "ERR_UID_NAN = 29"
definition ERR_MDATA_TOO_OLD :: dockerinit_err where "ERR_MDATA_TOO_OLD = 46"
definition ERR_NO_MEMORY :: dockerinit_err where "ERR_NO_MEMORY = 48"
definition ERR_MKDIR :: dockerinit_err where "ERR_MKDIR = 49"

lemmas dockerinit_err_defs =
  ERR_UNEXPECTED_def ERR_CHDIR_def ERR_GID_NAN_def ERR_MDATA_FAIL_def ERR_MDATA_INIT_def ERR_NO_COMMAND_def ERR_NOT_FOUND_def ERR_PARSE_JSON_def ERR_STAT_CMD_def ERR_STAT_DIR_def ERR_STAT_EXEC_def ERR_STRDUP_def ERR_UID_NAN_def ERR_MDATA_TOO_OLD_def ERR_NO_MEMORY_def ERR_MKDIR_def

text \<open>\<^verbatim>\<open>fatal\<close> aborts on an unexpected error and exits with the code on every other one.\<close>

definition fatal :: "dockerinit_err \<Rightarrow> 'a outcome" where
  "fatal code = (if code = ERR_UNEXPECTED then Inl Fault_Abort else Inl (Fault_Exit code))"

lemma fatal_never_returns [simp]: "fatal e \<noteq> Inr x" "bindr (fatal e) f = fatal e"
  by (simp_all add: fatal_def)

text \<open>A call of a library function whose failure is fatal.\<close>

definition or_fatal :: "dockerinit_err \<Rightarrow> (cret \<times> 'a) outcome \<Rightarrow> 'a outcome" where
  "or_fatal code m = bindr m (\<lambda>(r, x). case r of Ret_ok \<Rightarrow> Inr x | Ret_err _ \<Rightarrow> fatal code)"

lemma or_fatal_simps [simp]: "or_fatal code (Inr (Ret_ok, x)) = Inr x" "or_fatal code (Inl e) = Inl e"
  by (simp_all add: or_fatal_def)

definition DEFAULT_PATH :: "char list" where
  "DEFAULT_PATH = ''/usr/local/sbin:/usr/local/bin:/usr/sbin:/usr/bin'' @ '':/sbin:/bin''"

definition DEFAULT_TERM :: "char list" where
  "DEFAULT_TERM = ''xterm''"

section \<open>Environment entries\<close>

text \<open>
  \<^verbatim>\<open>splitEnvEntry\<close>: \<open>None\<close> is \<^verbatim>\<open>ENV_IGNORE_ENTRY\<close>. Every caller asks for the name; \<open>want_value\<close>
  says whether it passes a place for the value, which is empty here if not.
\<close>

abbreviation EQUALS :: char where "EQUALS \<equiv> CHR 0x3D"

definition splitEnvEntry ::
    "allocator \<Rightarrow> char list \<Rightarrow> bool \<Rightarrow> (char list \<times> char list) option outcome" where
  "splitEnvEntry mem inp want_value =
     (let before = takeWhile (\<lambda>c. c \<noteq> EQUALS) inp; eq = dropWhile (\<lambda>c. c \<noteq> EQUALS) inp in
      if eq = [] \<or> before = [] then Inr None
      else (case strdup mem before of
              None \<Rightarrow> fatal ERR_STRDUP
            | Some name \<Rightarrow>
                if \<not> want_value then Inr (Some (name, []))
                else (case strdup mem (tl eq) of
                        None \<Rightarrow> fatal ERR_STRDUP
                      | Some v \<Rightarrow> Inr (Some (name, v)))))"

lemma strlist_get_next:
  "strlist_get sl idx = Inr (Some s) \<Longrightarrow> idx < sl_capacity sl \<and>
   unat (sl_capacity sl) - unat (idx + 1) < unat (sl_capacity sl) - unat idx"
proof -
  assume a: "strlist_get sl idx = Inr (Some s)"
  have lt: "idx < sl_capacity sl" using a by (cases "sl_capacity sl \<le> idx") (auto simp: strlist_get_def)
  then have "unat (idx + 1) = unat idx + 1"
    by (metis unat32_Suc max_word_max linorder_not_less)
  then show ?thesis using lt by (simp add: word_less_nat_alt)
qed

text \<open>The search for an entry by name: whether there is one, and the index the loop ends with.\<close>

function env_find :: "allocator \<Rightarrow> strlist \<Rightarrow> char list \<Rightarrow> 32 word \<Rightarrow> (bool \<times> 32 word) outcome" where
  "env_find mem sl name idx =
     bindr (strlist_get sl idx) (\<lambda>e.
       case e of
         None \<Rightarrow> Inr (False, idx)
       | Some s \<Rightarrow>
           bindr (splitEnvEntry mem s False) (\<lambda>r.
             case r of
               None \<Rightarrow> env_find mem sl name (idx + 1)
             | Some (sname, _) \<Rightarrow>
                 if sname = name then Inr (True, idx) else env_find mem sl name (idx + 1)))"
  by pat_completeness auto
termination
  by (relation "measure (\<lambda>(mem, sl, name, idx). unat (sl_capacity sl) - unat idx)")
    (auto dest: strlist_get_next)

declare env_find.simps [simp del]

definition insertOrReplaceEnv :: "allocator \<Rightarrow> strlist \<Rightarrow> char list \<Rightarrow> char list \<Rightarrow> strlist outcome" where
  "insertOrReplaceEnv mem sl name val =
     bindr (env_find mem sl name 0) (\<lambda>(found, idx).
     case mem (length name + length val + 2) of
       None \<Rightarrow> fatal ERR_STRDUP
     | Some _ \<Rightarrow>
         let insval = name @ EQUALS # val in
         or_fatal ERR_NO_MEMORY
           (if found then strlist_set mem sl idx (Some insval)
            else strlist_set_tail mem sl (Some insval)))"

definition cbEachEnvEntry :: "allocator \<Rightarrow> nat \<Rightarrow> char list \<Rightarrow> strlist \<Rightarrow> strlist outcome" where
  "cbEachEnvEntry mem idx val env =
     bindr (splitEnvEntry mem val True) (\<lambda>r.
       case r of
         None \<Rightarrow> Inr env
       | Some (env_name, env_val) \<Rightarrow> insertOrReplaceEnv mem env env_name env_val)"

section \<open>The search path\<close>

function path_find :: "allocator \<Rightarrow> strlist \<Rightarrow> 32 word \<Rightarrow> char list option outcome" where
  "path_find mem env idx =
     bindr (strlist_get env idx) (\<lambda>e.
       case e of
         None \<Rightarrow> Inr None
       | Some s \<Rightarrow>
           bindr (splitEnvEntry mem s True) (\<lambda>r.
             case r of
               None \<Rightarrow> path_find mem env (idx + 1)
             | Some (sname, svalue) \<Rightarrow>
                 if sname \<noteq> ''PATH'' then path_find mem env (idx + 1) else Inr (Some svalue)))"
  by pat_completeness auto
termination
  by (relation "measure (\<lambda>(mem, env, idx). unat (sl_capacity env) - unat idx)")
    (auto dest: strlist_get_next)

declare path_find.simps [simp del]

text \<open>One element of the list: \<open>cu\<close> is the working buffer, \<open>searchdir\<close> the directory built from it.\<close>

definition path_element ::
    "allocator \<Rightarrow> char list \<Rightarrow> custr \<Rightarrow> custr \<Rightarrow> strlist \<Rightarrow> (custr \<times> custr \<times> strlist) outcome" where
  "path_element mem working_directory cu searchdir path =
     bindr (custr_reset searchdir) (\<lambda>searchdir.
     bindr (or_fatal ERR_NO_MEMORY (strpath_append mem searchdir [SLASH])) (\<lambda>searchdir.
     bindr (custr_cstr cu) (\<lambda>elem.
     bindr (if custr_len cu < 1 \<or> (elem @ [NUL]) ! 0 \<noteq> SLASH
            then or_fatal ERR_NO_MEMORY (strpath_append mem searchdir working_directory)
            else Inr searchdir) (\<lambda>searchdir.
     bindr (if 0 < custr_len cu
            then or_fatal ERR_NO_MEMORY (strpath_append mem searchdir elem)
            else Inr searchdir) (\<lambda>searchdir.
     bindr (custr_reset cu) (\<lambda>cu.
     bindr (custr_cstr searchdir) (\<lambda>dir.
     bindr (or_fatal ERR_NO_MEMORY (strlist_set_tail mem path (Some dir))) (\<lambda>path.
     Inr (cu, searchdir, path)))))))))"

text \<open>The loop over the characters of the value; its end is the terminating null character.\<close>

fun path_split ::
    "allocator \<Rightarrow> char list \<Rightarrow> custr \<Rightarrow> custr \<Rightarrow> strlist \<Rightarrow> char list \<Rightarrow> strlist outcome" where
  "path_split mem wd cu searchdir path [] =
     bindr (path_element mem wd cu searchdir path) (\<lambda>(cu, searchdir, path). Inr path)"
| "path_split mem wd cu searchdir path (c # r) =
     (if c \<noteq> CHR '':''
      then bindr (or_fatal ERR_NO_MEMORY (custr_appendc mem cu c)) (\<lambda>cu.
           path_split mem wd cu searchdir path r)
      else bindr (path_element mem wd cu searchdir path) (\<lambda>(cu, searchdir, path).
           path_split mem wd cu searchdir path r))"

definition getPathList :: "allocator \<Rightarrow> strlist \<Rightarrow> strlist \<Rightarrow> char list \<Rightarrow> strlist outcome" where
  "getPathList mem env path working_directory =
     (case (custr_alloc mem, custr_alloc mem) of
        ((Ret_ok, Some cu), (Ret_ok, Some searchdir)) \<Rightarrow>
          bindr (path_find mem env 0) (\<lambda>r.
          path_split mem working_directory cu searchdir path
            (case r of None \<Rightarrow> DEFAULT_PATH | Some svalue \<Rightarrow> svalue))
      | _ \<Rightarrow> fatal ERR_NO_MEMORY)"

section \<open>Finding a command\<close>

text \<open>What \<^verbatim>\<open>stat\<close> says: \<open>None\<close> when it fails, else whether the file is a directory and has
  \<^verbatim>\<open>S_IXUSR\<close>.\<close>

record file_stat =
  st_isdir :: bool
  st_ixusr :: bool

type_synonym stat_answers = "char list \<Rightarrow> file_stat option"

function exec_search ::
    "allocator \<Rightarrow> stat_answers \<Rightarrow> char list \<Rightarrow> strlist \<Rightarrow> custr \<Rightarrow> 32 word \<Rightarrow> custr outcome" where
  "exec_search mem st cmd path cu i =
     bindr (strlist_get path i) (\<lambda>e.
       case e of
         None \<Rightarrow> fatal ERR_NOT_FOUND
       | Some dir \<Rightarrow>
           bindr (custr_reset cu) (\<lambda>cu.
           bindr (or_fatal ERR_UNEXPECTED (strpath_append mem cu dir)) (\<lambda>cu.
           bindr (or_fatal ERR_UNEXPECTED (strpath_append mem cu cmd)) (\<lambda>cu.
           bindr (custr_cstr cu) (\<lambda>name.
           case st name of
             None \<Rightarrow> exec_search mem st cmd path cu (i + 1)
           | Some s \<Rightarrow>
               if st_isdir s \<or> \<not> st_ixusr s then exec_search mem st cmd path cu (i + 1)
               else Inr cu)))))"
  by pat_completeness auto
termination
  by (relation "measure (\<lambda>(mem, st, cmd, path, cu, i). unat (sl_capacity path) - unat i)")
    (auto dest: strlist_get_next)

declare exec_search.simps [simp del]

definition execName ::
    "allocator \<Rightarrow> stat_answers \<Rightarrow> char list \<Rightarrow> strlist \<Rightarrow> char list \<Rightarrow> custr outcome" where
  "execName mem st cmd env working_directory =
     (case (strlist_alloc mem 0, custr_alloc mem) of
        ((Ret_ok, Some path), (Ret_ok, Some cu)) \<Rightarrow>
          bindr (getPathList mem env path working_directory) (\<lambda>path.
          if SLASH \<in> set cmd
          then (case st cmd of
                  None \<Rightarrow> fatal ERR_STAT_CMD
                | Some s \<Rightarrow>
                    if st_isdir s then fatal ERR_STAT_DIR
                    else if \<not> st_ixusr s then fatal ERR_STAT_EXEC
                    else bindr (custr_reset cu) (\<lambda>cu. or_fatal ERR_NO_MEMORY (strpath_append mem cu cmd)))
          else exec_search mem st cmd path cu 0)
      | _ \<Rightarrow> fatal ERR_NO_MEMORY)"

section \<open>The environment as a map\<close>

definition split_env :: "char list \<Rightarrow> (char list \<times> char list) option" where
  "split_env e =
     (let before = takeWhile (\<lambda>c. c \<noteq> EQUALS) e; eq = dropWhile (\<lambda>c. c \<noteq> EQUALS) e in
      if eq = [] \<or> before = [] then None else Some (before, tl eq))"

lemma splitEnvEntry_good:
  "good_alloc mem \<Longrightarrow> splitEnvEntry mem e w = Inr (map_option (\<lambda>(n, v). (n, if w then v else [])) (split_env e))"
  by (auto simp: splitEnvEntry_def split_env_def strdup_good Let_def)

definition env_name :: "char list \<Rightarrow> bool" where
  "env_name n \<longleftrightarrow> n \<noteq> [] \<and> EQUALS \<notin> set n"

lemma split_env_entry: "env_name n \<Longrightarrow> split_env (n @ EQUALS # v) = Some (n, v)"
  by (auto simp: split_env_def env_name_def takeWhile_append dropWhile_append)

lemma split_env_Some: "split_env e = Some (n, v) \<Longrightarrow> e = n @ EQUALS # v \<and> env_name n"
proof -
  assume a: "split_env e = Some (n, v)"
  let ?r = "dropWhile (\<lambda>c. c \<noteq> EQUALS) e"
  have r: "n = takeWhile (\<lambda>c. c \<noteq> EQUALS) e" "v = tl ?r" "?r \<noteq> []" "n \<noteq> []"
    using a by (auto simp: split_env_def Let_def split: if_splits)
  have "hd ?r = EQUALS" using hd_dropWhile [of "\<lambda>c. c \<noteq> EQUALS" e] r(3) by simp
  then have "?r = EQUALS # v" using r(2,3) by (cases ?r) auto
  moreover have "EQUALS \<notin> set n" unfolding r(1) by (blast dest: set_takeWhileD)
  ultimately show ?thesis using r(1,4) takeWhile_dropWhile_id [of "\<lambda>c. c \<noteq> EQUALS" e] by (simp add: env_name_def)
qed

abbreviation is_entry :: "char list \<Rightarrow> char list \<Rightarrow> bool" where
  "is_entry n e \<equiv> map_option fst (split_env e) = Some n"

text \<open>Setting a variable: the first entry of the name is replaced, a new one goes to the end.\<close>

fun env_put :: "char list \<Rightarrow> char list \<Rightarrow> char list list \<Rightarrow> char list list" where
  "env_put n v [] = [n @ EQUALS # v]"
| "env_put n v (e # es) = (if is_entry n e then (n @ EQUALS # v) # es else e # env_put n v es)"

text \<open>The variables an environment defines; the first entry of a name counts.\<close>

definition env_map :: "char list list \<Rightarrow> char list \<rightharpoonup> char list" where
  "env_map es = map_of (List.map_filter split_env es)"

lemma env_map_simps [simp]:
  "env_map [] = Map.empty"
  "env_map (e # es) = (case split_env e of None \<Rightarrow> env_map es | Some (n, v) \<Rightarrow> (env_map es)(n \<mapsto> v))"
  by (auto simp: env_map_def List.map_filter_def split: option.split)

lemma env_map_put: "env_name n \<Longrightarrow> env_map (env_put n v es) = (env_map es)(n \<mapsto> v)"
  by (induction es) (auto simp: split_env_entry fun_upd_twist split: option.split)

lemma env_put_pos:
  "env_put n v es = (let k = length (takeWhile (\<lambda>e. \<not> is_entry n e) es) in
     if k < length es then es[k := n @ EQUALS # v] else es @ [n @ EQUALS # v])"
  by (induction es) (auto simp: Let_def)

lemma length_env_put: "length (env_put n v es) \<le> Suc (length es)"
  by (induction es) auto

text \<open>One entry per variable, if it was so before.\<close>

definition env_distinct :: "char list list \<Rightarrow> bool" where
  "env_distinct es \<longleftrightarrow> distinct (map fst (List.map_filter split_env es))"

lemma fst_map_filter_put:
  "env_name n \<Longrightarrow> fst ` set (List.map_filter split_env (env_put n v es)) = insert n (fst ` set (List.map_filter split_env es))"
  by (induction es) (auto simp: List.map_filter_simps split_env_entry split: option.split)

lemma env_distinct_put: "env_name n \<Longrightarrow> env_distinct es \<Longrightarrow> env_distinct (env_put n v es)"
proof (induction es)
  case (Cons e es)
  then show ?case
    using fst_map_filter_put [of n v es]
    by (auto simp: env_distinct_def List.map_filter_simps split_env_entry image_iff split: option.splits)
qed (simp add: env_distinct_def List.map_filter_simps split_env_entry)

section \<open>The loops over the environment\<close>

lemma of_nat32: "n < 2 ^ 32 \<Longrightarrow> unat (of_nat n :: 32 word) = n"
  by (simp add: unsigned_of_nat take_bit_nat_eq_self)

lemma strlist_get_nth:
  assumes "strlist_holds sl xs" "i < 2 ^ 32"
  shows "strlist_get sl (of_nat i) = Inr (if i < length xs then Some (xs ! i) else None)"
  using strlist_get_holds [OF assms(1), of "of_nat i"] of_nat32 [OF assms(2)] by simp

lemma strlist_set_holds:
  assumes "good_alloc mem" "strlist_holds sl xs" "i < length xs"
  shows "\<exists>sl'. strlist_set mem sl (of_nat i) (Some s) = Inr (Ret_ok, sl') \<and> strlist_holds sl' (xs[i := cstr s])"
proof -
  have len: "length xs \<le> unat (sl_capacity sl)" using assms(2) by (simp add: strlist_holds_def)
  then have u: "unat (of_nat i :: 32 word) = i" using assms(3) unat32_less [of "sl_capacity sl"] by (intro of_nat32) simp
  have "of_nat i < sl_capacity sl" using u len assms(3) by (simp add: word_less_nat_alt)
  from strlist_set_inside [OF assms(1) _ this, of s] obtain sl' where
    sl': "strlist_set mem sl (of_nat i) (Some s) = Inr (Ret_ok, sl')" "strlist_ok sl'"
    "sl_capacity sl' = sl_capacity sl" "sl_strings sl' = (sl_strings sl)[i := Some (cstr s)]"
    using assms(2) u by (auto simp: strlist_holds_def)
  have "sl_strings sl' = map Some (xs[i := cstr s]) @ replicate (unat (sl_capacity sl) + 1 - length xs) None"
    using sl'(4) assms(2,3) by (simp add: strlist_holds_def list_update_append map_update)
  then show ?thesis using sl' len by (simp add: strlist_holds_def)
qed

lemma env_find_from:
  assumes "good_alloc mem" "strlist_holds sl es" "length es < 2 ^ 32"
  shows "i \<le> length es \<Longrightarrow> env_find mem sl n (of_nat i) =
    (let k = i + length (takeWhile (\<lambda>e. \<not> is_entry n e) (drop i es)) in Inr (k < length es, of_nat k))"
proof (induction "length es - i" arbitrary: i)
  case 0
  then show ?case
    using strlist_get_nth [OF assms(2), of i] assms(3) by (subst env_find.simps) simp
next
  case (Suc m)
  then have i: "i < length es" by simp
  have d: "drop i es = es ! i # drop (Suc i) es" using i by (rule Cons_nth_drop_Suc [symmetric])
  have "env_find mem sl n (of_nat (Suc i)) =
      (let k = Suc i + length (takeWhile (\<lambda>e. \<not> is_entry n e) (drop (Suc i) es)) in Inr (k < length es, of_nat k))"
    using Suc.hyps(1) [of "Suc i"] Suc.hyps(2) i by simp
  then show ?case
    using strlist_get_nth [OF assms(2), of i] assms(3) i d
    by (subst env_find.simps) (auto simp: splitEnvEntry_good [OF assms(1)] Let_def add.commute split: option.split)
qed

lemma path_find_from:
  assumes "good_alloc mem" "strlist_holds sl es" "length es < 2 ^ 32"
  shows "i \<le> length es \<Longrightarrow> path_find mem sl (of_nat i) = Inr (env_map (drop i es) ''PATH'')"
proof (induction "length es - i" arbitrary: i)
  case 0
  then show ?case
    using strlist_get_nth [OF assms(2), of i] assms(3) by (subst path_find.simps) simp
next
  case (Suc m)
  then have i: "i < length es" by simp
  have d: "drop i es = es ! i # drop (Suc i) es" using i by (rule Cons_nth_drop_Suc [symmetric])
  have "path_find mem sl (of_nat (Suc i)) = Inr (env_map (drop (Suc i) es) ''PATH'')"
    using Suc.hyps(1) [of "Suc i"] Suc.hyps(2) i by simp
  then show ?case
    using strlist_get_nth [OF assms(2), of i] assms(3) i d
    by (subst path_find.simps) (auto simp: splitEnvEntry_good [OF assms(1)] add.commute split: option.split)
qed

lemma insertOrReplaceEnv_puts:
  assumes "good_alloc mem" "strlist_holds sl es" "length es + 34 < 2 ^ 32" "nul_free n" "nul_free v"
  shows "\<exists>sl'. insertOrReplaceEnv mem sl n v = Inr sl' \<and> strlist_holds sl' (env_put n v es)"
proof -
  let ?k = "length (takeWhile (\<lambda>e. \<not> is_entry n e) es)"
  have find: "env_find mem sl n 0 = Inr (?k < length es, of_nat ?k)"
    using env_find_from [OF assms(1,2), of 0 n] assms(3) by (simp add: Let_def)
  obtain a where a: "mem (length n + length v + 2) = Some a" using good_allocD [OF assms(1)] by blast
  have ins: "cstr (n @ EQUALS # v) = n @ EQUALS # v" using assms(4,5) by simp
  show ?thesis
  proof (cases "?k < length es")
    case True
    then show ?thesis
      using strlist_set_holds [OF assms(1,2) True, of "n @ EQUALS # v"] find a ins
      by (auto simp: insertOrReplaceEnv_def env_put_pos [of n v es] Let_def)
  next
    case False
    then show ?thesis
      using strlist_set_tail_holds [OF assms(1-3), of "n @ EQUALS # v"] find a ins
      by (auto simp: insertOrReplaceEnv_def env_put_pos [of n v es] Let_def)
  qed
qed

text \<open>An entry from outside: ignored without a name, else set.\<close>

definition env_add :: "char list \<Rightarrow> char list list \<Rightarrow> char list list" where
  "env_add e es = (case split_env e of None \<Rightarrow> es | Some (n, v) \<Rightarrow> env_put n v es)"

lemma length_env_add: "length (env_add e es) \<le> Suc (length es)"
  using length_env_put by (auto simp: env_add_def split: option.split)

lemma cbEachEnvEntry_adds:
  assumes "good_alloc mem" "strlist_holds sl es" "length es + 34 < 2 ^ 32" "nul_free e"
  shows "\<exists>sl'. cbEachEnvEntry mem i e sl = Inr sl' \<and> strlist_holds sl' (env_add e es)"
proof (cases "split_env e")
  case None
  then show ?thesis using assms by (simp add: cbEachEnvEntry_def splitEnvEntry_good env_add_def)
next
  case (Some p)
  obtain n v where p: "p = (n, v)" by (cases p)
  then have "nul_free n" "nul_free v" using split_env_Some [of e n v] Some assms(4) by auto
  from insertOrReplaceEnv_puts [OF assms(1-3) this] show ?thesis
    using Some p assms(1) by (auto simp: cbEachEnvEntry_def splitEnvEntry_good env_add_def)
qed

section \<open>The search directories\<close>

fun fields_of :: "char \<Rightarrow> char list \<Rightarrow> char list list" where
  "fields_of d [] = [[]]"
| "fields_of d (c # cs) =
     (if c = d then [] # fields_of d cs
      else (case fields_of d cs of [] \<Rightarrow> [[c]] | f # fs \<Rightarrow> (c # f) # fs))"

lemma fields_of_ne: "fields_of d s \<noteq> []"
  by (cases s) (auto split: list.split)

lemma fields_of_prefix:
  "d \<notin> set e \<Longrightarrow> fields_of d (e @ s) = (e @ hd (fields_of d s)) # tl (fields_of d s)"
  using fields_of_ne [of d s] by (induction e) (auto split: list.split)

text \<open>
  An element of the path as an absolute directory without empty components: relative ones are taken
  from the working directory.
\<close>

definition search_dir :: "char list \<Rightarrow> char list \<Rightarrow> char list" where
  "search_dir wd e = SLASH # join_slash
     ((if e \<noteq> [] \<and> hd e = SLASH then [] else path_components wd) @ path_components e)"

definition search_dirs :: "char list \<Rightarrow> char list \<Rightarrow> char list list" where
  "search_dirs wd p = map (search_dir wd) (fields_of (CHR '':'') p)"

lemma join_slash_Cons: "ws \<noteq> [] \<Longrightarrow> join_slash (w # ws) = w @ SLASH # join_slash ws"
  by (cases ws) auto

lemma join_slash_append:
  "us \<noteq> [] \<Longrightarrow> ws \<noteq> [] \<Longrightarrow> join_slash (us @ ws) = join_slash us @ SLASH # join_slash ws"
proof (induction us)
  case (Cons u us)
  then show ?case by (cases us) (auto simp: join_slash_Cons)
qed simp

lemma path_components_none [simp]: "path_components [] = []" "path_components [SLASH] = []"
  by (simp_all add: path_components.simps)

lemma path_components_ne: "e \<noteq> [] \<Longrightarrow> hd e \<noteq> SLASH \<Longrightarrow> path_components e \<noteq> []"
  by (cases e) (simp_all add: path_components.simps [of e] path_components.simps [of "_ # _"])

lemma path_join_root: "path_join [] [SLASH] = [SLASH]"
  by (simp add: path_join_def)

lemma last_join_slash:
  "path_components s \<noteq> [] \<Longrightarrow> join_slash (path_components s) \<noteq> [] \<and> last (join_slash (path_components s)) \<noteq> SLASH"
  using join_slash_props [OF path_components_names [of s]] by simp

lemma search_dir_joins:
  "search_dir wd e =
     (let d = if e = [] \<or> hd e \<noteq> SLASH then path_join [SLASH] wd else [SLASH]
      in if e = [] then d else path_join d e)"
  using last_join_slash [of wd] path_components_ne [of e] last_join_slash [of e]
  by (cases "path_components wd = []"; cases "path_components e = []")
    (auto simp: search_dir_def path_join_def Let_def join_slash_append)

lemma nul_free_components:
  "nul_free s \<Longrightarrow> \<forall>w \<in> set (path_components s). nul_free w"
proof (induction s rule: path_components.induct)
  case (1 s)
  let ?s = "dropWhile (\<lambda>c. c = SLASH) s"
  show ?case
  proof (cases "?s = []")
    case False
    have n: "nul_free ?s" using 1(2) unfolding nul_free_def by (blast dest: set_dropWhileD)
    have w: "nul_free (takeWhile (\<lambda>c. c \<noteq> SLASH) ?s)" "nul_free (dropWhile (\<lambda>c. c \<noteq> SLASH) ?s)"
      using n unfolding nul_free_def by (blast dest: set_dropWhileD set_takeWhileD)+
    have pc: "path_components s =
        takeWhile (\<lambda>c. c \<noteq> SLASH) ?s # path_components (dropWhile (\<lambda>c. c \<noteq> SLASH) ?s)"
      using False by (simp add: path_components.simps [of s] Let_def)
    show ?thesis using 1(1) [OF refl False w(2)] w(1) unfolding pc by simp
  qed (simp add: path_components.simps [of s])
qed

lemma nul_free_join: "\<forall>w \<in> set ws. nul_free w \<Longrightarrow> nul_free (join_slash ws)"
  by (induction ws rule: join_slash.induct) auto

lemma nul_free_path_join: "nul_free p \<Longrightarrow> nul_free s \<Longrightarrow> nul_free (path_join p s)"
  using nul_free_join [OF nul_free_components [of s]] by (simp add: path_join_def)

lemma nul_free_search_dir: "nul_free wd \<Longrightarrow> nul_free e \<Longrightarrow> nul_free (search_dir wd e)"
  using nul_free_components [of wd] nul_free_components [of e]
  by (auto simp: search_dir_def intro!: nul_free_join)

lemma strpath_append_or_fatal:
  assumes "good_alloc mem" "custr_dyn path p" "nul_free p" "nul_free inp"
  shows "\<exists>path'. or_fatal code (strpath_append mem path inp) = Inr path' \<and> custr_dyn path' (path_join p inp) \<and>
    nul_free (path_join p inp)"
  using strpath_append_rep [OF assms] nul_free_path_join [OF assms(3,4)] by auto

lemma path_element_ok:
  assumes "good_alloc mem" "custr_dyn cu e" "nul_free e" "custr_dyn sd x" "strlist_holds path ds"
    and "length ds + 34 < 2 ^ 32" "nul_free wd"
  shows "\<exists>cu' sd' path' y. path_element mem wd cu sd path = Inr (cu', sd', path') \<and> custr_dyn cu' [] \<and>
    custr_dyn sd' y \<and> strlist_holds path' (ds @ [search_dir wd e])"
proof -
  obtain s0 where s0: "custr_reset sd = Inr s0" "custr_dyn s0 []" using custr_reset_dyn [OF assms(4)] by blast
  obtain s1 where s1: "or_fatal ERR_NO_MEMORY (strpath_append mem s0 [SLASH]) = Inr s1" "custr_dyn s1 [SLASH]"
    using strpath_append_or_fatal [OF assms(1) s0(2), of "[SLASH]"] path_join_root by auto
  let ?d = "if e = [] \<or> hd e \<noteq> SLASH then path_join [SLASH] wd else [SLASH]"
  obtain s2 where s2: "(if e = [] \<or> hd e \<noteq> SLASH then or_fatal ERR_NO_MEMORY (strpath_append mem s1 wd) else Inr s1) = Inr s2"
    "custr_dyn s2 ?d" "nul_free ?d"
    using strpath_append_or_fatal [OF assms(1) s1(2) _ assms(7)] s1(2) by (cases "e = [] \<or> hd e \<noteq> SLASH") auto
  let ?f = "if e = [] then ?d else path_join ?d e"
  obtain s3 where s3: "(if e \<noteq> [] then or_fatal ERR_NO_MEMORY (strpath_append mem s2 e) else Inr s2) = Inr s3"
    "custr_dyn s3 ?f" "nul_free ?f"
    using strpath_append_or_fatal [OF assms(1) s2(2,3) assms(3)] s2 by (cases "e = []") auto
  obtain cu' where cu': "custr_reset cu = Inr cu'" "custr_dyn cu' []" using custr_reset_dyn [OF assms(2)] by blast
  have dir: "custr_cstr s3 = Inr (search_dir wd e)" "cstr (search_dir wd e) = search_dir wd e"
    using custr_dyn_reads [OF s3(2,3)] s3(3) by (simp_all add: search_dir_joins Let_def)
  obtain path' where path': "strlist_set_tail mem path (Some (search_dir wd e)) = Inr (Ret_ok, path')"
    "strlist_holds path' (ds @ [search_dir wd e])"
    using strlist_set_tail_holds [OF assms(1,5,6), of "search_dir wd e"] dir(2) by auto
  have c: "custr_len cu < 1 \<or> (e @ [NUL]) ! 0 \<noteq> SLASH \<longleftrightarrow> e = [] \<or> hd e \<noteq> SLASH" "0 < custr_len cu \<longleftrightarrow> e \<noteq> []"
    using custr_dyn_reads [OF assms(2,3)] by (cases e; auto)+
  have "path_element mem wd cu sd path = Inr (cu', s3, path')"
    using custr_dyn_reads [OF assms(2,3)] s0(1) s1(1) s2(1) s3(1) cu'(1) dir(1) path'(1) c
    by (simp add: path_element_def del: bindr_eq_Inr_iff)
  then show ?thesis using cu'(2) s3(2) path'(2) by blast
qed

lemma path_split_ok:
  assumes "good_alloc mem" "nul_free wd"
  shows "custr_dyn cu e \<Longrightarrow> nul_free e \<Longrightarrow> CHR '':'' \<notin> set e \<Longrightarrow> custr_dyn sd x \<Longrightarrow> strlist_holds path ds \<Longrightarrow> nul_free r \<Longrightarrow>
    length ds + length r + 34 < 2 ^ 32 \<Longrightarrow>
    \<exists>path'. path_split mem wd cu sd path r = Inr path' \<and> strlist_holds path' (ds @ search_dirs wd (e @ r))"
proof (induction r arbitrary: cu e sd x path ds)
  case Nil
  have "fields_of (CHR '':'') e = [e]" using fields_of_prefix [OF Nil(3), of "[]"] by simp
  then show ?case
    using path_element_ok [OF assms(1) Nil(1,2,4,5) _ assms(2)] Nil(7) by (auto simp: search_dirs_def)
next
  case (Cons c r)
  show ?case
  proof (cases "c = CHR '':''")
    case True
    obtain cu' sd' path' y where el: "path_element mem wd cu sd path = Inr (cu', sd', path')" "custr_dyn cu' []"
      "custr_dyn sd' y" "strlist_holds path' (ds @ [search_dir wd e])"
      using path_element_ok [OF assms(1) Cons.prems(1,2,4,5) _ assms(2)] Cons.prems(7) by auto
    have "fields_of (CHR '':'') (e @ c # r) = e # fields_of (CHR '':'') r"
      using fields_of_prefix [OF Cons.prems(3), of "c # r"] True by simp
    then show ?thesis
      using Cons.IH [OF el(2) _ _ el(3,4)] el(1) Cons.prems(6,7) True by (simp add: search_dirs_def)
  next
    case False
    obtain cu' where cu': "custr_appendc mem cu c = Inr (Ret_ok, cu')" "custr_dyn cu' (e @ [c])"
      using custr_appendc_dyn [OF Cons.prems(1) assms(1)] by blast
    show ?thesis
      using Cons.IH [OF cu'(2) _ _ Cons.prems(4,5)] cu'(1) Cons.prems(2,3,6,7) False by simp
  qed
qed

lemma nul_free_env_map: "\<forall>e \<in> set es. nul_free e \<Longrightarrow> env_map es n = Some v \<Longrightarrow> nul_free v"
  by (induction es) (auto dest!: split_env_Some split: option.splits if_splits)

definition env_path :: "char list list \<Rightarrow> char list" where
  "env_path es = (case env_map es ''PATH'' of None \<Rightarrow> DEFAULT_PATH | Some p \<Rightarrow> p)"

lemma getPathList_dirs:
  assumes "good_alloc mem" "strlist_holds env es" "length es < 2 ^ 32" "\<forall>e \<in> set es. nul_free e"
    and "strlist_holds path []" "nul_free wd" "length (env_path es) + 34 < 2 ^ 32"
  shows "\<exists>path'. getPathList mem env path wd = Inr path' \<and> strlist_holds path' (search_dirs wd (env_path es))"
proof -
  obtain cu where cu: "custr_alloc mem = (Ret_ok, Some cu)" "custr_dyn cu []" using custr_alloc_dyn [OF assms(1)] by blast
  have find: "path_find mem env 0 = Inr (env_map es ''PATH'')" using path_find_from [OF assms(1-3), of 0] by simp
  have "nul_free (env_path es)"
    using nul_free_env_map [OF assms(4), of "''PATH''"] by (auto simp: env_path_def DEFAULT_PATH_def split: option.split)
  from path_split_ok [OF assms(1,6) cu(2) _ _ cu(2) assms(5) this] assms(7) show ?thesis
    using cu(1) find by (auto simp: getPathList_def env_path_def)
qed

section \<open>The lookup of a command\<close>

lemma path_components_slash: "path_components (SLASH # s) = path_components s"
  by (simp add: path_components.simps [of "SLASH # s"] path_components.simps [of s] Let_def)

lemma path_components_name:
  assumes "w \<noteq> []" "SLASH \<notin> set w" "r = [] \<or> hd r = SLASH"
  shows "path_components (w @ r) = w # path_components r"
proof -
  have w: "takeWhile (\<lambda>c. c \<noteq> SLASH) w = w" "dropWhile (\<lambda>c. c \<noteq> SLASH) w = []"
    using assms(2) by (auto simp: takeWhile_eq_all_conv)
  have "dropWhile (\<lambda>c. c = SLASH) (w @ r) = w @ r" using assms(1,2) by (cases w) auto
  moreover have "takeWhile (\<lambda>c. c \<noteq> SLASH) (w @ r) = w" "dropWhile (\<lambda>c. c \<noteq> SLASH) (w @ r) = r"
    using w assms(2,3) by (cases r; auto simp: takeWhile_append dropWhile_append)+
  ultimately show ?thesis using assms(1) by (subst path_components.simps) (simp add: Let_def)
qed

lemma path_components_join:
  "\<forall>w \<in> set ws. w \<noteq> [] \<and> SLASH \<notin> set w \<Longrightarrow> path_components (join_slash ws) = ws"
proof (induction ws rule: join_slash.induct)
  case (2 w)
  then show ?case using path_components_name [of w "[]"] by simp
next
  case (3 w v ws)
  then show ?case using path_components_name [of w "SLASH # join_slash (v # ws)"] by (simp add: path_components_slash)
qed simp

lemma path_join_search_dir: "path_join [] (search_dir wd e) = search_dir wd e"
proof -
  let ?ws = "(if e \<noteq> [] \<and> hd e = SLASH then [] else path_components wd) @ path_components e"
  have "\<forall>w \<in> set ?ws. w \<noteq> [] \<and> SLASH \<notin> set w" using path_components_names [of wd] path_components_names [of e] by auto
  from path_components_join [OF this] show ?thesis
    by (simp add: search_dir_def path_join_def path_components_slash)
qed

definition runnable :: "stat_answers \<Rightarrow> char list \<Rightarrow> bool" where
  "runnable st name \<longleftrightarrow> (case st name of None \<Rightarrow> False | Some s \<Rightarrow> \<not> st_isdir s \<and> st_ixusr s)"

lemma exec_search_finds:
  assumes "good_alloc mem" "strlist_holds path ds" "length ds < 2 ^ 32" "\<forall>d \<in> set ds. nul_free d \<and> path_join [] d = d"
    and "nul_free cmd"
  shows "i \<le> length ds \<Longrightarrow> custr_dyn cu x \<Longrightarrow>
    (case find (runnable st) (map (\<lambda>d. path_join d cmd) (drop i ds)) of
       None \<Rightarrow> exec_search mem st cmd path cu (of_nat i) = fatal ERR_NOT_FOUND
     | Some name \<Rightarrow> \<exists>cu'. exec_search mem st cmd path cu (of_nat i) = Inr cu' \<and> custr_dyn cu' name)"
proof (induction "length ds - i" arbitrary: i cu x)
  case 0
  then show ?case
    using strlist_get_nth [OF assms(2), of i] assms(3) by (subst exec_search.simps) simp
next
  case (Suc m)
  then have i: "i < length ds" by simp
  have d: "drop i ds = ds ! i # drop (Suc i) ds" using i by (rule Cons_nth_drop_Suc [symmetric])
  have dir: "nul_free (ds ! i)" "path_join [] (ds ! i) = ds ! i" using assms(4) i by auto
  obtain c0 where c0: "custr_reset cu = Inr c0" "custr_dyn c0 []" using custr_reset_dyn [OF Suc.prems(2)] by blast
  obtain c1 where c1: "or_fatal ERR_UNEXPECTED (strpath_append mem c0 (ds ! i)) = Inr c1" "custr_dyn c1 (ds ! i)"
    using strpath_append_or_fatal [OF assms(1) c0(2) _ dir(1)] dir(2) by auto
  obtain c2 where c2: "or_fatal ERR_UNEXPECTED (strpath_append mem c1 cmd) = Inr c2"
    "custr_dyn c2 (path_join (ds ! i) cmd)" "nul_free (path_join (ds ! i) cmd)"
    using strpath_append_or_fatal [OF assms(1) c1(2) dir(1) assms(5)] by blast
  have get: "strlist_get path (of_nat i) = Inr (Some (ds ! i))" using strlist_get_nth [OF assms(2), of i] assms(3) i by simp
  have "exec_search mem st cmd path cu (of_nat i) =
      (if runnable st (path_join (ds ! i) cmd) then Inr c2 else exec_search mem st cmd path c2 (of_nat (Suc i)))"
    using get c0(1) c1(1) c2(1) custr_dyn_reads [OF c2(2,3)]
    by (subst exec_search.simps) (auto simp: runnable_def add.commute split: option.split)
  moreover have "m = length ds - Suc i" "Suc i \<le> length ds" using Suc.hyps(2) i by simp_all
  ultimately show ?case
    using Suc.hyps(1) [of "Suc i" c2, OF _ _ c2(2)] c2(2) unfolding d
    by (cases "runnable st (path_join (ds ! i) cmd)") (simp_all split: option.splits)
qed

lemma search_dirs_ok:
  assumes "\<forall>e \<in> set es. nul_free e" "nul_free wd" "length (env_path es) + 35 < 2 ^ 32"
  shows "\<forall>d \<in> set (search_dirs wd (env_path es)). nul_free d \<and> path_join [] d = d" "length (search_dirs wd (env_path es)) < 2 ^ 32"
proof -
  have flds: "nul_free s \<Longrightarrow> \<forall>f \<in> set (fields_of d s). nul_free f" for d s
    by (induction d s rule: fields_of.induct) (auto split: list.splits)
  have len: "length (fields_of d s) \<le> Suc (length s)" for d s
    by (induction d s rule: fields_of.induct) (auto split: list.splits)
  have "nul_free (env_path es)"
    using nul_free_env_map [OF assms(1), of "''PATH''"] by (auto simp: env_path_def DEFAULT_PATH_def split: option.split)
  then show "\<forall>d \<in> set (search_dirs wd (env_path es)). nul_free d \<and> path_join [] d = d" "length (search_dirs wd (env_path es)) < 2 ^ 32"
    using flds nul_free_search_dir [OF assms(2)] path_join_search_dir len [of "CHR '':''" "env_path es"] assms(3)
    by (auto simp: search_dirs_def)
qed

text \<open>The two ways \<^verbatim>\<open>execName\<close> goes once the search path is built.\<close>

lemma execName_start:
  assumes "good_alloc mem" "strlist_holds env es" "length es < 2 ^ 32" "\<forall>e \<in> set es. nul_free e"
    and "nul_free wd" "length (env_path es) + 35 < 2 ^ 32"
  shows "\<exists>cu path. custr_alloc mem = (Ret_ok, Some cu) \<and> custr_dyn cu [] \<and> strlist_holds path (search_dirs wd (env_path es)) \<and>
    (SLASH \<in> set cmd \<longrightarrow> execName mem st cmd env wd = (case st cmd of
                  None \<Rightarrow> fatal ERR_STAT_CMD
                | Some s \<Rightarrow>
                    if st_isdir s then fatal ERR_STAT_DIR
                    else if \<not> st_ixusr s then fatal ERR_STAT_EXEC
                    else bindr (custr_reset cu) (\<lambda>cu. or_fatal ERR_NO_MEMORY (strpath_append mem cu cmd)))) \<and>
    (SLASH \<notin> set cmd \<longrightarrow> execName mem st cmd env wd = exec_search mem st cmd path cu 0)"
proof -
  obtain cu where cu: "custr_alloc mem = (Ret_ok, Some cu)" "custr_dyn cu []" using custr_alloc_dyn [OF assms(1)] by blast
  obtain p0 where p0: "strlist_alloc mem 0 = (Ret_ok, Some p0)" "strlist_holds p0 []"
    using strlist_alloc_ok [OF assms(1), of 0] by (auto simp: strlist_holds_def)
  obtain path where "getPathList mem env p0 wd = Inr path" "strlist_holds path (search_dirs wd (env_path es))"
    using getPathList_dirs [OF assms(1-4) p0(2) assms(5)] assms(6) by auto
  then show ?thesis using cu p0(1) by (intro exI [of _ cu] exI [of _ path]) (simp add: execName_def)
qed

lemma command_path:
  assumes "good_alloc mem" "custr_dyn cu x" "nul_free cmd"
  shows "\<exists>c. bindr (custr_reset cu) (\<lambda>cu. or_fatal ERR_NO_MEMORY (strpath_append mem cu cmd)) = Inr c \<and>
    custr_cstr c = Inr (path_join [] cmd)"
proof -
  obtain c0 where c0: "custr_reset cu = Inr c0" "custr_dyn c0 []" using custr_reset_dyn [OF assms(2)] by blast
  obtain c1 where "or_fatal ERR_NO_MEMORY (strpath_append mem c0 cmd) = Inr c1" "custr_dyn c1 (path_join [] cmd)"
    "nul_free (path_join [] cmd)" using strpath_append_or_fatal [OF assms(1) c0(2) _ assms(3)] by auto
  then show ?thesis using c0(1) custr_dyn_reads by auto
qed

section \<open>Properties\<close>

text \<open>C22: The environment of a container is a map from names to values, kept as an array of
  \<^verbatim>\<open>name=value\<close> strings. \<^verbatim>\<open>insertOrReplaceEnv\<close> refines the update of the map: it succeeds, the
  variable has the new value, every other one keeps its value, a variable that is there keeps its place in
  the array, and no variable gets a second entry. An entry of the metadata without a name, or without an
  equals sign, changes nothing.\<close>

theorem insertOrReplaceEnv_updates_map:
  assumes "good_alloc mem" "strlist_holds sl es" "length es + 34 < 2 ^ 32" "env_name n" "nul_free n" "nul_free v"
  shows "returns (insertOrReplaceEnv mem sl n v) (\<lambda>sl'. \<exists>es'. strlist_holds sl' es' \<and>
      env_map es' = (env_map es)(n \<mapsto> v) \<and> (env_distinct es \<longrightarrow> env_distinct es') \<and>
      (\<forall>i < length es. es' ! i = es ! i \<or> is_entry n (es ! i) \<and> es' ! i = n @ EQUALS # v) \<and>
      length es' = (if env_map es n = None then Suc (length es) else length es)) \<and>
    (\<forall>e. split_env e = None \<longrightarrow> cbEachEnvEntry mem i e sl = Inr sl)"
proof -
  obtain sl' where sl': "insertOrReplaceEnv mem sl n v = Inr sl'" "strlist_holds sl' (env_put n v es)"
    using insertOrReplaceEnv_puts [OF assms(1-3,5,6)] by blast
  have place: "\<forall>i < length es. env_put n v es ! i = es ! i \<or> is_entry n (es ! i) \<and> env_put n v es ! i = n @ EQUALS # v"
  proof (induction es)
    case (Cons e es)
    then show ?case by (auto simp: nth_Cons split: nat.split)
  qed simp
  have len: "length (env_put n v es) = (if env_map es n = None then Suc (length es) else length es)"
    by (induction es) (auto split: option.split)
  show ?thesis
    using sl' env_map_put [OF assms(4), of v es] env_distinct_put [OF assms(4), of es v] place len
    by (auto simp: cbEachEnvEntry_def splitEnvEntry_good [OF assms(1)])
qed

theorem insertOrReplaceEnv_updates_map_witness:
  "returns (insertOrReplaceEnv heap_base \<lparr>sl_strings = [Some ''A=1'', None], sl_capacity = 1\<rparr> ''A'' ''2'')
     (\<lambda>sl'. \<exists>es'. strlist_holds sl' es' \<and> env_map es' ''A'' = Some ''2'' \<and> length es' = 1)"
proof -
  have "strlist_holds \<lparr>sl_strings = [Some ''A=1'', None], sl_capacity = 1\<rparr> [''A=1'']"
    by (simp add: strlist_holds_def strlist_ok_def)
  from insertOrReplaceEnv_updates_map [OF good_heap_base this, of "''A''" "''2''"] show ?thesis
    by (fastforce simp: env_name_def split_env_def elim!: returns_mono)
qed

text \<open>C20: The lookup of a command. A command with a slash is taken as it is, and must be there, not be a
  directory and be executable, each failure with its own exit code. Any other command is looked for
  in the directories of the environment's \<^verbatim>\<open>PATH\<close> (the default one if there is none), from left to
  right, empty and relative elements taken from the working directory, and the first executable file that
  is no directory is the result; if there is none the program exits with \<^verbatim>\<open>ERR_NOT_FOUND\<close>.\<close>

theorem execName_finds:
  assumes "good_alloc mem" "strlist_holds env es" "length es < 2 ^ 32" "\<forall>e \<in> set es. nul_free e"
    and "nul_free wd" "nul_free cmd" "length (env_path es) + 35 < 2 ^ 32"
  shows "case (if SLASH \<in> set cmd then Inl (st cmd)
      else Inr (find (runnable st) (map (\<lambda>d. path_join d cmd) (search_dirs wd (env_path es))))) of
      Inl None \<Rightarrow> execName mem st cmd env wd = Inl (Fault_Exit ERR_STAT_CMD)
    | Inl (Some s) \<Rightarrow>
        if st_isdir s then execName mem st cmd env wd = Inl (Fault_Exit ERR_STAT_DIR)
        else if \<not> st_ixusr s then execName mem st cmd env wd = Inl (Fault_Exit ERR_STAT_EXEC)
        else returns (execName mem st cmd env wd) (\<lambda>cu. custr_cstr cu = Inr (path_join [] cmd))
    | Inr None \<Rightarrow> execName mem st cmd env wd = Inl (Fault_Exit ERR_NOT_FOUND)
    | Inr (Some name) \<Rightarrow> returns (execName mem st cmd env wd) (\<lambda>cu. custr_cstr cu = Inr name)"
proof -
  let ?ds = "search_dirs wd (env_path es)"
  obtain cu path where cu: "custr_alloc mem = (Ret_ok, Some cu)" "custr_dyn cu []" and path: "strlist_holds path ?ds"
    and direct: "SLASH \<in> set cmd \<Longrightarrow> execName mem st cmd env wd = (case st cmd of
                  None \<Rightarrow> fatal ERR_STAT_CMD
                | Some s \<Rightarrow>
                    if st_isdir s then fatal ERR_STAT_DIR
                    else if \<not> st_ixusr s then fatal ERR_STAT_EXEC
                    else bindr (custr_reset cu) (\<lambda>cu. or_fatal ERR_NO_MEMORY (strpath_append mem cu cmd)))"
    and run: "SLASH \<notin> set cmd \<Longrightarrow> execName mem st cmd env wd = exec_search mem st cmd path cu 0"
    using execName_start [OF assms(1-5,7)] by blast
  note ds = search_dirs_ok [OF assms(4,5,7)]
  have exits: "fatal e = Inl (Fault_Exit e)" if "e \<in> {ERR_STAT_CMD, ERR_STAT_DIR, ERR_STAT_EXEC, ERR_NOT_FOUND}" for e
    using that by (auto simp: fatal_def dockerinit_err_defs)
  show ?thesis
  proof (cases "SLASH \<in> set cmd")
    case True
    obtain c1 where "bindr (custr_reset cu) (\<lambda>cu. or_fatal ERR_NO_MEMORY (strpath_append mem cu cmd)) = Inr c1"
      "custr_cstr c1 = Inr (path_join [] cmd)" using command_path [OF assms(1) cu(2) assms(6)] by blast
    then show ?thesis using direct [OF True] True by (auto simp: exits split: option.split)
  next
    case False
    have "nul_free name" if "find (runnable st) (map (\<lambda>d. path_join d cmd) ?ds) = Some name" for name
      using that ds(1) nul_free_path_join assms(6) by (auto simp: find_Some_iff)
    then show ?thesis
      using exec_search_finds [OF assms(1) path ds(2,1) assms(6), of 0 cu "[]" st] cu(2) False custr_dyn_reads
      by (auto simp: run [OF False] exits split: option.split)
  qed
qed

theorem execName_finds_witness:
  "returns (execName heap_base (\<lambda>n. if n = ''/home/bin/ls'' then Some \<lparr>st_isdir = False, st_ixusr = True\<rparr> else None)
      ''ls'' \<lparr>sl_strings = [Some ''PATH=/sbin:bin'', None], sl_capacity = 1\<rparr> ''/home/'')
     (\<lambda>cu. custr_cstr cu = Inr ''/home/bin/ls'')"
proof -
  let ?st = "\<lambda>n. if n = ''/home/bin/ls'' then Some \<lparr>st_isdir = False, st_ixusr = True\<rparr> else None"
  have env: "strlist_holds \<lparr>sl_strings = [Some ''PATH=/sbin:bin'', None], sl_capacity = 1\<rparr> [''PATH=/sbin:bin'']"
    by (simp add: strlist_holds_def strlist_ok_def)
  have p: "env_path [''PATH=/sbin:bin''] = ''/sbin:bin''" by (simp add: env_path_def split_env_def)
  have "map (\<lambda>d. path_join d ''ls'') (search_dirs ''/home/'' ''/sbin:bin'') = [''/sbin/ls'', ''/home/bin/ls'']"
    by code_simp
  then have "find (runnable ?st) (map (\<lambda>d. path_join d ''ls'') (search_dirs ''/home/'' ''/sbin:bin'')) = Some ''/home/bin/ls''"
    by (simp add: runnable_def)
  then show ?thesis
    using execName_finds [OF good_heap_base env, of "''/home/''" "''ls''" ?st] p by simp
qed

end
