(* ===== verification/Dynstr.thy ===== *)
theory Dynstr
  imports String_Buffer
begin

text \<open>
  \<^verbatim>\<open>src/src/dockerinit/mdata-client/dynstr.c\<close>: the growable string of the metadata client.
  The record is \<^verbatim>\<open>struct string\<close>; each operation below is the C function of the same name,
  with the allocator as an argument and every write through a bounds check. The abstraction is
  \<open>dynstr_rep\<close>, the contract is the interpretation of \<open>string_buffer\<close>.
\<close>

section \<open>State and operations\<close>

record string_t =
  str_strlen :: nat
  str_datalen :: nat
  str_data :: "buf option"

definition DYNSTR_CHUNK_SIZE :: nat where
  "DYNSTR_CHUNK_SIZE = 64"

definition dynstr_new :: "allocator \<Rightarrow> string_t outcome" where
  "dynstr_new mem =
     (case mem 24 of
        None \<Rightarrow> Inl (Fault_Exit 10)
      | Some _ \<Rightarrow> Inr \<lparr>str_strlen = 0, str_datalen = 0, str_data = None\<rparr>)"

definition dynstr_reset :: "string_t \<Rightarrow> string_t outcome" where
  "dynstr_reset str =
     (case str_data str of
        None \<Rightarrow> Inr str
      | Some b \<Rightarrow>
          bindr (buf_put b 0 [NUL])
            (\<lambda>b'. Inr (str\<lparr>str_strlen := 0, str_data := Some b'\<rparr>)))"

definition dynstr_len :: "string_t \<Rightarrow> nat" where
  "dynstr_len str = str_strlen str"

text \<open>A null \<^verbatim>\<open>str_data\<close> is handed to the caller, who dereferences it.\<close>

definition dynstr_cstr :: "string_t \<Rightarrow> char list outcome" where
  "dynstr_cstr str = (case str_data str of None \<Rightarrow> Inl Fault_Null | Some b \<Rightarrow> buf_cstr b)"

text \<open>What a caller reads through \<^verbatim>\<open>dynstr_cstr(str)\<close> when it also passes a byte count.\<close>

definition dynstr_bytes :: "string_t \<Rightarrow> nat \<Rightarrow> char list outcome" where
  "dynstr_bytes str n = (case str_data str of None \<Rightarrow> Inl Fault_Null | Some b \<Rightarrow> buf_bytes b n)"

text \<open>The growth step shared by both appends: \<^verbatim>\<open>str_datalen += chunksz; realloc\<close>.\<close>

definition dynstr_grow :: "allocator \<Rightarrow> string_t \<Rightarrow> nat \<Rightarrow> string_t outcome" where
  "dynstr_grow mem str chunksz =
     (let n = str_datalen str + chunksz;
          old = (case str_data str of None \<Rightarrow> [] | Some b \<Rightarrow> b)
      in case mem n of
           None \<Rightarrow> Inl (Fault_Exit 1)
         | Some _ \<Rightarrow> Inr (str\<lparr>str_datalen := n, str_data := Some (buf_realloc old n)\<rparr>))"

definition dynstr_appendc :: "allocator \<Rightarrow> string_t \<Rightarrow> char \<Rightarrow> string_t outcome" where
  "dynstr_appendc mem str newc =
     bindr (if str_datalen str \<le> str_strlen str + 1
            then dynstr_grow mem str DYNSTR_CHUNK_SIZE else Inr str)
       (\<lambda>str'. case str_data str' of
            None \<Rightarrow> Inl Fault_Null
          | Some b \<Rightarrow>
              bindr (buf_put b (str_strlen str') [newc]) (\<lambda>b1.
              bindr (buf_put b1 (str_strlen str' + 1) [NUL]) (\<lambda>b2.
              Inr (str'\<lparr>str_strlen := str_strlen str' + 1, str_data := Some b2\<rparr>))))"

text \<open>
  \<^verbatim>\<open>len\<close> and \<^verbatim>\<open>chunksz\<close> are \<^verbatim>\<open>int\<close>s: a string longer than \<^verbatim>\<open>INT_MAX\<close> is outside the
  modelled range, and a \<^verbatim>\<open>chunksz\<close> above \<^verbatim>\<open>INT_MAX\<close> is the signed overflow of the doubling.
\<close>

definition dynstr_append :: "allocator \<Rightarrow> string_t \<Rightarrow> char list \<Rightarrow> string_t outcome" where
  "dynstr_append mem str news =
     (let s = cstr news; len = length s; chunksz = double_until DYNSTR_CHUNK_SIZE len
      in if INT_MAX < len then Inl Fault_Range
         else if INT_MAX < chunksz then Inl Fault_UB
         else bindr (if str_datalen str \<le> len + str_strlen str
                     then dynstr_grow mem str chunksz else Inr str)
           (\<lambda>str'. case str_data str' of
                None \<Rightarrow> Inl Fault_Null
              | Some b \<Rightarrow>
                  bindr (buf_put b (str_strlen str') (s @ [NUL])) (\<lambda>b'.
                  Inr (str'\<lparr>str_strlen := str_strlen str' + len, str_data := Some b'\<rparr>))))"

section \<open>Well-formedness and abstraction\<close>

definition dynstr_rep :: "string_t \<Rightarrow> char list \<Rightarrow> bool" where
  "dynstr_rep str cs \<longleftrightarrow>
     str_strlen str = length cs \<and>
     (case str_data str of
        None \<Rightarrow> str_datalen str = 0 \<and> cs = []
      | Some b \<Rightarrow> length b = str_datalen str \<and> buf_holds b (cs @ [NUL]))"

abbreviation dynstr_owns :: "string_t \<Rightarrow> bool" where
  "dynstr_owns str \<equiv> str_data str \<noteq> None"

lemma dynstr_rep_unique: "dynstr_rep s cs \<Longrightarrow> dynstr_rep s ds \<Longrightarrow> cs = ds"
  by (auto simp: dynstr_rep_def buf_holds_def split: option.splits)

lemma dynstr_rep_len: "dynstr_rep s cs \<Longrightarrow> dynstr_len s = length cs"
  by (simp add: dynstr_rep_def dynstr_len_def)

lemma dynstr_new_rep:
  "good_alloc mem \<Longrightarrow> \<exists>s. dynstr_new mem = Inr s \<and> dynstr_rep s [] \<and> \<not> dynstr_owns s"
  by (drule good_allocD [of _ 24]) (auto simp: dynstr_new_def dynstr_rep_def)

lemma dynstr_cstr_rep: "dynstr_rep s cs \<Longrightarrow> dynstr_owns s \<Longrightarrow> dynstr_cstr s = Inr (cstr cs)"
  by (auto simp: dynstr_rep_def dynstr_cstr_def dest: buf_cstr_holds)

lemma dynstr_bytes_rep:
  "dynstr_rep s cs \<Longrightarrow> dynstr_owns s \<Longrightarrow> dynstr_bytes s (dynstr_len s) = Inr cs"
  by (auto simp: dynstr_rep_def dynstr_bytes_def dynstr_len_def dest: buf_bytes_holds)

lemma dynstr_reset_rep:
  assumes "dynstr_rep s cs"
  shows "\<exists>s'. dynstr_reset s = Inr s' \<and> dynstr_rep s' [] \<and> dynstr_owns s' = dynstr_owns s"
proof (cases "str_data s")
  case None
  with assms show ?thesis by (auto simp: dynstr_reset_def dynstr_rep_def)
next
  case (Some b)
  with assms have b: "length b = str_datalen s" "buf_holds b (cs @ [NUL])"
    by (auto simp: dynstr_rep_def)
  have "length ([] :: char list) + length [NUL] \<le> length b"
    using buf_holds_length [OF b(2)] by simp
  from buf_put_append [OF buf_holds_Nil this] obtain b'
    where "buf_put b 0 [NUL] = Inr b'" "buf_holds b' [NUL]" "length b' = length b"
    by auto
  with Some b show ?thesis by (auto simp: dynstr_reset_def dynstr_rep_def)
qed

lemma dynstr_grow_rep:
  assumes "dynstr_rep s cs" "good_alloc mem"
  shows "\<exists>s' b. dynstr_grow mem s k = Inr s' \<and> str_data s' = Some b \<and> length b = str_datalen s + k
           \<and> str_strlen s' = length cs \<and> str_datalen s' = str_datalen s + k \<and>
           (dynstr_owns s \<longrightarrow> buf_holds b (cs @ [NUL])) \<and> buf_holds b cs"
proof -
  obtain a where a: "mem (str_datalen s + k) = Some a"
    using assms(2) by (auto simp: good_alloc_def)
  show ?thesis
  proof (cases "str_data s")
    case None
    with assms a show ?thesis by (auto simp: dynstr_grow_def dynstr_rep_def)
  next
    case (Some b)
    with assms have b: "length b = str_datalen s" "buf_holds b (cs @ [NUL])"
      by (auto simp: dynstr_rep_def)
    have "buf_holds (buf_realloc b (str_datalen s + k)) (cs @ [NUL])"
      using b buf_holds_length [OF b(2)] by (intro buf_holds_realloc) auto
    with Some a assms show ?thesis
      by (auto simp: dynstr_grow_def dynstr_rep_def Let_def intro: buf_holds_prefix)
  qed
qed

text \<open>Writing a tail after the contents of a grown or roomy buffer.\<close>

lemma dynstr_write_tail:
  assumes "buf_holds b cs" "length cs + length (t @ [NUL]) \<le> length b"
  shows "\<exists>b'. buf_put b (length cs) (t @ [NUL]) = Inr b' \<and> length b' = length b \<and>
           buf_holds b' ((cs @ t) @ [NUL])"
  using buf_put_append [OF assms] by auto

lemma dynstr_appendc_rep:
  assumes "dynstr_rep s cs" "good_alloc mem"
  shows "\<exists>s'. dynstr_appendc mem s c = Inr s' \<and> dynstr_rep s' (cs @ [c]) \<and> dynstr_owns s'"
proof -
  obtain s1 b where s1: "(if str_datalen s \<le> str_strlen s + 1
        then dynstr_grow mem s DYNSTR_CHUNK_SIZE else Inr s) = Inr s1"
    and b: "str_data s1 = Some b" "length b = str_datalen s1" "str_strlen s1 = length cs"
      "buf_holds b cs" "length cs + 2 \<le> length b"
  proof (cases "str_datalen s \<le> str_strlen s + 1")
    case True
    obtain s' b where g: "dynstr_grow mem s DYNSTR_CHUNK_SIZE = Inr s'" "str_data s' = Some b"
      "length b = str_datalen s + 64" "str_strlen s' = length cs"
      "str_datalen s' = str_datalen s + 64" "dynstr_owns s \<longrightarrow> buf_holds b (cs @ [NUL])"
      "buf_holds b cs"
      using dynstr_grow_rep [OF assms, of DYNSTR_CHUNK_SIZE]
      by (auto simp: DYNSTR_CHUNK_SIZE_def)
    have "length cs \<le> str_datalen s"
      using assms(1) buf_holds_length
      by (fastforce simp: dynstr_rep_def split: option.splits)
    then show thesis using True g that by simp
  next
    case False
    then obtain b where "str_data s = Some b" "length b = str_datalen s"
      "buf_holds b (cs @ [NUL])" "str_strlen s = length cs"
      using assms(1) by (auto simp: dynstr_rep_def split: option.splits)
    then show thesis using False that by (auto dest: buf_holds_prefix)
  qed
  obtain b1 where b1: "buf_put b (length cs) [c] = Inr b1" "buf_holds b1 (cs @ [c])"
    "length b1 = length b"
    using buf_put_append [OF b(4), of "[c]"] b(5) by auto
  obtain b2 where "buf_put b1 (length (cs @ [c])) [NUL] = Inr b2"
    "buf_holds b2 ((cs @ [c]) @ [NUL])" "length b2 = length b1"
    using buf_put_append [OF b1(2), of "[NUL]"] b(5) b1(3) by auto
  then show ?thesis
    using s1 b b1 by (auto simp: dynstr_appendc_def dynstr_rep_def)
qed

text \<open>The chunk never overflows an \<^verbatim>\<open>int\<close> for strings of at most \<open>2 ^ 30\<close> bytes.\<close>

lemma dynstr_chunk_bound: "n \<le> 2 ^ 30 \<Longrightarrow> double_until DYNSTR_CHUNK_SIZE n \<le> INT_MAX"
proof -
  assume n: "n \<le> 2 ^ 30"
  have "double_until 64 n < 2 * n \<or> double_until 64 n = 64"
    by (rule double_until_less) simp
  with n show ?thesis by (auto simp: DYNSTR_CHUNK_SIZE_def INT_MAX_def)
qed

text \<open>\<^verbatim>\<open>dynstr_append\<close> once the buffer it writes into is known.\<close>

lemma dynstr_append_unfold:
  assumes "length (cstr t) \<le> 2 ^ 30"
  shows "dynstr_append mem s t =
     bindr (if str_datalen s \<le> length (cstr t) + str_strlen s
            then dynstr_grow mem s (double_until 64 (length (cstr t))) else Inr s)
       (\<lambda>s'. case str_data s' of None \<Rightarrow> Inl Fault_Null
          | Some b \<Rightarrow> bindr (buf_put b (str_strlen s') (cstr t @ [NUL])) (\<lambda>b'.
              Inr (s'\<lparr>str_strlen := str_strlen s' + length (cstr t), str_data := Some b'\<rparr>)))"
proof -
  have "\<not> INT_MAX < length (cstr t)" using assms by (simp add: INT_MAX_def)
  then show ?thesis
    using dynstr_chunk_bound [OF assms]
    by (simp add: dynstr_append_def DYNSTR_CHUNK_SIZE_def Let_def)
qed

lemma dynstr_append_rep:
  assumes "dynstr_rep s cs" "good_alloc mem" "length (cstr t) \<le> 2 ^ 30"
    and "dynstr_owns s \<or> double_until 64 (length (cstr t)) \<noteq> length (cstr t)"
  shows "\<exists>s'. dynstr_append mem s t = Inr s' \<and> dynstr_rep s' (cs @ cstr t) \<and> dynstr_owns s'"
proof -
  let ?n = "length (cstr t)" and ?k = "double_until 64 (length (cstr t))"
  have k: "?n \<le> ?k" "64 \<le> ?k" by (simp_all add: double_until_ge double_until_pos)
  obtain s1 b where s1: "(if str_datalen s \<le> ?n + str_strlen s
        then dynstr_grow mem s ?k else Inr s) = Inr s1"
    and b: "str_data s1 = Some b" "length b = str_datalen s1" "str_strlen s1 = length cs"
      "buf_holds b cs" "length cs + (?n + 1) \<le> length b"
  proof (cases "str_datalen s \<le> ?n + str_strlen s")
    case True
    obtain s' b where g: "dynstr_grow mem s ?k = Inr s'" "str_data s' = Some b"
      "length b = str_datalen s + ?k" "str_strlen s' = length cs"
      "str_datalen s' = str_datalen s + ?k" "buf_holds b cs"
      using dynstr_grow_rep [OF assms(1,2)] by blast
    have "length cs + (?n + 1) \<le> str_datalen s + ?k"
    proof (cases "str_data s")
      case None
      with assms(1,4) k show ?thesis by (auto simp: dynstr_rep_def)
    next
      case (Some b0)
      with assms(1) have "length cs + 1 \<le> str_datalen s"
        by (auto simp: dynstr_rep_def dest: buf_holds_length)
      with k show ?thesis by simp
    qed
    then show thesis using True g that by simp
  next
    case False
    then obtain b where "str_data s = Some b" "length b = str_datalen s"
      "buf_holds b (cs @ [NUL])" "str_strlen s = length cs"
      using assms(1) by (auto simp: dynstr_rep_def split: option.splits)
    then show thesis using False that by (auto dest: buf_holds_prefix)
  qed
  obtain b' where "buf_put b (length cs) (cstr t @ [NUL]) = Inr b'" "length b' = length b"
    "buf_holds b' ((cs @ cstr t) @ [NUL])"
    using dynstr_write_tail [OF b(4), of "cstr t"] b(5) by auto
  then show ?thesis
    using s1 b by (auto simp: dynstr_append_unfold [OF assms(3)] dynstr_rep_def)
qed

text \<open>A fresh string and a string whose length is a doubling of 64: one byte too few.\<close>

lemma dynstr_append_fresh_OOB:
  assumes "dynstr_rep s cs" "good_alloc mem" "length (cstr t) \<le> 2 ^ 30"
    and "\<not> dynstr_owns s" "double_until 64 (length (cstr t)) = length (cstr t)"
  shows "dynstr_append mem s t = Inl Fault_OOB"
proof -
  have s: "str_data s = None" "str_datalen s = 0" "str_strlen s = 0"
    using assms(1,4) by (auto simp: dynstr_rep_def)
  obtain s' b where "dynstr_grow mem s (length (cstr t)) = Inr s'" "str_data s' = Some b"
    "length b = str_datalen s + length (cstr t)" "str_strlen s' = length cs"
    using dynstr_grow_rep [OF assms(1,2)] by blast
  then show ?thesis
    using s assms(5) by (simp add: dynstr_append_unfold [OF assms(3)] buf_put_def)
qed

section \<open>The contract\<close>

definition outcome_option :: "'a outcome \<Rightarrow> 'a option" where
  "outcome_option m = (case m of Inl _ \<Rightarrow> None | Inr x \<Rightarrow> Some x)"

lemma outcome_option_simps [simp]:
  "outcome_option (Inr x) = Some x" "outcome_option (Inl e) = None"
  by (simp_all add: outcome_option_def)

text \<open>
  With memory available the operations meet the contract; \<open>Some\<close> is a normal return. The
  interpretation on a concrete allocator makes the facts usable at the top level.
\<close>

sublocale working_heap \<subseteq> dyn: string_buffer dynstr_rep "\<lambda>s. dynstr_owns s"
  "\<lambda>s c. outcome_option (dynstr_appendc mem s c)"
  "\<lambda>s t. outcome_option (dynstr_append mem s t)"
  "\<lambda>s. outcome_option (dynstr_reset s)" dynstr_cstr
proof (unfold_locales, goal_cases)
  case (1 s cs c)
  then show ?case using dynstr_appendc_rep [OF 1 good, of c] by auto
next
  case (2 s cs t)
  then show ?case using dynstr_append_rep [OF 2(1) good 2(3)] by auto
next
  case (3 s cs)
  then show ?case using dynstr_reset_rep [OF 3] by auto
next
  case (4 s cs)
  then show ?case by (rule dynstr_cstr_rep)
next
  case (5 s cs ds)
  then show ?case by (rule dynstr_rep_unique)
qed

interpretation heap0: working_heap heap_base
  by unfold_locales (rule good_heap_base)

section \<open>Properties\<close>

text \<open>C23: With memory available and a text of at most a gigabyte, \<^verbatim>\<open>dynstr_append\<close> writes past
  the end of its allocation exactly when the string owns no storage yet and the text is 64, 128,
  256, \<open>\<dots>\<close> characters long; in every other case the string afterwards holds the old text
  followed by the new one.\<close>

theorem dynstr_append_overflow_iff:
  assumes "dynstr_rep s cs" "good_alloc mem" "length (cstr t) \<le> 2 ^ 30"
  shows "(dynstr_append mem s t = Inl Fault_OOB \<longleftrightarrow>
            \<not> dynstr_owns s \<and> (\<exists>k. length (cstr t) = 64 * 2 ^ k)) \<and>
         (dynstr_append mem s t \<noteq> Inl Fault_OOB \<longrightarrow>
            returns (dynstr_append mem s t) (\<lambda>s'. dynstr_rep s' (cs @ cstr t) \<and> dynstr_owns s'))"
proof (cases "dynstr_owns s \<or> double_until 64 (length (cstr t)) \<noteq> length (cstr t)")
  case True
  from dynstr_append_rep [OF assms True] obtain s' where
    "dynstr_append mem s t = Inr s'" "dynstr_rep s' (cs @ cstr t)" "dynstr_owns s'" by blast
  with True show ?thesis using double_until_fixed_iff [of 64 "length (cstr t)"] by auto
next
  case False
  with dynstr_append_fresh_OOB [OF assms] show ?thesis
    using double_until_fixed_iff [of 64 "length (cstr t)"] by auto
qed

definition dynstr_empty :: string_t where
  "dynstr_empty = \<lparr>str_strlen = 0, str_datalen = 0, str_data = None\<rparr>"

lemma dynstr_empty_rep [simp]: "dynstr_rep dynstr_empty []" "str_data dynstr_empty = None"
  by (simp_all add: dynstr_empty_def dynstr_rep_def)

theorem dynstr_append_overflow_iff_witness:
  "dynstr_append heap_base dynstr_empty (replicate 64 (CHR ''a'')) = Inl Fault_OOB"
proof -
  have "nul_free (replicate 64 (CHR ''a''))" by (simp add: nul_free_def)
  then have c: "cstr (replicate 64 (CHR ''a'')) = replicate 64 (CHR ''a'')" by (rule cstr_id)
  have k: "\<exists>k. length (cstr (replicate 64 (CHR ''a''))) = 64 * 2 ^ k"
    unfolding c by (rule exI [of _ 0]) simp
  have "length (cstr (replicate 64 (CHR ''a''))) \<le> 2 ^ 30" unfolding c by simp
  from dynstr_append_overflow_iff [OF dynstr_empty_rep(1) good_heap_base this] k
  show ?thesis by simp
qed

end
