(* ===== verification/Base64.thy ===== *)
theory Base64
  imports Dynstr
begin

unbundle bit_operations_syntax

text \<open>
  \<^verbatim>\<open>src/src/dockerinit/mdata-client/base64.c\<close>: the payload encoding of the metadata protocol.
  \<open>base64_encode\<close> and \<open>base64_decode\<close> follow the C loops byte index by byte index, with the
  shifts and masks of the source, and write into a \<^verbatim>\<open>string_t\<close>. \<open>b64_spec\<close> is the textbook
  encoding; the encoder refines it. The decoder appends each decoded group as a C string, so
  what comes back is the input with everything after a NUL dropped from each group of three.
\<close>

section \<open>The encoder and the decoder\<close>

definition base64 :: "char list" where
  "base64 = ''ABCDEFGHIJKLMNOPQRSTUVWXYZabcdefghijklmnopqrstuvwxyz0123456789+/''"

abbreviation byte_val :: "char \<Rightarrow> int" where
  "byte_val c \<equiv> int (of_char c)"

text \<open>The four characters for the (up to three) input bytes that start at index \<open>i\<close>.\<close>

definition base64_quad :: "char list \<Rightarrow> nat \<Rightarrow> char list" where
  "base64_quad input i =
     (let len = length input;
          c0 = push_bit 16 (byte_val (input ! i));
          i1 = i + 1;
          c1 = (if i1 < len then c0 OR push_bit 8 (byte_val (input ! i1)) else c0);
          i2 = i1 + 1;
          c = (if i2 < len then c1 OR byte_val (input ! i2) else c1);
          i3 = i2 + 1
      in [base64 ! nat (drop_bit 18 (c AND 0x00fc0000)),
          base64 ! nat (drop_bit 12 (c AND 0x0003f000)),
          (if len + 1 < i3 then CHR ''='' else base64 ! nat (drop_bit 6 (c AND 0x00000fc0))),
          (if len < i3 then CHR ''='' else base64 ! nat (c AND 0x0000003f))])"

function base64_encode_loop :: "allocator \<Rightarrow> char list \<Rightarrow> nat \<Rightarrow> string_t \<Rightarrow> string_t outcome" where
  "base64_encode_loop mem input i output =
     (if i < length input
      then bindr (dynstr_append mem output (base64_quad input i))
             (\<lambda>output'. base64_encode_loop mem input (i + 3) output')
      else Inr output)"
  by pat_completeness auto
termination
  by (relation "measure (\<lambda>(mem, input, i, output). length input - i)") auto

definition base64_encode :: "allocator \<Rightarrow> char list \<Rightarrow> string_t \<Rightarrow> string_t outcome" where
  "base64_encode mem input output =
     bindr (dynstr_append mem output []) (\<lambda>output'. base64_encode_loop mem input 0 output')"

definition decode_one :: "char \<Rightarrow> int" where
  "decode_one c =
     (let n = byte_val c in
      if 65 \<le> n \<and> n \<le> 90 then n - 65
      else if 97 \<le> n \<and> n \<le> 122 then n - 97 + 26
      else if 48 \<le> n \<and> n \<le> 57 then n - 48 + 52
      else if c = CHR ''+'' then 62
      else if c = CHR ''/'' then 63
      else if c = CHR ''='' then -1
      else -2)"

text \<open>Assignment to a \<^verbatim>\<open>uint8_t\<close>.\<close>

definition to_u8 :: "int \<Rightarrow> char" where
  "to_u8 i = char_of (nat (i mod 256))"

definition base64_group :: "int \<Rightarrow> int \<Rightarrow> int \<Rightarrow> int \<Rightarrow> char list" where
  "base64_group t0 t1 t2 t3 =
     [to_u8 (push_bit 2 t0 OR drop_bit 4 t1),
      (if t2 \<noteq> -1 then to_u8 (push_bit 4 (t1 AND 0x0f) OR drop_bit 2 t2) else NUL),
      (if t3 \<noteq> -1 then to_u8 (push_bit 6 (t2 AND 0x03) OR t3) else NUL),
      NUL]"

function base64_decode_loop ::
    "allocator \<Rightarrow> char list \<Rightarrow> nat \<Rightarrow> string_t \<Rightarrow> (int \<times> string_t) outcome" where
  "base64_decode_loop mem input i output =
     (if i < length input
      then let t0 = decode_one (input ! i); t1 = decode_one (input ! (i + 1));
               t2 = decode_one (input ! (i + 2)); t3 = decode_one (input ! (i + 3))
           in if t0 = -1 \<or> t1 = -1 then Inr (-1, output)
              else if t2 = -1 \<and> t3 \<noteq> -1 then Inr (-1, output)
              else bindr (dynstr_append mem output (base64_group t0 t1 t2 t3))
                     (\<lambda>output'. base64_decode_loop mem input (i + 4) output')
      else Inr (0, output))"
  by pat_completeness auto
termination
  by (relation "measure (\<lambda>(mem, input, i, output). length input - i)") auto

definition base64_decode :: "allocator \<Rightarrow> char list \<Rightarrow> string_t \<Rightarrow> (int \<times> string_t) outcome" where
  "base64_decode mem input output =
     bindr (dynstr_append mem output []) (\<lambda>output'.
       if length input mod 4 \<noteq> 0 then Inr (-1, output')
       else base64_decode_loop mem input 0 output')"

declare base64_encode_loop.simps [simp del] base64_decode_loop.simps [simp del]

section \<open>The reference encoding\<close>

definition b64_digit :: "int \<Rightarrow> char" where
  "b64_digit i = base64 ! nat i"

fun b64_spec :: "char list \<Rightarrow> char list" where
  "b64_spec [] = []"
| "b64_spec [a] =
     [b64_digit (byte_val a div 4), b64_digit (byte_val a mod 4 * 16), CHR ''='', CHR ''='']"
| "b64_spec [a, b] =
     [b64_digit (byte_val a div 4), b64_digit (byte_val a mod 4 * 16 + byte_val b div 16),
      b64_digit (byte_val b mod 16 * 4), CHR ''='']"
| "b64_spec (a # b # c # r) =
     [b64_digit (byte_val a div 4), b64_digit (byte_val a mod 4 * 16 + byte_val b div 16),
      b64_digit (byte_val b mod 16 * 4 + byte_val c div 64), b64_digit (byte_val c mod 64)]
     @ b64_spec r"

text \<open>What the decoder can give back: each group of three, cut at its first NUL.\<close>

fun cut_groups :: "char list \<Rightarrow> char list" where
  "cut_groups (a # b # c # r) = cstr [a, b, c] @ cut_groups r"
| "cut_groups r = cstr r"

lemma cut_groups_nul_free: "nul_free xs \<Longrightarrow> cut_groups xs = xs"
  by (induction xs rule: cut_groups.induct) auto

section \<open>Bit operations as arithmetic\<close>

lemma byte_val_range: "0 \<le> byte_val c \<and> byte_val c < 256"
  using nat_of_char_less_256 [of c] by linarith

lemma push_or_eq_add:
  fixes x y :: int
  assumes "0 \<le> y" "y < 2 ^ k"
  shows "push_bit k x OR y = 2 ^ k * x + y"
proof -
  have y: "y = take_bit k y" using assms by (simp add: take_bit_int_eq_self)
  have "push_bit k x AND y = 0"
    by (subst y) (auto simp: bit_eq_iff bit_simps)
  then have "push_bit k x + y = push_bit k x OR y" by (rule disjunctive_add_eq_or)
  then show ?thesis by (simp add: push_bit_eq_mult mult.commute)
qed

lemma and_mask_eq_mod:
  fixes c :: int
  shows "drop_bit 18 (c AND 0x00fc0000) = c div 2 ^ 18 mod 64"
    and "drop_bit 12 (c AND 0x0003f000) = c div 2 ^ 12 mod 64"
    and "drop_bit 6 (c AND 0x00000fc0) = c div 2 ^ 6 mod 64"
    and "c AND 0x0000003f = c mod 64"
    and "c AND 0x0f = c mod 16" and "c AND 0x03 = c mod 4"
proof -
  have m: "63 = (mask 6 :: int)" "15 = (mask 4 :: int)" "3 = (mask 2 :: int)"
    by (simp_all add: mask_eq_exp_minus_1)
  have 1: "drop_bit 18 (c AND 0x00fc0000) = drop_bit 18 c AND 63" by simp
  show "drop_bit 18 (c AND 0x00fc0000) = c div 2 ^ 18 mod 64"
    unfolding 1 m by (simp add: drop_bit_eq_div take_bit_eq_mod flip: take_bit_eq_mask)
  have 2: "drop_bit 12 (c AND 0x0003f000) = drop_bit 12 c AND 63" by simp
  show "drop_bit 12 (c AND 0x0003f000) = c div 2 ^ 12 mod 64"
    unfolding 2 m by (simp add: drop_bit_eq_div take_bit_eq_mod flip: take_bit_eq_mask)
  have 3: "drop_bit 6 (c AND 0x00000fc0) = drop_bit 6 c AND 63" by simp
  show "drop_bit 6 (c AND 0x00000fc0) = c div 2 ^ 6 mod 64"
    unfolding 3 m by (simp add: drop_bit_eq_div take_bit_eq_mod flip: take_bit_eq_mask)
  show "c AND 0x0000003f = c mod 64"
    unfolding m by (simp add: take_bit_eq_mod flip: take_bit_eq_mask)
  show "c AND 0x0f = c mod 16"
    unfolding m by (simp add: take_bit_eq_mod flip: take_bit_eq_mask)
  show "c AND 0x03 = c mod 4"
    unfolding m by (simp add: take_bit_eq_mod flip: take_bit_eq_mask)
qed

text \<open>The 24-bit word assembled from one, two or three bytes.\<close>

lemma assemble_bytes:
  fixes a b c :: int
  assumes "0 \<le> b" "b < 256" "0 \<le> c" "c < 256"
  shows "push_bit 16 a = 65536 * a"
    and "push_bit 16 a OR push_bit 8 b = 65536 * a + 256 * b"
    and "(push_bit 16 a OR push_bit 8 b) OR c = 65536 * a + 256 * b + c"
proof -
  show 1: "push_bit 16 a = 65536 * a" by (simp add: push_bit_eq_mult)
  have b: "push_bit 8 b = 256 * b" by (simp add: push_bit_eq_mult)
  show 2: "push_bit 16 a OR push_bit 8 b = 65536 * a + 256 * b"
    using push_or_eq_add [of "256 * b" 16 a] assms by (simp add: b)
  have "push_bit 8 (256 * a + b) OR c = 2 ^ 8 * (256 * a + b) + c"
    using assms by (intro push_or_eq_add) auto
  moreover have "push_bit 8 (256 * a + b) = push_bit 16 a OR push_bit 8 b"
    by (simp add: 2) (simp add: push_bit_eq_mult)
  ultimately show "(push_bit 16 a OR push_bit 8 b) OR c = 65536 * a + 256 * b + c" by simp
qed

section \<open>The encoder refines the reference\<close>

lemma quad_arith:
  fixes a b c :: int
  assumes "0 \<le> a" "a < 256" "0 \<le> b" "b < 256" "0 \<le> c" "c < 256"
  shows "(65536 * a + 256 * b + c) div 2 ^ 18 mod 64 = a div 4"
    and "(65536 * a + 256 * b + c) div 2 ^ 12 mod 64 = a mod 4 * 16 + b div 16"
    and "(65536 * a + 256 * b + c) div 2 ^ 6 mod 64 = b mod 16 * 4 + c div 64"
    and "(65536 * a + 256 * b + c) mod 64 = c mod 64"
proof -
  define a1 a0 b1 b0 c1 c0 where d:
    "a1 = a div 4" "a0 = a mod 4" "b1 = b div 16" "b0 = b mod 16" "c1 = c div 64" "c0 = c mod 64"
  let ?w = "65536 * a + 256 * b + c"
  have e: "a = 4 * a1 + a0" "b = 16 * b1 + b0" "c = 64 * c1 + c0"
    by (simp_all add: d)
  have r0: "0 \<le> a0" "a0 < 4" "0 \<le> b0" "b0 < 16" "0 \<le> c0" "c0 < 64"
    by (simp_all add: d)
  have r: "0 \<le> a1" "a1 < 64" "0 \<le> b1" "b1 < 16" "0 \<le> c1" "c1 < 4" "0 \<le> a0" "a0 < 4"
    "0 \<le> b0" "b0 < 16" "0 \<le> c0" "c0 < 64"
    using assms e r0 by linarith+
  have "?w div 262144 = a1"
    by (rule int_div_pos_eq [where r = "65536 * a0 + 256 * b + c"]) (use assms r(7,8) e(1) in linarith)+
  then have "?w div 2 ^ 18 mod 64 = a1" using r(1,2) by simp
  then show "?w div 2 ^ 18 mod 64 = a div 4" unfolding d(1) .
  have "?w div 4096 = 16 * a + b1"
    by (rule int_div_pos_eq [where r = "256 * b0 + c"]) (simp add: e(2), (use assms r(9,10) in linarith)+)
  moreover have "(16 * a + b1) mod 64 = a0 * 16 + b1"
    by (rule int_mod_pos_eq [where q = a1]) (simp add: e(1), (use r(3,4,7,8) in linarith)+)
  ultimately have "?w div 2 ^ 12 mod 64 = a0 * 16 + b1" by simp
  then show "?w div 2 ^ 12 mod 64 = a mod 4 * 16 + b div 16" unfolding d(2,3) .
  have "?w div 64 = 1024 * a + 4 * b + c1"
    by (rule int_div_pos_eq [where r = c0]) (simp add: e(3), (use r(11,12) in linarith)+)
  moreover have "(1024 * a + 4 * b + c1) mod 64 = b0 * 4 + c1"
    by (rule int_mod_pos_eq [where q = "16 * a + b1"]) (simp add: e(2), (use r(5,6,9,10) in linarith)+)
  ultimately have "?w div 2 ^ 6 mod 64 = b0 * 4 + c1" by simp
  then show "?w div 2 ^ 6 mod 64 = b mod 16 * 4 + c div 64" unfolding d(4,5) .
  have "?w mod 64 = c0"
    by (rule int_mod_pos_eq [where q = "1024 * a + 4 * b + c1"]) (simp add: e(3), (use r(11,12) in linarith)+)
  then show "?w mod 64 = c mod 64" unfolding d(6) .
qed

lemma drop_eq_nth_Cons: "i < length xs \<Longrightarrow> drop i xs = xs ! i # drop (i + 1) xs"
  by (simp add: Cons_nth_drop_Suc)

lemma base64_quad_spec:
  assumes "i < length input"
  shows "base64_quad input i @ b64_spec (drop (i + 3) input) = b64_spec (drop i input)"
proof -
  let ?a = "byte_val (input ! i)" and ?b = "byte_val (input ! (i + 1))"
  let ?c = "byte_val (input ! (i + 1 + 1))"
  have ra: "0 \<le> ?a" "?a < 256" and rb: "0 \<le> ?b" "?b < 256" and rc: "0 \<le> ?c" "?c < 256"
    using byte_val_range by blast+
  note q = quad_arith [OF ra rb rc] and q1 = quad_arith [OF ra rb, of 0, simplified add_0_right]
    and q0 = quad_arith [OF ra, of 0 0, simplified add_0_right mult_zero_right]
  note asm = assemble_bytes [OF rb rc, of ?a]
  note unf = base64_quad_def Let_def and_mask_eq_mod b64_digit_def if_True if_False
  have d0: "drop i input = input ! i # drop (i + 1) input"
    using assms by (rule drop_eq_nth_Cons)
  consider (one) "i + 1 = length input" | (two) "i + 2 = length input" | (three) "i + 2 < length input"
    using assms by linarith
  then show ?thesis
  proof cases
    case one
    then have n: "\<not> i + 1 < length input" "\<not> i + 1 + 1 < length input"
      "length input + 1 < i + 1 + 1 + 1" "length input < i + 1 + 1 + 1" by simp_all
    have "drop i input = [input ! i]" using d0 one by simp
    moreover have "base64_quad input i =
        [b64_digit (?a div 4), b64_digit (?a mod 4 * 16), CHR ''='', CHR ''='']"
      by (simp only: unf n asm(1) q0 order_refl zero_less_numeral) simp
    ultimately show ?thesis using one by simp
  next
    case two
    then have n: "i + 1 < length input" "\<not> i + 1 + 1 < length input"
      "\<not> length input + 1 < i + 1 + 1 + 1" "length input < i + 1 + 1 + 1" by simp_all
    have "drop i input = [input ! i, input ! (i + 1)]"
      using d0 drop_eq_nth_Cons [OF n(1)] two by simp
    moreover have "base64_quad input i =
        [b64_digit (?a div 4), b64_digit (?a mod 4 * 16 + ?b div 16),
         b64_digit (?b mod 16 * 4), CHR ''='']"
      by (simp only: unf n asm(2) q1 order_refl zero_less_numeral) simp
    ultimately show ?thesis using two by simp
  next
    case three
    then have n: "i + 1 < length input" "i + 1 + 1 < length input"
      "\<not> length input + 1 < i + 1 + 1 + 1" "\<not> length input < i + 1 + 1 + 1" by simp_all
    have "drop i input = input ! i # input ! (i + 1) # input ! (i + 1 + 1) # drop (i + 1 + 1 + 1) input"
      using d0 drop_eq_nth_Cons [OF n(1)] drop_eq_nth_Cons [OF n(2)] by simp
    moreover have "i + 3 = i + 1 + 1 + 1" by simp
    moreover have "base64_quad input i =
        [b64_digit (?a div 4), b64_digit (?a mod 4 * 16 + ?b div 16),
         b64_digit (?b mod 16 * 4 + ?c div 64), b64_digit (?c mod 64)]"
      by (simp only: unf n asm(3) q)
    ultimately show ?thesis by (simp only: b64_spec.simps append.simps)
  qed
qed

lemma base64_digits: "\<forall>i \<in> set [0..<64]. base64 ! i \<noteq> NUL \<and> decode_one (base64 ! i) = int i"
  unfolding base64_def by code_simp

lemma b64_digit_props:
  assumes "0 \<le> i" "i < 64"
  shows "b64_digit i \<noteq> NUL" "decode_one (b64_digit i) = i"
proof -
  have "nat i \<in> set [0..<64]" using assms by auto
  with base64_digits have "base64 ! nat i \<noteq> NUL \<and> decode_one (base64 ! nat i) = int (nat i)" by blast
  then show "b64_digit i \<noteq> NUL" "decode_one (b64_digit i) = i"
    using assms by (simp_all add: b64_digit_def)
qed

text \<open>The four digit values of a group are in range.\<close>

lemma digit_ranges:
  fixes a b c :: int
  assumes "0 \<le> a" "a < 256" "0 \<le> b" "b < 256" "0 \<le> c" "c < 256"
  shows "0 \<le> a div 4" "a div 4 < 64"
    "0 \<le> a mod 4 * 16 + b div 16" "a mod 4 * 16 + b div 16 < 64"
    "0 \<le> b mod 16 * 4 + c div 64" "b mod 16 * 4 + c div 64 < 64"
    "0 \<le> c mod 64" "c mod 64 < 64"
    "0 \<le> a mod 4 * 16" "a mod 4 * 16 < 64" "0 \<le> b mod 16 * 4" "b mod 16 * 4 < 64"
proof -
  have m: "0 \<le> a mod 4" "a mod 4 < 4" "0 \<le> b mod 16" "b mod 16 < 16" by simp_all
  have d: "0 \<le> a div 4" "a div 4 < 64" "0 \<le> b div 16" "b div 16 < 16" "0 \<le> c div 64" "c div 64 < 4"
    using assms by (simp_all add: pos_imp_zdiv_nonneg_iff div_less_iff_less_mult)
  show "0 \<le> a div 4" "a div 4 < 64" using d by simp_all
  show "0 \<le> a mod 4 * 16 + b div 16" "a mod 4 * 16 + b div 16 < 64"
    "0 \<le> b mod 16 * 4 + c div 64" "b mod 16 * 4 + c div 64 < 64"
    "0 \<le> a mod 4 * 16" "a mod 4 * 16 < 64" "0 \<le> b mod 16 * 4" "b mod 16 * 4 < 64"
    using m d by linarith+
  show "0 \<le> c mod 64" "c mod 64 < 64" by simp_all
qed

lemmas byte_digit_ranges =
  digit_ranges [OF byte_val_range [THEN conjunct1] byte_val_range [THEN conjunct2]
    byte_val_range [THEN conjunct1] byte_val_range [THEN conjunct2]
    byte_val_range [THEN conjunct1] byte_val_range [THEN conjunct2]]

lemma b64_spec_nul_free: "nul_free (b64_spec xs)"
  by (induction xs rule: b64_spec.induct) (simp_all add: b64_digit_props byte_digit_ranges)

lemma length_b64_spec: "length (b64_spec xs) mod 4 = 0"
  by (induction xs rule: b64_spec.induct) (simp_all, presburger?)

lemma base64_quad_props:
  assumes "i < length input"
  shows "cstr (base64_quad input i) = base64_quad input i" "length (base64_quad input i) = 4"
proof -
  have "nul_free (base64_quad input i @ b64_spec (drop (i + 3) input))"
    by (simp only: base64_quad_spec [OF assms] b64_spec_nul_free)
  then show "cstr (base64_quad input i) = base64_quad input i" by simp
  show "length (base64_quad input i) = 4" by (simp add: base64_quad_def Let_def)
qed

lemma base64_encode_loop_rep:
  "dynstr_rep out cs \<Longrightarrow> dynstr_owns out \<Longrightarrow> good_alloc mem \<Longrightarrow>
   \<exists>out'. base64_encode_loop mem input i out = Inr out' \<and>
     dynstr_rep out' (cs @ b64_spec (drop i input)) \<and> dynstr_owns out'"
proof (induction mem input i out arbitrary: cs rule: base64_encode_loop.induct)
  case (1 mem input i out)
  show ?case
  proof (cases "i < length input")
    case True
    note q = base64_quad_props [OF True]
    obtain o1 where o1: "dynstr_append mem out (base64_quad input i) = Inr o1"
      "dynstr_rep o1 (cs @ base64_quad input i)" "dynstr_owns o1"
      using dynstr_append_rep [OF 1(2,4), of "base64_quad input i"] 1(3) q by auto
    obtain o2 where "base64_encode_loop mem input (i + 3) o1 = Inr o2"
      "dynstr_rep o2 ((cs @ base64_quad input i) @ b64_spec (drop (i + 3) input))" "dynstr_owns o2"
      using "1.IH" [OF True o1(1,2,3) 1(4)] by blast
    then show ?thesis
      using True o1 base64_quad_spec [OF True]
      by (simp add: base64_encode_loop.simps [of mem input i out])
  next
    case False
    with 1 show ?thesis by (simp add: base64_encode_loop.simps [of mem input i out])
  qed
qed

lemma dynstr_append_empty:
  assumes "dynstr_rep s cs" "good_alloc mem"
  shows "\<exists>s'. dynstr_append mem s [] = Inr s' \<and> dynstr_rep s' cs \<and> dynstr_owns s'"
proof -
  have "double_until 64 0 \<noteq> 0" using double_until_pos [of 64 0] by simp
  with dynstr_append_rep [OF assms, of "[]"] show ?thesis by simp
qed

lemma base64_encode_rep:
  assumes "dynstr_rep out cs" "good_alloc mem"
  shows "\<exists>out'. base64_encode mem input out = Inr out' \<and>
     dynstr_rep out' (cs @ b64_spec input) \<and> dynstr_owns out'"
proof -
  obtain o1 where "dynstr_append mem out [] = Inr o1" "dynstr_rep o1 cs" "dynstr_owns o1"
    using dynstr_append_empty [OF assms] by blast
  then show ?thesis
    using base64_encode_loop_rep [of o1 cs mem input 0] assms(2)
    by (simp add: base64_encode_def)
qed

section \<open>The decoder on encoded data\<close>

lemma to_u8_byte: "to_u8 (byte_val c) = c"
  using byte_val_range [of c] by (simp add: to_u8_def)

lemma group_arith:
  fixes a b c :: int
  assumes "0 \<le> a" "a < 256" "0 \<le> b" "b < 256" "0 \<le> c" "c < 256"
  shows "push_bit 2 (a div 4) OR drop_bit 4 (a mod 4 * 16 + b div 16) = a"
    and "push_bit 4 ((a mod 4 * 16 + b div 16) AND 0x0f) OR drop_bit 2 (b mod 16 * 4 + c div 64) = b"
    and "push_bit 6 ((b mod 16 * 4 + c div 64) AND 0x03) OR c mod 64 = c"
proof -
  have m: "0 \<le> a mod 4" "a mod 4 < 4" "0 \<le> b mod 16" "b mod 16 < 16" by simp_all
  have d: "0 \<le> b div 16" "b div 16 < 16" "0 \<le> c div 64" "c div 64 < 4"
    using assms by (simp_all add: pos_imp_zdiv_nonneg_iff div_less_iff_less_mult)
  have s1: "drop_bit 4 (a mod 4 * 16 + b div 16) = a mod 4"
    unfolding drop_bit_eq_div
    by (rule int_div_pos_eq [where r = "b div 16"]) (use d in simp_all)
  have s2: "(a mod 4 * 16 + b div 16) AND 0x0f = b div 16"
    unfolding and_mask_eq_mod
    by (rule int_mod_pos_eq [where q = "a mod 4"]) (use d in simp_all)
  have s3: "drop_bit 2 (b mod 16 * 4 + c div 64) = b mod 16"
    unfolding drop_bit_eq_div
    by (rule int_div_pos_eq [where r = "c div 64"]) (use d in simp_all)
  have s4: "(b mod 16 * 4 + c div 64) AND 0x03 = c div 64"
    unfolding and_mask_eq_mod
    by (rule int_mod_pos_eq [where q = "b mod 16"]) (use d in simp_all)
  show "push_bit 2 (a div 4) OR drop_bit 4 (a mod 4 * 16 + b div 16) = a"
    unfolding s1 by (subst push_or_eq_add) (use m in simp_all)
  show "push_bit 4 ((a mod 4 * 16 + b div 16) AND 0x0f) OR drop_bit 2 (b mod 16 * 4 + c div 64) = b"
    unfolding s2 s3 by (subst push_or_eq_add) (use m in simp_all)
  show "push_bit 6 ((b mod 16 * 4 + c div 64) AND 0x03) OR c mod 64 = c"
    unfolding s4 by (subst push_or_eq_add) simp_all
qed

lemmas byte_group_arith =
  group_arith [OF byte_val_range [THEN conjunct1] byte_val_range [THEN conjunct2]
    byte_val_range [THEN conjunct1] byte_val_range [THEN conjunct2]
    byte_val_range [THEN conjunct1] byte_val_range [THEN conjunct2]]

text \<open>A full group decodes to its three bytes, a short one to its bytes and NULs.\<close>

lemma base64_group_3:
  "base64_group (byte_val a div 4) (byte_val a mod 4 * 16 + byte_val b div 16)
     (byte_val b mod 16 * 4 + byte_val c div 64) (byte_val c mod 64) = [a, b, c, NUL]"
  unfolding base64_group_def byte_group_arith to_u8_byte
  using byte_digit_ranges(5) [of b c] byte_digit_ranges(7) [of c] by auto

lemma short_group_arith:
  "push_bit 2 (byte_val a div 4) OR drop_bit 4 (byte_val a mod 4 * 16) = byte_val a"
  "push_bit 4 ((byte_val a mod 4 * 16 + byte_val b div 16) AND 0x0f) OR
     drop_bit 2 (byte_val b mod 16 * 4) = byte_val b"
proof -
  have z: "(0::int) \<le> 0" "(0::int) < 256" by simp_all
  note r = byte_val_range [THEN conjunct1] byte_val_range [THEN conjunct2]
  show "push_bit 2 (byte_val a div 4) OR drop_bit 4 (byte_val a mod 4 * 16) = byte_val a"
    using group_arith(1) [OF r z z, of a] by (simp only: div_0 add_0_right)
  show "push_bit 4 ((byte_val a mod 4 * 16 + byte_val b div 16) AND 0x0f) OR
     drop_bit 2 (byte_val b mod 16 * 4) = byte_val b"
    using group_arith(2) [OF r r z, of a b] by (simp only: div_0 add_0_right)
qed

lemma base64_group_2:
  "base64_group (byte_val a div 4) (byte_val a mod 4 * 16 + byte_val b div 16)
     (byte_val b mod 16 * 4) (-1) = [a, b, NUL, NUL]"
proof -
  have "byte_val b mod 16 * 4 \<noteq> -1" using byte_digit_ranges(11) [of b] by linarith
  then show ?thesis
    unfolding base64_group_def byte_group_arith(1)
    by (simp only: short_group_arith(2) to_u8_byte, simp)
qed

lemma base64_group_1:
  "base64_group (byte_val a div 4) (byte_val a mod 4 * 16) (-1) (-1) = [a, NUL, NUL, NUL]"
  unfolding base64_group_def
  by (simp only: short_group_arith(1) to_u8_byte, simp)

text \<open>One turn of the decoding loop at the end of an already consumed prefix.\<close>

lemma base64_decode_loop_step:
  assumes "dynstr_rep out cs" "dynstr_owns out" "good_alloc mem"
    and "decode_one w = t0" "decode_one x = t1" "decode_one y = t2" "decode_one z = t3"
    and "t0 \<noteq> -1" "t1 \<noteq> -1" "t2 = -1 \<longrightarrow> t3 = -1"
  shows "\<exists>o1. dynstr_rep o1 (cs @ cstr (base64_group t0 t1 t2 t3)) \<and> dynstr_owns o1 \<and>
     base64_decode_loop mem (pre @ w # x # y # z # r) (length pre) out =
     base64_decode_loop mem ((pre @ [w, x, y, z]) @ r) (length (pre @ [w, x, y, z])) o1"
proof -
  let ?in = "pre @ w # x # y # z # r"
  have n: "?in ! length pre = w" "?in ! (length pre + 1) = x" "?in ! (length pre + 2) = y"
    "?in ! (length pre + 3) = z"
    by (simp_all add: nth_append)
  have "length (cstr (base64_group t0 t1 t2 t3)) \<le> 4"
    using length_cstr_le [of "base64_group t0 t1 t2 t3"] by (simp add: base64_group_def)
  then obtain o1 where "dynstr_append mem out (base64_group t0 t1 t2 t3) = Inr o1"
    "dynstr_rep o1 (cs @ cstr (base64_group t0 t1 t2 t3))" "dynstr_owns o1"
    using dynstr_append_rep [OF assms(1,3), of "base64_group t0 t1 t2 t3"] assms(2) by auto
  moreover have "(pre @ [w, x, y, z]) @ r = ?in" "length (pre @ [w, x, y, z]) = length pre + 4"
    by simp_all
  moreover have "base64_decode_loop mem ?in (length pre) out =
      bindr (dynstr_append mem out (base64_group t0 t1 t2 t3))
        (\<lambda>out'. base64_decode_loop mem ?in (length pre + 4) out')"
    using assms(8-)
    by (subst base64_decode_loop.simps) (simp only: n assms(4-7) Let_def, auto)
  ultimately show ?thesis by (auto simp only: bindr_Inr)
qed

lemma base64_decode_loop_end:
  "length input \<le> i \<Longrightarrow> base64_decode_loop mem input i out = Inr (0, out)"
  by (simp add: base64_decode_loop.simps)

text \<open>The digit values of a group are never the filler value.\<close>

lemma digit_not_filler:
  "byte_val a div 4 \<noteq> -1" "byte_val a mod 4 * 16 \<noteq> -1"
  "byte_val a mod 4 * 16 + byte_val b div 16 \<noteq> -1"
  "byte_val b mod 16 * 4 + byte_val c div 64 = -1 \<longrightarrow> byte_val c mod 64 = -1"
  "byte_val b mod 16 * 4 = -1 \<longrightarrow> (-1::int) = -1"
proof -
  show "byte_val a div 4 \<noteq> -1" using byte_digit_ranges(1) [of a] by linarith
  show "byte_val a mod 4 * 16 \<noteq> -1" using byte_digit_ranges(9) [of a] by linarith
  show "byte_val a mod 4 * 16 + byte_val b div 16 \<noteq> -1"
    using byte_digit_ranges(3) [of a b] by linarith
  have "byte_val b mod 16 * 4 + byte_val c div 64 \<noteq> -1"
    using byte_digit_ranges(5) [of b c] by linarith
  then show "byte_val b mod 16 * 4 + byte_val c div 64 = -1 \<longrightarrow> byte_val c mod 64 = -1" by blast
  show "byte_val b mod 16 * 4 = -1 \<longrightarrow> (-1::int) = -1" by simp
qed

lemma base64_decode_loop_spec:
  "dynstr_rep out cs \<Longrightarrow> dynstr_owns out \<Longrightarrow> good_alloc mem \<Longrightarrow>
   \<exists>out'. base64_decode_loop mem (pre @ b64_spec xs) (length pre) out = Inr (0, out') \<and>
     dynstr_rep out' (cs @ cut_groups xs) \<and> dynstr_owns out'"
proof (induction xs arbitrary: pre out cs rule: b64_spec.induct)
  case 1
  then show ?case by (simp add: base64_decode_loop_end)
next
  case (2 a)
  note r = byte_digit_ranges
  have e: "decode_one (CHR ''='') = -1" by (simp add: decode_one_def)
  obtain o1 where o1: "dynstr_rep o1 (cs @ cstr [a, NUL, NUL, NUL])" "dynstr_owns o1"
    and eq: "base64_decode_loop mem (pre @ b64_spec [a]) (length pre) out = Inr (0, o1)"
    using base64_decode_loop_step [OF 2 b64_digit_props(2) [OF r(1,2) [of a]]
        b64_digit_props(2) [OF r(9,10) [of a]] e e digit_not_filler(1,2), of "pre" "[]"]
    unfolding base64_group_1 append_Nil2 base64_decode_loop_end [OF order_refl] b64_spec.simps
    by blast
  have "cstr [a, NUL, NUL, NUL] = cut_groups [a]" by simp
  with o1 eq show ?case by metis
next
  case (3 a b)
  note r = byte_digit_ranges
  have e: "decode_one (CHR ''='') = -1" by (simp add: decode_one_def)
  obtain o1 where o1: "dynstr_rep o1 (cs @ cstr [a, b, NUL, NUL])" "dynstr_owns o1"
    and eq: "base64_decode_loop mem (pre @ b64_spec [a, b]) (length pre) out = Inr (0, o1)"
    using base64_decode_loop_step [OF 3 b64_digit_props(2) [OF r(1,2) [of a]]
        b64_digit_props(2) [OF r(3,4) [of a b]] b64_digit_props(2) [OF r(11,12) [of b]] e
        digit_not_filler(1,3,5), of "pre" "[]"]
    unfolding base64_group_2 append_Nil2 base64_decode_loop_end [OF order_refl] b64_spec.simps
    by blast
  have "cstr [a, b, NUL, NUL] = cut_groups [a, b]" by simp
  with o1 eq show ?case by metis
next
  case (4 a b c xs)
  note r = byte_digit_ranges
  obtain o1 pre' where o1: "dynstr_rep o1 (cs @ cstr [a, b, c, NUL])" "dynstr_owns o1"
    and step: "base64_decode_loop mem (pre @ b64_spec (a # b # c # xs)) (length pre) out =
      base64_decode_loop mem (pre' @ b64_spec xs) (length pre') o1"
    using base64_decode_loop_step [OF 4(2-4) b64_digit_props(2) [OF r(1,2) [of a]]
        b64_digit_props(2) [OF r(3,4) [of a b]] b64_digit_props(2) [OF r(5,6) [of b c]]
        b64_digit_props(2) [OF r(7,8) [of c]] digit_not_filler(1,3,4), of "pre" "b64_spec xs"]
    unfolding base64_group_3 b64_spec.simps append.simps
    by blast
  obtain o2 where "base64_decode_loop mem (pre' @ b64_spec xs) (length pre') o1 = Inr (0, o2)"
    "dynstr_rep o2 ((cs @ cstr [a, b, c, NUL]) @ cut_groups xs)" "dynstr_owns o2"
    using 4(1) [OF o1 4(4)] by blast
  moreover have "(cs @ cstr [a, b, c, NUL]) @ cut_groups xs = cs @ cut_groups (a # b # c # xs)"
    by simp
  ultimately show ?case using step by metis
qed

lemma base64_decode_rep:
  assumes "dynstr_rep out cs" "good_alloc mem"
  shows "\<exists>out'. base64_decode mem (b64_spec xs) out = Inr (0, out') \<and>
     dynstr_rep out' (cs @ cut_groups xs) \<and> dynstr_owns out'"
proof -
  obtain o1 where "dynstr_append mem out [] = Inr o1" "dynstr_rep o1 cs" "dynstr_owns o1"
    using dynstr_append_empty [OF assms] by blast
  then show ?thesis
    using base64_decode_loop_spec [of o1 cs mem "[]" xs] assms(2) length_b64_spec [of xs]
    by (simp add: base64_decode_def)
qed

section \<open>Properties\<close>

text \<open>C8: The encoder appends to its output buffer exactly the RFC 4648 encoding of its input
  (the reference \<open>b64_spec\<close> works on arithmetic, the code on shifts and masks), for every input,
  the empty one and the two padded lengths included.\<close>

theorem base64_encode_eq_spec:
  assumes "dynstr_rep out cs" "good_alloc mem"
  shows "returns (base64_encode mem input out)
    (\<lambda>out'. dynstr_rep out' (cs @ b64_spec input) \<and> dynstr_cstr out' = Inr (cstr cs @ (if nul_free cs then b64_spec input else [])))"
proof -
  obtain out' where o: "base64_encode mem input out = Inr out'"
    "dynstr_rep out' (cs @ b64_spec input)" "dynstr_owns out'"
    using base64_encode_rep [OF assms] by blast
  have "cstr (cs @ b64_spec input) = cstr cs @ (if nul_free cs then b64_spec input else [])"
    by (induction cs) (simp_all add: b64_spec_nul_free)
  with dynstr_cstr_rep [OF o(2,3)] o show ?thesis by simp
qed

theorem base64_encode_eq_spec_witness:
  "returns (base64_encode heap_base ''Man'' dynstr_empty)
     (\<lambda>out'. dynstr_rep out' (b64_spec ''Man'') \<and> dynstr_cstr out' = Inr (b64_spec ''Man''))"
  using base64_encode_eq_spec [OF dynstr_empty_rep(1) good_heap_base, of "''Man''"] by simp

text \<open>C9: Decoding what the encoder produced gives the input back, for every input without NUL
  bytes; with NUL bytes, each group of three input bytes comes back only up to its first NUL, since
  the decoder appends its groups as C strings.\<close>

theorem base64_roundtrip:
  assumes "dynstr_rep out1 []" "dynstr_rep out2 cs" "good_alloc mem"
  shows "returns (bindr (base64_encode mem xs out1) (\<lambda>e. bindr (dynstr_cstr e) (\<lambda>t. base64_decode mem t out2)))
    (\<lambda>(r, out'). r = 0 \<and> dynstr_rep out' (cs @ cut_groups xs) \<and> (nul_free xs \<longrightarrow> dynstr_rep out' (cs @ xs)))"
proof -
  obtain e where e: "base64_encode mem xs out1 = Inr e" "dynstr_rep e (b64_spec xs)" "dynstr_owns e"
    using base64_encode_rep [OF assms(1,3), of xs] by auto
  have t: "dynstr_cstr e = Inr (b64_spec xs)"
    using dynstr_cstr_rep [OF e(2,3)] b64_spec_nul_free by simp
  obtain out' where "base64_decode mem (b64_spec xs) out2 = Inr (0, out')"
    "dynstr_rep out' (cs @ cut_groups xs)"
    using base64_decode_rep [OF assms(2,3)] by blast
  then show ?thesis using e(1) t cut_groups_nul_free [of xs] by (cases "nul_free xs") simp_all
qed

theorem base64_roundtrip_witness:
  "returns (bindr (base64_encode heap_base ''Ma'' dynstr_empty) (\<lambda>e. bindr (dynstr_cstr e)
      (\<lambda>t. base64_decode heap_base t dynstr_empty))) (\<lambda>(r, out'). r = 0 \<and> dynstr_rep out' ''Ma'')"
  using base64_roundtrip [OF dynstr_empty_rep(1) dynstr_empty_rep(1) good_heap_base, of "''Ma''"]
  by (rule returns_mono) simp

end
