(* ===== verification/Crc32.thy ===== *)
theory Crc32
  imports Cmodel_Prelude
begin

unbundle bit_operations_syntax

text \<open>
  \<^verbatim>\<open>src/src/dockerinit/mdata-client/crc32.c\<close>: the checksum of a protocol frame. The table is
  the source's; \<open>crc32_calc\<close> is its loop on 32-bit words. \<open>crc32_ref\<close> is the bit-at-a-time
  definition of the reflected polynomial 0xEDB88320 that the source's comment names; the
  theorem \<open>crc32_calc_eq_ref\<close> says that the table-driven routine computes it.
\<close>

section \<open>The table-driven routine\<close>

definition crc32_table :: "32 word list" where
  "crc32_table = [
     0x00000000, 0x77073096, 0xee0e612c, 0x990951ba, 0x076dc419, 0x706af48f,
     0xe963a535, 0x9e6495a3, 0x0edb8832, 0x79dcb8a4, 0xe0d5e91e, 0x97d2d988,
     0x09b64c2b, 0x7eb17cbd, 0xe7b82d07, 0x90bf1d91, 0x1db71064, 0x6ab020f2,
     0xf3b97148, 0x84be41de, 0x1adad47d, 0x6ddde4eb, 0xf4d4b551, 0x83d385c7,
     0x136c9856, 0x646ba8c0, 0xfd62f97a, 0x8a65c9ec, 0x14015c4f, 0x63066cd9,
     0xfa0f3d63, 0x8d080df5, 0x3b6e20c8, 0x4c69105e, 0xd56041e4, 0xa2677172,
     0x3c03e4d1, 0x4b04d447, 0xd20d85fd, 0xa50ab56b, 0x35b5a8fa, 0x42b2986c,
     0xdbbbc9d6, 0xacbcf940, 0x32d86ce3, 0x45df5c75, 0xdcd60dcf, 0xabd13d59,
     0x26d930ac, 0x51de003a, 0xc8d75180, 0xbfd06116, 0x21b4f4b5, 0x56b3c423,
     0xcfba9599, 0xb8bda50f, 0x2802b89e, 0x5f058808, 0xc60cd9b2, 0xb10be924,
     0x2f6f7c87, 0x58684c11, 0xc1611dab, 0xb6662d3d, 0x76dc4190, 0x01db7106,
     0x98d220bc, 0xefd5102a, 0x71b18589, 0x06b6b51f, 0x9fbfe4a5, 0xe8b8d433,
     0x7807c9a2, 0x0f00f934, 0x9609a88e, 0xe10e9818, 0x7f6a0dbb, 0x086d3d2d,
     0x91646c97, 0xe6635c01, 0x6b6b51f4, 0x1c6c6162, 0x856530d8, 0xf262004e,
     0x6c0695ed, 0x1b01a57b, 0x8208f4c1, 0xf50fc457, 0x65b0d9c6, 0x12b7e950,
     0x8bbeb8ea, 0xfcb9887c, 0x62dd1ddf, 0x15da2d49, 0x8cd37cf3, 0xfbd44c65,
     0x4db26158, 0x3ab551ce, 0xa3bc0074, 0xd4bb30e2, 0x4adfa541, 0x3dd895d7,
     0xa4d1c46d, 0xd3d6f4fb, 0x4369e96a, 0x346ed9fc, 0xad678846, 0xda60b8d0,
     0x44042d73, 0x33031de5, 0xaa0a4c5f, 0xdd0d7cc9, 0x5005713c, 0x270241aa,
     0xbe0b1010, 0xc90c2086, 0x5768b525, 0x206f85b3, 0xb966d409, 0xce61e49f,
     0x5edef90e, 0x29d9c998, 0xb0d09822, 0xc7d7a8b4, 0x59b33d17, 0x2eb40d81,
     0xb7bd5c3b, 0xc0ba6cad, 0xedb88320, 0x9abfb3b6, 0x03b6e20c, 0x74b1d29a,
     0xead54739, 0x9dd277af, 0x04db2615, 0x73dc1683, 0xe3630b12, 0x94643b84,
     0x0d6d6a3e, 0x7a6a5aa8, 0xe40ecf0b, 0x9309ff9d, 0x0a00ae27, 0x7d079eb1,
     0xf00f9344, 0x8708a3d2, 0x1e01f268, 0x6906c2fe, 0xf762575d, 0x806567cb,
     0x196c3671, 0x6e6b06e7, 0xfed41b76, 0x89d32be0, 0x10da7a5a, 0x67dd4acc,
     0xf9b9df6f, 0x8ebeeff9, 0x17b7be43, 0x60b08ed5, 0xd6d6a3e8, 0xa1d1937e,
     0x38d8c2c4, 0x4fdff252, 0xd1bb67f1, 0xa6bc5767, 0x3fb506dd, 0x48b2364b,
     0xd80d2bda, 0xaf0a1b4c, 0x36034af6, 0x41047a60, 0xdf60efc3, 0xa867df55,
     0x316e8eef, 0x4669be79, 0xcb61b38c, 0xbc66831a, 0x256fd2a0, 0x5268e236,
     0xcc0c7795, 0xbb0b4703, 0x220216b9, 0x5505262f, 0xc5ba3bbe, 0xb2bd0b28,
     0x2bb45a92, 0x5cb36a04, 0xc2d7ffa7, 0xb5d0cf31, 0x2cd99e8b, 0x5bdeae1d,
     0x9b64c2b0, 0xec63f226, 0x756aa39c, 0x026d930a, 0x9c0906a9, 0xeb0e363f,
     0x72076785, 0x05005713, 0x95bf4a82, 0xe2b87a14, 0x7bb12bae, 0x0cb61b38,
     0x92d28e9b, 0xe5d5be0d, 0x7cdcefb7, 0x0bdbdf21, 0x86d3d2d4, 0xf1d4e242,
     0x68ddb3f8, 0x1fda836e, 0x81be16cd, 0xf6b9265b, 0x6fb077e1, 0x18b74777,
     0x88085ae6, 0xff0f6a70, 0x66063bca, 0x11010b5c, 0x8f659eff, 0xf862ae69,
     0x616bffd3, 0x166ccf45, 0xa00ae278, 0xd70dd2ee, 0x4e048354, 0x3903b3c2,
     0xa7672661, 0xd06016f7, 0x4969474d, 0x3e6e77db, 0xaed16a4a, 0xd9d65adc,
     0x40df0b66, 0x37d83bf0, 0xa9bcae53, 0xdebb9ec5, 0x47b2cf7f, 0x30b5ffe9,
     0xbdbdf21c, 0xcabac28a, 0x53b39330, 0x24b4a3a6, 0xbad03605, 0xcdd70693,
     0x54de5729, 0x23d967bf, 0xb3667a2e, 0xc4614ab8, 0x5d681b02, 0x2a6f2b94,
     0xb40bbe37, 0xc30c8ea1, 0x5a05df1b, 0x2d02ef8d]"

fun crc32_loop :: "32 word \<Rightarrow> char list \<Rightarrow> 32 word" where
  "crc32_loop crc [] = crc"
| "crc32_loop crc (c # cs) =
     (let b = of_nat (of_char c) :: 32 word
      in crc32_loop (crc32_table ! unat ((crc XOR b) AND 0xff) XOR drop_bit 8 crc) cs)"

definition crc32_calc :: "char list \<Rightarrow> 32 word" where
  "crc32_calc cs = NOT (crc32_loop 0xffffffff cs)"

section \<open>The bit-at-a-time reference\<close>

definition crc_bit :: "32 word \<Rightarrow> 32 word" where
  "crc_bit x = (if bit x 0 then drop_bit 1 x XOR 0xEDB88320 else drop_bit 1 x)"

definition crc_byte :: "32 word \<Rightarrow> char \<Rightarrow> 32 word" where
  "crc_byte x c = (crc_bit ^^ 8) (x XOR of_nat (of_char c))"

definition crc32_ref :: "char list \<Rightarrow> 32 word" where
  "crc32_ref cs = NOT (foldl crc_byte 0xffffffff cs)"

section \<open>Equivalence\<close>

lemma crc_bit_xor: "crc_bit (x XOR y) = crc_bit x XOR crc_bit y"
  by (simp add: crc_bit_def bit_xor_iff ac_simps)

lemma crc_bits_xor: "(crc_bit ^^ n) (x XOR y) = (crc_bit ^^ n) x XOR (crc_bit ^^ n) y"
  by (induction n arbitrary: x y) (simp_all add: crc_bit_xor funpow_Suc_right del: funpow.simps)

text \<open>Shifting out zero bits is shifting.\<close>

lemma crc_bits_shift:
  "(\<And>i. i < n \<Longrightarrow> \<not> bit x i) \<Longrightarrow> (crc_bit ^^ n) x = drop_bit n x"
proof (induction n arbitrary: x)
  case 0
  then show ?case by simp
next
  case (Suc n)
  have "crc_bit x = drop_bit 1 x" using Suc.prems [of 0] by (simp add: crc_bit_def)
  moreover have "(crc_bit ^^ n) (drop_bit 1 x) = drop_bit n (drop_bit 1 x)"
    using Suc.prems by (intro Suc.IH) (simp add: bit_drop_bit_eq)
  ultimately show ?case by (simp add: funpow_Suc_right del: funpow.simps)
qed

text \<open>
  Each of the 256 entries is the remainder of its index. The check of the table runs on
  integers, where the kernel evaluates faster.
\<close>

definition crc_bit_int :: "int \<Rightarrow> int" where
  "crc_bit_int x = (if x mod 2 = 0 then x div 2 else x div 2 XOR 0xEDB88320)"

definition crc_byte_int :: "int \<Rightarrow> int" where
  "crc_byte_int x = crc_bit_int (crc_bit_int (crc_bit_int (crc_bit_int (crc_bit_int
     (crc_bit_int (crc_bit_int (crc_bit_int x)))))))"

lemma crc_bit_of_int:
  assumes "0 \<le> n" "n < 2 ^ 32"
  shows "crc_bit (of_int n) = of_int (crc_bit_int n)" "0 \<le> crc_bit_int n" "crc_bit_int n < 2 ^ 32"
proof -
  have h: "0 \<le> n div 2" "n div 2 < 2 ^ 32" using assms by auto
  have d: "drop_bit 1 (of_int n) = (of_int (n div 2) :: 32 word)"
  proof (rule bit_word_eqI)
    fix k assume "k < LENGTH(32)"
    have "n = take_bit 32 n" using assms by (simp add: take_bit_int_eq_self)
    then have "\<not> bit n 32" by (metis bit_take_bit_iff less_irrefl)
    with \<open>k < LENGTH(32)\<close>
    show "bit (drop_bit 1 (of_int n :: 32 word)) k = bit (of_int (n div 2) :: 32 word) k"
      by (cases "k = 31") (simp_all add: bit_simps flip: bit_Suc del: drop_bit_Suc)
  qed
  have x: "of_int (a XOR b) = (of_int a XOR of_int b :: 32 word)" for a b
    by (rule bit_word_eqI) (simp add: bit_simps)
  have b0: "bit (of_int n :: 32 word) 0 \<longleftrightarrow> n mod 2 \<noteq> 0"
    unfolding bit_word_of_int_iff by (simp add: bit_0 odd_iff_mod_2_eq_one)
  have xp: "of_int (n div 2 XOR 0xEDB88320) = (of_int (n div 2) XOR 0xEDB88320 :: 32 word)"
    using x [of "n div 2" "0xEDB88320"] by (simp only: of_int_numeral)
  show "crc_bit (of_int n) = of_int (crc_bit_int n)"
  proof (cases "n mod 2 = 0")
    case True
    then show ?thesis unfolding crc_bit_def crc_bit_int_def d b0 by simp
  next
    case False
    then show ?thesis unfolding crc_bit_def crc_bit_int_def d b0 by (simp only: xp if_False if_True not_False_eq_True)
  qed
  have "n div 2 XOR 0xEDB88320 < 2 ^ 32"
    using h by (intro XOR_upper) auto
  with h show "0 \<le> crc_bit_int n" "crc_bit_int n < 2 ^ 32"
    by (auto simp: crc_bit_int_def XOR_lower)
qed

lemma crc_bits_8:
  "(crc_bit ^^ 8) x = crc_bit (crc_bit (crc_bit (crc_bit (crc_bit (crc_bit (crc_bit (crc_bit x)))))))"
  by (simp add: numeral_eq_Suc)

lemma crc_byte_of_int:
  assumes "0 \<le> n" "n < 2 ^ 32"
  shows "(crc_bit ^^ 8) (of_int n) = of_int (crc_byte_int n)"
  unfolding crc_byte_int_def crc_bits_8 using assms by (simp only: crc_bit_of_int)

lemma crc32_table_ints:
  "map crc_byte_int [0..255] = [
      0x00000000, 0x77073096, 0xee0e612c, 0x990951ba, 0x076dc419, 0x706af48f, 0xe963a535,
      0x9e6495a3, 0x0edb8832, 0x79dcb8a4, 0xe0d5e91e, 0x97d2d988, 0x09b64c2b, 0x7eb17cbd,
      0xe7b82d07, 0x90bf1d91, 0x1db71064, 0x6ab020f2, 0xf3b97148, 0x84be41de, 0x1adad47d,
      0x6ddde4eb, 0xf4d4b551, 0x83d385c7, 0x136c9856, 0x646ba8c0, 0xfd62f97a, 0x8a65c9ec,
      0x14015c4f, 0x63066cd9, 0xfa0f3d63, 0x8d080df5, 0x3b6e20c8, 0x4c69105e, 0xd56041e4,
      0xa2677172, 0x3c03e4d1, 0x4b04d447, 0xd20d85fd, 0xa50ab56b, 0x35b5a8fa, 0x42b2986c,
      0xdbbbc9d6, 0xacbcf940, 0x32d86ce3, 0x45df5c75, 0xdcd60dcf, 0xabd13d59, 0x26d930ac,
      0x51de003a, 0xc8d75180, 0xbfd06116, 0x21b4f4b5, 0x56b3c423, 0xcfba9599, 0xb8bda50f,
      0x2802b89e, 0x5f058808, 0xc60cd9b2, 0xb10be924, 0x2f6f7c87, 0x58684c11, 0xc1611dab,
      0xb6662d3d, 0x76dc4190, 0x01db7106, 0x98d220bc, 0xefd5102a, 0x71b18589, 0x06b6b51f,
      0x9fbfe4a5, 0xe8b8d433, 0x7807c9a2, 0x0f00f934, 0x9609a88e, 0xe10e9818, 0x7f6a0dbb,
      0x086d3d2d, 0x91646c97, 0xe6635c01, 0x6b6b51f4, 0x1c6c6162, 0x856530d8, 0xf262004e,
      0x6c0695ed, 0x1b01a57b, 0x8208f4c1, 0xf50fc457, 0x65b0d9c6, 0x12b7e950, 0x8bbeb8ea,
      0xfcb9887c, 0x62dd1ddf, 0x15da2d49, 0x8cd37cf3, 0xfbd44c65, 0x4db26158, 0x3ab551ce,
      0xa3bc0074, 0xd4bb30e2, 0x4adfa541, 0x3dd895d7, 0xa4d1c46d, 0xd3d6f4fb, 0x4369e96a,
      0x346ed9fc, 0xad678846, 0xda60b8d0, 0x44042d73, 0x33031de5, 0xaa0a4c5f, 0xdd0d7cc9,
      0x5005713c, 0x270241aa, 0xbe0b1010, 0xc90c2086, 0x5768b525, 0x206f85b3, 0xb966d409,
      0xce61e49f, 0x5edef90e, 0x29d9c998, 0xb0d09822, 0xc7d7a8b4, 0x59b33d17, 0x2eb40d81,
      0xb7bd5c3b, 0xc0ba6cad, 0xedb88320, 0x9abfb3b6, 0x03b6e20c, 0x74b1d29a, 0xead54739,
      0x9dd277af, 0x04db2615, 0x73dc1683, 0xe3630b12, 0x94643b84, 0x0d6d6a3e, 0x7a6a5aa8,
      0xe40ecf0b, 0x9309ff9d, 0x0a00ae27, 0x7d079eb1, 0xf00f9344, 0x8708a3d2, 0x1e01f268,
      0x6906c2fe, 0xf762575d, 0x806567cb, 0x196c3671, 0x6e6b06e7, 0xfed41b76, 0x89d32be0,
      0x10da7a5a, 0x67dd4acc, 0xf9b9df6f, 0x8ebeeff9, 0x17b7be43, 0x60b08ed5, 0xd6d6a3e8,
      0xa1d1937e, 0x38d8c2c4, 0x4fdff252, 0xd1bb67f1, 0xa6bc5767, 0x3fb506dd, 0x48b2364b,
      0xd80d2bda, 0xaf0a1b4c, 0x36034af6, 0x41047a60, 0xdf60efc3, 0xa867df55, 0x316e8eef,
      0x4669be79, 0xcb61b38c, 0xbc66831a, 0x256fd2a0, 0x5268e236, 0xcc0c7795, 0xbb0b4703,
      0x220216b9, 0x5505262f, 0xc5ba3bbe, 0xb2bd0b28, 0x2bb45a92, 0x5cb36a04, 0xc2d7ffa7,
      0xb5d0cf31, 0x2cd99e8b, 0x5bdeae1d, 0x9b64c2b0, 0xec63f226, 0x756aa39c, 0x026d930a,
      0x9c0906a9, 0xeb0e363f, 0x72076785, 0x05005713, 0x95bf4a82, 0xe2b87a14, 0x7bb12bae,
      0x0cb61b38, 0x92d28e9b, 0xe5d5be0d, 0x7cdcefb7, 0x0bdbdf21, 0x86d3d2d4, 0xf1d4e242,
      0x68ddb3f8, 0x1fda836e, 0x81be16cd, 0xf6b9265b, 0x6fb077e1, 0x18b74777, 0x88085ae6,
      0xff0f6a70, 0x66063bca, 0x11010b5c, 0x8f659eff, 0xf862ae69, 0x616bffd3, 0x166ccf45,
      0xa00ae278, 0xd70dd2ee, 0x4e048354, 0x3903b3c2, 0xa7672661, 0xd06016f7, 0x4969474d,
      0x3e6e77db, 0xaed16a4a, 0xd9d65adc, 0x40df0b66, 0x37d83bf0, 0xa9bcae53, 0xdebb9ec5,
      0x47b2cf7f, 0x30b5ffe9, 0xbdbdf21c, 0xcabac28a, 0x53b39330, 0x24b4a3a6, 0xbad03605,
      0xcdd70693, 0x54de5729, 0x23d967bf, 0xb3667a2e, 0xc4614ab8, 0x5d681b02, 0x2a6f2b94,
      0xb40bbe37, 0xc30c8ea1, 0x5a05df1b, 0x2d02ef8d]"
  by code_simp

lemma crc32_table_entries: "map (\<lambda>i. (crc_bit ^^ 8) (of_int i)) [0..255] = crc32_table"
proof -
  have "map (\<lambda>i. (crc_bit ^^ 8) (of_int i)) [0..255] = map of_int (map crc_byte_int [0..255])"
    by (auto simp: crc_byte_of_int)
  also have "\<dots> = crc32_table"
    unfolding crc32_table_ints crc32_table_def by (simp only: list.map of_int_numeral of_int_0)
  finally show ?thesis .
qed

lemma crc32_table_nth:
  assumes "n < 256"
  shows "crc32_table ! n = (crc_bit ^^ 8) (of_nat n)"
proof -
  have "n < length [0..255::int]" using assms by simp
  then show ?thesis
    using assms unfolding crc32_table_entries [symmetric] by (subst nth_map) (simp_all add: nth_upto)
qed

text \<open>One table step is eight bit steps.\<close>

lemma crc32_step:
  "crc32_table ! unat ((x XOR b) AND 0xff) XOR drop_bit 8 x = (crc_bit ^^ 8) (x XOR b)"
  if b: "drop_bit 8 b = 0" for x b :: "32 word"
proof -
  let ?y = "x XOR b"
  have ff: "(0xff :: 32 word) = mask 8" by (simp add: mask_eq_exp_minus_1)
  have split: "?y = (?y AND 0xff) XOR (push_bit 8 (drop_bit 8 ?y))"
  proof (rule bit_word_eqI)
    fix n assume "n < LENGTH(32)"
    then     show "bit ?y n = bit ((?y AND 0xff) XOR push_bit 8 (drop_bit 8 ?y)) n"
      by (cases "n < 8") (auto simp: ff bit_simps not_less)
  qed
  have "(crc_bit ^^ 8) (push_bit 8 (drop_bit 8 ?y)) = drop_bit 8 (push_bit 8 (drop_bit 8 ?y))"
    by (rule crc_bits_shift) (simp add: bit_simps)
  also have "\<dots> = drop_bit 8 ?y"
    by (auto simp: bit_eq_iff bit_simps dest: bit_imp_le_length)
  also have "\<dots> = drop_bit 8 x" by (simp add: b)
  finally have hi: "(crc_bit ^^ 8) (push_bit 8 (drop_bit 8 ?y)) = drop_bit 8 x" .
  have "?y AND 0xff \<le> 0xff" by (rule word_and_le1)
  then have "unat (?y AND 0xff) < 256" by (simp add: word_le_nat_alt)
  then have "crc32_table ! unat (?y AND 0xff) = (crc_bit ^^ 8) (?y AND 0xff)"
    by (simp add: crc32_table_nth)
  moreover have "(crc_bit ^^ 8) ?y = (crc_bit ^^ 8) (?y AND 0xff) XOR drop_bit 8 x"
    using arg_cong [OF split, of "crc_bit ^^ 8"]
    unfolding crc_bits_xor [of 8 "?y AND 0xff"] hi .
  ultimately show ?thesis by simp
qed

lemma byte_word_drop: "drop_bit 8 (of_nat (of_char c) :: 32 word) = 0"
proof -
  have "of_char c < (256 :: nat)" by simp
  then have "(of_char c :: nat) = take_bit 8 (of_char c)" by (simp add: take_bit_nat_eq_self)
  then have "\<not> bit (of_char c :: nat) (8 + n)" for n
    by (metis bit_take_bit_iff not_add_less1)
  then show ?thesis by (intro bit_word_eqI) (simp add: bit_simps)
qed

lemma crc32_loop_ref: "crc32_loop x cs = foldl crc_byte x cs"
  by (induction cs arbitrary: x) (simp_all add: crc_byte_def crc32_step byte_word_drop Let_def)

section \<open>Properties\<close>

text \<open>C7: The table-driven checksum equals the bit-at-a-time CRC-32 (reflected polynomial
  \<open>0xEDB88320\<close>, initial value and final complement all ones) on every byte string, and it can be
  computed over the pieces of a message one after the other.\<close>

theorem crc32_calc_eq_ref:
  "crc32_calc (xs @ ys) = crc32_ref (xs @ ys) \<and>
   crc32_calc (xs @ ys) = NOT (crc32_loop (NOT (crc32_calc xs)) ys)"
  by (simp add: crc32_calc_def crc32_ref_def crc32_loop_ref)

end
