(* ===== verification/Mdata_Wire.thy ===== *)
theory Mdata_Wire
  imports Base64 Crc32 Libc_Numbers
begin

text \<open>
  The wire format of the metadata protocol: request identifiers
  (\<^verbatim>\<open>src/src/dockerinit/mdata-client/reqid.c\<close>) and the request builders and the frame parser
  of \<^verbatim>\<open>proto.c\<close>. A version 2 frame is one line,
  \<^verbatim>\<open>V2 <length> <crc32> <request id> <command> <base64 payload>\<close>.
  \<open>frame_line\<close> states that format; \<open>proto_make_request_v2\<close> produces it and
  \<open>proto_parse_v2\<close> reads it back.
\<close>

section \<open>Request identifiers\<close>

definition REQID_LEN :: nat where
  "REQID_LEN = 9"

text \<open>The file-scope state, and what the operating system answers during one call.\<close>

record reqid_state =
  urandom_fd :: int
  rq_seed :: int

record reqid_env =
  env_urandom :: "32 word option"   \<comment> \<open>a complete 4-byte read from the descriptor\<close>
  env_left :: "32 word"             \<comment> \<open>what an incomplete read leaves in \<^verbatim>\<open>tmp\<close>\<close>
  env_time :: int
  env_rand :: "nat \<Rightarrow> 32 word"      \<comment> \<open>the i-th \<^verbatim>\<open>rand()\<close> of the call\<close>

definition reqid_init :: "int \<Rightarrow> reqid_state \<Rightarrow> reqid_state" where
  "reqid_init opened st = (if urandom_fd st = -1 then st\<lparr>urandom_fd := opened\<rparr> else st)"

definition reqid_fini :: "reqid_state \<Rightarrow> reqid_state" where
  "reqid_fini st = (if urandom_fd st = -1 then st else st\<lparr>urandom_fd := -1\<rparr>)"

definition reqid_rand :: "reqid_env \<Rightarrow> 32 word \<Rightarrow> 32 word" where
  "reqid_rand env tmp =
     foldl (\<lambda>tmp i. tmp OR push_bit (i * 8) (0xff AND env_rand env i)) tmp [0, 1, 2, 3]"

definition reqid :: "reqid_state \<Rightarrow> reqid_env \<Rightarrow> char list \<times> reqid_state" where
  "reqid st env =
     (if urandom_fd st \<noteq> -1 \<and> env_urandom env \<noteq> None
      then (fmt_08x (the (env_urandom env)), st)
      else (fmt_08x (reqid_rand env (if urandom_fd st \<noteq> -1 then env_left env else 0)),
            if rq_seed st = -1 then st\<lparr>rq_seed := env_time env\<rparr> else st))"

section \<open>Building requests\<close>

definition proto_make_request_v1 ::
    "allocator \<Rightarrow> char list \<Rightarrow> char list option \<Rightarrow> string_t \<Rightarrow> string_t outcome" where
  "proto_make_request_v1 mem command argument output =
     bindr (dynstr_append mem output command) (\<lambda>output.
     bindr (case argument of
              None \<Rightarrow> Inr output
            | Some arg \<Rightarrow>
                bindr (dynstr_append mem output '' '') (\<lambda>output. dynstr_append mem output arg))
       (\<lambda>output. dynstr_append mem output [NL]))"

text \<open>The size of the local \<^verbatim>\<open>strbuf\<close> that \<^verbatim>\<open>sprintf\<close> writes the header into.\<close>

definition STRBUF_LEN :: nat where
  "STRBUF_LEN = 23 + 1 + 8 + 1"

text \<open>The body of a frame: what the length and the checksum of the header cover.\<close>

definition proto_make_body ::
    "allocator \<Rightarrow> char list \<Rightarrow> char list option \<Rightarrow> char list \<Rightarrow> string_t outcome" where
  "proto_make_body mem command argument reqidbuf =
     bindr (dynstr_new mem) (\<lambda>body.
     bindr (dynstr_append mem body reqidbuf) (\<lambda>body.
     bindr (dynstr_append mem body '' '') (\<lambda>body.
     bindr (dynstr_append mem body command) (\<lambda>body.
     case argument of
       None \<Rightarrow> Inr body
     | Some arg \<Rightarrow>
         bindr (dynstr_append mem body '' '') (\<lambda>body. base64_encode mem (cstr arg) body)))))"

definition proto_make_request_v2 ::
    "allocator \<Rightarrow> char list \<Rightarrow> char list option \<Rightarrow> string_t \<Rightarrow> char list \<Rightarrow> string_t outcome" where
  "proto_make_request_v2 mem command argument output reqidbuf =
     bindr (proto_make_body mem command argument reqidbuf) (\<lambda>body.
     bindr (dynstr_append mem output ''V2 '') (\<lambda>output.
     bindr (dynstr_bytes body (dynstr_len body)) (\<lambda>bytes.
     let strbuf = fmt_u (dynstr_len body mod 2 ^ 32) @ '' '' @ fmt_08x (crc32_calc bytes)
     in if STRBUF_LEN < length strbuf + 1 then Inl Fault_OOB else
     bindr (dynstr_append mem output strbuf) (\<lambda>output.
     bindr (dynstr_append mem output '' '') (\<lambda>output.
     bindr (dynstr_cstr body) (\<lambda>b.
     bindr (dynstr_append mem output b) (\<lambda>output.
     dynstr_append mem output [NL])))))))"

section \<open>Parsing frames\<close>

text \<open>\<^verbatim>\<open>while (*endp != ' ' && *endp != '\0') dynstr_appendc(dst, *endp++)\<close>\<close>

fun read_token :: "allocator \<Rightarrow> string_t \<Rightarrow> char list \<Rightarrow> (string_t \<times> char list) outcome" where
  "read_token mem dst [] = Inr (dst, [])"
| "read_token mem dst (c # r) =
     (if c = CHR '' '' then Inr (dst, c # r)
      else bindr (dynstr_appendc mem dst c) (\<lambda>dst'. read_token mem dst' r))"

definition skip_spaces :: "char list \<Rightarrow> char list" where
  "skip_spaces s = dropWhile (\<lambda>c. c = CHR '' '') s"

text \<open>The return value, \<^verbatim>\<open>mdp_parse_errmsg\<close>, and the three output strings.\<close>

record v2_result =
  v2_ret :: int
  v2_errmsg :: "char list option"
  v2_request_id :: string_t
  v2_command :: string_t
  v2_data :: string_t

definition proto_parse_v2 ::
    "allocator \<Rightarrow> string_t \<Rightarrow> string_t \<Rightarrow> string_t \<Rightarrow> string_t \<Rightarrow> v2_result outcome" where
  "proto_parse_v2 mem input request_id command response_data =
     bindr (dynstr_cstr input) (\<lambda>line.
     let fail = (\<lambda>msg rid cmd dat. Inr
           \<lparr>v2_ret = -1, v2_errmsg = Some msg, v2_request_id = rid, v2_command = cmd,
            v2_data = dat\<rparr>)
     in if take 3 line \<noteq> ''V2 ''
        then fail ''message did not start with V2'' request_id command response_data
        else let (clen, endp) = strtoul 10 (drop 3 line)
     in if clen = 0 then fail ''invalid content length'' request_id command response_data
        else let (crcv, endp) = strtoul 16 (skip_spaces endp);
                 crc32 = (of_nat crcv :: 32 word)
     in if crc32 = 0 then fail ''invalid crc32 in frame'' request_id command response_data
        else let endp = skip_spaces endp
     in if length endp \<noteq> clen \<or> crc32_calc (take clen endp) \<noteq> crc32
        then fail ''clen/crc32 mismatch'' request_id command response_data
        else bindr (read_token mem request_id endp) (\<lambda>(request_id, endp).
        if dynstr_len request_id = 0
        then fail ''missing request id'' request_id command response_data
        else bindr (read_token mem command (skip_spaces endp)) (\<lambda>(command, endp).
        if dynstr_len command = 0
        then fail ''missing command/code'' request_id command response_data
        else bindr (base64_decode mem (skip_spaces endp) response_data) (\<lambda>(r, response_data).
        if r = -1 then fail ''base64 error'' request_id command response_data
        else Inr \<lparr>v2_ret = 0, v2_errmsg = None, v2_request_id = request_id,
                  v2_command = command, v2_data = response_data\<rparr>))))"

section \<open>The frame format\<close>

definition frame_body :: "char list \<Rightarrow> char list \<Rightarrow> char list option \<Rightarrow> char list" where
  "frame_body rid command argument =
     rid @ '' '' @ command @
     (case argument of None \<Rightarrow> [] | Some arg \<Rightarrow> '' '' @ b64_spec arg)"

definition frame_line :: "char list \<Rightarrow> char list" where
  "frame_line body =
     ''V2 '' @ fmt_u (length body) @ '' '' @ fmt_08x (crc32_calc body) @ '' '' @ body"

section \<open>Request identifiers fit their buffer\<close>

lemma reqid_fits: "length (fst (reqid st env)) + 1 = REQID_LEN"
  by (simp add: reqid_def length_fmt_08x REQID_LEN_def)

lemma base_digit_nul_free: "\<forall>c \<in> set cs. is_base_digit b c \<Longrightarrow> nul_free cs"
  using is_base_digit_class(7) by (auto simp: nul_free_def)

lemma fmt_u_digits: "\<forall>c \<in> set (fmt_u n). is_base_digit 10 c"
  unfolding fmt_u_def using show_base_digits [of 10] by auto

lemma fmt_nul_free [simp]: "nul_free (fmt_u n)" "nul_free (fmt_08x w)"
  using base_digit_nul_free [OF fmt_u_digits]
    base_digit_nul_free [of "fmt_08x w" 16] fmt_08x_digits by auto

lemma fst_reqid_chars:
  "nul_free (fst (reqid st env))" "CHR '' '' \<notin> set (fst (reqid st env))" "fst (reqid st env) \<noteq> []"
  using fmt_08x_digits is_base_digit_class(6) by (auto simp: reqid_def)

lemma length_fmt_u: "n < 2 ^ 32 \<Longrightarrow> length (fmt_u n) \<le> 10"
proof -
  assume "n < 2 ^ 32"
  then have "n < 10 ^ 10" by simp
  then show ?thesis by (simp add: fmt_u_def show_base_def digits_rev_length)
qed

section \<open>The request builder produces the frame\<close>

text \<open>
  The two ways the protocol appends: any string of moderate length to a string that owns
  storage, or something shorter than a chunk to any string.
\<close>

definition dyn_is :: "char list \<Rightarrow> string_t \<Rightarrow> bool" where
  "dyn_is cs s \<longleftrightarrow> dynstr_rep s cs \<and> dynstr_owns s"

lemma dyn_isD: "dyn_is cs s \<Longrightarrow> dynstr_rep s cs" "dyn_is cs s \<Longrightarrow> dynstr_owns s"
  by (simp_all add: dyn_is_def)

lemma dyn_is_reads:
  assumes "dyn_is cs s"
  shows "dynstr_len s = length cs" "dynstr_bytes s (dynstr_len s) = Inr cs"
    "dynstr_cstr s = Inr (cstr cs)"
  using assms dynstr_rep_len [of s cs] dynstr_bytes_rep [of s cs] dynstr_cstr_rep [of s cs]
  by (simp_all add: dyn_is_def)

lemma dynstr_append_more:
  assumes "dyn_is cs s" "good_alloc mem" "nul_free t" "length t \<le> 2 ^ 30"
  shows "returns (dynstr_append mem s t) (dyn_is (cs @ t))"
  using dynstr_append_rep [of s cs mem t] assms by (simp add: returns_def dyn_is_def)

lemma dynstr_append_short:
  assumes "dynstr_rep s cs" "good_alloc mem" "nul_free t" "length t < 64"
  shows "returns (dynstr_append mem s t) (dyn_is (cs @ t))"
proof -
  have "double_until 64 (length t) = 64" using assms(4) by (simp add: double_until.simps)
  with dynstr_append_rep [of s cs mem t] assms show ?thesis by (simp add: returns_def dyn_is_def)
qed

lemma base64_encode_returns:
  "dynstr_rep s cs \<Longrightarrow> good_alloc mem \<Longrightarrow> returns (base64_encode mem t s) (dyn_is (cs @ b64_spec t))"
  using base64_encode_rep [of s cs mem t] by (simp add: returns_def dyn_is_def)

lemma dynstr_new_returns:
  "good_alloc mem \<Longrightarrow> returns (dynstr_new mem) (\<lambda>s. dynstr_rep s [] \<and> \<not> dynstr_owns s)"
  using dynstr_new_rep [of mem] by (simp add: returns_def)

definition arg_ok :: "char list option \<Rightarrow> bool" where
  "arg_ok argument \<longleftrightarrow>
     (case argument of None \<Rightarrow> True | Some arg \<Rightarrow> nul_free arg \<and> length arg < 2 ^ 27)"

definition v1_line :: "char list \<Rightarrow> char list option \<Rightarrow> char list" where
  "v1_line command argument =
     command @ (case argument of None \<Rightarrow> [] | Some arg \<Rightarrow> '' '' @ arg)"

text \<open>A run of appends, the shape of both request builders.\<close>

primrec dynstr_appends :: "allocator \<Rightarrow> string_t \<Rightarrow> char list list \<Rightarrow> string_t outcome" where
  "dynstr_appends mem s [] = Inr s"
| "dynstr_appends mem s (t # ts) = bindr (dynstr_append mem s t) (\<lambda>s'. dynstr_appends mem s' ts)"

lemma dynstr_appends_owned:
  assumes "good_alloc mem"
  shows "dyn_is cs s \<Longrightarrow> \<forall>t \<in> set ts. nul_free t \<and> length t \<le> 2 ^ 30 \<Longrightarrow>
     returns (dynstr_appends mem s ts) (dyn_is (cs @ concat ts))"
proof (induction ts arbitrary: cs s)
  case Nil
  then show ?case by simp
next
  case (Cons t ts)
  have "returns (dynstr_append mem s t) (dyn_is (cs @ t))"
    using Cons.prems by (intro dynstr_append_more assms) auto
  then show ?case
    unfolding dynstr_appends.simps
    by (rule returns_bindI) (use Cons.IH [where cs = "cs @ t"] Cons.prems in simp)
qed

lemma dynstr_appends_short:
  assumes "good_alloc mem" "dynstr_rep s cs" "nul_free t" "length t < 64"
    and "\<forall>t \<in> set ts. nul_free t \<and> length t \<le> 2 ^ 30"
  shows "returns (dynstr_appends mem s (t # ts)) (dyn_is (cs @ concat (t # ts)))"
  unfolding dynstr_appends.simps
  by (rule returns_bindI [OF dynstr_append_short [OF assms(2,1,3,4)]])
    (use dynstr_appends_owned [OF assms(1) _ assms(5), where cs = "cs @ t"] in simp)

lemma proto_make_request_v1_returns:
  assumes "dynstr_rep out cs" "good_alloc mem"
    and "nul_free command" "length command < 64" "arg_ok argument"
  shows "returns (proto_make_request_v1 mem command argument out)
           (dyn_is (cs @ v1_line command argument @ [NL]))"
proof -
  let ?ts = "(case argument of None \<Rightarrow> [] | Some arg \<Rightarrow> ['' '', arg]) @ [[NL]]"
  have "proto_make_request_v1 mem command argument out = dynstr_appends mem out (command # ?ts)"
    by (cases argument) (simp_all add: proto_make_request_v1_def bindr_assoc)
  moreover have "concat (command # ?ts) = v1_line command argument @ [NL]"
    by (cases argument) (simp_all add: v1_line_def)
  moreover have "\<forall>t \<in> set ?ts. nul_free t \<and> length t \<le> 2 ^ 30"
    using assms(5) by (auto simp: arg_ok_def split: option.splits)
  ultimately show ?thesis
    using dynstr_appends_short [OF assms(2,1,3,4), of ?ts] by (simp only:)
qed

text \<open>The body of a frame, in the way the builder assembles it.\<close>

lemma length_b64_le: "length (b64_spec xs) \<le> 4 * length xs + 4"
  by (induction xs rule: b64_spec.induct) auto

lemma frame_body_props:
  assumes "nul_free rid" "length rid < 64" "nul_free command" "length command < 64" "arg_ok argument"
  shows "nul_free (frame_body rid command argument)"
    "length (frame_body rid command argument) \<le> 2 ^ 30"
    "0 < length (frame_body rid command argument)"
proof -
  show "nul_free (frame_body rid command argument)"
    using assms by (auto simp: frame_body_def b64_spec_nul_free split: option.splits)
  have "length (b64_spec arg) \<le> 2 ^ 30 - 200" if "argument = Some arg" for arg
    using assms(5) length_b64_le [of arg] that by (simp add: arg_ok_def)
  then show "length (frame_body rid command argument) \<le> 2 ^ 30"
    using assms(2,4) by (cases argument) (auto simp: frame_body_def)
  show "0 < length (frame_body rid command argument)" by (simp add: frame_body_def)
qed

lemma proto_make_body_returns:
  assumes "good_alloc mem"
    and "nul_free rid" "length rid < 64" "nul_free command" "length command < 64" "arg_ok argument"
  shows "returns (proto_make_body mem command argument rid) (dyn_is (frame_body rid command argument))"
proof -
  have "returns (bindr (dynstr_append mem body rid) (\<lambda>body.
     bindr (dynstr_append mem body '' '') (\<lambda>body.
     bindr (dynstr_append mem body command) (\<lambda>body.
     case argument of
       None \<Rightarrow> Inr body
     | Some arg \<Rightarrow>
         bindr (dynstr_append mem body '' '') (\<lambda>body. base64_encode mem (cstr arg) body)))))
     (dyn_is (frame_body rid command argument))" if new: "dynstr_rep body []" for body
  proof (cases argument)
    case None
    have "returns (dynstr_appends mem body [rid, '' '', command])
        (dyn_is ([] @ concat [rid, '' '', command]))"
      using assms new by (intro dynstr_appends_short) auto
    with None show ?thesis by (simp add: frame_body_def)
  next
    case (Some arg)
    have a: "cstr arg = arg" using assms(6) Some by (simp add: arg_ok_def)
    have 1: "returns (dynstr_appends mem body [rid, '' '', command, '' ''])
        (dyn_is ([] @ concat [rid, '' '', command, '' '']))"
      using assms new by (intro dynstr_appends_short) auto
    have "returns (bindr (dynstr_appends mem body [rid, '' '', command, '' ''])
        (\<lambda>body. base64_encode mem arg body)) (dyn_is (frame_body rid command argument))"
      by (rule returns_bindI [OF 1],
          rule returns_mono [OF base64_encode_returns [OF dyn_isD(1) assms(1)]], assumption)
        (simp add: Some frame_body_def)
    then show ?thesis using Some a by (simp add: bindr_assoc)
  qed
  then show ?thesis
    unfolding proto_make_body_def
    by (intro returns_bindI [OF dynstr_new_returns [OF assms(1)]]) blast
qed

lemma proto_make_request_v2_returns:
  assumes "good_alloc mem" "dynstr_rep out cs"
    and "nul_free rid" "length rid < 64" "nul_free command" "length command < 64" "arg_ok argument"
  shows "returns (proto_make_request_v2 mem command argument out rid)
           (dyn_is (cs @ frame_line (frame_body rid command argument) @ [NL]))"
proof -
  let ?b = "frame_body rid command argument"
  note bp = frame_body_props [OF assms(3-7)]
  let ?sb = "fmt_u (length ?b) @ '' '' @ fmt_08x (crc32_calc ?b)"
  have sb: "length ?sb < 64" "length ?sb + 1 \<le> STRBUF_LEN" "nul_free ?sb"
    using length_fmt_u [of "length ?b"] bp(2) by (auto simp: length_fmt_08x STRBUF_LEN_def)
  have tail: "returns (dynstr_appends mem out [''V2 '', ?sb, '' '', ?b, [NL]])
      (dyn_is (cs @ concat [''V2 '', ?sb, '' '', ?b, [NL]]))"
    using assms(1,2) sb bp by (intro dynstr_appends_short) auto
  show ?thesis
    unfolding proto_make_request_v2_def
  proof (rule returns_bindI [OF proto_make_body_returns [OF assms(1,3-7)]])
    fix body assume body: "dyn_is ?b body"
    then have r: "dynstr_len body = length ?b" "dynstr_bytes body (length ?b) = Inr ?b"
      "dynstr_cstr body = Inr ?b"
      using dyn_is_reads [OF body] bp(1) by simp_all
    have m: "length ?b mod 2 ^ 32 = length ?b" using bp(2) by simp
    show "returns (bindr (dynstr_append mem out ''V2 '') (\<lambda>output.
     bindr (dynstr_bytes body (dynstr_len body)) (\<lambda>bytes.
     let strbuf = fmt_u (dynstr_len body mod 2 ^ 32) @ '' '' @ fmt_08x (crc32_calc bytes)
     in if STRBUF_LEN < length strbuf + 1 then Inl Fault_OOB else
     bindr (dynstr_append mem output strbuf) (\<lambda>output.
     bindr (dynstr_append mem output '' '') (\<lambda>output.
     bindr (dynstr_cstr body) (\<lambda>b.
     bindr (dynstr_append mem output b) (\<lambda>output.
     dynstr_append mem output [NL])))))))
     (dyn_is (cs @ frame_line ?b @ [NL]))"
      using tail sb(2)
      by (simp only: r m bindr_Inr Let_def linorder_not_less [symmetric] if_False)
        (simp add: frame_line_def)
  qed
qed

section \<open>The parser reads the frame back\<close>

lemma read_token_returns:
  assumes "good_alloc mem" "\<forall>c \<in> set tok. c \<noteq> CHR '' ''" "r = [] \<or> hd r = CHR '' ''"
  shows "dynstr_rep dst cs \<Longrightarrow>
     returns (read_token mem dst (tok @ r))
       (\<lambda>(dst', s). dynstr_rep dst' (cs @ tok) \<and> (tok \<noteq> [] \<longrightarrow> dynstr_owns dst') \<and> s = r)"
  using assms(2)
proof (induction tok arbitrary: dst cs)
  case Nil
  with assms(3) show ?case by (cases r) auto
next
  case (Cons c tok)
  obtain d1 where d1: "dynstr_appendc mem dst c = Inr d1" "dynstr_rep d1 (cs @ [c])" "dynstr_owns d1"
    using dynstr_appendc_rep [OF Cons.prems(1) assms(1), of c] by blast
  have "returns (read_token mem d1 (tok @ r))
     (\<lambda>(dst', s). dynstr_rep dst' ((cs @ [c]) @ tok) \<and> (tok \<noteq> [] \<longrightarrow> dynstr_owns dst') \<and> s = r)"
    using Cons.IH [OF d1(2)] Cons.prems(2) by simp
  moreover have "dynstr_owns dst'" if "read_token mem d1 s = Inr (dst', u)" for dst' u s
    using that d1(3)
  proof (induction s arbitrary: d1)
    case (Cons a s)
    then show ?case
      by (auto simp: bindr_eq_Inr_iff dynstr_appendc_def split: if_splits option.splits)
  qed simp
  ultimately show ?case
    using d1(1) Cons.prems(2) by (auto simp: returns_def)
qed

text \<open>What the parser needs of the two words of a frame.\<close>

definition frame_word :: "char list \<Rightarrow> bool" where
  "frame_word w \<longleftrightarrow> w \<noteq> [] \<and> nul_free w \<and> CHR '' '' \<notin> set w \<and> length w < 64"

lemma skip_spaces_simps [simp]:
  "skip_spaces (CHR '' '' # s) = skip_spaces s"
  "c \<noteq> CHR '' '' \<Longrightarrow> skip_spaces (c # s) = c # s"
  "skip_spaces [] = []"
  by (simp_all add: skip_spaces_def)

lemma skip_spaces_word: "frame_word w \<Longrightarrow> skip_spaces (w @ r) = w @ r"
  by (cases w) (auto simp: frame_word_def)

lemma skip_spaces_digits:
  "ds \<noteq> [] \<Longrightarrow> \<forall>c \<in> set ds. is_base_digit b c \<Longrightarrow> skip_spaces (ds @ r) = ds @ r"
  using is_base_digit_class(6) [of b "hd ds"] by (cases ds) simp_all

lemma skip_spaces_b64: "skip_spaces (b64_spec xs) = b64_spec xs"
proof -
  have sp: "b64_digit (byte_val a div 4) \<noteq> CHR '' ''" for a
  proof -
    have "decode_one (CHR '' '') = -2" by (simp add: decode_one_def)
    moreover have "decode_one (b64_digit (byte_val a div 4)) = byte_val a div 4"
      by (rule b64_digit_props) (simp_all add: byte_digit_ranges)
    ultimately show ?thesis using byte_digit_ranges(1) [of a] by (metis neg_0_le_iff_le not_numeral_le_zero)
  qed
  show ?thesis by (cases xs rule: b64_spec.cases) (simp_all add: sp)
qed

text \<open>The header of a frame: length and checksum are read back as printed.\<close>

lemma frame_header_read:
  assumes "frame_word rid" "length body < 2 ^ 32" "body = rid @ r"
  shows "strtoul 10 (drop 3 (frame_line body)) =
      (length body, '' '' @ fmt_08x (crc32_calc body) @ '' '' @ body)"
    "strtoul 16 (skip_spaces ('' '' @ fmt_08x (crc32_calc body) @ '' '' @ body)) =
      (unat (crc32_calc body), '' '' @ body)"
    "skip_spaces ('' '' @ body) = body"
proof -
  have sp: "\<not> is_base_digit b (CHR '' '')" for b
    using is_base_digit_class(6) by blast
  show "strtoul 10 (drop 3 (frame_line body)) =
      (length body, '' '' @ fmt_08x (crc32_calc body) @ '' '' @ body)"
    using assms(2) sp unfolding frame_line_def fmt_u_def
    by (simp add: strtoul_show_base ULONG_MAX_def)
  have "skip_spaces (fmt_08x (crc32_calc body) @ '' '' @ body) = fmt_08x (crc32_calc body) @ '' '' @ body"
    using fmt_08x_digits by (intro skip_spaces_digits [where b = 16]) auto
  then show "strtoul 16 (skip_spaces ('' '' @ fmt_08x (crc32_calc body) @ '' '' @ body)) =
      (unat (crc32_calc body), '' '' @ body)"
    using sp by (simp add: strtoul_fmt_08x)
  show "skip_spaces ('' '' @ body) = body"
    using skip_spaces_word [OF assms(1)] assms(3) by simp
qed

lemma read_word_returns:
  assumes "good_alloc mem" "frame_word w" "r = [] \<or> hd r = CHR '' ''" "dynstr_rep dst []"
  shows "returns (read_token mem dst (w @ r)) (\<lambda>(dst', s). dyn_is w dst' \<and> s = r)"
proof -
  have "\<forall>c \<in> set w. c \<noteq> CHR '' ''" using assms(2) by (auto simp: frame_word_def)
  from read_token_returns [OF assms(1) this assms(3,4)] show ?thesis
    by (rule returns_mono) (use assms(2) in \<open>auto simp: dyn_is_def frame_word_def\<close>)
qed

lemma base64_decode_returns:
  "dynstr_rep s cs \<Longrightarrow> good_alloc mem \<Longrightarrow>
   returns (base64_decode mem (b64_spec xs) s) (\<lambda>(r, s'). r = 0 \<and> dyn_is (cs @ cut_groups xs) s')"
  using base64_decode_rep [of s cs mem xs] by (auto simp: returns_def dyn_is_def)

lemma proto_parse_v2_returns:
  assumes "good_alloc mem" "frame_word rid" "frame_word command" "arg_ok argument"
    and "dyn_is (frame_line (frame_body rid command argument)) input"
    and "dynstr_rep r0 []" "dynstr_rep c0 []" "dynstr_rep d0 []"
    and crc: "crc32_calc (frame_body rid command argument) \<noteq> 0"
  shows "returns (proto_parse_v2 mem input r0 c0 d0)
    (\<lambda>res. v2_ret res = 0 \<and> v2_errmsg res = None \<and> dyn_is rid (v2_request_id res) \<and>
       dyn_is command (v2_command res) \<and>
       dyn_is (case argument of None \<Rightarrow> [] | Some arg \<Rightarrow> arg) (v2_data res))"
proof -
  let ?pay = "case argument of None \<Rightarrow> [] | Some arg \<Rightarrow> '' '' @ b64_spec arg"
  let ?xs = "case argument of None \<Rightarrow> [] | Some arg \<Rightarrow> arg"
  let ?body = "frame_body rid command argument"
  have w: "nul_free rid" "length rid < 64" "nul_free command" "length command < 64"
    "rid \<noteq> []" "command \<noteq> []"
    using assms(2,3) by (auto simp: frame_word_def)
  note bp = frame_body_props [OF w(1-4) assms(4)]
  have body: "?body = rid @ '' '' @ command @ ?pay" by (simp add: frame_body_def)
  have len: "length ?body < 2 ^ 32" using bp(2) by simp
  note hdr = frame_header_read [OF assms(2) len body]
  have nf: "nul_free (frame_line ?body)" using bp(1) by (simp add: frame_line_def)
  have line: "dynstr_cstr input = Inr (frame_line ?body)"
    using dyn_is_reads(3) [OF assms(5)] nf by simp
  have t3: "take 3 (frame_line ?body) = ''V2 ''" by (simp add: frame_line_def)
  have n0: "length ?body \<noteq> 0" using bp(3) by simp
  have crc': "(of_nat (unat (crc32_calc ?body)) :: 32 word) = crc32_calc ?body" by simp
  have pay: "skip_spaces ?pay = b64_spec ?xs"
    by (cases argument) (simp_all add: skip_spaces_b64)
  have xs: "cut_groups ?xs = ?xs"
    using assms(4) by (cases argument) (simp_all add: arg_ok_def cut_groups_nul_free)
  have tok1: "returns (read_token mem r0 ?body) (\<lambda>(d, s). dyn_is rid d \<and> s = '' '' @ command @ ?pay)"
    unfolding body by (rule read_word_returns [OF assms(1,2) _ assms(6)]) simp
  have tok2: "returns (read_token mem c0 (skip_spaces ('' '' @ command @ ?pay)))
      (\<lambda>(d, s). dyn_is command d \<and> s = ?pay)"
    using skip_spaces_word [OF assms(3)]
    by (simp, intro read_word_returns [OF assms(1,3) _ assms(7)]) (simp split: option.split)
  have dec: "returns (base64_decode mem (skip_spaces ?pay) d0) (\<lambda>(r, s'). r = 0 \<and> dyn_is ?xs s')"
    using base64_decode_returns [OF assms(8,1), of ?xs] by (simp add: pay xs)
  obtain d1 where d1: "read_token mem r0 ?body = Inr (d1, '' '' @ command @ ?pay)" "dyn_is rid d1"
    using returnsD [OF tok1] by auto
  obtain d2 where d2: "read_token mem c0 (skip_spaces ('' '' @ command @ ?pay)) = Inr (d2, ?pay)"
    "dyn_is command d2"
    using returnsD [OF tok2] by auto
  obtain d3 where d3: "base64_decode mem (skip_spaces ?pay) d0 = Inr (0, d3)" "dyn_is ?xs d3"
    using returnsD [OF dec] by auto
  have nz: "dynstr_len d1 \<noteq> 0" "dynstr_len d2 \<noteq> 0"
    using dyn_is_reads(1) [OF d1(2)] dyn_is_reads(1) [OF d2(2)] w by simp_all
  show ?thesis
    unfolding proto_parse_v2_def line bindr_Inr t3 hdr(1) Let_def prod.case hdr(2) crc' hdr(3)
    using crc n0 nz d1(2) d2(2) d3(2)
    by (simp only: d1(1) d2(1) d3(1) bindr_Inr prod.case take_all [OF order_refl] hdr(2,3) crc'
        if_False simp_thms refl) simp
qed

section \<open>What an accepted frame guarantees\<close>

lemma suffix_dropWhile: "\<exists>p. s = p @ dropWhile P s"
  by (metis takeWhile_dropWhile_id)

lemma skip_sign_suffix: "\<exists>p. s = p @ snd (skip_sign s)"
  by (cases s) (auto simp: skip_sign_def)

lemma skip_0x_suffix: "\<exists>p. s = p @ skip_0x b s"
proof (cases "skip_0x b s = s")
  case False
  then show ?thesis by (auto simp: skip_0x_def split: list.splits if_splits)
qed simp

lemma scan_number_suffix: "scan_number b s = Some (neg, v, r) \<Longrightarrow> \<exists>p. s = p @ r"
proof -
  assume a: "scan_number b s = Some (neg, v, r)"
  let ?s0 = "dropWhile isspace s"
  let ?s2 = "skip_0x b (snd (skip_sign ?s0))"
  have r: "r = dropWhile (is_base_digit b) ?s2"
    using a by (auto simp: scan_number_def Let_def split: prod.splits if_splits)
  obtain p0 p1 p2 p3 where "s = p0 @ ?s0" "?s0 = p1 @ snd (skip_sign ?s0)"
    "snd (skip_sign ?s0) = p2 @ ?s2" "?s2 = p3 @ r"
    using suffix_dropWhile skip_sign_suffix skip_0x_suffix r by metis
  then have "s = (p0 @ p1 @ p2 @ p3) @ r" by simp
  then show ?thesis by blast
qed

lemma strtoul_suffix: "\<exists>p. s = p @ snd (strtoul b s)"
  using scan_number_suffix [of b s] by (auto simp: strtoul_def split: option.splits)

lemma skip_spaces_suffix: "\<exists>p. s = p @ skip_spaces s"
  unfolding skip_spaces_def by (rule suffix_dropWhile)

text \<open>The part of a line after the two header numbers.\<close>

definition frame_rest :: "char list \<Rightarrow> char list" where
  "frame_rest line =
     skip_spaces (snd (strtoul 16 (skip_spaces (snd (strtoul 10 (drop 3 line))))))"

lemma frame_rest_suffix: "\<exists>p. drop 3 line = p @ frame_rest line"
proof -
  let ?a = "snd (strtoul 10 (drop 3 line))" and ?b = "skip_spaces (snd (strtoul 10 (drop 3 line)))"
  obtain p1 p2 p3 p4 where "drop 3 line = p1 @ ?a" "?a = p2 @ ?b"
    "?b = p3 @ snd (strtoul 16 ?b)" "snd (strtoul 16 ?b) = p4 @ frame_rest line"
    unfolding frame_rest_def using strtoul_suffix skip_spaces_suffix by metis
  then have "drop 3 line = (p1 @ p2 @ p3 @ p4) @ frame_rest line" by simp
  then show ?thesis by blast
qed

lemma proto_parse_v2_checked:
  assumes "proto_parse_v2 mem input r0 c0 d0 = Inr res" "v2_ret res = 0"
  shows "\<exists>line. dynstr_cstr input = Inr line \<and> take 3 line = ''V2 '' \<and>
     length (frame_rest line) = fst (strtoul 10 (drop 3 line)) \<and> frame_rest line \<noteq> [] \<and>
     crc32_calc (frame_rest line) =
       of_nat (fst (strtoul 16 (skip_spaces (snd (strtoul 10 (drop 3 line)))))) \<and>
     crc32_calc (frame_rest line) \<noteq> 0"
  using assms unfolding proto_parse_v2_def frame_rest_def
  by (auto simp: bindr_eq_Inr_iff Let_def split: prod.splits if_splits)

section \<open>Properties\<close>

text \<open>C5: A version 2 request built by \<^verbatim>\<open>proto_make_request_v2\<close>, with its newline cut off, is
  parsed by \<^verbatim>\<open>proto_parse_v2\<close> into the same request identifier, command and argument, unless
  its checksum happens to be zero.\<close>

theorem v2_frame_roundtrip:
  assumes "good_alloc mem" "frame_word rid" "frame_word command" "arg_ok argument"
    and "dynstr_rep out []" "dynstr_rep r0 []" "dynstr_rep c0 []" "dynstr_rep d0 []"
    and "crc32_calc (frame_body rid command argument) \<noteq> 0"
    and "dyn_is (frame_line (frame_body rid command argument)) input"
  shows "returns (proto_make_request_v2 mem command argument out rid)
       (\<lambda>req. bindr (dynstr_cstr req) (\<lambda>r. Inr (butlast r)) = dynstr_cstr input \<and>
              bindr (dynstr_cstr req) (\<lambda>r. Inr (last r)) = Inr NL) \<and>
     returns (proto_parse_v2 mem input r0 c0 d0) (\<lambda>res. v2_ret res = 0 \<and>
       dynstr_cstr (v2_request_id res) = Inr rid \<and> dynstr_cstr (v2_command res) = Inr command \<and>
       dynstr_cstr (v2_data res) = Inr (case argument of None \<Rightarrow> [] | Some arg \<Rightarrow> arg))"
proof
  let ?line = "frame_line (frame_body rid command argument)"
  have w: "nul_free rid" "length rid < 64" "nul_free command" "length command < 64"
    using assms(2,3) by (auto simp: frame_word_def)
  have nf: "nul_free ?line"
    using frame_body_props(1) [OF w assms(4)] by (simp add: frame_line_def)
  have arg: "nul_free (case argument of None \<Rightarrow> [] | Some arg \<Rightarrow> arg)"
    using assms(4) by (simp add: arg_ok_def split: option.splits)
  show "returns (proto_parse_v2 mem input r0 c0 d0) (\<lambda>res. v2_ret res = 0 \<and>
       dynstr_cstr (v2_request_id res) = Inr rid \<and> dynstr_cstr (v2_command res) = Inr command \<and>
       dynstr_cstr (v2_data res) = Inr (case argument of None \<Rightarrow> [] | Some arg \<Rightarrow> arg))"
    by (rule returns_mono [OF proto_parse_v2_returns [OF assms(1-4,10,6-9)]])
      (use w arg in \<open>auto dest!: dyn_is_reads(3)\<close>)
  show "returns (proto_make_request_v2 mem command argument out rid)
       (\<lambda>req. bindr (dynstr_cstr req) (\<lambda>r. Inr (butlast r)) = dynstr_cstr input \<and>
              bindr (dynstr_cstr req) (\<lambda>r. Inr (last r)) = Inr NL)"
    by (rule returns_mono [OF proto_make_request_v2_returns [OF assms(1,5) w assms(4)]])
      (use nf dyn_is_reads(3) [OF assms(10)] in \<open>auto dest!: dyn_is_reads(3)\<close>)
qed

text \<open>A string that holds a given text, and the frame shown in a comment of the source:
  \<^verbatim>\<open>V2 21 265ae1d8 dc4fae17 SUCCESS W10=\<close>.\<close>

definition dynstr_of :: "char list \<Rightarrow> string_t" where
  "dynstr_of cs = \<lparr>str_strlen = length cs, str_datalen = length cs + 1,
     str_data = Some (map Some (cs @ [NUL]))\<rparr>"

lemma dyn_is_dynstr_of [simp]: "dyn_is cs (dynstr_of cs)"
  by (auto simp: dyn_is_def dynstr_of_def dynstr_rep_def buf_holds_def)

lemma sample_crc: "crc32_calc (frame_body ''dc4fae17'' ''SUCCESS'' (Some ''[]'')) = 0x265ae1d8"
  by code_simp

theorem v2_frame_roundtrip_witness:
  "returns (proto_parse_v2 heap_base
      (dynstr_of (frame_line (frame_body ''dc4fae17'' ''SUCCESS'' (Some ''[]''))))
      dynstr_empty dynstr_empty dynstr_empty)
    (\<lambda>res. v2_ret res = 0 \<and> dynstr_cstr (v2_request_id res) = Inr ''dc4fae17'' \<and>
       dynstr_cstr (v2_command res) = Inr ''SUCCESS'' \<and> dynstr_cstr (v2_data res) = Inr ''[]'')"
  using v2_frame_roundtrip [of heap_base "''dc4fae17''" "''SUCCESS''" "Some ''[]''" dynstr_empty
      dynstr_empty dynstr_empty dynstr_empty, OF _ _ _ _ _ _ _ _ _ dyn_is_dynstr_of]
  by (simp add: sample_crc frame_word_def arg_ok_def)

text \<open>C6: A frame is accepted only if it starts with \<^verbatim>\<open>V2\<close>, its length field is the true length
  of the rest of the line, the rest is not empty, and the checksum field is the CRC-32 of the rest
  and not zero; and the rest is a suffix of the line.\<close>

theorem v2_accepted_frame:
  assumes "proto_parse_v2 mem input r0 c0 d0 = Inr res" "v2_ret res = 0"
  shows "\<exists>line p. dynstr_cstr input = Inr line \<and> line = ''V2 '' @ p @ frame_rest line \<and>
     frame_rest line \<noteq> [] \<and> length (frame_rest line) = fst (strtoul 10 (drop 3 line)) \<and>
     crc32_ref (frame_rest line) =
       of_nat (fst (strtoul 16 (skip_spaces (snd (strtoul 10 (drop 3 line)))))) \<and>
     crc32_ref (frame_rest line) \<noteq> 0"
proof -
  obtain line where l: "dynstr_cstr input = Inr line" "take 3 line = ''V2 ''"
    "length (frame_rest line) = fst (strtoul 10 (drop 3 line))" "frame_rest line \<noteq> []"
    "crc32_calc (frame_rest line) =
       of_nat (fst (strtoul 16 (skip_spaces (snd (strtoul 10 (drop 3 line))))))"
    "crc32_calc (frame_rest line) \<noteq> 0"
    using proto_parse_v2_checked [OF assms] by blast
  obtain p where "drop 3 line = p @ frame_rest line" using frame_rest_suffix by blast
  then have "line = ''V2 '' @ p @ frame_rest line"
    using l(2) append_take_drop_id [of 3 line] by simp
  moreover have "crc32_calc (frame_rest line) = crc32_ref (frame_rest line)"
    by (simp add: crc32_calc_def crc32_ref_def crc32_loop_ref)
  ultimately show ?thesis using l by auto
qed

theorem v2_accepted_frame_witness:
  "\<exists>line p. dynstr_cstr (dynstr_of (frame_line (frame_body ''dc4fae17'' ''SUCCESS'' (Some ''[]'')))) =
       Inr line \<and> line = ''V2 '' @ p @ frame_rest line \<and> frame_rest line \<noteq> []"
proof -
  obtain res where "proto_parse_v2 heap_base
      (dynstr_of (frame_line (frame_body ''dc4fae17'' ''SUCCESS'' (Some ''[]''))))
      dynstr_empty dynstr_empty dynstr_empty = Inr res" "v2_ret res = 0"
    using returnsD [OF proto_parse_v2_returns [of heap_base "''dc4fae17''" "''SUCCESS''" "Some ''[]''",
        OF _ _ _ _ dyn_is_dynstr_of, of dynstr_empty dynstr_empty dynstr_empty]]
    by (auto simp: sample_crc frame_word_def arg_ok_def)
  from v2_accepted_frame [OF this] show ?thesis by blast
qed

text \<open>The request identifier printed by \<^verbatim>\<open>reqid\<close> is eight hexadecimal digits that fill its
  buffer exactly with the terminator, whatever the source of randomness, and reading the digits
  back gives the random number.\<close>

theorem reqid_digits:
  "length (fst (reqid st env)) + 1 = REQID_LEN \<and> frame_word (fst (reqid st env)) \<and>
   (\<exists>w :: 32 word. fst (reqid st env) = fmt_08x w \<and> strtoul 16 (fst (reqid st env)) = (unat w, []))"
proof -
  have "\<exists>w. fst (reqid st env) = fmt_08x w"
    by (cases "urandom_fd st \<noteq> -1 \<and> env_urandom env \<noteq> None") (auto simp: reqid_def)
  then obtain w where w: "fst (reqid st env) = fmt_08x w" ..
  have d: "\<forall>c \<in> set (fmt_08x w). is_base_digit 16 c" using fmt_08x_digits by auto
  have "CHR '' '' \<notin> set (fmt_08x w)" using d is_base_digit_class(6) by blast
  moreover have "length (fmt_08x w) = 8" by (rule length_fmt_08x)
  ultimately have "frame_word (fmt_08x w)" by (auto simp: frame_word_def)
  moreover have "strtoul 16 (fmt_08x w) = (unat w, [])"
    using strtoul_fmt_08x [of "[]" w] by simp
  ultimately show ?thesis using w reqid_fits by metis
qed

end
