(* ===== verification/Mdata_Plat.thy ===== *)
theory Mdata_Plat
  imports Mdata_Wire
begin

text \<open>
  The platform layer of the metadata client on SmartOS:
  \<^verbatim>\<open>src/src/dockerinit/mdata-client/plat/sunos.c\<close> and \<^verbatim>\<open>plat/unix_common.c\<close>.
  System calls are the environment. What the kernel does on one connection is a list of port
  events (one for each turn of the receive loop) and a list of \<^verbatim>\<open>write\<close> results, kept next to
  the descriptors; what it answers while a connection is set up is an \<open>init_env\<close>. An
  exhausted list means that nothing more happens: \<^verbatim>\<open>port_get\<close> then runs into its timeout.
\<close>

section \<open>Connections and the environment\<close>

record port_event =
  pev_assoc_ok :: bool        \<comment> \<open>\<^verbatim>\<open>port_associate\<close> succeeded\<close>
  pev_error :: bool           \<comment> \<open>\<^verbatim>\<open>port_get\<close> failed for another reason than a timeout\<close>
  pev_delay :: nat            \<comment> \<open>milliseconds until the event is delivered\<close>
  pev_in :: bool
  pev_read :: "char option"   \<comment> \<open>the byte that \<^verbatim>\<open>read\<close> returns, if it returns one\<close>
  pev_err :: bool
  pev_hup :: bool

record mdata_plat =
  mpl_port :: int
  mpl_conn :: int
  mpl_events :: "port_event list"
  mpl_writes :: "int list"
  mpl_sent :: "char list"

datatype stat_result = Stat_sock | Stat_not_sock errno | Stat_failed errno

record init_env =
  ie_calloc :: bool
  ie_port_create :: int
  ie_global_zone :: bool
  ie_root :: bool
  ie_lstat :: "char list \<Rightarrow> stat_result"
  ie_socket :: int
  ie_ioctl_ok :: bool
  ie_connect_ok :: bool
  ie_product :: "char list option"
  ie_open :: "errno + int"
  ie_lock_ok :: bool
  ie_tcget_ok :: bool
  ie_tcset_ok :: bool
  ie_flush :: "(int \<times> errno) list"   \<comment> \<open>results of the discarding reads\<close>
  ie_events :: "port_event list"
  ie_writes :: "int list"

section \<open>Sending and receiving\<close>

definition plat_send :: "mdata_plat \<Rightarrow> string_t \<Rightarrow> (int \<times> mdata_plat) outcome" where
  "plat_send mpl data =
     bindr (dynstr_bytes data (dynstr_len data)) (\<lambda>bytes.
     let n = (case mpl_writes mpl of [] \<Rightarrow> -1 | w # _ \<Rightarrow> w);
         mpl' = mpl\<lparr>mpl_writes := tl (mpl_writes mpl),
                    mpl_sent := mpl_sent mpl @ take (nat n) bytes\<rparr>
     in if n \<noteq> int (dynstr_len data) then Inr (-1, mpl') else Inr (0, mpl'))"

text \<open>
  The receive loop. \<^verbatim>\<open>timeout_ms\<close> is reduced to its remainder below a second by each turn:
  the first wait is \<^verbatim>\<open>timeout_ms\<close> long and every later one \<^verbatim>\<open>timeout_ms % 1000\<close>.
\<close>

fun plat_recv_loop ::
    "allocator \<Rightarrow> port_event list \<Rightarrow> string_t \<Rightarrow> nat \<Rightarrow> (int \<times> string_t \<times> port_event list) outcome" where
  "plat_recv_loop mem [] data timeout_ms = Inr (-1, data, [])"
| "plat_recv_loop mem (e # es) data timeout_ms =
     (if \<not> pev_assoc_ok e then Inr (-1, data, es)
      else if pev_error e then Inr (-1, data, es)
      else if timeout_ms < pev_delay e
      then Inr (-1, data, e\<lparr>pev_delay := pev_delay e - timeout_ms\<rparr> # es)
      else if pev_in e \<and> pev_read e = Some NL then Inr (0, data, es)
      else bindr (if pev_in e
                  then (case pev_read e of
                          None \<Rightarrow> Inr data
                        | Some c \<Rightarrow> dynstr_append mem data [c, NUL])
                  else Inr data)
        (\<lambda>data'. if pev_err e then Inr (-1, data', es)
                 else if pev_hup e then Inr (-1, data', es)
                 else plat_recv_loop mem es data' (timeout_ms mod 1000)))"

definition plat_recv ::
    "allocator \<Rightarrow> mdata_plat \<Rightarrow> string_t \<Rightarrow> nat \<Rightarrow> (int \<times> string_t \<times> mdata_plat) outcome" where
  "plat_recv mem mpl data timeout_ms =
     bindr (plat_recv_loop mem (mpl_events mpl) data timeout_ms)
       (\<lambda>(r, data', es). Inr (r, data', mpl\<lparr>mpl_events := es\<rparr>))"

section \<open>Opening a connection\<close>

definition zone_md_socket_paths :: "char list list" where
  "zone_md_socket_paths =
     [''/native/.zonecontrol/metadata.sock'',
      ''/.zonecontrol/metadata.sock'',
      ''/var/run/smartdc/metadata.sock'']"

text \<open>The path found, and whether a permission problem was met on the way.\<close>

fun find_md_ngz_from :: "init_env \<Rightarrow> char list list \<Rightarrow> bool \<Rightarrow> char list option \<times> bool" where
  "find_md_ngz_from env [] permfail = (None, permfail)"
| "find_md_ngz_from env (p # ps) permfail =
     (case ie_lstat env p of
        Stat_sock \<Rightarrow> (Some p, permfail)
      | Stat_not_sock e \<Rightarrow>
          find_md_ngz_from env ps (permfail \<or> (\<not> ie_root env \<and> (e = EPERM \<or> e = EACCES)))
      | Stat_failed e \<Rightarrow>
          find_md_ngz_from env ps (permfail \<or> (\<not> ie_root env \<and> (e = EPERM \<or> e = EACCES))))"

definition find_md_ngz :: "init_env \<Rightarrow> char list option \<times> bool" where
  "find_md_ngz env = find_md_ngz_from env zone_md_socket_paths False"

text \<open>
  The result of opening a stream: the return value, the descriptor, the message,
  \<^verbatim>\<open>permfail\<close>, and the descriptors that were opened on the way and not closed again.
\<close>

record open_result =
  or_ret :: int
  or_fd :: int
  or_errmsg :: "char list option"
  or_permfail :: bool
  or_leaked :: "int list"

definition open_ok :: "int \<Rightarrow> bool \<Rightarrow> open_result" where
  "open_ok fd pf = \<lparr>or_ret = 0, or_fd = fd, or_errmsg = None, or_permfail = pf, or_leaked = []\<rparr>"

definition open_fail :: "char list \<Rightarrow> bool \<Rightarrow> int list \<Rightarrow> open_result" where
  "open_fail msg pf leaked =
     \<lparr>or_ret = -1, or_fd = -1, or_errmsg = Some msg, or_permfail = pf, or_leaked = leaked\<rparr>"

definition open_md_ngz :: "init_env \<Rightarrow> open_result" where
  "open_md_ngz env =
     (case find_md_ngz env of
        (None, pf) \<Rightarrow> open_fail ''Could not find metadata socket.'' pf []
      | (Some path, pf) \<Rightarrow>
          if ie_socket env = -1 then open_fail ''Could not open metadata socket.'' True []
          else if \<not> ie_ioctl_ok env
          then open_fail ''Could not set non-blocking I/O on socket.'' True []
          else if \<not> ie_connect_ok env then open_fail ''Could not connect metadata socket.'' pf []
          else open_ok (ie_socket env) pf)"

definition unix_raw_mode :: "init_env \<Rightarrow> int \<times> char list option" where
  "unix_raw_mode env =
     (if \<not> ie_tcget_ok env then (-1, Some ''could not set raw mode on serial device'')
      else if \<not> ie_tcset_ok env then (-1, Some ''could not get attributes from serial device'')
      else (0, None))"

text \<open>\<^verbatim>\<open>do { sz = read(...); if (sz == -1 && errno != EAGAIN) fail; } while (sz > 0)\<close>\<close>

fun flush_serial :: "(int \<times> errno) list \<Rightarrow> int outcome" where
  "flush_serial [] = Inl Fault_Blocked"
| "flush_serial ((sz, e) # rs) =
     (if sz = -1 \<and> e \<noteq> EAGAIN then Inr (-1)
      else if 0 < sz then flush_serial rs
      else Inr 0)"

definition unix_open_serial :: "init_env \<Rightarrow> open_result outcome" where
  "unix_open_serial env =
     (case ie_open env of
        Inl e \<Rightarrow>
          Inr (open_fail ''Could not open serial device.''
                (e \<noteq> EAGAIN \<and> e \<noteq> EBUSY \<and> e \<noteq> EINTR) [])
      | Inr fd \<Rightarrow>
          if \<not> ie_lock_ok env
          then Inr (open_fail ''Could not lock serial device.'' False [fd])
          else (case unix_raw_mode env of
                  (r, msg) \<Rightarrow>
                    if r = -1 then Inr (open_fail (the msg) True [])
                    else bindr (flush_serial (ie_flush env)) (\<lambda>f.
                           if f = -1
                           then Inr (open_fail ''Failed to flush serial port before use.'' False [])
                           else Inr (open_ok fd False))))"

definition open_md_gz :: "init_env \<Rightarrow> open_result outcome" where
  "open_md_gz env = unix_open_serial env"

text \<open>\<^verbatim>\<open>plat_fini\<close>: the descriptors it closes.\<close>

definition plat_fini :: "mdata_plat option \<Rightarrow> int list" where
  "plat_fini mpl =
     (case mpl of
        None \<Rightarrow> []
      | Some m \<Rightarrow> filter (\<lambda>fd. fd \<noteq> -1) [mpl_port m, mpl_conn m])"

definition plat_send_reset :: "allocator \<Rightarrow> mdata_plat \<Rightarrow> (int \<times> mdata_plat) outcome" where
  "plat_send_reset mem mpl =
     bindr (dynstr_new mem) (\<lambda>str.
     bindr (dynstr_append mem str [NL]) (\<lambda>str.
     bindr (plat_send mpl str) (\<lambda>(r, mpl).
     if r \<noteq> 0 then Inr (-1, mpl) else
     bindr (dynstr_reset str) (\<lambda>str.
     bindr (plat_recv mem mpl str 2000) (\<lambda>(r, str, mpl).
     if r \<noteq> 0 then Inr (-1, mpl) else
     bindr (dynstr_cstr str) (\<lambda>s.
     if s \<noteq> ''invalid command'' then Inr (-1, mpl) else Inr (0, mpl)))))))"

record init_result =
  ir_ret :: int
  ir_plat :: "mdata_plat option"
  ir_errmsg :: "char list option"
  ir_permfail :: bool
  ir_closed :: "int list"
  ir_leaked :: "int list"

definition init_bail :: "mdata_plat option \<Rightarrow> char list \<Rightarrow> bool \<Rightarrow> int list \<Rightarrow> init_result" where
  "init_bail mpl msg pf leaked =
     \<lparr>ir_ret = -1, ir_plat = None, ir_errmsg = Some msg, ir_permfail = pf,
      ir_closed = plat_fini mpl, ir_leaked = leaked\<rparr>"

text \<open>The common tail \<^verbatim>\<open>wrapfd\<close> of \<^verbatim>\<open>plat_init\<close>.\<close>

definition plat_wrapfd ::
    "allocator \<Rightarrow> init_env \<Rightarrow> mdata_plat \<Rightarrow> open_result \<Rightarrow> init_result outcome" where
  "plat_wrapfd mem env mpl opened =
     (if or_ret opened \<noteq> 0
      then Inr (init_bail (Some mpl) (the (or_errmsg opened)) (or_permfail opened) (or_leaked opened))
      else
        let mpl = mpl\<lparr>mpl_conn := or_fd opened, mpl_events := ie_events env,
                      mpl_writes := ie_writes env\<rparr>
        in bindr (plat_send_reset mem mpl) (\<lambda>(r, mpl).
           if r = -1 then Inr (init_bail (Some mpl) ''Could not do active reset.''
                                 (or_permfail opened) [])
           else Inr \<lparr>ir_ret = 0, ir_plat = Some mpl, ir_errmsg = None,
                     ir_permfail = or_permfail opened, ir_closed = [], ir_leaked = []\<rparr>))"

definition plat_init :: "allocator \<Rightarrow> init_env \<Rightarrow> init_result outcome" where
  "plat_init mem env =
     (if \<not> ie_calloc env then Inr (init_bail None ''Could not allocate memory.'' True [])
      else
        let mpl = \<lparr>mpl_port = ie_port_create env, mpl_conn = -1, mpl_events = [],
                   mpl_writes = [], mpl_sent = []\<rparr>
        in if ie_port_create env = -1
           then Inr (init_bail (Some mpl) ''Could not create event port.'' True [])
           else if \<not> ie_global_zone env
           then plat_wrapfd mem env mpl (open_md_ngz env)
           else if ie_product env = Some ''SmartDC HVM''
           then bindr (open_md_gz env) (\<lambda>opened. plat_wrapfd mem env mpl opened)
           else Inr (init_bail (Some mpl)
                       ''I don't know how to get metadata on this system.'' True []))"

section \<open>Receiving\<close>

text \<open>A byte that is available at once.\<close>

definition byte_event :: "char \<Rightarrow> port_event" where
  "byte_event c =
     \<lparr>pev_assoc_ok = True, pev_error = False, pev_delay = 0, pev_in = True, pev_read = Some c,
      pev_err = False, pev_hup = False\<rparr>"

abbreviation line_events :: "char list \<Rightarrow> port_event list" where
  "line_events cs \<equiv> map byte_event (cs @ [NL])"

text \<open>A normal return of the loop consumed at least one event.\<close>

lemma plat_recv_loop_consumes:
  "plat_recv_loop mem es data t = Inr (0, data', es') \<Longrightarrow> length es' < length es"
proof (induction mem es data t rule: plat_recv_loop.induct)
  case (2 mem e es data t)
  from 2(2) show ?case
    by (auto simp: bindr_eq_Inr_iff split: if_splits option.splits dest!: "2.IH" [rotated -1])
qed simp

lemma plat_recv_consumes:
  "plat_recv mem mpl data t = Inr (0, data', mpl') \<Longrightarrow>
   length (mpl_events mpl') < length (mpl_events mpl)"
  by (auto simp: plat_recv_def bindr_eq_Inr_iff dest: plat_recv_loop_consumes)

lemma plat_recv_loop_byte [simp]:
  "plat_recv_loop mem (byte_event NL # es) data t = Inr (0, data, es)"
  "c \<noteq> NL \<Longrightarrow> plat_recv_loop mem (byte_event c # es) data t =
     bindr (dynstr_append mem data [c, NUL]) (\<lambda>d. plat_recv_loop mem es d (t mod 1000))"
  by (simp_all add: byte_event_def)

declare plat_recv_loop.simps(2) [simp del]

lemma plat_recv_loop_line:
  assumes "good_alloc mem" "\<forall>c \<in> set cs. c \<noteq> NL" "nul_free cs"
  shows "dynstr_rep data ds \<Longrightarrow>
    returns (plat_recv_loop mem (line_events cs @ es) data t)
      (\<lambda>(r, data', es'). r = 0 \<and> dynstr_rep data' (ds @ cs) \<and> es' = es \<and>
         (dynstr_owns data' \<longleftrightarrow> dynstr_owns data \<or> cs \<noteq> []))"
  using assms(2,3)
proof (induction cs arbitrary: data ds t)
  case Nil
  then show ?case by simp
next
  case (Cons c cs)
  have c: "cstr [c, NUL] = [c]" "c \<noteq> NL" using Cons.prems by auto
  have "double_until 64 1 \<noteq> 1" using double_until_pos [of 64 1] by simp
  then obtain d1 where d1: "dynstr_append mem data [c, NUL] = Inr d1" "dynstr_rep d1 (ds @ [c])"
    "dynstr_owns d1"
    using dynstr_append_rep [OF Cons.prems(1) assms(1), of "[c, NUL]"] c by auto
  have "returns (plat_recv_loop mem (line_events cs @ es) d1 (t mod 1000))
      (\<lambda>(r, data', es'). r = 0 \<and> dynstr_rep data' ((ds @ [c]) @ cs) \<and> es' = es \<and>
         (dynstr_owns data' \<longleftrightarrow> dynstr_owns d1 \<or> cs \<noteq> []))"
    using Cons.prems by (intro Cons.IH d1(2)) auto
  then show ?case
    using d1 c by (auto simp: returns_def)
qed

lemma plat_recv_line:
  assumes "good_alloc mem" "\<forall>c \<in> set cs. c \<noteq> NL" "nul_free cs" "dynstr_rep data ds"
    and "mpl_events mpl = line_events cs @ es"
  shows "returns (plat_recv mem mpl data t)
      (\<lambda>(r, data', mpl'). r = 0 \<and> dynstr_rep data' (ds @ cs) \<and>
         mpl' = mpl\<lparr>mpl_events := es\<rparr> \<and> (dynstr_owns data' \<longleftrightarrow> dynstr_owns data \<or> cs \<noteq> []))"
  unfolding plat_recv_def assms(5)
  by (rule returns_bindI [OF plat_recv_loop_line [OF assms(1-4)]]) auto

text \<open>
  The second and later waits use the timeout's remainder: with a timeout of whole seconds any
  delay after the first byte ends the receive.
\<close>

lemma plat_recv_loop_late_byte:
  assumes "good_alloc mem" "dynstr_rep data ds" "t mod 1000 = 0"
    and "c \<noteq> NL" "0 < d"
  shows "returns (plat_recv_loop mem (byte_event c # (byte_event c')\<lparr>pev_delay := d\<rparr> # es) data t)
           (\<lambda>(r, _). r = -1)"
proof -
  have l: "length (cstr [c, NUL]) \<le> 1" by simp
  have "double_until 64 (length (cstr [c, NUL])) \<noteq> length (cstr [c, NUL])"
    using double_until_pos [of 64 "length (cstr [c, NUL])"] l by linarith
  then obtain d1 where "dynstr_append mem data [c, NUL] = Inr d1"
    using dynstr_append_rep [OF assms(2,1), of "[c, NUL]"] l by auto
  then show ?thesis using assms(3-5) by (simp add: plat_recv_loop.simps(2)) (simp add: byte_event_def)
qed

section \<open>Setting up a connection\<close>

lemma plat_send_returns:
  assumes "dyn_is cs data" "mpl_writes mpl = int (length cs) # ws"
  shows "plat_send mpl data =
     Inr (0, mpl\<lparr>mpl_writes := ws, mpl_sent := mpl_sent mpl @ cs\<rparr>)"
  using dyn_is_reads [OF assms(1)] assms(2) by (simp add: plat_send_def Let_def)

lemma plat_send_reset_ok:
  assumes "good_alloc mem" "mpl_writes mpl = 1 # ws"
    and "mpl_events mpl = line_events ''invalid command'' @ es"
  shows "plat_send_reset mem mpl =
     Inr (0, mpl\<lparr>mpl_writes := ws, mpl_sent := mpl_sent mpl @ [NL], mpl_events := es\<rparr>)"
proof -
  obtain s0 where s0: "dynstr_new mem = Inr s0" "dynstr_rep s0 []"
    using dynstr_new_rep [OF assms(1)] by blast
  obtain s1 where s1: "dynstr_append mem s0 [NL] = Inr s1" "dyn_is [NL] s1"
    using returnsD [OF dynstr_append_short [OF s0(2) assms(1), of "[NL]"]] by auto
  note snd1 = plat_send_returns [OF s1(2), of mpl ws, simplified, OF assms(2)]
  obtain s2 where s2: "dynstr_reset s1 = Inr s2" "dynstr_rep s2 []" "dynstr_owns s2"
    using dynstr_reset_rep [OF dyn_isD(1) [OF s1(2)]] dyn_isD(2) [OF s1(2)] by auto
  let ?m = "mpl\<lparr>mpl_writes := ws, mpl_sent := mpl_sent mpl @ [NL]\<rparr>"
  obtain s3 where s3: "plat_recv mem ?m s2 2000 = Inr (0, s3, ?m\<lparr>mpl_events := es\<rparr>)"
    "dyn_is ''invalid command'' s3"
    using returnsD [OF plat_recv_line [OF assms(1) _ _ s2(2), of "''invalid command''" ?m es 2000]]
      assms(3) s2(3) by (auto simp: dyn_is_def)
  have "dynstr_cstr s3 = Inr ''invalid command''" using dyn_is_reads(3) [OF s3(2)] by simp
  then show ?thesis
    using s0(1) s1(1) snd1 s2(1) s3(1) by (simp add: plat_send_reset_def)
qed

text \<open>
  Failed set-ups: \<^verbatim>\<open>plat_init\<close> hands out no connection and closes what it opened, except for
  the serial descriptor whose lock could not be taken.
\<close>

lemma plat_init_failure:
  assumes "plat_init mem env = Inr res" "ir_ret res \<noteq> 0"
  shows "ir_plat res = None \<and> ir_errmsg res \<noteq> None \<and>
     (ir_leaked res \<noteq> [] \<longrightarrow>
        ie_global_zone env \<and> (\<exists>fd. ie_open env = Inr fd \<and> ir_leaked res = [fd]) \<and> \<not> ie_lock_ok env)"
  using assms
  by (auto simp: plat_init_def plat_wrapfd_def Let_def init_bail_def open_md_gz_def
      unix_open_serial_def open_md_ngz_def open_fail_def open_ok_def bindr_eq_Inr_iff
      split: if_splits prod.splits option.splits sum.splits)

section \<open>Properties\<close>


definition plat_sample :: mdata_plat where
  "plat_sample = \<lparr>mpl_port = 3, mpl_conn = 4, mpl_events = [], mpl_writes = [], mpl_sent = []\<rparr>"


text \<open>When \<^verbatim>\<open>plat_init\<close> fails it hands out no connection but an error message, and it has
  closed every descriptor it opened, with one exception: the serial device it opened in the global
  zone stays open when its lock could not be taken.\<close>

theorem plat_init_failure_leaks:
  assumes "plat_init mem env = Inr res" "ir_ret res \<noteq> 0"
  shows "ir_plat res = None \<and> ir_errmsg res \<noteq> None \<and>
     (ir_leaked res = [] \<or>
        ie_global_zone env \<and> \<not> ie_lock_ok env \<and> (\<exists>fd. ie_open env = Inr fd \<and> ir_leaked res = [fd]))"
  using plat_init_failure [OF assms] by blast

definition init_sample :: init_env where
  "init_sample = \<lparr>ie_calloc = True, ie_port_create = 3, ie_global_zone = True, ie_root = True,
     ie_lstat = (\<lambda>_. Stat_sock), ie_socket = 5, ie_ioctl_ok = True, ie_connect_ok = True,
     ie_product = Some ''SmartDC HVM'', ie_open = Inr 7, ie_lock_ok = False, ie_tcget_ok = True,
     ie_tcset_ok = True, ie_flush = [(0, EAGAIN)], ie_events = [], ie_writes = []\<rparr>"

theorem plat_init_failure_leaks_witness:
  "\<exists>res. plat_init heap_base init_sample = Inr res \<and> ir_ret res = -1 \<and> ir_leaked res = [7] \<and>
     ir_plat res = None"
proof -
  have "\<exists>res. plat_init heap_base init_sample = Inr res \<and> ir_ret res = -1 \<and> ir_leaked res = [7]"
    by (simp add: plat_init_def init_sample_def open_md_gz_def unix_open_serial_def plat_wrapfd_def
        open_fail_def init_bail_def)
  then obtain res where "plat_init heap_base init_sample = Inr res" "ir_ret res = -1" "ir_leaked res = [7]"
    by blast
  then show ?thesis using plat_init_failure_leaks [of heap_base init_sample res] by auto
qed

end
