(* ===== verification/Mdata_Proto.thy ===== *)
theory Mdata_Proto
  imports Mdata_Plat
begin

text \<open>
  The protocol engine of \<^verbatim>\<open>src/src/dockerinit/mdata-client/proto.c\<close>: one command at a time is
  sent and its answer awaited, over version 1 (plain lines) until a version 2 session has been
  negotiated. The record \<open>mdata_proto\<close> is \<^verbatim>\<open>struct mdata_proto\<close>, extended by what the outside
  world still has in store: the answers to the coming connection attempts (\<open>mdp_inits\<close>) and
  the sources of request identifiers. Each connection attempt takes one element of
  \<open>mdp_inits\<close>; the retry loops of the source stop being interesting, with
  \<open>Fault_Blocked\<close>, when none is left.

  \<^verbatim>\<open>proto_execute\<close>, \<^verbatim>\<open>proto_reset\<close> and \<^verbatim>\<open>proto_negotiate\<close> call each other. While
  \<^verbatim>\<open>mdp_in_reset\<close> is set, \<^verbatim>\<open>proto_execute\<close> makes one pass and never resets, so that pass
  (\<open>proto_pass\<close>) is defined first, then negotiation and reset on top of it, then the full
  \<open>proto_execute\<close>.
\<close>

section \<open>State\<close>

definition RECV_TIMEOUT_MS :: nat where "RECV_TIMEOUT_MS = 6000"
definition RECV_TIMEOUT_MS_V2 :: nat where "RECV_TIMEOUT_MS_V2 = 45000"

datatype mdata_response =
    MDR_UNKNOWN | MDR_NOTFOUND | MDR_SUCCESS | MDR_INVALID_COMMAND | MDR_PENDING | MDR_V2_OK

datatype mdata_proto_state =
    MDPS_MESSAGE_HEADER | MDPS_MESSAGE_DATA | MDPS_MESSAGE_V2 | MDPS_READY | MDPS_ERROR
  | MDPS_ZERO   \<comment> \<open>the all-zero value after \<^verbatim>\<open>calloc\<close>\<close>

datatype mdata_proto_version = MDPV_ZERO | MDPV_VERSION_1 | MDPV_VERSION_2

record mdata_command =
  mdc_reqid :: "char list"
  mdc_request :: string_t
  mdc_response_data :: string_t
  mdc_response :: mdata_response
  mdc_done :: bool

record mdata_proto =
  mdp_plat :: "mdata_plat option"
  mdp_command :: "mdata_command option"
  mdp_state :: mdata_proto_state
  mdp_version :: mdata_proto_version
  mdp_in_reset :: bool
  mdp_errmsg :: "char list option"
  mdp_parse_errmsg :: "char list option"
  mdp_inits :: "init_env list"
  mdp_reqid :: reqid_state
  mdp_rids :: "nat \<Rightarrow> reqid_env"   \<comment> \<open>what the i-th call of \<^verbatim>\<open>reqid\<close> meets\<close>
  mdp_nrids :: nat

section \<open>The state machine over received lines\<close>

text \<open>A command is complete: \<^verbatim>\<open>mdp_state = MDPS_READY; mdc_response = r; mdc_done = 1\<close>.\<close>

definition finish :: "mdata_proto \<Rightarrow> mdata_command \<Rightarrow> mdata_response \<Rightarrow> mdata_proto" where
  "finish mdp mdc r =
     mdp\<lparr>mdp_state := MDPS_READY,
         mdp_command := Some (mdc\<lparr>mdc_response := r, mdc_done := True\<rparr>)\<rparr>"

definition process_v2 ::
    "allocator \<Rightarrow> mdata_proto \<Rightarrow> mdata_command \<Rightarrow> string_t \<Rightarrow> mdata_proto outcome" where
  "process_v2 mem mdp mdc input =
     bindr (dynstr_new mem) (\<lambda>command.
     bindr (dynstr_new mem) (\<lambda>request_id.
     bindr (dynstr_reset (mdc_response_data mdc)) (\<lambda>data0.
     bindr (proto_parse_v2 mem input request_id command data0) (\<lambda>res.
     let mdc = mdc\<lparr>mdc_response_data := v2_data res\<rparr>;
         mdp = mdp\<lparr>mdp_parse_errmsg := v2_errmsg res, mdp_command := Some mdc\<rparr>
     in if v2_ret res = -1 then Inr mdp
        else bindr (dynstr_cstr (v2_request_id res)) (\<lambda>rid.
          if rid \<noteq> mdc_reqid mdc then Inr mdp
          else bindr (dynstr_cstr (v2_command res)) (\<lambda>cmd.
            if cmd = ''NOTFOUND'' then Inr (finish mdp mdc MDR_NOTFOUND)
            else if cmd = ''SUCCESS'' then Inr (finish mdp mdc MDR_SUCCESS)
            else Inr (finish mdp mdc MDR_UNKNOWN)))))))"

definition process_header ::
    "allocator \<Rightarrow> mdata_proto \<Rightarrow> mdata_command \<Rightarrow> string_t \<Rightarrow> mdata_proto outcome" where
  "process_header mem mdp mdc input =
     bindr (dynstr_cstr input) (\<lambda>cstr.
     if cstr = ''NOTFOUND'' then Inr (finish mdp mdc MDR_NOTFOUND)
     else if cstr = ''SUCCESS''
     then Inr (mdp\<lparr>mdp_state := MDPS_MESSAGE_DATA,
                   mdp_command := Some (mdc\<lparr>mdc_response := MDR_SUCCESS\<rparr>)\<rparr>)
     else if cstr = ''V2_OK'' then Inr (finish mdp mdc MDR_V2_OK)
     else if cstr = ''invalid command'' then Inr (finish mdp mdc MDR_INVALID_COMMAND)
     else bindr (dynstr_append mem (mdc_response_data mdc) cstr) (\<lambda>data.
       Inr (finish mdp (mdc\<lparr>mdc_response_data := data\<rparr>) MDR_UNKNOWN)))"

definition process_data ::
    "allocator \<Rightarrow> mdata_proto \<Rightarrow> mdata_command \<Rightarrow> string_t \<Rightarrow> mdata_proto outcome" where
  "process_data mem mdp mdc input =
     bindr (dynstr_cstr input) (\<lambda>cstr.
     if cstr = ''.''
     then Inr (mdp\<lparr>mdp_state := MDPS_READY, mdp_command := Some (mdc\<lparr>mdc_done := True\<rparr>)\<rparr>)
     else
       let respdata = mdc_response_data mdc;
           offs = (if cstr \<noteq> [] \<and> hd cstr = CHR ''.'' then 1 else 0)
       in bindr (if 0 < dynstr_len respdata then dynstr_append mem respdata [NL] else Inr respdata)
            (\<lambda>respdata. bindr (dynstr_append mem respdata (drop offs cstr)) (\<lambda>respdata.
            Inr (mdp\<lparr>mdp_command := Some (mdc\<lparr>mdc_response_data := respdata\<rparr>)\<rparr>))))"

text \<open>
  \<^verbatim>\<open>process_input\<close>. The command pointer is dereferenced in the three message states; the
  zero state is the \<^verbatim>\<open>default\<close> branch, which aborts.
\<close>

definition process_input :: "allocator \<Rightarrow> mdata_proto \<Rightarrow> string_t \<Rightarrow> mdata_proto outcome" where
  "process_input mem mdp input =
     (case mdp_state mdp of
        MDPS_READY \<Rightarrow> Inr mdp
      | MDPS_ERROR \<Rightarrow> Inr mdp
      | MDPS_ZERO \<Rightarrow> Inl Fault_Abort
      | st \<Rightarrow>
          (case mdp_command mdp of
             None \<Rightarrow> Inl Fault_Null
           | Some mdc \<Rightarrow>
               (if st = MDPS_MESSAGE_V2 then process_v2 mem mdp mdc input
                else if st = MDPS_MESSAGE_HEADER then process_header mem mdp mdc input
                else process_data mem mdp mdc input)))"

section \<open>Sending and receiving\<close>

definition proto_send :: "mdata_proto \<Rightarrow> (int \<times> mdata_proto) outcome" where
  "proto_send mdp =
     (case mdp_command mdp of
        None \<Rightarrow> Inl Fault_Abort
      | Some mdc \<Rightarrow>
          (case mdp_plat mdp of
             None \<Rightarrow> Inl Fault_Null
           | Some mpl \<Rightarrow>
               bindr (plat_send mpl (mdc_request mdc)) (\<lambda>(r, mpl).
               let mdp = mdp\<lparr>mdp_plat := Some mpl\<rparr>
               in if r = -1 then Inr (-1, mdp\<lparr>mdp_state := MDPS_ERROR\<rparr>)
                  else (case mdp_version mdp of
                          MDPV_VERSION_1 \<Rightarrow> Inr (0, mdp\<lparr>mdp_state := MDPS_MESSAGE_HEADER\<rparr>)
                        | MDPV_VERSION_2 \<Rightarrow> Inr (0, mdp\<lparr>mdp_state := MDPS_MESSAGE_V2\<rparr>)
                        | MDPV_ZERO \<Rightarrow> Inl Fault_Abort))))"

text \<open>How many events the current connection still has: the receive loop's variant.\<close>

definition pending_events :: "mdata_proto \<Rightarrow> nat" where
  "pending_events mdp = (case mdp_plat mdp of None \<Rightarrow> 0 | Some m \<Rightarrow> length (mpl_events m))"

text \<open>What handling a line leaves alone.\<close>

definition same_session :: "mdata_proto \<Rightarrow> mdata_proto \<Rightarrow> bool" where
  "same_session mdp mdp' \<longleftrightarrow>
     mdp_version mdp' = mdp_version mdp \<and> mdp_in_reset mdp' = mdp_in_reset mdp \<and>
     mdp_inits mdp' = mdp_inits mdp"

lemma same_session_refl [simp]: "same_session mdp mdp"
  by (simp add: same_session_def)

lemma same_session_trans: "same_session a b \<Longrightarrow> same_session b c \<Longrightarrow> same_session a c"
  by (simp add: same_session_def)

lemma same_session_updates [simp]:
  "same_session (a\<lparr>mdp_plat := p\<rparr>) b = same_session a b"
  "same_session a (b\<lparr>mdp_plat := p\<rparr>) = same_session a b"
  "same_session a (b\<lparr>mdp_state := st\<rparr>) = same_session a b"
  "same_session a (b\<lparr>mdp_command := c\<rparr>) = same_session a b"
  "same_session a (b\<lparr>mdp_parse_errmsg := m\<rparr>) = same_session a b"
  "same_session a (b\<lparr>mdp_reqid := q\<rparr>) = same_session a b"
  "same_session a (b\<lparr>mdp_nrids := k\<rparr>) = same_session a b"
  by (simp_all add: same_session_def)

lemma finish_simps [simp]:
  "mdp_plat (finish mdp mdc r) = mdp_plat mdp" "mdp_state (finish mdp mdc r) = MDPS_READY"
  "mdp_command (finish mdp mdc r) = Some (mdc\<lparr>mdc_response := r, mdc_done := True\<rparr>)"
  "same_session a (finish mdp mdc r) = same_session a mdp"
  by (simp_all add: finish_def same_session_def)

text \<open>A line changes the command, the machine state and the parse message, nothing else.\<close>

definition line_frame :: "mdata_proto \<Rightarrow> mdata_proto \<Rightarrow> bool" where
  "line_frame mdp mdp' \<longleftrightarrow> mdp_plat mdp' = mdp_plat mdp \<and> same_session mdp mdp'"

lemma line_frame_simps [simp]:
  "line_frame mdp mdp" "line_frame mdp (finish m mdc r) = line_frame mdp m"
  "line_frame mdp (m\<lparr>mdp_command := c\<rparr>) = line_frame mdp m"
  "line_frame mdp (m\<lparr>mdp_state := st\<rparr>) = line_frame mdp m"
  "line_frame mdp (m\<lparr>mdp_parse_errmsg := e\<rparr>) = line_frame mdp m"
  by (simp_all add: line_frame_def)

lemma process_v2_frame: "ensures (process_v2 mem mdp mdc line) (line_frame mdp)"
  unfolding process_v2_def Let_def by (intro ensures_bindI ensures_ifI) simp_all

lemma process_header_frame: "ensures (process_header mem mdp mdc line) (line_frame mdp)"
  unfolding process_header_def by (intro ensures_bindI ensures_ifI) simp_all

lemma process_data_frame: "ensures (process_data mem mdp mdc line) (line_frame mdp)"
  unfolding process_data_def Let_def by (intro ensures_bindI ensures_ifI) simp_all

lemma process_input_ensures: "ensures (process_input mem mdp line) (line_frame mdp)"
  using process_v2_frame process_header_frame process_data_frame
  by (cases "mdp_state mdp"; cases "mdp_command mdp") (simp_all add: process_input_def)

lemma process_input_frame:
  "process_input mem mdp line = Inr mdp' \<Longrightarrow> mdp_plat mdp' = mdp_plat mdp \<and> same_session mdp mdp'"
  using ensuresD [OF process_input_ensures] by (simp add: line_frame_def)

function proto_recv_loop ::
    "allocator \<Rightarrow> string_t \<Rightarrow> mdata_proto \<Rightarrow> (int \<times> mdata_proto) outcome" where
  "proto_recv_loop mem line mdp =
     (case mdp_plat mdp of
        None \<Rightarrow> Inl Fault_Null
      | Some mpl \<Rightarrow>
          (case plat_recv mem mpl line
                  (if mdp_version mdp = MDPV_VERSION_2 then RECV_TIMEOUT_MS_V2 else RECV_TIMEOUT_MS) of
             Inl e \<Rightarrow> Inl e
           | Inr (r, line1, mpl1) \<Rightarrow>
               if r \<noteq> 0 then Inr (-1, mdp\<lparr>mdp_plat := Some mpl1, mdp_state := MDPS_ERROR\<rparr>)
               else (case process_input mem (mdp\<lparr>mdp_plat := Some mpl1\<rparr>) line1 of
                       Inl e \<Rightarrow> Inl e
                     | Inr mdp2 \<Rightarrow>
                         (case dynstr_reset line1 of
                            Inl e \<Rightarrow> Inl e
                          | Inr line2 \<Rightarrow>
                              (case mdp_command mdp2 of
                                 None \<Rightarrow> Inl Fault_Null
                               | Some mdc \<Rightarrow>
                                   if mdc_done mdc then Inr (0, mdp2)
                                   else proto_recv_loop mem line2 mdp2)))))"
  by pat_completeness auto
termination
proof (relation "measure (\<lambda>(mem, line, mdp). pending_events mdp)", goal_cases)
  case 1
  then show ?case by simp
next
  case (2 mem line mdp mpl p r q line1 mpl1 mdp2 line2 mdc)
  then have "r = 0" "plat_recv mem mpl line
      (if mdp_version mdp = MDPV_VERSION_2 then RECV_TIMEOUT_MS_V2 else RECV_TIMEOUT_MS) =
      Inr (0, line1, mpl1)" by auto
  then have "length (mpl_events mpl1) < length (mpl_events mpl)"
    by (blast dest: plat_recv_consumes)
  with 2 process_input_frame [of mem "mdp\<lparr>mdp_plat := Some mpl1\<rparr>" line1 mdp2]
  show ?case by (simp add: pending_events_def)
qed

declare proto_recv_loop.simps [simp del]

definition proto_recv :: "allocator \<Rightarrow> mdata_proto \<Rightarrow> (int \<times> mdata_proto) outcome" where
  "proto_recv mem mdp = bindr (dynstr_new mem) (\<lambda>line. proto_recv_loop mem line mdp)"

section \<open>Executing a command\<close>

text \<open>
  The pieces of \<^verbatim>\<open>proto_execute\<close>: a new command, (re-)generating its request, the
  \<^verbatim>\<open>MDPS_ERROR || proto_send || proto_recv\<close> attempt, and the two ways out.
\<close>

definition proto_begin :: "allocator \<Rightarrow> mdata_proto \<Rightarrow> mdata_proto outcome" where
  "proto_begin mem mdp =
     bindr (dynstr_new mem) (\<lambda>request.
     bindr (dynstr_new mem) (\<lambda>data.
     if mdp_command mdp \<noteq> None then Inl Fault_Abort
     else Inr (mdp\<lparr>mdp_command := Some
       \<lparr>mdc_reqid = [], mdc_request = request, mdc_response_data = data,
        mdc_response = MDR_PENDING, mdc_done = False\<rparr>\<rparr>)))"

definition proto_make_request ::
    "allocator \<Rightarrow> char list \<Rightarrow> char list option \<Rightarrow> mdata_proto \<Rightarrow> mdata_proto outcome" where
  "proto_make_request mem command argument mdp =
     (case mdp_command mdp of
        None \<Rightarrow> Inl Fault_Null
      | Some mdc \<Rightarrow>
          bindr (dynstr_reset (mdc_request mdc)) (\<lambda>req.
          case mdp_version mdp of
            MDPV_VERSION_1 \<Rightarrow>
              bindr (proto_make_request_v1 mem command argument req) (\<lambda>req.
              Inr (mdp\<lparr>mdp_command := Some (mdc\<lparr>mdc_request := req\<rparr>)\<rparr>))
          | MDPV_VERSION_2 \<Rightarrow>
              (case reqid (mdp_reqid mdp) (mdp_rids mdp (mdp_nrids mdp)) of
                 (rid, rq) \<Rightarrow>
                   bindr (proto_make_request_v2 mem command argument req rid) (\<lambda>req.
                   Inr (mdp\<lparr>mdp_reqid := rq, mdp_nrids := mdp_nrids mdp + 1,
                            mdp_command := Some (mdc\<lparr>mdc_request := req, mdc_reqid := rid\<rparr>)\<rparr>)))
          | MDPV_ZERO \<Rightarrow> Inl Fault_Abort))"

definition proto_attempt :: "allocator \<Rightarrow> mdata_proto \<Rightarrow> (bool \<times> mdata_proto) outcome" where
  "proto_attempt mem mdp =
     (if mdp_state mdp = MDPS_ERROR then Inr (False, mdp)
      else bindr (proto_send mdp) (\<lambda>(r, mdp).
        if r \<noteq> 0 then Inr (False, mdp)
        else bindr (proto_recv mem mdp) (\<lambda>(r, mdp). Inr (r = 0, mdp))))"

type_synonym exec_result = "(mdata_response \<times> string_t) option \<times> mdata_proto"

definition proto_done :: "mdata_proto \<Rightarrow> exec_result outcome" where
  "proto_done mdp =
     (if mdp_state mdp \<noteq> MDPS_READY then Inl Fault_Abort
      else (case mdp_command mdp of
              None \<Rightarrow> Inl Fault_Null
            | Some mdc \<Rightarrow>
                Inr (Some (mdc_response mdc, mdc_response_data mdc), mdp\<lparr>mdp_command := None\<rparr>)))"

definition proto_bail :: "mdata_proto \<Rightarrow> exec_result" where
  "proto_bail mdp = (None, mdp\<lparr>mdp_command := None\<rparr>)"

definition proto_discard :: "mdata_proto \<Rightarrow> mdata_proto outcome" where
  "proto_discard mdp =
     (case mdp_command mdp of
        None \<Rightarrow> Inl Fault_Null
      | Some mdc \<Rightarrow>
          bindr (dynstr_reset (mdc_response_data mdc)) (\<lambda>d.
          Inr (mdp\<lparr>mdp_command := Some (mdc\<lparr>mdc_response_data := d, mdc_response := MDR_PENDING\<rparr>)\<rparr>)))"

text \<open>\<^verbatim>\<open>proto_execute\<close> while \<^verbatim>\<open>mdp_in_reset\<close> is set: one pass, and a failure is final.\<close>

definition proto_pass ::
    "allocator \<Rightarrow> mdata_proto \<Rightarrow> char list \<Rightarrow> char list option \<Rightarrow> exec_result outcome" where
  "proto_pass mem mdp command argument =
     bindr (proto_begin mem mdp) (\<lambda>mdp.
     bindr (proto_make_request mem command argument mdp) (\<lambda>mdp.
     bindr (proto_attempt mem mdp) (\<lambda>(ok, mdp).
     if ok then proto_done mdp
     else bindr (proto_discard mdp) (\<lambda>mdp. Inr (proto_bail mdp)))))"

definition proto_negotiate :: "allocator \<Rightarrow> mdata_proto \<Rightarrow> (int \<times> mdata_proto) outcome" where
  "proto_negotiate mem mdp =
     (let mdcsave = mdp_command mdp
      in bindr (proto_pass mem (mdp\<lparr>mdp_command := None, mdp_version := MDPV_VERSION_1\<rparr>)
                  ''NEGOTIATE'' (Some ''V2''))
           (\<lambda>(res, mdp).
              case res of
                None \<Rightarrow> Inr (-1, mdp\<lparr>mdp_command := mdcsave\<rparr>)
              | Some (mdr, rdata) \<Rightarrow>
                  Inr (0, (if mdr = MDR_V2_OK then mdp\<lparr>mdp_version := MDPV_VERSION_2\<rparr> else mdp)
                            \<lparr>mdp_command := mdcsave\<rparr>)))"

text \<open>
  The retry loop of \<^verbatim>\<open>proto_reset\<close>. \<^verbatim>\<open>permfail\<close> is a local of the function that is only ever
  set, so it survives a retry.
\<close>

fun proto_reset_loop ::
    "allocator \<Rightarrow> init_env list \<Rightarrow> bool \<Rightarrow> mdata_proto \<Rightarrow> (int \<times> mdata_proto) outcome" where
  "proto_reset_loop mem [] permfail mdp = Inl Fault_Blocked"
| "proto_reset_loop mem (env # inits) permfail mdp =
     (let mdp = mdp\<lparr>mdp_errmsg := None, mdp_plat := None, mdp_state := MDPS_READY,
                    mdp_inits := inits\<rparr>
      in bindr (plat_init mem env) (\<lambda>r.
         let permfail = (permfail \<or> ir_permfail r)
         in if ir_ret r = -1
            then if permfail then Inr (-1, mdp\<lparr>mdp_errmsg := ir_errmsg r\<rparr>)
                 else proto_reset_loop mem inits permfail (mdp\<lparr>mdp_errmsg := ir_errmsg r\<rparr>)
            else bindr (proto_negotiate mem (mdp\<lparr>mdp_plat := ir_plat r\<rparr>)) (\<lambda>(n, mdp).
              if n = -1 then proto_reset_loop mem inits permfail mdp
              else Inr (0, mdp\<lparr>mdp_in_reset := False, mdp_errmsg := None\<rparr>))))"

definition proto_reset :: "allocator \<Rightarrow> mdata_proto \<Rightarrow> (int \<times> mdata_proto) outcome" where
  "proto_reset mem mdp =
     proto_reset_loop mem (mdp_inits mdp) False (mdp\<lparr>mdp_in_reset := True\<rparr>)"

section \<open>Frame conditions\<close>

lemma proto_send_frame: "proto_send mdp = Inr (r, mdp') \<Longrightarrow> same_session mdp mdp'"
  by (auto simp: proto_send_def bindr_eq_Inr_iff Let_def
      split: option.splits if_splits mdata_proto_version.splits)

lemma proto_recv_loop_elim:
  assumes "proto_recv_loop mem line mdp = Inr (r, mdp')"
  obtains (failed) mpl mpl1 where
      "mdp_plat mdp = Some mpl" "r = -1" "mdp' = mdp\<lparr>mdp_plat := Some mpl1, mdp_state := MDPS_ERROR\<rparr>"
    | (finished) mpl1 line1 mdc where
      "process_input mem (mdp\<lparr>mdp_plat := Some mpl1\<rparr>) line1 = Inr mdp'" "r = 0"
      "mdp_command mdp' = Some mdc" "mdc_done mdc"
    | (more) mpl mpl1 line1 line2 mdp2 mdc where
      "mdp_plat mdp = Some mpl" "length (mpl_events mpl1) < length (mpl_events mpl)"
      "process_input mem (mdp\<lparr>mdp_plat := Some mpl1\<rparr>) line1 = Inr mdp2"
      "mdp_command mdp2 = Some mdc" "\<not> mdc_done mdc"
      "proto_recv_loop mem line2 mdp2 = Inr (r, mdp')"
proof -
  note [simp] = proto_recv_loop.simps [of mem line mdp]
  let ?t = "if mdp_version mdp = MDPV_VERSION_2 then RECV_TIMEOUT_MS_V2 else RECV_TIMEOUT_MS"
  obtain mpl where mpl: "mdp_plat mdp = Some mpl"
    using assms by (cases "mdp_plat mdp") simp_all
  obtain r1 line1 mpl1 where recv: "plat_recv mem mpl line ?t = Inr (r1, line1, mpl1)"
    using assms mpl by (cases "plat_recv mem mpl line ?t") auto
  show thesis
  proof (cases "r1 = 0")
    case False
    then show thesis using assms mpl recv failed by auto
  next
    case True
    obtain mdp2 where mdp2: "process_input mem (mdp\<lparr>mdp_plat := Some mpl1\<rparr>) line1 = Inr mdp2"
      using assms mpl recv True by (cases "process_input mem (mdp\<lparr>mdp_plat := Some mpl1\<rparr>) line1") auto
    obtain line2 where line2: "dynstr_reset line1 = Inr line2"
      using assms mpl recv True mdp2 by (cases "dynstr_reset line1") auto
    obtain mdc where mdc: "mdp_command mdp2 = Some mdc"
      using assms mpl recv True mdp2 line2 by (cases "mdp_command mdp2") auto
    have "length (mpl_events mpl1) < length (mpl_events mpl)"
      using recv True by (blast dest: plat_recv_consumes)
    then show thesis
      using assms mpl recv True mdp2 line2 mdc finished more by (cases "mdc_done mdc") auto
  qed
qed

text \<open>An invariant of the receive loop: what every line keeps, receiving keeps.\<close>

lemma proto_recv_loop_invariant:
  assumes "proto_recv_loop mem line mdp = Inr (r, mdp')" and "P mdp"
    and plat: "\<And>m q. P m \<Longrightarrow> P (m\<lparr>mdp_plat := q\<rparr>)"
    and err: "\<And>m. P m \<Longrightarrow> P (m\<lparr>mdp_state := MDPS_ERROR\<rparr>)"
    and step: "\<And>m l m'. P m \<Longrightarrow> process_input mem m l = Inr m' \<Longrightarrow> P m'"
  shows "P mdp'"
  using assms(1,2)
proof (induction "pending_events mdp" arbitrary: line mdp rule: less_induct)
  case less
  from less(2) show ?case
  proof (cases rule: proto_recv_loop_elim)
    case (failed mpl mpl1)
    then show ?thesis using plat err less(3) by simp
  next
    case (finished mpl1 line1 mdc)
    then show ?thesis using plat step less(3) by blast
  next
    case (more mpl mpl1 line1 line2 mdp2 mdc)
    then have "pending_events mdp2 < pending_events mdp"
      using process_input_frame by (fastforce simp: pending_events_def)
    moreover have "P mdp2" using more(3) plat step less(3) by blast
    ultimately show ?thesis using less(1) more(6) by blast
  qed
qed

lemma proto_recv_loop_frame:
  "proto_recv_loop mem line mdp = Inr (r, mdp') \<Longrightarrow> same_session mdp mdp'"
  by (erule proto_recv_loop_invariant [where P = "same_session mdp"])
    (auto dest: process_input_frame intro: same_session_trans)

lemma proto_recv_frame: "proto_recv mem mdp = Inr (r, mdp') \<Longrightarrow> same_session mdp mdp'"
  by (auto simp: proto_recv_def bindr_eq_Inr_iff dest: proto_recv_loop_frame)

lemma proto_make_request_frame:
  assumes "proto_make_request mem command argument mdp = Inr mdp'"
  shows "same_session mdp mdp' \<and> mdp_plat mdp' = mdp_plat mdp \<and> mdp_state mdp' = mdp_state mdp"
proof (cases "mdp_command mdp")
  case None
  then show ?thesis using assms by (simp add: proto_make_request_def)
next
  case (Some mdc)
  then show ?thesis
    using assms unfolding proto_make_request_def
    by (cases "mdp_version mdp";
        cases "reqid (mdp_reqid mdp) (mdp_rids mdp (mdp_nrids mdp))")
      (auto simp: bindr_eq_Inr_iff)
qed

lemma proto_attempt_frame: "proto_attempt mem mdp = Inr (ok, mdp') \<Longrightarrow> same_session mdp mdp'"
  by (auto simp: proto_attempt_def bindr_eq_Inr_iff split: if_splits
      dest!: proto_send_frame proto_recv_frame intro: same_session_trans)

lemma proto_discard_frame: "proto_discard mdp = Inr mdp' \<Longrightarrow> same_session mdp mdp'"
  by (auto simp: proto_discard_def bindr_eq_Inr_iff split: option.splits)

lemma proto_begin_frame:
  "proto_begin mem mdp = Inr mdp' \<Longrightarrow>
   same_session mdp mdp' \<and> mdp_plat mdp' = mdp_plat mdp \<and> mdp_state mdp' = mdp_state mdp"
  by (auto simp: proto_begin_def bindr_eq_Inr_iff split: if_splits)

lemma proto_done_frame: "proto_done mdp = Inr (res, mdp') \<Longrightarrow> same_session mdp mdp'"
  by (auto simp: proto_done_def split: if_splits option.splits)

lemma proto_pass_frame: "proto_pass mem mdp command argument = Inr (res, mdp') \<Longrightarrow> same_session mdp mdp'"
  unfolding proto_pass_def bindr_eq_Inr_iff
  by (auto simp: bindr_eq_Inr_iff proto_bail_def split: if_splits
      dest!: proto_begin_frame proto_make_request_frame proto_attempt_frame proto_done_frame
        proto_discard_frame
      simp: same_session_def)

lemma proto_negotiate_frame:
  "proto_negotiate mem mdp = Inr (r, mdp') \<Longrightarrow>
   mdp_inits mdp' = mdp_inits mdp \<and> mdp_in_reset mdp' = mdp_in_reset mdp \<and>
   mdp_command mdp' = mdp_command mdp"
  unfolding proto_negotiate_def Let_def bindr_eq_Inr_iff
  by (auto split: option.splits if_split_asm dest!: proto_pass_frame simp: same_session_def)

text \<open>Each reset uses up at least one connection attempt.\<close>

lemma proto_reset_loop_consumes:
  "proto_reset_loop mem inits permfail mdp = Inr (r, mdp') \<Longrightarrow> length (mdp_inits mdp') < length inits"
proof (induction inits arbitrary: permfail mdp)
  case (Cons env inits)
  from Cons.prems show ?case
    by (auto simp: bindr_eq_Inr_iff Let_def split: if_splits
        dest!: Cons.IH proto_negotiate_frame)
qed simp

lemma proto_reset_consumes:
  "proto_reset mem mdp = Inr (r, mdp') \<Longrightarrow> length (mdp_inits mdp') < length (mdp_inits mdp)"
  unfolding proto_reset_def by (rule proto_reset_loop_consumes)

section \<open>The whole of proto_execute\<close>

text \<open>The \<^verbatim>\<open>retry:\<close> loop, then the function with its command set-up in front.\<close>

function proto_retry ::
    "allocator \<Rightarrow> char list \<Rightarrow> char list option \<Rightarrow> mdata_proto \<Rightarrow> exec_result outcome" where
  "proto_retry mem command argument mdp =
     bindr (proto_make_request mem command argument mdp) (\<lambda>mdp1.
     bindr (proto_attempt mem mdp1) (\<lambda>(ok, mdp2).
     if ok then proto_done mdp2
     else bindr (proto_discard mdp2) (\<lambda>mdp3.
       if mdp_in_reset mdp3 then Inr (proto_bail mdp3)
       else bindr (proto_reset mem mdp3) (\<lambda>(r, mdp4).
         if r = -1 then Inr (proto_bail mdp4)
         else proto_retry mem command argument mdp4))))"
  by pat_completeness auto
termination
proof (relation "measure (\<lambda>(mem, command, argument, mdp). length (mdp_inits mdp))", goal_cases)
  case 1
  then show ?case by simp
next
  case (2 mem command argument mdp mdp1 p ok mdp2 mdp3 q r mdp4)
  then have "same_session mdp mdp1" "same_session mdp1 mdp2" "same_session mdp2 mdp3"
    "length (mdp_inits mdp4) < length (mdp_inits mdp3)"
    using proto_make_request_frame proto_attempt_frame proto_discard_frame proto_reset_consumes
    by blast+
  then show ?case by (simp add: same_session_def)
qed

declare proto_retry.simps [simp del]

definition proto_execute ::
    "allocator \<Rightarrow> mdata_proto \<Rightarrow> char list \<Rightarrow> char list option \<Rightarrow> exec_result outcome" where
  "proto_execute mem mdp command argument =
     bindr (proto_begin mem mdp) (\<lambda>mdp. proto_retry mem command argument mdp)"

definition proto_version :: "mdata_proto \<Rightarrow> mdata_proto_version" where
  "proto_version mdp = mdp_version mdp"

text \<open>
  \<^verbatim>\<open>proto_init\<close>: the handle starts as \<^verbatim>\<open>calloc\<close> leaves it. \<open>fd\<close> is what opening
  \<^verbatim>\<open>/dev/urandom\<close> gives, \<open>cal\<close> whether \<^verbatim>\<open>calloc\<close> succeeds, \<open>inits\<close> and \<open>rids\<close> what the
  outside world has in store.
\<close>

definition proto_zero :: "reqid_state \<Rightarrow> init_env list \<Rightarrow> (nat \<Rightarrow> reqid_env) \<Rightarrow> mdata_proto" where
  "proto_zero rq inits rids =
     \<lparr>mdp_plat = None, mdp_command = None, mdp_state = MDPS_ZERO, mdp_version = MDPV_ZERO,
      mdp_in_reset = False, mdp_errmsg = None, mdp_parse_errmsg = None, mdp_inits = inits,
      mdp_reqid = rq, mdp_rids = rids, mdp_nrids = 0\<rparr>"

definition proto_init ::
    "allocator \<Rightarrow> int \<Rightarrow> bool \<Rightarrow> reqid_state \<Rightarrow> init_env list \<Rightarrow> (nat \<Rightarrow> reqid_env) \<Rightarrow>
     (int \<times> mdata_proto option \<times> char list option) outcome" where
  "proto_init mem fd cal rq inits rids =
     (let rq = reqid_init fd rq
      in if \<not> cal then Inr (-1, None, None)
         else bindr (proto_reset mem (proto_zero rq inits rids)) (\<lambda>(r, mdp).
           if r = -1 then Inr (-1, None, mdp_errmsg mdp) else Inr (0, Some mdp, None)))"

text \<open>While a reset is in progress the function is the single pass the reset was built on.\<close>

lemma proto_execute_in_reset:
  assumes "mdp_in_reset mdp"
  shows "proto_execute mem mdp command argument = proto_pass mem mdp command argument"
proof -
  have r: "proto_discard m = Inr m' \<Longrightarrow> mdp_in_reset m' = mdp_in_reset m"
    "proto_attempt mem m = Inr (ok, m') \<Longrightarrow> mdp_in_reset m' = mdp_in_reset m"
    "proto_make_request mem command argument m = Inr m' \<Longrightarrow> mdp_in_reset m' = mdp_in_reset m"
    "proto_begin mem m = Inr m' \<Longrightarrow> mdp_in_reset m' = mdp_in_reset m" for m m' ok
    using proto_discard_frame proto_attempt_frame proto_make_request_frame proto_begin_frame
    by (auto simp: same_session_def)
  show ?thesis
    unfolding proto_execute_def proto_pass_def
    by (intro bindr_cong refl, subst proto_retry.simps)
      (auto intro!: bindr_cong refl simp: assms r split: prod.split)
qed

end
