(* ===== verification/Mdata_Delivery.thy ===== *)
theory Mdata_Delivery
  imports Mdata_Session
begin

text \<open>
  A host's answer reaches the caller: the bytes the host writes to the connection, taken one
  readiness event at a time by \<^verbatim>\<open>plat_recv\<close>, assembled into lines, run through
  \<^verbatim>\<open>process_input\<close> and collected in the command's response data. Version 2 answers are frames,
  and frames of other requests that arrive first are dropped; version 1 answers are dot-stuffed
  lines.
\<close>

section \<open>One line of the receive loop\<close>

text \<open>Continuing after a line: the tail of the loop body.\<close>

definition after_line ::
    "allocator \<Rightarrow> string_t \<Rightarrow> mdata_proto \<Rightarrow> (int \<times> mdata_proto) outcome" where
  "after_line mem line mdp =
     (case mdp_command mdp of
        None \<Rightarrow> Inl Fault_Null
      | Some mdc \<Rightarrow> if mdc_done mdc then Inr (0, mdp) else proto_recv_loop mem line mdp)"

lemma proto_recv_loop_line:
  assumes "good_alloc mem" "mdp_plat mdp = Some mpl" "mpl_events mpl = line_events cs @ es"
    and "NL \<notin> set cs" "nul_free cs" "dynstr_rep line []" "dynstr_owns line \<or> cs \<noteq> []"
    and input: "\<And>l. dyn_is cs l \<Longrightarrow>
      returns (process_input mem (mdp\<lparr>mdp_plat := Some (mpl\<lparr>mpl_events := es\<rparr>)\<rparr>) l) P"
    and rest: "\<And>m l. P m \<Longrightarrow> dyn_is [] l \<Longrightarrow> returns (after_line mem l m) Q"
  shows "returns (proto_recv_loop mem line mdp) Q"
proof -
  let ?t = "if mdp_version mdp = MDPV_VERSION_2 then RECV_TIMEOUT_MS_V2 else RECV_TIMEOUT_MS"
  have nl: "\<forall>c \<in> set cs. c \<noteq> NL" using assms(4) by blast
  obtain l1 where l1: "plat_recv mem mpl line ?t = Inr (0, l1, mpl\<lparr>mpl_events := es\<rparr>)" "dyn_is cs l1"
    using returnsD [OF plat_recv_line [OF assms(1) nl assms(5,6,3)], of ?t] assms(7)
    by (auto simp: dyn_is_def)
  obtain m where m: "process_input mem (mdp\<lparr>mdp_plat := Some (mpl\<lparr>mpl_events := es\<rparr>)\<rparr>) l1 = Inr m" "P m"
    using returnsD [OF input [OF l1(2)]] by blast
  obtain l2 where l2: "dynstr_reset l1 = Inr l2" "dyn_is [] l2"
    using dynstr_reset_rep [of l1 cs] l1(2) by (auto simp: dyn_is_def)
  have "proto_recv_loop mem line mdp = after_line mem l2 m"
    using proto_recv_loop.simps [of mem line mdp] assms(2) l1(1) m(1) l2(1)
    by (simp add: after_line_def)
  with rest [OF m(2) l2(2)] show ?thesis by simp
qed

section \<open>Version 2\<close>

definition v2_code :: "char list \<Rightarrow> mdata_response" where
  "v2_code code =
     (if code = ''NOTFOUND'' then MDR_NOTFOUND
      else if code = ''SUCCESS'' then MDR_SUCCESS else MDR_UNKNOWN)"

text \<open>
  A frame that the parser accepts. The checksum must not be zero: the parser takes the value
  zero for a number it could not read.
\<close>

definition v2_frame_ok :: "char list \<Rightarrow> char list \<Rightarrow> char list option \<Rightarrow> bool" where
  "v2_frame_ok rid code payload \<longleftrightarrow>
     frame_word rid \<and> frame_word code \<and> NL \<notin> set rid \<and> NL \<notin> set code \<and> arg_ok payload \<and>
     crc32_calc (frame_body rid code payload) \<noteq> 0"

abbreviation payload_text :: "char list option \<Rightarrow> char list" where
  "payload_text payload \<equiv> (case payload of None \<Rightarrow> [] | Some p \<Rightarrow> p)"

lemma is_base_digit_not_NL: "is_base_digit b c \<Longrightarrow> c \<noteq> NL"
  using is_base_digit_class(1) [of b c] by (auto simp: isspace_def)

lemma b64_digit_not_NL: "0 \<le> v \<Longrightarrow> v < 64 \<Longrightarrow> b64_digit v \<noteq> NL"
proof
  assume v: "0 \<le> v" "v < 64" and "b64_digit v = NL"
  then have "decode_one NL = v" using b64_digit_props [of v] by simp
  moreover have "decode_one NL = -2" by (simp add: decode_one_def)
  ultimately show False using v by simp
qed

lemma b64_spec_no_NL: "NL \<notin> set (b64_spec xs)"
  by (induction xs rule: b64_spec.induct)
    (auto dest!: sym [of NL] simp: b64_digit_not_NL byte_digit_ranges)

lemma frame_no_NL:
  assumes "v2_frame_ok rid code payload"
  shows "NL \<notin> set (frame_line (frame_body rid code payload))"
    "nul_free (frame_line (frame_body rid code payload))"
    "frame_line (frame_body rid code payload) \<noteq> []"
proof -
  let ?b = "frame_body rid code payload"
  have "NL \<notin> set ?b"
    using assms b64_spec_no_NL by (auto simp: frame_body_def v2_frame_ok_def split: option.splits)
  moreover have "NL \<notin> set (fmt_u (length ?b))" "NL \<notin> set (fmt_08x (crc32_calc ?b))"
    using fmt_u_digits fmt_08x_digits is_base_digit_not_NL by blast+
  ultimately show "NL \<notin> set (frame_line ?b)" by (simp add: frame_line_def)
  show "nul_free (frame_line ?b)" "frame_line ?b \<noteq> []"
    using assms frame_body_props(1) [of rid code payload]
    by (auto simp: frame_line_def v2_frame_ok_def frame_word_def)
qed

text \<open>What the state machine makes of one frame.\<close>

lemma process_v2_frame_line:
  assumes "good_alloc mem" "v2_frame_ok rid code payload"
    and "dyn_is (frame_line (frame_body rid code payload)) line"
    and "dynstr_rep (mdc_response_data mdc) ds"
  shows "returns (process_v2 mem mdp mdc line) (\<lambda>m. \<exists>d. dyn_is (payload_text payload) d \<and>
    (let mdc' = mdc\<lparr>mdc_response_data := d\<rparr>;
         mdp' = mdp\<lparr>mdp_parse_errmsg := None, mdp_command := Some mdc'\<rparr>
     in m = (if rid = mdc_reqid mdc then finish mdp' mdc' (v2_code code) else mdp')))"
proof -
  obtain c where new: "dynstr_new mem = Inr c" "dynstr_rep c []"
    using dynstr_new_rep [OF assms(1)] by blast
  obtain d0 where d0: "dynstr_reset (mdc_response_data mdc) = Inr d0" "dynstr_rep d0 []"
    using dynstr_reset_rep [OF assms(4)] by blast
  have fw: "frame_word rid" "frame_word code" "arg_ok payload" "nul_free rid" "nul_free code"
    "crc32_calc (frame_body rid code payload) \<noteq> 0"
    using assms(2) by (auto simp: v2_frame_ok_def frame_word_def)
  obtain res where res: "proto_parse_v2 mem line c c d0 = Inr res"
    "v2_ret res = 0" "v2_errmsg res = None" "dyn_is rid (v2_request_id res)"
    "dyn_is code (v2_command res)" "dyn_is (payload_text payload) (v2_data res)"
    using returnsD [OF proto_parse_v2_returns [OF assms(1) fw(1-3) assms(3) new(2) new(2) d0(2) fw(6)]]
    by blast
  have rd: "dynstr_cstr (v2_request_id res) = Inr rid" "dynstr_cstr (v2_command res) = Inr code"
    using dyn_is_reads(3) [OF res(4)] dyn_is_reads(3) [OF res(5)] fw(4,5) by simp_all
  show ?thesis
    unfolding process_v2_def
    by (simp add: new d0(1) res(1-3) rd Let_def v2_code_def res(6) exI [of _ "v2_data res"])
qed

type_synonym v2_frame = "char list \<times> char list \<times> char list option"

definition frame_events :: "v2_frame \<Rightarrow> port_event list" where
  "frame_events f = (case f of (rid, code, payload) \<Rightarrow> line_events (frame_line (frame_body rid code payload)))"

text \<open>The connection delivers frames of other requests, then the answer to this one.\<close>

definition v2_outstanding :: "mdata_proto \<Rightarrow> char list \<Rightarrow> mdata_plat \<Rightarrow> bool" where
  "v2_outstanding mdp rid mpl \<longleftrightarrow> mdp_plat mdp = Some mpl \<and> mdp_state mdp = MDPS_MESSAGE_V2 \<and>
     (\<exists>mdc ds. mdp_command mdp = Some mdc \<and> \<not> mdc_done mdc \<and> mdc_reqid mdc = rid \<and>
       dynstr_rep (mdc_response_data mdc) ds)"

definition v2_delivered :: "mdata_proto \<Rightarrow> char list \<Rightarrow> char list option \<Rightarrow> mdata_plat \<Rightarrow> bool" where
  "v2_delivered mdp code payload mpl \<longleftrightarrow> mdp_plat mdp = Some mpl \<and> mdp_state mdp = MDPS_READY \<and>
     (\<exists>mdc. mdp_command mdp = Some mdc \<and> mdc_done mdc \<and> mdc_response mdc = v2_code code \<and>
       dyn_is (payload_text payload) (mdc_response_data mdc))"

lemma process_input_frame_line:
  assumes "good_alloc mem" "v2_frame_ok rid code payload" "v2_outstanding mdp myid mpl"
    and "dyn_is (frame_line (frame_body rid code payload)) line"
  shows "returns (process_input mem mdp line) (\<lambda>m.
     if rid = myid then v2_delivered m code payload mpl else v2_outstanding m myid mpl)"
proof -
  obtain mdc ds where o: "mdp_plat mdp = Some mpl" "mdp_state mdp = MDPS_MESSAGE_V2"
    "mdp_command mdp = Some mdc" "\<not> mdc_done mdc" "mdc_reqid mdc = myid"
    "dynstr_rep (mdc_response_data mdc) ds"
    using assms(3) by (auto simp: v2_outstanding_def)
  have "process_input mem mdp line = process_v2 mem mdp mdc line"
    using o(2,3) by (simp add: process_input_def)
  note eq = this and step = process_v2_frame_line [OF assms(1,2,4) o(6), of mdp]
  show ?thesis
  proof (cases "rid = myid")
    case True
    show ?thesis unfolding eq
      by (rule returns_mono [OF step]) (use True o in \<open>auto simp: Let_def v2_delivered_def finish_def\<close>)
  next
    case False
    show ?thesis unfolding eq
      by (rule returns_mono [OF step])
        (use False o in \<open>auto simp: Let_def v2_outstanding_def dyn_is_def\<close>)
  qed
qed

lemma after_line_delivered:
  assumes "v2_delivered m code payload mpl"
  shows "returns (after_line mem l m) (\<lambda>(r, m). r = 0 \<and> v2_delivered m code payload mpl)"
  using assms by (auto simp: v2_delivered_def after_line_def)

lemma after_line_outstanding:
  assumes "v2_outstanding m rid mpl"
  shows "after_line mem l m = proto_recv_loop mem l m"
  using assms by (auto simp: v2_outstanding_def after_line_def)

lemma v2_outstanding_plat:
  "v2_outstanding mdp rid mpl \<Longrightarrow> mdp_plat mdp = Some mpl"
  "v2_outstanding mdp rid mpl \<Longrightarrow> v2_outstanding (mdp\<lparr>mdp_plat := Some mpl'\<rparr>) rid mpl'"
  by (auto simp: v2_outstanding_def)

lemma proto_recv_loop_v2:
  assumes "good_alloc mem" "v2_frame_ok myid code payload"
    and "\<forall>(rid, c, p) \<in> set fs. v2_frame_ok rid c p \<and> rid \<noteq> myid"
  shows "v2_outstanding mdp myid mpl \<Longrightarrow>
     mpl_events mpl = concat (map frame_events fs) @ frame_events (myid, code, payload) @ es \<Longrightarrow>
     dynstr_rep line [] \<Longrightarrow>
     returns (proto_recv_loop mem line mdp)
       (\<lambda>(r, m). r = 0 \<and> v2_delivered m code payload (mpl\<lparr>mpl_events := es\<rparr>))"
  using assms(3)
proof (induction fs arbitrary: mdp mpl line)
  case Nil
  note o = v2_outstanding_plat [OF Nil(1)] and nl = frame_no_NL [OF assms(2)]
  have ev: "mpl_events mpl = line_events (frame_line (frame_body myid code payload)) @ es"
    using Nil(2) by (simp add: frame_events_def)
  show ?case
    by (rule proto_recv_loop_line [OF assms(1) o(1) ev nl(1,2) Nil(3)],
        simp add: nl(3), rule process_input_frame_line [OF assms(1,2) o(2)])
      (simp_all add: after_line_delivered)
next
  case (Cons f fs)
  obtain rid c p where f: "f = (rid, c, p)" by (cases f)
  with Cons.prems(4) have ok: "v2_frame_ok rid c p" "rid \<noteq> myid" by auto
  let ?es = "concat (map frame_events fs) @ frame_events (myid, code, payload) @ es"
  have ev: "mpl_events mpl = line_events (frame_line (frame_body rid c p)) @ ?es"
    using Cons.prems(2) frame_events_def [of f] by (simp add: f)
  note o = v2_outstanding_plat [OF Cons.prems(1)] and nl = frame_no_NL [OF ok(1)]
  show ?case
  proof (rule proto_recv_loop_line [OF assms(1) o(1) ev nl(1,2) Cons.prems(3)])
    show "dynstr_owns line \<or> frame_line (frame_body rid c p) \<noteq> []" using nl(3) by simp
    show "returns (process_input mem (mdp\<lparr>mdp_plat := Some (mpl\<lparr>mpl_events := ?es\<rparr>)\<rparr>) l)
      (\<lambda>m. v2_outstanding m myid (mpl\<lparr>mpl_events := ?es\<rparr>))"
      if "dyn_is (frame_line (frame_body rid c p)) l" for l
      using process_input_frame_line [OF assms(1) ok(1) o(2) that] ok(2) by simp
    show "returns (after_line mem l m) (\<lambda>(r, m). r = 0 \<and> v2_delivered m code payload (mpl\<lparr>mpl_events := es\<rparr>))"
      if "v2_outstanding m myid (mpl\<lparr>mpl_events := ?es\<rparr>)" "dyn_is [] l" for m l
      using Cons.IH [OF that(1) _ dyn_isD(1) [OF that(2)]] Cons.prems(4)
      by (simp add: after_line_outstanding [OF that(1)])
  qed
qed

text \<open>
  A whole exchange: the request goes out as one frame, foreign frames are dropped, and the
  payload of the answer comes back.
\<close>

lemma proto_execute_v2_delivers:
  assumes mem: "good_alloc mem"
    and idle: "mdp_command mdp = None" "mdp_plat mdp = Some mpl" "mdp_state mdp = MDPS_READY"
      "mdp_version mdp = MDPV_VERSION_2"
    and cmd: "nul_free command" "length command < 64" "arg_ok argument"
    and rid: "rid = fst (reqid (mdp_reqid mdp) (mdp_rids mdp (mdp_nrids mdp)))"
    and req: "req = frame_line (frame_body rid command argument) @ [NL]"
    and io: "mpl_writes mpl = int (length req) # ws"
      "mpl_events mpl = concat (map frame_events fs) @ frame_events (rid, code, payload) @ es"
    and frames: "v2_frame_ok rid code payload"
      "\<forall>(r, c, p) \<in> set fs. v2_frame_ok r c p \<and> r \<noteq> rid"
  shows "returns (proto_execute mem mdp command argument) (\<lambda>(res, m).
    (\<exists>d. res = Some (v2_code code, d) \<and> dyn_is (payload_text payload) d) \<and>
    mdp_command m = None \<and> mdp_state m = MDPS_READY \<and> mdp_version m = MDPV_VERSION_2 \<and>
    mdp_plat m = Some (mpl\<lparr>mpl_writes := ws, mpl_sent := mpl_sent mpl @ req, mpl_events := es\<rparr>))"
proof -
  obtain s0 where s0: "dynstr_new mem = Inr s0" "dynstr_rep s0 []"
    using dynstr_new_rep [OF mem] by blast
  obtain s1 where s1: "dynstr_reset s0 = Inr s1" "dynstr_rep s1 []"
    using dynstr_reset_rep [OF s0(2)] by blast
  obtain rq where rq: "reqid (mdp_reqid mdp) (mdp_rids mdp (mdp_nrids mdp)) = (rid, rq)"
    using rid by (cases "reqid (mdp_reqid mdp) (mdp_rids mdp (mdp_nrids mdp))") simp
  have "frame_word rid" using frames(1) by (simp add: v2_frame_ok_def)
  then have w: "nul_free rid" "length rid < 64" by (auto simp: frame_word_def)
  obtain out where out: "proto_make_request_v2 mem command argument s1 rid = Inr out" "dyn_is req out"
    using returnsD [OF proto_make_request_v2_returns [OF mem s1(2) w cmd]] req by auto
  let ?mdc = "\<lparr>mdc_reqid = rid, mdc_request = out, mdc_response_data = s0,
        mdc_response = MDR_PENDING, mdc_done = False\<rparr>"
  let ?mpl = "mpl\<lparr>mpl_writes := ws, mpl_sent := mpl_sent mpl @ req\<rparr>"
  let ?m2 = "mdp\<lparr>mdp_reqid := rq, mdp_nrids := mdp_nrids mdp + 1, mdp_command := Some ?mdc\<rparr>"
  let ?m3 = "?m2\<lparr>mdp_plat := Some ?mpl, mdp_state := MDPS_MESSAGE_V2\<rparr>"
  have send: "proto_send ?m2 = Inr (0, ?m3)"
    using plat_send_returns [OF out(2) io(1)] idle(2,4) by (simp add: proto_send_def)
  have o3: "v2_outstanding ?m3 rid ?mpl" using s0(2) by (auto simp: v2_outstanding_def)
  obtain m4 where m4: "proto_recv_loop mem s0 ?m3 = Inr (0, m4)"
    "v2_delivered m4 code payload (?mpl\<lparr>mpl_events := es\<rparr>)"
    using returnsD [OF proto_recv_loop_v2 [OF mem frames o3 _ s0(2)]] io(2) by auto
  have "proto_execute mem mdp command argument = proto_done m4"
    using idle s0(1) s1(1) rq out(1) send m4(1)
    by (simp add: proto_execute_def proto_begin_def proto_retry.simps proto_make_request_def
        proto_attempt_def proto_recv_def)
  moreover have "mdp_version m4 = MDPV_VERSION_2"
    using proto_recv_loop_frame [OF m4(1)] idle(4) by (simp add: same_session_def)
  ultimately show ?thesis using m4(2) by (auto simp: proto_done_def v2_delivered_def)
qed

section \<open>Version 1\<close>

text \<open>
  The host stuffs a line that starts with a dot. The client joins the lines with newlines, but
  puts a newline only behind text it already has, so empty lines at the start are lost.
\<close>

definition v1_stuff :: "char list \<Rightarrow> char list" where
  "v1_stuff l = (if l \<noteq> [] \<and> hd l = CHR ''.'' then CHR ''.'' # l else l)"

fun v1_join :: "char list \<Rightarrow> char list list \<Rightarrow> char list" where
  "v1_join acc [] = acc"
| "v1_join acc (l # ls) = v1_join ((if acc = [] then [] else acc @ [NL]) @ l) ls"

definition v1_line_ok :: "char list \<Rightarrow> bool" where
  "v1_line_ok l \<longleftrightarrow> NL \<notin> set l \<and> nul_free l \<and> length l \<le> 2 ^ 30"

text \<open>The first append to an empty buffer must not be a doubling of the chunk size.\<close>

abbreviation first_fits :: "char list \<Rightarrow> bool" where
  "first_fits l \<equiv> double_until 64 (length l) \<noteq> length l"

definition v1_collecting :: "mdata_proto \<Rightarrow> char list \<Rightarrow> mdata_plat \<Rightarrow> bool \<Rightarrow> bool" where
  "v1_collecting mdp acc mpl own \<longleftrightarrow> mdp_plat mdp = Some mpl \<and> mdp_state mdp = MDPS_MESSAGE_DATA \<and>
     (\<exists>mdc. mdp_command mdp = Some mdc \<and> \<not> mdc_done mdc \<and> mdc_response mdc = MDR_SUCCESS \<and>
       dynstr_rep (mdc_response_data mdc) acc \<and> dynstr_owns (mdc_response_data mdc) = own)"

definition v1_delivered :: "mdata_proto \<Rightarrow> char list \<Rightarrow> mdata_plat \<Rightarrow> bool" where
  "v1_delivered mdp text mpl \<longleftrightarrow> mdp_plat mdp = Some mpl \<and> mdp_state mdp = MDPS_READY \<and>
     (\<exists>mdc. mdp_command mdp = Some mdc \<and> mdc_done mdc \<and> mdc_response mdc = MDR_SUCCESS \<and>
       dynstr_rep (mdc_response_data mdc) text)"

lemma v1_stuff_props:
  assumes "v1_line_ok l"
  shows "NL \<notin> set (v1_stuff l)" "nul_free (v1_stuff l)" "v1_stuff l \<noteq> ''.''"
    "drop (if v1_stuff l \<noteq> [] \<and> hd (v1_stuff l) = CHR ''.'' then 1 else 0) (v1_stuff l) = l"
  using assms by (auto simp: v1_stuff_def v1_line_ok_def)

lemma process_data_line:
  assumes "good_alloc mem" "v1_line_ok l" "own \<or> first_fits l"
    and "v1_collecting mdp acc mpl own" "dyn_is (v1_stuff l) line"
  shows "returns (process_input mem mdp line)
    (\<lambda>m. v1_collecting m ((if acc = [] then [] else acc @ [NL]) @ l) mpl True)"
proof -
  obtain mdc where o: "mdp_plat mdp = Some mpl" "mdp_state mdp = MDPS_MESSAGE_DATA"
    "mdp_command mdp = Some mdc" "\<not> mdc_done mdc" "mdc_response mdc = MDR_SUCCESS"
    "dynstr_rep (mdc_response_data mdc) acc" "dynstr_owns (mdc_response_data mdc) = own"
    using assms(4) by (auto simp: v1_collecting_def)
  note st = v1_stuff_props [OF assms(2)]
  have eq: "process_input mem mdp line = process_data mem mdp mdc line"
    using o(2,3) by (simp add: process_input_def)
  have line: "dynstr_cstr line = Inr (v1_stuff l)"
    using dyn_is_reads(3) [OF assms(5)] st(2) by simp
  have len: "dynstr_len (mdc_response_data mdc) = length acc" by (rule dynstr_rep_len [OF o(6)])
  have sep: "returns (if 0 < length acc then dynstr_append mem (mdc_response_data mdc) [NL]
        else Inr (mdc_response_data mdc))
      (\<lambda>d. dynstr_rep d (if acc = [] then [] else acc @ [NL]) \<and> (dynstr_owns d \<or> first_fits l))"
    using dynstr_append_short [OF o(6) assms(1), of "[NL]"] o(6,7) assms(3)
    by (auto simp: dyn_is_def elim!: returns_mono)
  have app: "returns (dynstr_append mem d l) (dyn_is (cs @ l))"
    if "dynstr_rep d cs" "dynstr_owns d \<or> first_fits l" for d cs
    using dynstr_append_rep [OF that(1) assms(1), of l] that(2) assms(2)
    by (auto simp: v1_line_ok_def returns_def dyn_is_def)
  show ?thesis
    unfolding eq process_data_def line bindr_Inr Let_def len st(4) if_not_P [OF st(3)]
    by (rule returns_bindI [OF sep], elim conjE, rule returns_bindI [OF app])
      (use o in \<open>auto simp: v1_collecting_def dyn_is_def\<close>)
qed

lemma process_data_end:
  assumes "v1_collecting mdp acc mpl own" "dyn_is ''.'' line"
  shows "returns (process_input mem mdp line) (\<lambda>m. v1_delivered m acc mpl)"
  using assms dyn_is_reads(3) [OF assms(2)]
  by (auto simp: v1_collecting_def v1_delivered_def process_input_def process_data_def)

lemma v1_collecting_plat:
  "v1_collecting mdp acc mpl own \<Longrightarrow> mdp_plat mdp = Some mpl"
  "v1_collecting mdp acc mpl own \<Longrightarrow> v1_collecting (mdp\<lparr>mdp_plat := Some mpl'\<rparr>) acc mpl' own"
  by (auto simp: v1_collecting_def)

lemma after_line_collecting:
  "v1_collecting m acc mpl own \<Longrightarrow> after_line mem l m = proto_recv_loop mem l m"
  by (auto simp: v1_collecting_def after_line_def)

lemma after_line_v1_delivered:
  "v1_delivered m text mpl \<Longrightarrow> returns (after_line mem l m) (\<lambda>(r, m). r = 0 \<and> v1_delivered m text mpl)"
  by (auto simp: v1_delivered_def after_line_def)

lemma proto_recv_loop_v1:
  assumes "good_alloc mem"
  shows "v1_collecting mdp acc mpl own \<Longrightarrow> own \<or> ls = [] \<or> first_fits (hd ls) \<Longrightarrow>
     \<forall>l \<in> set ls. v1_line_ok l \<Longrightarrow>
     mpl_events mpl = concat (map (\<lambda>l. line_events (v1_stuff l)) ls) @ line_events ''.'' @ es \<Longrightarrow>
     dyn_is [] line \<Longrightarrow>
     returns (proto_recv_loop mem line mdp)
       (\<lambda>(r, m). r = 0 \<and> v1_delivered m (v1_join acc ls) (mpl\<lparr>mpl_events := es\<rparr>))"
proof (induction ls arbitrary: mdp acc mpl own line)
  case Nil
  note o = v1_collecting_plat [OF Nil(1)] and l = dyn_isD [OF Nil(5)]
  have ev: "mpl_events mpl = line_events ''.'' @ es" using Nil(4) by simp
  show ?case
    by (rule proto_recv_loop_line [OF assms o(1) ev _ _ l(1)], simp, simp, simp,
        rule process_data_end [OF o(2)])
      (simp_all add: after_line_v1_delivered)
next
  case (Cons a ls)
  let ?es = "concat (map (\<lambda>l. line_events (v1_stuff l)) ls) @ line_events ''.'' @ es"
  have ev: "mpl_events mpl = line_events (v1_stuff a) @ ?es" using Cons.prems(4) by simp
  have ok: "v1_line_ok a" "own \<or> first_fits a" using Cons.prems by auto
  note o = v1_collecting_plat [OF Cons.prems(1)] and l = dyn_isD [OF Cons.prems(5)]
    and st = v1_stuff_props [OF ok(1)]
  show ?case
  proof (rule proto_recv_loop_line [OF assms o(1) ev st(1,2) l(1)])
    show "dynstr_owns line \<or> v1_stuff a \<noteq> []" using l by simp
    show "returns (process_input mem (mdp\<lparr>mdp_plat := Some (mpl\<lparr>mpl_events := ?es\<rparr>)\<rparr>) l)
      (\<lambda>m. v1_collecting m ((if acc = [] then [] else acc @ [NL]) @ a) (mpl\<lparr>mpl_events := ?es\<rparr>) True)"
      if "dyn_is (v1_stuff a) l" for l
      by (rule process_data_line [OF assms ok o(2) that])
    show "returns (after_line mem l m)
       (\<lambda>(r, m). r = 0 \<and> v1_delivered m (v1_join acc (a # ls)) (mpl\<lparr>mpl_events := es\<rparr>))"
      if "v1_collecting m ((if acc = [] then [] else acc @ [NL]) @ a) (mpl\<lparr>mpl_events := ?es\<rparr>) True"
        "dyn_is [] l" for m l
      using Cons.IH [OF that(1) _ _ _ that(2)] Cons.prems(3)
      by (simp add: after_line_collecting [OF that(1)])
  qed
qed

text \<open>The header line \<^verbatim>\<open>SUCCESS\<close> starts the collection.\<close>

lemma process_header_success:
  assumes "mdp_plat mdp = Some mpl" "mdp_state mdp = MDPS_MESSAGE_HEADER" "mdp_command mdp = Some mdc"
    and "\<not> mdc_done mdc" "dynstr_rep (mdc_response_data mdc) []" "dyn_is ''SUCCESS'' line"
  shows "returns (process_input mem mdp line)
    (\<lambda>m. v1_collecting m [] mpl (dynstr_owns (mdc_response_data mdc)))"
  using assms dyn_is_reads(3) [OF assms(6)]
  by (auto simp: v1_collecting_def process_input_def process_header_def)

lemma proto_execute_v1_delivers:
  assumes mem: "good_alloc mem"
    and idle: "mdp_command mdp = None" "mdp_plat mdp = Some mpl" "mdp_state mdp = MDPS_READY"
      "mdp_version mdp = MDPV_VERSION_1"
    and cmd: "nul_free command" "length command < 64" "arg_ok argument"
    and req: "req = v1_line command argument @ [NL]"
    and io: "mpl_writes mpl = int (length req) # ws"
      "mpl_events mpl = line_events ''SUCCESS'' @
         concat (map (\<lambda>l. line_events (v1_stuff l)) ls) @ line_events ''.'' @ es"
    and ls: "\<forall>l \<in> set ls. v1_line_ok l" "ls = [] \<or> first_fits (hd ls)"
  shows "returns (proto_execute mem mdp command argument) (\<lambda>(res, m).
    (\<exists>d. res = Some (MDR_SUCCESS, d) \<and> dynstr_rep d (v1_join [] ls)) \<and>
    mdp_command m = None \<and> mdp_state m = MDPS_READY \<and> mdp_version m = MDPV_VERSION_1 \<and>
    mdp_plat m = Some (mpl\<lparr>mpl_writes := ws, mpl_sent := mpl_sent mpl @ req, mpl_events := es\<rparr>))"
proof -
  obtain s0 where s0: "dynstr_new mem = Inr s0" "dynstr_rep s0 []"
    using dynstr_new_rep [OF mem] by blast
  obtain s1 where s1: "dynstr_reset s0 = Inr s1" "dynstr_rep s1 []"
    using dynstr_reset_rep [OF s0(2)] by blast
  obtain out where out: "proto_make_request_v1 mem command argument s1 = Inr out" "dyn_is req out"
    using returnsD [OF proto_make_request_v1_returns [OF s1(2) mem cmd]] req by auto
  let ?mdc = "\<lparr>mdc_reqid = [], mdc_request = out, mdc_response_data = s0,
        mdc_response = MDR_PENDING, mdc_done = False\<rparr>"
  let ?mpl = "mpl\<lparr>mpl_writes := ws, mpl_sent := mpl_sent mpl @ req\<rparr>"
  let ?m2 = "mdp\<lparr>mdp_command := Some ?mdc\<rparr>"
  let ?m3 = "?m2\<lparr>mdp_plat := Some ?mpl, mdp_state := MDPS_MESSAGE_HEADER\<rparr>"
  let ?es = "concat (map (\<lambda>l. line_events (v1_stuff l)) ls) @ line_events ''.'' @ es"
  let ?Q = "\<lambda>(r, m). r = 0 \<and> v1_delivered m (v1_join [] ls) (?mpl\<lparr>mpl_events := es\<rparr>)"
  have send: "proto_send ?m2 = Inr (0, ?m3)"
    using plat_send_returns [OF out(2) io(1)] idle(2,4) by (simp add: proto_send_def)
  have "returns (proto_recv_loop mem s0 ?m3) ?Q"
  proof (rule proto_recv_loop_line [where mpl = ?mpl and es = ?es and cs = "''SUCCESS''", OF mem])
    show "returns (process_input mem (?m3\<lparr>mdp_plat := Some (?mpl\<lparr>mpl_events := ?es\<rparr>)\<rparr>) l)
        (\<lambda>m. v1_collecting m [] (?mpl\<lparr>mpl_events := ?es\<rparr>) (dynstr_owns s0))"
      if "dyn_is ''SUCCESS'' l" for l
      using process_header_success [of _ _ ?mdc, OF _ _ _ _ _ that] s0(2) by simp
    show "returns (after_line mem l m) ?Q"
      if "v1_collecting m [] (?mpl\<lparr>mpl_events := ?es\<rparr>) (dynstr_owns s0)" "dyn_is [] l" for m l
      using proto_recv_loop_v1 [OF mem that(1) _ ls(1) _ that(2)] ls(2)
      by (simp add: after_line_collecting [OF that(1)])
  qed (use io(2) s0(2) in simp_all)
  then obtain m4 where m4: "proto_recv_loop mem s0 ?m3 = Inr (0, m4)"
    "v1_delivered m4 (v1_join [] ls) (?mpl\<lparr>mpl_events := es\<rparr>)"
    by (auto dest: returnsD)
  have "proto_execute mem mdp command argument = proto_done m4"
    using idle s0(1) s1(1) out(1) send m4(1)
    by (simp add: proto_execute_def proto_begin_def proto_retry.simps proto_make_request_def
        proto_attempt_def proto_recv_def)
  moreover have "mdp_version m4 = MDPV_VERSION_1"
    using proto_recv_loop_frame [OF m4(1)] idle(4) by (simp add: same_session_def)
  ultimately show ?thesis using m4(2) by (auto simp: proto_done_def v1_delivered_def)
qed

section \<open>Negotiation\<close>

text \<open>Version 1 answers that are a single header line.\<close>

definition v1_code :: "char list \<Rightarrow> mdata_response" where
  "v1_code h = (if h = ''NOTFOUND'' then MDR_NOTFOUND
     else if h = ''V2_OK'' then MDR_V2_OK else MDR_INVALID_COMMAND)"

lemma process_header_single:
  assumes "mdp_state mdp = MDPS_MESSAGE_HEADER" "mdp_command mdp = Some mdc"
    and "h \<in> {''NOTFOUND'', ''V2_OK'', ''invalid command''}" "dyn_is h line"
  shows "process_input mem mdp line = Inr (finish mdp mdc (v1_code h))"
proof -
  have "nul_free h" using assms(3) by auto
  then have c: "dynstr_cstr line = Inr h" using dyn_is_reads(3) [OF assms(4)] by simp
  have "process_input mem mdp line = process_header mem mdp mdc line"
    using assms(1,2) by (simp add: process_input_def)
  also have "\<dots> = Inr (finish mdp mdc (v1_code h))"
    unfolding process_header_def c bindr_Inr v1_code_def using assms(3) by auto
  finally show ?thesis .
qed

lemma proto_pass_v1_header:
  assumes mem: "good_alloc mem"
    and ready: "mdp_command mdp = None" "mdp_plat mdp = Some mpl" "mdp_state mdp = MDPS_READY"
      "mdp_version mdp = MDPV_VERSION_1"
    and cmd: "nul_free command" "length command < 64" "arg_ok argument"
    and req: "req = v1_line command argument @ [NL]"
    and io: "mpl_writes mpl = int (length req) # ws" "mpl_events mpl = line_events h @ es"
    and h: "h \<in> {''NOTFOUND'', ''V2_OK'', ''invalid command''}"
  shows "\<exists>d. proto_pass mem mdp command argument = Inr (Some (v1_code h, d),
    mdp\<lparr>mdp_plat := Some (mpl\<lparr>mpl_writes := ws, mpl_sent := mpl_sent mpl @ req, mpl_events := es\<rparr>),
        mdp_state := MDPS_READY, mdp_command := None\<rparr>)"
proof -
  obtain s0 where s0: "dynstr_new mem = Inr s0" "dynstr_rep s0 []"
    using dynstr_new_rep [OF mem] by blast
  obtain s1 where s1: "dynstr_reset s0 = Inr s1" "dynstr_rep s1 []"
    using dynstr_reset_rep [OF s0(2)] by blast
  obtain out where out: "proto_make_request_v1 mem command argument s1 = Inr out" "dyn_is req out"
    using returnsD [OF proto_make_request_v1_returns [OF s1(2) mem cmd]] req by auto
  let ?mdc = "\<lparr>mdc_reqid = [], mdc_request = out, mdc_response_data = s0,
        mdc_response = MDR_PENDING, mdc_done = False\<rparr>"
  let ?mpl = "mpl\<lparr>mpl_writes := ws, mpl_sent := mpl_sent mpl @ req\<rparr>"
  let ?m3 = "mdp\<lparr>mdp_command := Some ?mdc, mdp_plat := Some ?mpl, mdp_state := MDPS_MESSAGE_HEADER\<rparr>"
  let ?m4 = "finish (?m3\<lparr>mdp_plat := Some (?mpl\<lparr>mpl_events := es\<rparr>)\<rparr>) ?mdc (v1_code h)"
  have send: "proto_send (mdp\<lparr>mdp_command := Some ?mdc\<rparr>) = Inr (0, ?m3)"
    using plat_send_returns [OF out(2) io(1)] ready(2,4) by (simp add: proto_send_def)
  have "returns (proto_recv_loop mem s0 ?m3) (\<lambda>p. p = (0, ?m4))"
  proof (rule proto_recv_loop_line [where mpl = ?mpl and es = es and cs = h, OF mem])
    show "returns (process_input mem (?m3\<lparr>mdp_plat := Some (?mpl\<lparr>mpl_events := es\<rparr>)\<rparr>) l) (\<lambda>m. m = ?m4)"
      if "dyn_is h l" for l
      using process_header_single [OF _ _ h that, of "?m3\<lparr>mdp_plat := Some (?mpl\<lparr>mpl_events := es\<rparr>)\<rparr>" ?mdc]
      by simp
    show "returns (after_line mem l m) (\<lambda>p. p = (0, ?m4))" if "m = ?m4" for l m
      using that by (simp add: after_line_def)
  qed (use h io(2) s0(2) in auto)
  then have "proto_recv_loop mem s0 ?m3 = Inr (0, ?m4)" by (auto dest: returnsD)
  then have "proto_pass mem mdp command argument = proto_done ?m4"
    using ready s0(1) s1(1) out(1) send
    by (simp add: proto_pass_def proto_begin_def proto_make_request_def proto_attempt_def proto_recv_def)
  then show ?thesis by (simp add: proto_done_def finish_def)
qed

lemma proto_pass_execute:
  assumes "proto_pass mem mdp c a = Inr (Some x, m)"
  shows "proto_execute mem mdp c a = Inr (Some x, m)"
proof -
  obtain m1 m2 ok m3 where run: "proto_begin mem mdp = Inr m1" "proto_make_request mem c a m1 = Inr m2" "proto_attempt mem m2 = Inr (ok, m3)"
    "(if ok then proto_done m3 else bindr (proto_discard m3) (\<lambda>mdp. Inr (proto_bail mdp))) = Inr (Some x, m)"
    using assms by (auto simp: proto_pass_def bindr_eq_Inr_iff)
  then have "ok" "proto_done m3 = Inr (Some x, m)" by (auto simp: bindr_eq_Inr_iff proto_bail_def split: if_splits)
  then show ?thesis using run(1-3) proto_retry.simps [of mem c a m1] by (simp add: proto_execute_def)
qed

lemma proto_negotiate_header:
  assumes "good_alloc mem" "mdp_plat mdp = Some mpl" "mdp_state mdp = MDPS_READY"
    and "mpl_writes mpl = 13 # ws" "mpl_events mpl = line_events h @ es"
    and "h \<in> {''NOTFOUND'', ''V2_OK'', ''invalid command''}"
  shows "proto_negotiate mem mdp = Inr (0,
    mdp\<lparr>mdp_version := (if h = ''V2_OK'' then MDPV_VERSION_2 else MDPV_VERSION_1),
        mdp_plat := Some (mpl\<lparr>mpl_writes := ws, mpl_sent := mpl_sent mpl @ ''NEGOTIATE V2'' @ [NL],
          mpl_events := es\<rparr>)\<rparr>)"
proof -
  let ?m = "mdp\<lparr>mdp_command := None, mdp_version := MDPV_VERSION_1\<rparr>"
  let ?mpl = "mpl\<lparr>mpl_writes := ws, mpl_sent := mpl_sent mpl @ ''NEGOTIATE V2'' @ [NL], mpl_events := es\<rparr>"
  obtain d where "proto_pass mem ?m ''NEGOTIATE'' (Some ''V2'') = Inr (Some (v1_code h, d),
    ?m\<lparr>mdp_plat := Some ?mpl, mdp_state := MDPS_READY, mdp_command := None\<rparr>)"
    using proto_pass_v1_header [OF assms(1) _ _ _ _ _ _ _ refl _ assms(5,6), of ?m "''NEGOTIATE''" "Some ''V2''" ws]
      assms(2-4) by (auto simp: v1_line_def arg_ok_def)
  then show ?thesis
    using assms(3,6) by (auto simp: proto_negotiate_def v1_code_def)
qed

section \<open>Properties\<close>

text \<open>C1: Over version 2 a command and its answer are carried end to end. The request leaves as one
  frame with a fresh identifier; frames for other requests that arrive first are dropped; the frame
  with the same identifier completes the command, and the caller gets its code and the exact
  payload, with the rest of the input left on the connection.\<close>

theorem proto_execute_v2_end_to_end:
  assumes "good_alloc mem"
    and "mdp_command mdp = None" "mdp_plat mdp = Some mpl" "mdp_state mdp = MDPS_READY"
      "mdp_version mdp = MDPV_VERSION_2"
    and "nul_free command" "length command < 64" "arg_ok argument"
    and "rid = fst (reqid (mdp_reqid mdp) (mdp_rids mdp (mdp_nrids mdp)))"
    and "req = frame_line (frame_body rid command argument) @ [NL]"
    and "mpl_writes mpl = int (length req) # ws"
      "mpl_events mpl = concat (map frame_events fs) @ frame_events (rid, code, payload) @ es"
    and "v2_frame_ok rid code payload"
      "\<forall>(r, c, p) \<in> set fs. v2_frame_ok r c p \<and> r \<noteq> rid"
  shows "returns (proto_execute mem mdp command argument) (\<lambda>(res, m).
    (\<exists>d. res = Some (v2_code code, d) \<and> dynstr_cstr d = Inr (payload_text payload)) \<and>
    mdp_command m = None \<and> mdp_state m = MDPS_READY \<and>
    mdp_plat m = Some (mpl\<lparr>mpl_writes := ws, mpl_sent := mpl_sent mpl @ req, mpl_events := es\<rparr>))"
proof -
  have nf: "nul_free (payload_text payload)"
    using assms(13) by (auto simp: v2_frame_ok_def arg_ok_def split: option.splits)
  show ?thesis
    by (rule returns_mono [OF proto_execute_v2_delivers [OF assms]])
      (use nf in \<open>auto dest!: dyn_is_reads(3)\<close>)
qed

lemma sample_rid: "fst (reqid \<lparr>urandom_fd = -1, rq_seed = 1\<rparr>
    \<lparr>env_urandom = None, env_left = 0, env_time = 0, env_rand = (\<lambda>_. 0)\<rparr>) = ''00000000''"
  by code_simp

lemma sample_answer_ok: "v2_frame_ok ''00000000'' ''SUCCESS'' (Some ''v'')"
proof -
  have "crc32_calc (frame_body ''00000000'' ''SUCCESS'' (Some ''v'')) \<noteq> 0" by code_simp
  then show ?thesis by (simp add: v2_frame_ok_def frame_word_def arg_ok_def)
qed

theorem proto_execute_v2_end_to_end_witness:
  "returns (proto_execute heap_base
      (idle_sample\<lparr>mdp_version := MDPV_VERSION_2, mdp_plat := Some (plat_sample\<lparr>
         mpl_writes := [int (length (frame_line (frame_body ''00000000'' ''GET'' (Some ''k'')) @ [NL]))],
         mpl_events := frame_events (''00000000'', ''SUCCESS'', Some ''v'')\<rparr>)\<rparr>) ''GET'' (Some ''k''))
    (\<lambda>(res, m). \<exists>d. res = Some (MDR_SUCCESS, d) \<and> dynstr_cstr d = Inr ''v'')"
  by (rule returns_mono [OF proto_execute_v2_end_to_end [where rid = "''00000000''" and fs = "[]" and es = "[]"
        and ws = "[]" and code = "''SUCCESS''" and payload = "Some ''v''",
        OF good_heap_base _ _ _ _ _ _ _ _ refl _ _ sample_answer_ok]])
    (auto simp: idle_sample_def proto_zero_def arg_ok_def sample_rid v2_code_def)

text \<open>C4: Over version 1 the answer \<^verbatim>\<open>SUCCESS\<close>, dot-stuffed lines and a lone dot deliver the
  unstuffed lines joined by newlines; empty lines before the first text are lost. The first line
  must not have a length that overflows the empty response buffer.\<close>

theorem proto_execute_v1_end_to_end:
  assumes "good_alloc mem"
    and "mdp_command mdp = None" "mdp_plat mdp = Some mpl" "mdp_state mdp = MDPS_READY"
      "mdp_version mdp = MDPV_VERSION_1"
    and "nul_free command" "length command < 64" "arg_ok argument"
    and "req = v1_line command argument @ [NL]"
    and "mpl_writes mpl = int (length req) # ws"
      "mpl_events mpl = line_events ''SUCCESS'' @
         concat (map (\<lambda>l. line_events (v1_stuff l)) ls) @ line_events ''.'' @ es"
    and "\<forall>l \<in> set ls. v1_line_ok l" "ls = [] \<or> (\<forall>k. length (hd ls) \<noteq> 64 * 2 ^ k)"
  shows "returns (proto_execute mem mdp command argument) (\<lambda>(res, m).
    (\<exists>d. res = Some (MDR_SUCCESS, d) \<and> dynstr_rep d (v1_join [] ls)) \<and>
    mdp_command m = None \<and> mdp_state m = MDPS_READY \<and>
    mdp_plat m = Some (mpl\<lparr>mpl_writes := ws, mpl_sent := mpl_sent mpl @ req, mpl_events := es\<rparr>))"
proof -
  have "ls = [] \<or> first_fits (hd ls)" using assms(13) double_until_fixed_iff [of 64] by auto
  from proto_execute_v1_delivers [OF assms(1-12) this] show ?thesis by (rule returns_mono) auto
qed

theorem proto_execute_v1_end_to_end_witness:
  "returns (proto_execute heap_base
      (idle_sample\<lparr>mdp_plat := Some (plat_sample\<lparr>mpl_writes := [6],
         mpl_events := line_events ''SUCCESS'' @ line_events ''..a'' @ line_events ''b'' @ line_events ''.''\<rparr>)\<rparr>)
      ''GET'' (Some ''k''))
    (\<lambda>(res, m). \<exists>d. res = Some (MDR_SUCCESS, d) \<and> dynstr_rep d (''.a'' @ [NL] @ ''b''))"
proof -
  have e: "length (hd [''.a'', ''b'']) \<noteq> 64 * 2 ^ k" for k :: nat
  proof -
    have "(64 :: nat) \<le> 64 * 2 ^ k" by simp
    moreover have "length (hd [''.a'', ''b'']) = 2" by simp
    ultimately show ?thesis by linarith
  qed
  show ?thesis
    by (rule returns_mono [OF proto_execute_v1_end_to_end [where ls = "[''.a'', ''b'']" and es = "[]"
          and ws = "[]", OF good_heap_base _ _ _ _ _ _ _ refl]])
      (use e in \<open>auto simp: idle_sample_def proto_zero_def arg_ok_def v1_line_def v1_stuff_def v1_line_ok_def\<close>)
qed

text \<open>Negotiation: when the host answers \<^verbatim>\<open>NEGOTIATE V2\<close> with \<^verbatim>\<open>V2_OK\<close> the session is of
  version 2 afterwards, when it answers \<^verbatim>\<open>NOTFOUND\<close> or \<^verbatim>\<open>invalid command\<close> of version 1; an
  outstanding command and the pending connection attempts are left alone.\<close>

theorem proto_negotiate_answer:
  assumes "good_alloc mem" "mdp_plat mdp = Some mpl" "mdp_state mdp = MDPS_READY"
    and "mpl_writes mpl = 13 # ws" "mpl_events mpl = line_events h @ es"
    and "h \<in> {''NOTFOUND'', ''V2_OK'', ''invalid command''}"
  shows "proto_negotiate mem mdp = Inr (0,
    mdp\<lparr>mdp_version := (if h = ''V2_OK'' then MDPV_VERSION_2 else MDPV_VERSION_1),
        mdp_plat := Some (mpl\<lparr>mpl_writes := ws, mpl_sent := mpl_sent mpl @ ''NEGOTIATE V2'' @ [NL],
          mpl_events := es\<rparr>)\<rparr>)"
  by (rule proto_negotiate_header [OF assms])

theorem proto_negotiate_answer_witness:
  "proto_version (snd (projr (proto_negotiate heap_base (idle_sample\<lparr>mdp_plat := Some
      (plat_sample\<lparr>mpl_writes := [13], mpl_events := line_events ''V2_OK''\<rparr>)\<rparr>)))) = MDPV_VERSION_2"
proof -
  let ?mpl = "plat_sample\<lparr>mpl_writes := [13], mpl_events := line_events ''V2_OK''\<rparr>"
  have p: "mdp_plat (idle_sample\<lparr>mdp_plat := Some ?mpl\<rparr>) = Some ?mpl"
    "mdp_state (idle_sample\<lparr>mdp_plat := Some ?mpl\<rparr>) = MDPS_READY"
    "mpl_writes ?mpl = [13]" "mpl_events ?mpl = line_events ''V2_OK'' @ []"
    by (simp_all add: idle_sample_def)
  show ?thesis
    using proto_negotiate_answer [OF good_heap_base p] by (simp add: proto_version_def)
qed

end
