(* ===== verification/Mdata_Tools.thy ===== *)
theory Mdata_Tools
  imports Mdata_Delivery
begin

text \<open>
  The four command-line programs \<^verbatim>\<open>mdata_get.c\<close>, \<^verbatim>\<open>mdata_put.c\<close>, \<^verbatim>\<open>mdata_list.c\<close> and
  \<^verbatim>\<open>mdata_delete.c\<close> of \<^verbatim>\<open>src/src/dockerinit/mdata-client\<close>. A run takes the argument vector, the
  standard input and what the outside world has in store for the protocol engine, and gives
  what it wrote to the two output streams with its exit code; \<^verbatim>\<open>errx\<close> is
  \<open>Fault_Exit\<close>.
\<close>

section \<open>The outside world of a run\<close>

record tool_env =
  te_fd :: int                          \<comment> \<open>\<^verbatim>\<open>open("/dev/urandom")\<close>\<close>
  te_calloc :: bool
  te_reqid :: reqid_state
  te_inits :: "init_env list"
  te_rids :: "nat \<Rightarrow> reqid_env"
  te_interactive :: bool                \<comment> \<open>\<^verbatim>\<open>isatty(STDIN_FILENO)\<close>\<close>
  te_stdin :: "char list"
  te_stdin_error :: bool                \<comment> \<open>\<^verbatim>\<open>ferror(stdin)\<close> after the last byte\<close>
  te_strerror :: "char list"

record tool_result =
  tr_out :: "char list"
  tr_err :: "char list"
  tr_code :: int

definition MDEC_SUCCESS :: int where "MDEC_SUCCESS = 0"
definition MDEC_NOTFOUND :: int where "MDEC_NOTFOUND = 1"
definition MDEC_ERROR :: int where "MDEC_ERROR = 2"
definition MDEC_USAGE_ERROR :: int where "MDEC_USAGE_ERROR = 3"

lemmas mdec_defs = MDEC_SUCCESS_def MDEC_NOTFOUND_def MDEC_ERROR_def MDEC_USAGE_ERROR_def

definition tool_fail :: "char list \<Rightarrow> int \<Rightarrow> tool_result outcome" where
  "tool_fail msg code = Inr \<lparr>tr_out = [], tr_err = msg @ [NL], tr_code = code\<rparr>"

text \<open>The string an argument of a \<^verbatim>\<open>%s\<close> conversion denotes; a null pointer there is undefined.\<close>

definition percent_s :: "char list option \<Rightarrow> char list outcome" where
  "percent_s p = (case p of None \<Rightarrow> Inl Fault_UB | Some s \<Rightarrow> Inr s)"

definition percent_s_dyn :: "string_t \<Rightarrow> char list outcome" where
  "percent_s_dyn data = (if str_data data = None then Inl Fault_UB else dynstr_cstr data)"

text \<open>\<^verbatim>\<open>cstr[len - 1] != '\n'\<close>.\<close>

definition last_not_newline :: "string_t \<Rightarrow> bool outcome" where
  "last_not_newline data = bindr (dynstr_bytes data (dynstr_len data)) (\<lambda>bs. Inr (last bs \<noteq> NL))"

section \<open>The programs\<close>

definition tool_init :: "allocator \<Rightarrow> tool_env \<Rightarrow> (mdata_proto \<Rightarrow> tool_result outcome) \<Rightarrow> tool_result outcome" where
  "tool_init mem env body =
     bindr (proto_init mem (te_fd env) (te_calloc env) (te_reqid env) (te_inits env) (te_rids env))
       (\<lambda>(r, mdp, errmsg).
         if r \<noteq> 0
         then bindr (percent_s errmsg) (\<lambda>m.
           tool_fail (''ERROR: could not initialise protocol: '' @ m) MDEC_ERROR)
         else body (the mdp))"

definition tool_failed_response ::
    "char list \<Rightarrow> char list \<Rightarrow> char list option \<Rightarrow> mdata_response \<Rightarrow> string_t \<Rightarrow> tool_result outcome" where
  "tool_failed_response verb gerund keyname mdr data =
     (case mdr of
        MDR_NOTFOUND \<Rightarrow>
          bindr (percent_s keyname) (\<lambda>k.
          tool_fail (''No metadata for '' @ [CHR 0x27] @ k @ [CHR 0x27]) MDEC_NOTFOUND)
      | MDR_UNKNOWN \<Rightarrow>
          bindr (percent_s keyname) (\<lambda>k.
          bindr (percent_s_dyn data) (\<lambda>c.
          tool_fail (''Error '' @ gerund @ '' '' @ [CHR 0x27] @ k @ [CHR 0x27] @ '': '' @ c) MDEC_ERROR))
      | MDR_INVALID_COMMAND \<Rightarrow> tool_fail (''ERROR: host does not support '' @ verb) MDEC_ERROR
      | _ \<Rightarrow> Inl Fault_Abort)"

definition get_print_response ::
    "char list option \<Rightarrow> mdata_response \<Rightarrow> string_t \<Rightarrow> tool_result outcome" where
  "get_print_response keyname mdr data =
     (if mdr = MDR_SUCCESS
      then bindr (percent_s_dyn data) (\<lambda>c.
           bindr (if dynstr_len data < 1 then Inr True else last_not_newline data) (\<lambda>nl.
           Inr \<lparr>tr_out = c @ (if nl then [NL] else []), tr_err = [], tr_code = MDEC_SUCCESS\<rparr>))
      else tool_failed_response ''GET'' ''getting metadata for key'' keyname mdr data)"

definition mdata_get :: "allocator \<Rightarrow> tool_env \<Rightarrow> char list list \<Rightarrow> tool_result outcome" where
  "mdata_get mem env argv =
     (if length argv < 2 then Inl (Fault_Exit MDEC_USAGE_ERROR)
      else tool_init mem env (\<lambda>mdp.
        let keyname = strdup mem (argv ! 1)
        in bindr (proto_execute mem mdp ''GET'' keyname) (\<lambda>(res, _).
           case res of
             None \<Rightarrow> tool_fail ''ERROR: could not execute GET'' MDEC_ERROR
           | Some (mdr, data) \<Rightarrow> get_print_response keyname mdr data)))"

definition put_print_response ::
    "char list option \<Rightarrow> mdata_response \<Rightarrow> string_t \<Rightarrow> tool_result outcome" where
  "put_print_response keyname mdr data =
     (if mdr = MDR_SUCCESS then Inr \<lparr>tr_out = [], tr_err = [], tr_code = MDEC_SUCCESS\<rparr>
      else tool_failed_response ''PUT'' ''putting metadata for key'' keyname mdr data)"

fun read_stdin :: "allocator \<Rightarrow> string_t \<Rightarrow> char list \<Rightarrow> string_t outcome" where
  "read_stdin mem s [] = Inr s"
| "read_stdin mem s (c # cs) = bindr (dynstr_appendc mem s c) (\<lambda>s. read_stdin mem s cs)"

text \<open>The argument of the \<^verbatim>\<open>PUT\<close> command, or the program's result when it gives up.\<close>

definition put_request ::
    "allocator \<Rightarrow> tool_env \<Rightarrow> char list list \<Rightarrow> string_t \<Rightarrow> (tool_result + string_t) outcome" where
  "put_request mem env argv req =
     bindr (base64_encode mem (argv ! 1) req) (\<lambda>req.
     bindr (dynstr_appendc mem req (CHR '' '')) (\<lambda>req.
     if 3 \<le> length argv
     then bindr (base64_encode mem (argv ! 2) req) (\<lambda>req. Inr (Inr req))
     else
       bindr (dynstr_new mem) (\<lambda>stdinstr.
       bindr (dynstr_append mem stdinstr []) (\<lambda>stdinstr.
       if te_interactive env
       then bindr (tool_fail (''ERROR: either specify the metadata value as the second '' @
              ''command-line argument, or pipe content to stdin.'') MDEC_ERROR) (\<lambda>r. Inr (Inl r))
       else bindr (read_stdin mem stdinstr (te_stdin env)) (\<lambda>stdinstr.
       if te_stdin_error env
       then bindr (tool_fail (''ERROR: could not read from stdin: '' @ te_strerror env) MDEC_ERROR)
              (\<lambda>r. Inr (Inl r))
       else bindr (dynstr_bytes stdinstr (dynstr_len stdinstr)) (\<lambda>bs.
            bindr (base64_encode mem bs req) (\<lambda>req. Inr (Inr req))))))))"

definition mdata_put :: "allocator \<Rightarrow> tool_env \<Rightarrow> char list list \<Rightarrow> tool_result outcome" where
  "mdata_put mem env argv =
     bindr (dynstr_new mem) (\<lambda>req.
     if length argv < 2 then Inl (Fault_Exit MDEC_USAGE_ERROR)
     else tool_init mem env (\<lambda>mdp.
       if proto_version mdp \<noteq> MDPV_VERSION_2
       then tool_fail ''ERROR: host does not support PUT'' MDEC_ERROR
       else
         let keyname = strdup mem (argv ! 1)
         in bindr (put_request mem env argv req) (\<lambda>rq.
            case rq of
              Inl r \<Rightarrow> Inr r
            | Inr req \<Rightarrow>
                bindr (dynstr_cstr req) (\<lambda>arg.
                bindr (proto_execute mem mdp ''PUT'' (Some arg)) (\<lambda>(res, _).
                case res of
                  None \<Rightarrow> tool_fail ''ERROR: could not execute GET'' MDEC_ERROR
                | Some (mdr, data) \<Rightarrow> put_print_response keyname mdr data)))))"

definition list_print_response :: "mdata_response \<Rightarrow> string_t \<Rightarrow> tool_result outcome" where
  "list_print_response mdr data =
     (case mdr of
        MDR_SUCCESS \<Rightarrow>
          bindr (percent_s_dyn data) (\<lambda>c.
          bindr (if 1 \<le> dynstr_len data then last_not_newline data else Inr False) (\<lambda>nl.
          Inr \<lparr>tr_out = c @ (if nl then [NL] else []), tr_err = [], tr_code = MDEC_SUCCESS\<rparr>))
      | MDR_NOTFOUND \<Rightarrow> tool_fail ''No metadata'' MDEC_NOTFOUND
      | MDR_UNKNOWN \<Rightarrow>
          bindr (percent_s_dyn data) (\<lambda>c. tool_fail (''Error getting metadata: '' @ c) MDEC_ERROR)
      | MDR_INVALID_COMMAND \<Rightarrow> tool_fail ''ERROR: host does not support KEYS'' MDEC_ERROR
      | _ \<Rightarrow> Inl Fault_Abort)"

definition mdata_list :: "allocator \<Rightarrow> tool_env \<Rightarrow> tool_result outcome" where
  "mdata_list mem env =
     tool_init mem env (\<lambda>mdp.
       bindr (proto_execute mem mdp ''KEYS'' None) (\<lambda>(res, _).
       case res of
         None \<Rightarrow> tool_fail ''ERROR: could not execute KEYS'' MDEC_ERROR
       | Some (mdr, data) \<Rightarrow> list_print_response mdr data))"

definition delete_print_response ::
    "char list option \<Rightarrow> mdata_response \<Rightarrow> string_t \<Rightarrow> tool_result outcome" where
  "delete_print_response keyname mdr data =
     (if mdr = MDR_SUCCESS then Inr \<lparr>tr_out = [], tr_err = [], tr_code = MDEC_SUCCESS\<rparr>
      else tool_failed_response ''DELETE'' ''deleting metadata key'' keyname mdr data)"

definition mdata_delete :: "allocator \<Rightarrow> tool_env \<Rightarrow> char list list \<Rightarrow> tool_result outcome" where
  "mdata_delete mem env argv =
     (if length argv < 2 then Inl (Fault_Exit MDEC_USAGE_ERROR)
      else tool_init mem env (\<lambda>mdp.
        if proto_version mdp \<noteq> MDPV_VERSION_2
        then tool_fail ''ERROR: host does not support DELETE'' MDEC_ERROR
        else
          let keyname = strdup mem (argv ! 1)
          in bindr (proto_execute mem mdp ''DELETE'' keyname) (\<lambda>(res, _).
             case res of
               None \<Rightarrow> tool_fail ''ERROR: could not execute GET'' MDEC_ERROR
             | Some (mdr, data) \<Rightarrow> delete_print_response keyname mdr data)))"

section \<open>What a run does\<close>

text \<open>A successful initialisation gives a handle that is ready for its first command.\<close>

lemma proto_init_safe:
  "safe (proto_init mem fd cal rq inits rids) (\<lambda>(r, mdp, errmsg).
     r = 0 \<and> (\<exists>m. mdp = Some m \<and> idle m \<and> \<not> mdp_in_reset m) \<or> r = -1 \<and> mdp = None)"
  unfolding proto_init_def Let_def
  by (intro safe_ifI safe_bindI [OF proto_reset_safe])
    (auto simp: reset_post_def proto_zero_def idle_def)

lemma read_stdin_returns:
  assumes "good_alloc mem"
  shows "dyn_is ds s \<Longrightarrow> returns (read_stdin mem s cs) (dyn_is (ds @ cs))"
proof (induction cs arbitrary: ds s)
  case (Cons c cs)
  obtain s' where "dynstr_appendc mem s c = Inr s'" "dyn_is (ds @ [c]) s'"
    using dynstr_appendc_rep [OF dyn_isD(1) [OF Cons.prems] assms, of c] by (auto simp: dyn_is_def)
  with Cons.IH [of "ds @ [c]" s'] show ?case by simp
qed simp

text \<open>The value to put: the third argument, else the whole standard input.\<close>

definition put_value :: "tool_env \<Rightarrow> char list list \<Rightarrow> char list" where
  "put_value env argv = (if 3 \<le> length argv then argv ! 2 else te_stdin env)"

lemma put_request_returns:
  assumes "good_alloc mem" "dynstr_rep req []"
    and "3 \<le> length argv \<or> \<not> te_interactive env \<and> \<not> te_stdin_error env"
  shows "returns (put_request mem env argv req) (\<lambda>rq. \<exists>s. rq = Inr s \<and>
    dyn_is (b64_spec (argv ! 1) @ '' '' @ b64_spec (put_value env argv)) s)"
proof -
  obtain s1 where s1: "base64_encode mem (argv ! 1) req = Inr s1" "dyn_is (b64_spec (argv ! 1)) s1"
    using returnsD [OF base64_encode_returns [OF assms(2,1)]] by auto
  obtain s2 where s2: "dynstr_appendc mem s1 (CHR '' '') = Inr s2"
    "dynstr_rep s2 (b64_spec (argv ! 1) @ '' '')"
    using dynstr_appendc_rep [OF dyn_isD(1) [OF s1(2)] assms(1)] by blast
  have enc: "returns (base64_encode mem v s2) (dyn_is (b64_spec (argv ! 1) @ '' '' @ b64_spec v))" for v
    using base64_encode_returns [OF s2(2) assms(1), of v] by simp
  show ?thesis
  proof (cases "3 \<le> length argv")
    case True
    obtain s3 where "base64_encode mem (argv ! 2) s2 = Inr s3"
      "dyn_is (b64_spec (argv ! 1) @ '' '' @ b64_spec (argv ! 2)) s3"
      using returnsD [OF enc] by blast
    then show ?thesis using True s1(1) s2(1) by (simp add: put_request_def put_value_def)
  next
    case False
    obtain i0 where i0: "dynstr_new mem = Inr i0" "dynstr_rep i0 []"
      using dynstr_new_rep [OF assms(1)] by blast
    obtain i1 where i1: "dynstr_append mem i0 [] = Inr i1" "dyn_is [] i1"
      using returnsD [OF dynstr_append_short [OF i0(2) assms(1), of "[]"]] by auto
    obtain i2 where i2: "read_stdin mem i1 (te_stdin env) = Inr i2" "dyn_is (te_stdin env) i2"
      using returnsD [OF read_stdin_returns [OF assms(1) i1(2), of "te_stdin env"]] by auto
    obtain s3 where s3: "base64_encode mem (te_stdin env) s2 = Inr s3"
      "dyn_is (b64_spec (argv ! 1) @ '' '' @ b64_spec (te_stdin env)) s3"
      using returnsD [OF enc] by blast
    show ?thesis
      using False assms(3) s1(1) s2(1) i0(1) i1(1) i2(1) s3 dyn_is_reads(2) [OF i2(2)]
      by (simp add: put_request_def put_value_def)
  qed
qed

text \<open>The exit status says what happened: success is silent on the error stream.\<close>

definition tool_status_ok :: "tool_result \<Rightarrow> bool" where
  "tool_status_ok r \<longleftrightarrow> tr_code r \<in> {MDEC_SUCCESS, MDEC_NOTFOUND, MDEC_ERROR} \<and>
     (tr_code r = MDEC_SUCCESS \<longleftrightarrow> tr_err r = []) \<and> (tr_code r \<noteq> MDEC_SUCCESS \<longrightarrow> tr_out r = [])"

lemma tool_fail_status [simp]:
  "code \<in> {MDEC_NOTFOUND, MDEC_ERROR} \<Longrightarrow> ensures (tool_fail msg code) tool_status_ok"
  by (auto simp: tool_fail_def tool_status_ok_def mdec_defs)

lemma tool_failed_response_status: "ensures (tool_failed_response v g k mdr data) tool_status_ok"
  by (cases mdr) (auto simp: tool_failed_response_def intro!: ensures_bindI)

lemma success_status [simp]: "tool_status_ok \<lparr>tr_out = out, tr_err = [], tr_code = MDEC_SUCCESS\<rparr>"
  by (simp add: tool_status_ok_def)

lemma print_response_status:
  "ensures (get_print_response k mdr data) tool_status_ok"
  "ensures (put_print_response k mdr data) tool_status_ok"
  "ensures (delete_print_response k mdr data) tool_status_ok"
  "ensures (list_print_response mdr data) tool_status_ok"
  unfolding get_print_response_def put_print_response_def delete_print_response_def
  by (auto intro!: ensures_bindI tool_failed_response_status)
    (auto simp: list_print_response_def intro!: ensures_bindI split: mdata_response.split)

lemma tool_init_status:
  "(\<And>mdp. ensures (body mdp) tool_status_ok) \<Longrightarrow> ensures (tool_init mem env body) tool_status_ok"
  unfolding tool_init_def by (auto intro!: ensures_bindI)

lemma put_request_status:
  "put_request mem env argv req = Inr (Inl r) \<Longrightarrow> tool_status_ok r"
  by (auto simp: put_request_def bindr_eq_Inr_iff tool_fail_def tool_status_ok_def mdec_defs split: if_splits)

lemma tools_status:
  "ensures (mdata_get mem env argv) tool_status_ok" "ensures (mdata_put mem env argv) tool_status_ok"
  "ensures (mdata_list mem env) tool_status_ok" "ensures (mdata_delete mem env argv) tool_status_ok"
  unfolding mdata_get_def mdata_put_def mdata_list_def mdata_delete_def Let_def
  by (auto intro!: ensures_bindI tool_init_status print_response_status
      split: option.split sum.split)
    (erule put_request_status)

text \<open>What \<^verbatim>\<open>mdata-get\<close> prints for a value: the value, with a newline at its end.\<close>

definition shown_value :: "char list \<Rightarrow> char list" where
  "shown_value v = (if v \<noteq> [] \<and> last v = NL then v else v @ [NL])"

lemma get_print_response_success:
  assumes "dyn_is v data" "nul_free v"
  shows "get_print_response k MDR_SUCCESS data =
    Inr \<lparr>tr_out = shown_value v, tr_err = [], tr_code = MDEC_SUCCESS\<rparr>"
  using assms dyn_is_reads [OF assms(1)]
  by (cases v)
    (auto simp: get_print_response_def percent_s_dyn_def last_not_newline_def shown_value_def dyn_is_def)

text \<open>
  A machine with a working connection: in the global zone of a virtual machine, with a serial
  line that can be opened, locked, put into raw mode and flushed.
\<close>

definition serial_ok :: "init_env \<Rightarrow> int \<Rightarrow> bool" where
  "serial_ok e fd \<longleftrightarrow> ie_calloc e \<and> ie_port_create e \<noteq> -1 \<and> ie_global_zone e \<and>
     ie_product e = Some ''SmartDC HVM'' \<and> ie_open e = Inr fd \<and> ie_lock_ok e \<and> ie_tcget_ok e \<and>
     ie_tcset_ok e \<and> flush_serial (ie_flush e) = Inr 0"

lemma plat_init_serial:
  assumes "good_alloc mem" "serial_ok e fd" "ie_writes e = 1 # ws"
    and "ie_events e = line_events ''invalid command'' @ es"
  shows "plat_init mem e = Inr \<lparr>ir_ret = 0,
    ir_plat = Some \<lparr>mpl_port = ie_port_create e, mpl_conn = fd, mpl_events = es, mpl_writes = ws, mpl_sent = [NL]\<rparr>,
    ir_errmsg = None, ir_permfail = False, ir_closed = [], ir_leaked = []\<rparr>"
  using assms(2) plat_send_reset_ok [OF assms(1), of
      "\<lparr>mpl_port = ie_port_create e, mpl_conn = fd, mpl_events = ie_events e, mpl_writes = ie_writes e, mpl_sent = []\<rparr>"]
    assms(3,4)
  by (simp add: serial_ok_def plat_init_def open_md_gz_def unix_open_serial_def unix_raw_mode_def
      open_ok_def plat_wrapfd_def)

lemma proto_init_serial:
  assumes "good_alloc mem" "serial_ok e fd" "ie_writes e = 1 # 13 # ws"
    and "ie_events e = line_events ''invalid command'' @ line_events ''V2_OK'' @ es"
  shows "\<exists>mdp. proto_init mem ufd True rq (e # inits) rids = Inr (0, Some mdp, None) \<and>
    mdp_version mdp = MDPV_VERSION_2 \<and> mdp_state mdp = MDPS_READY \<and> mdp_command mdp = None \<and>
    mdp_reqid mdp = reqid_init ufd rq \<and> mdp_rids mdp = rids \<and> mdp_nrids mdp = 0 \<and>
    mdp_plat mdp = Some \<lparr>mpl_port = ie_port_create e, mpl_conn = fd, mpl_events = es, mpl_writes = ws,
      mpl_sent = [NL] @ ''NEGOTIATE V2'' @ [NL]\<rparr>"
proof -
  let ?z = "(proto_zero (reqid_init ufd rq) (e # inits) rids)\<lparr>mdp_in_reset := True, mdp_errmsg := None,
    mdp_plat := None, mdp_state := MDPS_READY, mdp_inits := inits\<rparr>"
  let ?p = "\<lparr>mpl_port = ie_port_create e, mpl_conn = fd, mpl_events = line_events ''V2_OK'' @ es,
    mpl_writes = 13 # ws, mpl_sent = [NL]\<rparr>"
  note init = plat_init_serial [OF assms(1-3,4)]
  have neg: "proto_negotiate mem (?z\<lparr>mdp_plat := Some ?p\<rparr>) = Inr (0, ?z\<lparr>mdp_version := MDPV_VERSION_2,
      mdp_plat := Some (?p\<lparr>mpl_writes := ws, mpl_sent := [NL] @ ''NEGOTIATE V2'' @ [NL], mpl_events := es\<rparr>)\<rparr>)"
    using proto_negotiate_header [OF assms(1), of "?z\<lparr>mdp_plat := Some ?p\<rparr>" ?p ws "''V2_OK''" es] by simp
  show ?thesis
    using neg by (simp add: proto_init_def proto_reset_def proto_zero_def init)
qed

section \<open>Properties\<close>


text \<open>The argument of the \<^verbatim>\<open>PUT\<close> command is the encoded key, a blank and the encoded value; the
  value is the second argument, or else the complete standard input, NUL bytes included.\<close>

theorem mdata_put_argument:
  assumes "good_alloc mem" "dynstr_rep req []"
    and "3 \<le> length argv \<or> \<not> te_interactive env \<and> \<not> te_stdin_error env"
  shows "returns (put_request mem env argv req) (\<lambda>rq. \<exists>s. rq = Inr s \<and>
    dynstr_cstr s = Inr (b64_spec (argv ! 1) @ '' '' @
      b64_spec (if 3 \<le> length argv then argv ! 2 else te_stdin env)))"
  by (rule returns_mono [OF put_request_returns [OF assms]])
    (auto simp: put_value_def b64_spec_nul_free dest!: dyn_is_reads(3))

definition tool_sample :: tool_env where
  "tool_sample = \<lparr>te_fd = -1, te_calloc = True, te_reqid = \<lparr>urandom_fd = -1, rq_seed = 1\<rparr>,
     te_inits = [init_sample\<lparr>ie_lock_ok := True,
       ie_writes := [1, 13, int (length (frame_line (frame_body ''00000000'' ''GET'' (Some ''k'')) @ [NL]))],
       ie_events := line_events ''invalid command'' @ line_events ''V2_OK'' @
         frame_events (''00000000'', ''SUCCESS'', Some ''v'')\<rparr>],
     te_rids = (\<lambda>_. \<lparr>env_urandom = None, env_left = 0, env_time = 0, env_rand = (\<lambda>_. 0)\<rparr>),
     te_interactive = False, te_stdin = [NUL, CHR ''x''], te_stdin_error = False, te_strerror = []\<rparr>"

theorem mdata_put_argument_witness:
  "returns (put_request heap_base tool_sample [''mdata-put'', ''k''] dynstr_empty)
     (\<lambda>rq. \<exists>s. rq = Inr s \<and> dynstr_cstr s = Inr (b64_spec ''k'' @ '' '' @ b64_spec [NUL, CHR ''x'']))"
  using mdata_put_argument [OF good_heap_base dynstr_empty_rep(1), of "[''mdata-put'', ''k'']" tool_sample]
  by (simp add: tool_sample_def)

text \<open>C3: A whole run of \<^verbatim>\<open>mdata-get\<close> on a virtual machine with a working serial line: the client
  resets the line, negotiates version 2, asks for the key, skips answers to other requests and
  prints exactly the value the host sent, ended by a newline.\<close>

theorem mdata_get_prints_value:
  assumes mem: "good_alloc mem" and heap: "te_calloc env" "te_inits env = e # inits"
    and line: "serial_ok e fd"
    and key: "nul_free key" "length key < 2 ^ 27"
    and rid: "rid = fst (reqid (reqid_init (te_fd env) (te_reqid env)) (te_rids env 0))"
    and out: "ie_writes e = 1 # 13 # int (length (frame_line (frame_body rid ''GET'' (Some key)) @ [NL])) # ws"
    and inp: "ie_events e = line_events ''invalid command'' @ line_events ''V2_OK'' @
        concat (map frame_events fs) @ frame_events (rid, ''SUCCESS'', Some v) @ es"
    and frames: "v2_frame_ok rid ''SUCCESS'' (Some v)"
      "\<forall>(r, c, p) \<in> set fs. v2_frame_ok r c p \<and> r \<noteq> rid"
  shows "mdata_get mem env [prog, key] =
    Inr \<lparr>tr_out = shown_value v, tr_err = [], tr_code = MDEC_SUCCESS\<rparr>"
proof -
  obtain mdp where m: "proto_init mem (te_fd env) True (te_reqid env) (e # inits) (te_rids env) =
      Inr (0, Some mdp, None)" "mdp_version mdp = MDPV_VERSION_2" "mdp_state mdp = MDPS_READY"
    "mdp_command mdp = None" "mdp_reqid mdp = reqid_init (te_fd env) (te_reqid env)"
    "mdp_rids mdp = te_rids env" "mdp_nrids mdp = 0"
    "mdp_plat mdp = Some \<lparr>mpl_port = ie_port_create e, mpl_conn = fd,
      mpl_events = concat (map frame_events fs) @ frame_events (rid, ''SUCCESS'', Some v) @ es,
      mpl_writes = int (length (frame_line (frame_body rid ''GET'' (Some key)) @ [NL])) # ws,
      mpl_sent = [NL] @ ''NEGOTIATE V2'' @ [NL]\<rparr>"
    using proto_init_serial [OF mem line out inp] by blast
  have arg: "arg_ok (Some key)" using key by (simp add: arg_ok_def)
  have nf: "nul_free v" using frames(1) by (simp add: v2_frame_ok_def arg_ok_def)
  have rid': "rid = fst (reqid (mdp_reqid mdp) (mdp_rids mdp (mdp_nrids mdp)))" using rid m(5-7) by simp
  obtain d m' where ex: "proto_execute mem mdp ''GET'' (Some key) = Inr (Some (MDR_SUCCESS, d), m')" "dyn_is v d"
    using returnsD [OF proto_execute_v2_delivers [where command = "''GET''" and ws = ws and es = es,
        OF mem m(4,8,3,2) _ _ arg rid' refl _ _ frames]]
    by (auto simp: v2_code_def)
  have dup: "strdup mem key = Some key"
    using good_allocD [OF mem, of "length key + 1"] by (auto simp: strdup_def)
  show ?thesis
    using get_print_response_success [OF ex(2) nf]
    by (simp add: mdata_get_def tool_init_def heap m(1) dup ex(1))
qed

theorem mdata_get_prints_value_witness:
  "mdata_get heap_base tool_sample [''mdata-get'', ''k''] =
   Inr \<lparr>tr_out = ''v'' @ [NL], tr_err = [], tr_code = 0\<rparr>"
  by (subst mdata_get_prints_value [where rid = "''00000000''" and v = "''v''" and fs = "[]" and es = "[]"
        and ws = "[]" and fd = 7 and inits = "[]", OF good_heap_base _ _ _ _ _ _ _ _ sample_answer_ok])
    (auto simp: tool_sample_def init_sample_def serial_ok_def sample_rid reqid_init_def shown_value_def mdec_defs)


end
