(* ===== verification/Nvpair.thy ===== *)
theory Nvpair
  imports Cmodel_Prelude
begin

text \<open>
  The interface of the name-value pair library (\<^verbatim>\<open>libnvpair\<close>), which the repository only
  calls: the operations the JSON parser uses are the record \<^verbatim>\<open>nv_ops\<close> over an abstract memory of
  lists, and the promises of the manual pages are the locale \<^verbatim>\<open>nvpair_library\<close>, stated over the
  tree of pairs a list holds. Lists are \<^verbatim>\<open>NV_UNIQUE_NAME\<close>: adding a pair replaces the pairs of
  the same name. A pointer to a list embedded in another one is the path of names from its root.
\<close>

section \<open>Operations\<close>

text \<open>
  A failing call is \<open>Inl\<close> of the value \<^verbatim>\<open>errno\<close> has afterwards (\<open>None\<close> for 0): the functions
  return their error and do not promise to set \<^verbatim>\<open>errno\<close>.
\<close>

type_synonym 'a nv_result = "errno option + 'a"

text \<open>
  A pair met while walking a list is its position; \<^verbatim>\<open>nvpair_is_nvlist\<close> is the test of
  \<^verbatim>\<open>nvpair_type\<close> against \<^verbatim>\<open>DATA_TYPE_NVLIST\<close>.
\<close>

record ('h, 'p) nv_ops =
  nvlist_alloc :: "'h \<Rightarrow> 'p nv_result \<times> 'h"
  nvlist_free :: "'h \<Rightarrow> 'p \<Rightarrow> 'h"
  nvlist_add_string :: "'h \<Rightarrow> 'p \<Rightarrow> char list \<Rightarrow> char list \<Rightarrow> unit nv_result \<times> 'h"
  nvlist_add_boolean_value :: "'h \<Rightarrow> 'p \<Rightarrow> char list \<Rightarrow> bool \<Rightarrow> unit nv_result \<times> 'h"
  nvlist_add_boolean :: "'h \<Rightarrow> 'p \<Rightarrow> char list \<Rightarrow> unit nv_result \<times> 'h"
  nvlist_add_int32 :: "'h \<Rightarrow> 'p \<Rightarrow> char list \<Rightarrow> int \<Rightarrow> unit nv_result \<times> 'h"
  nvlist_add_uint32 :: "'h \<Rightarrow> 'p \<Rightarrow> char list \<Rightarrow> 32 word \<Rightarrow> unit nv_result \<times> 'h"
  nvlist_add_nvlist :: "'h \<Rightarrow> 'p \<Rightarrow> char list \<Rightarrow> 'p \<Rightarrow> unit nv_result \<times> 'h"
  nvlist_lookup_nvlist :: "'h \<Rightarrow> 'p \<Rightarrow> char list \<Rightarrow> 'p nv_result"
  nvlist_lookup_uint32 :: "'h \<Rightarrow> 'p \<Rightarrow> char list \<Rightarrow> 32 word nv_result"
  nvlist_lookup_string :: "'h \<Rightarrow> 'p \<Rightarrow> char list \<Rightarrow> char list nv_result"
  nvlist_lookup_boolean_value :: "'h \<Rightarrow> 'p \<Rightarrow> char list \<Rightarrow> bool nv_result"
  nvlist_next_nvpair :: "'h \<Rightarrow> 'p \<Rightarrow> nat option \<Rightarrow> nat option"
  nvpair_is_nvlist :: "'h \<Rightarrow> 'p \<Rightarrow> nat \<Rightarrow> bool"
  nvpair_value_nvlist :: "'h \<Rightarrow> 'p \<Rightarrow> nat \<Rightarrow> 'p nv_result"

section \<open>Trees of pairs\<close>

datatype nvval =
    NV_boolean
  | NV_boolean_value bool
  | NV_int32 int
  | NV_uint32 "32 word"
  | NV_string "char list"
  | NV_nvlist "(char list \<times> nvval) list"

type_synonym nvpairs = "(char list \<times> nvval) list"

definition nv_put :: "char list \<Rightarrow> nvval \<Rightarrow> nvpairs \<Rightarrow> nvpairs" where
  "nv_put k v ps = filter (\<lambda>p. fst p \<noteq> k) ps @ [(k, v)]"

text \<open>The list at a path of names, and an update of it in place.\<close>

fun sub_at :: "char list list \<Rightarrow> nvpairs \<Rightarrow> nvpairs option" where
  "sub_at [] ps = Some ps"
| "sub_at (k # ks) ps =
     (case map_of ps k of Some (NV_nvlist qs) \<Rightarrow> sub_at ks qs | _ \<Rightarrow> None)"

fun upd_at :: "char list list \<Rightarrow> (nvpairs \<Rightarrow> nvpairs) \<Rightarrow> nvpairs \<Rightarrow> nvpairs" where
  "upd_at [] f ps = f ps"
| "upd_at (k # ks) f ps =
     map (\<lambda>(k', v). (k', if k' = k then (case v of NV_nvlist qs \<Rightarrow> NV_nvlist (upd_at ks f qs) | _ \<Rightarrow> v) else v)) ps"

lemma map_of_map_snd:
  "map_of (map (\<lambda>(k', v). (k', f k' v)) ps) k = map_option (f k) (map_of ps k)"
  by (induction ps) auto

lemma sub_at_upd_same: "sub_at path ps = Some qs \<Longrightarrow> sub_at path (upd_at path f ps) = Some (f qs)"
proof (induction path arbitrary: ps)
  case (Cons k ks)
  then show ?case
    by (auto simp: map_of_map_snd split: option.splits nvval.splits)
qed simp

lemma sub_at_append: "sub_at (p @ q) ps = (case sub_at p ps of None \<Rightarrow> None | Some qs \<Rightarrow> sub_at q qs)"
  by (induction p arbitrary: ps) (auto split: option.splits nvval.splits)

lemma sub_at_upd_prefix:
  "sub_at (p @ q) ps \<noteq> None \<Longrightarrow> sub_at p (upd_at (p @ q) f ps) \<noteq> None"
proof (induction p arbitrary: ps)
  case (Cons k ks)
  then show ?case by (auto simp: map_of_map_snd split: option.splits nvval.splits)
qed simp

lemma map_of_nv_put: "map_of (nv_put k v ps) k' = (if k' = k then Some v else map_of ps k')"
  by (induction ps) (auto simp: nv_put_def)

lemma upd_at_nop: "\<forall>p \<in> set ps. fst p \<noteq> k \<Longrightarrow> upd_at (k # ks) f ps = ps"
  by (induction ps) auto

lemma upd_at_nv_put: "upd_at (k # ks) f (nv_put k (NV_nvlist qs) ps) = nv_put k (NV_nvlist (upd_at ks f qs)) ps"
  using upd_at_nop [of "filter (\<lambda>p. fst p \<noteq> k) ps" k ks f] by (simp add: nv_put_def)

lemma upd_at_upd_at: "upd_at path f (upd_at path g ps) = upd_at path (\<lambda>qs. f (g qs)) ps"
  by (induction path arbitrary: ps) (auto split: nvval.split)

lemma upd_at_append: "upd_at (p @ q) f ps = upd_at p (upd_at q f) ps"
  by (induction p arbitrary: ps) (auto split: nvval.split)

text \<open>Filling a list just put under a name is putting the filled list.\<close>

lemma upd_at_fill:
  "upd_at (path @ [k]) f (upd_at path (nv_put k (NV_nvlist qs)) ps) = upd_at path (nv_put k (NV_nvlist (f qs))) ps"
  by (simp add: upd_at_append upd_at_upd_at upd_at_nv_put del: upd_at.simps(2))

section \<open>What the library promises\<close>

text \<open>
  \<open>at h r path p\<close>: in the memory \<open>h\<close>, \<open>r\<close> is a list of its own and \<open>p\<close> the pointer to the list
  embedded in it at \<open>path\<close>; \<open>tree h r\<close> is the contents of \<open>r\<close>. Given memory, adding a pair to a
  list succeeds and changes that place of the tree only; pointers to the lists around it stay
  good. \<^verbatim>\<open>nvlist_add_nvlist\<close> copies the list it is given.
\<close>

definition adds ::
    "('h \<Rightarrow> 'p \<Rightarrow> char list list \<Rightarrow> 'p \<Rightarrow> bool) \<Rightarrow> ('h \<Rightarrow> 'p \<Rightarrow> nvpairs) \<Rightarrow> 'h \<Rightarrow> 'p \<Rightarrow> char list list
     \<Rightarrow> char list \<Rightarrow> nvval \<Rightarrow> unit nv_result \<times> 'h \<Rightarrow> bool" where
  "adds at tree h r path k v res \<longleftrightarrow> fst res = Inr () \<and>
     tree (snd res) r = upd_at path (nv_put k v) (tree h r) \<and>
     (\<forall>p q q'. path = p @ q \<longrightarrow> at h r p q' \<longrightarrow> at (snd res) r p q')"

locale nvpair_library =
  fixes N :: "('h, 'p) nv_ops" and at :: "'h \<Rightarrow> 'p \<Rightarrow> char list list \<Rightarrow> 'p \<Rightarrow> bool"
    and tree :: "'h \<Rightarrow> 'p \<Rightarrow> nvpairs"
  assumes alloc: "\<exists>p h'. nvlist_alloc N h = (Inr p, h') \<and> at h' p [] p \<and> tree h' p = [] \<and>
      (\<forall>r path q. at h r path q \<longrightarrow> r \<noteq> p \<and> at h' r path q \<and> tree h' r = tree h r)"
    and free: "at h r path q \<Longrightarrow> r \<noteq> e \<Longrightarrow> at (nvlist_free N h e) r path q \<and> tree (nvlist_free N h e) r = tree h r"
    and place: "at h r path p \<Longrightarrow> sub_at path (tree h r) \<noteq> None"
    and add_string: "at h r path p \<Longrightarrow> adds at tree h r path k (NV_string s) (nvlist_add_string N h p k s)"
    and add_boolean_value: "at h r path p \<Longrightarrow>
      adds at tree h r path k (NV_boolean_value b) (nvlist_add_boolean_value N h p k b)"
    and add_boolean: "at h r path p \<Longrightarrow> adds at tree h r path k NV_boolean (nvlist_add_boolean N h p k)"
    and add_int32: "at h r path p \<Longrightarrow> adds at tree h r path k (NV_int32 i) (nvlist_add_int32 N h p k i)"
    and add_uint32: "at h r path p \<Longrightarrow> adds at tree h r path k (NV_uint32 u) (nvlist_add_uint32 N h p k u)"
    and add_nvlist: "at h r path p \<Longrightarrow> at h e [] e \<Longrightarrow> r \<noteq> e \<Longrightarrow>
      adds at tree h r path k (NV_nvlist (tree h e)) (nvlist_add_nvlist N h p k e)"
    and lookup: "at h r path p \<Longrightarrow> sub_at (path @ [k]) (tree h r) \<noteq> None \<Longrightarrow>
      \<exists>q. nvlist_lookup_nvlist N h p k = Inr q \<and> at h r (path @ [k]) q"
    and lookup_uint32: "at h r path p \<Longrightarrow> sub_at path (tree h r) = Some ps \<Longrightarrow> map_of ps k = Some (NV_uint32 u) \<Longrightarrow>
      nvlist_lookup_uint32 N h p k = Inr u"
    and lookup_string: "at h r path p \<Longrightarrow> sub_at path (tree h r) = Some ps \<Longrightarrow> map_of ps k = Some (NV_string s) \<Longrightarrow>
      nvlist_lookup_string N h p k = Inr s"

text \<open>\<open>p\<close> points to a list of the pairs \<open>ps\<close>.\<close>

definition views :: "('h \<Rightarrow> 'p \<Rightarrow> char list list \<Rightarrow> 'p \<Rightarrow> bool) \<Rightarrow> ('h \<Rightarrow> 'p \<Rightarrow> nvpairs) \<Rightarrow> 'h \<Rightarrow> 'p \<Rightarrow> nvpairs \<Rightarrow> bool" where
  "views at tree h p ps \<longleftrightarrow> (\<exists>r path. at h r path p \<and> sub_at path (tree h r) = Some ps)"

text \<open>What readers of a list need beyond that: a lookup fails if there is no such pair of the type asked
  for, and the walk visits the pairs in their order.\<close>

locale nvpair_reader = nvpair_library +
  assumes string_value: "views at tree h p ps \<Longrightarrow>
      (case map_of ps k of Some (NV_string s) \<Rightarrow> nvlist_lookup_string N h p k = Inr s | _ \<Rightarrow> \<exists>e. nvlist_lookup_string N h p k = Inl e)"
    and boolean_value: "views at tree h p ps \<Longrightarrow>
      (case map_of ps k of Some (NV_boolean_value b) \<Rightarrow> nvlist_lookup_boolean_value N h p k = Inr b
       | _ \<Rightarrow> \<exists>e. nvlist_lookup_boolean_value N h p k = Inl e)"
    and nvlist_value: "views at tree h p ps \<Longrightarrow>
      (case map_of ps k of Some (NV_nvlist qs) \<Rightarrow> \<exists>q. nvlist_lookup_nvlist N h p k = Inr q \<and> views at tree h q qs
       | _ \<Rightarrow> \<exists>e. nvlist_lookup_nvlist N h p k = Inl e)"
    and walk: "views at tree h p ps \<Longrightarrow>
      nvlist_next_nvpair N h p i = (let j = (case i of None \<Rightarrow> 0 | Some j \<Rightarrow> j + 1) in if j < length ps then Some j else None)"
    and walk_value: "views at tree h p ps \<Longrightarrow> distinct (map fst ps) \<Longrightarrow> j < length ps \<Longrightarrow>
      (case snd (ps ! j) of
         NV_nvlist qs \<Rightarrow> nvpair_is_nvlist N h p j \<and> (\<exists>q. nvpair_value_nvlist N h p j = Inr q \<and> views at tree h q qs)
       | _ \<Rightarrow> \<not> nvpair_is_nvlist N h p j)"

section \<open>An instance\<close>

text \<open>The memory as the trees by number and the next free number, a pointer as a number and a path.\<close>

type_synonym tree_heap = "nat \<times> (nat \<Rightarrow> nvpairs)"

definition tree_add :: "tree_heap \<Rightarrow> nat \<times> char list list \<Rightarrow> char list \<Rightarrow> nvval \<Rightarrow> unit nv_result \<times> tree_heap" where
  "tree_add h p k v = (Inr (), (fst h, (snd h)(fst p := upd_at (snd p) (nv_put k v) (snd h (fst p)))))"

definition tree_get :: "tree_heap \<Rightarrow> nat \<times> char list list \<Rightarrow> nvpairs" where
  "tree_get h p = (case sub_at (snd p) (snd h (fst p)) of None \<Rightarrow> [] | Some ps \<Rightarrow> ps)"

definition tree_nv :: "(tree_heap, nat \<times> char list list) nv_ops" where
  "tree_nv = \<lparr>
     nvlist_alloc = (\<lambda>h. (Inr (fst h, []), (fst h + 1, (snd h)(fst h := [])))),
     nvlist_free = (\<lambda>h p. if snd p = [] then (fst h, (snd h)(fst p := [])) else h),
     nvlist_add_string = (\<lambda>h p k s. tree_add h p k (NV_string s)),
     nvlist_add_boolean_value = (\<lambda>h p k b. tree_add h p k (NV_boolean_value b)),
     nvlist_add_boolean = (\<lambda>h p k. tree_add h p k NV_boolean),
     nvlist_add_int32 = (\<lambda>h p k i. tree_add h p k (NV_int32 i)),
     nvlist_add_uint32 = (\<lambda>h p k u. tree_add h p k (NV_uint32 u)),
     nvlist_add_nvlist = (\<lambda>h p k e. tree_add h p k (NV_nvlist (tree_get h e))),
     nvlist_lookup_nvlist = (\<lambda>h p k.
       case sub_at (snd p @ [k]) (snd h (fst p)) of
         None \<Rightarrow> Inl (Some ENOENT) | Some _ \<Rightarrow> Inr (fst p, snd p @ [k])),
     nvlist_lookup_uint32 = (\<lambda>h p k.
       case map_of (tree_get h p) k of Some (NV_uint32 u) \<Rightarrow> Inr u | _ \<Rightarrow> Inl (Some ENOENT)),
     nvlist_lookup_string = (\<lambda>h p k.
       case map_of (tree_get h p) k of Some (NV_string s) \<Rightarrow> Inr s | _ \<Rightarrow> Inl (Some ENOENT)),
     nvlist_lookup_boolean_value = (\<lambda>h p k.
       case map_of (tree_get h p) k of Some (NV_boolean_value b) \<Rightarrow> Inr b | _ \<Rightarrow> Inl (Some ENOENT)),
     nvlist_next_nvpair = (\<lambda>h p i.
       let j = (case i of None \<Rightarrow> 0 | Some j \<Rightarrow> j + 1) in if j < length (tree_get h p) then Some j else None),
     nvpair_is_nvlist = (\<lambda>h p j. case snd (tree_get h p ! j) of NV_nvlist _ \<Rightarrow> True | _ \<Rightarrow> False),
     nvpair_value_nvlist = (\<lambda>h p j. Inr (fst p, snd p @ [fst (tree_get h p ! j)]))\<rparr>"

definition tree_at :: "tree_heap \<Rightarrow> nat \<times> char list list \<Rightarrow> char list list \<Rightarrow> nat \<times> char list list \<Rightarrow> bool" where
  "tree_at h r path p \<longleftrightarrow> snd r = [] \<and> fst r < fst h \<and> p = (fst r, path) \<and> sub_at path (snd h (fst r)) \<noteq> None"

lemma tree_add_adds:
  "tree_at h r path p \<Longrightarrow> adds tree_at tree_get h r path k v (tree_add h p k v)"
proof -
  assume a: "tree_at h r path p"
  then have p: "p = (fst r, path)" "snd r = []" "fst r < fst h" "sub_at path (snd h (fst r)) \<noteq> None"
    by (auto simp: tree_at_def)
  have "tree_at (snd (tree_add h p k v)) r pa q'" if "path = pa @ q" "tree_at h r pa q'" for pa q q'
    using that p sub_at_upd_prefix [of pa q "snd h (fst r)" "nv_put k v"]
    by (auto simp: tree_at_def tree_add_def)
  moreover have "tree_get (snd (tree_add h p k v)) r = upd_at path (nv_put k v) (tree_get h r)"
    using p by (simp add: tree_get_def tree_add_def)
  ultimately show ?thesis by (simp add: adds_def tree_add_def)
qed

interpretation tnv: nvpair_library tree_nv tree_at tree_get
proof (unfold_locales, goal_cases)
  case (1 h)
  then show ?case by (auto simp: tree_nv_def tree_at_def tree_get_def)
next
  case (2 h r path q e)
  then show ?case by (cases r; cases e) (auto simp: tree_nv_def tree_at_def tree_get_def)
next
  case (3 h r path p)
  then show ?case by (auto simp: tree_at_def tree_get_def)
next
  case (10 h r path p k)
  then show ?case by (auto simp: tree_nv_def tree_at_def tree_get_def)
next
  case (11 h r path p ps k u)
  then show ?case by (auto simp: tree_nv_def tree_at_def tree_get_def)
next
  case (12 h r path p ps k s)
  then show ?case by (auto simp: tree_nv_def tree_at_def tree_get_def)
qed (simp_all add: tree_nv_def tree_add_adds)

lemma tree_views: "views tree_at tree_get h p ps \<Longrightarrow> tree_get h p = ps \<and> sub_at (snd p) (snd h (fst p)) = Some ps \<and> fst p < fst h"
  by (auto simp: views_def tree_at_def tree_get_def)

lemma tree_views_sub:
  "views tree_at tree_get h p ps \<Longrightarrow> map_of ps k = Some (NV_nvlist qs) \<Longrightarrow> views tree_at tree_get h (fst p, snd p @ [k]) qs"
proof -
  assume a: "views tree_at tree_get h p ps" "map_of ps k = Some (NV_nvlist qs)"
  note p = tree_views [OF a(1)]
  have "sub_at (snd p @ [k]) (snd h (fst p)) = Some qs" using p a(2) by (simp add: sub_at_append)
  then show ?thesis
    using p unfolding views_def
    by (intro exI [of _ "(fst p, [])"] exI [of _ "snd p @ [k]"]) (simp add: tree_at_def tree_get_def)
qed

interpretation trd: nvpair_reader tree_nv tree_at tree_get
proof (unfold_locales, goal_cases)
  case (3 h p ps k)
  note v = tree_views [OF 3] tree_views_sub [OF 3, of k]
  show ?case using v by (auto simp: tree_nv_def sub_at_append split: option.splits nvval.splits)
next
  case (5 h p ps j)
  note v = tree_views [OF 5(1)]
  have m: "map_of ps (fst (ps ! j)) = Some (snd (ps ! j))" using 5(2,3) by (simp add: map_of_eq_Some_iff)
  show ?case using v tree_views_sub [OF 5(1)] m by (auto simp: tree_nv_def split: nvval.split)
qed (auto dest!: tree_views simp: tree_nv_def split: option.splits nvval.splits)

end
