(* ===== verification/Json_Nvlist.thy ===== *)
theory Json_Nvlist
  imports Custr Libc_Numbers Nvpair
begin

text \<open>
  \<^verbatim>\<open>src/src/dockerinit/json-nvlist/json-nvlist.c\<close>: the pushdown parser that turns JSON text
  into name-value lists. A frame of the parser's stack is the record \<open>parse_frame\<close>, the linked stack
  a list with the top frame first; \<open>pf_value\<close> is the \<^verbatim>\<open>void *\<close> of the source, which holds a
  string, an integer or a truth value (the null pointer is the 64-bit value 0). The library behind the
  lists is the parameter \<open>N\<close> with its memory in \<open>s_nv\<close>. The debug output is not modelled.
\<close>

section \<open>State\<close>

datatype json_type =
    JSON_TYPE_NOTHING | JSON_TYPE_STRING | JSON_TYPE_INTEGER | JSON_TYPE_DOUBLE | JSON_TYPE_BOOLEAN
  | JSON_TYPE_NULL | JSON_TYPE_OBJECT | JSON_TYPE_ARRAY

datatype json_state =
    PARSE_ERROR | PARSE_DONE | PARSE_REST | PARSE_OBJECT | PARSE_KEY_STRING | PARSE_COLON | PARSE_STRING
  | PARSE_OBJECT_COMMA | PARSE_ARRAY | PARSE_BAREWORD | PARSE_NUMBER | PARSE_ARRAY_VALUE | PARSE_ARRAY_COMMA

datatype pf_value = PV_bits "64 word" | PV_str "char list"

abbreviation PV_NULL :: pf_value where
  "PV_NULL \<equiv> PV_bits 0"

record 'p parse_frame =
  pf_ps :: json_state
  pf_nvl :: "'p option"
  pf_key :: "char list option"
  pf_value :: pf_value
  pf_value_type :: json_type
  pf_array_index :: int

definition NVJSON_FORCE_INTEGER :: "32 word" where
  "NVJSON_FORCE_INTEGER = 0x01"

definition NVJSON_FORCE_DOUBLE :: "32 word" where
  "NVJSON_FORCE_DOUBLE = 0x02"

definition NVJSON_ALL :: "32 word" where
  "NVJSON_ALL = 0x0f"

record ('h, 'p) jstate =
  s_in :: "char list"
  s_pos :: nat
  s_len :: nat
  s_top :: "'p parse_frame list"
  s_flags :: "32 word"
  s_collect :: custr
  s_errno :: "errno option"
  s_errstr :: "custr option"
  s_nv :: 'h

text \<open>A frame from \<^verbatim>\<open>calloc\<close> with its state set.\<close>

definition frame_new :: "json_state \<Rightarrow> 'p parse_frame" where
  "frame_new ps = \<lparr>pf_ps = ps, pf_nvl = None, pf_key = None, pf_value = PV_NULL,
     pf_value_type = JSON_TYPE_NOTHING, pf_array_index = 0\<rparr>"

text \<open>An update of the top frame; without one the null pointer is dereferenced.\<close>

definition top_upd ::
    "('p parse_frame \<Rightarrow> 'p parse_frame) \<Rightarrow> ('h, 'p) jstate \<Rightarrow> ('h, 'p) jstate outcome" where
  "top_upd f s = (case s_top s of [] \<Rightarrow> Inl Fault_Null | fr # frs \<Rightarrow> Inr (s\<lparr>s_top := f fr # frs\<rparr>))"

lemma top_upd_eq_Inr_iff:
  "top_upd f s = Inr s' \<longleftrightarrow> (\<exists>fr frs. s_top s = fr # frs \<and> s' = s\<lparr>s_top := f fr # frs\<rparr>)"
  by (auto simp: top_upd_def split: list.splits)

lemma case_cret_eq_Inr_iff:
  "(case r of Ret_ok \<Rightarrow> m | Ret_err e \<Rightarrow> f e) = Inr x \<longleftrightarrow> (r = Ret_ok \<and> m = Inr x) \<or> (\<exists>e. r = Ret_err e \<and> f e = Inr x)"
  by (cases r) auto

definition movestate :: "('h, 'p) jstate \<Rightarrow> json_state \<Rightarrow> ('h, 'p) jstate outcome" where
  "movestate s ps = top_upd (\<lambda>fr. fr\<lparr>pf_ps := ps\<rparr>) s"

definition posterror ::
    "allocator \<Rightarrow> ('h, 'p) jstate \<Rightarrow> errno option \<Rightarrow> char list \<Rightarrow> ('h, 'p) jstate outcome" where
  "posterror mem s erno error =
     bindr (case s_errstr s of
              None \<Rightarrow> Inr (s\<lparr>s_errno := erno\<rparr>)
            | Some cu \<Rightarrow>
                bindr (custr_append mem cu error) (\<lambda>(_, cu).
                Inr (s\<lparr>s_errno := erno, s_errstr := Some cu\<rparr>)))
       (\<lambda>s. movestate s PARSE_ERROR)"

text \<open>
  The functions that return 0 or -1 return \<open>True\<close> or \<open>False\<close> with the state; \<open>failwith\<close> is the
  idiom \<^verbatim>\<open>posterror(...); return (-1);\<close>. A frame takes 56 bytes.
\<close>

definition failwith ::
    "allocator \<Rightarrow> ('h, 'p) jstate \<Rightarrow> errno option \<Rightarrow> char list \<Rightarrow> (bool \<times> ('h, 'p) jstate) outcome" where
  "failwith mem s erno error = bindr (posterror mem s erno error) (\<lambda>s. Inr (False, s))"

definition pushstate ::
    "allocator \<Rightarrow> ('h, 'p) jstate \<Rightarrow> json_state \<Rightarrow> json_state \<Rightarrow> ('h, 'p) jstate outcome" where
  "pushstate mem s ps retps =
     (case mem 56 of
        None \<Rightarrow> posterror mem s (Some ENOMEM) ''pushstate calloc failure''
      | Some _ \<Rightarrow>
          bindr (movestate s retps) (\<lambda>s.
          Inr (s\<lparr>s_top := (frame_new ps) # s_top s\<rparr>)))"

section \<open>Reading characters\<close>

definition popchar :: "('h, 'p) jstate \<Rightarrow> (char \<times> ('h, 'p) jstate) outcome" where
  "popchar s =
     (if s_len s < s_pos s then Inr (NUL, s)
      else if s_pos s < length (s_in s) then Inr (s_in s ! s_pos s, s\<lparr>s_pos := s_pos s + 1\<rparr>)
      else Inl Fault_OOB)"

definition peekchar :: "('h, 'p) jstate \<Rightarrow> char outcome" where
  "peekchar s =
     (if s_len s < s_pos s then Inr NUL
      else if s_pos s < length (s_in s) then Inr (s_in s ! s_pos s)
      else Inl Fault_OOB)"

abbreviation chars_left :: "('h, 'p) jstate \<Rightarrow> nat" where
  "chars_left s \<equiv> s_len s + 1 - s_pos s"

lemma popchar_less:
  "popchar s = Inr (c, s') \<Longrightarrow> c \<noteq> NUL \<Longrightarrow> chars_left s' < chars_left s"
  by (auto simp: popchar_def split: if_splits)

lemma peekchar_popchar:
  "peekchar s = Inr c \<Longrightarrow> c \<noteq> NUL \<Longrightarrow> popchar s = Inr (d, s') \<Longrightarrow> d = c \<and> chars_left s' < chars_left s"
  by (auto simp: popchar_def peekchar_def split: if_splits)

lemma class_NUL [simp]: "\<not> isspace NUL" "\<not> islower NUL" "\<not> isdigit NUL"
  by (simp_all add: isspace_def islower_def isdigit_def)

function discard_whitespace :: "('h, 'p) jstate \<Rightarrow> ('h, 'p) jstate outcome" where
  "discard_whitespace s =
     bindr (peekchar s) (\<lambda>c.
       if isspace c then bindr (popchar s) (\<lambda>(_, s). discard_whitespace s) else Inr s)"
  by pat_completeness auto
termination
proof (relation "measure chars_left", goal_cases)
  case (2 s c z d s')
  moreover have "c \<noteq> NUL" using 2 by auto
  ultimately show ?case using peekchar_popchar by auto
qed simp

declare discard_whitespace.simps [simp del]

section \<open>Strings, words and numbers\<close>

definition escape_pairs :: "(char \<times> char) list" where
  "escape_pairs =
     [(CHR 0x22, CHR 0x22), (CHR 0x5C, CHR 0x5C), (CHR ''/'', CHR ''/''), (CHR ''b'', CHR 0x08),
      (CHR ''f'', CHR 0x0C), (CHR ''n'', CHR 0x0A), (CHR ''r'', CHR 0x0D), (CHR ''t'', CHR 0x09)]"

text \<open>The four characters of a Unicode escape; \<open>None\<close> when the text ends before them.\<close>

fun pop_digits :: "nat \<Rightarrow> ('h, 'p) jstate \<Rightarrow> (char list option \<times> ('h, 'p) jstate) outcome" where
  "pop_digits 0 s = Inr (Some [], s)"
| "pop_digits (Suc n) s =
     bindr (popchar s) (\<lambda>(c, s).
       if c = NUL then Inr (None, s)
       else bindr (pop_digits n s) (\<lambda>(ds, s). Inr (map_option (Cons c) ds, s)))"

text \<open>Append a character to the collect buffer, or report why that failed.\<close>

definition collect_char ::
    "allocator \<Rightarrow> ('h, 'p) jstate \<Rightarrow> char \<Rightarrow> char list \<Rightarrow> (bool \<times> ('h, 'p) jstate) outcome" where
  "collect_char mem s c msg =
     bindr (custr_appendc mem (s_collect s) c) (\<lambda>(r, cu).
       case r of
         Ret_ok \<Rightarrow> Inr (True, s\<lparr>s_collect := cu\<rparr>)
       | Ret_err e \<Rightarrow> failwith mem (s\<lparr>s_collect := cu\<rparr>) (Some e) msg)"

text \<open>An \<^verbatim>\<open>int\<close> passed as a \<^verbatim>\<open>char\<close>.\<close>

definition char_of_int :: "int \<Rightarrow> char" where
  "char_of_int i = char_of (nat (i mod 256))"

definition collect_string_escape ::
    "allocator \<Rightarrow> ('h, 'p) jstate \<Rightarrow> (bool \<times> ('h, 'p) jstate) outcome" where
  "collect_string_escape mem s =
     bindr (popchar s) (\<lambda>(c, s).
       if c = NUL then failwith mem s (Some EPROTO) ''EOF mid-escape sequence''
       else if c = CHR ''u''
       then bindr (pop_digits 4 s) (\<lambda>(digs, s).
              case digs of
                None \<Rightarrow> failwith mem s (Some EPROTO) ''EOF mid-escape sequence''
              | Some digs \<Rightarrow>
                  if 127 < atoi digs then failwith mem s (Some EPROTO) ''unicode escape above 0x7f''
                  else collect_char mem s (char_of_int (atoi digs)) ''custr_appendc failure'')
       else (case map_of escape_pairs c of
               Some d \<Rightarrow> collect_char mem s d ''custr_appendc failure''
             | None \<Rightarrow> failwith mem s (Some EPROTO) ''unrecognised escape sequence''))"

lemma posterror_chars_left: "posterror mem s e msg = Inr s' \<Longrightarrow> chars_left s' = chars_left s"
  by (auto simp: posterror_def movestate_def top_upd_eq_Inr_iff bindr_eq_Inr_iff split: option.splits)

lemma collect_char_chars_left: "collect_char mem s c msg = Inr (r, s') \<Longrightarrow> chars_left s' = chars_left s"
  by (auto simp: collect_char_def failwith_def bindr_eq_Inr_iff case_cret_eq_Inr_iff dest!: posterror_chars_left)

lemma pop_digits_chars_left: "pop_digits n s = Inr (ds, s') \<Longrightarrow> chars_left s' \<le> chars_left s"
proof (induction n arbitrary: s ds)
  case (Suc n)
  have pop: "popchar s = Inr (c, t) \<Longrightarrow> chars_left t \<le> chars_left s" for c t
    by (auto simp: popchar_def split: if_splits)
  show ?case using Suc by (fastforce simp: bindr_eq_Inr_iff dest!: pop split: if_splits)
qed simp

lemma collect_string_escape_less:
  "collect_string_escape mem s = Inr (True, s') \<Longrightarrow> chars_left s' < chars_left s"
  by (auto simp: collect_string_escape_def failwith_def bindr_eq_Inr_iff
      split: if_splits option.splits dest!: popchar_less collect_char_chars_left pop_digits_chars_left)

function collect_string_loop ::
    "allocator \<Rightarrow> ('h, 'p) jstate \<Rightarrow> (bool \<times> ('h, 'p) jstate) outcome" where
  "collect_string_loop mem s =
     bindr (popchar s) (\<lambda>(c, s).
       if c = CHR 0x22 then Inr (True, s)
       else if c = NUL then failwith mem s (Some EPROTO) ''EOF mid-string''
       else if c = CHR 0x5C
       then bindr (collect_string_escape mem s) (\<lambda>(ok, s).
              if ok then collect_string_loop mem s else Inr (False, s))
       else bindr (collect_char mem s c ''custr_appendc failure'') (\<lambda>(ok, s).
              if ok then collect_string_loop mem s else Inr (False, s)))"
  by pat_completeness auto
termination
  by (relation "measure (\<lambda>(mem, s). chars_left s)")
    (auto dest!: popchar_less collect_string_escape_less collect_char_chars_left)

declare collect_string_loop.simps [simp del]

definition collect_reset :: "('h, 'p) jstate \<Rightarrow> ('h, 'p) jstate outcome" where
  "collect_reset s = bindr (custr_reset (s_collect s)) (\<lambda>cu. Inr (s\<lparr>s_collect := cu\<rparr>))"

definition collect_string :: "allocator \<Rightarrow> ('h, 'p) jstate \<Rightarrow> (bool \<times> ('h, 'p) jstate) outcome" where
  "collect_string mem s = bindr (collect_reset s) (\<lambda>s. collect_string_loop mem s)"

text \<open>
  The loop of words and numbers: take characters of a class \<open>P\<close>, which never contains the null
  character the end of the text is read as.
\<close>

function collect_class ::
    "allocator \<Rightarrow> (char \<Rightarrow> bool) \<Rightarrow> char list \<Rightarrow> ('h, 'p) jstate \<Rightarrow> (bool \<times> ('h, 'p) jstate) outcome" where
  "collect_class mem P msg s =
     bindr (peekchar s) (\<lambda>c.
       if c = NUL \<or> \<not> P c then Inr (True, s)
       else bindr (popchar s) (\<lambda>(d, s).
            bindr (collect_char mem s d msg) (\<lambda>(ok, s).
              if ok then collect_class mem P msg s else Inr (False, s))))"
  by pat_completeness auto
termination
  by (relation "measure (\<lambda>(mem, P, msg, s). chars_left s)")
    (auto dest!: collect_char_chars_left peekchar_popchar)

declare collect_class.simps [simp del]

definition collect_bareword :: "allocator \<Rightarrow> ('h, 'p) jstate \<Rightarrow> (bool \<times> ('h, 'p) jstate) outcome" where
  "collect_bareword mem s =
     bindr (collect_reset s) (\<lambda>s. collect_class mem islower ''custr_appendc failure'' s)"

text \<open>
  The value of a number, \<open>None\<close> after an error: what follows the digits, the digits, and the sign
  before them. Negating \<^verbatim>\<open>INT_MIN\<close>, which \<^verbatim>\<open>atoi\<close> may return, is undefined.
\<close>

definition number_value ::
    "allocator \<Rightarrow> bool \<Rightarrow> ('h, 'p) jstate \<Rightarrow> (int option \<times> ('h, 'p) jstate) outcome" where
  "number_value mem neg s =
     bindr (peekchar s) (\<lambda>c.
     if c = CHR ''.'' \<or> c = CHR ''e'' \<or> c = CHR ''E''
     then bindr (posterror mem s (Some ENOTSUP) ''do not yet support FRACs or EXPs'') (\<lambda>s. Inr (None, s))
     else
       bindr (custr_cstr (s_collect s)) (\<lambda>str.
       let t = atoi str in
       if neg \<and> t = - (2 ^ 31) then Inl Fault_UB
       else Inr (Some (if neg then - t else t), s)))"

definition number_digits ::
    "allocator \<Rightarrow> bool \<Rightarrow> ('h, 'p) jstate \<Rightarrow> (int option \<times> ('h, 'p) jstate) outcome" where
  "number_digits mem neg s =
     bindr (peekchar s) (\<lambda>c.
     if \<not> isdigit c
     then bindr (posterror mem s (Some EPROTO) ''malformed number: expected digit (0-9)'') (\<lambda>s. Inr (None, s))
     else
       bindr (collect_class mem isdigit ''custr_append failure'' s) (\<lambda>(ok, s).
       if \<not> ok then Inr (None, s) else number_value mem neg s))"

definition collect_number :: "allocator \<Rightarrow> ('h, 'p) jstate \<Rightarrow> (int option \<times> ('h, 'p) jstate) outcome" where
  "collect_number mem s =
     bindr (collect_reset s) (\<lambda>s.
     bindr (peekchar s) (\<lambda>c.
     let neg = (c = CHR ''-'') in
     bindr (if neg then bindr (popchar s) (\<lambda>(_, s). Inr s) else Inr s) (\<lambda>s.
     number_digits mem neg s)))"

section \<open>Handlers\<close>

text \<open>Single quotes in a message.\<close>

definition quoted :: "char list \<Rightarrow> char list" where
  "quoted s = CHR 0x27 # s @ [CHR 0x27]"

definition hdlr_bareword :: "allocator \<Rightarrow> ('h, 'p) jstate \<Rightarrow> ('h, 'p) jstate outcome" where
  "hdlr_bareword mem s =
     bindr (collect_bareword mem s) (\<lambda>(ok, s).
     if \<not> ok then Inr s
     else
       bindr (custr_cstr (s_collect s)) (\<lambda>str.
       if str = ''true''
       then bindr (top_upd (\<lambda>fr. fr\<lparr>pf_value_type := JSON_TYPE_BOOLEAN, pf_value := PV_bits 1\<rparr>) s)
              (\<lambda>s. movestate s PARSE_DONE)
       else if str = ''false''
       then bindr (top_upd (\<lambda>fr. fr\<lparr>pf_value_type := JSON_TYPE_BOOLEAN, pf_value := PV_bits 0\<rparr>) s)
              (\<lambda>s. movestate s PARSE_DONE)
       else if str = ''null''
       then bindr (top_upd (\<lambda>fr. fr\<lparr>pf_value_type := JSON_TYPE_NULL\<rparr>) s) (\<lambda>s. movestate s PARSE_DONE)
       else posterror mem s (Some EPROTO) (''expected '' @ quoted ''true'' @ '', '' @ quoted ''false'' @ '' or '' @ quoted ''null'')))"

text \<open>Every number is an integer; the branch of the source for doubles is never taken.\<close>

definition hdlr_number :: "allocator \<Rightarrow> ('h, 'p) jstate \<Rightarrow> ('h, 'p) jstate outcome" where
  "hdlr_number mem s =
     bindr (collect_number mem s) (\<lambda>(result, s).
     case result of
       None \<Rightarrow> Inr s
     | Some i \<Rightarrow>
         bindr (top_upd (\<lambda>fr. fr\<lparr>pf_value := PV_bits (word_of_int i), pf_value_type := JSON_TYPE_INTEGER\<rparr>) s)
           (\<lambda>s. movestate s PARSE_DONE))"

definition hdlr_rest :: "allocator \<Rightarrow> ('h, 'p) jstate \<Rightarrow> ('h, 'p) jstate outcome" where
  "hdlr_rest mem s =
     bindr (discard_whitespace s) (\<lambda>s.
     bindr (popchar s) (\<lambda>(c, s).
     if c = CHR ''{'' then movestate s PARSE_OBJECT
     else if c = CHR ''['' then movestate s PARSE_ARRAY
     else posterror mem s (Some EPROTO) ''EOF before object or array''))"

text \<open>
  The list of an object or array. Below another frame it is stored there first, and the embedded
  copy is looked up again.
\<close>

definition add_empty_child ::
    "('h, 'p) nv_ops \<Rightarrow> allocator \<Rightarrow> ('h, 'p) jstate \<Rightarrow> (bool \<times> ('h, 'p) jstate) outcome" where
  "add_empty_child N mem s =
     (case nvlist_alloc N (s_nv s) of
        (Inl e, h) \<Rightarrow> failwith mem (s\<lparr>s_nv := h\<rparr>) e ''nvlist_alloc failure''
      | (Inr emp, h) \<Rightarrow>
          (case s_top s of
             [] \<Rightarrow> Inl Fault_Null
           | [fr] \<Rightarrow> Inr (True, s\<lparr>s_nv := h, s_top := [fr\<lparr>pf_nvl := Some emp\<rparr>]\<rparr>)
           | fr # parent # frs \<Rightarrow>
               (case (pf_nvl parent, pf_key parent) of
                  (Some nvl, Some key) \<Rightarrow>
                    (case nvlist_add_nvlist N h nvl key emp of
                       (Inl e, h) \<Rightarrow>
                         bindr (failwith mem (s\<lparr>s_nv := h\<rparr>) e ''nvlist_add_nvlist failure'') (\<lambda>(r, s).
                         Inr (r, s\<lparr>s_nv := nvlist_free N (s_nv s) emp\<rparr>))
                     | (Inr _, h) \<Rightarrow>
                         let h = nvlist_free N h emp in
                         (case nvlist_lookup_nvlist N h nvl key of
                            Inl e \<Rightarrow> failwith mem (s\<lparr>s_nv := h\<rparr>) e ''nvlist_lookup_nvlist failure''
                          | Inr child \<Rightarrow>
                              Inr (True, s\<lparr>s_nv := h, s_top := fr\<lparr>pf_nvl := Some child\<rparr> # parent # frs\<rparr>)))
                | _ \<Rightarrow> Inl Fault_Null)))"

definition JSON_MARKER_ARRAY :: "char list" where
  "JSON_MARKER_ARRAY = ''.__json_array''"

definition decorate_array ::
    "('h, 'p) nv_ops \<Rightarrow> allocator \<Rightarrow> ('h, 'p) jstate \<Rightarrow> (bool \<times> ('h, 'p) jstate) outcome" where
  "decorate_array N mem s =
     (case s_top s of
        [] \<Rightarrow> Inl Fault_Null
      | fr # frs \<Rightarrow>
          (case pf_nvl fr of
             None \<Rightarrow> Inl Fault_Null
           | Some nvl \<Rightarrow>
               (case nvlist_add_boolean N (s_nv s) nvl JSON_MARKER_ARRAY of
                  (Inl e, h) \<Rightarrow> failwith mem (s\<lparr>s_nv := h\<rparr>) e ''nvlist_add failure''
                | (Inr _, h) \<Rightarrow>
                    (case nvlist_add_uint32 N h nvl ''length'' (word_of_int (pf_array_index fr)) of
                       (Inl e, h) \<Rightarrow> failwith mem (s\<lparr>s_nv := h\<rparr>) e ''nvlist_add failure''
                     | (Inr _, h) \<Rightarrow> Inr (True, s\<lparr>s_nv := h\<rparr>)))))"

definition end_array :: "('h, 'p) nv_ops \<Rightarrow> allocator \<Rightarrow> ('h, 'p) jstate \<Rightarrow> ('h, 'p) jstate outcome" where
  "end_array N mem s =
     bindr (decorate_array N mem s) (\<lambda>(ok, s). if ok then movestate s PARSE_DONE else Inr s)"

definition hdlr_array :: "('h, 'p) nv_ops \<Rightarrow> allocator \<Rightarrow> ('h, 'p) jstate \<Rightarrow> ('h, 'p) jstate outcome" where
  "hdlr_array N mem s =
     bindr (top_upd (\<lambda>fr. fr\<lparr>pf_value_type := JSON_TYPE_ARRAY\<rparr>) s) (\<lambda>s.
     bindr (add_empty_child N mem s) (\<lambda>(ok, s).
     if \<not> ok then Inr s
     else
       bindr (discard_whitespace s) (\<lambda>s.
       bindr (peekchar s) (\<lambda>c.
       if c = CHR '']'' then bindr (popchar s) (\<lambda>(_, s). end_array N mem s)
       else movestate s PARSE_ARRAY_VALUE))))"

definition hdlr_array_comma :: "('h, 'p) nv_ops \<Rightarrow> allocator \<Rightarrow> ('h, 'p) jstate \<Rightarrow> ('h, 'p) jstate outcome" where
  "hdlr_array_comma N mem s =
     bindr (discard_whitespace s) (\<lambda>s.
     bindr (popchar s) (\<lambda>(c, s).
     if c = CHR '']'' then end_array N mem s
     else if c = CHR '','' then movestate s PARSE_ARRAY_VALUE
     else posterror mem s (Some EPROTO) (''expected '' @ quoted '','' @ '' or '' @ quoted '']'')))"

text \<open>The start of a value, behind a colon or in an array: choose the handler of the new frame.\<close>

definition select_value :: "allocator \<Rightarrow> json_state \<Rightarrow> ('h, 'p) jstate \<Rightarrow> ('h, 'p) jstate outcome" where
  "select_value mem retps s =
     bindr (peekchar s) (\<lambda>c.
     if c = CHR 0x22 then bindr (popchar s) (\<lambda>(_, s). pushstate mem s PARSE_STRING retps)
     else if c = CHR ''{'' then bindr (popchar s) (\<lambda>(_, s). pushstate mem s PARSE_OBJECT retps)
     else if c = CHR ''['' then bindr (popchar s) (\<lambda>(_, s). pushstate mem s PARSE_ARRAY retps)
     else if islower c then pushstate mem s PARSE_BAREWORD retps
     else if c = CHR ''-'' \<or> isdigit c then pushstate mem s PARSE_NUMBER retps
     else posterror mem s (Some EPROTO) ''unexpected character at start of value'')"

text \<open>\<^verbatim>\<open>asprintf\<close> allocates the key; the index is incremented whether it succeeds or not.\<close>

definition hdlr_array_value :: "allocator \<Rightarrow> ('h, 'p) jstate \<Rightarrow> ('h, 'p) jstate outcome" where
  "hdlr_array_value mem s =
     (case s_top s of
        [] \<Rightarrow> Inl Fault_Null
      | fr # frs \<Rightarrow>
          if pf_key fr \<noteq> None then Inl Fault_Abort
          else
            let idx = pf_array_index fr; key = fmt_d idx in
            if idx = 2 ^ 31 - 1 then Inl Fault_UB
            else
              (case mem (length key + 1) of
                 None \<Rightarrow>
                   posterror mem (s\<lparr>s_top := fr\<lparr>pf_array_index := idx + 1\<rparr> # frs\<rparr>) (Some ENOMEM) ''asprintf failure''
               | Some _ \<Rightarrow>
                   bindr (discard_whitespace
                            (s\<lparr>s_top := fr\<lparr>pf_array_index := idx + 1, pf_key := Some key\<rparr> # frs\<rparr>))
                     (\<lambda>s. select_value mem PARSE_ARRAY_COMMA s)))"

definition hdlr_object :: "('h, 'p) nv_ops \<Rightarrow> allocator \<Rightarrow> ('h, 'p) jstate \<Rightarrow> ('h, 'p) jstate outcome" where
  "hdlr_object N mem s =
     bindr (top_upd (\<lambda>fr. fr\<lparr>pf_value_type := JSON_TYPE_OBJECT\<rparr>) s) (\<lambda>s.
     bindr (add_empty_child N mem s) (\<lambda>(ok, s).
     if \<not> ok then Inr s
     else
       bindr (discard_whitespace s) (\<lambda>s.
       bindr (popchar s) (\<lambda>(c, s).
       if c = CHR ''}'' then movestate s PARSE_DONE
       else if c = CHR 0x22 then movestate s PARSE_KEY_STRING
       else posterror mem s (Some EPROTO) (''expected key or '' @ quoted ''}'')))))"

definition hdlr_key_string :: "allocator \<Rightarrow> ('h, 'p) jstate \<Rightarrow> ('h, 'p) jstate outcome" where
  "hdlr_key_string mem s =
     bindr (collect_string mem s) (\<lambda>(ok, s).
     if \<not> ok then Inr s
     else
       bindr (custr_cstr (s_collect s)) (\<lambda>str.
       case strdup mem str of
         None \<Rightarrow>
           bindr (top_upd (\<lambda>fr. fr\<lparr>pf_key := None\<rparr>) s) (\<lambda>s. posterror mem s (Some ENOMEM) ''strdup failure'')
       | Some key \<Rightarrow>
           bindr (top_upd (\<lambda>fr. fr\<lparr>pf_key := Some key\<rparr>) s) (\<lambda>s. movestate s PARSE_COLON)))"

definition hdlr_colon :: "allocator \<Rightarrow> ('h, 'p) jstate \<Rightarrow> ('h, 'p) jstate outcome" where
  "hdlr_colon mem s =
     bindr (discard_whitespace s) (\<lambda>s.
     bindr (popchar s) (\<lambda>(c, s).
     if c \<noteq> CHR '':'' then posterror mem s (Some EPROTO) (''expected '' @ quoted '':'')
     else bindr (discard_whitespace s) (\<lambda>s. select_value mem PARSE_OBJECT_COMMA s)))"

definition hdlr_object_comma :: "allocator \<Rightarrow> ('h, 'p) jstate \<Rightarrow> ('h, 'p) jstate outcome" where
  "hdlr_object_comma mem s =
     bindr (discard_whitespace s) (\<lambda>s.
     bindr (popchar s) (\<lambda>(c, s).
     if c = CHR ''}'' then movestate s PARSE_DONE
     else if c = CHR '',''
     then bindr (discard_whitespace s) (\<lambda>s.
          bindr (popchar s) (\<lambda>(c, s).
          if c \<noteq> CHR 0x22 then posterror mem s (Some EPROTO) (''expected '' @ quoted [CHR 0x22])
          else movestate s PARSE_KEY_STRING))
     else posterror mem s (Some EPROTO) (''expected '' @ quoted '','' @ '' or '' @ quoted ''}'')))"

definition hdlr_string :: "allocator \<Rightarrow> ('h, 'p) jstate \<Rightarrow> ('h, 'p) jstate outcome" where
  "hdlr_string mem s =
     bindr (collect_string mem s) (\<lambda>(ok, s).
     if \<not> ok then Inr s
     else
       bindr (custr_cstr (s_collect s)) (\<lambda>str.
       case strdup mem str of
         None \<Rightarrow>
           bindr (top_upd (\<lambda>fr. fr\<lparr>pf_value_type := JSON_TYPE_STRING, pf_value := PV_NULL\<rparr>) s)
             (\<lambda>s. posterror mem s (Some ENOMEM) ''strdup failure'')
       | Some v \<Rightarrow>
           bindr (top_upd (\<lambda>fr. fr\<lparr>pf_value_type := JSON_TYPE_STRING, pf_value := PV_str v\<rparr>) s)
             (\<lambda>s. movestate s PARSE_DONE)))"

section \<open>Storing values and the loop\<close>

text \<open>
  The value as the C expressions read it back: \<^verbatim>\<open>(boolean_t)pf_value\<close> and
  \<^verbatim>\<open>(int32_t)(uintptr_t)pf_value\<close>.
\<close>

definition pv_boolean :: "64 word \<Rightarrow> bool" where
  "pv_boolean w \<longleftrightarrow> (ucast w :: 32 word) \<noteq> 0"

definition pv_int32 :: "64 word \<Rightarrow> int" where
  "pv_int32 w = sint (ucast w :: 32 word)"

definition add_value ::
    "('h, 'p) nv_ops \<Rightarrow> 'h \<Rightarrow> 'p \<Rightarrow> char list \<Rightarrow> json_type \<Rightarrow> pf_value
     \<Rightarrow> ((errno option \<times> char list) option \<times> 'h) outcome" where
  "add_value N h targ key ty val =
     (let result = (\<lambda>msg (r, h). (case r of Inl e \<Rightarrow> Some (e, msg) | Inr _ \<Rightarrow> None, h)) in
      case (ty, val) of
        (JSON_TYPE_STRING, PV_str str) \<Rightarrow>
          Inr (result ''nvlist_add_string failure'' (nvlist_add_string N h targ key str))
      | (JSON_TYPE_BOOLEAN, PV_bits w) \<Rightarrow>
          Inr (result ''nvlist_add_boolean_value failure'' (nvlist_add_boolean_value N h targ key (pv_boolean w)))
      | (JSON_TYPE_NULL, _) \<Rightarrow>
          Inr (result ''nvlist_add_boolean failure'' (nvlist_add_boolean N h targ key))
      | (JSON_TYPE_INTEGER, PV_bits w) \<Rightarrow>
          Inr (result ''nvlist_add_int32 failure'' (nvlist_add_int32 N h targ key (pv_int32 w)))
      | (JSON_TYPE_ARRAY, _) \<Rightarrow> Inr (None, h)
      | (JSON_TYPE_OBJECT, _) \<Rightarrow> Inr (None, h)
      | (JSON_TYPE_STRING, PV_bits _) \<Rightarrow> Inl Fault_UB
      | (JSON_TYPE_BOOLEAN, PV_str _) \<Rightarrow> Inl Fault_UB
      | (JSON_TYPE_INTEGER, PV_str _) \<Rightarrow> Inl Fault_UB
      | _ \<Rightarrow> Inl Fault_Abort)"

definition store_value ::
    "('h, 'p) nv_ops \<Rightarrow> allocator \<Rightarrow> ('h, 'p) jstate \<Rightarrow> (bool \<times> ('h, 'p) jstate) outcome" where
  "store_value N mem s =
     (case s_top s of
        fr # parent # frs \<Rightarrow>
          (case (pf_nvl parent, pf_key parent) of
             (Some targ, Some key) \<Rightarrow>
               bindr (add_value N (s_nv s) targ key (pf_value_type fr) (pf_value fr)) (\<lambda>(err, h).
               bindr (case err of
                        None \<Rightarrow> Inr (s\<lparr>s_nv := h\<rparr>)
                      | Some (e, msg) \<Rightarrow> posterror mem (s\<lparr>s_nv := h\<rparr>) e msg) (\<lambda>s.
               case s_top s of
                 fr # parent # frs \<Rightarrow>
                   Inr (err = None,
                        s\<lparr>s_top := fr\<lparr>pf_value := PV_NULL\<rparr> # parent\<lparr>pf_key := None\<rparr> # frs\<rparr>)
               | _ \<Rightarrow> Inl Fault_Null))
           | _ \<Rightarrow> Inl Fault_Null)
      | _ \<Rightarrow> Inl Fault_Null)"

definition parse_frame_free :: "('h, 'p) nv_ops \<Rightarrow> 'h \<Rightarrow> 'p parse_frame \<Rightarrow> bool \<Rightarrow> 'h outcome" where
  "parse_frame_free N h pf free_nvl =
     (if pf_value pf \<noteq> PV_NULL then Inl Fault_Abort
      else Inr (case pf_nvl pf of Some nvl \<Rightarrow> if free_nvl then nvlist_free N h nvl else h | None \<Rightarrow> h))"

text \<open>The table of handlers; a state without one aborts.\<close>

definition hdlrs ::
    "('h, 'p) nv_ops \<Rightarrow> allocator \<Rightarrow> json_state \<Rightarrow> (('h, 'p) jstate \<Rightarrow> ('h, 'p) jstate outcome) option" where
  "hdlrs N mem ps =
     (case ps of
        PARSE_ERROR \<Rightarrow> None
      | PARSE_DONE \<Rightarrow> None
      | PARSE_REST \<Rightarrow> Some (hdlr_rest mem)
      | PARSE_OBJECT \<Rightarrow> Some (hdlr_object N mem)
      | PARSE_KEY_STRING \<Rightarrow> Some (hdlr_key_string mem)
      | PARSE_COLON \<Rightarrow> Some (hdlr_colon mem)
      | PARSE_STRING \<Rightarrow> Some (hdlr_string mem)
      | PARSE_OBJECT_COMMA \<Rightarrow> Some (hdlr_object_comma mem)
      | PARSE_ARRAY \<Rightarrow> Some (hdlr_array N mem)
      | PARSE_BAREWORD \<Rightarrow> Some (hdlr_bareword mem)
      | PARSE_NUMBER \<Rightarrow> Some (hdlr_number mem)
      | PARSE_ARRAY_VALUE \<Rightarrow> Some (hdlr_array_value mem)
      | PARSE_ARRAY_COMMA \<Rightarrow> Some (hdlr_array_comma N mem))"

definition dispatch :: "('h, 'p) nv_ops \<Rightarrow> allocator \<Rightarrow> ('h, 'p) jstate \<Rightarrow> ('h, 'p) jstate outcome" where
  "dispatch N mem s =
     (case s_top s of
        [] \<Rightarrow> Inl Fault_Null
      | fr # _ \<Rightarrow> (case hdlrs N mem (pf_ps fr) of None \<Rightarrow> Inl Fault_Abort | Some hdlr \<Rightarrow> hdlr s))"

text \<open>
  One turn of the loop: \<open>Inl\<close> is the jump to the end, with what was stored in \<^verbatim>\<open>*nvlp\<close>, \<open>Inr\<close> the
  next turn.
\<close>

definition json_pop ::
    "('h, 'p) nv_ops \<Rightarrow> allocator \<Rightarrow> ('h, 'p) jstate \<Rightarrow> (('p option \<times> ('h, 'p) jstate) + ('h, 'p) jstate) outcome" where
  "json_pop N mem s =
     (case s_top s of
        [] \<Rightarrow> Inl Fault_Null
      | fr # rest \<Rightarrow>
          if pf_ps fr = PARSE_ERROR then Inr (Inl (None, s))
          else if pf_ps fr = PARSE_DONE
          then (if rest = [] then Inr (Inl (pf_nvl fr, s))
                else
                  bindr (store_value N mem s) (\<lambda>(ok, s).
                  if \<not> ok then Inr (Inl (None, s))
                  else (case s_top s of
                          [] \<Rightarrow> Inl Fault_Null
                        | fr # rest \<Rightarrow>
                            bindr (parse_frame_free N (s_nv s) fr False) (\<lambda>h.
                            Inr (Inr (s\<lparr>s_nv := h, s_top := rest\<rparr>))))))
          else Inr (Inr s))"

definition json_step ::
    "('h, 'p) nv_ops \<Rightarrow> allocator \<Rightarrow> ('h, 'p) jstate \<Rightarrow> (('p option \<times> ('h, 'p) jstate) + ('h, 'p) jstate) outcome" where
  "json_step N mem s =
     bindr (json_pop N mem s) (\<lambda>r.
     case r of
       Inl out \<Rightarrow> Inr (Inl out)
     | Inr s \<Rightarrow> bindr (dispatch N mem s) (\<lambda>s. Inr (Inr s)))"

fun json_loop ::
    "('h, 'p) nv_ops \<Rightarrow> allocator \<Rightarrow> nat \<Rightarrow> ('h, 'p) jstate \<Rightarrow> ('p option \<times> ('h, 'p) jstate) outcome" where
  "json_loop N mem 0 s = Inl Fault_Fuel"
| "json_loop N mem (Suc n) s =
     bindr (json_step N mem s) (\<lambda>r.
     case r of Inl out \<Rightarrow> Inr out | Inr s \<Rightarrow> json_loop N mem n s)"

text \<open>The frames left at the end are freed, their lists too if there was an error.\<close>

fun free_frames :: "('h, 'p) nv_ops \<Rightarrow> bool \<Rightarrow> 'p parse_frame list \<Rightarrow> 'h \<Rightarrow> 'h outcome" where
  "free_frames N free_nvl [] h = Inr h"
| "free_frames N free_nvl (fr # frs) h =
     bindr (parse_frame_free N h fr free_nvl) (\<lambda>h. free_frames N free_nvl frs h)"

text \<open>
  What a call leaves: \<^verbatim>\<open>errno\<close> (the call returns 0 if it is 0, and -1 otherwise), the list stored
  for the caller, the error number and position stored in \<^verbatim>\<open>errout\<close>, and the memory of the library.
\<close>

record ('h, 'p) json_result =
  jr_errno :: "errno option"
  jr_nvl :: "'p option"
  jr_errout :: "(errno option \<times> nat) option"
  jr_nv :: 'h

definition json_out ::
    "('h, 'p) nv_ops \<Rightarrow> bool \<Rightarrow> 'p option \<Rightarrow> ('h, 'p) jstate \<Rightarrow> ('h, 'p) json_result outcome" where
  "json_out N want_err nvlp s =
     bindr (free_frames N (s_errno s \<noteq> None) (s_top s) (s_nv s)) (\<lambda>h.
     Inr \<lparr>jr_errno = s_errno s, jr_nvl = nvlp,
          jr_errout = (if want_err then Some (s_errno s, s_pos s) else None), jr_nv = h\<rparr>)"

definition json_start :: "'h \<Rightarrow> char list \<Rightarrow> nat \<Rightarrow> 32 word \<Rightarrow> ('h, 'p) jstate" where
  "json_start h buf buflen flag =
     \<lparr>s_in = buf, s_pos = 0, s_len = buflen, s_top = [], s_flags = flag,
      s_collect = \<lparr>cus_strlen = 0, cus_datalen = 0, cus_data = None, cus_fixed = False\<rparr>,
      s_errno = None, s_errstr = None, s_nv = h\<rparr>"

text \<open>
  \<open>errbuf\<close> is the address and contents of \<^verbatim>\<open>errout->nje_message\<close>, a buffer of 512 bytes, if the
  caller passes one. The messages \<^verbatim>\<open>snprintf\<close> writes there when a string cannot be allocated are not
  modelled.
\<close>

definition json_errstr ::
    "allocator \<Rightarrow> (nat \<times> buf) option \<Rightarrow> ('h, 'p) jstate \<Rightarrow> (cret \<times> ('h, 'p) jstate) outcome" where
  "json_errstr mem errbuf s =
     (case errbuf of
        None \<Rightarrow> Inr (Ret_ok, s)
      | Some _ \<Rightarrow>
          bindr (custr_alloc_buf mem errbuf 512) (\<lambda>(r, errstr).
          case r of
            Ret_err e \<Rightarrow> Inr (Ret_err e, s\<lparr>s_errno := Some e\<rparr>)
          | Ret_ok \<Rightarrow>
              (case errstr of
                 None \<Rightarrow> Inl Fault_Null
               | Some cu \<Rightarrow> bindr (custr_reset cu) (\<lambda>cu. Inr (Ret_ok, s\<lparr>s_errstr := Some cu\<rparr>)))))"

text \<open>The top-most frame and the loop.\<close>

definition json_run ::
    "('h, 'p) nv_ops \<Rightarrow> allocator \<Rightarrow> nat \<Rightarrow> bool \<Rightarrow> ('h, 'p) jstate \<Rightarrow> ('h, 'p) json_result outcome" where
  "json_run N mem fuel want_err s =
     (case mem 56 of
        None \<Rightarrow> json_out N want_err None (s\<lparr>s_errno := Some ENOMEM\<rparr>)
      | Some _ \<Rightarrow>
          bindr (json_loop N mem fuel (s\<lparr>s_top := [frame_new PARSE_REST]\<rparr>)) (\<lambda>(nvlp, s).
          json_out N want_err nvlp s))"

definition nvlist_parse_json ::
    "('h, 'p) nv_ops \<Rightarrow> allocator \<Rightarrow> nat \<Rightarrow> 'h \<Rightarrow> char list \<Rightarrow> nat \<Rightarrow> 32 word \<Rightarrow> (nat \<times> buf) option
     \<Rightarrow> ('h, 'p) json_result outcome" where
  "nvlist_parse_json N mem fuel h buf buflen flag errbuf =
     (let fail = (\<lambda>e. Inr \<lparr>jr_errno = Some e, jr_nvl = None, jr_errout = None, jr_nv = h\<rparr>);
          want_err = (errbuf \<noteq> None) in
      if and flag NVJSON_FORCE_INTEGER \<noteq> 0 \<and> and flag NVJSON_FORCE_DOUBLE \<noteq> 0 then fail EINVAL
      else if and flag (not NVJSON_ALL) \<noteq> 0 then fail EINVAL
      else
        let s = json_start h buf buflen flag in
        (case custr_alloc mem of
           (Ret_err e, _) \<Rightarrow> json_out N want_err None (s\<lparr>s_errno := Some e\<rparr>)
         | (Ret_ok, None) \<Rightarrow> Inl Fault_Null
         | (Ret_ok, Some collect) \<Rightarrow>
             bindr (json_errstr mem errbuf (s\<lparr>s_collect := collect\<rparr>)) (\<lambda>(r, s).
             case r of
               Ret_err e \<Rightarrow> json_out N want_err None s
             | Ret_ok \<Rightarrow> json_run N mem fuel want_err s)))"

end
