(* ===== verification/Json_Safety.thy ===== *)
theory Json_Safety
  imports Json_Nvlist
begin

text \<open>
  The JSON parser on arbitrary text: it never leaves the buffer, never dereferences a null pointer,
  never reaches one of its calls of \<^verbatim>\<open>abort()\<close> and always ends, whatever the text is, whenever
  memory runs out and whatever the name-value library answers. The invariant describes the stack:
  which fields of a frame are set in which state. The measure is the number of unread characters and
  the number of turns the loop may take without reading one.
\<close>

section \<open>Returning, up to signed overflow\<close>

text \<open>The computation returns with a result in \<open>Q\<close>, or a signed addition or negation overflows.\<close>

definition runs :: "'a outcome \<Rightarrow> ('a \<Rightarrow> bool) \<Rightarrow> bool" where
  "runs m Q \<longleftrightarrow> m = Inl Fault_UB \<or> (\<exists>x. m = Inr x \<and> Q x)"

lemma runs_simps [simp]: "runs (Inr x) Q \<longleftrightarrow> Q x" "runs (Inl e) Q \<longleftrightarrow> e = Fault_UB"
  by (auto simp: runs_def)

lemma runs_bindI: "runs m R \<Longrightarrow> (\<And>x. R x \<Longrightarrow> runs (f x) Q) \<Longrightarrow> runs (bindr m f) Q"
  by (cases m) auto

lemma runs_mono: "runs m R \<Longrightarrow> (\<And>x. R x \<Longrightarrow> Q x) \<Longrightarrow> runs m Q"
  by (auto simp: runs_def)

lemma runs_ifI: "(b \<Longrightarrow> runs m Q) \<Longrightarrow> (\<not> b \<Longrightarrow> runs n Q) \<Longrightarrow> runs (if b then m else n) Q"
  by simp

text \<open>Memory that may run out, but is where an allocator puts it.\<close>

definition sane_alloc :: "allocator \<Rightarrow> bool" where
  "sane_alloc mem \<longleftrightarrow> (\<forall>n a. mem n = Some a \<longrightarrow> n \<le> a)"

lemma good_alloc_sane: "good_alloc mem \<Longrightarrow> sane_alloc mem"
  unfolding good_alloc_def sane_alloc_def by (metis option.inject)

section \<open>Strings when memory may run out\<close>

lemma custr_append_mem_cong:
  assumes "\<forall>n. mem n \<noteq> None \<longrightarrow> mem' n = mem n"
    and "mem (cus_datalen s + double_until STRING_CHUNK_SIZE (length text)) \<noteq> None"
  shows "custr_append_vprintf mem s (Inr text) = custr_append_vprintf mem' s (Inr text)"
proof -
  have "custr_grow mem s (double_until STRING_CHUNK_SIZE (length text)) =
      custr_grow mem' s (double_until STRING_CHUNK_SIZE (length text))"
    using assms by (auto simp: custr_grow_def Let_def)
  then show ?thesis by (simp add: custr_append_vprintf_def vsn_text_def Let_def)
qed

lemma custr_appendc_runs:
  assumes "custr_dyn s cs" "sane_alloc mem"
  shows "\<exists>r s' cs'. custr_appendc mem s c = Inr (r, s') \<and> custr_dyn s' cs'"
proof (cases "mem (cus_datalen s + double_until STRING_CHUNK_SIZE 1) = None \<and> cus_datalen s \<le> 1 + cus_strlen s + 1")
  case True
  then have "custr_appendc mem s c = Inr (Ret_err ENOMEM, s)"
    using assms(1) by (simp add: custr_appendc_def custr_append_printf_def custr_append_vprintf_def
        vsn_text_def custr_grow_def Let_def INT_MAX_def custr_dyn_def)
  then show ?thesis using assms(1) by auto
next
  case False
  let ?mem = "\<lambda>n. case mem n of None \<Rightarrow> Some n | Some a \<Rightarrow> Some a"
  have good: "good_alloc ?mem"
    using assms(2) by (auto simp: good_alloc_def sane_alloc_def split: option.split)
  have "custr_appendc mem s c = custr_appendc ?mem s c"
  proof (cases "cus_datalen s \<le> 1 + cus_strlen s + 1")
    case True
    have "\<forall>n. mem n \<noteq> None \<longrightarrow> ?mem n = mem n" by auto
    from custr_append_mem_cong [OF this, of s "[c]"] True show ?thesis
      using False by (simp add: custr_appendc_def custr_append_printf_def)
  next
    case False
    then show ?thesis
      by (simp add: custr_appendc_def custr_append_printf_def custr_append_vprintf_def vsn_text_def Let_def INT_MAX_def)
  qed
  then show ?thesis using custr_appendc_dyn [OF assms(1) good, of c] by auto
qed

definition fixed_text :: "custr \<Rightarrow> bool" where
  "fixed_text cu \<longleftrightarrow> cus_fixed cu \<and> (\<exists>cs. custr_rep cu cs)"

lemma custr_append_fixed_runs:
  assumes "fixed_text cu" "length msg \<le> INT_MAX"
  shows "\<exists>r cu'. custr_append mem cu msg = Inr (r, cu') \<and> fixed_text cu'"
proof -
  obtain cs where cs: "cus_fixed cu" "custr_rep cu cs" using assms(1) by (auto simp: fixed_text_def)
  have len: "length (cstr msg) \<le> INT_MAX" using assms(2) length_cstr_le [of msg] by simp
  show ?thesis
    using custr_append_fits [OF cs(2) len, of mem] custr_append_fixed [OF cs(2) len cs(1), of mem] cs assms(1)
    by (cases "custr_fits cu (cstr msg)") (auto simp: custr_append_def custr_append_printf_def fixed_text_def)
qed

section \<open>The invariant\<close>

definition reader_ok :: "char list \<Rightarrow> ('h, 'p) jstate \<Rightarrow> bool" where
  "reader_ok inp s \<longleftrightarrow> s_in s = inp @ [NUL] \<and> s_len s = length inp \<and> s_pos s \<le> s_len s + 1 \<and>
     (\<exists>cs. custr_dyn (s_collect s) cs) \<and>
     (case s_errstr s of None \<Rightarrow> True | Some cu \<Rightarrow> fixed_text cu)"

text \<open>A frame whose value is being read, and the top frame in each state.\<close>

definition suspended :: "'p parse_frame \<Rightarrow> bool" where
  "suspended fr \<longleftrightarrow> pf_ps fr \<in> {PARSE_ARRAY_COMMA, PARSE_OBJECT_COMMA} \<and> pf_nvl fr \<noteq> None \<and>
     pf_key fr \<noteq> None \<and> pf_value fr = PV_NULL"

definition value_done :: "'p parse_frame \<Rightarrow> bool" where
  "value_done fr \<longleftrightarrow>
     (case pf_value_type fr of
        JSON_TYPE_STRING \<Rightarrow> \<exists>v. pf_value fr = PV_str v
      | JSON_TYPE_INTEGER \<Rightarrow> \<exists>w. pf_value fr = PV_bits w
      | JSON_TYPE_BOOLEAN \<Rightarrow> \<exists>w. pf_value fr = PV_bits w
      | JSON_TYPE_NULL \<Rightarrow> pf_value fr = PV_NULL
      | JSON_TYPE_OBJECT \<Rightarrow> pf_value fr = PV_NULL
      | JSON_TYPE_ARRAY \<Rightarrow> pf_value fr = PV_NULL
      | _ \<Rightarrow> False)"

definition top_ok :: "'p parse_frame \<Rightarrow> 'p parse_frame list \<Rightarrow> bool" where
  "top_ok fr rest \<longleftrightarrow>
     (case pf_ps fr of
        PARSE_DONE \<Rightarrow> value_done fr \<and> (rest = [] \<longrightarrow> pf_value fr = PV_NULL)
      | PARSE_ARRAY_VALUE \<Rightarrow> pf_value fr = PV_NULL \<and> pf_value_type fr = JSON_TYPE_ARRAY \<and> pf_nvl fr \<noteq> None \<and> pf_key fr = None
      | PARSE_ARRAY_COMMA \<Rightarrow> pf_value fr = PV_NULL \<and> pf_value_type fr = JSON_TYPE_ARRAY \<and> pf_nvl fr \<noteq> None \<and> pf_key fr = None
      | PARSE_ARRAY \<Rightarrow> pf_value fr = PV_NULL \<and> pf_key fr = None
      | PARSE_OBJECT \<Rightarrow> pf_value fr = PV_NULL
      | PARSE_KEY_STRING \<Rightarrow> pf_value fr = PV_NULL \<and> pf_value_type fr = JSON_TYPE_OBJECT \<and> pf_nvl fr \<noteq> None
      | PARSE_COLON \<Rightarrow> pf_value fr = PV_NULL \<and> pf_value_type fr = JSON_TYPE_OBJECT \<and> pf_nvl fr \<noteq> None \<and> pf_key fr \<noteq> None
      | PARSE_OBJECT_COMMA \<Rightarrow> pf_value fr = PV_NULL \<and> pf_value_type fr = JSON_TYPE_OBJECT \<and> pf_nvl fr \<noteq> None
      | PARSE_ERROR \<Rightarrow> pf_value fr = PV_NULL
      | PARSE_REST \<Rightarrow> pf_value fr = PV_NULL \<and> pf_key fr = None
      | _ \<Rightarrow> pf_value fr = PV_NULL \<and> rest \<noteq> [])"

text \<open>A suspended frame is that of an object or of an array, whichever its return state says.\<close>

definition frame_kind_ok :: "'p parse_frame \<Rightarrow> bool" where
  "frame_kind_ok fr \<longleftrightarrow> (pf_ps fr = PARSE_ARRAY_COMMA \<longrightarrow> pf_value_type fr = JSON_TYPE_ARRAY) \<and>
     (pf_ps fr = PARSE_OBJECT_COMMA \<longrightarrow> pf_value_type fr = JSON_TYPE_OBJECT)"

definition stack_ok :: "'p parse_frame list \<Rightarrow> bool" where
  "stack_ok frs \<longleftrightarrow>
     (case frs of [] \<Rightarrow> False
      | fr # rest \<Rightarrow> top_ok fr rest \<and> (\<forall>f \<in> set rest. suspended f \<and> frame_kind_ok f))"

definition json_inv :: "char list \<Rightarrow> ('h, 'p) jstate \<Rightarrow> bool" where
  "json_inv inp s \<longleftrightarrow> reader_ok inp s \<and> stack_ok (s_top s)"

text \<open>How many turns may go by without a character read.\<close>

fun json_rank :: "json_state \<Rightarrow> nat" where
  "json_rank PARSE_ARRAY = 2"
| "json_rank PARSE_ARRAY_VALUE = 1"
| "json_rank ps = 0"

definition json_measure :: "('h, 'p) jstate \<Rightarrow> nat" where
  "json_measure s =
     (case s_top s of [] \<Rightarrow> 0
      | fr # _ \<Rightarrow> if pf_ps fr = PARSE_ERROR then 0 else 1 + 3 * chars_left s + json_rank (pf_ps fr))"

definition err_top :: "'p parse_frame list \<Rightarrow> 'p parse_frame list" where
  "err_top frs = (case frs of [] \<Rightarrow> [] | fr # rest \<Rightarrow> fr\<lparr>pf_ps := PARSE_ERROR\<rparr> # rest)"

lemma err_top_Cons [simp]: "err_top (fr # rest) = fr\<lparr>pf_ps := PARSE_ERROR\<rparr> # rest"
  by (simp add: err_top_def)

section \<open>Reading\<close>

text \<open>What reading does to a state: only the position and the buffers change.\<close>

definition reads :: "char list \<Rightarrow> ('h, 'p) jstate \<Rightarrow> ('h, 'p) jstate \<Rightarrow> bool" where
  "reads inp s s' \<longleftrightarrow> reader_ok inp s' \<and> s_top s' = s_top s \<and> chars_left s' \<le> chars_left s"

text \<open>The result of a function that may report an error.\<close>

definition reads_or_fails :: "char list \<Rightarrow> ('h, 'p) jstate \<Rightarrow> bool \<times> ('h, 'p) jstate \<Rightarrow> bool" where
  "reads_or_fails inp s res \<longleftrightarrow> reader_ok inp (snd res) \<and> chars_left (snd res) \<le> chars_left s \<and>
     s_top (snd res) = (if fst res then s_top s else err_top (s_top s))"

lemma reads_trans: "reads inp s t \<Longrightarrow> reads inp t u \<Longrightarrow> reads inp s u"
  by (auto simp: reads_def)

lemma popchar_runs:
  "reader_ok inp s \<Longrightarrow> runs (popchar s) (\<lambda>(c, s'). reads inp s s' \<and> (c \<noteq> NUL \<longrightarrow> chars_left s' < chars_left s))"
  by (auto simp: popchar_def reader_ok_def reads_def)

lemma peekchar_runs: "reader_ok inp s \<Longrightarrow> runs (peekchar s) (\<lambda>c. peekchar s = Inr c)"
  by (auto simp: peekchar_def reader_ok_def)

lemma discard_whitespace_runs:
  "reader_ok inp s \<Longrightarrow> runs (discard_whitespace s) (reads inp s)"
proof (induction s rule: discard_whitespace.induct)
  case (1 s)
  have "runs (bindr (popchar s) (\<lambda>(_, s). discard_whitespace s)) (reads inp s)"
    if c: "peekchar s = Inr c" "isspace c" for c
  proof (rule runs_bindI [where R = "\<lambda>x. popchar s = Inr x \<and> reads inp s (snd x)"])
    show "runs (popchar s) (\<lambda>x. popchar s = Inr x \<and> reads inp s (snd x))"
      using popchar_runs [OF 1(2)] by (auto simp: runs_def)
    show "runs (case x of (_, s) \<Rightarrow> discard_whitespace s) (reads inp s)"
      if "popchar s = Inr x \<and> reads inp s (snd x)" for x
    proof -
      obtain d s' where x: "x = (d, s')" by (cases x)
      with that have s': "popchar s = Inr (d, s')" "reads inp s s'" by simp_all
      have "reader_ok inp s'" using s'(2) by (simp add: reads_def)
      from runs_mono [OF 1(1) [OF c s'(1) refl this] reads_trans [OF s'(2)]] show ?thesis using x by simp
    qed
  qed
  then show ?case
    using peekchar_runs [OF 1(2)] 1(2)
    by (subst discard_whitespace.simps)
      (auto intro!: runs_bindI [where R = "\<lambda>c. peekchar s = Inr c"] simp: reads_def)
qed

lemma discard_whitespace_none:
  "s_pos s < length (s_in s) \<Longrightarrow> \<not> isspace (s_in s ! s_pos s) \<Longrightarrow> discard_whitespace s = Inr s"
  by (subst discard_whitespace.simps) (simp add: peekchar_def)

lemma posterror_runs:
  assumes "reader_ok inp s" "s_top s \<noteq> []" "length msg \<le> INT_MAX"
  shows "runs (posterror mem s e msg) (\<lambda>s'. reader_ok inp s' \<and> chars_left s' = chars_left s \<and> s_top s' = err_top (s_top s))"
proof -
  obtain fr rest where top: "s_top s = fr # rest" using assms(2) by (cases "s_top s") auto
  have "runs (case s_errstr s of None \<Rightarrow> Inr (s\<lparr>s_errno := e\<rparr>) | Some cu \<Rightarrow>
      bindr (custr_append mem cu msg) (\<lambda>(_, cu). Inr (s\<lparr>s_errno := e, s_errstr := Some cu\<rparr>)))
    (\<lambda>s'. reader_ok inp s' \<and> chars_left s' = chars_left s \<and> s_top s' = s_top s)"
  proof (cases "s_errstr s")
    case None
    then show ?thesis using assms(1) by (simp add: reader_ok_def)
  next
    case (Some cu)
    then obtain r cu' where "custr_append mem cu msg = Inr (r, cu')" "fixed_text cu'"
      using custr_append_fixed_runs [of cu msg mem] assms(1,3) by (auto simp: reader_ok_def)
    then show ?thesis using Some assms(1) by (simp add: reader_ok_def)
  qed
  then show ?thesis
    unfolding posterror_def
    by (rule runs_bindI) (auto simp: movestate_def top_upd_def top reader_ok_def)
qed

lemma failwith_runs:
  assumes "reader_ok inp s" "s_top s \<noteq> []" "length msg \<le> INT_MAX"
  shows "runs (failwith mem s e msg) (\<lambda>res. \<not> fst res \<and> reads_or_fails inp s res)"
  unfolding failwith_def
  by (rule runs_bindI [OF posterror_runs [OF assms]]) (auto simp: reads_or_fails_def)

lemma collect_char_runs:
  assumes "reader_ok inp s" "s_top s \<noteq> []" "length msg \<le> INT_MAX" "sane_alloc mem"
  shows "runs (collect_char mem s c msg) (reads_or_fails inp s)"
proof -
  obtain cs where "custr_dyn (s_collect s) cs" using assms(1) by (auto simp: reader_ok_def)
  then obtain r cu cs' where cu: "custr_appendc mem (s_collect s) c = Inr (r, cu)" "custr_dyn cu cs'"
    using custr_appendc_runs [OF _ assms(4)] by blast
  have ok: "reader_ok inp (s\<lparr>s_collect := cu\<rparr>)" using assms(1) cu(2) by (auto simp: reader_ok_def)
  have "runs (failwith mem (s\<lparr>s_collect := cu\<rparr>) (Some e) msg) (reads_or_fails inp s)" for e
    using failwith_runs [OF ok, of msg mem "Some e"] assms(2,3)
    by (auto simp: reads_or_fails_def elim!: runs_mono)
  then show ?thesis
    using cu(1) ok by (cases r) (auto simp: collect_char_def reads_or_fails_def)
qed

text \<open>Composition: an error after reading, and a function that may fail after another one.\<close>

lemma reads_then: "reads inp s t \<Longrightarrow> reads_or_fails inp t res \<Longrightarrow> reads_or_fails inp s res"
  by (auto simp: reads_def reads_or_fails_def split: if_splits)

lemma reads_or_fails_then:
  "reads_or_fails inp s (True, t) \<Longrightarrow> reads_or_fails inp t res \<Longrightarrow> reads_or_fails inp s res"
  by (auto simp: reads_or_fails_def split: if_splits)

lemma reads_ok: "reads inp s t \<Longrightarrow> s_top s \<noteq> [] \<Longrightarrow> reader_ok inp t \<and> s_top t \<noteq> []"
  by (simp add: reads_def)

lemma reads_or_fails_ok: "reads_or_fails inp s (True, t) \<Longrightarrow> s_top s \<noteq> [] \<Longrightarrow> reader_ok inp t \<and> s_top t \<noteq> []"
  by (simp add: reads_or_fails_def)

lemma reads_refl: "reader_ok inp s \<Longrightarrow> reads inp s s"
  by (simp add: reads_def)

lemma pop_digits_runs:
  "reader_ok inp s \<Longrightarrow> runs (pop_digits n s) (\<lambda>(ds, s'). reads inp s s')"
proof (induction n arbitrary: s)
  case (Suc n)
  have "runs (if c = NUL then Inr (None, t) else bindr (pop_digits n t) (\<lambda>(ds, u). Inr (map_option (Cons c) ds, u)))
      (\<lambda>(ds, s'). reads inp s s')" if t: "reads inp s t" for c t
  proof -
    have "reader_ok inp t" using t by (simp add: reads_def)
    from Suc.IH [OF this] have "runs (bindr (pop_digits n t) (\<lambda>(ds, u). Inr (map_option (Cons c) ds, u)))
      (\<lambda>(ds, s'). reads inp s s')"
      by (rule runs_bindI) (auto intro: reads_trans [OF t])
    then show ?thesis using t by simp
  qed
  then show ?case
    unfolding pop_digits.simps by (intro runs_bindI [OF popchar_runs [OF Suc.prems]]) auto
qed (simp add: reads_refl)

lemma runs_escape_tail:
  assumes "reads inp s t" "s_top s \<noteq> []" "sane_alloc mem" "length msg \<le> INT_MAX"
  shows "runs (failwith mem t e msg) (reads_or_fails inp s)" "runs (collect_char mem t c msg) (reads_or_fails inp s)"
  using failwith_runs [of inp t msg mem e] collect_char_runs [of inp t msg mem c] reads_ok [OF assms(1,2)] assms(3,4)
  by (auto elim!: runs_mono intro: reads_then [OF assms(1)])

lemma collect_string_escape_runs:
  assumes "reader_ok inp s" "s_top s \<noteq> []" "sane_alloc mem"
  shows "runs (collect_string_escape mem s) (reads_or_fails inp s)"
proof -
  note tail = runs_escape_tail [OF _ assms(2,3)]
  have uni: "runs (bindr (pop_digits 4 t) (\<lambda>(digs, s). case digs of
        None \<Rightarrow> failwith mem s (Some EPROTO) ''EOF mid-escape sequence''
      | Some digs \<Rightarrow> if 127 < atoi digs then failwith mem s (Some EPROTO) ''unicode escape above 0x7f''
          else collect_char mem s (char_of_int (atoi digs)) ''custr_appendc failure'')) (reads_or_fails inp s)"
    if t: "reads inp s t" for t
  proof (rule runs_bindI [OF pop_digits_runs [where inp = inp]], goal_cases)
    case 1
    then show ?case using t by (simp add: reads_def)
  next
    case (2 x)
    then show ?case
      by (auto simp: INT_MAX_def split: option.split intro!: tail intro: reads_trans [OF t])
  qed
  show ?thesis
    unfolding collect_string_escape_def
  proof (rule runs_bindI [OF popchar_runs [OF assms(1)]], goal_cases)
    case (1 x)
    then show ?case by (auto simp: INT_MAX_def split: option.split intro!: tail uni)
  qed
qed

lemma collect_string_loop_runs:
  "reader_ok inp s \<Longrightarrow> s_top s \<noteq> [] \<Longrightarrow> sane_alloc mem \<Longrightarrow> runs (collect_string_loop mem s)
    (\<lambda>res. reads_or_fails inp s res \<and> (fst res \<longrightarrow> chars_left (snd res) < chars_left s))"
proof (induction mem s rule: collect_string_loop.induct)
  case (1 mem s)
  let ?Q = "\<lambda>res. reads_or_fails inp s res \<and> (fst res \<longrightarrow> chars_left (snd res) < chars_left s)"
  note IH = "1.IH" and sane = "1.prems"(3)
  have rec: "runs (if ok then collect_string_loop mem u else Inr (False, u)) ?Q"
    if "reads inp s t" "reads_or_fails inp t (ok, u)"
      "ok \<Longrightarrow> reader_ok inp u \<Longrightarrow> s_top u \<noteq> [] \<Longrightarrow> runs (collect_string_loop mem u)
        (\<lambda>res. reads_or_fails inp u res \<and> (fst res \<longrightarrow> chars_left (snd res) < chars_left u))" for t ok u
  proof (cases ok)
    case True
    have su: "reads_or_fails inp s (True, u)" using reads_then [OF that(1)] that(2) True by simp
    have u: "reader_ok inp u" "s_top u \<noteq> []" using reads_or_fails_ok [OF su "1.prems"(2)] by auto
    have "chars_left u \<le> chars_left s" using su by (simp add: reads_or_fails_def)
    with that(3) [OF True u] True show ?thesis
      by (auto elim!: runs_mono intro: reads_or_fails_then [OF su] order_less_le_trans)
  next
    case False
    then show ?thesis using reads_then [OF that(1,2)] by simp
  qed
  have pop: "runs (popchar s) (\<lambda>x. popchar s = Inr x \<and> reads inp s (snd x) \<and> (fst x \<noteq> NUL \<longrightarrow> chars_left (snd x) < chars_left s))"
    using popchar_runs [OF "1.prems"(1)] by (auto simp: runs_def)
  show ?case
  proof (subst collect_string_loop.simps, rule runs_bindI [OF pop], goal_cases)
    case (1 x)
    obtain c t where x: "x = (c, t)" by (cases x)
    have p: "popchar s = Inr (c, t)" "reads inp s t" "c \<noteq> NUL \<longrightarrow> chars_left t < chars_left s" using 1 x by auto
    have t: "reader_ok inp t" "s_top t \<noteq> []" using reads_ok [OF p(2) "1.prems"(2)] by auto
    have esc: "runs (collect_string_escape mem t) (\<lambda>y. collect_string_escape mem t = Inr y \<and> reads_or_fails inp t y)"
      using collect_string_escape_runs [OF t "1.prems"(3)] by (auto simp: runs_def)
    have chr: "runs (collect_char mem t c m) (\<lambda>y. collect_char mem t c m = Inr y \<and> reads_or_fails inp t y)"
      if "length m \<le> INT_MAX" for m
      using collect_char_runs [OF t that "1.prems"(3)] by (auto simp: runs_def)
    consider "c = CHR 0x22" | "c = NUL" | "c = CHR 0x5C" | "c \<noteq> CHR 0x22" "c \<noteq> NUL" "c \<noteq> CHR 0x5C" by blast
    then show ?case
    proof cases
      case 1
      then show ?thesis using p x by (simp add: reads_def reads_or_fails_def)
    next
      case 2
      then show ?thesis
        using x failwith_runs [OF t, of "''EOF mid-string''" mem "Some EPROTO"] reads_then [OF p(2)]
        by (auto simp: INT_MAX_def elim!: runs_mono)
    next
      case 3
      have "runs (bindr (collect_string_escape mem t) (\<lambda>(ok, s).
          if ok then collect_string_loop mem s else Inr (False, s))) ?Q"
      proof (rule runs_bindI [OF esc], goal_cases)
        case (1 y)
        obtain ok u where y: "y = (ok, u)" by (cases y)
        show ?case
          unfolding y prod.case
        proof (rule rec [OF p(2)])
          show "reads_or_fails inp t (ok, u)" using 1 y by simp
          show "runs (collect_string_loop mem u)
              (\<lambda>res. reads_or_fails inp u res \<and> (fst res \<longrightarrow> chars_left (snd res) < chars_left u))"
            if "ok" "reader_ok inp u" "s_top u \<noteq> []"
            using IH(1) [OF p(1) refl _ _ _ _ refl that(1-3) sane] 3 1 y by simp
        qed
      qed
      then show ?thesis using x 3 by simp
    next
      case 4
      have "length ''custr_appendc failure'' \<le> INT_MAX" by (simp add: INT_MAX_def)
      from chr [OF this] have "runs (bindr (collect_char mem t c ''custr_appendc failure'') (\<lambda>(ok, s).
          if ok then collect_string_loop mem s else Inr (False, s))) ?Q"
      proof (rule runs_bindI, goal_cases)
        case (1 y)
        obtain ok u where y: "y = (ok, u)" by (cases y)
        show ?case
          unfolding y prod.case
        proof (rule rec [OF p(2)])
          show "reads_or_fails inp t (ok, u)" using 1 y by simp
          show "runs (collect_string_loop mem u)
              (\<lambda>res. reads_or_fails inp u res \<and> (fst res \<longrightarrow> chars_left (snd res) < chars_left u))"
            if "ok" "reader_ok inp u" "s_top u \<noteq> []"
            using IH(2) [OF p(1) refl _ _ _ _ refl that(1-3) sane] 4 1 y by simp
        qed
      qed
      then show ?thesis using x 4 by simp
    qed
  qed
qed

lemma collect_class_runs:
  "reader_ok inp s \<Longrightarrow> s_top s \<noteq> [] \<Longrightarrow> sane_alloc mem \<Longrightarrow> length msg \<le> INT_MAX \<Longrightarrow>
   runs (collect_class mem P msg s) (\<lambda>res. reads_or_fails inp s res \<and>
     (fst res \<longrightarrow> (\<exists>c. peekchar s = Inr c \<and> c \<noteq> NUL \<and> P c) \<longrightarrow> chars_left (snd res) < chars_left s))"
proof (induction mem P msg s rule: collect_class.induct)
  case (1 mem P msg s)
  let ?Q = "\<lambda>res. reads_or_fails inp s res \<and>
     (fst res \<longrightarrow> (\<exists>c. peekchar s = Inr c \<and> c \<noteq> NUL \<and> P c) \<longrightarrow> chars_left (snd res) < chars_left s)"
  note IH = "1.IH" and ok = "1.prems"
  show ?case
  proof (subst collect_class.simps, rule runs_bindI [OF peekchar_runs [OF ok(1)]], goal_cases)
    case (1 c)
    show ?case
    proof (cases "c = NUL \<or> \<not> P c")
      case True
      then show ?thesis using 1 ok(1) by (auto simp: reads_or_fails_def)
    next
      case False
      have pop: "runs (popchar s) (\<lambda>x. popchar s = Inr x \<and> reads inp s (snd x) \<and> chars_left (snd x) < chars_left s)"
        using popchar_runs [OF ok(1)] peekchar_popchar [OF 1] False by (auto simp: runs_def)
      have "runs (bindr (popchar s) (\<lambda>(d, s). bindr (collect_char mem s d msg) (\<lambda>(ok, s).
          if ok then collect_class mem P msg s else Inr (False, s)))) ?Q"
      proof (rule runs_bindI [OF pop], goal_cases)
        case (1 x)
        obtain d t where x: "x = (d, t)" by (cases x)
        have t: "reads inp s t" "chars_left t < chars_left s" "popchar s = Inr (d, t)" using 1 x by auto
        have t_ok: "reader_ok inp t" "s_top t \<noteq> []" using reads_ok [OF t(1) ok(2)] by auto
        have chr: "runs (collect_char mem t d msg) (\<lambda>y. collect_char mem t d msg = Inr y \<and> reads_or_fails inp t y)"
          using collect_char_runs [OF t_ok ok(4,3)] by (auto simp: runs_def)
        show ?case
          unfolding x prod.case
        proof (rule runs_bindI [OF chr], goal_cases)
          case (1 y)
          obtain b u where y: "y = (b, u)" by (cases y)
          have su: "reads_or_fails inp s (b, u)" using reads_then [OF t(1)] 1 y by simp
          show ?case
          proof (cases b)
            case True
            have u: "reader_ok inp u" "s_top u \<noteq> []" using reads_or_fails_ok [of inp s u] su True ok(2) by simp_all
            have "runs (collect_class mem P msg u) (reads_or_fails inp u)"
              using IH [OF \<open>peekchar s = Inr c\<close> _ t(3) refl _ _ True u ok(3,4)] False 1 y
              by (auto elim!: runs_mono)
            moreover have "chars_left u < chars_left s" using t(2) 1 y True by (auto simp: reads_or_fails_def)
            ultimately show ?thesis
              using y True su reads_or_fails_then
              by (auto elim!: runs_mono) (auto simp: reads_or_fails_def)
          next
            case False
            then show ?thesis using su y by simp
          qed
        qed
      qed
      then show ?thesis using False by simp
    qed
  qed
qed

lemma collect_reset_runs:
  assumes "reader_ok inp s"
  shows "runs (collect_reset s) (\<lambda>t. reads inp s t \<and> peekchar t = peekchar s \<and> chars_left t = chars_left s \<and>
    custr_dyn (s_collect t) [])"
proof -
  obtain cs where "custr_dyn (s_collect s) cs" using assms by (auto simp: reader_ok_def)
  then obtain cu where "custr_reset (s_collect s) = Inr cu" "custr_dyn cu []"
    using custr_reset_rep [of "s_collect s" cs] by (auto simp: custr_dyn_def)
  then show ?thesis using assms by (auto simp: collect_reset_def reads_def reader_ok_def peekchar_def)
qed

lemma collect_string_runs:
  assumes "reader_ok inp s" "s_top s \<noteq> []" "sane_alloc mem"
  shows "runs (collect_string mem s)
    (\<lambda>res. reads_or_fails inp s res \<and> (fst res \<longrightarrow> chars_left (snd res) < chars_left s))"
  unfolding collect_string_def
proof (rule runs_bindI [OF collect_reset_runs [OF assms(1)]], goal_cases)
  case (1 t)
  then have "reader_ok inp t" "s_top t \<noteq> []" using assms(2) by (simp_all add: reads_def)
  from collect_string_loop_runs [OF this assms(3)] show ?case
    using 1 by (auto elim!: runs_mono intro: reads_then)
qed

lemma custr_cstr_runs: "reader_ok inp s \<Longrightarrow> runs (custr_cstr (s_collect s)) (\<lambda>str. custr_cstr (s_collect s) = Inr str)"
  using custr_cstr_rep by (fastforce simp: reader_ok_def custr_dyn_def)

text \<open>A word that was collected is not empty unless nothing was read.\<close>

lemma collect_bareword_runs:
  assumes "reader_ok inp s" "s_top s \<noteq> []" "sane_alloc mem"
  shows "runs (collect_bareword mem s) (\<lambda>res. reads_or_fails inp s res \<and>
    (fst res \<longrightarrow> custr_cstr (s_collect (snd res)) = Inr [] \<or> chars_left (snd res) < chars_left s))"
  unfolding collect_bareword_def
proof (rule runs_bindI [OF collect_reset_runs [OF assms(1)]], goal_cases)
  case (1 t)
  then have t: "reader_ok inp t" "s_top t \<noteq> []" using assms(2) by (simp_all add: reads_def)
  show ?case
  proof (cases "\<exists>c. peekchar t = Inr c \<and> c \<noteq> NUL \<and> islower c")
    case True
    then show ?thesis
      using collect_class_runs [OF t assms(3), of "''custr_appendc failure''" islower] 1
      by (auto simp: INT_MAX_def elim!: runs_mono intro: reads_then)
  next
    case False
    have c: "runs (collect_class mem islower m t) (\<lambda>res. res = (True, t))" for m
      using peekchar_runs [OF t(1)] False
      by (subst collect_class.simps) (auto intro!: runs_bindI [OF peekchar_runs [OF t(1)]])
    have "custr_cstr (s_collect t) = Inr []"
      using 1 custr_cstr_rep [of "s_collect t" "[]"] by (simp add: custr_dyn_def)
    then show ?thesis
      using 1 by (intro runs_mono [OF c]) (auto simp: reads_or_fails_def reads_def)
  qed
qed

definition reads_number :: "char list \<Rightarrow> ('h, 'p) jstate \<Rightarrow> int option \<times> ('h, 'p) jstate \<Rightarrow> bool" where
  "reads_number inp s res \<longleftrightarrow> reads_or_fails inp s (fst res \<noteq> None, snd res) \<and>
     (fst res \<noteq> None \<longrightarrow> chars_left (snd res) < chars_left s)"

lemma number_error_runs:
  assumes "reads inp s t" "s_top s \<noteq> []" "length m \<le> INT_MAX"
  shows "runs (bindr (posterror mem t e m) (\<lambda>s. Inr (None, s))) (reads_number inp s)"
proof (rule runs_bindI [OF posterror_runs [where inp = inp]], goal_cases)
  case (4 u)
  then show ?case using assms(1) by (auto simp: reads_def reads_number_def reads_or_fails_def)
qed (use assms in \<open>auto simp: reads_def\<close>)

lemma number_value_runs:
  assumes "reads inp s t" "s_top s \<noteq> []" "chars_left t < chars_left s"
  shows "runs (number_value mem neg t) (reads_number inp s)"
proof -
  have t: "reader_ok inp t" using assms(1) by (simp add: reads_def)
  have "reads_number inp s (Some i, t)" for i
    using assms by (auto simp: reads_def reads_number_def reads_or_fails_def)
  then show ?thesis
    unfolding number_value_def Let_def
    by (intro runs_bindI [OF peekchar_runs [OF t]] runs_ifI number_error_runs [OF assms(1,2)]
        runs_bindI [OF custr_cstr_runs [OF t]]) (auto simp: INT_MAX_def)
qed

lemma number_digits_runs:
  assumes "reads inp s t" "s_top s \<noteq> []" "sane_alloc mem"
  shows "runs (number_digits mem neg t) (reads_number inp s)"
proof -
  have t: "reader_ok inp t" "s_top t \<noteq> []" using reads_ok [OF assms(1,2)] by auto
  have m: "length ''custr_append failure'' \<le> INT_MAX" by (simp add: INT_MAX_def)
  show ?thesis
    unfolding number_digits_def
  proof (rule runs_bindI [OF peekchar_runs [OF t(1)]], rule runs_ifI, goal_cases)
    case (1 c)
    then show ?case using number_error_runs [OF assms(1,2)] by (simp add: INT_MAX_def)
  next
    case (2 c)
    then have c: "\<exists>c. peekchar t = Inr c \<and> c \<noteq> NUL \<and> isdigit c" by auto
    show ?case
    proof (rule runs_bindI [OF collect_class_runs [OF t assms(3) m]], goal_cases)
      case (1 x)
      obtain ok u where x: "x = (ok, u)" by (cases x)
      have tu: "reads_or_fails inp t (ok, u)" "ok \<longrightarrow> chars_left u < chars_left t" using 1 x c by auto
      have "reads_number inp s (None, u)" if "\<not> ok"
        using that reads_then [OF assms(1) tu(1)] by (simp add: reads_number_def)
      moreover have "reads inp s u \<and> chars_left u < chars_left s" if ok
        using that assms(1) tu by (auto simp: reads_def reads_or_fails_def)
      ultimately show ?case using x number_value_runs [OF _ assms(2)] by simp
    qed
  qed
qed

lemma collect_number_runs:
  assumes "reader_ok inp s" "s_top s \<noteq> []" "sane_alloc mem"
  shows "runs (collect_number mem s) (reads_number inp s)"
  unfolding collect_number_def Let_def
proof (rule runs_bindI [OF collect_reset_runs [OF assms(1)]], goal_cases)
  case (1 t)
  then have t: "reads inp s t" "reader_ok inp t" by (simp_all add: reads_def)
  show ?case
  proof (rule runs_bindI [OF peekchar_runs [OF t(2)]], goal_cases)
    case (1 c)
    have "runs (if c = CHR ''-'' then bindr (popchar t) (\<lambda>(_, s). Inr s) else Inr t) (reads inp s)"
      using t(1) by (auto intro!: runs_bindI [OF popchar_runs [OF t(2)]] intro: reads_trans)
    then show ?case by (rule runs_bindI) (rule number_digits_runs [OF _ assms(2,3)])
  qed
qed

section \<open>A turn of the loop\<close>

text \<open>The invariant holds again and the measure is smaller.\<close>

definition turn :: "char list \<Rightarrow> nat \<Rightarrow> ('h, 'p) jstate \<Rightarrow> bool" where
  "turn inp k s' \<longleftrightarrow> json_inv inp s' \<and> json_measure s' < k"

text \<open>The frame under work: everything but its state is as the invariant wants it.\<close>

abbreviation rest_ok :: "'p parse_frame list \<Rightarrow> bool" where
  "rest_ok rest \<equiv> \<forall>f \<in> set rest. suspended f \<and> frame_kind_ok f"

lemma turn_error:
  assumes "reader_ok inp s'" "s_top s' = err_top (fr # rest)" "pf_value fr = PV_NULL" "rest_ok rest" "0 < k"
  shows "turn inp k s'"
  using assms by (simp add: turn_def json_inv_def stack_ok_def top_ok_def json_measure_def)

lemma turn_move:
  assumes "reader_ok inp s'" "s_top s' = fr # rest" "top_ok fr rest" "rest_ok rest"
    and "3 * chars_left s' + json_rank (pf_ps fr) + 1 < k"
  shows "turn inp k s'"
  using assms by (simp add: turn_def json_inv_def stack_ok_def json_measure_def)

lemma json_rank_le: "json_rank ps \<le> 2"
  by (cases ps) simp_all

lemma turn_move_char:
  assumes "reader_ok inp s'" "s_top s' = fr # rest" "top_ok fr rest" "rest_ok rest"
    and "chars_left s' < chars_left s" "3 * chars_left s < k"
  shows "turn inp k s'"
  using assms json_rank_le [of "pf_ps fr"] by (intro turn_move [OF assms(1-4)]) linarith

lemma posterror_turn:
  assumes "reader_ok inp s" "s_top s = fr # rest" "pf_value fr = PV_NULL" "rest_ok rest" "0 < k" "length msg \<le> INT_MAX"
  shows "runs (posterror mem s e msg) (turn inp k)"
proof (rule runs_mono [OF posterror_runs [OF assms(1) _ assms(6)]], goal_cases)
  case 1
  then show ?case using assms(2) by simp
next
  case (2 s')
  then show ?case using turn_error [OF _ _ assms(3-5)] assms(2) by auto
qed

lemma failed_turn:
  assumes "reads_or_fails inp s (False, t)" "s_top s = fr # rest" "pf_value fr = PV_NULL" "rest_ok rest" "0 < k"
  shows "turn inp k t"
  using turn_error [OF _ _ assms(3-5)] assms(1,2) by (auto simp: reads_or_fails_def)

lemma pushstate_turn:
  assumes "reader_ok inp s" "s_top s = fr # rest" "pf_value fr = PV_NULL" "rest_ok rest" "0 < k"
    and "retps \<in> {PARSE_ARRAY_COMMA, PARSE_OBJECT_COMMA}" "pf_nvl fr \<noteq> None" "pf_key fr \<noteq> None"
    and "frame_kind_ok (fr\<lparr>pf_ps := retps\<rparr>)"
    and "ps \<in> {PARSE_STRING, PARSE_OBJECT, PARSE_ARRAY, PARSE_BAREWORD, PARSE_NUMBER}"
    and "3 * chars_left s + json_rank ps + 1 < k"
  shows "runs (pushstate mem s ps retps) (turn inp k)"
proof (cases "mem 56")
  case None
  then show ?thesis using posterror_turn [OF assms(1-5)] by (simp add: pushstate_def INT_MAX_def)
next
  case (Some a)
  let ?s = "s\<lparr>s_top := frame_new ps # fr\<lparr>pf_ps := retps\<rparr> # rest\<rparr>"
  have "turn inp k ?s"
    by (rule turn_move [where fr = "frame_new ps" and rest = "fr\<lparr>pf_ps := retps\<rparr> # rest"])
      (use assms in \<open>auto simp: reader_ok_def top_ok_def frame_new_def suspended_def\<close>)
  then show ?thesis using Some assms(2) by (simp add: pushstate_def movestate_def top_upd_def)
qed

lemma movestate_turn:
  assumes "reader_ok inp u" "s_top u = fr # rest" "top_ok (fr\<lparr>pf_ps := ps\<rparr>) rest" "rest_ok rest"
    and "chars_left u < n" "3 * n < k"
  shows "runs (movestate u ps) (turn inp k)"
proof -
  let ?u = "u\<lparr>s_top := fr\<lparr>pf_ps := ps\<rparr> # rest\<rparr>"
  have "reader_ok inp ?u" using assms(1) by (simp add: reader_ok_def)
  then have "turn inp k ?u"
    by (rule turn_move) (use assms(3-6) json_rank_le [of ps] in auto)
  then show ?thesis using assms(2) by (simp add: movestate_def top_upd_def)
qed

text \<open>
  The common beginnings of the handlers: white space and then a character taken or looked at. The
  state afterwards differs in the position only.
\<close>

definition took :: "char list \<Rightarrow> ('h, 'p) jstate \<Rightarrow> char \<Rightarrow> ('h, 'p) jstate \<Rightarrow> bool" where
  "took inp s c t \<longleftrightarrow> reader_ok inp t \<and> s_top t = s_top s \<and> chars_left t \<le> chars_left s \<and>
     (c \<noteq> NUL \<longrightarrow> chars_left t < chars_left s)"

lemma popchar_took: "reader_ok inp s \<Longrightarrow> runs (popchar s) (\<lambda>x. took inp s (fst x) (snd x))"
  using popchar_runs [of inp s] by (auto simp: reads_def took_def elim!: runs_mono)

lemma ws_pop_turn:
  assumes "reader_ok inp s" "\<And>c u. took inp s c u \<Longrightarrow> runs (f (c, u)) Q"
  shows "runs (bindr (discard_whitespace s) (\<lambda>s. bindr (popchar s) f)) Q"
proof (rule runs_bindI [OF discard_whitespace_runs [OF assms(1)]], goal_cases)
  case (1 t)
  then have t: "reader_ok inp t" by (simp add: reads_def)
  have "took inp s c u" if "took inp t c u" for c u using that 1 by (auto simp: took_def reads_def)
  then show ?case using assms(2) by (intro runs_bindI [OF popchar_took [OF t]]) force
qed

lemma ws_turn:
  assumes "reader_ok inp s" "\<And>t. reader_ok inp t \<Longrightarrow> s_top t = s_top s \<Longrightarrow> chars_left t \<le> chars_left s \<Longrightarrow> runs (f t) Q"
  shows "runs (bindr (discard_whitespace s) f) Q"
  by (rule runs_bindI [OF discard_whitespace_runs [OF assms(1)]]) (use assms(2) in \<open>auto simp: reads_def\<close>)

lemma peek_pop_turn:
  assumes "reader_ok inp s" "peekchar s = Inr c" "c \<noteq> NUL" "\<And>x u. took inp s c u \<Longrightarrow> runs (f (x, u)) Q"
  shows "runs (bindr (popchar s) f) Q"
proof -
  have "runs (popchar s) (\<lambda>x. took inp s c (snd x))"
    using popchar_took [OF assms(1)] peekchar_popchar [OF assms(2,3)] by (auto simp: runs_def)
  then show ?thesis by (rule runs_bindI) (use assms(4) in force)
qed

lemmas turn_frame = json_inv_def stack_ok_def top_ok_def json_measure_def

lemma hdlr_rest_turn:
  assumes "json_inv inp s" "s_top s = fr # rest" "pf_ps fr = PARSE_REST"
  shows "runs (hdlr_rest mem s) (turn inp (json_measure s))"
proof -
  have fr: "reader_ok inp s" "pf_value fr = PV_NULL" "pf_key fr = None" "rest_ok rest"
    "json_measure s = 1 + 3 * chars_left s"
    using assms by (auto simp: turn_frame)
  show ?thesis
    unfolding hdlr_rest_def
  proof (rule ws_pop_turn [OF fr(1)], unfold prod.case, intro runs_ifI, goal_cases)
    case (1 c u)
    then show ?case
      using fr assms(2) by (intro movestate_turn [where n = "chars_left s"]) (auto simp: took_def top_ok_def)
  next
    case (2 c u)
    then show ?case
      using fr assms(2) by (intro movestate_turn [where n = "chars_left s"]) (auto simp: took_def top_ok_def)
  next
    case (3 c u)
    then show ?case
      using fr assms(2) by (intro posterror_turn) (auto simp: took_def INT_MAX_def)
  qed
qed

lemma hdlr_object_comma_turn:
  assumes "json_inv inp s" "s_top s = fr # rest" "pf_ps fr = PARSE_OBJECT_COMMA"
  shows "runs (hdlr_object_comma mem s) (turn inp (json_measure s))"
proof -
  have fr: "reader_ok inp s" "pf_value fr = PV_NULL" "rest_ok rest" "pf_value_type fr = JSON_TYPE_OBJECT"
    "pf_nvl fr \<noteq> None" "json_measure s = 1 + 3 * chars_left s"
    using assms by (auto simp: turn_frame)
  show ?thesis
    unfolding hdlr_object_comma_def
  proof (rule ws_pop_turn [OF fr(1)], unfold prod.case, intro runs_ifI, goal_cases)
    case (1 c u)
    then show ?case
      using fr assms(2) by (intro movestate_turn [where n = "chars_left s"]) (auto simp: took_def top_ok_def value_done_def)
  next
    case (2 c u)
    then have u: "reader_ok inp u" "s_top u = fr # rest" "chars_left u < chars_left s"
      using assms(2) by (auto simp: took_def)
    show ?case
    proof (rule ws_pop_turn [OF u(1)], unfold prod.case, intro runs_ifI, goal_cases)
      case (1 d v)
      then show ?case using fr u by (intro posterror_turn) (auto simp: took_def INT_MAX_def quoted_def)
    next
      case (2 d v)
      then show ?case
        using fr u by (intro movestate_turn [where n = "chars_left s"]) (auto simp: took_def top_ok_def)
    qed
  next
    case (3 c u)
    then show ?case using fr assms(2) by (intro posterror_turn) (auto simp: took_def INT_MAX_def quoted_def)
  qed
qed

lemma select_value_turn:
  assumes "reader_ok inp s" "s_top s = fr # rest" "pf_value fr = PV_NULL" "rest_ok rest" "0 < k"
    and "retps \<in> {PARSE_ARRAY_COMMA, PARSE_OBJECT_COMMA}" "pf_nvl fr \<noteq> None" "pf_key fr \<noteq> None"
    and "frame_kind_ok (fr\<lparr>pf_ps := retps\<rparr>)" "3 * chars_left s + 1 < k"
  shows "runs (select_value mem retps s) (turn inp k)"
proof -
  have push: "runs (pushstate mem u ps retps) (turn inp k)"
    if "ps \<in> {PARSE_STRING, PARSE_OBJECT, PARSE_ARRAY}" "took inp s c u" "c \<noteq> NUL" for ps u c
    using that assms json_rank_le [of ps] by (intro pushstate_turn) (auto simp: took_def)
  show ?thesis
    unfolding select_value_def
  proof (rule runs_bindI [OF peekchar_runs [OF assms(1)]], intro runs_ifI, goal_cases)
    case (4 c)
    then show ?case using assms by (intro pushstate_turn) auto
  next
    case (5 c)
    then show ?case using assms by (intro pushstate_turn) auto
  next
    case (6 c)
    then show ?case using assms by (intro posterror_turn) (auto simp: INT_MAX_def)
  qed (auto intro!: peek_pop_turn [OF assms(1)] push)
qed

lemma hdlr_colon_turn:
  assumes "json_inv inp s" "s_top s = fr # rest" "pf_ps fr = PARSE_COLON"
  shows "runs (hdlr_colon mem s) (turn inp (json_measure s))"
proof -
  have fr: "reader_ok inp s" "pf_value fr = PV_NULL" "rest_ok rest" "pf_value_type fr = JSON_TYPE_OBJECT"
    "pf_nvl fr \<noteq> None" "pf_key fr \<noteq> None" "json_measure s = 1 + 3 * chars_left s"
    using assms by (auto simp: turn_frame)
  show ?thesis
    unfolding hdlr_colon_def
  proof (rule ws_pop_turn [OF fr(1)], unfold prod.case, intro runs_ifI, goal_cases)
    case (1 c u)
    then show ?case using fr assms(2) by (intro posterror_turn) (auto simp: took_def INT_MAX_def quoted_def)
  next
    case (2 c u)
    then have u: "reader_ok inp u" "s_top u = fr # rest" "chars_left u < chars_left s"
      using assms(2) by (auto simp: took_def)
    show ?case
      by (rule ws_turn [OF u(1)], rule select_value_turn) (use fr u in \<open>auto simp: frame_kind_ok_def\<close>)
  qed
qed

lemma hdlr_array_value_turn:
  assumes "json_inv inp s" "s_top s = fr # rest" "pf_ps fr = PARSE_ARRAY_VALUE"
  shows "runs (hdlr_array_value mem s) (turn inp (json_measure s))"
proof -
  have fr: "reader_ok inp s" "pf_value fr = PV_NULL" "rest_ok rest" "pf_value_type fr = JSON_TYPE_ARRAY"
    "pf_nvl fr \<noteq> None" "pf_key fr = None" "json_measure s = 2 + 3 * chars_left s"
    using assms by (auto simp: turn_frame)
  let ?fr = "\<lambda>key. fr\<lparr>pf_array_index := pf_array_index fr + 1, pf_key := key\<rparr>"
  have ok: "reader_ok inp (s\<lparr>s_top := f # rest\<rparr>)" for f using fr(1) by (simp add: reader_ok_def)
  have "runs (posterror mem (s\<lparr>s_top := fr\<lparr>pf_array_index := pf_array_index fr + 1\<rparr> # rest\<rparr>) (Some ENOMEM) ''asprintf failure'')
      (turn inp (json_measure s))"
    using ok fr by (intro posterror_turn [where fr = "fr\<lparr>pf_array_index := pf_array_index fr + 1\<rparr>" and rest = rest]) (auto simp: INT_MAX_def)
  moreover have "runs (bindr (discard_whitespace (s\<lparr>s_top := ?fr (Some key) # rest\<rparr>))
      (\<lambda>s. select_value mem PARSE_ARRAY_COMMA s)) (turn inp (json_measure s))" for key
    by (rule ws_turn [OF ok], rule select_value_turn [where fr = "?fr (Some key)" and rest = rest]) (use fr in \<open>auto simp: frame_kind_ok_def\<close>)
  ultimately show ?thesis
    using assms(2) fr(6) by (simp add: hdlr_array_value_def Let_def split: option.split)
qed

lemma top_upd_turn:
  assumes "s_top s = fr # rest"
  shows "top_upd f s = Inr (s\<lparr>s_top := f fr # rest\<rparr>)"
  using assms by (simp add: top_upd_def)

lemma reader_ok_top [simp]: "reader_ok inp (s\<lparr>s_top := x\<rparr>) = reader_ok inp s"
  by (simp add: reader_ok_def)

lemma reader_ok_nv [simp]: "reader_ok inp (s\<lparr>s_nv := x\<rparr>) = reader_ok inp s"
  by (simp add: reader_ok_def)

lemma hdlr_key_string_turn:
  assumes "json_inv inp s" "s_top s = fr # rest" "pf_ps fr = PARSE_KEY_STRING" "sane_alloc mem"
  shows "runs (hdlr_key_string mem s) (turn inp (json_measure s))"
proof -
  have fr: "reader_ok inp s" "pf_value fr = PV_NULL" "rest_ok rest" "pf_value_type fr = JSON_TYPE_OBJECT"
    "pf_nvl fr \<noteq> None" "json_measure s = 1 + 3 * chars_left s"
    using assms by (auto simp: turn_frame)
  have ne: "s_top s \<noteq> []" using assms(2) by simp
  show ?thesis
    unfolding hdlr_key_string_def
  proof (rule runs_bindI [OF collect_string_runs [OF fr(1) ne assms(4)]], goal_cases)
    case (1 x)
    obtain ok u where x: "x = (ok, u)" by (cases x)
    show ?case
    proof (cases ok)
      case False
      then show ?thesis using failed_turn [OF _ assms(2) fr(2,3)] 1 x fr(6) by simp
    next
      case True
      have u: "reader_ok inp u" "s_top u = fr # rest" "chars_left u < chars_left s"
        using 1 x True assms(2) by (auto simp: reads_or_fails_def)
      have "runs (posterror mem (u\<lparr>s_top := fr\<lparr>pf_key := None\<rparr> # rest\<rparr>) (Some ENOMEM) ''strdup failure'')
          (turn inp (json_measure s))"
        by (rule posterror_turn [where fr = "fr\<lparr>pf_key := None\<rparr>" and rest = rest]) (use u fr in \<open>auto simp: INT_MAX_def\<close>)
      moreover have "runs (movestate (u\<lparr>s_top := fr\<lparr>pf_key := Some key\<rparr> # rest\<rparr>) PARSE_COLON)
          (turn inp (json_measure s))" for key
        by (rule movestate_turn [where n = "chars_left s"]) (use u fr in \<open>auto simp: top_ok_def\<close>)
      ultimately show ?thesis
        using True x by (auto simp: top_upd_turn [OF u(2)] split: option.split
            intro!: runs_bindI [OF custr_cstr_runs [OF u(1)]])
    qed
  qed
qed

lemma hdlr_string_turn:
  assumes "json_inv inp s" "s_top s = fr # rest" "pf_ps fr = PARSE_STRING" "sane_alloc mem"
  shows "runs (hdlr_string mem s) (turn inp (json_measure s))"
proof -
  have fr: "reader_ok inp s" "pf_value fr = PV_NULL" "rest_ok rest" "rest \<noteq> []" "json_measure s = 1 + 3 * chars_left s"
    using assms by (auto simp: turn_frame)
  have ne: "s_top s \<noteq> []" using assms(2) by simp
  show ?thesis
    unfolding hdlr_string_def
  proof (rule runs_bindI [OF collect_string_runs [OF fr(1) ne assms(4)]], goal_cases)
    case (1 x)
    obtain ok u where x: "x = (ok, u)" by (cases x)
    show ?case
    proof (cases ok)
      case False
      then show ?thesis using failed_turn [OF _ assms(2) fr(2,3)] 1 x fr(5) by simp
    next
      case True
      have u: "reader_ok inp u" "s_top u = fr # rest" "chars_left u < chars_left s"
        using 1 x True assms(2) by (auto simp: reads_or_fails_def)
      have "runs (posterror mem (u\<lparr>s_top := fr\<lparr>pf_value_type := JSON_TYPE_STRING, pf_value := PV_NULL\<rparr> # rest\<rparr>)
          (Some ENOMEM) ''strdup failure'') (turn inp (json_measure s))"
        by (rule posterror_turn [where fr = "fr\<lparr>pf_value_type := JSON_TYPE_STRING, pf_value := PV_NULL\<rparr>" and rest = rest]) (use u fr in \<open>auto simp: INT_MAX_def\<close>)
      moreover have "runs (movestate (u\<lparr>s_top := fr\<lparr>pf_value_type := JSON_TYPE_STRING, pf_value := PV_str v\<rparr> # rest\<rparr>)
          PARSE_DONE) (turn inp (json_measure s))" for v
        by (rule movestate_turn [where n = "chars_left s"]) (use u fr in \<open>auto simp: top_ok_def value_done_def\<close>)
      ultimately show ?thesis
        using True x by (auto simp: top_upd_turn [OF u(2)] split: option.split
            intro!: runs_bindI [OF custr_cstr_runs [OF u(1)]])
    qed
  qed
qed

lemma value_done_ps: "value_done (g\<lparr>pf_ps := ps\<rparr>) = value_done g"
  by (simp add: value_done_def split: json_type.split)

lemma done_turn:
  assumes "reader_ok inp u" "s_top u = fr # rest" "rest_ok rest" "rest \<noteq> []" "chars_left u < n" "3 * n < k"
    and "value_done (f fr)"
  shows "runs (bindr (top_upd f u) (\<lambda>s. movestate s PARSE_DONE)) (turn inp k)"
  by (simp add: top_upd_turn [OF assms(2)],
      rule movestate_turn [where n = n and fr = "f fr" and rest = rest]) (use assms in \<open>auto simp: top_ok_def value_done_ps\<close>)

lemma hdlr_bareword_turn:
  assumes "json_inv inp s" "s_top s = fr # rest" "pf_ps fr = PARSE_BAREWORD" "sane_alloc mem"
  shows "runs (hdlr_bareword mem s) (turn inp (json_measure s))"
proof -
  have fr: "reader_ok inp s" "pf_value fr = PV_NULL" "rest_ok rest" "rest \<noteq> []" "json_measure s = 1 + 3 * chars_left s"
    using assms by (auto simp: turn_frame)
  have ne: "s_top s \<noteq> []" using assms(2) by simp
  show ?thesis
    unfolding hdlr_bareword_def
  proof (rule runs_bindI [OF collect_bareword_runs [OF fr(1) ne assms(4)]], goal_cases)
    case (1 x)
    obtain ok u where x: "x = (ok, u)" by (cases x)
    show ?case
    proof (cases ok)
      case False
      then show ?thesis using failed_turn [OF _ assms(2) fr(2,3)] 1 x fr(5) by simp
    next
      case True
      have u: "reader_ok inp u" "s_top u = fr # rest"
        "custr_cstr (s_collect u) = Inr [] \<or> chars_left u < chars_left s"
        using 1 x True assms(2) by (auto simp: reads_or_fails_def)
      have dn: "runs (bindr (top_upd f u) (\<lambda>s. movestate s PARSE_DONE)) (turn inp (json_measure s))"
        if "custr_cstr (s_collect u) = Inr str" "str \<noteq> []" "value_done (f fr)" for f str
        using u that fr by (intro done_turn [OF u(1,2) fr(3,4), where n = "chars_left s"]) (auto simp: value_done_ps)
      have er: "runs (posterror mem u (Some EPROTO)
          (''expected '' @ quoted ''true'' @ '', '' @ quoted ''false'' @ '' or '' @ quoted ''null'')) (turn inp (json_measure s))"
        using u fr by (intro posterror_turn) (auto simp: INT_MAX_def quoted_def)
      show ?thesis
        unfolding x prod.case using True er
        by (auto intro!: runs_bindI [OF custr_cstr_runs [OF u(1)]] dn simp: value_done_def fr(2))
    qed
  qed
qed

lemma hdlr_number_turn:
  assumes "json_inv inp s" "s_top s = fr # rest" "pf_ps fr = PARSE_NUMBER" "sane_alloc mem"
  shows "runs (hdlr_number mem s) (turn inp (json_measure s))"
proof -
  have fr: "reader_ok inp s" "pf_value fr = PV_NULL" "rest_ok rest" "rest \<noteq> []" "json_measure s = 1 + 3 * chars_left s"
    using assms by (auto simp: turn_frame)
  have ne: "s_top s \<noteq> []" using assms(2) by simp
  show ?thesis
    unfolding hdlr_number_def
  proof (rule runs_bindI [OF collect_number_runs [OF fr(1) ne assms(4)]], goal_cases)
    case (1 x)
    obtain v u where x: "x = (v, u)" by (cases x)
    show ?case
    proof (cases v)
      case None
      then show ?thesis
        using failed_turn [OF _ assms(2) fr(2,3)] 1 x fr(5) by (simp add: reads_number_def)
    next
      case (Some i)
      have u: "reader_ok inp u" "s_top u = fr # rest" "chars_left u < chars_left s"
        using 1 x Some assms(2) by (auto simp: reads_number_def reads_or_fails_def)
      show ?thesis
        unfolding x prod.case Some option.case
        using fr u by (intro done_turn [OF u(1,2) fr(3,4), where n = "chars_left s"]) (auto simp: value_done_def)
    qed
  qed
qed

section \<open>Objects and arrays\<close>

text \<open>The list of an object or array was made, or the failure was reported.\<close>

definition made_list :: "char list \<Rightarrow> ('h, 'p) jstate \<Rightarrow> 'p parse_frame \<Rightarrow> 'p parse_frame list
    \<Rightarrow> bool \<times> ('h, 'p) jstate \<Rightarrow> bool" where
  "made_list inp s fr rest res \<longleftrightarrow> reader_ok inp (snd res) \<and> chars_left (snd res) = chars_left s \<and>
     (if fst res then (\<exists>p. s_top (snd res) = fr\<lparr>pf_nvl := Some p\<rparr> # rest)
      else s_top (snd res) = err_top (fr # rest))"

lemma failwith_made:
  assumes "reader_ok inp s" "s_top s = fr # rest" "length msg \<le> INT_MAX"
  shows "runs (failwith mem (s\<lparr>s_nv := h\<rparr>) e msg) (\<lambda>res. \<not> fst res \<and> made_list inp s fr rest res)"
  unfolding failwith_def
  by (rule runs_bindI [OF posterror_runs [where inp = inp]]) (use assms in \<open>auto simp: made_list_def\<close>)

lemma add_empty_child_runs:
  assumes "reader_ok inp s" "s_top s = fr # rest" "rest_ok rest"
  shows "runs (add_empty_child N mem s) (made_list inp s fr rest)"
proof -
  note fw = failwith_made [OF assms(1,2)]
  have fail: "runs (failwith mem (s\<lparr>s_nv := h\<rparr>) e msg) (made_list inp s fr rest)"
    if "length msg \<le> INT_MAX" for h e msg
    using fw [OF that, of mem h e] by (rule runs_mono) simp
  have fail2: "runs (bindr (failwith mem (s\<lparr>s_nv := h\<rparr>) e msg) (\<lambda>(r, s). Inr (r, s\<lparr>s_nv := g s\<rparr>))) (made_list inp s fr rest)"
    if "length msg \<le> INT_MAX" for h e msg g
    by (rule runs_bindI [OF fw [OF that, of mem h e]]) (auto simp: made_list_def)
  obtain r h where a: "nvlist_alloc N (s_nv s) = (r, h)" by (cases "nvlist_alloc N (s_nv s)")
  show ?thesis
  proof (cases "r")
    case (Inl e)
    then show ?thesis using a fail by (simp add: add_empty_child_def INT_MAX_def)
  next
    case (Inr emp)
    show ?thesis
    proof (cases rest)
      case Nil
      then show ?thesis using a Inr assms(1,2) by (auto simp: add_empty_child_def made_list_def)
    next
      case (Cons parent frs)
      then obtain nvl key where pk: "pf_nvl parent = Some nvl" "pf_key parent = Some key"
        using assms(3) by (auto simp: suspended_def)
      show ?thesis
        using a Inr assms(1,2) Cons pk fail fail2
        by (auto simp: add_empty_child_def INT_MAX_def Let_def made_list_def split: prod.split sum.split)
    qed
  qed
qed

lemma end_array_turn:
  assumes "reader_ok inp u" "s_top u = fr # rest" "pf_value fr = PV_NULL" "rest_ok rest"
    and "pf_value_type fr = JSON_TYPE_ARRAY" "pf_nvl fr \<noteq> None" "chars_left u < n" "3 * n < k"
  shows "runs (end_array N mem u) (turn inp k)"
proof -
  obtain nvl where nvl: "pf_nvl fr = Some nvl" using assms(6) by blast
  let ?R = "\<lambda>(ok, t). reader_ok inp t \<and> chars_left t = chars_left u \<and>
      s_top t = (if ok then fr # rest else err_top (fr # rest))"
  have "runs (failwith mem (u\<lparr>s_nv := h\<rparr>) e ''nvlist_add failure'') ?R" for h e
    by (rule runs_mono [OF failwith_made [OF assms(1,2)]]) (auto simp: INT_MAX_def made_list_def)
  then have "runs (decorate_array N mem u) ?R"
    using assms(1,2) nvl by (auto simp: decorate_array_def split: prod.split sum.split)
  then show ?thesis
    unfolding end_array_def
  proof (rule runs_bindI, goal_cases)
    case (1 x)
    obtain ok t where x: "x = (ok, t)" by (cases x)
    show ?case
    proof (cases ok)
      case True
      then show ?thesis
        using 1 x assms by (auto intro!: movestate_turn [where n = n] simp: top_ok_def value_done_def)
    next
      case False
      then show ?thesis using 1 x assms turn_error [of inp t fr rest k] by simp
    qed
  qed
qed

lemma hdlr_array_comma_turn:
  assumes "json_inv inp s" "s_top s = fr # rest" "pf_ps fr = PARSE_ARRAY_COMMA"
  shows "runs (hdlr_array_comma N mem s) (turn inp (json_measure s))"
proof -
  have fr: "reader_ok inp s" "pf_value fr = PV_NULL" "rest_ok rest" "pf_value_type fr = JSON_TYPE_ARRAY"
    "pf_nvl fr \<noteq> None" "pf_key fr = None" "json_measure s = 1 + 3 * chars_left s"
    using assms by (auto simp: turn_frame)
  show ?thesis
    unfolding hdlr_array_comma_def
  proof (rule ws_pop_turn [OF fr(1)], unfold prod.case, intro runs_ifI, goal_cases)
    case (1 c u)
    then show ?case
      using fr assms(2) by (intro end_array_turn [where n = "chars_left s"]) (auto simp: took_def)
  next
    case (2 c u)
    then show ?case
      using fr assms(2) by (intro movestate_turn [where n = "chars_left s"]) (auto simp: took_def top_ok_def)
  next
    case (3 c u)
    then show ?case using fr assms(2) by (intro posterror_turn) (auto simp: took_def INT_MAX_def quoted_def)
  qed
qed

text \<open>The start of an object or an array: the list is made and reading goes on, or the turn ends.\<close>

lemma made_list_turn:
  assumes "reader_ok inp s" "s_top s = fr # rest" "pf_value fr = PV_NULL" "rest_ok rest" "0 < k"
    and "\<And>t p. reader_ok inp t \<Longrightarrow> chars_left t = chars_left s \<Longrightarrow>
      s_top t = fr\<lparr>pf_value_type := ty, pf_nvl := Some p\<rparr> # rest \<Longrightarrow> runs (f t) (turn inp k)"
  shows "runs (bindr (top_upd (\<lambda>fr. fr\<lparr>pf_value_type := ty\<rparr>) s) (\<lambda>s.
      bindr (add_empty_child N mem s) (\<lambda>(ok, s). if \<not> ok then Inr s else f s))) (turn inp k)"
proof -
  let ?fr = "fr\<lparr>pf_value_type := ty\<rparr>"
  let ?s = "s\<lparr>s_top := ?fr # rest\<rparr>"
  have "runs (bindr (add_empty_child N mem ?s) (\<lambda>(ok, s). if \<not> ok then Inr s else f s)) (turn inp k)"
  proof (rule runs_bindI [OF add_empty_child_runs [where inp = inp and fr = ?fr and rest = rest]], goal_cases)
    case (4 x)
    obtain ok t where x: "x = (ok, t)" by (cases x)
    show ?case
    proof (cases ok)
      case True
      then show ?thesis using 4 x assms(6) by (auto simp: made_list_def)
    next
      case False
      then show ?thesis using 4 x turn_error [of inp t ?fr rest k] assms(3-5) by (simp add: made_list_def)
    qed
  qed (use assms(1,4) in auto)
  then show ?thesis by (simp add: top_upd_turn [OF assms(2)])
qed

lemma hdlr_object_turn:
  assumes "json_inv inp s" "s_top s = fr # rest" "pf_ps fr = PARSE_OBJECT"
  shows "runs (hdlr_object N mem s) (turn inp (json_measure s))"
proof -
  have fr: "reader_ok inp s" "pf_value fr = PV_NULL" "rest_ok rest" "json_measure s = 1 + 3 * chars_left s"
    using assms by (auto simp: turn_frame)
  show ?thesis
    unfolding hdlr_object_def
  proof (rule made_list_turn [OF fr(1) assms(2) fr(2,3)], goal_cases)
    case 1
    then show ?case using fr(4) by simp
  next
    case (2 t p)
    let ?fr = "fr\<lparr>pf_value_type := JSON_TYPE_OBJECT, pf_nvl := Some p\<rparr>"
    show ?case
    proof (rule ws_pop_turn [OF 2(1)], unfold prod.case, intro runs_ifI, goal_cases)
      case (1 c u)
      then show ?case
        using 2 fr by (intro movestate_turn [where n = "chars_left s" and fr = ?fr and rest = rest])
          (auto simp: took_def top_ok_def value_done_def)
    next
      case (2 c u)
      then show ?case
        using \<open>s_top t = ?fr # rest\<close> \<open>chars_left t = chars_left s\<close> fr
        by (intro movestate_turn [where n = "chars_left s" and fr = ?fr and rest = rest]) (auto simp: took_def top_ok_def)
    next
      case (3 c u)
      then show ?case
        using \<open>s_top t = ?fr # rest\<close> fr
        by (intro posterror_turn [where fr = ?fr and rest = rest]) (auto simp: took_def INT_MAX_def quoted_def)
    qed
  qed
qed

lemma hdlr_array_turn:
  assumes "json_inv inp s" "s_top s = fr # rest" "pf_ps fr = PARSE_ARRAY"
  shows "runs (hdlr_array N mem s) (turn inp (json_measure s))"
proof -
  have fr: "reader_ok inp s" "pf_value fr = PV_NULL" "pf_key fr = None" "rest_ok rest" "json_measure s = 3 + 3 * chars_left s"
    using assms by (auto simp: turn_frame)
  show ?thesis
    unfolding hdlr_array_def
  proof (rule made_list_turn [OF fr(1) assms(2) fr(2,4)], goal_cases)
    case 1
    then show ?case using fr(5) by simp
  next
    case (2 t p)
    let ?fr = "fr\<lparr>pf_value_type := JSON_TYPE_ARRAY, pf_nvl := Some p\<rparr>"
    show ?case
    proof (rule ws_turn [OF 2(1)], goal_cases)
      case (1 u)
      note u = 1 2(2,3)
      show ?case
      proof (rule runs_bindI [OF peekchar_runs [OF u(1)]], intro runs_ifI, goal_cases)
        case (1 c)
        show ?case
        proof (rule peek_pop_turn [OF u(1) 1(1)], goal_cases)
          case 1
          then show ?case using \<open>c = CHR '']''\<close> by simp
        next
          case (2 x v)
          then show ?case
            using u fr \<open>c = CHR '']''\<close> by (auto simp: took_def intro!: end_array_turn [where n = "chars_left s" and fr = ?fr and rest = rest])
        qed
      next
        case (2 c)
        then show ?case
          using u fr by (simp add: movestate_def top_upd_def)
            (intro turn_move [where fr = "?fr\<lparr>pf_ps := PARSE_ARRAY_VALUE\<rparr>" and rest = rest], auto simp: top_ok_def)
      qed
    qed
  qed
qed

lemma dispatch_turn:
  assumes "json_inv inp s" "s_top s = fr # rest" "pf_ps fr \<notin> {PARSE_ERROR, PARSE_DONE}" "sane_alloc mem"
  shows "runs (dispatch N mem s) (turn inp (json_measure s))"
  using hdlr_rest_turn [OF assms(1,2)] hdlr_object_turn [OF assms(1,2)] hdlr_key_string_turn [OF assms(1,2) _ assms(4)]
    hdlr_colon_turn [OF assms(1,2)] hdlr_string_turn [OF assms(1,2) _ assms(4)] hdlr_object_comma_turn [OF assms(1,2)]
    hdlr_array_turn [OF assms(1,2)] hdlr_bareword_turn [OF assms(1,2) _ assms(4)] hdlr_number_turn [OF assms(1,2) _ assms(4)]
    hdlr_array_value_turn [OF assms(1,2)] hdlr_array_comma_turn [OF assms(1,2)] assms(2,3)
  by (cases "pf_ps fr") (simp_all add: dispatch_def hdlrs_def)

section \<open>Popping frames, and the whole loop\<close>

abbreviation no_values :: "'p parse_frame list \<Rightarrow> bool" where
  "no_values frs \<equiv> \<forall>f \<in> set frs. pf_value f = PV_NULL"

lemma rest_no_values: "rest_ok rest \<Longrightarrow> no_values rest"
  by (auto simp: suspended_def)

lemma add_value_runs:
  assumes "value_done fr"
  shows "runs (add_value N h targ key (pf_value_type fr) (pf_value fr)) (\<lambda>_. True)"
  using assms by (cases "pf_value_type fr"; cases "pf_value fr") (auto simp: add_value_def value_done_def Let_def)

definition stored :: "char list \<Rightarrow> ('h, 'p) jstate \<Rightarrow> 'p parse_frame \<Rightarrow> 'p parse_frame list
    \<Rightarrow> bool \<times> ('h, 'p) jstate \<Rightarrow> bool" where
  "stored inp s parent frs res \<longleftrightarrow> reader_ok inp (snd res) \<and> chars_left (snd res) = chars_left s \<and>
     (\<exists>fr. s_top (snd res) = fr # parent\<lparr>pf_key := None\<rparr> # frs \<and> pf_value fr = PV_NULL)"

lemma store_value_runs:
  assumes "reader_ok inp s" "s_top s = fr # parent # frs" "value_done fr" "suspended parent"
  shows "runs (store_value N mem s) (stored inp s parent frs)"
proof -
  obtain targ key where pk: "pf_nvl parent = Some targ" "pf_key parent = Some key"
    using assms(4) by (auto simp: suspended_def)
  have msg: "length msg \<le> INT_MAX"
    if "add_value N h targ key ty v = Inr (Some (e, msg), h')" for h ty v e msg h'
    using that by (cases ty; cases v) (auto simp: add_value_def INT_MAX_def Let_def split: prod.splits sum.splits)
  let ?m = "add_value N (s_nv s) targ key (pf_value_type fr) (pf_value fr)"
  have add: "runs ?m (\<lambda>x. ?m = Inr x)"
    using add_value_runs [OF assms(3), of N "s_nv s" targ key] by (auto simp: runs_def)
  have "runs (bindr ?m (\<lambda>(err, h).
      bindr (case err of None \<Rightarrow> Inr (s\<lparr>s_nv := h\<rparr>) | Some (e, msg) \<Rightarrow> posterror mem (s\<lparr>s_nv := h\<rparr>) e msg) (\<lambda>s.
      case s_top s of fr # parent # frs \<Rightarrow>
        Inr (err = None, s\<lparr>s_top := fr\<lparr>pf_value := PV_NULL\<rparr> # parent\<lparr>pf_key := None\<rparr> # frs\<rparr>)
      | _ \<Rightarrow> Inl Fault_Null))) (stored inp s parent frs)"
  proof (rule runs_bindI [OF add], unfold split_beta, goal_cases)
    case (1 x)
    show ?case
    proof (cases "fst x")
      case None
      then show ?thesis using assms(1,2) by (auto simp: stored_def)
    next
      case (Some em)
      have "?m = Inr (Some (fst em, snd em), snd x)" using 1 Some by (simp add: prod_eq_iff)
      then have len: "length (snd em) \<le> INT_MAX" by (rule msg)
      have "runs (posterror mem (s\<lparr>s_nv := snd x\<rparr>) (fst em) (snd em)) (\<lambda>s'. reader_ok inp s' \<and>
          chars_left s' = chars_left (s\<lparr>s_nv := snd x\<rparr>) \<and> s_top s' = err_top (s_top (s\<lparr>s_nv := snd x\<rparr>)))"
        by (rule posterror_runs) (use assms(1,2) len in auto)
      then show ?thesis
        using Some assms(2) by (auto simp: split_beta stored_def intro!: runs_bindI)
    qed
  qed
  then show ?thesis using assms(2) pk by (simp add: store_value_def)
qed

text \<open>The first half of a turn.\<close>

definition popped :: "char list \<Rightarrow> ('h, 'p) jstate \<Rightarrow> ('p option \<times> ('h, 'p) jstate) + ('h, 'p) jstate \<Rightarrow> bool" where
  "popped inp s r \<longleftrightarrow>
     (case r of
        Inl (nvlp, s') \<Rightarrow> reader_ok inp s' \<and> no_values (s_top s')
      | Inr s' \<Rightarrow> json_inv inp s' \<and> json_measure s' \<le> json_measure s \<and>
          (\<exists>fr rest. s_top s' = fr # rest \<and> pf_ps fr \<notin> {PARSE_ERROR, PARSE_DONE}))"

lemma json_pop_runs:
  assumes "json_inv inp s"
  shows "runs (json_pop N mem s) (popped inp s)"
proof -
  obtain fr rest where top: "s_top s = fr # rest" using assms by (cases "s_top s") (auto simp: json_inv_def stack_ok_def)
  have ok: "reader_ok inp s" "top_ok fr rest" "rest_ok rest" using assms top by (auto simp: json_inv_def stack_ok_def)
  note nv = rest_no_values [OF ok(3)]
  consider "pf_ps fr = PARSE_ERROR" | "pf_ps fr = PARSE_DONE" "rest = []"
    | parent frs where "pf_ps fr = PARSE_DONE" "rest = parent # frs"
    | "pf_ps fr \<noteq> PARSE_ERROR" "pf_ps fr \<noteq> PARSE_DONE" by (cases rest) auto
  then show ?thesis
  proof cases
    case 1
    then show ?thesis using top ok nv by (simp add: json_pop_def popped_def top_ok_def)
  next
    case 2
    then show ?thesis using top ok by (simp add: json_pop_def popped_def top_ok_def)
  next
    case 3
    have vd: "value_done fr" "suspended parent" "frame_kind_ok parent" "rest_ok frs" using ok(2,3) 3 by (auto simp: top_ok_def)
    have "json_measure s = 1 + 3 * chars_left s" using top 3 by (simp add: json_measure_def)
    moreover have "top_ok (parent\<lparr>pf_key := None\<rparr>) frs" "json_rank (pf_ps parent) = 0" "pf_ps parent \<notin> {PARSE_ERROR, PARSE_DONE}"
      using vd(2,3) by (auto simp: suspended_def frame_kind_ok_def top_ok_def)
    ultimately have "runs (bindr (store_value N mem s) (\<lambda>(ok, s).
        if \<not> ok then Inr (Inl (None, s)) else (case s_top s of [] \<Rightarrow> Inl Fault_Null
          | fr # rest \<Rightarrow> bindr (parse_frame_free N (s_nv s) fr False) (\<lambda>h. Inr (Inr (s\<lparr>s_nv := h, s_top := rest\<rparr>))))))
        (popped inp s)"
      using vd rest_no_values [OF vd(4)] top 3
      by (intro runs_bindI [OF store_value_runs [OF ok(1) _ vd(1,2), of frs]])
        (auto simp: stored_def popped_def suspended_def parse_frame_free_def json_inv_def stack_ok_def json_measure_def)
    then show ?thesis using top 3 by (simp add: json_pop_def)
  next
    case 4
    then show ?thesis using assms top by (simp add: json_pop_def popped_def)
  qed
qed

lemma json_step_runs:
  assumes "json_inv inp s" "sane_alloc mem"
  shows "runs (json_step N mem s) (\<lambda>r. case r of
      Inl (nvlp, s') \<Rightarrow> reader_ok inp s' \<and> no_values (s_top s') | Inr s' \<Rightarrow> turn inp (json_measure s) s')"
  unfolding json_step_def
proof (rule runs_bindI [OF json_pop_runs [OF assms(1)]], goal_cases)
  case (1 r)
  show ?case
  proof (cases r)
    case (Inl a)
    then show ?thesis using 1 by (simp add: popped_def)
  next
    case (Inr t)
    then obtain fr rest where t: "json_inv inp t" "json_measure t \<le> json_measure s" "s_top t = fr # rest"
      "pf_ps fr \<notin> {PARSE_ERROR, PARSE_DONE}" using 1 by (auto simp: popped_def)
    show ?thesis
      using Inr t(2) by (auto intro!: runs_bindI [OF dispatch_turn [OF t(1,3,4) assms(2)]] simp: turn_def)
  qed
qed

lemma json_loop_runs:
  assumes "sane_alloc mem"
  shows "json_inv inp s \<Longrightarrow> json_measure s < n \<Longrightarrow>
    runs (json_loop N mem n s) (\<lambda>(nvlp, s'). reader_ok inp s' \<and> no_values (s_top s'))"
proof (induction n arbitrary: s)
  case (Suc n)
  show ?case
    unfolding json_loop.simps
  proof (rule runs_bindI [OF json_step_runs [OF Suc.prems(1) assms]], goal_cases)
    case (1 r)
    then show ?case using Suc.IH Suc.prems(2) by (cases r) (auto simp: turn_def)
  qed
qed simp

lemma free_frames_runs: "no_values frs \<Longrightarrow> runs (free_frames N b frs h) (\<lambda>_. True)"
  by (induction frs arbitrary: h) (auto simp: parse_frame_free_def)

definition pos_in_text :: "char list \<Rightarrow> ('h, 'p) json_result \<Rightarrow> bool" where
  "pos_in_text inp r \<longleftrightarrow> (case jr_errout r of None \<Rightarrow> True | Some (e, pos) \<Rightarrow> pos \<le> length inp + 1)"

lemma json_out_runs:
  assumes "reader_ok inp s" "no_values (s_top s)"
  shows "runs (json_out N want nvlp s) (pos_in_text inp)"
  unfolding json_out_def
  by (rule runs_bindI [OF free_frames_runs [OF assms(2)]]) (use assms(1) in \<open>auto simp: reader_ok_def pos_in_text_def\<close>)

lemma custr_reset_fixed: "fixed_text cu \<Longrightarrow> \<exists>cu'. custr_reset cu = Inr cu' \<and> fixed_text cu'"
  unfolding fixed_text_def using custr_reset_rep by blast

lemma json_errstr_returns:
  assumes "reader_ok inp s" "case errbuf of None \<Rightarrow> True | Some (a, b) \<Rightarrow> length b = 512 \<and> 512 \<le> a"
  shows "\<exists>r s'. json_errstr mem errbuf s = Inr (r, s') \<and> reader_ok inp s' \<and> s_top s' = s_top s \<and> s_pos s' = s_pos s \<and>
    (good_alloc mem \<longrightarrow> r = Ret_ok \<and> s_errno s' = s_errno s)"
proof (cases errbuf)
  case None
  then show ?thesis using assms(1) by (simp add: json_errstr_def)
next
  case (Some ab)
  obtain a b where ab: "ab = (a, b)" "length b = 512" "512 \<le> a" using assms Some by (cases ab) auto
  obtain b' where b': "buf_put b 0 [NUL] = Inr b'" "buf_holds b' [NUL]" "length b' = 512"
    using buf_put_append [OF buf_holds_Nil, of "[NUL]" b] ab(2) by auto
  let ?cu = "\<lparr>cus_strlen = 0, cus_datalen = 512, cus_data = Some (a, b'), cus_fixed = True\<rparr>"
  have "fixed_text ?cu" using ab b' by (auto simp: fixed_text_def custr_rep_def)
  then obtain cu' where "custr_reset ?cu = Inr cu'" "fixed_text cu'" using custr_reset_fixed by blast
  then show ?thesis
    using Some ab b' assms(1)
    by (auto simp: json_errstr_def custr_alloc_buf_def custr_alloc_def reader_ok_def dest: good_allocD [of _ 32] split: option.split)
qed

lemma json_errstr_runs:
  assumes "reader_ok inp s" "case errbuf of None \<Rightarrow> True | Some (a, b) \<Rightarrow> length b = 512 \<and> 512 \<le> a"
  shows "runs (json_errstr mem errbuf s) (\<lambda>(r, s'). reader_ok inp s' \<and> s_top s' = s_top s \<and> s_pos s' = s_pos s)"
  using json_errstr_returns [OF assms, of mem] by (auto simp: runs_def)

lemma json_run_runs:
  assumes "reader_ok inp s" "s_top s = []" "s_pos s = 0" "sane_alloc mem" "3 * length inp + 5 \<le> fuel"
  shows "runs (json_run N mem fuel want s) (pos_in_text inp)"
proof -
  let ?s = "s\<lparr>s_top := [frame_new PARSE_REST]\<rparr>"
  have "s_len s = length inp" using assms(1) by (simp add: reader_ok_def)
  then have m: "json_measure ?s < fuel" using assms(3,5) by (simp add: json_measure_def frame_new_def)
  have inv: "json_inv inp ?s" using assms(1) by (simp add: json_inv_def stack_ok_def top_ok_def frame_new_def)
  have "runs (bindr (json_loop N mem fuel ?s) (\<lambda>(nvlp, s). json_out N want nvlp s)) (pos_in_text inp)"
    by (rule runs_bindI [OF json_loop_runs [OF assms(4) inv m]]) (auto intro!: json_out_runs)
  moreover have "runs (json_out N want None (s\<lparr>s_errno := Some ENOMEM\<rparr>)) (pos_in_text inp)"
    using assms(1,2) by (intro json_out_runs) (auto simp: reader_ok_def)
  ultimately show ?thesis by (simp add: json_run_def split: option.split)
qed

section \<open>Properties\<close>



text \<open>C39: The terminator is needed: on a buffer of white space that holds exactly the \<^verbatim>\<open>buflen\<close> bytes
  the caller announces, the parser reads the byte behind the buffer, because the end of the text is
  tested with \<^verbatim>\<open>s_pos > s_len\<close>.\<close>

theorem nvlist_parse_json_reads_past_end:
  assumes "good_alloc mem" "\<forall>c \<in> set inp. isspace c" "0 < fuel"
  shows "nvlist_parse_json N mem fuel h inp (length inp) 0 None = Inl Fault_OOB"
proof -
  have ws: "discard_whitespace s = Inl Fault_OOB"
    if "s_in s = inp" "s_len s = length inp" "s_pos s \<le> s_len s" for s :: "('a, 'b) jstate"
    using that
  proof (induction s rule: discard_whitespace.induct)
    case (1 s)
    show ?case
    proof (cases "s_pos s = s_len s")
      case True
      then show ?thesis using 1(2,3) by (subst discard_whitespace.simps) (simp add: peekchar_def)
    next
      case False
      then have lt: "s_pos s < length inp" using 1(3,4) by simp
      then have c: "peekchar s = Inr (inp ! s_pos s)" "isspace (inp ! s_pos s)"
        "popchar s = Inr (inp ! s_pos s, s\<lparr>s_pos := s_pos s + 1\<rparr>)"
        using 1(2,3) assms(2) by (auto simp: peekchar_def popchar_def)
      then show ?thesis
        using 1(1) [OF c(1,2,3) refl] 1(2,3) lt by (subst discard_whitespace.simps) simp
    qed
  qed
  obtain cu where cu: "custr_alloc mem = (Ret_ok, Some cu)" using custr_alloc_dyn [OF assms(1)] by blast
  obtain a where a: "mem 56 = Some a" using good_allocD [OF assms(1)] by blast
  obtain n where n: "fuel = Suc n" using assms(3) by (cases fuel) auto
  show ?thesis
    using cu a n
    by (simp add: nvlist_parse_json_def json_errstr_def json_run_def json_start_def json_step_def json_pop_def
        frame_new_def dispatch_def hdlrs_def hdlr_rest_def ws)
qed

theorem nvlist_parse_json_reads_past_end_witness:
  "nvlist_parse_json tree_nv heap_base 1 (0, \<lambda>_. []) '' '' 1 0 None = Inl Fault_OOB"
  using nvlist_parse_json_reads_past_end [OF good_heap_base, of "'' ''" 1 tree_nv "(0, \<lambda>_. [])"]
  by (simp add: isspace_def)

text \<open>C40: A library call that fails without setting \<^verbatim>\<open>errno\<close> makes the parser report success: it
  posts \<^verbatim>\<open>errno\<close> instead of the returned error number, so when \<^verbatim>\<open>nvlist_alloc\<close> fails and
  \<^verbatim>\<open>errno\<close> is 0, the call on any object returns 0 and stores no list for the caller.\<close>

theorem nvlist_parse_json_success_without_list:
  assumes "good_alloc mem" "nvlist_alloc N h = (Inl None, h')" "3 \<le> fuel"
  shows "nvlist_parse_json N mem fuel h (CHR ''{'' # rest @ [NUL]) (length rest + 1) 0 None =
    Inr \<lparr>jr_errno = None, jr_nvl = None, jr_errout = None, jr_nv = h'\<rparr>"
proof -
  obtain cu where cu: "custr_alloc mem = (Ret_ok, Some cu)" using custr_alloc_dyn [OF assms(1)] by blast
  obtain a where a: "mem 56 = Some a" using good_allocD [OF assms(1)] by blast
  obtain n where n: "fuel = Suc (Suc (Suc n))" using assms(3) by (metis Suc_le_D numeral_3_eq_3 Suc_le_mono)
  show ?thesis
    using cu a n assms(2)
    by (simp add: nvlist_parse_json_def json_errstr_def json_run_def json_start_def json_step_def json_pop_def
        frame_new_def dispatch_def hdlrs_def hdlr_rest_def discard_whitespace_none isspace_def popchar_def movestate_def top_upd_def hdlr_object_def
        add_empty_child_def failwith_def posterror_def json_out_def parse_frame_free_def)
qed

theorem nvlist_parse_json_success_without_list_witness:
  "nvlist_parse_json (tree_nv\<lparr>nvlist_alloc := (\<lambda>h. (Inl None, h))\<rparr>) heap_base 3 (0, \<lambda>_. []) (''{}'' @ [NUL]) 2 0 None =
    Inr \<lparr>jr_errno = None, jr_nvl = None, jr_errout = None, jr_nv = (0, \<lambda>_. [])\<rparr>"
  using nvlist_parse_json_success_without_list [OF good_heap_base,
      of "tree_nv\<lparr>nvlist_alloc := (\<lambda>h. (Inl None, h))\<rparr>" "(0, \<lambda>_. [])" "(0, \<lambda>_. [])" 3 "''}''"]
  by (simp add: numeral_2_eq_2)

end
