(* ===== verification/Json_Grammar.thy ===== *)
theory Json_Grammar
  imports Json_Safety
begin

text \<open>
  The JSON parser on well-formed text. The grammar below is the fragment of JSON the parser supports
  (objects, arrays, strings, 32-bit integers, the three words, white space anywhere); \<open>nv_of\<close> is the
  name-value representation of a value. Every text of the grammar is parsed to the representation of
  its value: the proof follows the derivation, with one lemma per handler that runs it on the text
  before it.
\<close>

section \<open>Values and their representation\<close>

datatype json =
    J_null
  | J_bool bool
  | J_int int
  | J_str "char list"
  | J_arr "json list"
  | J_obj "(char list \<times> json) list"

text \<open>
  An array is a list with the indices as names, a marker and the length; \<open>i\<close> is the index of the next
  element and \<open>ps\<close> what was stored before.
\<close>

fun nv_of :: "json \<Rightarrow> nvval"
  and put_elems :: "nat \<Rightarrow> json list \<Rightarrow> nvpairs \<Rightarrow> nvpairs"
  and put_members :: "(char list \<times> json) list \<Rightarrow> nvpairs \<Rightarrow> nvpairs" where
  "nv_of J_null = NV_boolean"
| "nv_of (J_bool b) = NV_boolean_value b"
| "nv_of (J_int i) = NV_int32 i"
| "nv_of (J_str s) = NV_string s"
| "nv_of (J_arr vs) = NV_nvlist (put_elems 0 vs [])"
| "nv_of (J_obj kvs) = NV_nvlist (put_members kvs [])"
| "put_elems i [] ps = nv_put ''length'' (NV_uint32 (word_of_int (int i))) (nv_put JSON_MARKER_ARRAY NV_boolean ps)"
| "put_elems i (v # vs) ps = put_elems (Suc i) vs (nv_put (fmt_d (int i)) (nv_of v) ps)"
| "put_members [] ps = ps"
| "put_members ((k, v) # kvs) ps = put_members kvs (nv_put k (nv_of v) ps)"

section \<open>The grammar\<close>

definition blank :: "char list \<Rightarrow> bool" where
  "blank w \<longleftrightarrow> (\<forall>c \<in> set w. isspace c)"

abbreviation QUOTE :: char where "QUOTE \<equiv> CHR 0x22"
abbreviation BACKSLASH :: char where "BACKSLASH \<equiv> CHR 0x5C"

text \<open>
  The inside of a string. The four digits of a Unicode escape are read as a decimal number, as the
  code does.
\<close>

inductive jstring :: "char list \<Rightarrow> char list \<Rightarrow> bool" where
  str_end: "jstring [] []"
| str_char: "c \<notin> {QUOTE, BACKSLASH, NUL} \<Longrightarrow> jstring s t \<Longrightarrow> jstring (c # s) (c # t)"
| str_escape: "(c, d) \<in> set escape_pairs \<Longrightarrow> jstring s t \<Longrightarrow> jstring (d # s) (BACKSLASH # c # t)"
| str_unicode: "length ds = 4 \<Longrightarrow> \<forall>d \<in> set ds. isdigit d \<Longrightarrow> 0 < atoi ds \<Longrightarrow> atoi ds \<le> 127 \<Longrightarrow>
    jstring s t \<Longrightarrow> jstring (char_of_int (atoi ds) # s) (BACKSLASH # CHR ''u'' # ds @ t)"

text \<open>
  Values; the elements of an array from the first character of an element on, and the members of an
  object from behind the opening quote of a key on.
\<close>

inductive jvalue :: "json \<Rightarrow> char list \<Rightarrow> bool"
  and jelems :: "json list \<Rightarrow> char list \<Rightarrow> bool"
  and jmembers :: "(char list \<times> json) list \<Rightarrow> char list \<Rightarrow> bool" where
  val_null: "jvalue J_null ''null''"
| val_true: "jvalue (J_bool True) ''true''"
| val_false: "jvalue (J_bool False) ''false''"
| val_nat: "ds \<noteq> [] \<Longrightarrow> \<forall>d \<in> set ds. isdigit d \<Longrightarrow> eval_base 10 ds < 2 ^ 31 \<Longrightarrow>
    jvalue (J_int (int (eval_base 10 ds))) ds"
| val_neg: "ds \<noteq> [] \<Longrightarrow> \<forall>d \<in> set ds. isdigit d \<Longrightarrow> eval_base 10 ds < 2 ^ 31 \<Longrightarrow>
    jvalue (J_int (- int (eval_base 10 ds))) (CHR ''-'' # ds)"
| val_str: "jstring s t \<Longrightarrow> jvalue (J_str s) (QUOTE # t @ [QUOTE])"
| val_arr0: "blank w \<Longrightarrow> jvalue (J_arr []) (CHR ''['' # w @ '']'')"
| val_arr: "blank w \<Longrightarrow> jelems vs t \<Longrightarrow> length vs < 2 ^ 31 \<Longrightarrow> jvalue (J_arr vs) (CHR ''['' # w @ t @ '']'')"
| val_obj0: "blank w \<Longrightarrow> jvalue (J_obj []) (CHR ''{'' # w @ ''}'')"
| val_obj: "blank w \<Longrightarrow> jmembers kvs t \<Longrightarrow> jvalue (J_obj kvs) (CHR ''{'' # w @ QUOTE # t @ ''}'')"
| elem_last: "jvalue v t \<Longrightarrow> blank w \<Longrightarrow> jelems [v] (t @ w)"
| elem_more: "jvalue v t \<Longrightarrow> blank w \<Longrightarrow> blank w' \<Longrightarrow> jelems vs ts \<Longrightarrow>
    jelems (v # vs) (t @ w @ CHR '','' # w' @ ts)"
| mem_last: "jstring k kt \<Longrightarrow> blank w1 \<Longrightarrow> blank w2 \<Longrightarrow> jvalue v t \<Longrightarrow> blank w3 \<Longrightarrow>
    jmembers [(k, v)] (kt @ QUOTE # w1 @ CHR '':'' # w2 @ t @ w3)"
| mem_more: "jstring k kt \<Longrightarrow> blank w1 \<Longrightarrow> blank w2 \<Longrightarrow> jvalue v t \<Longrightarrow> blank w3 \<Longrightarrow> blank w4 \<Longrightarrow>
    jmembers kvs ts \<Longrightarrow>
    jmembers ((k, v) # kvs) (kt @ QUOTE # w1 @ CHR '':'' # w2 @ t @ w3 @ CHR '','' # w4 @ QUOTE # ts)"

section \<open>Reading along a text\<close>

text \<open>The text from the position on, in a buffer that ends with one byte after \<^verbatim>\<open>s_len\<close>.\<close>

definition cursor :: "('h, 'p) jstate \<Rightarrow> char list \<Rightarrow> bool" where
  "cursor s r \<longleftrightarrow> length (s_in s) = s_len s + 1 \<and> s_pos s \<le> length (s_in s) \<and> drop (s_pos s) (s_in s) = r"

lemma cursor_Cons: "cursor s (c # r) \<Longrightarrow> s_pos s \<le> s_len s \<and> s_pos s < length (s_in s) \<and> s_in s ! s_pos s = c"
proof -
  assume a: "cursor s (c # r)"
  then have l: "s_pos s < length (s_in s)" by (cases "s_pos s < length (s_in s)") (auto simp: cursor_def)
  then have "s_in s ! s_pos s = c" using a by (auto simp: cursor_def nth_via_drop)
  then show ?thesis using a l by (simp add: cursor_def)
qed

lemma cursor_peek: "cursor s (c # r) \<Longrightarrow> peekchar s = Inr c"
  using cursor_Cons [of s c r] by (auto simp: peekchar_def)

lemma cursor_pop: "cursor s (c # r) \<Longrightarrow> popchar s = Inr (c, s\<lparr>s_pos := s_pos s + 1\<rparr>)"
  using cursor_Cons [of s c r] by (auto simp: popchar_def)

lemma cursor_step: "cursor s (c # r) \<Longrightarrow> cursor (s\<lparr>s_pos := s_pos s + 1\<rparr>) r"
  using cursor_Cons [of s c r] by (auto simp: cursor_def drop_Suc simp flip: tl_drop)

lemma cursor_cong:
  "s_in s' = s_in s \<Longrightarrow> s_len s' = s_len s \<Longrightarrow> s_pos s' = s_pos s \<Longrightarrow> cursor s' r = cursor s r"
  by (simp add: cursor_def)

text \<open>
  A function that reads \<open>x\<close> and leaves everything but the position and the collect buffer as it is:
  \<open>moved\<close> is the state it leaves.
\<close>

definition moved :: "('h, 'p) jstate \<Rightarrow> char list \<Rightarrow> ('h, 'p) jstate \<Rightarrow> bool" where
  "moved s r s' \<longleftrightarrow> cursor s' r \<and> s_top s' = s_top s \<and> s_nv s' = s_nv s \<and> s_errno s' = s_errno s \<and>
     (\<exists>cs. custr_dyn (s_collect s') cs)"

definition ready :: "('h, 'p) jstate \<Rightarrow> char list \<Rightarrow> bool" where
  "ready s r \<longleftrightarrow> cursor s r \<and> s_errno s = None \<and> (\<exists>cs. custr_dyn (s_collect s) cs)"

lemma moved_ready: "moved s r s' \<Longrightarrow> s_errno s = None \<Longrightarrow> ready s' r"
  by (simp add: moved_def ready_def)

lemma moved_trans: "moved s r t \<Longrightarrow> moved t q u \<Longrightarrow> moved s q u"
  by (simp add: moved_def)

lemma pop_moved: "ready s (c # r) \<Longrightarrow> \<exists>s'. popchar s = Inr (c, s') \<and> moved s r s'"
  using cursor_pop [of s c r] cursor_step [of s c r] by (auto simp: ready_def moved_def)

lemma ready_peek: "ready s (c # r) \<Longrightarrow> peekchar s = Inr c"
  by (auto simp: ready_def intro: cursor_peek)

lemma whitespace_moved:
  "ready s (w @ c # r) \<Longrightarrow> blank w \<Longrightarrow> \<not> isspace c \<Longrightarrow> \<exists>s'. discard_whitespace s = Inr s' \<and> moved s (c # r) s'"
proof (induction w arbitrary: s)
  case Nil
  then show ?case
    using ready_peek [of s c r] by (subst discard_whitespace.simps) (auto simp: moved_def ready_def)
next
  case (Cons a w)
  obtain t where t: "popchar s = Inr (a, t)" "moved s (w @ c # r) t" using pop_moved Cons.prems(1) by force
  have "ready t (w @ c # r)" using moved_ready [OF t(2)] Cons.prems(1) by (simp add: ready_def)
  with Cons.IH [of t] Cons.prems obtain u where "discard_whitespace t = Inr u" "moved t (c # r) u"
    by (auto simp: blank_def)
  moreover have "peekchar s = Inr a" "isspace a" using Cons.prems ready_peek by (auto simp: blank_def)
  ultimately show ?case
    using t moved_trans [OF t(2)] by (subst discard_whitespace.simps) auto
qed

section \<open>Strings, words and numbers\<close>

text \<open>Collected text: what the buffer holds after a function that moved along.\<close>

definition collected :: "('h, 'p) jstate \<Rightarrow> char list \<Rightarrow> char list \<Rightarrow> ('h, 'p) jstate \<Rightarrow> bool" where
  "collected s r cs s' \<longleftrightarrow> moved s r s' \<and> custr_dyn (s_collect s') cs"

lemma collected_trans: "collected s r cs t \<Longrightarrow> collected t q ds u \<Longrightarrow> collected s q ds u"
  by (auto simp: collected_def moved_def)

lemma moved_collected: "moved s r t \<Longrightarrow> s_collect t = s_collect s \<Longrightarrow> custr_dyn (s_collect s) cs \<Longrightarrow> collected s r cs t"
  by (auto simp: collected_def)

lemma collected_ready: "collected s r cs t \<Longrightarrow> s_errno s = None \<Longrightarrow> ready t r"
  by (auto simp: collected_def intro: moved_ready)

lemma pop_collected:
  assumes "cursor s (c # r)" "custr_dyn (s_collect s) cs"
  shows "\<exists>t. popchar s = Inr (c, t) \<and> collected s r cs t"
  using cursor_pop [OF assms(1)] cursor_step [OF assms(1)] assms(2) by (auto simp: collected_def moved_def)

context working_heap
begin

lemma collect_char_collected:
  assumes "cursor s r" "custr_dyn (s_collect s) cs"
  shows "\<exists>t. collect_char mem s c msg = Inr (True, t) \<and> collected s r (cs @ [c]) t"
proof -
  obtain cu where "custr_appendc mem (s_collect s) c = Inr (Ret_ok, cu)" "custr_dyn cu (cs @ [c])"
    using custr_appendc_dyn [OF assms(2) good] by blast
  then show ?thesis
    using assms(1) by (auto simp: collect_char_def collected_def moved_def cursor_def)
qed

lemma pop_digits_collected:
  "cursor s (ds @ r) \<Longrightarrow> NUL \<notin> set ds \<Longrightarrow> custr_dyn (s_collect s) cs \<Longrightarrow>
   \<exists>t. pop_digits (length ds) s = Inr (Some ds, t) \<and> collected s r cs t"
proof (induction ds arbitrary: s)
  case Nil
  then show ?case by (auto simp: collected_def moved_def)
next
  case (Cons d ds)
  obtain t where t: "popchar s = Inr (d, t)" "collected s (ds @ r) cs t"
    using pop_collected Cons.prems(1,3) by force
  then have "cursor t (ds @ r)" "custr_dyn (s_collect t) cs" by (auto simp: collected_def moved_def)
  with Cons.IH [of t] Cons.prems(2) obtain u where "pop_digits (length ds) t = Inr (Some ds, u)" "collected t r cs u"
    by auto
  then show ?case using t Cons.prems(2) collected_trans [OF t(2)] by auto
qed

lemma escape_collected:
  assumes "cursor s (x @ r)" "custr_dyn (s_collect s) cs"
    and "(\<exists>c. x = [c] \<and> (c, d) \<in> set escape_pairs) \<or>
      (\<exists>ds. x = CHR ''u'' # ds \<and> length ds = 4 \<and> NUL \<notin> set ds \<and> d = char_of_int (atoi ds) \<and> atoi ds \<le> 127)"
  shows "\<exists>t. collect_string_escape mem s = Inr (True, t) \<and> collected s r (cs @ [d]) t"
  using assms(3)
proof (elim disjE exE conjE)
  fix c assume x: "x = [c]" "(c, d) \<in> set escape_pairs"
  then have c: "c \<noteq> NUL" "c \<noteq> CHR ''u''" "map_of escape_pairs c = Some d"
    by (auto simp: escape_pairs_def)
  obtain t where t: "popchar s = Inr (c, t)" "collected s r cs t"
    using pop_collected [of s c r cs] assms(1,2) x(1) by auto
  then have "cursor t r" "custr_dyn (s_collect t) cs" by (auto simp: collected_def moved_def)
  from collect_char_collected [OF this, of d "''custr_appendc failure''"] obtain u where
    "collect_char mem t d ''custr_appendc failure'' = Inr (True, u)" "collected t r (cs @ [d]) u" by blast
  then show ?thesis
    using t c collected_trans [OF t(2)] by (auto simp: collect_string_escape_def)
next
  fix ds assume x: "x = CHR ''u'' # ds" "length ds = 4" "NUL \<notin> set ds" "d = char_of_int (atoi ds)" "atoi ds \<le> 127"
  obtain t where t: "popchar s = Inr (CHR ''u'', t)" "collected s (ds @ r) cs t"
    using pop_collected [of s "CHR ''u''" "ds @ r" cs] assms(1,2) x(1) by auto
  then have "cursor t (ds @ r)" "custr_dyn (s_collect t) cs" by (auto simp: collected_def moved_def)
  from pop_digits_collected [OF this(1) x(3) this(2)] obtain u where
    u: "pop_digits 4 t = Inr (Some ds, u)" "collected t r cs u" using x(2) by auto
  then have "cursor u r" "custr_dyn (s_collect u) cs" by (auto simp: collected_def moved_def)
  from collect_char_collected [OF this, of d "''custr_appendc failure''"] obtain v where
    "collect_char mem u d ''custr_appendc failure'' = Inr (True, v)" "collected u r (cs @ [d]) v" by blast
  then show ?thesis
    using t u x(4,5) collected_trans [OF t(2) collected_trans [OF u(2)]] by (auto simp: collect_string_escape_def)
qed

lemma string_loop_collected:
  "jstring str x \<Longrightarrow> cursor s (x @ QUOTE # r) \<Longrightarrow> custr_dyn (s_collect s) cs \<Longrightarrow>
   \<exists>t. collect_string_loop mem s = Inr (True, t) \<and> collected s r (cs @ str) t"
proof (induction str x arbitrary: s cs rule: jstring.induct)
  case str_end
  then show ?case using pop_collected [of s QUOTE r cs] by (subst collect_string_loop.simps) auto
next
  case (str_char c str x)
  obtain t where t: "popchar s = Inr (c, t)" "collected s (x @ QUOTE # r) cs t"
    using pop_collected str_char.prems by force
  then have "cursor t (x @ QUOTE # r)" "custr_dyn (s_collect t) cs" by (auto simp: collected_def moved_def)
  from collect_char_collected [OF this, of c "''custr_appendc failure''"] obtain u where
    u: "collect_char mem t c ''custr_appendc failure'' = Inr (True, u)" "collected t (x @ QUOTE # r) (cs @ [c]) u" by blast
  then have "cursor u (x @ QUOTE # r)" "custr_dyn (s_collect u) (cs @ [c])" by (auto simp: collected_def moved_def)
  from str_char.IH [OF this] show ?case
    using t(1) u(1) str_char.hyps(1) collected_trans [OF t(2) collected_trans [OF u(2)]]
    by (subst collect_string_loop.simps) auto
next
  case (str_escape c d str x)
  obtain t where t: "popchar s = Inr (BACKSLASH, t)" "collected s ([c] @ x @ QUOTE # r) cs t"
    using pop_collected str_escape.prems by force
  then have "cursor t ([c] @ x @ QUOTE # r)" "custr_dyn (s_collect t) cs" by (auto simp: collected_def moved_def)
  from escape_collected [OF this, of d] obtain u where
    u: "collect_string_escape mem t = Inr (True, u)" "collected t (x @ QUOTE # r) (cs @ [d]) u"
    using str_escape.hyps(1) by blast
  then have "cursor u (x @ QUOTE # r)" "custr_dyn (s_collect u) (cs @ [d])" by (auto simp: collected_def moved_def)
  from str_escape.IH [OF this] show ?case
    using t(1) u(1) collected_trans [OF t(2) collected_trans [OF u(2)]]
    by (subst collect_string_loop.simps) auto
next
  case (str_unicode ds str x)
  obtain t where t: "popchar s = Inr (BACKSLASH, t)" "collected s ((CHR ''u'' # ds) @ x @ QUOTE # r) cs t"
    using pop_collected str_unicode.prems by force
  then have "cursor t ((CHR ''u'' # ds) @ x @ QUOTE # r)" "custr_dyn (s_collect t) cs"
    by (auto simp: collected_def moved_def)
  moreover have "NUL \<notin> set ds" using str_unicode.hyps(2) by auto
  ultimately obtain u where
    u: "collect_string_escape mem t = Inr (True, u)" "collected t (x @ QUOTE # r) (cs @ [char_of_int (atoi ds)]) u"
    using escape_collected [of t "CHR ''u'' # ds" "x @ QUOTE # r" cs "char_of_int (atoi ds)"] str_unicode.hyps by blast
  then have "cursor u (x @ QUOTE # r)" "custr_dyn (s_collect u) (cs @ [char_of_int (atoi ds)])"
    by (auto simp: collected_def moved_def)
  from str_unicode.IH [OF this] show ?case
    using t(1) u(1) collected_trans [OF t(2) collected_trans [OF u(2)]]
    by (subst collect_string_loop.simps) auto
qed

lemma class_collected:
  "cursor s (x @ c # r) \<Longrightarrow> \<forall>d \<in> set x. P d \<and> d \<noteq> NUL \<Longrightarrow> \<not> P c \<Longrightarrow> custr_dyn (s_collect s) cs \<Longrightarrow>
   \<exists>t. collect_class mem P msg s = Inr (True, t) \<and> collected s (c # r) (cs @ x) t"
proof (induction x arbitrary: s cs)
  case Nil
  then show ?case
    using cursor_peek [of s c r] by (subst collect_class.simps) (auto simp: collected_def moved_def)
next
  case (Cons d x)
  have peek: "peekchar s = Inr d" using cursor_peek Cons.prems(1) by force
  obtain t where t: "popchar s = Inr (d, t)" "collected s (x @ c # r) cs t"
    using pop_collected Cons.prems(1,4) by force
  then have "cursor t (x @ c # r)" "custr_dyn (s_collect t) cs" by (auto simp: collected_def moved_def)
  from collect_char_collected [OF this, of d msg] obtain u where
    u: "collect_char mem t d msg = Inr (True, u)" "collected t (x @ c # r) (cs @ [d]) u" by blast
  then have "cursor u (x @ c # r)" "custr_dyn (s_collect u) (cs @ [d])" by (auto simp: collected_def moved_def)
  from Cons.IH [OF this(1) _ Cons.prems(3) this(2)] Cons.prems(2) show ?case
    using peek t(1) u(1) collected_trans [OF t(2) collected_trans [OF u(2)]]
    by (subst collect_class.simps) auto
qed

end

lemma reset_collected:
  assumes "ready s r"
  shows "\<exists>t. collect_reset s = Inr t \<and> collected s r [] t"
proof -
  obtain cs where "custr_dyn (s_collect s) cs" using assms by (auto simp: ready_def)
  then obtain cu where "custr_reset (s_collect s) = Inr cu" "custr_dyn cu []"
    using custr_reset_rep [of "s_collect s" cs] by (auto simp: custr_dyn_def)
  then show ?thesis
    using assms by (auto simp: collect_reset_def collected_def moved_def ready_def cursor_def)
qed

lemma collected_cstr: "collected s r cs t \<Longrightarrow> nul_free cs \<Longrightarrow> custr_cstr (s_collect t) = Inr cs"
  using custr_cstr_rep [of "s_collect t" cs] by (simp add: collected_def custr_dyn_def)

lemma collectedD: "collected s r cs t \<Longrightarrow> cursor t r \<and> custr_dyn (s_collect t) cs"
  by (simp add: collected_def moved_def)

lemma char_of_int_nonzero: "0 < i \<Longrightarrow> i \<le> 127 \<Longrightarrow> char_of_int i \<noteq> NUL"
proof
  assume i: "0 < i" "i \<le> 127" "char_of_int i = NUL"
  have m: "i mod 256 = i" using i by simp
  have "of_char (char_of (nat i)) = (0 :: nat)" using i(3) unfolding char_of_int_def m by simp
  then have "nat i mod 256 = 0" by (simp only: of_char_of)
  then show False using i by simp
qed

lemma jstring_nul_free: "jstring s t \<Longrightarrow> nul_free s"
  by (induction rule: jstring.induct) (auto simp: escape_pairs_def dest: char_of_int_nonzero)

lemma isdigit_base: "isdigit c \<longleftrightarrow> is_base_digit 10 c"
  by (auto simp: isdigit_def is_base_digit_def digit_val_def Let_def split: if_splits)

lemma atoi_digits:
  assumes "ds \<noteq> []" "\<forall>d \<in> set ds. isdigit d" "eval_base 10 ds < 2 ^ 31"
  shows "atoi ds = int (eval_base 10 ds)"
proof -
  have "scan_number 10 (ds @ []) = Some (False, eval_base 10 ds, [])"
    by (rule scan_number_digits) (use assms(1,2) in \<open>auto simp: isdigit_base\<close>)
  then have "fst (strtol 10 ds) = int (eval_base 10 ds)"
    using assms(3) by (simp add: strtol_def LONG_MAX_def LONG_MIN_def Let_def)
  then show ?thesis using assms(3) by (simp add: atoi_def int32_of_id)
qed

text \<open>What may follow a value: white space, a comma or a closing bracket.\<close>

definition follows :: "char \<Rightarrow> bool" where
  "follows c \<longleftrightarrow> isspace c \<or> c \<in> {CHR '','', CHR '']'', CHR ''}''}"

lemma follows_class: "follows c \<Longrightarrow> \<not> islower c \<and> \<not> isdigit c \<and> c \<notin> {CHR ''.'', CHR ''e'', CHR ''E''}"
  by (auto simp: follows_def isspace_def islower_def isdigit_def)

context working_heap
begin

lemma collect_string_collected:
  assumes "ready s (x @ QUOTE # r)" "jstring str x"
  shows "\<exists>t. collect_string mem s = Inr (True, t) \<and> collected s r str t"
proof -
  obtain t where t: "collect_reset s = Inr t" "collected s (x @ QUOTE # r) [] t" using reset_collected [OF assms(1)] by blast
  from string_loop_collected [OF assms(2)] collectedD [OF t(2)] obtain u where
    "collect_string_loop mem t = Inr (True, u)" "collected t r ([] @ str) u" by blast
  then show ?thesis using t collected_trans [OF t(2)] by (auto simp: collect_string_def)
qed

lemma collect_bareword_collected:
  assumes "ready s (x @ c # r)" "\<forall>d \<in> set x. islower d" "\<not> islower c"
  shows "\<exists>t. collect_bareword mem s = Inr (True, t) \<and> collected s (c # r) x t"
proof -
  obtain t where t: "collect_reset s = Inr t" "collected s (x @ c # r) [] t" using reset_collected [OF assms(1)] by blast
  have "\<forall>d \<in> set x. islower d \<and> d \<noteq> NUL" using assms(2) by auto
  from class_collected [OF _ this assms(3)] collectedD [OF t(2)] obtain u where
    "collect_class mem islower ''custr_appendc failure'' t = Inr (True, u)" "collected t (c # r) ([] @ x) u" by blast
  then show ?thesis using t collected_trans [OF t(2)] by (auto simp: collect_bareword_def)
qed

lemma number_digits_collected:
  assumes "cursor s (ds @ c # r)" "custr_dyn (s_collect s) []" "ds \<noteq> []" "\<forall>d \<in> set ds. isdigit d"
    and "eval_base 10 ds < 2 ^ 31" "follows c"
  shows "\<exists>t. number_digits mem neg s =
      Inr (Some (if neg then - int (eval_base 10 ds) else int (eval_base 10 ds)), t) \<and> collected s (c # r) ds t"
proof -
  obtain d ds' where ds: "ds = d # ds'" using assms(3) by (cases ds) auto
  have peek: "peekchar s = Inr d" "isdigit d" using assms(1,4) ds cursor_peek [of s d "ds' @ c # r"] by auto
  have "\<forall>d \<in> set ds. isdigit d \<and> d \<noteq> NUL" "\<not> isdigit c" using assms(4,6) follows_class by auto
  from class_collected [OF assms(1) this assms(2), of "''custr_append failure''"] obtain t where
    t: "collect_class mem isdigit ''custr_append failure'' s = Inr (True, t)" "collected s (c # r) ds t" by auto
  have "nul_free ds" using assms(4) by (auto simp: nul_free_def)
  then have "custr_cstr (s_collect t) = Inr ds" using collected_cstr [OF t(2)] by simp
  moreover have "peekchar t = Inr c" using cursor_peek collectedD [OF t(2)] by blast
  ultimately have "number_value mem neg t = Inr (Some (if neg then - int (eval_base 10 ds) else int (eval_base 10 ds)), t)"
    using atoi_digits [OF assms(3-5)] follows_class [OF assms(6)] by (simp add: number_value_def)
  then show ?thesis using peek t by (simp add: number_digits_def)
qed

lemma collect_number_collected:
  assumes "ready s (sign @ ds @ c # r)" "sign = (if neg then ''-'' else [])" "ds \<noteq> []" "\<forall>d \<in> set ds. isdigit d"
    and "eval_base 10 ds < 2 ^ 31" "follows c"
  shows "\<exists>t. collect_number mem s =
      Inr (Some (if neg then - int (eval_base 10 ds) else int (eval_base 10 ds)), t) \<and> moved s (c # r) t"
proof -
  obtain t where t: "collect_reset s = Inr t" "collected s (sign @ ds @ c # r) [] t"
    using reset_collected [OF assms(1)] by blast
  obtain d ds' where ds: "ds = d # ds'" using assms(3) by (cases ds) auto
  have "d \<noteq> CHR ''-''" using assms(4) ds by (auto simp: isdigit_def)
  then have sign: "\<exists>e. peekchar t = Inr e \<and> (e = CHR ''-'' \<longleftrightarrow> neg)"
    using collectedD [OF t(2)] assms(2) ds cursor_peek by (cases neg) force+
  obtain u where u: "(if neg then bindr (popchar t) (\<lambda>(_, s). Inr s) else Inr t) = Inr u" "collected t (ds @ c # r) [] u"
  proof (cases neg)
    case True
    then obtain u where "popchar t = Inr (CHR ''-'', u)" "collected t (ds @ c # r) [] u"
      using collectedD [OF t(2)] assms(2) pop_collected [of t "CHR ''-''" "ds @ c # r" "[]"] by auto
    then show ?thesis using that True by simp
  next
    case False
    then show ?thesis using that [of t] collectedD [OF t(2)] assms(2) by (auto simp: collected_def moved_def)
  qed
  from number_digits_collected [OF _ _ assms(3-6)] collectedD [OF u(2)] obtain v where
    v: "number_digits mem neg u = Inr (Some (if neg then - int (eval_base 10 ds) else int (eval_base 10 ds)), v)"
    "collected u (c # r) ds v" by blast
  have "moved s (c # r) v" using collected_trans [OF t(2) collected_trans [OF u(2) v(2)]] by (simp add: collected_def)
  then show ?thesis using t u v(1) sign by (auto simp: collect_number_def Let_def)
qed

end

end
