(* ===== verification/Json_Roundtrip.thy ===== *)
theory Json_Roundtrip
  imports Json_Grammar
begin

text \<open>
  Running the JSON parser on a text of the grammar. A turn is followed handler by handler; the lists
  are followed by the tree of the root and the path of keys from the bottom frame to the top one.
\<close>

section \<open>Frames and the lists they stand for\<close>

text \<open>
  The bottom frame has the root \<open>r\<close>, and every other frame the list embedded under the key of the
  frame below it.
\<close>

fun held :: "('h \<Rightarrow> 'p \<Rightarrow> char list list \<Rightarrow> 'p \<Rightarrow> bool) \<Rightarrow> 'h \<Rightarrow> 'p \<Rightarrow> 'p parse_frame list \<Rightarrow> char list list \<Rightarrow> bool" where
  "held at h r [] path = False"
| "held at h r [f] path = (path = [] \<and> pf_nvl f = Some r \<and> at h r [] r)"
| "held at h r (f # g # fs) path =
     (\<exists>q k p. path = q @ [k] \<and> pf_key g = Some k \<and> pf_nvl f = Some p \<and> at h r path p \<and> held at h r (g # fs) q)"

lemma held_at: "held at h r (f # fs) path \<Longrightarrow> \<exists>p. pf_nvl f = Some p \<and> at h r path p"
  by (cases fs) auto

lemma held_top: "held at h r (f # fs) path \<Longrightarrow> pf_nvl f' = pf_nvl f \<Longrightarrow> held at h r (f' # fs) path"
  by (cases fs) auto

lemma held_mono:
  "held at h r fs p0 \<Longrightarrow> (\<And>p q q'. p0 = p @ q \<Longrightarrow> at h r p q' \<Longrightarrow> at h' r p q') \<Longrightarrow> held at h' r fs p0"
proof (induction at h r fs p0 rule: held.induct)
  case (3 at h r f g fs path)
  then obtain q k p where q: "path = q @ [k]" "pf_key g = Some k" "pf_nvl f = Some p" "at h r path p" "held at h r (g # fs) q"
    by auto
  have "held at h' r (g # fs) q"
    by (rule 3(1) [OF q(5)]) (use 3(3) q(1) in auto)
  moreover have "at h' r path p" using 3(3) [of path "[]"] q(4) by simp
  ultimately show ?case using q by auto
qed auto

definition json_reach :: "('h, 'p) nv_ops \<Rightarrow> allocator \<Rightarrow> ('h, 'p) jstate \<Rightarrow> ('h, 'p) jstate \<Rightarrow> bool" where
  "json_reach N mem = (\<lambda>s s'. json_step N mem s = Inr (Inr s'))\<^sup>*\<^sup>*"

lemma json_reach_refl: "json_reach N mem s s"
  by (simp add: json_reach_def)

lemma json_reach_step: "json_step N mem s = Inr (Inr t) \<Longrightarrow> json_reach N mem t u \<Longrightarrow> json_reach N mem s u"
  unfolding json_reach_def by (rule converse_rtranclp_into_rtranclp)

lemma json_reach_trans: "json_reach N mem s t \<Longrightarrow> json_reach N mem t u \<Longrightarrow> json_reach N mem s u"
  unfolding json_reach_def by (rule rtranclp_trans)

lemma json_step_handler:
  assumes "s_top s = f # fs" "hdlrs N mem (pf_ps f) = Some hdlr" "hdlr s = Inr t"
  shows "json_step N mem s = Inr (Inr t)"
proof -
  have "pf_ps f \<noteq> PARSE_ERROR" "pf_ps f \<noteq> PARSE_DONE" using assms(2) by (auto simp: hdlrs_def)
  then show ?thesis using assms by (simp add: json_step_def json_pop_def dispatch_def)
qed

text \<open>After a frame is popped the handler of the frame below runs in the same turn.\<close>

lemma json_step_popped:
  assumes "json_pop N mem s = Inr (Inr t)" "s_top t = f # fs" "hdlrs N mem (pf_ps f) = Some hdlr" "hdlr t = Inr u"
  shows "json_step N mem s = Inr (Inr u)"
  using assms by (simp add: json_step_def dispatch_def)

section \<open>Scalar values\<close>

fun represents :: "'p parse_frame \<Rightarrow> json \<Rightarrow> bool" where
  "represents f J_null = (pf_value_type f = JSON_TYPE_NULL)"
| "represents f (J_bool b) = (pf_value_type f = JSON_TYPE_BOOLEAN \<and> pf_value f = PV_bits (if b then 1 else 0))"
| "represents f (J_int i) =
     (pf_value_type f = JSON_TYPE_INTEGER \<and> pf_value f = PV_bits (word_of_int i) \<and> - (2 ^ 31) \<le> i \<and> i < 2 ^ 31)"
| "represents f (J_str s) = (pf_value_type f = JSON_TYPE_STRING \<and> pf_value f = PV_str s)"
| "represents f _ = False"

lemma pv_int32_of_int: "- (2 ^ 31) \<le> i \<Longrightarrow> i < 2 ^ 31 \<Longrightarrow> pv_int32 (word_of_int i) = i"
proof -
  assume i: "- (2 ^ 31) \<le> i" "i < 2 ^ 31"
  have "ucast (word_of_int i :: 64 word) = (word_of_int i :: 32 word)"
    by (rule bit_word_eqI) (simp add: bit_simps)
  then have "pv_int32 (word_of_int i) = signed_take_bit 31 i" by (simp add: pv_int32_def signed_of_int)
  then show ?thesis using i by (simp add: signed_take_bit_int_eq_self)
qed

lemma pv_boolean_bits: "pv_boolean (if b then 1 else 0) = b"
  by (simp add: pv_boolean_def)

text \<open>The handlers of objects and arrays behind the creation of the list.\<close>

definition object_body :: "allocator \<Rightarrow> ('h, 'p) jstate \<Rightarrow> ('h, 'p) jstate outcome" where
  "object_body mem s =
     bindr (discard_whitespace s) (\<lambda>s.
     bindr (popchar s) (\<lambda>(c, s).
     if c = CHR ''}'' then movestate s PARSE_DONE
     else if c = CHR 0x22 then movestate s PARSE_KEY_STRING
     else posterror mem s (Some EPROTO) (''expected key or '' @ quoted ''}'')))"

definition array_body :: "('h, 'p) nv_ops \<Rightarrow> allocator \<Rightarrow> ('h, 'p) jstate \<Rightarrow> ('h, 'p) jstate outcome" where
  "array_body N mem s =
     bindr (discard_whitespace s) (\<lambda>s.
     bindr (peekchar s) (\<lambda>c.
     if c = CHR '']'' then bindr (popchar s) (\<lambda>(_, s). end_array N mem s)
     else movestate s PARSE_ARRAY_VALUE))"

definition opens :: "('h, 'p) nv_ops \<Rightarrow> allocator \<Rightarrow> json_type \<Rightarrow> (('h, 'p) jstate \<Rightarrow> ('h, 'p) jstate outcome)
    \<Rightarrow> ('h, 'p) jstate \<Rightarrow> ('h, 'p) jstate outcome" where
  "opens N mem ty body s =
     bindr (top_upd (\<lambda>fr. fr\<lparr>pf_value_type := ty\<rparr>) s) (\<lambda>s.
     bindr (add_empty_child N mem s) (\<lambda>(ok, s). if \<not> ok then Inr s else body s))"

lemma hdlr_opens:
  "hdlr_object N mem = opens N mem JSON_TYPE_OBJECT (object_body mem)"
  "hdlr_array N mem = opens N mem JSON_TYPE_ARRAY (array_body N mem)"
  unfolding fun_eq_iff hdlr_object_def hdlr_array_def opens_def object_body_def array_body_def by simp_all

text \<open>The bracket, state, type and body of a container.\<close>

definition container :: "('h, 'p) nv_ops \<Rightarrow> allocator \<Rightarrow> char \<Rightarrow> json_state \<Rightarrow> json_type
    \<Rightarrow> (('h, 'p) jstate \<Rightarrow> ('h, 'p) jstate outcome) \<Rightarrow> bool" where
  "container N mem c ps ty body \<longleftrightarrow>
     (c = CHR ''{'' \<and> ps = PARSE_OBJECT \<and> ty = JSON_TYPE_OBJECT \<and> body = object_body mem) \<or>
     (c = CHR ''['' \<and> ps = PARSE_ARRAY \<and> ty = JSON_TYPE_ARRAY \<and> body = array_body N mem)"

lemma container_hdlr: "container N mem c ps ty body \<Longrightarrow> hdlrs N mem ps = Some (opens N mem ty body)"
  by (auto simp: container_def hdlrs_def hdlr_opens)

locale json_heap = nvpair_library N at tree + working_heap mem
  for N :: "('h, 'p) nv_ops" and at tree mem
begin

text \<open>Storing a scalar value and popping its frame.\<close>

definition stored_at :: "('h, 'p) jstate \<Rightarrow> 'p \<Rightarrow> char list list \<Rightarrow> (nvpairs \<Rightarrow> nvpairs) \<Rightarrow> 'p parse_frame list
    \<Rightarrow> char list \<Rightarrow> ('h, 'p) jstate \<Rightarrow> bool" where
  "stored_at s r path f frs rest s' \<longleftrightarrow> ready s' rest \<and> s_top s' = frs \<and>
     tree (s_nv s') r = upd_at path f (tree (s_nv s) r) \<and> held at (s_nv s') r frs path"

lemma held_adds:
  "adds at tree h r path k v (Inr (), h') \<Longrightarrow> held at h r frs path \<Longrightarrow> held at h' r frs path"
proof -
  assume a: "adds at tree h r path k v (Inr (), h')" "held at h r frs path"
  show ?thesis by (rule held_mono [OF a(2)]) (use a(1) in \<open>auto simp: adds_def\<close>)
qed

lemma pop_scalar:
  assumes "ready s rest" "s_top s = f # g # fs" "pf_ps f = PARSE_DONE" "represents f v"
    and "pf_key g = Some k" "held at (s_nv s) r (g # fs) path"
  shows "\<exists>s'. json_pop N mem s = Inr (Inr s') \<and>
    stored_at s r path (nv_put k (nv_of v)) (g\<lparr>pf_key := None\<rparr> # fs) rest s'"
proof -
  obtain p where p: "pf_nvl g = Some p" "at (s_nv s) r path p" using held_at [OF assms(6)] by blast
  obtain h' where h': "add_value N (s_nv s) p k (pf_value_type f) (pf_value f) = Inr (None, h')"
    "adds at tree (s_nv s) r path k (nv_of v) (Inr (), h')"
  proof -
    have "\<exists>h'. add_value N (s_nv s) p k (pf_value_type f) (pf_value f) = Inr (None, h') \<and>
        adds at tree (s_nv s) r path k (nv_of v) (Inr (), h')"
      using assms(4) add_string [OF p(2), of k] add_boolean_value [OF p(2), of k] add_boolean [OF p(2), of k] add_int32 [OF p(2), of k]
      by (cases v) (auto simp: add_value_def adds_def split_beta pv_int32_of_int pv_boolean_bits prod_eq_iff)
    then show ?thesis using that by blast
  qed
  let ?s = "s\<lparr>s_nv := h', s_top := g\<lparr>pf_key := None\<rparr> # fs\<rparr>"
  have "json_pop N mem s = Inr (Inr ?s)"
    using assms(2,3,5) p(1) h'(1) by (simp add: json_pop_def store_value_def parse_frame_free_def split: option.split)
  moreover have "held at h' r (g\<lparr>pf_key := None\<rparr> # fs) path"
    using held_top [OF held_adds [OF h'(2) assms(6)]] by simp
  moreover have "ready ?s rest" using assms(1) by (simp add: ready_def cursor_def)
  ultimately show ?thesis using h'(2) by (auto simp: stored_at_def adds_def)
qed

lemma pushstate_good:
  assumes "s_top s = g # fs"
  shows "pushstate mem s ps retps = Inr (s\<lparr>s_top := frame_new ps # g\<lparr>pf_ps := retps\<rparr> # fs\<rparr>)"
  using good_allocD [OF good, of 56] assms by (auto simp: pushstate_def movestate_def top_upd_def)

text \<open>
  What is to be shown of a value with text \<open>t\<close>: with the parent frame \<open>g\<close> on top, waiting for the value
  of key \<open>k\<close>, the parser selects a handler, and gets to where the value is stored under \<open>k\<close> and its
  frame is popped.
\<close>

definition gets_value :: "('h, 'p) jstate \<Rightarrow> json \<Rightarrow> 'p \<Rightarrow> char list list \<Rightarrow> char list \<Rightarrow> json_state
    \<Rightarrow> 'p parse_frame \<Rightarrow> 'p parse_frame list \<Rightarrow> char list \<Rightarrow> bool" where
  "gets_value s v r path k retps g fs rest \<longleftrightarrow> (\<exists>s1 s2 s3. select_value mem retps s = Inr s1 \<and>
     json_reach N mem s1 s2 \<and> json_pop N mem s2 = Inr (Inr s3) \<and>
     stored_at s r path (nv_put k (nv_of v)) (g\<lparr>pf_ps := retps, pf_key := None\<rparr> # fs) rest s3)"

definition value_ok :: "json \<Rightarrow> char list \<Rightarrow> bool" where
  "value_ok v t \<longleftrightarrow> (\<forall>s g fs r path k retps c rest. ready s (t @ c # rest) \<longrightarrow> s_top s = g # fs \<longrightarrow>
     pf_key g = Some k \<longrightarrow> held at (s_nv s) r (g # fs) path \<longrightarrow> follows c \<longrightarrow>
     gets_value s v r path k retps g fs (c # rest))"

lemma gets_scalar:
  assumes "select_value mem retps s = Inr s1" "s_top s1 = frame_new ps # g\<lparr>pf_ps := retps\<rparr> # fs"
    and "hdlrs N mem ps = Some hdlr" "hdlr s1 = Inr s2"
    and "ready s2 rest" "s_top s2 = f # g\<lparr>pf_ps := retps\<rparr> # fs" "s_nv s2 = s_nv s" "pf_ps f = PARSE_DONE" "represents f v"
    and "pf_key g = Some k" "held at (s_nv s) r (g # fs) path"
  shows "gets_value s v r path k retps g fs rest"
proof -
  have "json_step N mem s1 = Inr (Inr s2)"
    by (rule json_step_handler [where hdlr = hdlr, OF assms(2) _ assms(4)]) (use assms(3) in \<open>simp add: frame_new_def\<close>)
  then have reach: "json_reach N mem s1 s2" using json_reach_step json_reach_refl by blast
  have "held at (s_nv s2) r (g\<lparr>pf_ps := retps\<rparr> # fs) path"
    using held_top [OF assms(11)] assms(7) by simp
  from pop_scalar [OF assms(5,6,8,9) _ this, of k] assms(10) obtain s3 where
    "json_pop N mem s2 = Inr (Inr s3)"
    "stored_at s2 r path (nv_put k (nv_of v)) (g\<lparr>pf_ps := retps, pf_key := None\<rparr> # fs) rest s3"
    by auto
  then show ?thesis
    using assms(1,7) reach unfolding gets_value_def stored_at_def by metis
qed

lemma value_ok_word:
  assumes "t \<noteq> []" "\<forall>d \<in> set t. islower d"
    and "(t = ''true'' \<and> v = J_bool True) \<or> (t = ''false'' \<and> v = J_bool False) \<or> (t = ''null'' \<and> v = J_null)"
  shows "value_ok v t"
  unfolding value_ok_def
proof (intro allI impI)
  fix s g fs r path k retps c rest
  assume s: "ready s (t @ c # rest)" "s_top s = g # fs" "pf_key g = Some k" "held at (s_nv s) r (g # fs) path" "follows c"
  let ?s1 = "s\<lparr>s_top := frame_new PARSE_BAREWORD # g\<lparr>pf_ps := retps\<rparr> # fs\<rparr>"
  obtain d t' where t: "t = d # t'" "islower d" using assms(1,2) by (cases t) auto
  have "peekchar s = Inr d" using ready_peek [of s d] s(1) t(1) by simp
  moreover have "d \<noteq> QUOTE" "d \<noteq> CHR ''{''" "d \<noteq> CHR ''[''" using t(2) by (auto simp: islower_def)
  ultimately have sel: "select_value mem retps s = Inr ?s1" using t(2) pushstate_good [OF s(2)] by (simp add: select_value_def)
  have "ready ?s1 (t @ c # rest)" using s(1) by (simp add: ready_def cursor_def)
  from collect_bareword_collected [OF this assms(2)] follows_class [OF s(5)] obtain s2 where
    s2: "collect_bareword mem ?s1 = Inr (True, s2)" "collected ?s1 (c # rest) t s2" by blast
  have cs: "custr_cstr (s_collect s2) = Inr t"
    by (rule collected_cstr [OF s2(2)]) (use assms(2) in \<open>auto simp: nul_free_def\<close>)
  have top: "s_top s2 = frame_new PARSE_BAREWORD # g\<lparr>pf_ps := retps\<rparr> # fs" "s_nv s2 = s_nv s" "ready s2 (c # rest)"
    using s2(2) s(1) collected_ready [OF s2(2)] by (auto simp: collected_def moved_def ready_def)
  let ?f = "(frame_new PARSE_DONE)\<lparr>pf_value_type := if t = ''null'' then JSON_TYPE_NULL else JSON_TYPE_BOOLEAN,
    pf_value := PV_bits (if t = ''true'' then 1 else 0)\<rparr>"
  have s3: "hdlr_bareword mem ?s1 = Inr (s2\<lparr>s_top := ?f # g\<lparr>pf_ps := retps\<rparr> # fs\<rparr>)"
    "pf_ps ?f = PARSE_DONE" "represents ?f v"
    using assms(3) s2(1) cs top(1)
    by (elim disjE conjE; simp add: hdlr_bareword_def top_upd_def movestate_def frame_new_def)+
  show "gets_value s v r path k retps g fs (c # rest)"
    by (rule gets_scalar [where hdlr = "hdlr_bareword mem", OF sel _ _ s3(1) _ _ _ s3(2,3) s(3,4)])
      (use top in \<open>auto simp: hdlrs_def ready_def cursor_def\<close>)
qed

lemma value_ok_number:
  assumes "sign = (if neg then ''-'' else [])" "ds \<noteq> []" "\<forall>d \<in> set ds. isdigit d" "eval_base 10 ds < 2 ^ 31"
    and "v = J_int (if neg then - int (eval_base 10 ds) else int (eval_base 10 ds))"
  shows "value_ok v (sign @ ds)"
  unfolding value_ok_def
proof (intro allI impI)
  fix s g fs r path k retps c rest
  assume s: "ready s ((sign @ ds) @ c # rest)" "s_top s = g # fs" "pf_key g = Some k" "held at (s_nv s) r (g # fs) path" "follows c"
  let ?s1 = "s\<lparr>s_top := frame_new PARSE_NUMBER # g\<lparr>pf_ps := retps\<rparr> # fs\<rparr>"
  obtain d t where t: "sign @ ds = d # t" "d = CHR ''-'' \<or> isdigit d" using assms(1-3) by (cases ds) (auto split: if_splits)
  have "peekchar s = Inr d" using ready_peek [of s d] s(1) t(1) by simp
  moreover have "d \<noteq> QUOTE" "d \<noteq> CHR ''{''" "d \<noteq> CHR ''[''" "\<not> islower d" using t(2) by (auto simp: islower_def isdigit_def)
  ultimately have sel: "select_value mem retps s = Inr ?s1" using t(2) pushstate_good [OF s(2)] by (simp add: select_value_def)
  have "ready ?s1 (sign @ ds @ c # rest)" using s(1) by (simp add: ready_def cursor_def)
  from collect_number_collected [OF this assms(1-4) s(5)] obtain s2 where
    s2: "collect_number mem ?s1 = Inr (Some (if neg then - int (eval_base 10 ds) else int (eval_base 10 ds)), s2)"
    "moved ?s1 (c # rest) s2" by blast
  have top: "s_top s2 = frame_new PARSE_NUMBER # g\<lparr>pf_ps := retps\<rparr> # fs" "s_nv s2 = s_nv s" "ready s2 (c # rest)"
    using s2(2) s(1) moved_ready [OF s2(2)] by (auto simp: moved_def ready_def)
  let ?i = "if neg then - int (eval_base 10 ds) else int (eval_base 10 ds)"
  let ?f = "(frame_new PARSE_DONE)\<lparr>pf_value_type := JSON_TYPE_INTEGER, pf_value := PV_bits (word_of_int ?i)\<rparr>"
  have s3: "hdlr_number mem ?s1 = Inr (s2\<lparr>s_top := ?f # g\<lparr>pf_ps := retps\<rparr> # fs\<rparr>)" "pf_ps ?f = PARSE_DONE"
    using s2(1) top(1) by (simp_all add: hdlr_number_def top_upd_def movestate_def frame_new_def)
  have rep: "represents ?f v" using assms(4,5) by simp
  show "gets_value s v r path k retps g fs (c # rest)"
    by (rule gets_scalar [where hdlr = "hdlr_number mem", OF sel _ _ s3(1) _ _ _ s3(2) rep s(3,4)])
      (use top in \<open>auto simp: hdlrs_def ready_def cursor_def\<close>)
qed

lemma value_ok_string:
  assumes "jstring str t"
  shows "value_ok (J_str str) (QUOTE # t @ [QUOTE])"
  unfolding value_ok_def
proof (intro allI impI)
  fix s g fs r path k retps c rest
  assume s: "ready s ((QUOTE # t @ [QUOTE]) @ c # rest)" "s_top s = g # fs" "pf_key g = Some k" "held at (s_nv s) r (g # fs) path" "follows c"
  obtain s0 where s0: "popchar s = Inr (QUOTE, s0)" "moved s (t @ QUOTE # c # rest) s0" using pop_moved s(1) by force
  let ?s1 = "s0\<lparr>s_top := frame_new PARSE_STRING # g\<lparr>pf_ps := retps\<rparr> # fs\<rparr>"
  have s0_top: "s_top s0 = g # fs" using s0(2) s(2) by (simp add: moved_def)
  have "peekchar s = Inr QUOTE" using ready_peek [of s QUOTE] s(1) by simp
  then have sel: "select_value mem retps s = Inr ?s1" using pushstate_good [OF s0_top] s0(1) by (simp add: select_value_def)
  have "ready ?s1 (t @ QUOTE # c # rest)" using s(1) s0(2) by (auto simp: ready_def moved_def cursor_def)
  from collect_string_collected [OF this assms] obtain s2 where
    s2: "collect_string mem ?s1 = Inr (True, s2)" "collected ?s1 (c # rest) str s2" by blast
  have cs: "custr_cstr (s_collect s2) = Inr str" using collected_cstr [OF s2(2) jstring_nul_free [OF assms]] .
  have top: "s_top s2 = frame_new PARSE_STRING # g\<lparr>pf_ps := retps\<rparr> # fs" "s_nv s2 = s_nv s" "ready s2 (c # rest)"
    using s2(2) s(1) s0(2) collected_ready [OF s2(2)] by (auto simp: collected_def moved_def ready_def)
  let ?f = "(frame_new PARSE_DONE)\<lparr>pf_value_type := JSON_TYPE_STRING, pf_value := PV_str str\<rparr>"
  have s3: "hdlr_string mem ?s1 = Inr (s2\<lparr>s_top := ?f # g\<lparr>pf_ps := retps\<rparr> # fs\<rparr>)" "pf_ps ?f = PARSE_DONE"
      "represents ?f (J_str str)"
    using s2(1) cs top(1) strdup_good [OF good, of str]
    by (simp_all add: hdlr_string_def top_upd_def movestate_def frame_new_def)
  show "gets_value s (J_str str) r path k retps g fs (c # rest)"
    by (rule gets_scalar [where hdlr = "hdlr_string mem", OF sel _ _ s3(1) _ _ _ s3(2,3) s(3,4)])
      (use top in \<open>auto simp: hdlrs_def ready_def cursor_def\<close>)
qed

section \<open>Containers\<close>

lemma stored_at_trans:
  "stored_at s r path f frs x t \<Longrightarrow> stored_at t r path g frs' y u \<Longrightarrow> stored_at s r path (\<lambda>ps. g (f ps)) frs' y u"
  by (simp add: stored_at_def upd_at_upd_at)

lemma stored_at_moved: "stored_at s r path f frs x t \<Longrightarrow> moved t y u \<Longrightarrow> stored_at s r path f frs y u"
  by (auto simp: stored_at_def moved_def ready_def)

lemma stored_at_top:
  "stored_at s r path f (g # fs) x t \<Longrightarrow> pf_nvl g' = pf_nvl g \<Longrightarrow> stored_at s r path f (g' # fs) x (t\<lparr>s_top := g' # fs\<rparr>)"
  using held_top [of at "s_nv t" r g fs path g'] by (auto simp: stored_at_def ready_def cursor_def)

lemma movestate_stored:
  "stored_at s r path f (g # fs) x t \<Longrightarrow>
   \<exists>u. movestate t ps = Inr u \<and> stored_at s r path f (g\<lparr>pf_ps := ps\<rparr> # fs) x u"
  using stored_at_top [of s r path f g fs x t "g\<lparr>pf_ps := ps\<rparr>"]
  by (auto simp: movestate_def top_upd_def stored_at_def)

lemma blank_pop:
  assumes "ready s (w @ c # x)" "blank w" "\<not> isspace c"
  shows "\<exists>t u. discard_whitespace s = Inr t \<and> popchar t = Inr (c, u) \<and> moved s x u"
proof -
  obtain t where t: "discard_whitespace s = Inr t" "moved s (c # x) t" using whitespace_moved [OF assms] by blast
  have "ready t (c # x)" using moved_ready [OF t(2)] assms(1) by (simp add: ready_def)
  then obtain u where "popchar t = Inr (c, u)" "moved t x u" using pop_moved by blast
  then show ?thesis using t moved_trans by blast
qed

text \<open>
  From \<open>u\<close> the parser gets to the end of the list of the top frame \<open>f\<close>, having changed its contents
  since \<open>s\<close> by \<open>F\<close>.
\<close>

definition fills :: "('h, 'p) jstate \<Rightarrow> ('h, 'p) jstate \<Rightarrow> 'p parse_frame \<Rightarrow> 'p parse_frame list \<Rightarrow> 'p
    \<Rightarrow> char list list \<Rightarrow> (nvpairs \<Rightarrow> nvpairs) \<Rightarrow> char list \<Rightarrow> bool" where
  "fills s u f fs r path F rest \<longleftrightarrow> (\<exists>s' f'. json_reach N mem u s' \<and> stored_at s r path F (f' # fs) rest s' \<and>
     pf_ps f' = PARSE_DONE \<and> pf_value_type f' = pf_value_type f \<and> pf_value f' = PV_NULL)"

lemma fills_now:
  "stored_at s r path F (f' # fs) rest u \<Longrightarrow> pf_ps f' = PARSE_DONE \<Longrightarrow> pf_value_type f' = pf_value_type f \<Longrightarrow>
   pf_value f' = PV_NULL \<Longrightarrow> fills s u f fs r path F rest"
  unfolding fills_def using json_reach_refl by blast

lemma fills_after:
  assumes "json_reach N mem u t" "stored_at s r path F (g # fs) x t" "fills t t g fs r path G rest"
    and "pf_value_type g = pf_value_type f"
  shows "fills s u f fs r path (\<lambda>ps. G (F ps)) rest"
  using assms(3,4) json_reach_trans [OF assms(1)] stored_at_trans [OF assms(2)] unfolding fills_def by metis

definition elems_ok :: "json list \<Rightarrow> char list \<Rightarrow> bool" where
  "elems_ok vs t \<longleftrightarrow> (\<forall>s f fs r path i w rest. ready s (w @ t @ CHR '']'' # rest) \<longrightarrow> blank w \<longrightarrow> s_top s = f # fs \<longrightarrow>
     pf_ps f = PARSE_ARRAY_VALUE \<longrightarrow> pf_key f = None \<longrightarrow> pf_value f = PV_NULL \<longrightarrow> pf_array_index f = int i \<longrightarrow>
     i + length vs < 2 ^ 31 \<longrightarrow> held at (s_nv s) r (f # fs) path \<longrightarrow> fills s s f fs r path (put_elems i vs) rest)"

definition members_ok :: "(char list \<times> json) list \<Rightarrow> char list \<Rightarrow> bool" where
  "members_ok kvs t \<longleftrightarrow> (\<forall>s f fs r path rest. ready s (t @ CHR ''}'' # rest) \<longrightarrow> s_top s = f # fs \<longrightarrow>
     pf_ps f = PARSE_KEY_STRING \<longrightarrow> pf_value f = PV_NULL \<longrightarrow> held at (s_nv s) r (f # fs) path \<longrightarrow>
     fills s s f fs r path (put_members kvs) rest)"

lemma put_elems_nil:
  "put_elems i [] = (\<lambda>ps. nv_put ''length'' (NV_uint32 (word_of_int (int i))) (nv_put JSON_MARKER_ARRAY NV_boolean ps))"
  by (simp add: fun_eq_iff)

lemma end_array_good:
  assumes "stored_at s r path F (f # fs) rest t" "pf_array_index f = int i"
  shows "\<exists>u. end_array N mem t = Inr u \<and> stored_at s r path (\<lambda>ps. put_elems i [] (F ps)) (f\<lparr>pf_ps := PARSE_DONE\<rparr> # fs) rest u"
proof -
  have t: "held at (s_nv t) r (f # fs) path" "s_top t = f # fs" "ready t rest" using assms(1) by (simp_all add: stored_at_def)
  obtain p where p: "pf_nvl f = Some p" "at (s_nv t) r path p" using held_at [OF t(1)] by blast
  obtain h1 where h1: "nvlist_add_boolean N (s_nv t) p JSON_MARKER_ARRAY = (Inr (), h1)"
    "adds at tree (s_nv t) r path JSON_MARKER_ARRAY NV_boolean (Inr (), h1)"
    using add_boolean [OF p(2), of JSON_MARKER_ARRAY] by (auto simp: adds_def prod_eq_iff)
  have p1: "at h1 r path p" using h1(2) p(2) by (auto simp: adds_def)
  obtain h2 where h2: "nvlist_add_uint32 N h1 p ''length'' (word_of_int (int i)) = (Inr (), h2)"
    "adds at tree h1 r path ''length'' (NV_uint32 (word_of_int (int i))) (Inr (), h2)"
    using add_uint32 [OF p1, of "''length''" "word_of_int (int i)"] by (auto simp: adds_def prod_eq_iff)
  have dec: "decorate_array N mem t = Inr (True, t\<lparr>s_nv := h2\<rparr>)"
    using t(2) p(1) h1(1) h2(1) assms(2) by (simp add: decorate_array_def)
  have "held at h2 r (f # fs) path" using held_adds [OF h2(2) held_adds [OF h1(2) t(1)]] .
  moreover have "tree h2 r = upd_at path (put_elems i []) (tree (s_nv t) r)"
    using h1(2) h2(2) by (simp add: adds_def upd_at_upd_at put_elems_nil)
  ultimately have "stored_at t r path (put_elems i []) (f # fs) rest (t\<lparr>s_nv := h2\<rparr>)"
    using t by (simp add: stored_at_def ready_def cursor_def)
  from movestate_stored [OF stored_at_trans [OF assms(1) this]] show ?thesis by (auto simp: end_array_def dec)
qed

lemma pop_container:
  assumes "s_top s = f # g # fs" "pf_ps f = PARSE_DONE" "pf_value_type f \<in> {JSON_TYPE_ARRAY, JSON_TYPE_OBJECT}"
    and "pf_value f = PV_NULL" "pf_key g = Some k" "pf_nvl g = Some p"
  shows "json_pop N mem s = Inr (Inr (s\<lparr>s_top := g\<lparr>pf_key := None\<rparr> # fs\<rparr>))"
  using assms by (auto simp: json_pop_def store_value_def add_value_def parse_frame_free_def split: option.split)

lemma add_empty_child_below:
  assumes "s_top s = f # g # fs" "pf_key g = Some k" "held at (s_nv s) r (g # fs) path"
  shows "\<exists>h p. add_empty_child N mem s = Inr (True, s\<lparr>s_nv := h, s_top := f\<lparr>pf_nvl := Some p\<rparr> # g # fs\<rparr>) \<and>
    tree h r = upd_at path (nv_put k (NV_nvlist [])) (tree (s_nv s) r) \<and>
    held at h r (f\<lparr>pf_nvl := Some p\<rparr> # g # fs) (path @ [k])"
proof -
  obtain q where q: "pf_nvl g = Some q" "at (s_nv s) r path q" using held_at [OF assms(3)] by blast
  obtain e h1 where e: "nvlist_alloc N (s_nv s) = (Inr e, h1)" "at h1 e [] e" "tree h1 e = []"
    "\<And>r path q. at (s_nv s) r path q \<Longrightarrow> r \<noteq> e \<and> at h1 r path q \<and> tree h1 r = tree (s_nv s) r"
    using alloc by metis
  have r: "r \<noteq> e" "at h1 r path q" "tree h1 r = tree (s_nv s) r" using e(4) [OF q(2)] by auto
  have held1: "held at h1 r (g # fs) path" by (rule held_mono [OF assms(3)]) (use e(4) in blast)
  obtain h2 where h2: "nvlist_add_nvlist N h1 q k e = (Inr (), h2)" "adds at tree h1 r path k (NV_nvlist []) (Inr (), h2)"
    using add_nvlist [OF r(2) e(2) r(1), of k] e(3) by (auto simp: adds_def prod_eq_iff)
  let ?h = "nvlist_free N h2 e"
  have held2: "held at ?h r (g # fs) path"
    by (rule held_mono [OF held_adds [OF h2(2) held1]]) (use free r(1) in blast)
  have "at h2 r path q" using h2(2) r(2) by (auto simp: adds_def)
  then have h3: "at ?h r path q" "tree ?h r = upd_at path (nv_put k (NV_nvlist [])) (tree (s_nv s) r)"
    using free [of h2 r path q e] r h2(2) by (auto simp: adds_def)
  obtain qs where "sub_at path (tree (s_nv s) r) = Some qs" using place [OF q(2)] by auto
  then have "sub_at (path @ [k]) (tree ?h r) = Some []" by (simp add: h3(2) sub_at_append sub_at_upd_same map_of_nv_put)
  then obtain p where p: "nvlist_lookup_nvlist N ?h q k = Inr p" "at ?h r (path @ [k]) p" using lookup [OF h3(1), of k] by auto
  have "add_empty_child N mem s = Inr (True, s\<lparr>s_nv := ?h, s_top := f\<lparr>pf_nvl := Some p\<rparr> # g # fs\<rparr>)"
    using assms(1,2) q(1) e(1) h2(1) p(1) by (simp add: add_empty_child_def Let_def)
  moreover have "held at ?h r (f\<lparr>pf_nvl := Some p\<rparr> # g # fs) (path @ [k])" using held2 p(2) assms(2) by simp
  ultimately show ?thesis using h3(2) by blast
qed

lemma follows_blank:
  assumes "blank w" "c \<in> {CHR '','', CHR '']'', CHR ''}''}"
  obtains d x where "w @ c # rest = d # x" "follows d"
  using assms by (cases w) (auto simp: follows_def blank_def)

text \<open>A value with the handler of the return state behind it.\<close>

lemma value_then:
  assumes "value_ok v t" "ready s (t @ w @ c # rest)" "blank w" "c \<in> {CHR '','', CHR '']'', CHR ''}''}"
    and "s_top s = g # fs" "pf_key g = Some k" "held at (s_nv s) r (g # fs) path"
  shows "\<exists>s1 s3. select_value mem retps s = Inr s1 \<and>
    stored_at s r path (nv_put k (nv_of v)) (g\<lparr>pf_ps := retps, pf_key := None\<rparr> # fs) (w @ c # rest) s3 \<and>
    (\<forall>hdlr u. hdlrs N mem retps = Some hdlr \<longrightarrow> hdlr s3 = Inr u \<longrightarrow> json_reach N mem s1 u)"
proof -
  obtain d x where d: "w @ c # rest = d # x" "follows d" using follows_blank [OF assms(3,4)] by blast
  have "gets_value s v r path k retps g fs (w @ c # rest)"
    using assms(1,2,5-7) d unfolding value_ok_def by metis
  then obtain s1 s2 s3 where s: "select_value mem retps s = Inr s1" "json_reach N mem s1 s2" "json_pop N mem s2 = Inr (Inr s3)"
    "stored_at s r path (nv_put k (nv_of v)) (g\<lparr>pf_ps := retps, pf_key := None\<rparr> # fs) (w @ c # rest) s3"
    unfolding gets_value_def by blast
  have "json_reach N mem s1 u" if "hdlrs N mem retps = Some hdlr" "hdlr s3 = Inr u" for hdlr u
  proof -
    have "json_step N mem s2 = Inr (Inr u)"
      by (rule json_step_popped [where hdlr = hdlr, OF s(3)]) (use s(4) that in \<open>auto simp: stored_at_def\<close>)
    then show ?thesis using json_reach_trans [OF s(2) json_reach_step] json_reach_refl by blast
  qed
  then show ?thesis using s by blast
qed

lemma jvalue_hd: "jvalue v t \<Longrightarrow> \<exists>c t'. t = c # t' \<and> \<not> isspace c \<and> c \<noteq> CHR '']''"
proof (induction rule: jvalue.cases)
  case (val_nat ds)
  then show ?thesis by (cases ds) (auto simp: isdigit_def isspace_def)
qed (auto simp: isspace_def)

text \<open>The first value of the elements of an array, up to the comma or bracket behind it.\<close>

lemma elem_read:
  assumes "value_ok v t" "jvalue v t" "ready s (w @ t @ w' @ c # rest)" "blank w" "blank w'" "c \<in> {CHR '','', CHR '']''}"
    and "s_top s = f # fs" "pf_ps f = PARSE_ARRAY_VALUE" "pf_key f = None" "pf_array_index f = int i" "i + 1 < 2 ^ 31"
    and "held at (s_nv s) r (f # fs) path"
  shows "\<exists>s3. stored_at s r path (nv_put (fmt_d (int i)) (nv_of v))
      (f\<lparr>pf_array_index := int (Suc i), pf_ps := PARSE_ARRAY_COMMA\<rparr> # fs) rest s3 \<and>
    (\<forall>u. (if c = CHR '']'' then end_array N mem s3 else movestate s3 PARSE_ARRAY_VALUE) = Inr u \<longrightarrow> json_reach N mem s u)"
proof -
  let ?k = "fmt_d (int i)"
  let ?g = "f\<lparr>pf_array_index := int i + 1, pf_key := Some ?k\<rparr>"
  let ?s = "s\<lparr>s_top := ?g # fs\<rparr>"
  obtain d t' where d: "t = d # t'" "\<not> isspace d" using jvalue_hd [OF assms(2)] by blast
  have "ready ?s (w @ d # t' @ w' @ c # rest)" using assms(3) d(1) by (simp add: ready_def cursor_def)
  from whitespace_moved [OF this assms(4) d(2)] obtain s0 where
    s0: "discard_whitespace ?s = Inr s0" "moved ?s (t @ w' @ c # rest) s0" using d(1) by auto
  have s0': "ready s0 (t @ w' @ c # rest)" "s_top s0 = ?g # fs" "s_nv s0 = s_nv s"
    using s0(2) assms(3) by (auto simp: moved_def ready_def)
  have "held at (s_nv s0) r (?g # fs) path" using held_top [OF assms(12), of ?g] s0'(3) by simp
  from value_then [OF assms(1) s0'(1) assms(5) _ s0'(2) _ this, of ?k PARSE_ARRAY_COMMA] assms(6) obtain s1 s2 where
    s1: "select_value mem PARSE_ARRAY_COMMA s0 = Inr s1"
    and s2: "stored_at s0 r path (nv_put ?k (nv_of v)) (?g\<lparr>pf_ps := PARSE_ARRAY_COMMA, pf_key := None\<rparr> # fs) (w' @ c # rest) s2"
    and reach: "\<And>u. hdlr_array_comma N mem s2 = Inr u \<Longrightarrow> json_reach N mem s1 u"
    by (auto simp: hdlrs_def)
  have "hdlr_array_value mem s = Inr s1"
    using assms(7,9,10,11) s0(1) s1 good_allocD [OF good, of "length ?k + 1"] by (auto simp: hdlr_array_value_def Let_def)
  then have step: "json_step N mem s = Inr (Inr s1)"
    using json_step_handler [where hdlr = "hdlr_array_value mem", OF assms(7)] assms(8) by (simp add: hdlrs_def)
  have "ready s2 (w' @ c # rest)" using s2 by (simp add: stored_at_def)
  moreover have "\<not> isspace c" using assms(6) by (auto simp: isspace_def)
  ultimately obtain s2' s3 where s3: "discard_whitespace s2 = Inr s2'" "popchar s2' = Inr (c, s3)" "moved s2 rest s3"
    using blank_pop assms(5) by blast
  have "?g\<lparr>pf_ps := PARSE_ARRAY_COMMA, pf_key := None\<rparr> = f\<lparr>pf_array_index := int (Suc i), pf_ps := PARSE_ARRAY_COMMA\<rparr>"
    using assms(9) by (cases f) simp
  with stored_at_moved [OF s2 s3(3)] have "stored_at s r path (nv_put ?k (nv_of v))
      (f\<lparr>pf_array_index := int (Suc i), pf_ps := PARSE_ARRAY_COMMA\<rparr> # fs) rest s3"
    by (simp add: stored_at_def s0'(3))
  moreover have "json_reach N mem s u"
    if "(if c = CHR '']'' then end_array N mem s3 else movestate s3 PARSE_ARRAY_VALUE) = Inr u" for u
  proof -
    have "hdlr_array_comma N mem s2 = Inr u"
      using that s3(1,2) assms(6) by (auto simp: hdlr_array_comma_def split: if_splits)
    then show ?thesis using json_reach_step [OF step reach] by blast
  qed
  ultimately show ?thesis by blast
qed

lemma elems_ok_last:
  assumes "jvalue v t" "value_ok v t" "blank w"
  shows "elems_ok [v] (t @ w)"
  unfolding elems_ok_def
proof (intro allI impI)
  fix s f fs r path i w0 rest
  assume s: "ready s (w0 @ (t @ w) @ CHR '']'' # rest)" "blank w0" "s_top s = f # fs" "pf_ps f = PARSE_ARRAY_VALUE" "pf_key f = None"
    "pf_value f = PV_NULL" "pf_array_index f = int i" "i + length [v] < 2 ^ 31" "held at (s_nv s) r (f # fs) path"
  obtain s3 where s3: "stored_at s r path (nv_put (fmt_d (int i)) (nv_of v))
      (f\<lparr>pf_array_index := int (Suc i), pf_ps := PARSE_ARRAY_COMMA\<rparr> # fs) rest s3"
    "\<And>u. end_array N mem s3 = Inr u \<Longrightarrow> json_reach N mem s u"
    using elem_read [OF assms(2,1) _ s(2) assms(3), of s "CHR '']''" rest f fs i r path] s by auto
  from end_array_good [OF s3(1), of "Suc i"] obtain u where u: "end_array N mem s3 = Inr u"
    "stored_at s r path (\<lambda>ps. put_elems (Suc i) [] (nv_put (fmt_d (int i)) (nv_of v) ps))
      (f\<lparr>pf_array_index := int (Suc i), pf_ps := PARSE_DONE\<rparr> # fs) rest u" by auto
  have "put_elems i [v] = (\<lambda>ps. put_elems (Suc i) [] (nv_put (fmt_d (int i)) (nv_of v) ps))" by (simp add: fun_eq_iff)
  then show "fills s s f fs r path (put_elems i [v]) rest"
    unfolding fills_def using s3(2) [OF u(1)] u(2) s(6)
    by (intro exI [of _ u] exI [of _ "f\<lparr>pf_array_index := int (Suc i), pf_ps := PARSE_DONE\<rparr>"]) simp
qed

lemma elems_ok_more:
  assumes "jvalue v t" "value_ok v t" "blank w" "blank w'" "elems_ok vs ts"
  shows "elems_ok (v # vs) (t @ w @ CHR '','' # w' @ ts)"
  unfolding elems_ok_def
proof (intro allI impI)
  fix s f fs r path i w0 rest
  assume s: "ready s (w0 @ (t @ w @ CHR '','' # w' @ ts) @ CHR '']'' # rest)" "blank w0" "s_top s = f # fs"
    "pf_ps f = PARSE_ARRAY_VALUE" "pf_key f = None" "pf_value f = PV_NULL" "pf_array_index f = int i"
    "i + length (v # vs) < 2 ^ 31" "held at (s_nv s) r (f # fs) path"
  let ?f = "f\<lparr>pf_array_index := int (Suc i), pf_ps := PARSE_ARRAY_VALUE\<rparr>"
  let ?F = "nv_put (fmt_d (int i)) (nv_of v)"
  obtain s3 where s3: "stored_at s r path ?F
      (f\<lparr>pf_array_index := int (Suc i), pf_ps := PARSE_ARRAY_COMMA\<rparr> # fs) (w' @ ts @ CHR '']'' # rest) s3"
    "\<And>u. movestate s3 PARSE_ARRAY_VALUE = Inr u \<Longrightarrow> json_reach N mem s u"
    using elem_read [OF assms(2,1) _ s(2) assms(3), of s "CHR '',''" "w' @ ts @ CHR '']'' # rest" f fs i r path] s by auto
  from movestate_stored [OF s3(1), of PARSE_ARRAY_VALUE] obtain u where u: "movestate s3 PARSE_ARRAY_VALUE = Inr u"
    "stored_at s r path ?F (?f # fs) (w' @ ts @ CHR '']'' # rest) u" by auto
  have "fills u u ?f fs r path (put_elems (Suc i) vs) rest"
    using assms(5) [unfolded elems_ok_def, rule_format, of u w' rest ?f fs "Suc i" r path] u(2) assms(4) s(5,6,8)
    by (simp add: stored_at_def)
  from fills_after [OF s3(2) [OF u(1)] u(2) this, of f] have "fills s s f fs r path (\<lambda>ps. put_elems (Suc i) vs (?F ps)) rest" by simp
  moreover have "put_elems i (v # vs) = (\<lambda>ps. put_elems (Suc i) vs (?F ps))" by (simp add: fun_eq_iff)
  ultimately show "fills s s f fs r path (put_elems i (v # vs)) rest" by simp
qed

lemma punct: "\<not> isspace (CHR '':'')" "\<not> isspace (CHR ''}'')" "\<not> isspace (CHR '','')" "\<not> isspace QUOTE" "\<not> isspace (CHR '']'')"
  by (simp_all add: isspace_def)

lemma member_read:
  assumes "jstring k kt" "blank w1" "blank w2" "jvalue v t" "value_ok v t" "blank w3" "c \<in> {CHR '','', CHR ''}''}"
    and "ready s (kt @ QUOTE # w1 @ CHR '':'' # w2 @ t @ w3 @ c # rest)" "s_top s = f # fs" "pf_ps f = PARSE_KEY_STRING"
    and "held at (s_nv s) r (f # fs) path"
  shows "\<exists>s3. stored_at s r path (nv_put k (nv_of v)) (f\<lparr>pf_ps := PARSE_OBJECT_COMMA, pf_key := None\<rparr> # fs) (w3 @ c # rest) s3 \<and>
    (\<forall>u. hdlr_object_comma mem s3 = Inr u \<longrightarrow> json_reach N mem s u)"
proof -
  let ?x = "w1 @ CHR '':'' # w2 @ t @ w3 @ c # rest"
  obtain d t' where d: "t = d # t'" "\<not> isspace d" using jvalue_hd [OF assms(4)] by blast
  obtain s1 where s1: "collect_string mem s = Inr (True, s1)" "collected s ?x k s1"
    using collect_string_collected [OF assms(8,1)] by blast
  have key: "custr_cstr (s_collect s1) = Inr k" "strdup mem k = Some k"
    using collected_cstr [OF s1(2) jstring_nul_free [OF assms(1)]] strdup_good [OF good] by auto
  let ?g = "f\<lparr>pf_key := Some k, pf_ps := PARSE_COLON\<rparr>"
  let ?s1 = "s1\<lparr>s_top := ?g # fs\<rparr>"
  have top1: "s_top s1 = f # fs" "s_nv s1 = s_nv s" using s1(2) assms(9) by (auto simp: collected_def moved_def)
  have "hdlr_key_string mem s = Inr ?s1"
    using s1(1) key top1(1) by (simp add: hdlr_key_string_def top_upd_def movestate_def)
  then have step1: "json_step N mem s = Inr (Inr ?s1)"
    using json_step_handler [where hdlr = "hdlr_key_string mem", OF assms(9)] assms(10) by (simp add: hdlrs_def)
  have "ready s1 ?x" using collected_ready [OF s1(2)] assms(8) by (simp add: ready_def)
  then have "ready ?s1 ?x" by (simp add: ready_def cursor_def)
  then obtain s2 s2' where s2: "discard_whitespace ?s1 = Inr s2" "popchar s2 = Inr (CHR '':'', s2')"
      "moved ?s1 (w2 @ d # t' @ w3 @ c # rest) s2'"
    using blank_pop [OF _ assms(2) punct(1)] d(1) by auto blast
  have "ready s2' (w2 @ d # t' @ w3 @ c # rest)" using moved_ready [OF s2(3)] \<open>ready s1 ?x\<close> by (simp add: ready_def)
  then obtain s0 where s0: "discard_whitespace s2' = Inr s0" "moved s2' (t @ w3 @ c # rest) s0"
    using whitespace_moved assms(3) d by fastforce
  have s0': "ready s0 (t @ w3 @ c # rest)" "s_top s0 = ?g # fs" "s_nv s0 = s_nv s"
    using s0(2) s2(3) top1(2) \<open>ready s1 ?x\<close> by (auto simp: moved_def ready_def)
  have "held at (s_nv s0) r (?g # fs) path" using held_top [OF assms(11), of ?g] s0'(3) by simp
  from value_then [OF assms(5) s0'(1) assms(6) _ s0'(2) _ this, of k PARSE_OBJECT_COMMA] assms(7) obtain s4 s3 where
    s4: "select_value mem PARSE_OBJECT_COMMA s0 = Inr s4"
    and s3: "stored_at s0 r path (nv_put k (nv_of v)) (?g\<lparr>pf_ps := PARSE_OBJECT_COMMA, pf_key := None\<rparr> # fs) (w3 @ c # rest) s3"
    and reach: "\<And>u. hdlr_object_comma mem s3 = Inr u \<Longrightarrow> json_reach N mem s4 u"
    by (auto simp: hdlrs_def)
  have "hdlr_colon mem ?s1 = Inr s4" using s2(1,2) s0(1) s4 by (simp add: hdlr_colon_def)
  then have step2: "json_step N mem ?s1 = Inr (Inr s4)"
    using json_step_handler [where hdlr = "hdlr_colon mem" and s = ?s1] by (simp add: hdlrs_def)
  have "?g\<lparr>pf_ps := PARSE_OBJECT_COMMA, pf_key := None\<rparr> = f\<lparr>pf_ps := PARSE_OBJECT_COMMA, pf_key := None\<rparr>" by (cases f) simp
  then have "stored_at s r path (nv_put k (nv_of v)) (f\<lparr>pf_ps := PARSE_OBJECT_COMMA, pf_key := None\<rparr> # fs) (w3 @ c # rest) s3"
    using s3 by (simp add: stored_at_def s0'(3))
  then show ?thesis using json_reach_step [OF step1 json_reach_step [OF step2 reach]] by blast
qed

lemma members_ok_last:
  assumes "jstring k kt" "blank w1" "blank w2" "jvalue v t" "value_ok v t" "blank w3"
  shows "members_ok [(k, v)] (kt @ QUOTE # w1 @ CHR '':'' # w2 @ t @ w3)"
  unfolding members_ok_def
proof (intro allI impI)
  fix s f fs r path rest
  assume s: "ready s ((kt @ QUOTE # w1 @ CHR '':'' # w2 @ t @ w3) @ CHR ''}'' # rest)" "s_top s = f # fs"
    "pf_ps f = PARSE_KEY_STRING" "pf_value f = PV_NULL" "held at (s_nv s) r (f # fs) path"
  let ?g = "f\<lparr>pf_ps := PARSE_OBJECT_COMMA, pf_key := None\<rparr>"
  obtain s3 where s3: "stored_at s r path (nv_put k (nv_of v)) (?g # fs) (w3 @ CHR ''}'' # rest) s3"
    "\<And>u. hdlr_object_comma mem s3 = Inr u \<Longrightarrow> json_reach N mem s u"
    using member_read [OF assms, of "CHR ''}''" s rest f fs r path] s by auto
  have "ready s3 (w3 @ CHR ''}'' # rest)" using s3(1) by (simp add: stored_at_def)
  then obtain s4 s5 where s5: "discard_whitespace s3 = Inr s4" "popchar s4 = Inr (CHR ''}'', s5)" "moved s3 rest s5"
    using blank_pop [OF _ assms(6) punct(2)] by blast
  from movestate_stored [OF stored_at_moved [OF s3(1) s5(3)], of PARSE_DONE] obtain u where
    u: "movestate s5 PARSE_DONE = Inr u" "stored_at s r path (nv_put k (nv_of v)) (?g\<lparr>pf_ps := PARSE_DONE\<rparr> # fs) rest u" by blast
  have "hdlr_object_comma mem s3 = Inr u" using s5(1,2) u(1) by (simp add: hdlr_object_comma_def)
  moreover have "put_members [(k, v)] = nv_put k (nv_of v)" by (simp add: fun_eq_iff)
  ultimately show "fills s s f fs r path (put_members [(k, v)]) rest"
    unfolding fills_def using s3(2) u(2) s(4) by (intro exI [of _ u] exI [of _ "?g\<lparr>pf_ps := PARSE_DONE\<rparr>"]) simp
qed

lemma members_ok_more:
  assumes "jstring k kt" "blank w1" "blank w2" "jvalue v t" "value_ok v t" "blank w3" "blank w4" "members_ok kvs ts"
  shows "members_ok ((k, v) # kvs) (kt @ QUOTE # w1 @ CHR '':'' # w2 @ t @ w3 @ CHR '','' # w4 @ QUOTE # ts)"
  unfolding members_ok_def
proof (intro allI impI)
  fix s f fs r path rest
  let ?y = "ts @ CHR ''}'' # rest"
  assume s: "ready s ((kt @ QUOTE # w1 @ CHR '':'' # w2 @ t @ w3 @ CHR '','' # w4 @ QUOTE # ts) @ CHR ''}'' # rest)"
    "s_top s = f # fs" "pf_ps f = PARSE_KEY_STRING" "pf_value f = PV_NULL" "held at (s_nv s) r (f # fs) path"
  let ?g = "f\<lparr>pf_ps := PARSE_OBJECT_COMMA, pf_key := None\<rparr>"
  let ?F = "nv_put k (nv_of v)"
  obtain s3 where s3: "stored_at s r path ?F (?g # fs) (w3 @ CHR '','' # w4 @ QUOTE # ?y) s3"
    "\<And>u. hdlr_object_comma mem s3 = Inr u \<Longrightarrow> json_reach N mem s u"
    using member_read [OF assms(1-6), of "CHR '',''" s "w4 @ QUOTE # ?y" f fs r path] s by auto
  have "ready s3 (w3 @ CHR '','' # w4 @ QUOTE # ?y)" using s3(1) by (simp add: stored_at_def)
  then obtain s4 s5 where s5: "discard_whitespace s3 = Inr s4" "popchar s4 = Inr (CHR '','', s5)" "moved s3 (w4 @ QUOTE # ?y) s5"
    using blank_pop [OF _ assms(6) punct(3)] by blast
  have "ready s5 (w4 @ QUOTE # ?y)" using stored_at_moved [OF s3(1) s5(3)] by (simp add: stored_at_def)
  then obtain s6 s7 where s7: "discard_whitespace s5 = Inr s6" "popchar s6 = Inr (QUOTE, s7)" "moved s5 ?y s7"
    using blank_pop [OF _ assms(7) punct(4)] by blast
  from movestate_stored [OF stored_at_moved [OF stored_at_moved [OF s3(1) s5(3)] s7(3)], of PARSE_KEY_STRING] obtain u where
    u: "movestate s7 PARSE_KEY_STRING = Inr u" "stored_at s r path ?F (?g\<lparr>pf_ps := PARSE_KEY_STRING\<rparr> # fs) ?y u" by blast
  have comma: "hdlr_object_comma mem s3 = Inr u" using s5(1,2) s7(1,2) u(1) by (simp add: hdlr_object_comma_def)
  have "fills u u (?g\<lparr>pf_ps := PARSE_KEY_STRING\<rparr>) fs r path (put_members kvs) rest"
    using assms(8) [unfolded members_ok_def, rule_format, of u rest "?g\<lparr>pf_ps := PARSE_KEY_STRING\<rparr>" fs r path] u(2) s(4)
    by (simp add: stored_at_def)
  from fills_after [OF s3(2) [OF comma] u(2) this, of f]
  have "fills s s f fs r path (\<lambda>ps. put_members kvs (?F ps)) rest" by simp
  moreover have "put_members ((k, v) # kvs) = (\<lambda>ps. put_members kvs (?F ps))" by (simp add: fun_eq_iff)
  ultimately show "fills s s f fs r path (put_members ((k, v) # kvs)) rest" by simp
qed

text \<open>What is to be shown of the text \<open>t\<close> of a container behind its opening bracket.\<close>

definition body_ok :: "(('h, 'p) jstate \<Rightarrow> ('h, 'p) jstate outcome) \<Rightarrow> (nvpairs \<Rightarrow> nvpairs) \<Rightarrow> char list \<Rightarrow> bool" where
  "body_ok body F t \<longleftrightarrow> (\<forall>s f fs r path rest. ready s (t @ rest) \<longrightarrow> s_top s = f # fs \<longrightarrow> pf_key f = None \<longrightarrow>
     pf_value f = PV_NULL \<longrightarrow> pf_array_index f = 0 \<longrightarrow> held at (s_nv s) r (f # fs) path \<longrightarrow>
     (\<exists>u. body s = Inr u \<and> fills s u f fs r path F rest))"

lemma stored_at_id:
  "ready s rest \<Longrightarrow> s_top s = frs \<Longrightarrow> held at (s_nv s) r frs path \<Longrightarrow> stored_at s r path (\<lambda>ps. ps) frs rest s"
proof -
  have "upd_at path (\<lambda>ps. ps) ps = ps" for ps by (induction path arbitrary: ps) (auto split: nvval.split intro!: map_idI)
  then show "ready s rest \<Longrightarrow> s_top s = frs \<Longrightarrow> held at (s_nv s) r frs path \<Longrightarrow> ?thesis" by (simp add: stored_at_def)
qed

lemma object_body_ok:
  assumes "blank w" "(kvs = [] \<and> t = ''}'') \<or> (\<exists>ts. t = QUOTE # ts @ ''}'' \<and> members_ok kvs ts)"
  shows "body_ok (object_body mem) (put_members kvs) (w @ t)"
  unfolding body_ok_def
proof (intro allI impI)
  fix s f fs r path rest
  assume s: "ready s ((w @ t) @ rest)" "s_top s = f # fs" "pf_key f = None" "pf_value f = PV_NULL" "held at (s_nv s) r (f # fs) path"
  obtain c x where c: "t @ rest = c # x" "\<not> isspace c" using assms(2) punct by auto
  from s(1) c have "ready s (w @ c # x)" by simp
  from blank_pop [OF this assms(1) c(2)] obtain s1 s2 where
    s2: "discard_whitespace s = Inr s1" "popchar s1 = Inr (c, s2)" "moved s x s2" by blast
  have "stored_at s r path (\<lambda>ps. ps) (f # fs) x s2" using stored_at_moved [OF stored_at_id [OF s(1,2,5)] s2(3)] .
  note move = movestate_stored [OF this]
  from assms(2) show "\<exists>u. object_body mem s = Inr u \<and> fills s u f fs r path (put_members kvs) rest"
  proof (elim disjE exE conjE)
    assume t: "kvs = []" "t = ''}''"
    obtain u where u: "movestate s2 PARSE_DONE = Inr u" "stored_at s r path (\<lambda>ps. ps) (f\<lparr>pf_ps := PARSE_DONE\<rparr> # fs) x u"
      using move by blast
    have "object_body mem s = Inr u" using s2(1,2) u(1) c(1) t by (auto simp: object_body_def)
    moreover have "put_members [] = (\<lambda>ps. ps)" by (simp add: fun_eq_iff)
    ultimately show ?thesis using fills_now [OF u(2), of f] c(1) t s(4) by auto
  next
    fix ts assume t: "t = QUOTE # ts @ ''}''" "members_ok kvs ts"
    let ?g = "f\<lparr>pf_ps := PARSE_KEY_STRING\<rparr>"
    obtain u where u: "movestate s2 PARSE_KEY_STRING = Inr u" "stored_at s r path (\<lambda>ps. ps) (?g # fs) x u"
      using move by blast
    have "fills u u ?g fs r path (put_members kvs) rest"
      using t(2) [unfolded members_ok_def, rule_format, of u rest ?g fs r path] u(2) s(4) c(1) t(1)
      by (simp add: stored_at_def)
    from fills_after [OF json_reach_refl u(2) this, of f]
    have "fills s u f fs r path (put_members kvs) rest" by simp
    moreover have "object_body mem s = Inr u" using s2(1,2) u(1) c(1) t(1) by (auto simp: object_body_def)
    ultimately show ?thesis by blast
  qed
qed

lemma jelems_hd: "jelems vs t \<Longrightarrow> \<exists>c t'. t = c # t' \<and> \<not> isspace c \<and> c \<noteq> CHR '']''"
  by (erule jelems.cases) (auto dest!: jvalue_hd)

lemma array_body_ok:
  assumes "blank w" "(vs = [] \<and> t = '']'') \<or> (\<exists>ts. t = ts @ '']'' \<and> jelems vs ts \<and> elems_ok vs ts \<and> length vs < 2 ^ 31)"
  shows "body_ok (array_body N mem) (put_elems 0 vs) (w @ t)"
  unfolding body_ok_def
proof (intro allI impI)
  fix s f fs r path rest
  assume s: "ready s ((w @ t) @ rest)" "s_top s = f # fs" "pf_key f = None" "pf_value f = PV_NULL" "pf_array_index f = 0"
    "held at (s_nv s) r (f # fs) path"
  have "\<exists>c x. t @ rest = c # x \<and> \<not> isspace c \<and> (vs \<noteq> [] \<longrightarrow> c \<noteq> CHR '']'')"
    using assms(2) punct(5) by (auto dest!: jelems_hd)
  then obtain c x where c: "t @ rest = c # x" "\<not> isspace c" "vs \<noteq> [] \<Longrightarrow> c \<noteq> CHR '']''" by blast
  from s(1) c(1) have "ready s (w @ c # x)" by simp
  from whitespace_moved [OF this assms(1) c(2)] obtain s1 where
    s1: "discard_whitespace s = Inr s1" "moved s (c # x) s1" by blast
  have st1: "stored_at s r path (\<lambda>ps. ps) (f # fs) (c # x) s1" using stored_at_moved [OF stored_at_id [OF s(1,2,6)] s1(2)] .
  then have rd: "ready s1 (c # x)" by (simp add: stored_at_def)
  from assms(2) show "\<exists>u. array_body N mem s = Inr u \<and> fills s u f fs r path (put_elems 0 vs) rest"
  proof (elim disjE exE conjE)
    assume t: "vs = []" "t = '']''"
    obtain s2 where s2: "popchar s1 = Inr (c, s2)" "moved s1 x s2" using pop_moved [OF rd] by blast
    from end_array_good [OF stored_at_moved [OF st1 s2(2)], of 0] s(5) obtain u where
      u: "end_array N mem s2 = Inr u" "stored_at s r path (put_elems 0 []) (f\<lparr>pf_ps := PARSE_DONE\<rparr> # fs) x u"
      by (auto simp: put_elems_nil)
    have "array_body N mem s = Inr u" using s1(1) s2(1) ready_peek [OF rd] u(1) c(1) t by (auto simp: array_body_def)
    then show ?thesis using fills_now [OF u(2), of f] c(1) t s(4) by auto
  next
    fix ts assume t: "t = ts @ '']''" "jelems vs ts" "elems_ok vs ts" "length vs < 2 ^ 31"
    let ?g = "f\<lparr>pf_ps := PARSE_ARRAY_VALUE\<rparr>"
    have "vs \<noteq> []" using t(2) by (cases rule: jelems.cases) auto
    obtain u where u: "movestate s1 PARSE_ARRAY_VALUE = Inr u" "stored_at s r path (\<lambda>ps. ps) (?g # fs) (c # x) u"
      using movestate_stored [OF st1] by blast
    have "fills u u ?g fs r path (put_elems 0 vs) rest"
      using t(3) [unfolded elems_ok_def, rule_format, of u "[]" rest ?g fs 0 r path] u(2) s(3-5) c(1) t(1,4)
      by (simp add: stored_at_def blank_def)
    from fills_after [OF json_reach_refl u(2) this, of f]
    have "fills s u f fs r path (put_elems 0 vs) rest" by simp
    moreover have "array_body N mem s = Inr u"
      using s1(1) ready_peek [OF rd] u(1) c(3) \<open>vs \<noteq> []\<close> by (auto simp: array_body_def)
    ultimately show ?thesis by blast
  qed
qed

lemma value_ok_container:
  assumes "container N mem c ps ty body" "body_ok body F t" "nv_of v = NV_nvlist (F [])"
  shows "value_ok v (c # t)"
  unfolding value_ok_def
proof (intro allI impI)
  fix s g fs r path k retps d rest
  assume s: "ready s ((c # t) @ d # rest)" "s_top s = g # fs" "pf_key g = Some k" "held at (s_nv s) r (g # fs) path"
  let ?g = "g\<lparr>pf_ps := retps\<rparr>"
  obtain s0 where s0: "popchar s = Inr (c, s0)" "moved s (t @ d # rest) s0" using pop_moved [of s c] s(1) by auto
  let ?s1 = "s0\<lparr>s_top := frame_new ps # ?g # fs\<rparr>"
  have top0: "s_top s0 = g # fs" "s_nv s0 = s_nv s" using s0(2) s(2) by (simp_all add: moved_def)
  have "peekchar s = Inr c" using ready_peek [of s c] s(1) by simp
  then have sel: "select_value mem retps s = Inr ?s1"
    using pushstate_good [OF top0(1)] s0(1) assms(1) by (auto simp: select_value_def container_def)
  let ?f = "(frame_new ps)\<lparr>pf_value_type := ty\<rparr>"
  let ?s2 = "?s1\<lparr>s_top := ?f # ?g # fs\<rparr>"
  have hg: "held at (s_nv s) r (?g # fs) path" using held_top [OF s(4), of ?g] by simp
  obtain h p where hp: "add_empty_child N mem ?s2 = Inr (True, ?s2\<lparr>s_nv := h, s_top := ?f\<lparr>pf_nvl := Some p\<rparr> # ?g # fs\<rparr>)"
    "tree h r = upd_at path (nv_put k (NV_nvlist [])) (tree (s_nv s) r)"
    "held at h r (?f\<lparr>pf_nvl := Some p\<rparr> # ?g # fs) (path @ [k])"
    using add_empty_child_below [of ?s2 ?f ?g fs k r path] s(3) hg top0(2) by auto
  let ?s3 = "?s2\<lparr>s_nv := h, s_top := ?f\<lparr>pf_nvl := Some p\<rparr> # ?g # fs\<rparr>"
  have "ready ?s3 (t @ d # rest)" using s(1) s0(2) by (auto simp: ready_def moved_def cursor_def)
  from assms(2) [unfolded body_ok_def, rule_format, OF this, of "?f\<lparr>pf_nvl := Some p\<rparr>" "?g # fs" r "path @ [k]"] hp(3)
  obtain u where u: "body ?s3 = Inr u" "fills ?s3 u (?f\<lparr>pf_nvl := Some p\<rparr>) (?g # fs) r (path @ [k]) F (d # rest)"
    by (auto simp: frame_new_def)
  then obtain s' f' where s': "json_reach N mem u s'" "stored_at ?s3 r (path @ [k]) F (f' # ?g # fs) (d # rest) s'"
    "pf_ps f' = PARSE_DONE" "pf_value_type f' = ty" "pf_value f' = PV_NULL"
    unfolding fills_def by auto
  have "opens N mem ty body ?s1 = Inr u" using hp(1) u(1) by (simp add: opens_def top_upd_def)
  then have "json_step N mem ?s1 = Inr (Inr u)"
    using json_step_handler [where hdlr = "opens N mem ty body" and s = ?s1] container_hdlr [OF assms(1)] by (simp add: frame_new_def)
  then have reach: "json_reach N mem ?s1 s'" using s'(1) by (rule json_reach_step)
  obtain q where q: "pf_nvl g = Some q" using held_at [OF s(4)] by blast
  have st: "s_top s' = f' # ?g # fs" "ready s' (d # rest)" "held at (s_nv s') r (?g # fs) path"
    "tree (s_nv s') r = upd_at path (nv_put k (nv_of v)) (tree (s_nv s) r)"
    using s'(2) hp(2) assms(3) by (auto simp: stored_at_def upd_at_fill)
  have "json_pop N mem s' = Inr (Inr (s'\<lparr>s_top := ?g\<lparr>pf_key := None\<rparr> # fs\<rparr>))"
    by (rule pop_container [OF st(1) s'(3) _ s'(5)]) (use assms(1) s(3) q s'(4) in \<open>auto simp: container_def\<close>)
  moreover have "held at (s_nv s') r (?g\<lparr>pf_key := None\<rparr> # fs) path" using held_top [OF st(3)] by simp
  then have "stored_at s r path (nv_put k (nv_of v)) (?g\<lparr>pf_key := None\<rparr> # fs) (d # rest) (s'\<lparr>s_top := ?g\<lparr>pf_key := None\<rparr> # fs\<rparr>)"
    using st by (simp add: stored_at_def ready_def cursor_def)
  ultimately show "gets_value s v r path k retps g fs (d # rest)"
    unfolding gets_value_def using sel reach by blast
qed

lemma grammar_ok:
  "jvalue v t \<Longrightarrow> value_ok v t" "jelems vs t \<Longrightarrow> elems_ok vs t" "jmembers kvs t \<Longrightarrow> members_ok kvs t"
proof (induction v t and vs t and kvs t rule: jvalue_jelems_jmembers.inducts)
  case (val_nat ds)
  then show ?case using value_ok_number [of "[]" False ds] by simp
next
  case (val_neg ds)
  then show ?case using value_ok_number [of "''-''" True ds] by simp
next
  case (val_arr0 w)
  then show ?case
    using value_ok_container [OF _ array_body_ok, of "CHR ''[''" PARSE_ARRAY JSON_TYPE_ARRAY w "[]" "'']''" "J_arr []"]
    by (simp add: container_def)
next
  case (val_arr w vs t)
  then show ?case
    using value_ok_container [OF _ array_body_ok, of "CHR ''[''" PARSE_ARRAY JSON_TYPE_ARRAY w vs "t @ '']''" "J_arr vs"]
    by (simp add: container_def)
next
  case (val_obj0 w)
  then show ?case
    using value_ok_container [OF _ object_body_ok, of "CHR ''{''" PARSE_OBJECT JSON_TYPE_OBJECT w "[]" "''}''" "J_obj []"]
    by (simp add: container_def)
next
  case (val_obj w kvs t)
  then show ?case
    using value_ok_container [OF _ object_body_ok, of "CHR ''{''" PARSE_OBJECT JSON_TYPE_OBJECT w kvs "QUOTE # t @ ''}''" "J_obj kvs"]
    by (simp add: container_def)
qed (simp_all add: value_ok_word islower_def value_ok_string elems_ok_last elems_ok_more members_ok_last members_ok_more)

section \<open>The whole text\<close>

lemma root_body:
  assumes "jvalue v t" "\<exists>ps. nv_of v = NV_nvlist ps"
  shows "\<exists>c ps ty body F t'. t = c # t' \<and> container N mem c ps ty body \<and> body_ok body F t' \<and> nv_of v = NV_nvlist (F [])"
  using assms
proof (cases rule: jvalue.cases)
  case (val_arr0 w)
  then show ?thesis using array_body_ok [of w "[]" "'']''"] by (auto simp: container_def)
next
  case (val_arr w vs t)
  then show ?thesis using array_body_ok [of w vs "t @ '']''"] grammar_ok(2) by (auto simp: container_def)
next
  case (val_obj0 w)
  then show ?thesis using object_body_ok [of w "[]" "''}''"] by (auto simp: container_def)
next
  case (val_obj w kvs t)
  then show ?thesis using object_body_ok [of w kvs "QUOTE # t @ ''}''"] grammar_ok(3) by (auto simp: container_def)
qed auto

text \<open>From the frame of \<^verbatim>\<open>PARSE_REST\<close> to the end of the value.\<close>

lemma root_reaches:
  assumes "jvalue v t" "\<exists>ps. nv_of v = NV_nvlist ps" "blank w" "ready s (w @ t @ rest)" "s_top s = [frame_new PARSE_REST]"
  shows "\<exists>s' r. json_reach N mem s s' \<and> json_step N mem s' = Inr (Inl (Some r, s')) \<and> s_errno s' = None \<and>
    nv_of v = NV_nvlist (tree (s_nv s') r) \<and> at (s_nv s') r [] r \<and> (\<forall>f \<in> set (s_top s'). pf_value f = PV_NULL)"
proof -
  obtain c ps ty body F t' where c: "t = c # t'" "container N mem c ps ty body" "body_ok body F t'" "nv_of v = NV_nvlist (F [])"
    using root_body [OF assms(1,2)] by blast
  have "ready s (w @ c # t' @ rest)" "\<not> isspace c" using assms(4) c(1,2) by (auto simp: container_def isspace_def)
  from blank_pop [OF this(1) assms(3) this(2)] obtain s0 s1 where
    s1: "discard_whitespace s = Inr s0" "popchar s0 = Inr (c, s1)" "moved s (t' @ rest) s1" by blast
  have top1: "s_top s1 = [frame_new PARSE_REST]" using s1(3) assms(5) by (simp add: moved_def)
  let ?s2 = "s1\<lparr>s_top := [frame_new ps]\<rparr>"
  have "hdlr_rest mem s = Inr ?s2"
    using s1(1,2) top1 c(2) by (auto simp: hdlr_rest_def container_def movestate_def top_upd_def frame_new_def)
  then have step1: "json_step N mem s = Inr (Inr ?s2)"
    using json_step_handler [where hdlr = "hdlr_rest mem", OF assms(5)] by (simp add: hdlrs_def frame_new_def)
  obtain e h where e: "nvlist_alloc N (s_nv s1) = (Inr e, h)" "at h e [] e" "tree h e = []" using alloc by metis
  let ?f = "(frame_new ps)\<lparr>pf_value_type := ty, pf_nvl := Some e\<rparr>"
  let ?s3 = "s1\<lparr>s_nv := h, s_top := [?f]\<rparr>"
  have "ready ?s3 (t' @ rest)" using s1(3) assms(4) by (auto simp: ready_def moved_def cursor_def)
  from c(3) [unfolded body_ok_def, rule_format, OF this, of ?f "[]" e "[]"] e(2) obtain u where
    u: "body ?s3 = Inr u" "fills ?s3 u ?f [] e [] F rest" by (auto simp: frame_new_def)
  then obtain s' f' where s': "json_reach N mem u s'" "stored_at ?s3 e [] F [f'] rest s'" "pf_ps f' = PARSE_DONE" "pf_value f' = PV_NULL"
    unfolding fills_def by auto
  have "opens N mem ty body ?s2 = Inr u"
    using e(1) u(1) by (simp add: opens_def top_upd_def add_empty_child_def)
  then have "json_step N mem ?s2 = Inr (Inr u)"
    using json_step_handler [where hdlr = "opens N mem ty body" and s = ?s2] container_hdlr [OF c(2)] by (simp add: frame_new_def)
  then have "json_reach N mem s s'" using json_reach_step [OF step1 json_reach_step [OF _ s'(1)]] by blast
  moreover have "json_step N mem s' = Inr (Inl (Some e, s'))"
    using s'(2,3) by (simp add: json_step_def json_pop_def stored_at_def)
  ultimately show ?thesis
    using s'(2,4) c(4) e(3) by (intro exI [of _ s'] exI [of _ e]) (simp add: stored_at_def ready_def)
qed

end

lemma json_loop_stable: "json_loop N mem m s = Inl Fault_Fuel \<or> json_loop N mem (m + k) s = json_loop N mem m s"
proof (induction m arbitrary: s)
  case (Suc m)
  then show ?case
    by (cases "json_step N mem s") (auto split: sum.split)
qed simp

lemma json_reach_loop:
  assumes "json_reach N mem s s'" "json_step N mem s' = Inr (Inl out)"
  shows "\<exists>n. json_loop N mem n s = Inr out"
  using assms unfolding json_reach_def
proof (induction rule: converse_rtranclp_induct)
  case base
  then show ?case by (intro exI [of _ 1]) simp
next
  case (step y z)
  then obtain n where "json_loop N mem n z = Inr out" by blast
  then show ?case using step.hyps(1) by (intro exI [of _ "Suc n"]) simp
qed

text \<open>The fuel that is enough for every text is enough for this one.\<close>

lemma json_loop_enough:
  assumes "json_loop N mem n s = Inr out" "sane_alloc mem" "json_inv inp s" "json_measure s < m"
  shows "json_loop N mem m s = Inr out"
proof -
  have "json_loop N mem m s \<noteq> Inl Fault_Fuel"
    using json_loop_runs [OF assms(2-4), of N] by (auto simp: runs_def)
  then show ?thesis
    using json_loop_stable [of N mem m s "n - m"] json_loop_stable [of N mem n s "m - n"] assms(1)
    by (cases "m \<le> n") auto
qed

lemma free_frames_values: "\<forall>f \<in> set frs. pf_value f = PV_NULL \<Longrightarrow> free_frames N False frs h = Inr h"
  by (induction frs) (auto simp: parse_frame_free_def split: option.split)

lemma json_run_reads:
  assumes "nvpair_library N at tree" "good_alloc mem" "jvalue v t" "\<exists>ps. nv_of v = NV_nvlist ps" "blank w"
    and "reader_ok (w @ t @ rest) s" "s_pos s = 0" "s_errno s = None" "3 * length (w @ t @ rest) + 5 \<le> fuel"
  shows "\<exists>res p. json_run N mem fuel want s = Inr res \<and> jr_errno res = None \<and> jr_nvl res = Some p \<and>
    nv_of v = NV_nvlist (tree (jr_nv res) p) \<and> at (jr_nv res) p [] p"
proof -
  have heap: "json_heap N at tree mem" using assms(1,2) by (simp add: json_heap_def working_heap_def)
  let ?s = "s\<lparr>s_top := [frame_new PARSE_REST]\<rparr>"
  let ?inp = "w @ t @ rest"
  have inv: "json_inv ?inp ?s" using assms(6) by (simp add: json_inv_def stack_ok_def top_ok_def frame_new_def reader_ok_def)
  have "ready ?s (w @ t @ rest @ [NUL])" using assms(6-8) by (auto simp: ready_def reader_ok_def cursor_def)
  from json_heap.root_reaches [OF heap assms(3-5) this] obtain s' r where
    s': "json_reach N mem ?s s'" "json_step N mem s' = Inr (Inl (Some r, s'))" "s_errno s' = None"
    "nv_of v = NV_nvlist (tree (s_nv s') r) \<and> at (s_nv s') r [] r" "\<forall>f \<in> set (s_top s'). pf_value f = PV_NULL" by auto
  have "json_measure ?s < fuel" using assms(6,7,9) by (simp add: json_measure_def frame_new_def reader_ok_def)
  with json_reach_loop [OF s'(1,2)] have loop: "json_loop N mem fuel ?s = Inr (Some r, s')"
    using json_loop_enough [OF _ good_alloc_sane [OF assms(2)] inv] by blast
  obtain a where a: "mem 56 = Some a" using good_allocD [OF assms(2)] by blast
  show ?thesis
    using loop a s'(3,4) free_frames_values [OF s'(5), of N] by (simp add: json_run_def json_out_def)
qed

interpretation tjh: json_heap tree_nv tree_at tree_get heap_base
  by unfold_locales (rule good_heap_base)

lemma nvlist_parse_json_text:
  fixes N :: "('h, 'p) nv_ops"
  assumes "nvpair_library N at tree" "good_alloc mem" "jvalue v t" "\<exists>ps. nv_of v = NV_nvlist ps" "blank w"
    and "case errbuf of None \<Rightarrow> True | Some (a, b) \<Rightarrow> length b = 512 \<and> 512 \<le> a"
    and "3 * length (w @ t @ rest) + 5 \<le> fuel"
    and "and flag NVJSON_FORCE_INTEGER = 0 \<or> and flag NVJSON_FORCE_DOUBLE = 0" "and flag (not NVJSON_ALL) = 0"
  shows "\<exists>res p. nvlist_parse_json N mem fuel h (w @ t @ rest @ [NUL]) (length (w @ t @ rest)) flag errbuf = Inr res \<and>
    jr_errno res = None \<and> jr_nvl res = Some p \<and> nv_of v = NV_nvlist (tree (jr_nv res) p) \<and> at (jr_nv res) p [] p"
proof -
  obtain cu where cu: "custr_alloc mem = (Ret_ok, Some cu)" "custr_dyn cu []" using custr_alloc_dyn [OF assms(2)] by blast
  let ?s = "(json_start h (w @ t @ rest @ [NUL]) (length (w @ t @ rest)) flag)\<lparr>s_collect := cu\<rparr> :: ('h, 'p) jstate"
  have "reader_ok (w @ t @ rest) ?s" using cu(2) by (auto simp: reader_ok_def json_start_def)
  from json_errstr_returns [OF this assms(6), of mem] assms(2) obtain s where
    s: "json_errstr mem errbuf ?s = Inr (Ret_ok, s)" "reader_ok (w @ t @ rest) s" "s_pos s = 0" "s_errno s = None"
    by (auto simp: json_start_def)
  show ?thesis
    using json_run_reads [OF assms(1-5) s(2-4) assms(7), of "errbuf \<noteq> None"] cu(1) s(1) assms(8,9)
    by (auto simp: nvlist_parse_json_def Let_def)
qed



end
