(* ===== verification/Docker_Mdata.thy ===== *)
theory Docker_Mdata
  imports Docker_Env Mdata_Tools Json_Roundtrip
begin

text \<open>
  What a Docker zone learns from its metadata, from \<^verbatim>\<open>src/src/dockerinit/src/docker-common.c\<close>: the
  functions that fetch and store metadata over the protocol engine, the JSON arrays among them, the
  environment and command line built from them, the user and group, and the working directory. The
  process state is a record: the protocol handle with what the outside world has in store for it, the
  memory of the name-value library, the user and the group found. Strings are C strings without null
  characters; log messages are not modelled.
\<close>

section \<open>The process\<close>

record passwd =
  pw_name :: "char list"
  pw_uid :: "32 word"
  pw_gid :: "32 word"
  pw_dir :: "char list"

record group =
  gr_name :: "char list"
  gr_gid :: "32 word"

text \<open>
  \<open>dk_mdp\<close> is \<^verbatim>\<open>mdp\<close>, \<open>None\<close> while \<^verbatim>\<open>initialized_proto\<close> is 0; the next five fields are the
  arguments \<^verbatim>\<open>proto_init\<close> gets from the outside world.
\<close>

record 'h docker =
  dk_mdp :: "mdata_proto option"
  dk_fd :: int
  dk_calloc :: bool
  dk_reqid :: reqid_state
  dk_inits :: "init_env list"
  dk_rids :: "nat \<Rightarrow> reqid_env"
  dk_nv :: 'h
  dk_hostname :: "char list option"
  dk_pwd :: "passwd option"
  dk_grp :: "group option"

section \<open>Metadata\<close>

definition mdata_connect :: "allocator \<Rightarrow> 'h docker \<Rightarrow> (mdata_proto \<times> 'h docker) outcome" where
  "mdata_connect mem d =
     (case dk_mdp d of
        Some mdp \<Rightarrow> Inr (mdp, d)
      | None \<Rightarrow>
          bindr (proto_init mem (dk_fd d) (dk_calloc d) (dk_reqid d) (dk_inits d) (dk_rids d))
            (\<lambda>(r, mdp, errmsg).
              if r \<noteq> 0 then bindr (percent_s errmsg) (\<lambda>_. fatal ERR_MDATA_INIT)
              else Inr (the mdp, d\<lparr>dk_mdp := mdp\<rparr>)))"

definition mdataGet :: "allocator \<Rightarrow> 'h docker \<Rightarrow> char list \<Rightarrow> (char list option \<times> 'h docker) outcome" where
  "mdataGet mem d keyname =
     bindr (mdata_connect mem d) (\<lambda>(mdp, d).
     bindr (proto_execute mem mdp ''GET'' (Some keyname)) (\<lambda>(res, mdp).
     let d = d\<lparr>dk_mdp := Some mdp\<rparr> in
     case res of
       None \<Rightarrow> fatal ERR_UNEXPECTED
     | Some (mdr, mdata) \<Rightarrow>
         (case mdr of
            MDR_SUCCESS \<Rightarrow>
              bindr (dynstr_cstr mdata) (\<lambda>s.
              case strdup mem s of None \<Rightarrow> fatal ERR_STRDUP | Some out \<Rightarrow> Inr (Some out, d))
          | MDR_NOTFOUND \<Rightarrow> Inr (None, d)
          | MDR_UNKNOWN \<Rightarrow> bindr (percent_s_dyn mdata) (\<lambda>_. fatal ERR_MDATA_FAIL)
          | MDR_INVALID_COMMAND \<Rightarrow> fatal ERR_MDATA_FAIL
          | _ \<Rightarrow> fatal ERR_UNEXPECTED)))"

text \<open>\<^verbatim>\<open>proto_version(mdp) < 2\<close>.\<close>

definition version_below_2 :: "mdata_proto \<Rightarrow> bool" where
  "version_below_2 mdp \<longleftrightarrow> proto_version mdp \<noteq> MDPV_VERSION_2"

definition mdataPut :: "allocator \<Rightarrow> 'h docker \<Rightarrow> char list \<Rightarrow> char list \<Rightarrow> 'h docker outcome" where
  "mdataPut mem d keyname val =
     bindr (dynstr_new mem) (\<lambda>req.
     bindr (mdata_connect mem d) (\<lambda>(mdp, d).
     bindr (base64_encode mem keyname req) (\<lambda>req.
     bindr (dynstr_appendc mem req (CHR '' '')) (\<lambda>req.
     bindr (base64_encode mem val req) (\<lambda>req.
     if version_below_2 mdp then fatal ERR_MDATA_TOO_OLD
     else
       bindr (dynstr_cstr req) (\<lambda>arg.
       bindr (proto_execute mem mdp ''PUT'' (Some arg)) (\<lambda>(res, mdp).
       case res of None \<Rightarrow> fatal ERR_MDATA_FAIL | Some _ \<Rightarrow> Inr (d\<lparr>dk_mdp := Some mdp\<rparr>))))))))"

definition mdataDelete :: "allocator \<Rightarrow> 'h docker \<Rightarrow> char list \<Rightarrow> 'h docker outcome" where
  "mdataDelete mem d keyname =
     bindr (mdata_connect mem d) (\<lambda>(mdp, d).
     if version_below_2 mdp then fatal ERR_MDATA_TOO_OLD
     else
       bindr (proto_execute mem mdp ''DELETE'' (Some keyname)) (\<lambda>(res, mdp).
       case res of None \<Rightarrow> fatal ERR_MDATA_FAIL | Some _ \<Rightarrow> Inr (d\<lparr>dk_mdp := Some mdp\<rparr>)))"

section \<open>Arrays\<close>

text \<open>
  \<open>want_len\<close> says whether the caller passes a place for the length. A lookup in a null list fails.
\<close>

definition nvl_uint32 :: "('h, 'p) nv_ops \<Rightarrow> 'h \<Rightarrow> 'p option \<Rightarrow> char list \<Rightarrow> 32 word option" where
  "nvl_uint32 N h nvl k =
     (case nvl of None \<Rightarrow> None
      | Some p \<Rightarrow> (case nvlist_lookup_uint32 N h p k of Inl _ \<Rightarrow> None | Inr u \<Rightarrow> Some u))"

definition nvl_string :: "('h, 'p) nv_ops \<Rightarrow> 'h \<Rightarrow> 'p option \<Rightarrow> char list \<Rightarrow> char list option" where
  "nvl_string N h nvl k =
     (case nvl of None \<Rightarrow> None
      | Some p \<Rightarrow> (case nvlist_lookup_string N h p k of Inl _ \<Rightarrow> None | Inr s \<Rightarrow> Some s))"

definition nvl_free :: "('h, 'p) nv_ops \<Rightarrow> 'p option \<Rightarrow> 'h docker \<Rightarrow> 'h docker" where
  "nvl_free N nvl d = (case nvl of None \<Rightarrow> d | Some p \<Rightarrow> d\<lparr>dk_nv := nvlist_free N (dk_nv d) p\<rparr>)"

definition getMdataArray ::
    "('h, 'p) nv_ops \<Rightarrow> allocator \<Rightarrow> nat \<Rightarrow> 'h docker \<Rightarrow> char list \<Rightarrow> bool
     \<Rightarrow> ('p option \<times> 32 word option \<times> 'h docker) outcome" where
  "getMdataArray N mem fuel d key want_len =
     bindr (mdataGet mem d key) (\<lambda>(json, d).
     let json = (case json of None \<Rightarrow> ''[]'' | Some s \<Rightarrow> s) in
     bindr (nvlist_parse_json N mem fuel (dk_nv d) (json @ [NUL]) (length json) NVJSON_FORCE_INTEGER None) (\<lambda>res.
     let d = d\<lparr>dk_nv := jr_nv res\<rparr> in
     if jr_errno res \<noteq> None then fatal ERR_PARSE_JSON
     else if want_len
     then (case nvl_uint32 N (dk_nv d) (jr_nvl res) ''length'' of
             None \<Rightarrow> fatal ERR_UNEXPECTED
           | Some len \<Rightarrow> Inr (jr_nvl res, Some len, d))
     else Inr (jr_nvl res, None, d)))"

text \<open>The loop over the indices \<open>i\<close> below the length, by the number of elements left.\<close>

fun each_string ::
    "('h, 'p) nv_ops \<Rightarrow> 'h \<Rightarrow> 'p option \<Rightarrow> (nat \<Rightarrow> char list \<Rightarrow> 'a \<Rightarrow> 'a outcome) \<Rightarrow> nat \<Rightarrow> nat \<Rightarrow> 'a \<Rightarrow> 'a outcome" where
  "each_string N h nvl funcp 0 i arg = Inr arg"
| "each_string N h nvl funcp (Suc n) i arg =
     (case nvl_string N h nvl (fmt_u i) of
        None \<Rightarrow> fatal ERR_UNEXPECTED
      | Some val \<Rightarrow> bindr (funcp i val arg) (\<lambda>arg. each_string N h nvl funcp n (i + 1) arg))"

definition forEachStringInArray ::
    "('h, 'p) nv_ops \<Rightarrow> 'h \<Rightarrow> 'p option \<Rightarrow> (nat \<Rightarrow> char list \<Rightarrow> 'a \<Rightarrow> 'a outcome) \<Rightarrow> 'a \<Rightarrow> 'a outcome" where
  "forEachStringInArray N h array_nvl funcp arg =
     (case nvl_uint32 N h array_nvl ''length'' of
        None \<Rightarrow> fatal ERR_UNEXPECTED
      | Some len \<Rightarrow> each_string N h array_nvl funcp (unat len) 0 arg)"

text \<open>The body both builders repeat for each of their arrays.\<close>

fun load_arrays ::
    "('h, 'p) nv_ops \<Rightarrow> allocator \<Rightarrow> nat \<Rightarrow> (nat \<Rightarrow> char list \<Rightarrow> 'a \<Rightarrow> 'a outcome) \<Rightarrow> char list list
     \<Rightarrow> 'a \<Rightarrow> 'h docker \<Rightarrow> ('a \<times> 'h docker) outcome" where
  "load_arrays N mem fuel funcp [] arg d = Inr (arg, d)"
| "load_arrays N mem fuel funcp (key # keys) arg d =
     bindr (getMdataArray N mem fuel d key False) (\<lambda>(nvl, _, d).
     bindr (forEachStringInArray N (dk_nv d) nvl funcp arg) (\<lambda>arg.
     load_arrays N mem fuel funcp keys arg (nvl_free N nvl d)))"

section \<open>Environment and command line\<close>

definition buildCmdEnv ::
    "('h, 'p) nv_ops \<Rightarrow> allocator \<Rightarrow> nat \<Rightarrow> 'h docker \<Rightarrow> strlist \<Rightarrow> (strlist \<times> 'h docker) outcome" where
  "buildCmdEnv N mem fuel d env =
     bindr (insertOrReplaceEnv mem env ''TERM'' DEFAULT_TERM) (\<lambda>env.
     bindr (insertOrReplaceEnv mem env ''HOME'' (case dk_pwd d of None \<Rightarrow> ''/'' | Some p \<Rightarrow> pw_dir p)) (\<lambda>env.
     bindr (insertOrReplaceEnv mem env ''PATH'' DEFAULT_PATH) (\<lambda>env.
     bindr (case dk_hostname d of None \<Rightarrow> Inr env | Some h \<Rightarrow> insertOrReplaceEnv mem env ''HOSTNAME'' h) (\<lambda>env.
     load_arrays N mem fuel (cbEachEnvEntry mem) [''docker:linkEnv'', ''docker:env''] env d))))"

definition cbEachCmdEntry :: "allocator \<Rightarrow> nat \<Rightarrow> char list \<Rightarrow> strlist \<Rightarrow> strlist outcome" where
  "cbEachCmdEntry mem idx val cmdline =
     bindr (or_fatal ERR_NO_MEMORY (strlist_set_tail mem cmdline (Some val))) (\<lambda>cmdline.
     bindr (strlist_contig_count cmdline) (\<lambda>_. Inr cmdline))"

definition buildCmdline ::
    "('h, 'p) nv_ops \<Rightarrow> allocator \<Rightarrow> nat \<Rightarrow> 'h docker \<Rightarrow> strlist \<Rightarrow> (strlist \<times> 'h docker) outcome" where
  "buildCmdline N mem fuel d cmdline =
     bindr (load_arrays N mem fuel (cbEachCmdEntry mem) [''docker:entrypoint'', ''docker:cmd''] cmdline d)
       (\<lambda>(cmdline, d).
     bindr (strlist_contig_count cmdline) (\<lambda>n.
     if n < 1 then fatal ERR_NO_COMMAND else Inr (cmdline, d)))"

section \<open>User, group and working directory\<close>

text \<open>The databases of users and groups.\<close>

record name_service =
  getpwnam :: "char list \<Rightarrow> passwd option"
  getpwuid :: "32 word \<Rightarrow> passwd option"
  getgrnam :: "char list \<Rightarrow> group option"
  getgrgid :: "32 word \<Rightarrow> group option"

text \<open>
  The first call of \<^verbatim>\<open>strtok(user, ":")\<close>: the number of separators it skips, the token (empty for a
  null pointer) and the string \<^verbatim>\<open>user\<close> it leaves, cut off behind the token.
\<close>

definition strtok_colon :: "char list \<Rightarrow> nat \<times> char list \<times> char list" where
  "strtok_colon user =
     (let lead = takeWhile (\<lambda>c. c = CHR '':'') user;
          token = takeWhile (\<lambda>c. c \<noteq> CHR '':'') (drop (length lead) user)
      in (length lead, token, if token = [] then user else lead @ token))"

text \<open>A name, or a number that takes the whole string; \<^verbatim>\<open>(gid_t)lli\<close> keeps 32 bits.\<close>

definition by_number :: "dockerinit_err \<Rightarrow> (32 word \<Rightarrow> 'a option) \<Rightarrow> char list \<Rightarrow> 'a option outcome" where
  "by_number err_nan look s =
     (case strtol 10 s of
        (lli, endptr, _) \<Rightarrow> if endptr = [] then Inr (look (word_of_int lli)) else fatal err_nan)"

text \<open>
  \<open>skipped\<close>: freeing \<^verbatim>\<open>user\<close> after it was moved to a token that does not start the string is undefined;
  the string literal that stands for a missing value is not freed.
\<close>

definition getUserGroupData :: "allocator \<Rightarrow> name_service \<Rightarrow> 'h docker \<Rightarrow> 'h docker outcome" where
  "getUserGroupData mem ns d =
     bindr (mdataGet mem d ''docker:user'') (\<lambda>(md, d).
     let user = (case md of None \<Rightarrow> ''0'' | Some u \<Rightarrow> u) in
     case strdup mem user of
       None \<Rightarrow> fatal ERR_STRDUP
     | Some user_orig \<Rightarrow>
         let (skipped, token, user) = strtok_colon user;
             is_split = (token \<noteq> [] \<and> (user_orig @ [NUL]) ! length token = CHR '':'');
             user = (if is_split then token else user) in
         bindr (if is_split
                then let gname = drop (length token + 1) user_orig in
                     (case getgrnam ns gname of
                        Some g \<Rightarrow> Inr (Some g)
                      | None \<Rightarrow> by_number ERR_GID_NAN (getgrgid ns) gname)
                else Inr (dk_grp d)) (\<lambda>grp.
         bindr (case getpwnam ns user of
                  Some p \<Rightarrow> Inr (Some p)
                | None \<Rightarrow> by_number ERR_UID_NAN (getpwuid ns) user) (\<lambda>pwd.
         let grp = (case (grp, pwd) of (None, Some p) \<Rightarrow> getgrgid ns (pw_gid p) | _ \<Rightarrow> grp) in
         if md \<noteq> None \<and> is_split \<and> 0 < skipped then Inl Fault_UB
         else Inr (d\<lparr>dk_grp := grp, dk_pwd := pwd\<rparr>))))"

text \<open>\<open>mkdirp_ok\<close> and \<open>chdir_ok\<close> say of which directories \<^verbatim>\<open>mkdirp\<close> (or finding it there) and
  \<^verbatim>\<open>chdir\<close> succeed.\<close>

definition setupWorkdir ::
    "allocator \<Rightarrow> (char list \<Rightarrow> bool) \<Rightarrow> (char list \<Rightarrow> bool) \<Rightarrow> 'h docker \<Rightarrow> (custr \<times> 'h docker) outcome" where
  "setupWorkdir mem mkdirp_ok chdir_ok d =
     (case custr_alloc mem of
        (Ret_ok, Some cu) \<Rightarrow>
          bindr (or_fatal ERR_UNEXPECTED (strpath_append mem cu ''/'')) (\<lambda>cu.
          bindr (mdataGet mem d ''docker:workdir'') (\<lambda>(mdval, d).
          bindr (case mdval of
                   None \<Rightarrow> Inr cu
                 | Some t \<Rightarrow>
                     (case (dk_pwd d, t) of
                        (Some p, c # t') \<Rightarrow>
                          if c = CHR 0x7E
                          then bindr (or_fatal ERR_UNEXPECTED (strpath_append mem cu (pw_dir p))) (\<lambda>cu.
                               or_fatal ERR_UNEXPECTED (strpath_append mem cu t'))
                          else or_fatal ERR_UNEXPECTED (strpath_append mem cu t)
                      | _ \<Rightarrow> or_fatal ERR_UNEXPECTED (strpath_append mem cu t))) (\<lambda>cu.
          bindr (custr_cstr cu) (\<lambda>dir.
          if \<not> mkdirp_ok dir then fatal ERR_MKDIR
          else if \<not> chdir_ok dir then fatal ERR_CHDIR
          else Inr (cu, d)))))
      | _ \<Rightarrow> fatal ERR_NO_MEMORY)"

section \<open>Metadata and the memory of lists are independent\<close>

lemma mdata_connect_nv:
  "mdata_connect mem (d\<lparr>dk_nv := h\<rparr>) = bindr (mdata_connect mem d) (\<lambda>(m, d'). Inr (m, d'\<lparr>dk_nv := h\<rparr>))"
  by (cases "dk_mdp d")
    (auto simp: mdata_connect_def bindr_assoc intro!: bindr_cong split: prod.split)

lemma mdataGet_nv:
  "mdataGet mem (d\<lparr>dk_nv := h\<rparr>) k = bindr (mdataGet mem d k) (\<lambda>(s, d'). Inr (s, d'\<lparr>dk_nv := h\<rparr>))"
  unfolding mdataGet_def mdata_connect_nv
  by (auto simp: bindr_assoc Let_def intro!: bindr_cong split: prod.split option.split mdata_response.split)

text \<open>Only the protocol handle changes.\<close>

lemma mdata_connect_frame: "mdata_connect mem d = Inr (m, d') \<Longrightarrow> \<exists>m'. d' = d\<lparr>dk_mdp := m'\<rparr>"
  by (auto simp: mdata_connect_def bindr_eq_Inr_iff split: option.splits if_splits intro: exI [of _ "dk_mdp d"])

lemma mdataGet_frame: "mdataGet mem d k = Inr (s, d') \<Longrightarrow> \<exists>m. d' = d\<lparr>dk_mdp := m\<rparr>"
proof -
  assume a: "mdataGet mem d k = Inr (s, d')"
  obtain m d1 where c: "mdata_connect mem d = Inr (m, d1)" using a by (auto simp: mdataGet_def bindr_eq_Inr_iff)
  obtain res m2 where e: "proto_execute mem m ''GET'' (Some k) = Inr (res, m2)"
    using a c by (auto simp: mdataGet_def bindr_eq_Inr_iff)
  obtain mdr x where res: "res = Some (mdr, x)" using a c e by (cases res) (auto simp: mdataGet_def Let_def)
  have "d' = d1\<lparr>dk_mdp := Some m2\<rparr>"
    using a c e res by (cases mdr) (auto simp: mdataGet_def Let_def bindr_eq_Inr_iff split: option.splits)
  then show ?thesis using mdata_connect_frame [OF c] by auto
qed

section \<open>Arrays as the JSON parser leaves them\<close>

lemma fmt_index: "fmt_d (int i) = fmt_u i"
  by (simp add: fmt_d_def fmt_u_def)

lemma fmt_u_inject: "fmt_u i = fmt_u j \<Longrightarrow> i = j"
proof -
  have "eval_base 10 (show_base 10 n) = n" for n by (rule eval_show_base) simp_all
  then show "fmt_u i = fmt_u j \<Longrightarrow> ?thesis" unfolding fmt_u_def by metis
qed

lemma fmt_u_plain: "fmt_u i \<noteq> ''length''" "fmt_u i \<noteq> JSON_MARKER_ARRAY"
proof -
  have "\<not> is_base_digit 10 (CHR ''l'')" "\<not> is_base_digit 10 (CHR ''.'')" by code_simp+
  then show "fmt_u i \<noteq> ''length''" "fmt_u i \<noteq> JSON_MARKER_ARRAY"
    using fmt_u_digits [of i] by (auto simp: JSON_MARKER_ARRAY_def)
qed

lemma map_of_put_elems_below:
  "j < i \<Longrightarrow> map_of (put_elems i vs ps) (fmt_u j) = map_of ps (fmt_u j)"
proof (induction vs arbitrary: i ps)
  case Nil
  then show ?case by (simp add: map_of_nv_put fmt_u_plain)
next
  case (Cons v vs)
  then show ?case using fmt_u_inject [of j i] by (auto simp: map_of_nv_put fmt_index)
qed

lemma map_of_put_elems:
  "map_of (put_elems i vs ps) ''length'' = Some (NV_uint32 (word_of_int (int (i + length vs))))"
  "j < length vs \<Longrightarrow> map_of (put_elems i vs ps) (fmt_u (i + j)) = Some (nv_of (vs ! j))"
proof (induction vs arbitrary: i j ps)
  case (Cons v vs)
  case 1
  show ?case using Cons.IH(1) [of "Suc i"] by simp
  case 2
  show ?case
  proof (cases j)
    case 0
    then show ?thesis using map_of_put_elems_below [of i "Suc i"] by (simp add: map_of_nv_put fmt_index)
  next
    case (Suc k)
    then show ?thesis using Cons.IH(2) [of k "Suc i"] 2 by simp
  qed
qed (simp_all add: map_of_nv_put)

lemma jvalue_string: "jvalue v t \<Longrightarrow> v = J_str s \<Longrightarrow> nul_free s"
  by (erule jvalue.cases) (auto dest: jstring_nul_free)

lemma jelems_strings: "jelems vs t \<Longrightarrow> J_str s \<in> set vs \<Longrightarrow> nul_free s"
proof (induction vs arbitrary: t)
  case (Cons v vs)
  from Cons.prems(1) show ?case
    by (cases rule: jelems.cases) (use Cons.IH Cons.prems(2) jvalue_string in auto)
qed simp

text \<open>The text of an array, and of one of strings, with white space before it and anything behind it.\<close>

definition json_array :: "char list \<Rightarrow> json list \<Rightarrow> bool" where
  "json_array t vs \<longleftrightarrow> (\<exists>w v rest. blank w \<and> jvalue (J_arr vs) v \<and> t = w @ v @ rest)"

definition array_text :: "char list \<Rightarrow> char list list \<Rightarrow> bool" where
  "array_text t xs \<longleftrightarrow> json_array t (map J_str xs)"

text \<open>What a key stands for: a missing one is the empty array.\<close>

definition md_array :: "char list option \<Rightarrow> char list list \<Rightarrow> bool" where
  "md_array md xs \<longleftrightarrow> (case md of None \<Rightarrow> xs = [] | Some t \<Rightarrow> array_text t xs)"

abbreviation md_size :: "char list option \<Rightarrow> nat" where
  "md_size md \<equiv> length (case md of None \<Rightarrow> ''[]'' | Some t \<Rightarrow> t)"

lemma md_array_text: "md_array md xs \<Longrightarrow> array_text (case md of None \<Rightarrow> ''[]'' | Some t \<Rightarrow> t) xs"
proof -
  have "jvalue (J_arr []) (CHR ''['' # [] @ '']'')" by (rule val_arr0) (simp add: blank_def)
  then have "array_text ''[]'' []"
    unfolding array_text_def json_array_def by (intro exI [of _ "[]"] exI [of _ "''[]''"]) (simp add: blank_def)
  then show "md_array md xs \<Longrightarrow> ?thesis" by (auto simp: md_array_def split: option.split)
qed

lemma json_array_length: "json_array t vs \<Longrightarrow> length vs < 2 ^ 31"
  unfolding json_array_def by (auto elim!: jvalue.cases)

lemma array_text_strings: "array_text t xs \<Longrightarrow> (\<forall>x \<in> set xs. nul_free x) \<and> length xs < 2 ^ 31"
  unfolding array_text_def json_array_def
  by (auto elim!: jvalue.cases intro: jelems_strings)

text \<open>The array \<open>xs\<close>, as the lookups see it.\<close>

definition array_at :: "('h, 'p) nv_ops \<Rightarrow> 'h \<Rightarrow> 'p option \<Rightarrow> char list list \<Rightarrow> bool" where
  "array_at N h nvl xs \<longleftrightarrow> nvl_uint32 N h nvl ''length'' = Some (of_nat (length xs)) \<and>
     (\<forall>j < length xs. nvl_string N h nvl (fmt_u j) = Some (xs ! j)) \<and>
     (\<forall>x \<in> set xs. nul_free x) \<and> length xs < 2 ^ 31"

context json_heap
begin

lemma parsed_json_array:
  assumes "json_array t vs" "3 * length t + 5 \<le> fuel"
  shows "\<exists>res p. nvlist_parse_json N mem fuel h (t @ [NUL]) (length t) NVJSON_FORCE_INTEGER None = Inr res \<and>
    jr_errno res = None \<and> jr_nvl res = Some p \<and> tree (jr_nv res) p = put_elems 0 vs [] \<and> at (jr_nv res) p [] p \<and>
    nvl_uint32 N (jr_nv res) (Some p) ''length'' = Some (of_nat (length vs))"
proof -
  obtain w v rest where t: "blank w" "jvalue (J_arr vs) v" "t = w @ v @ rest"
    using assms(1) by (auto simp: json_array_def)
  have fl: "and NVJSON_FORCE_INTEGER NVJSON_FORCE_INTEGER = 0 \<or> and NVJSON_FORCE_INTEGER NVJSON_FORCE_DOUBLE = 0"
    "and NVJSON_FORCE_INTEGER (not NVJSON_ALL) = 0"
    by (simp_all add: NVJSON_FORCE_INTEGER_def NVJSON_FORCE_DOUBLE_def NVJSON_ALL_def)
  from nvlist_parse_json_text [OF nvpair_library_axioms good t(2) _ t(1) _ _ fl, of None rest fuel h] assms(2) t(3)
  obtain res p where res: "nvlist_parse_json N mem fuel h (t @ [NUL]) (length t) NVJSON_FORCE_INTEGER None = Inr res"
    "jr_errno res = None" "jr_nvl res = Some p" "tree (jr_nv res) p = put_elems 0 vs []" "at (jr_nv res) p [] p"
    by auto
  have sub: "sub_at [] (tree (jr_nv res) p) = Some (put_elems 0 vs [])" using res(4) by simp
  have "nvl_uint32 N (jr_nv res) (Some p) ''length'' = Some (of_nat (length vs))"
    using lookup_uint32 [OF res(5) sub map_of_put_elems(1)] by (simp add: nvl_uint32_def)
  then show ?thesis using res by blast
qed

lemma parsed_array:
  assumes "array_text t xs" "3 * length t + 5 \<le> fuel"
  shows "\<exists>res. nvlist_parse_json N mem fuel h (t @ [NUL]) (length t) NVJSON_FORCE_INTEGER None = Inr res \<and>
    jr_errno res = None \<and> array_at N (jr_nv res) (jr_nvl res) xs"
proof -
  obtain res p where res: "nvlist_parse_json N mem fuel h (t @ [NUL]) (length t) NVJSON_FORCE_INTEGER None = Inr res"
    "jr_errno res = None" "jr_nvl res = Some p" "tree (jr_nv res) p = put_elems 0 (map J_str xs) []" "at (jr_nv res) p [] p"
    "nvl_uint32 N (jr_nv res) (Some p) ''length'' = Some (of_nat (length (map J_str xs)))"
    using parsed_json_array [OF assms(1) [unfolded array_text_def] assms(2)] by blast
  have sub: "sub_at [] (tree (jr_nv res) p) = Some (put_elems 0 (map J_str xs) [])" using res(4) by simp
  have "nvl_string N (jr_nv res) (jr_nvl res) (fmt_u j) = Some (xs ! j)" if "j < length xs" for j
    using lookup_string [OF res(5) sub, of "fmt_u j" "xs ! j"] map_of_put_elems(2) [of j "map J_str xs" 0 "[]"] that res(3)
    by (simp add: nvl_string_def)
  then show ?thesis using res array_text_strings [OF assms(1)] by (auto simp: array_at_def)
qed

lemma getMdataArray_reads:
  assumes "mdataGet mem d key = Inr (md, d')" "md_array md xs" "3 * md_size md + 5 \<le> fuel"
  shows "\<exists>nvl h'. getMdataArray N mem fuel d key want_len =
      Inr (nvl, if want_len then Some (of_nat (length xs)) else None, d'\<lparr>dk_nv := h'\<rparr>) \<and> array_at N h' nvl xs"
proof -
  obtain res where "nvlist_parse_json N mem fuel (dk_nv d') ((case md of None \<Rightarrow> ''[]'' | Some t \<Rightarrow> t) @ [NUL])
      (md_size md) NVJSON_FORCE_INTEGER None = Inr res" "jr_errno res = None" "array_at N (jr_nv res) (jr_nvl res) xs"
    using parsed_array [OF md_array_text [OF assms(2)] assms(3)] by blast
  then show ?thesis using assms(1) by (auto simp: getMdataArray_def Let_def array_at_def)
qed

end

section \<open>Callbacks over arrays\<close>

text \<open>
  What the loop over an array needs of its callback: \<open>rep n a s\<close>, the argument \<open>a\<close> stands for \<open>s\<close> and has
  room for \<open>n\<close> more strings; the callback adds one.
\<close>

locale array_callback =
  fixes funcp :: "nat \<Rightarrow> char list \<Rightarrow> 'a \<Rightarrow> 'a outcome"
    and rep :: "nat \<Rightarrow> 'a \<Rightarrow> 's \<Rightarrow> bool"
    and add :: "char list \<Rightarrow> 's \<Rightarrow> 's"
  assumes adds_one: "rep (Suc n) a s \<Longrightarrow> nul_free x \<Longrightarrow> \<exists>a'. funcp i x a = Inr a' \<and> rep n a' (add x s)"
begin

lemma each_string_folds:
  "(\<And>j. j < length xs \<Longrightarrow> nvl_string N h nvl (fmt_u (i + j)) = Some (xs ! j)) \<Longrightarrow> \<forall>x \<in> set xs. nul_free x \<Longrightarrow>
   rep (length xs + k) a s \<Longrightarrow> \<exists>a'. each_string N h nvl funcp (length xs) i a = Inr a' \<and> rep k a' (fold add xs s)"
proof (induction xs arbitrary: i a s)
  case (Cons x xs)
  obtain a1 where a1: "funcp i x a = Inr a1" "rep (length xs + k) a1 (add x s)"
    using adds_one [of "length xs + k" a s x i] Cons.prems(2,3) by auto
  have "nvl_string N h nvl (fmt_u (Suc i + j)) = Some (xs ! j)" if "j < length xs" for j
    using Cons.prems(1) [of "Suc j"] that by simp
  from Cons.IH [OF this _ a1(2)] Cons.prems(2) obtain a' where
    "each_string N h nvl funcp (length xs) (Suc i) a1 = Inr a'" "rep k a' (fold add xs (add x s))" by auto
  then show ?case using Cons.prems(1) [of 0] a1(1) by simp
qed simp

lemma forEachStringInArray_folds:
  assumes "array_at N h nvl xs" "rep (length xs + k) a s"
  shows "\<exists>a'. forEachStringInArray N h nvl funcp a = Inr a' \<and> rep k a' (fold add xs s)"
proof -
  have "unat (of_nat (length xs) :: 32 word) = length xs" using assms(1) by (intro of_nat32) (simp add: array_at_def)
  then show ?thesis
    using each_string_folds [of xs N h nvl 0 k a s] assms by (simp add: forEachStringInArray_def array_at_def)
qed

end

definition env_rep :: "nat \<Rightarrow> strlist \<Rightarrow> char list list \<Rightarrow> bool" where
  "env_rep n sl es \<longleftrightarrow> strlist_holds sl es \<and> length es + n + 34 \<le> 2 ^ 32"

sublocale working_heap \<subseteq> env_cb: array_callback "cbEachEnvEntry mem" env_rep env_add
proof (unfold_locales, goal_cases)
  case (1 n sl es e i)
  then have "strlist_holds sl es" "length es + 34 < 2 ^ 32" by (simp_all add: env_rep_def)
  from cbEachEnvEntry_adds [OF good this 1(2), of i] length_env_add [of e es] 1(1) show ?case
    by (fastforce simp: env_rep_def)
qed

sublocale working_heap \<subseteq> cmd_cb: array_callback "cbEachCmdEntry mem" env_rep "\<lambda>x xs. xs @ [x]"
proof (unfold_locales, goal_cases)
  case (1 n sl es e i)
  then have "strlist_holds sl es" "length es + 34 < 2 ^ 32" by (simp_all add: env_rep_def)
  from strlist_set_tail_holds [OF good this, of e] 1 show ?case
    by (auto simp: env_rep_def cbEachCmdEntry_def strlist_contig_count_holds)
qed

context working_heap
begin

lemma env_callback: "array_callback (cbEachEnvEntry mem) env_rep env_add"
  by (rule env_cb.array_callback_axioms)

lemma cmd_callback: "array_callback (cbEachCmdEntry mem) env_rep (\<lambda>x xs. xs @ [x])"
  by (rule cmd_cb.array_callback_axioms)

end

text \<open>The metadata service answers the keys one after the other, each with the text of an array.\<close>

fun answers :: "allocator \<Rightarrow> 'h docker \<Rightarrow> (char list \<times> char list option \<times> char list list) list \<Rightarrow> 'h docker \<Rightarrow> bool" where
  "answers mem d [] d' \<longleftrightarrow> d' = d"
| "answers mem d ((k, md, xs) # as) d' \<longleftrightarrow>
     (\<exists>d1. mdataGet mem d k = Inr (md, d1) \<and> md_array md xs \<and> answers mem d1 as d')"

context json_heap
begin

lemma load_arrays_folds:
  assumes "array_callback funcp rep add"
  shows "answers mem d as d' \<Longrightarrow> \<forall>(k, md, xs) \<in> set as. 3 * md_size md + 5 \<le> fuel \<Longrightarrow>
    rep (length (concat (map (\<lambda>x. snd (snd x)) as)) + n) a s \<Longrightarrow>
    \<exists>a' h'. load_arrays N mem fuel funcp (map fst as) a (d\<lparr>dk_nv := h\<rparr>) = Inr (a', d'\<lparr>dk_nv := h'\<rparr>) \<and>
      rep n a' (fold add (concat (map (\<lambda>x. snd (snd x)) as)) s)"
proof (induction as arbitrary: d a s h)
  case (Cons x as)
  obtain k md xs where x: "x = (k, md, xs)" by (cases x)
  obtain d1 where d1: "mdataGet mem d k = Inr (md, d1)" "md_array md xs" "answers mem d1 as d'" using Cons.prems(1) x by auto
  have "mdataGet mem (d\<lparr>dk_nv := h\<rparr>) k = Inr (md, d1\<lparr>dk_nv := h\<rparr>)" using d1(1) by (simp add: mdataGet_nv)
  moreover have "3 * md_size md + 5 \<le> fuel" using Cons.prems(2) x by simp
  ultimately obtain nvl h1 where arr: "getMdataArray N mem fuel (d\<lparr>dk_nv := h\<rparr>) k False = Inr (nvl, None, d1\<lparr>dk_nv := h1\<rparr>)"
    "array_at N h1 nvl xs" using getMdataArray_reads [OF _ d1(2), of "d\<lparr>dk_nv := h\<rparr>" k _ fuel False] by auto
  obtain a1 where a1: "forEachStringInArray N h1 nvl funcp a = Inr a1"
    "rep (length (concat (map (\<lambda>x. snd (snd x)) as)) + n) a1 (fold add xs s)"
    using array_callback.forEachStringInArray_folds [OF assms arr(2), of "length (concat (map (\<lambda>x. snd (snd x)) as)) + n" a s]
      Cons.prems(3) x by (auto simp: add.assoc)
  obtain h2 where h2: "nvl_free N nvl (d1\<lparr>dk_nv := h1\<rparr>) = d1\<lparr>dk_nv := h2\<rparr>"
    by (cases nvl) (auto simp: nvl_free_def)
  from Cons.IH [OF d1(3) _ a1(2), of h2] Cons.prems(2) show ?case using arr(1) a1(1) h2 x by simp
qed auto

end

section \<open>Environments built from many entries\<close>

lemma env_add_ok: "env_distinct es \<Longrightarrow> env_distinct (env_add e es)"
  by (auto simp: env_add_def split: option.split dest: split_env_Some intro: env_distinct_put)

lemma env_map_add: "env_map (env_add e es) = (case split_env e of None \<Rightarrow> env_map es | Some (n, v) \<Rightarrow> (env_map es)(n \<mapsto> v))"
  using split_env_Some [of e] by (auto simp: env_add_def env_map_put split: option.split)

text \<open>Later entries win.\<close>

lemma env_map_fold: "env_map (fold env_add xs es) = env_map es ++ map_of (rev (List.map_filter split_env xs))"
  by (induction xs arbitrary: es) (auto simp: env_map_add List.map_filter_simps split: option.split)

lemma env_distinct_fold: "env_distinct es \<Longrightarrow> env_distinct (fold env_add xs es)"
  by (induction xs arbitrary: es) (auto intro: env_add_ok)

lemma map_filter_all_Some: "map f xs = map Some ys \<Longrightarrow> List.map_filter f xs = ys"
proof (induction xs arbitrary: ys)
  case (Cons x xs)
  then show ?case by (cases ys) (auto simp: List.map_filter_simps)
qed (simp add: List.map_filter_simps)

definition default_env :: "'h docker \<Rightarrow> (char list \<times> char list) list" where
  "default_env d =
     [(''TERM'', DEFAULT_TERM), (''HOME'', case dk_pwd d of None \<Rightarrow> ''/'' | Some p \<Rightarrow> pw_dir p), (''PATH'', DEFAULT_PATH)] @
     (case dk_hostname d of None \<Rightarrow> [] | Some h \<Rightarrow> [(''HOSTNAME'', h)])"

lemma insertOrReplaceEnv_rep:
  assumes "good_alloc mem" "env_rep (Suc n) sl es" "nul_free k" "nul_free v"
  shows "\<exists>sl'. insertOrReplaceEnv mem sl k v = Inr sl' \<and> env_rep n sl' (env_put k v es)"
  using insertOrReplaceEnv_puts [OF assms(1) _ _ assms(3,4), of sl es] assms(2) length_env_put [of k v es]
  by (fastforce simp: env_rep_def)

lemma default_env_built:
  assumes "good_alloc mem" "strlist_holds env []" "\<forall>(k, v) \<in> set (default_env d). nul_free v" "n + 38 \<le> 2 ^ 32"
  shows "\<exists>env'. bindr (insertOrReplaceEnv mem env ''TERM'' DEFAULT_TERM) (\<lambda>env.
      bindr (insertOrReplaceEnv mem env ''HOME'' (case dk_pwd d of None \<Rightarrow> ''/'' | Some p \<Rightarrow> pw_dir p)) (\<lambda>env.
      bindr (insertOrReplaceEnv mem env ''PATH'' DEFAULT_PATH) (\<lambda>env.
      bindr (case dk_hostname d of None \<Rightarrow> Inr env | Some h \<Rightarrow> insertOrReplaceEnv mem env ''HOSTNAME'' h) f))) = f env' \<and>
    env_rep n env' (map (\<lambda>(k, v). k @ EQUALS # v) (default_env d))"
proof -
  let ?home = "case dk_pwd d of None \<Rightarrow> ''/'' | Some p \<Rightarrow> pw_dir p"
  have e0: "env_rep (Suc (Suc (Suc (Suc n)))) env []" using assms(2,4) by (simp add: env_rep_def)
  have nf: "nul_free DEFAULT_TERM" "nul_free ?home" "nul_free DEFAULT_PATH" "dk_hostname d = Some h \<Longrightarrow> nul_free h" for h
    using assms(3) by (auto simp: default_env_def)
  obtain e1 where e1: "insertOrReplaceEnv mem env ''TERM'' DEFAULT_TERM = Inr e1"
    "env_rep (Suc (Suc (Suc n))) e1 (env_put ''TERM'' DEFAULT_TERM [])"
    using insertOrReplaceEnv_rep [OF assms(1) e0 _ nf(1), of "''TERM''"] by auto
  obtain e2 where e2: "insertOrReplaceEnv mem e1 ''HOME'' ?home = Inr e2"
    "env_rep (Suc (Suc n)) e2 (env_put ''HOME'' ?home (env_put ''TERM'' DEFAULT_TERM []))"
    using insertOrReplaceEnv_rep [OF assms(1) e1(2) _ nf(2), of "''HOME''"] by auto
  obtain e3 where e3: "insertOrReplaceEnv mem e2 ''PATH'' DEFAULT_PATH = Inr e3"
    "env_rep (Suc n) e3 (env_put ''PATH'' DEFAULT_PATH (env_put ''HOME'' ?home (env_put ''TERM'' DEFAULT_TERM [])))"
    using insertOrReplaceEnv_rep [OF assms(1) e2(2) _ nf(3), of "''PATH''"] by auto
  show ?thesis
  proof (cases "dk_hostname d")
    case None
    then show ?thesis
      using e1(1) e2(1) e3 by (auto simp: default_env_def env_rep_def split_env_def)
  next
    case (Some h)
    obtain e4 where "insertOrReplaceEnv mem e3 ''HOSTNAME'' h = Inr e4"
      "env_rep n e4 (env_put ''HOSTNAME'' h (env_put ''PATH'' DEFAULT_PATH (env_put ''HOME'' ?home (env_put ''TERM'' DEFAULT_TERM []))))"
      using insertOrReplaceEnv_rep [OF assms(1) e3(2) _ nf(4) [OF Some], of "''HOSTNAME''"] by auto
    then show ?thesis
      using e1(1) e2(1) e3(1) Some by (auto simp: default_env_def split_env_def)
  qed
qed

text \<open>The default entries, as the array has them.\<close>

abbreviation default_entries :: "'h docker \<Rightarrow> char list list" where
  "default_entries d \<equiv> map (\<lambda>(k, v). k @ EQUALS # v) (default_env d)"

lemma buildCmdEnv_builds:
  fixes d :: "'h docker"
  assumes "nvpair_library N at tree" "good_alloc mem" "strlist_holds env []"
    and "answers mem d [(''docker:linkEnv'', md1, link), (''docker:env'', md2, own)] d'"
    and "3 * md_size md1 + 5 \<le> fuel" "3 * md_size md2 + 5 \<le> fuel"
    and "\<forall>(k, v) \<in> set (default_env d). nul_free v" "length link + length own + 38 \<le> 2 ^ 32"
  shows "\<exists>env' h'. buildCmdEnv N mem fuel d env = Inr (env', d'\<lparr>dk_nv := h'\<rparr>) \<and>
    strlist_holds env' (fold env_add (link @ own) (default_entries d))"
proof -
  have heap: "json_heap N at tree mem" using assms(1,2) by (simp add: json_heap_def working_heap_def)
  have cb: "array_callback (cbEachEnvEntry mem) env_rep env_add"
    using working_heap.env_callback assms(2) by (simp add: working_heap_def)
  let ?es = "map (\<lambda>(k, v). k @ EQUALS # v) (default_env d)"
  let ?as = "[(''docker:linkEnv'', md1, link), (''docker:env'', md2, own)]"
  obtain env1 where env1: "buildCmdEnv N mem fuel d env =
      load_arrays N mem fuel (cbEachEnvEntry mem) [''docker:linkEnv'', ''docker:env''] env1 d"
    "env_rep (length link + length own) env1 ?es"
    using default_env_built [OF assms(2,3,7), of "length link + length own"
        "\<lambda>env. load_arrays N mem fuel (cbEachEnvEntry mem) [''docker:linkEnv'', ''docker:env''] env d"] assms(8)
    unfolding buildCmdEnv_def by auto
  from json_heap.load_arrays_folds [OF heap cb assms(4), of fuel 0 env1 ?es "dk_nv d"] env1(2) assms(5,6)
  obtain env' h' where env': "buildCmdEnv N mem fuel d env = Inr (env', d'\<lparr>dk_nv := h'\<rparr>)"
    "env_rep 0 env' (fold env_add (link @ own) ?es)" using env1(1) by auto
  then show ?thesis by (auto simp: env_rep_def)
qed

lemma buildCmdline_builds:
  fixes d :: "'h docker"
  assumes "nvpair_library N at tree" "good_alloc mem" "strlist_holds cmdline []"
    and "answers mem d [(''docker:entrypoint'', md1, entrypoint), (''docker:cmd'', md2, cmd)] d'"
    and "3 * md_size md1 + 5 \<le> fuel" "3 * md_size md2 + 5 \<le> fuel" "length entrypoint + length cmd + 34 \<le> 2 ^ 32"
  shows "\<exists>cl h'. buildCmdline N mem fuel d cmdline =
      (if entrypoint @ cmd = [] then fatal ERR_NO_COMMAND else Inr (cl, d'\<lparr>dk_nv := h'\<rparr>)) \<and> strlist_holds cl (entrypoint @ cmd)"
proof -
  have heap: "json_heap N at tree mem" using assms(1,2) by (simp add: json_heap_def working_heap_def)
  have cb: "array_callback (cbEachCmdEntry mem) env_rep (\<lambda>x xs. xs @ [x])"
    using working_heap.cmd_callback assms(2) by (simp add: working_heap_def)
  have "env_rep (length entrypoint + length cmd) cmdline []" using assms(3,7) by (simp add: env_rep_def)
  from json_heap.load_arrays_folds [OF heap cb assms(4), of fuel 0 cmdline "[]" "dk_nv d"] this assms(5,6)
  obtain cl h' where cl: "load_arrays N mem fuel (cbEachCmdEntry mem) [''docker:entrypoint'', ''docker:cmd''] cmdline d =
      Inr (cl, d'\<lparr>dk_nv := h'\<rparr>)" "env_rep 0 cl (fold (\<lambda>x xs. xs @ [x]) (entrypoint @ cmd) [])" by auto
  have "fold (\<lambda>x xs. xs @ [x]) xs ys = ys @ xs" for xs ys :: "char list list" by (induction xs arbitrary: ys) auto
  then have holds: "strlist_holds cl (entrypoint @ cmd)" using cl(2) by (simp add: env_rep_def)
  let ?n = "length (entrypoint @ cmd)"
  have "(of_nat ?n < (1 :: 32 word)) = (?n < 1)"
    using assms(7) of_nat32 [of ?n] by (simp add: word_less_nat_alt)
  then show ?thesis
    using cl(1) strlist_contig_count_holds [OF holds] holds
    by (intro exI [of _ cl] exI [of _ h']) (auto simp: buildCmdline_def)
qed

section \<open>The user\<close>

text \<open>A field that names an entry of a database, or is its number.\<close>

definition looked_up :: "(char list \<Rightarrow> 'a option) \<Rightarrow> (32 word \<Rightarrow> 'a option) \<Rightarrow> dockerinit_err \<Rightarrow> char list \<Rightarrow> 'a option outcome" where
  "looked_up by_name by_id err_nan s =
     (case by_name s of Some x \<Rightarrow> Inr (Some x) | None \<Rightarrow> by_number err_nan by_id s)"

lemma looked_up_number:
  "ds \<noteq> [] \<Longrightarrow> \<forall>c \<in> set ds. isdigit c \<Longrightarrow> eval_base 10 ds < 2 ^ 32 \<Longrightarrow> by_name ds = None \<Longrightarrow>
   looked_up by_name by_id e ds = Inr (by_id (of_nat (eval_base 10 ds)))"
proof -
  assume a: "ds \<noteq> []" "\<forall>c \<in> set ds. isdigit c" "eval_base 10 ds < 2 ^ 32" "by_name ds = None"
  have "scan_number 10 (ds @ []) = Some (False, eval_base 10 ds, [])"
    by (rule scan_number_digits) (use a(1,2) in \<open>auto simp: isdigit_base\<close>)
  then show ?thesis
    using a(3,4) by (simp add: looked_up_def by_number_def strtol_def LONG_MAX_def LONG_MIN_def Let_def)
qed

lemma looked_up_empty: "by_name [] = None \<Longrightarrow> looked_up by_name by_id e [] = Inr (by_id 0)"
  by (simp add: looked_up_def by_number_def strtol_def scan_number_def skip_sign_def skip_0x_def Let_def)

lemma strtok_colon_split:
  "user \<noteq> [] \<Longrightarrow> CHR '':'' \<notin> set user \<Longrightarrow> strtok_colon (user @ CHR '':'' # g) = (0, user, user)"
  "CHR '':'' \<notin> set user \<Longrightarrow> strtok_colon user = (0, user, user)"
proof -
  assume a: "CHR '':'' \<notin> set user"
  then have w: "takeWhile (\<lambda>c. c \<noteq> CHR '':'') user = user" by (auto simp: takeWhile_eq_all_conv)
  have z: "takeWhile (\<lambda>c. c = CHR '':'') (user @ r) = []" if "user \<noteq> [] \<or> r = []" for r
    using a that by (cases user) auto
  show "strtok_colon user = (0, user, user)" using z [of "[]"] w by (simp add: strtok_colon_def Let_def)
  show "user \<noteq> [] \<Longrightarrow> strtok_colon (user @ CHR '':'' # g) = (0, user, user)"
    using z [of "CHR '':'' # g"] w by (simp add: strtok_colon_def Let_def takeWhile_append a)
qed

lemma getUserGroupData_runs:
  assumes "good_alloc mem" "dk_grp d = None" "user \<noteq> []" "CHR '':'' \<notin> set user"
    and "mdataGet mem d ''docker:user'' = Inr (md, d')"
    and "md = None \<and> user = ''0'' \<and> grp = None \<or> md = Some user \<and> grp = None \<or>
      (\<exists>g. md = Some (user @ CHR '':'' # g) \<and> grp = Some g)"
  shows "getUserGroupData mem ns d =
      bindr (case grp of None \<Rightarrow> Inr None | Some g \<Rightarrow> looked_up (getgrnam ns) (getgrgid ns) ERR_GID_NAN g) (\<lambda>gr.
      bindr (looked_up (getpwnam ns) (getpwuid ns) ERR_UID_NAN user) (\<lambda>pw.
      Inr (d'\<lparr>dk_pwd := pw,
              dk_grp := (case (gr, pw) of (None, Some p) \<Rightarrow> getgrgid ns (pw_gid p) | _ \<Rightarrow> gr)\<rparr>)))"
proof -
  obtain m where d': "d' = d\<lparr>dk_mdp := m\<rparr>" using mdataGet_frame [OF assms(5)] by blast
  then have "dk_grp d' = None" using assms(2) by simp
  then show ?thesis
    using assms strtok_colon_split(1) [OF assms(3,4)] strtok_colon_split(2) [OF assms(4)]
      strdup_good [OF assms(1)]
    by (auto simp: getUserGroupData_def looked_up_def nth_append Let_def intro!: bindr_cong split: option.split)
qed

section \<open>Sample answers\<close>

text \<open>An idle handle of version 1, with what the host will say; and one request on it.\<close>

definition handle_ready :: "mdata_proto \<Rightarrow> int list \<Rightarrow> port_event list \<Rightarrow> bool" where
  "handle_ready mdp ws es \<longleftrightarrow> (\<exists>mpl. mdp_command mdp = None \<and> mdp_plat mdp = Some mpl \<and>
     mdp_state mdp = MDPS_READY \<and> mdp_version mdp = MDPV_VERSION_1 \<and> mpl_writes mpl = ws \<and> mpl_events mpl = es)"

definition mdata_step :: "allocator \<Rightarrow> mdata_proto \<Rightarrow> char list \<Rightarrow> char list option \<Rightarrow> mdata_proto \<Rightarrow> bool" where
  "mdata_step mem m k v m' \<longleftrightarrow> (\<exists>mdr x. proto_execute mem m ''GET'' (Some k) = Inr (Some (mdr, x), m') \<and>
     (case v of None \<Rightarrow> mdr = MDR_NOTFOUND | Some l \<Rightarrow> mdr = MDR_SUCCESS \<and> dynstr_cstr x = Inr l))"

lemma mdataGet_step:
  "mdata_step mem m k v m' \<Longrightarrow> good_alloc mem \<Longrightarrow> dk_mdp d = Some m \<Longrightarrow> mdataGet mem d k = Inr (v, d\<lparr>dk_mdp := Some m'\<rparr>)"
  using strdup_good [of mem] by (cases v) (auto simp: mdata_step_def mdataGet_def mdata_connect_def)

text \<open>The host answers \<^verbatim>\<open>NOTFOUND\<close>, or with a value of one line.\<close>

definition one_line :: "char list \<Rightarrow> port_event list" where
  "one_line t = line_events ''SUCCESS'' @ line_events t @ line_events ''.''"

definition says :: "char list option \<Rightarrow> port_event list" where
  "says v = (case v of None \<Rightarrow> line_events ''NOTFOUND'' | Some l \<Rightarrow> one_line l)"

definition sayable :: "char list option \<Rightarrow> bool" where
  "sayable v \<longleftrightarrow> (case v of None \<Rightarrow> True | Some l \<Rightarrow> v1_line_ok l \<and> length l < 64 \<and> l \<noteq> [] \<and> hd l \<noteq> CHR ''.'')"

lemma v1_line_step:
  assumes "good_alloc mem" "handle_ready mdp (int (length key + 5) # ws) (one_line l @ es)" "arg_ok (Some key)" "sayable (Some l)"
  shows "\<exists>m. mdata_step mem mdp key (Some l) m \<and> handle_ready m ws es"
proof -
  obtain mpl where d: "mdp_command mdp = None" "mdp_plat mdp = Some mpl" "mdp_state mdp = MDPS_READY"
    "mdp_version mdp = MDPV_VERSION_1" "mpl_writes mpl = int (length key + 5) # ws"
    "mpl_events mpl = line_events ''SUCCESS'' @ line_events l @ line_events ''.'' @ es"
    using assms(2) by (auto simp: handle_ready_def one_line_def)
  have l: "v1_line_ok l" "length l < 64" "l \<noteq> []" "hd l \<noteq> CHR ''.''" using assms(4) by (simp_all add: sayable_def)
  let ?req = "v1_line ''GET'' (Some key) @ [NL]"
  have req: "mpl_writes mpl = int (length ?req) # ws" using d(5) by (simp add: v1_line_def)
  have ev: "mpl_events mpl = line_events ''SUCCESS'' @ concat (map (\<lambda>l. line_events (v1_stuff l)) [l]) @ line_events ''.'' @ es"
    using d(6) l(4) by (simp add: v1_stuff_def)
  have fits: "\<forall>x \<in> set [l]. v1_line_ok x" "[l] = [] \<or> first_fits (hd [l])"
    using l double_until_fixed_iff [of 64 "length l"] by auto
  have get: "nul_free ''GET''" "length ''GET'' < 64" by simp_all
  obtain x m where run: "proto_execute mem mdp ''GET'' (Some key) = Inr (Some (MDR_SUCCESS, x), m)" "dynstr_rep x l"
    "mdp_command m = None" "mdp_state m = MDPS_READY" "mdp_version m = MDPV_VERSION_1"
    "mdp_plat m = Some (mpl\<lparr>mpl_writes := ws, mpl_sent := mpl_sent mpl @ ?req, mpl_events := es\<rparr>)"
    using returnsD [OF proto_execute_v1_delivers [OF assms(1) d(1-4) get assms(3) refl req ev fits]] by auto
  have "dynstr_owns x" using run(2) l(3) by (cases "str_data x") (auto simp: dynstr_rep_def)
  then have "dynstr_cstr x = Inr l" using dynstr_cstr_rep [OF run(2)] l(1) by (simp add: v1_line_ok_def)
  then show ?thesis using run by (intro exI [of _ m]) (simp add: mdata_step_def handle_ready_def)
qed

lemma v1_notfound_step:
  assumes "good_alloc mem" "handle_ready mdp (int (length key + 5) # ws) (line_events ''NOTFOUND'' @ es)" "arg_ok (Some key)"
  shows "\<exists>m. mdata_step mem mdp key None m \<and> handle_ready m ws es"
proof -
  obtain mpl where d: "mdp_command mdp = None" "mdp_plat mdp = Some mpl" "mdp_state mdp = MDPS_READY"
    "mdp_version mdp = MDPV_VERSION_1" "mpl_writes mpl = int (length key + 5) # ws"
    "mpl_events mpl = line_events ''NOTFOUND'' @ es" using assms(2) by (auto simp: handle_ready_def)
  have req: "mpl_writes mpl = int (length (v1_line ''GET'' (Some key) @ [NL])) # ws" using d(5) by (simp add: v1_line_def)
  have get: "nul_free ''GET''" "length ''GET'' < 64" by simp_all
  from proto_pass_v1_header [OF assms(1) d(1-4) get assms(3) refl req d(6)] show ?thesis
    using d(4) by (auto dest!: proto_pass_execute simp: mdata_step_def handle_ready_def v1_code_def)
qed

text \<open>A conversation: keys and answers.\<close>

fun talks :: "allocator \<Rightarrow> mdata_proto \<Rightarrow> (char list \<times> char list option) list \<Rightarrow> bool" where
  "talks mem m [] \<longleftrightarrow> True"
| "talks mem m ((k, v) # kvs) \<longleftrightarrow> (\<exists>m1. mdata_step mem m k v m1 \<and> talks mem m1 kvs)"

lemma v1_talks:
  "good_alloc mem \<Longrightarrow> handle_ready m (map (\<lambda>(k, v). int (length k + 5)) kvs) (concat (map (\<lambda>(k, v). says v) kvs)) \<Longrightarrow>
   \<forall>(k, v) \<in> set kvs. arg_ok (Some k) \<and> sayable v \<Longrightarrow> talks mem m kvs"
proof (induction kvs arbitrary: m)
  case (Cons kv kvs)
  obtain k v where kv: "kv = (k, v)" by (cases kv)
  have "\<exists>m1. mdata_step mem m k v m1 \<and> handle_ready m1 (map (\<lambda>(k, v). int (length k + 5)) kvs) (concat (map (\<lambda>(k, v). says v) kvs))"
    using v1_line_step [OF Cons.prems(1), of m k] v1_notfound_step [OF Cons.prems(1), of m k] Cons.prems(2,3) kv
    by (cases v) (auto simp: says_def)
  then show ?case using Cons kv by auto
qed simp

definition v1_ready :: "'h docker \<Rightarrow> int list \<Rightarrow> port_event list \<Rightarrow> bool" where
  "v1_ready d ws es \<longleftrightarrow> (\<exists>mdp. dk_mdp d = Some mdp \<and> handle_ready mdp ws es)"

lemma mdataGet_one_line:
  assumes "v1_ready d (int (length key + 5) # ws) (one_line l @ es)" "arg_ok (Some key)" "sayable (Some l)"
  shows "\<exists>m. mdataGet heap_base d key = Inr (Some l, d\<lparr>dk_mdp := Some m\<rparr>) \<and> v1_ready (d\<lparr>dk_mdp := Some m\<rparr>) ws es"
  using v1_line_step [OF good_heap_base _ assms(2,3)] assms(1) mdataGet_step [OF _ good_heap_base]
  unfolding v1_ready_def by (metis docker.select_convs(1) docker.surjective docker.update_convs(1))

definition docker_sample :: "int list \<Rightarrow> port_event list \<Rightarrow> (nat \<times> (nat \<Rightarrow> nvpairs)) docker" where
  "docker_sample ws es = \<lparr>dk_mdp = Some (idle_sample\<lparr>mdp_plat := Some (plat_sample\<lparr>mpl_writes := ws, mpl_events := es\<rparr>)\<rparr>),
     dk_fd = 0, dk_calloc = True, dk_reqid = \<lparr>urandom_fd = -1, rq_seed = 1\<rparr>, dk_inits = [],
     dk_rids = (\<lambda>_. \<lparr>env_urandom = None, env_left = 0, env_time = 0, env_rand = (\<lambda>_. 0)\<rparr>),
     dk_nv = (0, \<lambda>_. []), dk_hostname = Some ''box'', dk_pwd = None, dk_grp = None\<rparr>"

lemma docker_sample_ready: "v1_ready (docker_sample ws es) ws es"
  by (simp add: docker_sample_def v1_ready_def handle_ready_def idle_sample_def proto_zero_def)

text \<open>Two keys, each with an array of one string.\<close>

definition quoted :: "char list \<Rightarrow> char list" where
  "quoted x = [CHR ''['', QUOTE] @ x @ [QUOTE, CHR '']'']"

definition plain :: "char list \<Rightarrow> bool" where
  "plain x \<longleftrightarrow> (\<forall>c \<in> set x. c \<notin> {QUOTE, BACKSLASH, NUL, NL}) \<and> length x < 60"

lemma plain_jstring: "plain x \<Longrightarrow> jstring x x"
proof -
  have "\<forall>c \<in> set y. c \<notin> {QUOTE, BACKSLASH, NUL} \<Longrightarrow> jstring y y" for y by (induction y) (auto intro: jstring.intros)
  then show "plain x \<Longrightarrow> ?thesis" by (auto simp: plain_def)
qed

lemma quoted_text:
  assumes "plain x"
  shows "array_text (quoted x) [x]" "sayable (Some (quoted x))"
proof -
  have "jelems [J_str x] ((QUOTE # x @ [QUOTE]) @ [])" using plain_jstring [OF assms] by (intro elem_last val_str) (auto simp: blank_def)
  then have "jvalue (J_arr [J_str x]) (CHR ''['' # [] @ ((QUOTE # x @ [QUOTE]) @ []) @ '']'')" by (intro val_arr) (simp_all add: blank_def)
  then show "array_text (quoted x) [x]"
    unfolding array_text_def json_array_def by (intro exI [of _ "[]"] exI [of _ "quoted x"]) (simp add: blank_def quoted_def)
qed (use assms in \<open>auto simp: quoted_def plain_def sayable_def v1_line_ok_def nul_free_def\<close>)

lemma strlist_sample_holds: "strlist_holds strlist_sample []"
  by (simp add: strlist_sample_def strlist_holds_def strlist_ok_def)

lemma two_keys_answered:
  assumes "v1_ready d [int (length k1 + 5), int (length k2 + 5)] (one_line (quoted x1) @ one_line (quoted x2))"
    and "arg_ok (Some k1)" "arg_ok (Some k2)" "plain x1" "plain x2"
  shows "\<exists>d'. answers heap_base d [(k1, Some (quoted x1), [x1]), (k2, Some (quoted x2), [x2])] d'"
proof -
  obtain m1 where m1: "mdataGet heap_base d k1 = Inr (Some (quoted x1), d\<lparr>dk_mdp := Some m1\<rparr>)"
    "v1_ready (d\<lparr>dk_mdp := Some m1\<rparr>) [int (length k2 + 5)] (one_line (quoted x2))"
    using mdataGet_one_line [OF assms(1,2) quoted_text(2) [OF assms(4)]] by blast
  obtain m2 where "mdataGet heap_base (d\<lparr>dk_mdp := Some m1\<rparr>) k2 = Inr (Some (quoted x2), d\<lparr>dk_mdp := Some m2\<rparr>)"
    using mdataGet_one_line [of "d\<lparr>dk_mdp := Some m1\<rparr>" k2 "[]" "quoted x2" "[]", OF _ assms(3) quoted_text(2) [OF assms(5)]] m1(2) by auto
  then show ?thesis
    using m1(1) quoted_text(1) [OF assms(4)] quoted_text(1) [OF assms(5)] by (auto simp: md_array_def)
qed

lemmas two_arrays_answered = two_keys_answered [OF docker_sample_ready]

section \<open>Properties\<close>

text \<open>C18: The environment of a container, end to end. From an empty list, and over every name-value library
  that keeps its promises, \<^verbatim>\<open>buildCmdEnv\<close> reads the two metadata keys as JSON arrays of strings (a
  missing key is the empty array) and returns an environment in which a variable has the value of its last
  entry in \<^verbatim>\<open>docker:env\<close>, else of its last entry in \<^verbatim>\<open>docker:linkEnv\<close>, else its default
  (\<^verbatim>\<open>TERM\<close>, \<^verbatim>\<open>HOME\<close> from the user, \<^verbatim>\<open>PATH\<close> and, if known, \<^verbatim>\<open>HOSTNAME\<close>), with one entry per
  variable. Entries without a name are dropped.\<close>

theorem buildCmdEnv_overrides:
  fixes d :: "'h docker"
  assumes "nvpair_library N at tree" "good_alloc mem" "strlist_holds env []"
    and "answers mem d [(''docker:linkEnv'', md1, link), (''docker:env'', md2, own)] d'"
    and "3 * md_size md1 + 5 \<le> fuel" "3 * md_size md2 + 5 \<le> fuel"
    and "\<forall>(k, v) \<in> set (default_env d). nul_free v" "length link + length own + 38 \<le> 2 ^ 32"
  shows "\<exists>env' es h'. buildCmdEnv N mem fuel d env = Inr (env', d'\<lparr>dk_nv := h'\<rparr>) \<and> strlist_holds env' es \<and>
    env_map es = map_of (default_env d) ++ map_of (rev (List.map_filter split_env link)) ++
      map_of (rev (List.map_filter split_env own)) \<and>
    env_distinct es"
proof -
  let ?es = "default_entries d"
  obtain env' h' where env': "buildCmdEnv N mem fuel d env = Inr (env', d'\<lparr>dk_nv := h'\<rparr>)"
    "strlist_holds env' (fold env_add (link @ own) ?es)" using buildCmdEnv_builds [OF assms] by blast
  have names: "env_name ''TERM''" "env_name ''HOME''" "env_name ''PATH''" "env_name ''HOSTNAME''" by (simp_all add: env_name_def)
  have "map split_env ?es = map Some (default_env d)"
    using split_env_entry [OF names(1)] split_env_entry [OF names(2)] split_env_entry [OF names(3)] split_env_entry [OF names(4)]
    by (auto simp: default_env_def split: option.split)
  then have mf: "List.map_filter split_env ?es = default_env d"
    by (rule map_filter_all_Some)
  have def: "env_map ?es = map_of (default_env d)" unfolding env_map_def mf ..
  have dist: "env_distinct ?es"
    unfolding env_distinct_def mf by (auto simp: default_env_def split: option.split)
  show ?thesis
    using env' def env_map_fold [of link ?es] env_map_fold [of own "fold env_add link ?es"]
      env_distinct_fold [OF env_distinct_fold [OF dist]]
    by auto
qed

theorem buildCmdEnv_overrides_witness:
  "\<exists>env' es d'. buildCmdEnv tree_nv heap_base 60
      (docker_sample [int (length ''docker:linkEnv'' + 5), int (length ''docker:env'' + 5)]
        (one_line (quoted ''A=1'') @ one_line (quoted ''A=2''))) strlist_sample = Inr (env', d') \<and>
    strlist_holds env' es \<and> env_map es ''A'' = Some ''2'' \<and> env_map es ''TERM'' = Some DEFAULT_TERM"
proof -
  let ?d = "docker_sample [int (length ''docker:linkEnv'' + 5), int (length ''docker:env'' + 5)]
        (one_line (quoted ''A=1'') @ one_line (quoted ''A=2''))"
  obtain d' where ans: "answers heap_base ?d [(''docker:linkEnv'', Some (quoted ''A=1''), [''A=1'']),
      (''docker:env'', Some (quoted ''A=2''), [''A=2''])] d'"
    using two_arrays_answered [of "''docker:linkEnv''" "''docker:env''" "''A=1''" "''A=2''"] by (auto simp: arg_ok_def plain_def)
  have def: "\<forall>(k, v) \<in> set (default_env ?d). nul_free v" "map_of (default_env ?d) ''TERM'' = Some DEFAULT_TERM"
    by (simp_all add: default_env_def docker_sample_def DEFAULT_TERM_def DEFAULT_PATH_def)
  have sp: "List.map_filter split_env [''A=1''] = [(''A'', ''1'')]" "List.map_filter split_env [''A=2''] = [(''A'', ''2'')]"
    by (simp_all add: List.map_filter_simps split_env_def)
  have fuel: "3 * md_size (Some (quoted ''A=1'')) + 5 \<le> 60" "3 * md_size (Some (quoted ''A=2'')) + 5 \<le> 60"
    by (simp_all add: quoted_def)
  from buildCmdEnv_overrides [OF tnv.nvpair_library_axioms good_heap_base strlist_sample_holds ans fuel def(1)]
  obtain env' es h' where r: "buildCmdEnv tree_nv heap_base 60 ?d strlist_sample = Inr (env', d'\<lparr>dk_nv := h'\<rparr>)"
    "strlist_holds env' es" "env_map es = map_of (default_env ?d) ++ map_of (rev (List.map_filter split_env [''A=1''])) ++
      map_of (rev (List.map_filter split_env [''A=2'']))" by auto
  have "env_map es ''A'' = Some ''2''" "env_map es ''TERM'' = Some DEFAULT_TERM"
    unfolding r(3) sp map_add_Some_iff using def(2) by auto
  then show ?thesis using r(1,2) by blast
qed

text \<open>C19: The command line. \<^verbatim>\<open>buildCmdline\<close> appends the strings of \<^verbatim>\<open>docker:entrypoint\<close> and then
  those of \<^verbatim>\<open>docker:cmd\<close> to an empty list, in order; without any the process exits with
  \<^verbatim>\<open>ERR_NO_COMMAND\<close>.\<close>

theorem buildCmdline_concatenates:
  fixes d :: "'h docker"
  assumes "nvpair_library N at tree" "good_alloc mem" "strlist_holds cmdline []"
    and "answers mem d [(''docker:entrypoint'', md1, entrypoint), (''docker:cmd'', md2, cmd)] d'"
    and "3 * md_size md1 + 5 \<le> fuel" "3 * md_size md2 + 5 \<le> fuel" "length entrypoint + length cmd + 34 \<le> 2 ^ 32"
  shows "if entrypoint @ cmd = [] then buildCmdline N mem fuel d cmdline = Inl (Fault_Exit ERR_NO_COMMAND)
    else \<exists>cl h'. buildCmdline N mem fuel d cmdline = Inr (cl, d'\<lparr>dk_nv := h'\<rparr>) \<and> strlist_holds cl (entrypoint @ cmd)"
  using buildCmdline_builds [OF assms] by (auto simp: fatal_def dockerinit_err_defs)

theorem buildCmdline_concatenates_witness:
  "\<exists>cl d'. buildCmdline tree_nv heap_base 60
      (docker_sample [int (length ''docker:entrypoint'' + 5), int (length ''docker:cmd'' + 5)]
        (one_line (quoted ''sh'') @ one_line (quoted ''-c''))) strlist_sample = Inr (cl, d') \<and> strlist_holds cl [''sh'', ''-c'']"
proof -
  let ?d = "docker_sample [int (length ''docker:entrypoint'' + 5), int (length ''docker:cmd'' + 5)]
        (one_line (quoted ''sh'') @ one_line (quoted ''-c''))"
  obtain d' where ans: "answers heap_base ?d [(''docker:entrypoint'', Some (quoted ''sh''), [''sh'']),
      (''docker:cmd'', Some (quoted ''-c''), [''-c''])] d'"
    using two_arrays_answered [of "''docker:entrypoint''" "''docker:cmd''" "''sh''" "''-c''"] by (auto simp: arg_ok_def plain_def)
  have fuel: "3 * md_size (Some (quoted ''sh'')) + 5 \<le> 60" "3 * md_size (Some (quoted ''-c'')) + 5 \<le> 60"
    by (simp_all add: quoted_def)
  from buildCmdline_concatenates [OF tnv.nvpair_library_axioms good_heap_base strlist_sample_holds ans fuel]
  show ?thesis by auto
qed

text \<open>One metadata request. On an idle handle of protocol version 2 whose peer answers the request, after
  any number of frames that answer other requests, \<^verbatim>\<open>mdataGet\<close> returns a copy of the value for
  \<^verbatim>\<open>SUCCESS\<close>, a null pointer for \<^verbatim>\<open>NOTFOUND\<close>, exits with \<^verbatim>\<open>ERR_MDATA_FAIL\<close> for every other
  code, and leaves the handle idle for the next request.\<close>

theorem mdataGet_delivers:
  assumes "good_alloc mem" "dk_mdp d = Some mdp"
    and "mdp_command mdp = None" "mdp_plat mdp = Some mpl" "mdp_state mdp = MDPS_READY" "mdp_version mdp = MDPV_VERSION_2"
    and "arg_ok (Some key)" "rid = fst (reqid (mdp_reqid mdp) (mdp_rids mdp (mdp_nrids mdp)))"
    and "req = frame_line (frame_body rid ''GET'' (Some key)) @ [NL]"
    and "mpl_writes mpl = int (length req) # ws"
      "mpl_events mpl = concat (map frame_events fs) @ frame_events (rid, code, payload) @ es"
    and "v2_frame_ok rid code payload" "\<forall>(r, c, p) \<in> set fs. v2_frame_ok r c p \<and> r \<noteq> rid"
  shows "if code \<in> {''SUCCESS'', ''NOTFOUND''}
    then returns (mdataGet mem d key) (\<lambda>(s, d'). s = (if code = ''SUCCESS'' then Some (payload_text payload) else None) \<and>
      (\<exists>m. d' = d\<lparr>dk_mdp := Some m\<rparr> \<and> mdp_command m = None \<and> mdp_state m = MDPS_READY \<and>
        mdp_plat m = Some (mpl\<lparr>mpl_writes := ws, mpl_sent := mpl_sent mpl @ req, mpl_events := es\<rparr>)))
    else mdataGet mem d key = Inl (Fault_Exit ERR_MDATA_FAIL)"
proof -
  have get: "nul_free ''GET''" "length ''GET'' < 64" by simp_all
  obtain data m where run: "proto_execute mem mdp ''GET'' (Some key) = Inr (Some (v2_code code, data), m)"
    "dyn_is (payload_text payload) data" "mdp_command m = None" "mdp_state m = MDPS_READY"
    "mdp_plat m = Some (mpl\<lparr>mpl_writes := ws, mpl_sent := mpl_sent mpl @ req, mpl_events := es\<rparr>)"
    using returnsD [OF proto_execute_v2_delivers [OF assms(1,3-6) get assms(7-13)]] by auto
  have nf: "nul_free (payload_text payload)"
    using assms(12) by (cases payload) (auto simp: v2_frame_ok_def arg_ok_def)
  have "dynstr_cstr data = Inr (payload_text payload)" "percent_s_dyn data \<noteq> Inl e" for e
    using dyn_is_reads [OF run(2)] nf run(2) by (auto simp: percent_s_dyn_def dyn_is_def)
  then show ?thesis
    using run assms(2) strdup_good [OF assms(1)]
    by (auto simp: mdataGet_def mdata_connect_def v2_code_def fatal_def dockerinit_err_defs bindr_def split: sum.split)
qed

theorem mdataGet_delivers_witness:
  "returns (mdataGet heap_base ((docker_sample [] [])\<lparr>dk_mdp := Some (idle_sample\<lparr>mdp_version := MDPV_VERSION_2,
       mdp_plat := Some (plat_sample\<lparr>
         mpl_writes := [int (length (frame_line (frame_body ''00000000'' ''GET'' (Some ''k'')) @ [NL]))],
         mpl_events := frame_events (''00000000'', ''SUCCESS'', Some ''v'')\<rparr>)\<rparr>)\<rparr>) ''k'')
    (\<lambda>(s, d'). s = Some ''v'')"
proof -
  let ?mpl = "plat_sample\<lparr>
         mpl_writes := [int (length (frame_line (frame_body ''00000000'' ''GET'' (Some ''k'')) @ [NL]))],
         mpl_events := frame_events (''00000000'', ''SUCCESS'', Some ''v'')\<rparr>"
  let ?mdp = "idle_sample\<lparr>mdp_version := MDPV_VERSION_2, mdp_plat := Some ?mpl\<rparr>"
  let ?d = "(docker_sample [] [])\<lparr>dk_mdp := Some ?mdp\<rparr>"
  have d: "dk_mdp ?d = Some ?mdp" by simp
  have i: "mdp_command ?mdp = None" "mdp_plat ?mdp = Some ?mpl" "mdp_state ?mdp = MDPS_READY" "mdp_version ?mdp = MDPV_VERSION_2"
    "arg_ok (Some ''k'')" "''00000000'' = fst (reqid (mdp_reqid ?mdp) (mdp_rids ?mdp (mdp_nrids ?mdp)))"
    by (simp_all add: idle_sample_def proto_zero_def arg_ok_def sample_rid)
  have ev: "mpl_events ?mpl = concat (map frame_events []) @ frame_events (''00000000'', ''SUCCESS'', Some ''v'') @ []" by simp
  have w: "mpl_writes ?mpl = int (length (frame_line (frame_body ''00000000'' ''GET'' (Some ''k'')) @ [NL])) # []" by simp
  from mdataGet_delivers [OF good_heap_base d i refl w ev sample_answer_ok]
  have "returns (mdataGet heap_base ?d ''k'') (\<lambda>(s, d'). s = Some (payload_text (Some ''v'')) \<and>
      (\<exists>m. d' = ?d\<lparr>dk_mdp := Some m\<rparr> \<and> mdp_command m = None \<and> mdp_state m = MDPS_READY \<and>
        mdp_plat m = Some (?mpl\<lparr>mpl_writes := [], mpl_sent := mpl_sent ?mpl @ frame_line (frame_body ''00000000'' ''GET'' (Some ''k'')) @ [NL],
          mpl_events := []\<rparr>)))" by simp
  then show ?thesis by (rule returns_mono) auto
qed



end
