(* ===== verification/Docker_Process.thy ===== *)
theory Docker_Process
  imports Docker_Mdata
begin

text \<open>
  Processes of a Docker zone, as \<^verbatim>\<open>src/src/dockerinit/src/dockerexec.c\<close> and
  \<^verbatim>\<open>src/src/dockerinit/src/dockerinit.c\<close> see them: a program runs on the process state of theory
  \<^verbatim>\<open>Docker_Mdata\<close> and on the list of the calls it has made to the system so far, and the system's
  answer to a call may depend on all calls before it. A program that replaces itself by another one
  ends there; \<^verbatim>\<open>fork\<close> answers 0 in the child and a process number in the parent, so that a model
  function describes the run of either.
\<close>

section \<open>Calls and their answers\<close>

datatype oflag = O_RDONLY | O_WRONLY | O_RDWR | O_NOCTTY | O_CREAT | O_TRUNC | O_CLOEXEC

text \<open>\<open>SIOCSLIFFLAGS\<close> sets the flags read before, and \<^verbatim>\<open>IFF_UP\<close>.\<close>

datatype ioctl_request =
    TIOCSCTTY
  | ZFD_MUX int
  | ZFD_MUX_FLOWCON int
  | SIOCGLIFFLAGS "char list"
  | SIOCSLIFFLAGS "char list"

datatype family = AF_INET | AF_INET6 | PF_ROUTE

text \<open>The routing message: its flags (whether \<^verbatim>\<open>RTF_UP | RTF_STATIC | RTF_GATEWAY\<close> are set), interface
  index and the families and addresses of destination, gateway and netmask. An address that is not
  filled in has family 0, here \<open>None\<close>.\<close>

record sockaddr_in =
  sin_family :: "family option"
  sin_addr :: "32 word"

record rt_msg =
  rtm_gateway_flags :: bool
  rtm_index :: int
  rtm_dst :: sockaddr_in
  rtm_gateway :: sockaddr_in
  rtm_netmask :: sockaddr_in

datatype fd_call =
    Open "char list" "oflag list"
  | Close int
  | Dup2 int int
  | Fdopen int
  | Closefrom int
  | Fstat int
  | Ioctl int ioctl_request
  | Opendir "char list"
  | Door_info int

datatype fs_call =
    Mkdir "char list"
  | Unlink "char list"
  | Symlink "char list" "char list"
  | Rename "char list" "char list"
  | Mount "char list" "char list" "char list" "char list option"

datatype net_call =
    Ipadm_open
  | Ipadm_close
  | Ipadm_create_if "char list" family
  | Ipadm_create_addrobj "char list"
  | Ipadm_set_addr "char list"
  | Ipadm_create_addr
  | Ipadm_destroy_addrobj
  | Socket family
  | If_nametoindex "char list"
  | Write_route int rt_msg
  | Sethostname "char list"

datatype proc_call =
    Fork
  | Wait
  | Waitpid int
  | Kill int "char list"
  | Getpid
  | Setsid
  | Setgid "32 word"
  | Initgroups "char list" "32 word"
  | Setuid "32 word"
  | Ct_tmpl "char list" int "char list"
  | Gettimeofday
  | Pause nat
  | Brand_lockd

text \<open>Functions of the contract library are given by name, with their argument as written; times to
  pause are in microseconds. Only \<open>Execve\<close> replaces the program; \<^verbatim>\<open>execv\<close> passes the environment on (\<open>None\<close>).\<close>

datatype call =
    Fd fd_call
  | Fs fs_call
  | Net net_call
  | Proc proc_call
  | Execve "char list" "char list option list" "char list option list option"

datatype wait_status = Exited int | Signaled int | Stopped

text \<open>
  The world: what a call returns after the calls before it, the error number it leaves, a value it
  stores through a pointer argument, the entries of a directory and the status of a child; the library
  functions on addresses, the root of native files and the size of a routing message; the databases of users and the file system as
  the functions of theory \<^verbatim>\<open>Docker_Mdata\<close> see them.
\<close>

record world =
  w_ret :: "call list \<Rightarrow> call \<Rightarrow> int"
  w_errno :: "call list \<Rightarrow> call \<Rightarrow> errno"
  w_val :: "call list \<Rightarrow> call \<Rightarrow> int"
  w_names :: "call list \<Rightarrow> char list list"
  w_status :: "call list \<Rightarrow> wait_status"
  w_inet_pton :: "char list \<Rightarrow> 32 word option"
  w_mask2plen :: "32 word \<Rightarrow> int"
  w_plen2mask :: "int \<Rightarrow> 32 word option"
  w_nroot :: "char list option"
  w_rtmbufsz :: int
  w_ns :: name_service
  w_mkdirp :: "char list \<Rightarrow> bool"
  w_chdir :: "char list \<Rightarrow> bool"
  w_stat :: stat_answers

section \<open>Programs\<close>

text \<open>Besides the state of theory \<^verbatim>\<open>Docker_Mdata\<close>: whether \<^verbatim>\<open>iph\<close> is set, and \<^verbatim>\<open>log_fd\<close>.\<close>

record 'h process =
  pr_dk :: "'h docker"
  pr_iph :: bool
  pr_log_fd :: int
  pr_calls :: "call list"

text \<open>A program returns, ends with a fault (also: exits), or is replaced by another program.\<close>

datatype 'a ending = Returned 'a | Ended fault | Replaced

definition ending_of :: "'a outcome \<Rightarrow> 'a ending" where
  "ending_of m = (case m of Inl e \<Rightarrow> Ended e | Inr x \<Rightarrow> Returned x)"

lemma ending_of_simps [simp]: "ending_of (Inl e) = Ended e" "ending_of (Inr x) = Returned x" "ending_of m \<noteq> Replaced"
  "ending_of m = Returned x \<longleftrightarrow> m = Inr x" "ending_of m = Ended e \<longleftrightarrow> m = Inl e"
  by (auto simp: ending_of_def split: sum.split)

type_synonym ('h, 'a) prog = "'h process \<Rightarrow> 'a ending \<times> 'h process"

definition retp :: "'a \<Rightarrow> ('h, 'a) prog" where
  "retp x s = (Returned x, s)"

definition bindp :: "('h, 'a) prog \<Rightarrow> ('a \<Rightarrow> ('h, 'b) prog) \<Rightarrow> ('h, 'b) prog" where
  "bindp m f s =
     (case m s of (Returned x, s') \<Rightarrow> f x s' | (Ended e, s') \<Rightarrow> (Ended e, s') | (Replaced, s') \<Rightarrow> (Replaced, s'))"

definition faultp :: "fault \<Rightarrow> ('h, 'a) prog" where
  "faultp e s = (Ended e, s)"

text \<open>A function that makes no call of interest and leaves the process state alone, and one of theory
  \<^verbatim>\<open>Docker_Mdata\<close>.\<close>

definition purep :: "'a outcome \<Rightarrow> ('h, 'a) prog" where
  "purep m s = (ending_of m, s)"

definition failp :: "dockerinit_err \<Rightarrow> ('h, 'a) prog" where
  "failp code = purep (fatal code)"

definition dkp :: "('h docker \<Rightarrow> ('a \<times> 'h docker) outcome) \<Rightarrow> ('h, 'a) prog" where
  "dkp f s = (case f (pr_dk s) of Inl e \<Rightarrow> (Ended e, s) | Inr (x, d) \<Rightarrow> (Returned x, s\<lparr>pr_dk := d\<rparr>))"

definition getp :: "('h, 'h docker) prog" where
  "getp s = (Returned (pr_dk s), s)"

definition callp :: "world \<Rightarrow> call \<Rightarrow> ('h, int) prog" where
  "callp w c s = (Returned (w_ret w (pr_calls s) c), s\<lparr>pr_calls := pr_calls s @ [c]\<rparr>)"

text \<open>What the latest call left in \<^verbatim>\<open>errno\<close>, and the value it stored.\<close>

definition errnop :: "world \<Rightarrow> ('h, errno) prog" where
  "errnop w s = (Returned (w_errno w (butlast (pr_calls s)) (last (pr_calls s))), s)"

definition valp :: "world \<Rightarrow> ('h, int) prog" where
  "valp w s = (Returned (w_val w (butlast (pr_calls s)) (last (pr_calls s))), s)"

text \<open>\<^verbatim>\<open>if (call(...) != 0) fatal(code)\<close>.\<close>

definition zero_or_fatal :: "world \<Rightarrow> call \<Rightarrow> dockerinit_err \<Rightarrow> ('h, unit) prog" where
  "zero_or_fatal w c code = bindp (callp w c) (\<lambda>r. if r \<noteq> 0 then failp code else retp ())"

text \<open>\<^verbatim>\<open>execve\<close>, which only returns to report a failure.\<close>

definition execp :: "world \<Rightarrow> call \<Rightarrow> ('h, unit) prog \<Rightarrow> ('h, unit) prog" where
  "execp w c failed = bindp (callp w c) (\<lambda>r. if r = -1 then failed else (\<lambda>s. (Replaced, s)))"

text \<open>\<^verbatim>\<open>fork\<close>, with what its two processes do.\<close>

definition forkp :: "world \<Rightarrow> (int \<Rightarrow> ('h, 'a) prog) \<Rightarrow> ('h, 'a) prog" where
  "forkp w f = bindp (callp w (Proc Fork)) f"

definition skipp :: "('h, unit) prog" where
  "skipp = retp ()"

definition whenp :: "bool \<Rightarrow> ('h, unit) prog \<Rightarrow> ('h, unit) prog" where
  "whenp b m = (if b then m else skipp)"

lemmas prog_defs = retp_def failp_def faultp_def purep_def dkp_def getp_def callp_def errnop_def valp_def skipp_def

lemma bindp_cases:
  assumes "bindp m f s = (r, s')"
  obtains (fails) e where "m s = (Ended e, s')" "r = Ended e"
  | (replaced) "m s = (Replaced, s')" "r = Replaced"
  | (goes_on) x s1 where "m s = (Returned x, s1)" "f x s1 = (r, s')"
proof (cases "m s")
  case (Pair a b)
  then show ?thesis using assms that by (cases a) (auto simp: bindp_def)
qed

lemma bindp_callp: "bindp (callp w c) f s = f (w_ret w (pr_calls s) c) (s\<lparr>pr_calls := pr_calls s @ [c]\<rparr>)"
  by (simp add: bindp_def callp_def)

section \<open>Becoming the user\<close>

definition ERR_EXEC_FAILED :: dockerinit_err where "ERR_EXEC_FAILED = 3"
definition ERR_INITGROUPS :: dockerinit_err where "ERR_INITGROUPS = 6"
definition ERR_SETGID :: dockerinit_err where "ERR_SETGID = 23"
definition ERR_SETUID :: dockerinit_err where "ERR_SETUID = 24"

text \<open>The block both programs have under \<^verbatim>\<open>DROP PRIVS\<close>.\<close>

definition drop_privs :: "world \<Rightarrow> ('h, unit) prog" where
  "drop_privs w =
     bindp getp (\<lambda>d.
     bindp (case dk_grp d of
              None \<Rightarrow> skipp
            | Some g \<Rightarrow> zero_or_fatal w (Proc (Setgid (gr_gid g))) ERR_SETGID) (\<lambda>_.
     bindp (case (dk_pwd d, dk_grp d) of
              (Some p, Some g) \<Rightarrow> zero_or_fatal w (Proc (Initgroups (pw_name p) (gr_gid g))) ERR_INITGROUPS
            | _ \<Rightarrow> skipp) (\<lambda>_.
     case dk_pwd d of
       None \<Rightarrow> skipp
     | Some p \<Rightarrow> zero_or_fatal w (Proc (Setuid (pw_uid p))) ERR_SETUID)))"

text \<open>The calls that make a process the user and group found for it, and that the system granted a list of
  calls one after the other.\<close>

definition privs_calls :: "'h docker \<Rightarrow> call list" where
  "privs_calls d =
     (case dk_grp d of None \<Rightarrow> [] | Some g \<Rightarrow> [Proc (Setgid (gr_gid g))]) @
     (case (dk_pwd d, dk_grp d) of (Some p, Some g) \<Rightarrow> [Proc (Initgroups (pw_name p) (gr_gid g))] | _ \<Rightarrow> []) @
     (case dk_pwd d of None \<Rightarrow> [] | Some p \<Rightarrow> [Proc (Setuid (pw_uid p))])"

fun granted :: "world \<Rightarrow> call list \<Rightarrow> call list \<Rightarrow> bool" where
  "granted w cs [] \<longleftrightarrow> True"
| "granted w cs (c # r) \<longleftrightarrow> w_ret w cs c = 0 \<and> granted w (cs @ [c]) r"

lemma zero_or_fatal_run:
  "zero_or_fatal w c code s =
     (ending_of (if w_ret w (pr_calls s) c = 0 then Inr () else fatal code), s\<lparr>pr_calls := pr_calls s @ [c]\<rparr>)"
  by (simp add: zero_or_fatal_def bindp_def prog_defs)

lemma drop_privs_run:
  "drop_privs w s = (r, s') \<Longrightarrow> pr_dk s' = pr_dk s \<and>
   (\<exists>cs. pr_calls s' = pr_calls s @ cs \<and> set cs \<subseteq> set (privs_calls (pr_dk s)) \<and>
     (r = Returned () \<longrightarrow> cs = privs_calls (pr_dk s) \<and> granted w (pr_calls s) cs))"
  by (cases "dk_grp (pr_dk s)"; cases "dk_pwd (pr_dk s)")
    (auto simp: drop_privs_def privs_calls_def bindp_def zero_or_fatal_run getp_def skipp_def retp_def fatal_def split: if_splits)

lemma drop_privs_granted:
  "granted w (pr_calls s) (privs_calls (pr_dk s)) \<Longrightarrow> s' = s\<lparr>pr_calls := pr_calls s @ privs_calls (pr_dk s)\<rparr> \<Longrightarrow>
   drop_privs w s = (Returned (), s')"
  by (cases "dk_grp (pr_dk s)"; cases "dk_pwd (pr_dk s)")
    (auto simp: drop_privs_def privs_calls_def bindp_def zero_or_fatal_run getp_def skipp_def retp_def)

lemma dkp_run:
  "dkp f s = (r, s') \<Longrightarrow> pr_calls s' = pr_calls s \<and> r \<noteq> Replaced \<and> (\<forall>x. r = Returned x \<longrightarrow> f (pr_dk s) = Inr (x, pr_dk s'))"
  by (auto simp: dkp_def split: sum.splits)

section \<open>What leaves the user alone\<close>

definition same_user :: "'h docker \<Rightarrow> 'h docker \<Rightarrow> bool" where
  "same_user d d' \<longleftrightarrow> dk_pwd d' = dk_pwd d \<and> dk_grp d' = dk_grp d"

lemma same_user_trans: "same_user a b \<Longrightarrow> same_user b c \<Longrightarrow> same_user a c"
  by (simp add: same_user_def)

lemma mdataGet_same_user: "mdataGet mem d k = Inr (v, d') \<Longrightarrow> same_user d d'"
  by (auto dest!: mdataGet_frame simp: same_user_def)

lemma getMdataArray_same_user: "getMdataArray N mem fuel d k b = Inr (nvl, l, d') \<Longrightarrow> same_user d d'"
  by (auto simp: getMdataArray_def Let_def bindr_eq_Inr_iff same_user_def dest!: mdataGet_frame split: if_splits option.splits)

lemma nvl_free_same_user [simp]: "same_user a (nvl_free N nvl d) = same_user a d"
  by (auto simp: nvl_free_def same_user_def split: option.split)

lemma load_arrays_same_user: "load_arrays N mem fuel f ks a d = Inr (a', d') \<Longrightarrow> same_user d d'"
proof (induction ks arbitrary: a d)
  case (Cons k ks)
  then obtain nvl l d1 a1 where d1: "getMdataArray N mem fuel d k False = Inr (nvl, l, d1)"
    "load_arrays N mem fuel f ks a1 (nvl_free N nvl d1) = Inr (a', d')" by (auto simp: bindr_eq_Inr_iff)
  have "same_user d (nvl_free N nvl d1)" using getMdataArray_same_user [OF d1(1)] by simp
  then show ?case by (rule same_user_trans) (rule Cons.IH [OF d1(2)])
qed (simp add: same_user_def)

lemma buildCmdEnv_same_user: "buildCmdEnv N mem fuel d env = Inr (env', d') \<Longrightarrow> same_user d d'"
  by (auto simp: buildCmdEnv_def bindr_eq_Inr_iff simp del: load_arrays.simps dest!: load_arrays_same_user)

lemma buildCmdline_same_user: "buildCmdline N mem fuel d cl = Inr (cl', d') \<Longrightarrow> same_user d d'"
  by (auto simp: buildCmdline_def bindr_eq_Inr_iff simp del: load_arrays.simps split: if_splits dest!: load_arrays_same_user)

lemma setupWorkdir_same_user: "setupWorkdir mem mk ch d = Inr (wd, d') \<Longrightarrow> same_user d d'"
proof -
  assume a: "setupWorkdir mem mk ch d = Inr (wd, d')"
  obtain cu where cu: "custr_alloc mem = (Ret_ok, Some cu)"
    using a by (cases "custr_alloc mem"; cases "fst (custr_alloc mem)"; cases "snd (custr_alloc mem)") (auto simp: setupWorkdir_def)
  obtain v where "mdataGet mem d ''docker:workdir'' = Inr (v, d')"
    using a unfolding setupWorkdir_def cu by (auto simp: bindr_eq_Inr_iff split: if_splits)
  then show ?thesis by (rule mdataGet_same_user)
qed

lemma privs_calls_same_user: "same_user d d' \<Longrightarrow> privs_calls d' = privs_calls d"
  by (simp add: privs_calls_def same_user_def)

section \<open>The working directory\<close>

text \<open>The directory: the value of the key, with a leading tilde standing for the user's home.\<close>

definition workdir_path :: "passwd option \<Rightarrow> char list option \<Rightarrow> char list" where
  "workdir_path pw md =
     (case md of
        None \<Rightarrow> ''/''
      | Some t \<Rightarrow>
          (case pw of
             Some p \<Rightarrow> if t \<noteq> [] \<and> hd t = CHR 0x7E then path_join (path_join ''/'' (pw_dir p)) (tl t) else path_join ''/'' t
           | None \<Rightarrow> path_join ''/'' t))"

lemma setupWorkdir_runs:
  assumes "good_alloc mem" "mdataGet mem d ''docker:workdir'' = Inr (md, d')"
    and "\<forall>t. md = Some t \<longrightarrow> nul_free t" "\<forall>p. dk_pwd d = Some p \<longrightarrow> nul_free (pw_dir p)"
    and "dir = workdir_path (dk_pwd d) md"
  shows "\<exists>cu. custr_dyn cu dir \<and> nul_free dir \<and> setupWorkdir mem mkdirp_ok chdir_ok d =
    (if \<not> mkdirp_ok dir then fatal ERR_MKDIR else if \<not> chdir_ok dir then fatal ERR_CHDIR else Inr (cu, d'))"
proof -
  note step = strpath_append_or_fatal [OF assms(1)]
  obtain c0 where c0: "custr_alloc mem = (Ret_ok, Some c0)" "custr_dyn c0 []" using custr_alloc_dyn [OF assms(1)] by blast
  have "path_join [] ''/'' = ''/''" by (simp add: path_join_def path_components_slash path_components_none)
  then obtain c1 where c1: "or_fatal ERR_UNEXPECTED (strpath_append mem c0 ''/'') = Inr c1" "custr_dyn c1 ''/''"
    using step [OF c0(2), of "''/''" ERR_UNEXPECTED] by auto
  have pwd: "dk_pwd d' = dk_pwd d" using mdataGet_frame [OF assms(2)] by auto
  let ?walk = "case md of
                   None \<Rightarrow> Inr c1
                 | Some t \<Rightarrow>
                     (case (dk_pwd d', t) of
                        (Some p, c # t') \<Rightarrow>
                          if c = CHR 0x7E
                          then bindr (or_fatal ERR_UNEXPECTED (strpath_append mem c1 (pw_dir p))) (\<lambda>cu.
                               or_fatal ERR_UNEXPECTED (strpath_append mem cu t'))
                          else or_fatal ERR_UNEXPECTED (strpath_append mem c1 t)
                      | _ \<Rightarrow> or_fatal ERR_UNEXPECTED (strpath_append mem c1 t))"
  have "\<exists>cu. ?walk = Inr cu \<and> custr_dyn cu dir \<and> nul_free dir"
  proof (cases md)
    case None
    then show ?thesis using c1(2) assms(5) by (simp add: workdir_path_def)
  next
    case (Some t)
    have plain: "\<exists>cu. or_fatal ERR_UNEXPECTED (strpath_append mem c1 t) = Inr cu \<and> custr_dyn cu (path_join ''/'' t) \<and> nul_free (path_join ''/'' t)"
      using step [OF c1(2) _, of t ERR_UNEXPECTED] assms(3) Some by auto
    show ?thesis
    proof (cases "\<exists>p t'. dk_pwd d = Some p \<and> t = CHR 0x7E # t'")
      case True
      then obtain p t' where p: "dk_pwd d = Some p" "t = CHR 0x7E # t'" by blast
      obtain c2 where c2: "or_fatal ERR_UNEXPECTED (strpath_append mem c1 (pw_dir p)) = Inr c2"
        "custr_dyn c2 (path_join ''/'' (pw_dir p))" "nul_free (path_join ''/'' (pw_dir p))"
        using step [OF c1(2) _, of "pw_dir p" ERR_UNEXPECTED] assms(4) p by auto
      then show ?thesis
        using step [OF c2(2,3), of t' ERR_UNEXPECTED] assms(3,5) Some p pwd by (auto simp: workdir_path_def)
    next
      case False
      then show ?thesis using plain Some assms(5) pwd by (cases t) (auto simp: workdir_path_def split: option.split)
    qed
  qed
  then obtain cu where cu: "?walk = Inr cu" "custr_dyn cu dir" "nul_free dir" by blast
  have "setupWorkdir mem mkdirp_ok chdir_ok d = bindr ?walk (\<lambda>cu. bindr (custr_cstr cu) (\<lambda>dir.
      if \<not> mkdirp_ok dir then fatal ERR_MKDIR else if \<not> chdir_ok dir then fatal ERR_CHDIR else Inr (cu, d')))"
    using c0(1) c1(1) assms(2) by (simp add: setupWorkdir_def)
  then show ?thesis using cu custr_dyn_reads [OF cu(2,3)] by (intro exI [of _ cu]) simp
qed

section \<open>Programs that stay what they are\<close>

text \<open>The process is a child that was forked on the way.\<close>

definition in_child :: "world \<Rightarrow> call list \<Rightarrow> bool" where
  "in_child w cs \<longleftrightarrow> (\<exists>pre post. cs = pre @ Proc Fork # post \<and> w_ret w pre (Proc Fork) = 0)"

lemma in_child_append: "in_child w cs \<Longrightarrow> in_child w (cs @ ds)"
  unfolding in_child_def by force

text \<open>
  Such a program only adds to the list of calls, leaves user and group alone, and is not replaced by
  another one in the process that started it, unless \<open>b\<close> allows that.
\<close>

definition tame :: "world \<Rightarrow> bool \<Rightarrow> ('h, 'a) prog \<Rightarrow> bool" where
  "tame w b m \<longleftrightarrow> (\<forall>s r s'. m s = (r, s') \<longrightarrow> (\<exists>cs. pr_calls s' = pr_calls s @ cs) \<and> same_user (pr_dk s) (pr_dk s') \<and>
     (r = Replaced \<longrightarrow> b \<or> in_child w (pr_calls s')))"

named_theorems tame_intros \<open>programs that stay what they are\<close>

lemma tameD:
  "tame w b m \<Longrightarrow> m s = (r, s') \<Longrightarrow> (\<exists>cs. pr_calls s' = pr_calls s @ cs) \<and> same_user (pr_dk s) (pr_dk s') \<and>
   (r = Replaced \<longrightarrow> b \<or> in_child w (pr_calls s'))"
  unfolding tame_def by blast

lemma same_user_refl [simp]: "same_user d d"
  by (simp add: same_user_def)

lemma tame_basic [tame_intros]:
  "tame w b (\<lambda>s. (Returned (g s), s))" "tame w b (retp x)" "tame w b (failp code)" "tame w b (faultp e)" "tame w b (purep m)"
  "tame w b getp" "tame w b (errnop w)" "tame w b (valp w)" "tame w b skipp" "tame w b (callp w c)"
  by (auto simp: tame_def prog_defs)

lemma tame_pointwise: "(\<And>s. \<exists>m'. tame w b m' \<and> m s = m' s) \<Longrightarrow> tame w b m"
  unfolding tame_def by metis

lemma tame_cong: "(\<And>s. m s = m' s) \<Longrightarrow> tame w b m' \<Longrightarrow> tame w b m"
  by (simp add: tame_def)

lemma tame_dkp [tame_intros]: "(\<And>d x d'. f d = Inr (x, d') \<Longrightarrow> same_user d d') \<Longrightarrow> tame w b (dkp f)"
  by (auto simp: tame_def dkp_def split: sum.splits)

lemma tame_bindp [tame_intros]:
  assumes "tame w b m" "\<And>x. tame w b (f x)"
  shows "tame w b (bindp m f)"
  unfolding tame_def
proof (intro allI impI)
  fix s r s'
  assume "bindp m f s = (r, s')"
  then show "(\<exists>cs. pr_calls s' = pr_calls s @ cs) \<and> same_user (pr_dk s) (pr_dk s') \<and> (r = Replaced \<longrightarrow> b \<or> in_child w (pr_calls s'))"
  proof (cases rule: bindp_cases)
    case (goes_on x s1)
    obtain cs ds where "pr_calls s1 = pr_calls s @ cs" "pr_calls s' = pr_calls s1 @ ds" "same_user (pr_dk s) (pr_dk s1)"
      "same_user (pr_dk s1) (pr_dk s')" "r = Replaced \<longrightarrow> b \<or> in_child w (pr_calls s')"
      using tameD [OF assms(1) goes_on(1)] tameD [OF assms(2) goes_on(2)] by blast
    then show ?thesis using same_user_trans by simp blast
  qed (use tameD [OF assms(1)] in blast)+
qed

lemma tame_zero_or_fatal [tame_intros]: "tame w b (zero_or_fatal w c code)"
  unfolding zero_or_fatal_def by (auto intro!: tame_intros)

lemma tame_whenp [tame_intros]: "tame w b m \<Longrightarrow> tame w b (whenp c m)"
  by (simp add: whenp_def tame_intros)

lemma tame_execp [tame_intros]: "tame w True m \<Longrightarrow> tame w True (execp w c m)"
  unfolding execp_def by (rule tame_bindp) (auto simp: tame_def prog_defs)

text \<open>A child may become another program.\<close>

lemma tame_fork [tame_intros]:
  assumes "\<And>pid. pid \<noteq> 0 \<Longrightarrow> tame w b (f pid)" "tame w True (f 0)"
  shows "tame w b (forkp w f)"
  unfolding tame_def forkp_def
proof (intro allI impI)
  fix s r s'
  assume run: "bindp (callp w (Proc Fork)) f s = (r, s')"
  let ?pid = "w_ret w (pr_calls s) (Proc Fork)" and ?s = "s\<lparr>pr_calls := pr_calls s @ [Proc Fork]\<rparr>"
  have f: "f ?pid ?s = (r, s')" using run by (simp add: bindp_callp)
  show "(\<exists>cs. pr_calls s' = pr_calls s @ cs) \<and> same_user (pr_dk s) (pr_dk s') \<and> (r = Replaced \<longrightarrow> b \<or> in_child w (pr_calls s'))"
  proof (cases "?pid = 0")
    case True
    then have "in_child w (pr_calls s @ [Proc Fork])" by (auto simp: in_child_def)
    moreover obtain cs where "pr_calls s' = pr_calls s @ [Proc Fork] @ cs" "same_user (pr_dk s) (pr_dk s')"
      using tameD [OF assms(2), of ?s r s'] f True by auto
    ultimately show ?thesis using in_child_append [of w "pr_calls s @ [Proc Fork]" cs] by simp
  next
    case False
    then show ?thesis using tameD [OF assms(1) f] by auto
  qed
qed

lemma drop_privs_tame [tame_intros]: "tame w b (drop_privs w)"
  unfolding drop_privs_def by (auto intro!: tame_intros split: option.split prod.split)

end
