(* ===== verification/Docker_Net.thy ===== *)
theory Docker_Net
  imports Docker_Process
begin

text \<open>
  The network of a Docker zone, from \<^verbatim>\<open>src/src/dockerinit/src/dockerinit.c\<close>: interfaces, addresses,
  gateways and static routes, as the metadata describe them. The libraries for interfaces and addresses
  are the world of theory \<^verbatim>\<open>Docker_Process\<close>; a list of the name-value library is a pointer into the
  memory \<^verbatim>\<open>dk_nv\<close> of the process.
\<close>

section \<open>Interfaces\<close>

definition ERR_IPADM_DOOR :: dockerinit_err where "ERR_IPADM_DOOR = 31"
definition ERR_PLUMB_IF :: dockerinit_err where "ERR_PLUMB_IF = 32"
definition ERR_RAISE_IF :: dockerinit_err where "ERR_RAISE_IF = 33"
definition ERR_UP_IP6 :: dockerinit_err where "ERR_UP_IP6 = 34"

definition LIFNAMSIZ :: nat where "LIFNAMSIZ = 32"
definition BUFSIZ :: nat where "BUFSIZ = 1024"

definition openIpadmHandle :: "world \<Rightarrow> ('h, unit) prog" where
  "openIpadmHandle w =
     bindp (zero_or_fatal w (Net Ipadm_open) ERR_IPADM_DOOR) (\<lambda>_ s. (Returned (), s\<lparr>pr_iph := True\<rparr>))"

definition closeIpadmHandle :: "world \<Rightarrow> ('h, unit) prog" where
  "closeIpadmHandle w s =
     (if pr_iph s then bindp (callp w (Net Ipadm_close)) (\<lambda>_. skipp) s else skipp s)"

definition plumbIf :: "world \<Rightarrow> char list \<Rightarrow> ('h, unit) prog" where
  "plumbIf w ifname =
     (let ifbuf = take (LIFNAMSIZ - 1) ifname in
      bindp (zero_or_fatal w (Net (Ipadm_create_if ifbuf AF_INET)) ERR_PLUMB_IF) (\<lambda>_.
      zero_or_fatal w (Net (Ipadm_create_if ifbuf AF_INET6)) ERR_PLUMB_IF))"

definition upIPv6Addr :: "world \<Rightarrow> char list \<Rightarrow> ('h, unit) prog" where
  "upIPv6Addr w ifname =
     bindp (callp w (Net (Socket AF_INET6))) (\<lambda>s.
     if s = -1 then failp ERR_UP_IP6
     else
       let name = take (LIFNAMSIZ - 1) ifname in
       bindp (callp w (Fd (Ioctl s (SIOCGLIFFLAGS name)))) (\<lambda>r.
       if r < 0 then failp ERR_UP_IP6
       else
         bindp (callp w (Fd (Ioctl s (SIOCSLIFFLAGS name)))) (\<lambda>r.
         if r < 0 then failp ERR_UP_IP6
         else bindp (callp w (Fd (Close s))) (\<lambda>_. skipp))))"

definition raiseIf :: "world \<Rightarrow> char list \<Rightarrow> char list \<Rightarrow> char list \<Rightarrow> ('h, int) prog" where
  "raiseIf w ifname addr netmask =
     (case w_inet_pton w netmask of
        None \<Rightarrow> retp (-1)
      | Some msk \<Rightarrow>
          let prefixlen = w_mask2plen w msk;
              cidraddr = take (BUFSIZ - 1) (addr @ ''/'' @ fmt_d prefixlen) in
          bindp (callp w (Net (Ipadm_create_addrobj ifname))) (\<lambda>status.
          if status \<noteq> 0 then retp (-2)
          else
            bindp (callp w (Net (Ipadm_set_addr cidraddr))) (\<lambda>status.
            if status \<noteq> 0 then retp (-3)
            else
              bindp (callp w (Net Ipadm_create_addr)) (\<lambda>status.
              if status \<noteq> 0 then bindp (callp w (Net Ipadm_destroy_addrobj)) (\<lambda>_. retp (-4))
              else
                bindp (upIPv6Addr w ifname) (\<lambda>_.
                bindp (callp w (Net Ipadm_destroy_addrobj)) (\<lambda>_. retp 0))))))"

section \<open>Routes\<close>

text \<open>
  The message for the routing socket. The address of the gateway is filled in, but its family stays
  0: the assignment before it sets the family of the destination a second time.
\<close>

definition route_message ::
    "int \<Rightarrow> 32 word \<Rightarrow> 32 word \<Rightarrow> 32 word \<Rightarrow> bool \<Rightarrow> rt_msg" where
  "route_message idx dst gw msk isLinkLocal = \<lparr>
     rtm_gateway_flags = (\<not> isLinkLocal),
     rtm_index = idx,
     rtm_dst = \<lparr>sin_family = Some AF_INET, sin_addr = dst\<rparr>,
     rtm_gateway = \<lparr>sin_family = None, sin_addr = gw\<rparr>,
     rtm_netmask = \<lparr>sin_family = Some AF_INET, sin_addr = msk\<rparr>\<rparr>"

definition send_route :: "world \<Rightarrow> rt_msg \<Rightarrow> ('h, int) prog" where
  "send_route w msg =
     bindp (callp w (Net (Socket PF_ROUTE))) (\<lambda>sockfd.
     if sockfd < 0 then retp (-5)
     else
       bindp (callp w (Net (Write_route sockfd msg))) (\<lambda>len.
       bindp (callp w (Fd (Close sockfd))) (\<lambda>_.
       retp (if len < 0 then -6 else if len < w_rtmbufsz w then -7 else 0))))"

definition prefixToNetmask :: "world \<Rightarrow> int \<Rightarrow> 32 word option" where
  "prefixToNetmask w pfx = w_plen2mask w pfx"

definition addRoute ::
    "world \<Rightarrow> char list option \<Rightarrow> char list \<Rightarrow> char list \<Rightarrow> int \<Rightarrow> bool \<Rightarrow> ('h, int) prog" where
  "addRoute w ifname gw dst dstpfx isLinkLocal =
     (case w_inet_pton w dst of
        None \<Rightarrow> retp (-1)
      | Some dst_addr \<Rightarrow>
          (case w_inet_pton w gw of
             None \<Rightarrow> retp (-2)
           | Some gw_addr \<Rightarrow>
               (case prefixToNetmask w dstpfx of
                  None \<Rightarrow> retp (-3)
                | Some msk \<Rightarrow>
                    (case ifname of
                       None \<Rightarrow> send_route w (route_message 0 dst_addr gw_addr msk isLinkLocal)
                     | Some name \<Rightarrow>
                         bindp (callp w (Net (If_nametoindex name))) (\<lambda>idx.
                         if idx = 0 then retp (-4)
                         else send_route w (route_message idx dst_addr gw_addr msk isLinkLocal))))))"

section \<open>Lists of the metadata\<close>

definition nv_string :: "('h, 'p) nv_ops \<Rightarrow> 'p \<Rightarrow> char list \<Rightarrow> ('h, char list option) prog" where
  "nv_string N p k s =
     (Returned (case nvlist_lookup_string N (dk_nv (pr_dk s)) p k of Inl _ \<Rightarrow> None | Inr x \<Rightarrow> Some x), s)"

definition nv_boolean :: "('h, 'p) nv_ops \<Rightarrow> 'p \<Rightarrow> char list \<Rightarrow> ('h, bool option) prog" where
  "nv_boolean N p k s =
     (Returned (case nvlist_lookup_boolean_value N (dk_nv (pr_dk s)) p k of Inl _ \<Rightarrow> None | Inr x \<Rightarrow> Some x), s)"

definition nv_nvlist :: "('h, 'p) nv_ops \<Rightarrow> 'p option \<Rightarrow> char list \<Rightarrow> ('h, 'p option) prog" where
  "nv_nvlist N nvl k s =
     (Returned (case nvl of None \<Rightarrow> None
           | Some p \<Rightarrow> (case nvlist_lookup_nvlist N (dk_nv (pr_dk s)) p k of Inl _ \<Rightarrow> None | Inr x \<Rightarrow> Some x)), s)"

definition nv_free :: "('h, 'p) nv_ops \<Rightarrow> 'p option \<Rightarrow> ('h, unit) prog" where
  "nv_free N nvl s = (Returned (), s\<lparr>pr_dk := nvl_free N nvl (pr_dk s)\<rparr>)"

text \<open>
  The loop over the pairs of a list that are lists themselves, from the pair \<open>i\<close> on. Walking ends with
  the list, whose length is not known to the walker; \<open>n\<close> bounds the number of steps.
\<close>

fun each_nvlist :: "('h, 'p) nv_ops \<Rightarrow> ('p \<Rightarrow> ('h, unit) prog) \<Rightarrow> 'p \<Rightarrow> nat \<Rightarrow> nat option \<Rightarrow> ('h, unit) prog" where
  "each_nvlist N body p 0 pair s = faultp Fault_Fuel s"
| "each_nvlist N body p (Suc n) pair s =
     (case nvlist_next_nvpair N (dk_nv (pr_dk s)) p pair of
        None \<Rightarrow> skipp s
      | Some j \<Rightarrow>
          bindp
            (if nvpair_is_nvlist N (dk_nv (pr_dk s)) p j
             then (case nvpair_value_nvlist N (dk_nv (pr_dk s)) p j of
                     Inl _ \<Rightarrow> failp ERR_PARSE_JSON
                   | Inr data \<Rightarrow> body data)
             else skipp)
            (\<lambda>_. each_nvlist N body p n (Some j)) s)"

text \<open>
  The frame of \<^verbatim>\<open>setupGateways\<close>, \<^verbatim>\<open>setupInterfaces\<close> and \<^verbatim>\<open>mountNfsVolumes\<close>: nothing without the key, a fatal
  error for a text that is not JSON. A parser that succeeds without a list leaves the pointer
  indeterminate. The result says whether there was a value.
\<close>

definition for_mdata_lists ::
    "('h, 'p) nv_ops \<Rightarrow> allocator \<Rightarrow> nat \<Rightarrow> char list \<Rightarrow> ('p \<Rightarrow> ('h, unit) prog) \<Rightarrow> ('h, unit) prog \<Rightarrow> ('h, unit) prog" where
  "for_mdata_lists N mem fuel key body after_all =
     bindp (dkp (\<lambda>d. mdataGet mem d key)) (\<lambda>json.
     case json of
       None \<Rightarrow> skipp
     | Some json \<Rightarrow>
         bindp (dkp (\<lambda>d.
             bindr (nvlist_parse_json N mem fuel (dk_nv d) (json @ [NUL]) (length json) NVJSON_FORCE_INTEGER None) (\<lambda>res.
             Inr (res, d\<lparr>dk_nv := jr_nv res\<rparr>)))) (\<lambda>res.
         if jr_errno res \<noteq> None then failp ERR_PARSE_JSON
         else
           (case jr_nvl res of
              None \<Rightarrow> faultp Fault_UB
            | Some nvl \<Rightarrow>
                bindp (each_nvlist N body nvl fuel None) (\<lambda>_.
                bindp after_all (\<lambda>_.
                nv_free N (Some nvl))))))"

section \<open>What the metadata ask for\<close>

definition setupInterface :: "('h, 'p) nv_ops \<Rightarrow> world \<Rightarrow> 'p \<Rightarrow> ('h, unit) prog" where
  "setupInterface N w data =
     bindp (nv_string N data ''interface'') (\<lambda>iface.
     case iface of
       None \<Rightarrow> skipp
     | Some iface \<Rightarrow>
         bindp (plumbIf w iface) (\<lambda>_.
         bindp (nv_string N data ''ip'') (\<lambda>ip.
         case ip of
           None \<Rightarrow> skipp
         | Some ip \<Rightarrow>
             bindp (nv_string N data ''netmask'') (\<lambda>netmask.
             case netmask of
               None \<Rightarrow> skipp
             | Some netmask \<Rightarrow>
                 bindp (raiseIf w iface ip netmask) (\<lambda>r.
                 if r \<noteq> 0 then failp ERR_RAISE_IF else skipp)))))"

definition setupGateway :: "('h, 'p) nv_ops \<Rightarrow> world \<Rightarrow> 'p \<Rightarrow> ('h, unit) prog" where
  "setupGateway N w data =
     bindp (nv_string N data ''interface'') (\<lambda>iface.
     case iface of
       None \<Rightarrow> skipp
     | Some iface \<Rightarrow>
         bindp (nv_string N data ''ip'') (\<lambda>ip.
         case ip of
           None \<Rightarrow> skipp
         | Some ip \<Rightarrow>
             bindp (nv_boolean N data ''primary'') (\<lambda>primary.
             if primary = Some True
             then bindp (nv_string N data ''gateway'') (\<lambda>gateway.
                  case gateway of
                    None \<Rightarrow> skipp
                  | Some gateway \<Rightarrow> bindp (addRoute w (Some iface) gateway ''0.0.0.0'' 0 False) (\<lambda>_. skipp))
             else skipp)))"

definition setupGateways :: "('h, 'p) nv_ops \<Rightarrow> allocator \<Rightarrow> nat \<Rightarrow> world \<Rightarrow> ('h, unit) prog" where
  "setupGateways N mem fuel w = for_mdata_lists N mem fuel ''sdc:nics'' (setupGateway N w) skipp"

definition setupInterfaces :: "('h, 'p) nv_ops \<Rightarrow> allocator \<Rightarrow> nat \<Rightarrow> world \<Rightarrow> ('h, unit) prog" where
  "setupInterfaces N mem fuel w = for_mdata_lists N mem fuel ''sdc:nics'' (setupInterface N w) skipp"

definition setupStaticRoute ::
    "('h, 'p) nv_ops \<Rightarrow> allocator \<Rightarrow> world \<Rightarrow> 'p \<Rightarrow> bool \<Rightarrow> ('h, int) prog" where
  "setupStaticRoute N mem w route linkLocalOnly =
     bindp (nv_boolean N route ''linklocal'') (\<lambda>linklocal.
     if linklocal = Some True \<and> \<not> linkLocalOnly then retp (-1)
     else
       let isLinkLocal = (linklocal = Some True) in
       bindp (nv_string N route ''dst'') (\<lambda>dst.
       case dst of
         None \<Rightarrow> retp (-1)
       | Some dst \<Rightarrow>
           bindp (nv_string N route ''gateway'') (\<lambda>gateway.
           case gateway of
             None \<Rightarrow> retp (-1)
           | Some gateway \<Rightarrow>
               (case strdup mem dst of
                  None \<Rightarrow> retp (-1)
                | Some dstraw \<Rightarrow>
                    (case dropWhile (\<lambda>c. c \<noteq> SLASH) dstraw of
                       [] \<Rightarrow> retp (-1)
                     | _ # pfx \<Rightarrow>
                         let dstpfx = atoi pfx in
                         if dstpfx < 0 \<or> 32 < dstpfx then retp (-1)
                         else addRoute w None gateway (takeWhile (\<lambda>c. c \<noteq> SLASH) dstraw) dstpfx isLinkLocal)))))"

fun each_route ::
    "('h, 'p) nv_ops \<Rightarrow> allocator \<Rightarrow> world \<Rightarrow> 'p option \<Rightarrow> bool \<Rightarrow> nat \<Rightarrow> nat \<Rightarrow> ('h, unit) prog" where
  "each_route N mem w routes linkLocalOnly 0 i s = skipp s"
| "each_route N mem w routes linkLocalOnly (Suc n) i s =
     bindp (nv_nvlist N routes (fmt_u i)) (\<lambda>route.
     bindp (case route of
              None \<Rightarrow> skipp
            | Some route \<Rightarrow> bindp (setupStaticRoute N mem w route linkLocalOnly) (\<lambda>_. skipp)) (\<lambda>_.
     each_route N mem w routes linkLocalOnly n (i + 1))) s"

definition setupStaticRoutes ::
    "('h, 'p) nv_ops \<Rightarrow> allocator \<Rightarrow> nat \<Rightarrow> world \<Rightarrow> bool \<Rightarrow> ('h, unit) prog" where
  "setupStaticRoutes N mem fuel w linkLocalOnly =
     bindp (dkp (\<lambda>d. bindr (getMdataArray N mem fuel d ''sdc:routes'' True) (\<lambda>(nvl, len, d). Inr ((nvl, len), d))))
       (\<lambda>(routes, nroutes).
     bindp (each_route N mem w routes linkLocalOnly (unat (the nroutes)) 0) (\<lambda>_.
     nv_free N routes))"

definition setupNetworking :: "('h, 'p) nv_ops \<Rightarrow> allocator \<Rightarrow> nat \<Rightarrow> world \<Rightarrow> ('h, unit) prog" where
  "setupNetworking N mem fuel w =
     bindp (openIpadmHandle w) (\<lambda>_.
     bindp (plumbIf w ''lo0'') (\<lambda>_.
     bindp (raiseIf w ''lo0'' ''127.0.0.1'' ''255.0.0.0'') (\<lambda>_.
     bindp (setupInterfaces N mem fuel w) (\<lambda>_.
     bindp (setupStaticRoutes N mem fuel w True) (\<lambda>_.
     bindp (setupGateways N mem fuel w) (\<lambda>_.
     bindp (setupStaticRoutes N mem fuel w False) (\<lambda>_.
     closeIpadmHandle w)))))))"

section \<open>The network leaves the process what it is\<close>

lemma nv_tame [tame_intros]:
  "tame w b (nv_string N p k)" "tame w b (nv_boolean N p k)" "tame w b (nv_nvlist N nvl k)" "tame w b (nv_free N nvl)"
  by (auto simp: tame_def nv_string_def nv_boolean_def nv_nvlist_def nv_free_def)

lemma interface_tame [tame_intros]:
  "tame w b (plumbIf w i)" "tame w b (upIPv6Addr w i)" "tame w b (raiseIf w i a n)" "tame w b (openIpadmHandle w)" "tame w b (closeIpadmHandle w)"
proof -
  show up: "tame w b (upIPv6Addr w i)" unfolding upIPv6Addr_def Let_def by (auto intro!: tame_intros)
  show "tame w b (plumbIf w i)" unfolding plumbIf_def Let_def by (auto intro!: tame_intros)
  show "tame w b (raiseIf w i a n)" unfolding raiseIf_def Let_def by (auto intro!: tame_intros up split: option.split)
  show "tame w b (openIpadmHandle w)" unfolding openIpadmHandle_def 
    by (rule tame_bindp, rule tame_intros) (auto simp: tame_def)
  have "tame w b (bindp (callp w (Net Ipadm_close)) (\<lambda>_. skipp))" by (auto intro!: tame_intros)
  then show "tame w b (closeIpadmHandle w)" by (auto simp: tame_def closeIpadmHandle_def skipp_def retp_def)
qed

lemma route_tame [tame_intros]: "tame w b (addRoute w i g d pf l)" "tame w b (setupStaticRoute N mem w p l)"
proof -
  have send: "tame w b (send_route w m)" for m unfolding send_route_def by (auto intro!: tame_intros)
  show add: "tame w b (addRoute w i g d pf l)" for i g d pf l
    unfolding addRoute_def by (auto intro!: tame_intros send split: option.split)
  show "tame w b (setupStaticRoute N mem w p l)"
    unfolding setupStaticRoute_def Let_def by (auto intro!: tame_intros add split: option.split list.split)
qed

lemma each_nvlist_tame: "(\<And>q. tame w b (body q)) \<Longrightarrow> tame w b (each_nvlist N body p n i)"
proof (induction n arbitrary: i)
  case 0
  then show ?case using tame_basic(4) [of w b Fault_Fuel] by (simp add: tame_def)
next
  case (Suc n)
  show ?case
  proof (rule tame_pointwise)
    fix s :: "'b process"
    show "\<exists>m'. tame w b m' \<and> each_nvlist N body p (Suc n) i s = m' s"
    proof (cases "nvlist_next_nvpair N (dk_nv (pr_dk s)) p i")
      case None
      then show ?thesis using tame_basic(9) [of w b] by (intro exI [of _ skipp]) simp
    next
      case (Some j)
      let ?one = "if nvpair_is_nvlist N (dk_nv (pr_dk s)) p j
        then (case nvpair_value_nvlist N (dk_nv (pr_dk s)) p j of Inl _ \<Rightarrow> failp ERR_PARSE_JSON | Inr data \<Rightarrow> body data) else skipp"
      have "tame w b ?one" using Suc.prems by (auto intro!: tame_intros split: sum.split)
      then have "tame w b (bindp ?one (\<lambda>_. each_nvlist N body p n (Some j)))"
        by (rule tame_bindp) (rule Suc.IH [OF Suc.prems])
      then show ?thesis using Some by (intro exI conjI) (assumption, simp)
    qed
  qed
qed

lemma mdataGet_tame [tame_intros]: "tame w b (dkp (\<lambda>d. mdataGet mem d k))"
  by (rule tame_dkp) (rule mdataGet_same_user)

lemma for_mdata_lists_tame:
  "(\<And>q. tame w b (body q)) \<Longrightarrow> tame w b m \<Longrightarrow> tame w b (for_mdata_lists N mem fuel key body m)"
  unfolding for_mdata_lists_def
  by (auto intro!: tame_intros each_nvlist_tame simp: bindr_eq_Inr_iff same_user_def split: option.split)

lemma setup_nic_tame: "tame w b (setupInterface N w p)" "tame w b (setupGateway N w p)"
  unfolding setupInterface_def setupGateway_def by (auto intro!: tame_intros split: option.split)

lemma each_route_tame: "tame w b (each_route N mem w r l n i)"
proof (induction n arbitrary: i)
  case 0
  then show ?case using tame_basic(9) [of w b] by (simp add: tame_def)
next
  case (Suc n)
  have "tame w b (bindp (nv_nvlist N r (fmt_u i)) (\<lambda>route.
     bindp (case route of None \<Rightarrow> skipp | Some route \<Rightarrow> bindp (setupStaticRoute N mem w route l) (\<lambda>_. skipp)) (\<lambda>_.
     each_route N mem w r l n (i + 1))))"
    using Suc by (auto intro!: tame_intros split: option.split)
  then show ?case by (simp add: tame_def)
qed

lemma setupNetworking_tame [tame_intros]: "tame w b (setupNetworking N mem fuel w)"
proof -
  have routes: "tame w b (setupStaticRoutes N mem fuel w l)" for l
    unfolding setupStaticRoutes_def
    by (auto intro!: tame_intros each_route_tame simp: bindr_eq_Inr_iff dest!: getMdataArray_same_user split: prod.split)
  show ?thesis
    unfolding setupNetworking_def setupInterfaces_def setupGateways_def
    by (auto intro!: tame_intros routes for_mdata_lists_tame setup_nic_tame)
qed

section \<open>The static routes that are sent\<close>

definition routes_written :: "call list \<Rightarrow> rt_msg list" where
  "routes_written cs = List.map_filter (\<lambda>c. case c of Net (Write_route _ m) \<Rightarrow> Some m | _ \<Rightarrow> None) cs"

lemma routes_written_append [simp]: "routes_written (cs @ ds) = routes_written cs @ routes_written ds"
  by (simp add: routes_written_def List.map_filter_def)

lemma routes_written_simps [simp]: "routes_written [] = []" "routes_written (Net (Write_route fd m) # cs) = m # routes_written cs"
  "routes_written (Net (Socket f) # cs) = routes_written cs" "routes_written (Fd c # cs) = routes_written cs"
  by (simp_all add: routes_written_def List.map_filter_simps)

text \<open>
  What one entry of \<open>sdc:routes\<close> asks for in a pass: the message for its destination, prefix length and
  gateway, if they are there and good; link-local ones only in the first pass, without the flags of a
  gateway route.
\<close>

definition static_route :: "world \<Rightarrow> bool \<Rightarrow> nvpairs \<Rightarrow> rt_msg option" where
  "static_route w first_pass ps =
     (let ll = (map_of ps ''linklocal'' = Some (NV_boolean_value True)) in
      if ll \<and> \<not> first_pass then None
      else (case (map_of ps ''dst'', map_of ps ''gateway'') of
        (Some (NV_string dst), Some (NV_string gw)) \<Rightarrow>
          let net = takeWhile (\<lambda>c. c \<noteq> SLASH) dst; rest = dropWhile (\<lambda>c. c \<noteq> SLASH) dst; pfx = atoi (tl rest) in
          if rest = [] \<or> pfx < 0 \<or> 32 < pfx then None
          else (case (w_inet_pton w net, w_inet_pton w gw, w_plen2mask w pfx) of
            (Some a, Some g, Some m) \<Rightarrow> Some (route_message 0 a g m ll)
          | _ \<Rightarrow> None)
      | _ \<Rightarrow> None))"

definition route_of :: "world \<Rightarrow> bool \<Rightarrow> json \<Rightarrow> rt_msg option" where
  "route_of w first_pass v = (case nv_of v of NV_nvlist ps \<Rightarrow> static_route w first_pass ps | _ \<Rightarrow> None)"

text \<open>The routing socket can be opened.\<close>

definition route_socket :: "world \<Rightarrow> bool" where
  "route_socket w \<longleftrightarrow> (\<forall>cs. 0 \<le> w_ret w cs (Net (Socket PF_ROUTE)))"

abbreviation sends :: "('h, 'a) prog \<Rightarrow> 'h process \<Rightarrow> rt_msg list \<Rightarrow> bool" where
  "sends m s ms \<equiv> \<exists>r s'. m s = (Returned r, s') \<and> pr_dk s' = pr_dk s \<and>
     routes_written (pr_calls s') = routes_written (pr_calls s) @ ms"

lemma send_route_sends: "route_socket w \<Longrightarrow> sends (send_route w m) s [m]"
  unfolding route_socket_def send_route_def bindp_callp
  by (simp add: not_less [symmetric] bindp_callp retp_def)

lemma addRoute_sends:
  "route_socket w \<Longrightarrow> sends (addRoute w None gw dst pfx ll) s
     (case (w_inet_pton w dst, w_inet_pton w gw, w_plen2mask w pfx) of
        (Some a, Some g, Some m) \<Rightarrow> [route_message 0 a g m ll] | _ \<Rightarrow> [])"
  using send_route_sends
  by (auto simp: addRoute_def prefixToNetmask_def retp_def split: option.split)

context nvpair_reader
begin

lemma nv_string_reads:
  "views at tree (dk_nv (pr_dk s)) p ps \<Longrightarrow>
   nv_string N p k s = (Returned (case map_of ps k of Some (NV_string x) \<Rightarrow> Some x | _ \<Rightarrow> None), s)"
  using string_value [of "dk_nv (pr_dk s)" p ps k] by (auto simp: nv_string_def split: option.splits nvval.splits)

lemma nv_boolean_reads:
  "views at tree (dk_nv (pr_dk s)) p ps \<Longrightarrow>
   nv_boolean N p k s = (Returned (case map_of ps k of Some (NV_boolean_value x) \<Rightarrow> Some x | _ \<Rightarrow> None), s)"
  using boolean_value [of "dk_nv (pr_dk s)" p ps k] by (auto simp: nv_boolean_def split: option.splits nvval.splits)

lemma setupStaticRoute_sends:
  assumes "good_alloc mem" "route_socket w" "views at tree (dk_nv (pr_dk s)) p ps"
  shows "sends (setupStaticRoute N mem w p first_pass) s (case static_route w first_pass ps of None \<Rightarrow> [] | Some m \<Rightarrow> [m])"
proof -
  note read = nv_boolean_reads [OF assms(3)] nv_string_reads [OF assms(3)]
  let ?ll = "map_of ps ''linklocal'' = Some (NV_boolean_value True)"
  have ll: "(case map_of ps ''linklocal'' of Some (NV_boolean_value x) \<Rightarrow> Some x | _ \<Rightarrow> None) = Some True \<longleftrightarrow> ?ll"
    by (auto split: option.splits nvval.splits)
  show ?thesis
  proof (cases "(\<not> ?ll \<or> first_pass) \<and> (\<exists>dst gw. map_of ps ''dst'' = Some (NV_string dst) \<and> map_of ps ''gateway'' = Some (NV_string gw) \<and>
      dropWhile (\<lambda>c. c \<noteq> SLASH) dst \<noteq> [])")
    case True
    then obtain dst gw where "\<not> ?ll \<or> first_pass" "map_of ps ''dst'' = Some (NV_string dst)" "map_of ps ''gateway'' = Some (NV_string gw)"
      "dropWhile (\<lambda>c. c \<noteq> SLASH) dst \<noteq> []" by blast
    then obtain c pfx where d: "\<not> ?ll \<or> first_pass" "map_of ps ''dst'' = Some (NV_string dst)" "map_of ps ''gateway'' = Some (NV_string gw)"
      "dropWhile (\<lambda>c. c \<noteq> SLASH) dst = c # pfx" unfolding neq_Nil_conv by blast
    have run: "setupStaticRoute N mem w p first_pass s = (if atoi pfx < 0 \<or> 32 < atoi pfx then retp (-1) s
        else addRoute w None gw (takeWhile (\<lambda>c. c \<noteq> SLASH) dst) (atoi pfx) ?ll s)"
      unfolding setupStaticRoute_def bindp_def read prod.case ending.case ll
      using d strdup_good [OF assms(1)] by (auto simp: Let_def read bindp_def)
    show ?thesis
      unfolding run using d addRoute_sends [OF assms(2), of gw "takeWhile (\<lambda>c. c \<noteq> SLASH) dst" "atoi pfx" ?ll s]
      by (auto simp: static_route_def Let_def retp_def split: option.splits)
  next
    case False
    then have "static_route w first_pass ps = None"
      by (auto simp: static_route_def Let_def split: option.splits nvval.splits)
    moreover have "setupStaticRoute N mem w p first_pass s = (Returned (-1), s)"
      unfolding setupStaticRoute_def bindp_def read prod.case ending.case ll
      using False strdup_good [OF assms(1)] by (auto simp: Let_def read bindp_def retp_def simp del: dropWhile_eq_Nil_conv split: option.splits nvval.splits list.splits)
    ultimately show ?thesis by simp
  qed
qed

lemma each_route_sends:
  assumes "good_alloc mem" "route_socket w" "views at tree h p ps"
    and "\<And>j. j < length vs \<Longrightarrow> map_of ps (fmt_u j) = Some (nv_of (vs ! j))"
  shows "dk_nv (pr_dk s) = h \<Longrightarrow> i + n = length vs \<Longrightarrow>
    sends (each_route N mem w (Some p) first_pass n i) s (List.map_filter (route_of w first_pass) (drop i vs))"
proof (induction n arbitrary: i s)
  case 0
  then show ?case by (simp add: skipp_def retp_def List.map_filter_simps)
next
  case (Suc n)
  then have i: "i < length vs" by simp
  have d: "drop i vs = vs ! i # drop (Suc i) vs" using i by (rule Cons_nth_drop_Suc [symmetric])
  let ?ms = "case route_of w first_pass (vs ! i) of None \<Rightarrow> [] | Some m \<Rightarrow> [m]"
  have look: "case nv_of (vs ! i) of NV_nvlist qs \<Rightarrow> \<exists>q. nv_nvlist N (Some p) (fmt_u i) s = (Returned (Some q), s) \<and> views at tree h q qs
      | _ \<Rightarrow> nv_nvlist N (Some p) (fmt_u i) s = (Returned None, s)"
    using nvlist_value [OF assms(3), of "fmt_u i"] assms(4) [OF i] Suc.prems(1) by (auto simp: nv_nvlist_def split: nvval.splits)
  have "\<exists>s1. bindp (nv_nvlist N (Some p) (fmt_u i)) (\<lambda>route. case route of None \<Rightarrow> skipp
        | Some route \<Rightarrow> bindp (setupStaticRoute N mem w route first_pass) (\<lambda>_. skipp)) s = (Returned (), s1) \<and>
      pr_dk s1 = pr_dk s \<and> routes_written (pr_calls s1) = routes_written (pr_calls s) @ ?ms"
  proof (cases "\<exists>qs. nv_of (vs ! i) = NV_nvlist qs")
    case True
    then obtain qs q where q: "nv_of (vs ! i) = NV_nvlist qs" "nv_nvlist N (Some p) (fmt_u i) s = (Returned (Some q), s)" "views at tree h q qs"
      using look by auto
    obtain r s1 where "setupStaticRoute N mem w q first_pass s = (Returned r, s1)" "pr_dk s1 = pr_dk s"
      "routes_written (pr_calls s1) = routes_written (pr_calls s) @ (case static_route w first_pass qs of None \<Rightarrow> [] | Some m \<Rightarrow> [m])"
      using setupStaticRoute_sends [OF assms(1,2), of s q qs first_pass] q(3) Suc.prems(1) by auto
    then show ?thesis using q by (simp add: bindp_def skipp_def retp_def route_of_def)
  next
    case False
    then have "nv_nvlist N (Some p) (fmt_u i) s = (Returned None, s)" "route_of w first_pass (vs ! i) = None"
      using look by (auto simp: route_of_def split: nvval.splits)
    then show ?thesis by (simp add: bindp_def skipp_def retp_def)
  qed
  then obtain s1 where s1: "bindp (nv_nvlist N (Some p) (fmt_u i)) (\<lambda>route. case route of None \<Rightarrow> skipp
        | Some route \<Rightarrow> bindp (setupStaticRoute N mem w route first_pass) (\<lambda>_. skipp)) s = (Returned (), s1)"
    "pr_dk s1 = pr_dk s" "routes_written (pr_calls s1) = routes_written (pr_calls s) @ ?ms" by blast
  have "each_route N mem w (Some p) first_pass (Suc n) i s = each_route N mem w (Some p) first_pass n (Suc i) s1"
    using s1(1) by (auto simp: bindp_def split: prod.splits ending.splits)
  then show ?case
    using Suc.IH [of s1 "Suc i"] s1(2,3) Suc.prems unfolding d
    by (auto simp: List.map_filter_simps split: option.splits)
qed

end

section \<open>Properties\<close>


definition routes_world :: world where
  "routes_world = \<lparr>w_ret = (\<lambda>_ _. 3), w_errno = (\<lambda>_ _. ENOENT), w_val = (\<lambda>_ _. 0), w_names = (\<lambda>_. []),
     w_status = (\<lambda>_. Exited 0), w_inet_pton = (\<lambda>a. if a = ''10.0.0.0'' then Some 10 else if a = ''10.0.0.1'' then Some 11 else None),
     w_mask2plen = (\<lambda>_. 0), w_plen2mask = (\<lambda>n. if n = 8 then Some 255 else None), w_nroot = None, w_rtmbufsz = 0,
     w_ns = \<lparr>getpwnam = (\<lambda>_. None), getpwuid = (\<lambda>_. None), getgrnam = (\<lambda>_. None), getgrgid = (\<lambda>_. None)\<rparr>,
     w_mkdirp = (\<lambda>_. True), w_chdir = (\<lambda>_. True), w_stat = (\<lambda>_. None)\<rparr>"

definition routes_text :: "char list" where
  "routes_text = ''[{'' @ QUOTE # ''dst'' @ QUOTE # '':'' @ QUOTE # ''10.0.0.0/8'' @ QUOTE # '','' @ QUOTE # ''gateway'' @ QUOTE # '':'' @ QUOTE # ''10.0.0.1'' @ QUOTE # ''}]''"

abbreviation routes_json :: "json list" where
  "routes_json \<equiv> [J_obj [(''dst'', J_str ''10.0.0.0/8''), (''gateway'', J_str ''10.0.0.1'')]]"

lemma routes_text_array: "json_array routes_text routes_json"
proof -
  have js: "plain x \<Longrightarrow> jstring x x" for x by (rule plain_jstring)
  have str: "jvalue (J_str ''10.0.0.0/8'') (QUOTE # ''10.0.0.0/8'' @ [QUOTE])" "jvalue (J_str ''10.0.0.1'') (QUOTE # ''10.0.0.1'' @ [QUOTE])"
    by (intro val_str js; simp add: plain_def)+
  have b: "blank []" by (simp add: blank_def)
  have k: "jstring ''dst'' ''dst''" "jstring ''gateway'' ''gateway''" by (intro js; simp add: plain_def)+
  note obj = val_obj [OF b mem_more [OF k(1) b b str(1) b b mem_last [OF k(2) b b str(2) b]]]
  have "jvalue (J_arr routes_json) routes_text"
    using val_arr [OF b elem_last [OF obj b]] by (simp add: routes_text_def)
  then show ?thesis unfolding json_array_def using b by (intro exI [of _ "[]"] exI [of _ routes_text]) simp
qed


end
