(* ===== verification/Docker_Exec.thy ===== *)
theory Docker_Exec
  imports Docker_Process
begin

text \<open>
  The helper of \<^verbatim>\<open>docker exec\<close>, \<^verbatim>\<open>src/src/dockerinit/src/dockerexec.c\<close>: it finds the user, sets up the
  working directory and the environment, gives up its privileges and becomes the command. It never returns.
\<close>

section \<open>The program\<close>

definition dockerexec ::
    "('h, 'p) nv_ops \<Rightarrow> allocator \<Rightarrow> nat \<Rightarrow> world \<Rightarrow> char list list \<Rightarrow> ('h, unit) prog" where
  "dockerexec N mem fuel w argv =
     (if length argv < 2 then failp ERR_NO_COMMAND
      else (case strlist_alloc mem 0 of
        (Ret_ok, Some env) \<Rightarrow>
          bindp (dkp (\<lambda>d. bindr (getUserGroupData mem (w_ns w) d) (\<lambda>d. Inr ((), d)))) (\<lambda>_.
          bindp (dkp (setupWorkdir mem (w_mkdirp w) (w_chdir w))) (\<lambda>workdir.
          bindp (dkp (\<lambda>d. buildCmdEnv N mem fuel d env)) (\<lambda>env.
          bindp (callp w (Fd (Close 4))) (\<lambda>_.
          bindp (callp w (Fd (Close 5))) (\<lambda>_.
          bindp (callp w (Fd (Close 6))) (\<lambda>_.
          bindp (drop_privs w) (\<lambda>_.
          bindp (purep (bindr (custr_cstr workdir) (execName mem (w_stat w) (argv ! 1) env))) (\<lambda>execname.
          bindp (purep (custr_cstr execname)) (\<lambda>name.
          execp w (Execve name (map Some (tl argv) @ [None]) (Some (strlist_array env))) (failp ERR_EXEC_FAILED))))))))))
      | _ \<Rightarrow> failp ERR_NO_MEMORY))"

section \<open>Properties\<close>

abbreviation close_mdata :: "call list" where
  "close_mdata \<equiv> [Fd (Close 4), Fd (Close 5), Fd (Close 6)]"

text \<open>The program behind its preparations.\<close>

definition exec_rest :: "allocator \<Rightarrow> world \<Rightarrow> char list list \<Rightarrow> custr \<Rightarrow> strlist \<Rightarrow> ('h, unit) prog" where
  "exec_rest mem w argv workdir env =
     bindp (callp w (Fd (Close 4))) (\<lambda>_.
     bindp (callp w (Fd (Close 5))) (\<lambda>_.
     bindp (callp w (Fd (Close 6))) (\<lambda>_.
     bindp (drop_privs w) (\<lambda>_.
     bindp (purep (bindr (custr_cstr workdir) (execName mem (w_stat w) (argv ! 1) env))) (\<lambda>execname.
     bindp (purep (custr_cstr execname)) (\<lambda>name.
     execp w (Execve name (map Some (tl argv) @ [None]) (Some (strlist_array env))) (failp ERR_EXEC_FAILED)))))))"

lemma exec_rest_calls:
  assumes "exec_rest mem w argv workdir env s = (r, s')" "pr_calls s' = pr_calls s @ cs" "Execve f a e \<in> set cs"
  shows "cs = close_mdata @ privs_calls (pr_dk s) @ [Execve f a e] \<and>
    granted w (pr_calls s @ close_mdata) (privs_calls (pr_dk s)) \<and> a = map Some (tl argv) @ [None]"
proof -
  let ?s = "s\<lparr>pr_calls := pr_calls s @ close_mdata\<rparr>"
  obtain q s1 where dp: "drop_privs w ?s = (q, s1)" by (cases "drop_privs w ?s")
  note dr = drop_privs_run [OF dp]
  then obtain ds where ds: "pr_calls s1 = pr_calls s @ close_mdata @ ds" "set ds \<subseteq> set (privs_calls (pr_dk s))"
    "q = Returned () \<longrightarrow> ds = privs_calls (pr_dk s) \<and> granted w (pr_calls s @ close_mdata) ds" by auto
  have no: "Execve f a e \<notin> set ds" using ds(2) by (auto simp: privs_calls_def split: option.splits)
  have run: "(case q of Ended x \<Rightarrow> (Ended x, s1) | Replaced \<Rightarrow> (Replaced, s1) | Returned _ \<Rightarrow> bindp (purep (bindr (custr_cstr workdir) (execName mem (w_stat w) (argv ! 1) env)))
      (\<lambda>execname. bindp (purep (custr_cstr execname)) (\<lambda>name.
       execp w (Execve name (map Some (tl argv) @ [None]) (Some (strlist_array env))) (failp ERR_EXEC_FAILED))) s1) = (r, s')"
    using assms(1) unfolding exec_rest_def bindp_callp
    by (subst (asm) bindp_def) (simp add: dp)
  show ?thesis
  proof (cases q)
    case (Returned u)
    then show ?thesis
      using run assms(2,3) ds no by (auto simp: execp_def bindp_def prog_defs ending_of_def split: sum.splits if_splits)
  qed (use run assms(2,3) ds(1) no in auto)
qed

lemma exec_rest_execs:
  assumes "custr_cstr workdir = Inr dir" "execName mem (w_stat w) (argv ! 1) env dir = Inr cu" "custr_cstr cu = Inr name"
    and "granted w (pr_calls s @ close_mdata) (privs_calls (pr_dk s))"
    and "\<forall>cs e. w_ret w cs (Execve name e (Some (strlist_array env))) \<noteq> -1"
  shows "exec_rest mem w argv workdir env s =
    (Replaced, s\<lparr>pr_calls := pr_calls s @ close_mdata @ privs_calls (pr_dk s) @
       [Execve name (map Some (tl argv) @ [None]) (Some (strlist_array env))]\<rparr>)"
proof -
  let ?s = "s\<lparr>pr_calls := pr_calls s @ close_mdata\<rparr>"
  have "drop_privs w ?s = (Returned (), s\<lparr>pr_calls := pr_calls s @ close_mdata @ privs_calls (pr_dk s)\<rparr>)"
    by (rule drop_privs_granted) (use assms(4) in simp_all)
  then show ?thesis
    unfolding exec_rest_def bindp_callp
    using assms(1-3,5) by (subst bindp_def) (simp add: execp_def bindp_def prog_defs)
qed

text \<open>A run in which everything succeeds.\<close>

lemma dockerexec_execs:
  assumes "nvpair_library N at tree" "good_alloc mem" "argv = a0 # cmd # args"
    and "getUserGroupData mem (w_ns w) (pr_dk s) = Inr d1"
    and "mdataGet mem d1 ''docker:workdir'' = Inr (md, d2)" "\<forall>t. md = Some t \<longrightarrow> nul_free t"
      "\<forall>p. dk_pwd d1 = Some p \<longrightarrow> nul_free (pw_dir p)"
      "w_mkdirp w (workdir_path (dk_pwd d1) md)" "w_chdir w (workdir_path (dk_pwd d1) md)"
    and "answers mem d2 [(''docker:linkEnv'', md1, link), (''docker:env'', md2, own)] d3"
      "3 * md_size md1 + 5 \<le> fuel" "3 * md_size md2 + 5 \<le> fuel"
      "\<forall>(k, v) \<in> set (default_env d2). nul_free v" "length link + length own + 38 \<le> 2 ^ 32"
    and "SLASH \<in> set cmd" "nul_free cmd" "w_stat w cmd = Some st" "\<not> st_isdir st" "st_ixusr st"
    and "es = fold env_add (link @ own) (default_entries d2)" "\<forall>e \<in> set es. nul_free e" "length es < 2 ^ 32"
      "length (env_path es) + 35 < 2 ^ 32"
    and "granted w (pr_calls s @ close_mdata) (privs_calls d1)" "\<forall>cs f a e. w_ret w cs (Execve f a e) \<noteq> -1"
  shows "\<exists>s' env. dockerexec N mem fuel w argv s = (Replaced, s') \<and> strlist_holds env es \<and>
    pr_calls s' = pr_calls s @ close_mdata @ privs_calls d1 @
      [Execve (path_join [] cmd) (map Some (cmd # args) @ [None]) (Some (strlist_array env))]"
proof -
  obtain env0 where env0: "strlist_alloc mem 0 = (Ret_ok, Some env0)" "strlist_holds env0 []"
    using strlist_alloc_ok [OF assms(2), of 0] by (auto simp: strlist_holds_def)
  obtain wd where wd: "custr_dyn wd (workdir_path (dk_pwd d1) md)" "nul_free (workdir_path (dk_pwd d1) md)"
    "setupWorkdir mem (w_mkdirp w) (w_chdir w) d1 = Inr (wd, d2)"
    using setupWorkdir_runs [OF assms(2,5-7) refl, of "w_mkdirp w" "w_chdir w"] assms(8,9) by auto
  obtain env h where env: "buildCmdEnv N mem fuel d2 env0 = Inr (env, d3\<lparr>dk_nv := h\<rparr>)" "strlist_holds env es"
    using buildCmdEnv_builds [OF assms(1,2) env0(2) assms(10-14)] assms(20) by blast
  obtain c0 where c0: "execName mem (w_stat w) cmd env (workdir_path (dk_pwd d1) md) =
      bindr (custr_reset c0) (\<lambda>cu. or_fatal ERR_NO_MEMORY (strpath_append mem cu cmd))" "custr_dyn c0 []"
    using execName_start [OF assms(2) env(2) assms(22,21) wd(2) assms(23), of cmd "w_stat w"] assms(15,17-19) by auto
  obtain cu where cu: "execName mem (w_stat w) cmd env (workdir_path (dk_pwd d1) md) = Inr cu" "custr_cstr cu = Inr (path_join [] cmd)"
    using command_path [OF assms(2) c0(2) assms(16)] c0(1) by auto
  let ?s = "s\<lparr>pr_dk := d3\<lparr>dk_nv := h\<rparr>\<rparr>"
  have "privs_calls (d3\<lparr>dk_nv := h\<rparr>) = privs_calls d1"
    using setupWorkdir_same_user [OF wd(3)] buildCmdEnv_same_user [OF env(1)]
    by (blast intro: privs_calls_same_user same_user_trans)
  then have "exec_rest mem w argv wd env ?s = (Replaced, ?s\<lparr>pr_calls := pr_calls s @ close_mdata @ privs_calls d1 @
       [Execve (path_join [] cmd) (map Some (tl argv) @ [None]) (Some (strlist_array env))]\<rparr>)"
    using exec_rest_execs [of wd _ mem w argv env cu _ ?s, OF custr_dyn_reads [OF wd(1,2), THEN conjunct1] _ cu(2)] cu(1) assms(3,24,25)
    by simp
  moreover have "dockerexec N mem fuel w argv s = exec_rest mem w argv wd env ?s"
    using assms(3,4) env0(1) wd(3) env(1) by (simp add: dockerexec_def exec_rest_def bindp_def dkp_def)
  ultimately show ?thesis using env(2) assms(3) by auto
qed


text \<open>A zone in which all goes well: user 7 with its group, four keys and a file \<^verbatim>\<open>/bin/ls\<close>.\<close>

definition world_sample :: world where
  "world_sample = \<lparr>w_ret = (\<lambda>_ _. 0), w_errno = (\<lambda>_ _. ENOENT), w_val = (\<lambda>_ _. 0), w_names = (\<lambda>_. []),
     w_status = (\<lambda>_. Exited 0), w_inet_pton = (\<lambda>_. None), w_mask2plen = (\<lambda>_. 0), w_plen2mask = (\<lambda>_. None), w_nroot = None, w_rtmbufsz = 0,
     w_ns = \<lparr>getpwnam = (\<lambda>_. None), getpwuid = (\<lambda>u. if u = 7 then Some \<lparr>pw_name = ''lp'', pw_uid = 7, pw_gid = 8, pw_dir = ''/''\<rparr> else None),
       getgrnam = (\<lambda>_. None), getgrgid = (\<lambda>g. if g = 8 then Some \<lparr>gr_name = ''lp'', gr_gid = 8\<rparr> else None)\<rparr>,
     w_mkdirp = (\<lambda>_. True), w_chdir = (\<lambda>_. True),
     w_stat = (\<lambda>n. if n = ''/bin/ls'' then Some \<lparr>st_isdir = False, st_ixusr = True\<rparr> else None)\<rparr>"

definition process_sample :: "tree_heap process" where
  "process_sample = \<lparr>pr_dk = docker_sample [16, 19, 19, 15]
       (one_line ''7'' @ one_line ''/'' @ one_line (quoted ''A=1'') @ one_line (quoted ''B=2'')), pr_iph = False, pr_log_fd = -1, pr_calls = []\<rparr>"

lemma process_sample_user:
  "\<exists>d. getUserGroupData heap_base (w_ns world_sample) (pr_dk process_sample) = Inr d \<and>
    dk_pwd d = Some \<lparr>pw_name = ''lp'', pw_uid = 7, pw_gid = 8, pw_dir = ''/''\<rparr> \<and> dk_grp d = Some \<lparr>gr_name = ''lp'', gr_gid = 8\<rparr> \<and>
    dk_hostname d = Some ''box'' \<and> v1_ready d [19, 19, 15] (one_line ''/'' @ one_line (quoted ''A=1'') @ one_line (quoted ''B=2''))"
proof -
  let ?d = "pr_dk process_sample" and ?ns = "w_ns world_sample"
  have "v1_ready ?d (int (length ''docker:user'' + 5) # [19, 19, 15])
      (one_line ''7'' @ one_line ''/'' @ one_line (quoted ''A=1'') @ one_line (quoted ''B=2''))"
    using docker_sample_ready by (simp add: process_sample_def)
  then obtain m where get: "mdataGet heap_base ?d ''docker:user'' = Inr (Some ''7'', ?d\<lparr>dk_mdp := Some m\<rparr>)"
    "v1_ready (?d\<lparr>dk_mdp := Some m\<rparr>) [19, 19, 15] (one_line ''/'' @ one_line (quoted ''A=1'') @ one_line (quoted ''B=2''))"
    using mdataGet_one_line [of ?d "''docker:user''" "[19, 19, 15]" "''7''"] by (auto simp: arg_ok_def sayable_def v1_line_ok_def)
  have seven: "eval_base 10 ''7'' = 7" by code_simp
  have u: "looked_up (getpwnam ?ns) (getpwuid ?ns) ERR_UID_NAN ''7'' = Inr (Some \<lparr>pw_name = ''lp'', pw_uid = 7, pw_gid = 8, pw_dir = ''/''\<rparr>)"
    using looked_up_number [of "''7''" "getpwnam ?ns" "getpwuid ?ns" ERR_UID_NAN] by (simp add: seven isdigit_def world_sample_def)
  have g: "getgrgid ?ns 8 = Some \<lparr>gr_name = ''lp'', gr_gid = 8\<rparr>" by (simp add: world_sample_def)
  have dk: "dk_grp ?d = None" "dk_hostname ?d = Some ''box''" by (simp_all add: process_sample_def docker_sample_def)
  have "getUserGroupData heap_base ?ns ?d = Inr (?d\<lparr>dk_mdp := Some m, dk_pwd := Some \<lparr>pw_name = ''lp'', pw_uid = 7, pw_gid = 8, pw_dir = ''/''\<rparr>,
      dk_grp := Some \<lparr>gr_name = ''lp'', gr_gid = 8\<rparr>\<rparr>)"
    using getUserGroupData_runs [OF good_heap_base dk(1) _ _ get(1), of "''7''" None ?ns] u g by simp
  then show ?thesis
    using get(2) dk(2) by (intro exI conjI) (assumption | simp add: v1_ready_def)+
qed


end
