(* ===== verification/Docker_Init.thy ===== *)
theory Docker_Init
  imports Docker_Net Docker_Exec
begin

text \<open>
  The init process of a Docker zone, \<^verbatim>\<open>src/src/dockerinit/src/dockerinit.c\<close>, but for the network (theory
  \<^verbatim>\<open>Docker_Net\<close>): helper processes, mounts, terminal and logger, the wait for an attaching client and
  \<^verbatim>\<open>main\<close>. \<open>fuel\<close> bounds the loops that wait for the outside world and the JSON parser. A run that
  reaches a successful \<^verbatim>\<open>execve\<close>, in this process or in a forked child, ends as \<^verbatim>\<open>Replaced\<close>.
\<close>

section \<open>Error codes and paths\<close>

definition ERR_FORK_FAILED :: dockerinit_err where "ERR_FORK_FAILED = 4"
definition ERR_INVALID_BRAND :: dockerinit_err where "ERR_INVALID_BRAND = 7"
definition ERR_NO_BRAND :: dockerinit_err where "ERR_NO_BRAND = 12"
definition ERR_OPEN :: dockerinit_err where "ERR_OPEN = 18"
definition ERR_OPEN_CONSOLE :: dockerinit_err where "ERR_OPEN_CONSOLE = 19"
definition ERR_RENAME_FAILED :: dockerinit_err where "ERR_RENAME_FAILED = 22"
definition ERR_WRITE_MTAB :: dockerinit_err where "ERR_WRITE_MTAB = 30"
definition ERR_IPMGMTD_DIED :: dockerinit_err where "ERR_IPMGMTD_DIED = 38"
definition ERR_IPMGMTD_CRASHED :: dockerinit_err where "ERR_IPMGMTD_CRASHED = 39"
definition ERR_MOUNT_DEVFD :: dockerinit_err where "ERR_MOUNT_DEVFD = 40"
definition ERR_FDOPEN_LOG :: dockerinit_err where "ERR_FDOPEN_LOG = 41"
definition ERR_CLOSE :: dockerinit_err where "ERR_CLOSE = 42"
definition ERR_ATTACH_NOT_TIMESTAMP :: dockerinit_err where "ERR_ATTACH_NOT_TIMESTAMP = 43"
definition ERR_ATTACH_GETTIME :: dockerinit_err where "ERR_ATTACH_GETTIME = 44"
definition ERR_ATTACH_TIMEDOUT :: dockerinit_err where "ERR_ATTACH_TIMEDOUT = 45"
definition ERR_UNLINK_MTAB :: dockerinit_err where "ERR_UNLINK_MTAB = 47"
definition ERR_OPEN_ZFD :: dockerinit_err where "ERR_OPEN_ZFD = 51"
definition ERR_STAT_ZFD :: dockerinit_err where "ERR_STAT_ZFD = 52"
definition ERR_IOCTL_ZFD :: dockerinit_err where "ERR_IOCTL_ZFD = 53"
definition ERR_DUP2 :: dockerinit_err where "ERR_DUP2 = 54"
definition ERR_CONTRACT :: dockerinit_err where "ERR_CONTRACT = 55"
definition ERR_MOUNT_DEVSHM :: dockerinit_err where "ERR_MOUNT_DEVSHM = 56"
definition ERR_INVALID_NFS_VOLUMES :: dockerinit_err where "ERR_INVALID_NFS_VOLUMES = 57"
definition ERR_MOUNT_NFS_VOLUME :: dockerinit_err where "ERR_MOUNT_NFS_VOLUME = 58"

definition DOCKER_LOGGER :: "char list" where "DOCKER_LOGGER = ''/lib/sdc/docker/logger''"
definition IPMGMTD :: "char list" where "IPMGMTD = ''/lib/inet/ipmgmtd''"
definition IPMGMTD_DOOR :: "char list" where "IPMGMTD_DOOR = ''/etc/svc/volatile/ipadm/ipmgmt_door''"
definition NFS_MOUNT :: "char list" where "NFS_MOUNT = ''/usr/lib/fs/nfs/mount''"
definition LOGFILE :: "char list" where "LOGFILE = ''/var/log/sdc-dockerinit.log''"
definition ATTACH_CHECK_INTERVAL :: nat where "ATTACH_CHECK_INTERVAL = 200000"
definition ZFD_OPEN_RETRIES :: nat where "ZFD_OPEN_RETRIES = 300"
definition MAXPATHLEN :: nat where "MAXPATHLEN = 1024"

definition makePath :: "world \<Rightarrow> char list \<Rightarrow> nat \<Rightarrow> char list" where
  "makePath w base outsz = take (outsz - 1) ((case w_nroot w of None \<Rightarrow> [] | Some zroot \<Rightarrow> zroot) @ base)"

section \<open>Helper processes\<close>

definition init_template :: "world \<Rightarrow> char list \<Rightarrow> ('h, int) prog" where
  "init_template w flag =
     bindp (callp w (Fd (Open ''/system/contract/process/template'' [O_RDWR]))) (\<lambda>fd.
     if fd = -1 then failp ERR_CONTRACT
     else
       bindp (zero_or_fatal w (Proc (Ct_tmpl ''ct_tmpl_set_critical'' fd ''0'')) ERR_CONTRACT) (\<lambda>_.
       bindp (zero_or_fatal w (Proc (Ct_tmpl ''ct_tmpl_set_informative'' fd ''0'')) ERR_CONTRACT) (\<lambda>_.
       bindp (zero_or_fatal w (Proc (Ct_tmpl ''ct_pr_tmpl_set_fatal'' fd ''CT_PR_EV_HWERR'')) ERR_CONTRACT) (\<lambda>_.
       bindp (zero_or_fatal w (Proc (Ct_tmpl ''ct_pr_tmpl_set_param'' fd flag)) ERR_CONTRACT) (\<lambda>_.
       bindp (callp w (Proc (Ct_tmpl ''ct_pr_tmpl_set_svc_fmri'' fd ''svc:/dockerinit/child:default''))) (\<lambda>_.
       bindp (zero_or_fatal w (Proc (Ct_tmpl ''ct_tmpl_activate'' fd [])) ERR_CONTRACT) (\<lambda>_.
       retp fd)))))))"

definition clear_template :: "world \<Rightarrow> int \<Rightarrow> ('h, unit) prog" where
  "clear_template w tmplfd =
     bindp (callp w (Proc (Ct_tmpl ''ct_tmpl_clear'' tmplfd []))) (\<lambda>_.
     bindp (callp w (Fd (Close tmplfd))) (\<lambda>_. skipp))"

text \<open>\<^verbatim>\<open>while (wait(&status) != pid)\<close>.\<close>

fun wait_for :: "world \<Rightarrow> nat \<Rightarrow> int \<Rightarrow> ('h, wait_status) prog" where
  "wait_for w 0 pid s = faultp Fault_Fuel s"
| "wait_for w (Suc n) pid s =
     bindp (callp w (Proc Wait)) (\<lambda>r.
     if r \<noteq> pid then wait_for w n pid
     else (\<lambda>s. (Returned (w_status w (pr_calls s)), s))) s"

definition runIpmgmtd :: "world \<Rightarrow> nat \<Rightarrow> ('h, unit) prog" where
  "runIpmgmtd w fuel =
     bindp (init_template w ''0'') (\<lambda>tmplfd.
     forkp w (\<lambda>pid.
     if pid = -1 then failp ERR_FORK_FAILED
     else if pid = 0
     then bindp (clear_template w tmplfd) (\<lambda>_.
          execp w (Execve (makePath w IPMGMTD MAXPATHLEN) [Some ''ipmgmtd'', None]
              (Some [Some ''SMF_FMRI=svc:/network/ip-interface-management:default'', None]))
            (failp ERR_EXEC_FAILED))
     else
       bindp (clear_template w tmplfd) (\<lambda>_.
       bindp (wait_for w fuel pid) (\<lambda>status.
       case status of
         Exited _ \<Rightarrow> skipp
       | Signaled _ \<Rightarrow> failp ERR_IPMGMTD_DIED
       | Stopped \<Rightarrow> failp ERR_IPMGMTD_CRASHED))))"

definition killIpmgmtd :: "allocator \<Rightarrow> world \<Rightarrow> ('h, unit) prog" where
  "killIpmgmtd mem w =
     bindp (dkp (\<lambda>d. mdataGet mem d ''docker:noipmgmtd'')) (\<lambda>should_kill.
     if should_kill = None \<or> take 4 (the should_kill) \<noteq> ''true'' then skipp
     else
       bindp (callp w (Fd (Open (makePath w IPMGMTD_DOOR MAXPATHLEN) [O_RDONLY]))) (\<lambda>door_fd.
       if door_fd < 0 then skipp
       else
         bindp (callp w (Fd (Door_info door_fd))) (\<lambda>r.
         if r \<noteq> 0 then skipp
         else
           bindp (valp w) (\<lambda>ipmgmtd_pid.
           bindp (callp w (Fd (Close door_fd))) (\<lambda>_.
           if ipmgmtd_pid \<le> 0 then skipp
           else
             bindp (callp w (Proc Getpid)) (\<lambda>self.
             if ipmgmtd_pid = self then skipp
             else
               bindp (callp w (Proc (Kill ipmgmtd_pid ''SIGTERM''))) (\<lambda>r.
               if r \<noteq> 0 then skipp
               else bindp (callp w (Proc (Waitpid ipmgmtd_pid))) (\<lambda>_. skipp))))))))"

definition doNfsMount :: "world \<Rightarrow> nat \<Rightarrow> char list \<Rightarrow> char list \<Rightarrow> bool \<Rightarrow> ('h, unit) prog" where
  "doNfsMount w fuel nfsvolume mountpoint readonly =
     bindp (callp w (Fs (Mkdir mountpoint))) (\<lambda>ret.
     bindp (errnop w) (\<lambda>e.
     if ret = -1 \<and> e \<noteq> EEXIST then failp ERR_MKDIR
     else
       bindp (init_template w ''0'') (\<lambda>tmplfd.
       forkp w (\<lambda>pid.
       if pid = -1 then failp ERR_FORK_FAILED
       else if pid = 0
       then bindp (clear_template w tmplfd) (\<lambda>_.
            execp w (Execve (makePath w NFS_MOUNT MAXPATHLEN)
                [Some ''mount'', Some ''-o'', Some (if readonly then ''vers=3,sec=sys,ro'' else ''vers=3,sec=sys''),
                 Some nfsvolume, Some mountpoint, None] None)
              (failp ERR_EXEC_FAILED))
       else
         bindp (clear_template w tmplfd) (\<lambda>_.
         bindp (wait_for w fuel pid) (\<lambda>status.
         case status of
           Exited st \<Rightarrow> if st \<noteq> 0 then failp ERR_MOUNT_NFS_VOLUME else skipp
         | Signaled _ \<Rightarrow> failp ERR_EXEC_FAILED
         | Stopped \<Rightarrow> failp ERR_EXEC_FAILED))))))"

definition mountNfsVolume :: "('h, 'p) nv_ops \<Rightarrow> world \<Rightarrow> nat \<Rightarrow> 'p \<Rightarrow> ('h, unit) prog" where
  "mountNfsVolume N w fuel data =
     bindp (nv_string N data ''nfsvolume'') (\<lambda>nfsvolume.
     bindp (nv_string N data ''mountpoint'') (\<lambda>mountpoint.
     case (nfsvolume, mountpoint) of
       (Some nfsvolume, Some mountpoint) \<Rightarrow>
         bindp (nv_boolean N data ''readonly'') (\<lambda>readonly.
         doNfsMount w fuel nfsvolume mountpoint (readonly = Some True))
     | _ \<Rightarrow> failp ERR_INVALID_NFS_VOLUMES))"

definition mountNfsVolumes :: "('h, 'p) nv_ops \<Rightarrow> allocator \<Rightarrow> nat \<Rightarrow> world \<Rightarrow> ('h, unit) prog" where
  "mountNfsVolumes N mem fuel w =
     for_mdata_lists N mem fuel ''docker:nfsvolumes'' (mountNfsVolume N w fuel)
       (bindp (callp w (Proc Brand_lockd)) (\<lambda>_. skipp))"

section \<open>Terminal and logger\<close>

text \<open>The search of the directory for an entry besides \<^verbatim>\<open>.\<close> and \<^verbatim>\<open>..\<close>.\<close>

fun zfd_ready :: "world \<Rightarrow> nat \<Rightarrow> ('h, unit) prog" where
  "zfd_ready w 0 s = faultp Fault_Fuel s"
| "zfd_ready w (Suc n) s =
     bindp (callp w (Fd (Opendir ''/dev/zfd''))) (\<lambda>dirp.
     bindp (\<lambda>s. (Returned (dirp \<noteq> 0 \<and> (\<exists>d \<in> set (w_names w (pr_calls s)). d \<noteq> ''.'' \<and> d \<noteq> ''..'')), s)) (\<lambda>ready.
     if ready then skipp
     else bindp (callp w (Proc (Pause 100000))) (\<lambda>_. zfd_ready w n))) s"

text \<open>\<open>left\<close> attempts are left; the pause is between two of them.\<close>

fun zfd_open_from :: "world \<Rightarrow> char list \<Rightarrow> oflag list \<Rightarrow> nat \<Rightarrow> ('h, int) prog" where
  "zfd_open_from w path oflag 0 s = retp (-1) s"
| "zfd_open_from w path oflag (Suc left) s =
     bindp (callp w (Fd (Open path oflag))) (\<lambda>fd.
     bindp (errnop w) (\<lambda>e.
     if 0 \<le> fd \<or> e \<noteq> ENOENT \<or> left = 0 then retp fd
     else bindp (callp w (Proc (Pause 100000))) (\<lambda>_. zfd_open_from w path oflag left))) s"

definition zfd_open :: "world \<Rightarrow> char list \<Rightarrow> oflag list \<Rightarrow> ('h, int) prog" where
  "zfd_open w path oflag = zfd_open_from w path oflag ZFD_OPEN_RETRIES"

definition zfd_path :: "int \<Rightarrow> char list" where
  "zfd_path i = ''/dev/zfd/'' @ fmt_d i"

definition makeMux :: "world \<Rightarrow> int \<Rightarrow> int \<Rightarrow> bool \<Rightarrow> ('h, unit) prog" where
  "makeMux w stdid logid flow_control =
     bindp (zfd_open w (zfd_path stdid) [O_RDWR, O_NOCTTY]) (\<lambda>sfd.
     if sfd = -1 then failp ERR_OPEN_ZFD
     else
       bindp (zero_or_fatal w (Fd (Fstat sfd)) ERR_STAT_ZFD) (\<lambda>_.
       bindp (valp w) (\<lambda>minor.
       bindp (zfd_open w (zfd_path logid) [O_RDWR, O_NOCTTY]) (\<lambda>lfd.
       if lfd = -1 then failp ERR_OPEN_ZFD
       else
         bindp (zero_or_fatal w (Fd (Ioctl lfd (ZFD_MUX minor))) ERR_IOCTL_ZFD) (\<lambda>_.
         bindp (whenp flow_control (zero_or_fatal w (Fd (Ioctl lfd (ZFD_MUX_FLOWCON 1))) ERR_IOCTL_ZFD)) (\<lambda>_.
         bindp (callp w (Fd (Close sfd))) (\<lambda>_.
         bindp (callp w (Fd (Close lfd))) (\<lambda>_.
         skipp))))))))"

definition logger_vars :: "(char list \<times> char list) list" where
  "logger_vars =
     [(''DOCKERLOG_CONFIG'', ''docker:logconfig''),
      (''DOCKERLOG_CONTAINERID'', ''docker:id''),
      (''DOCKERLOG_CONTAINERNAME'', ''sdc:alias''),
      (''DOCKERLOG_CREATETIME'', ''sdc:create_timestamp''),
      (''DOCKERLOG_IMAGEID'', ''docker:imageid''),
      (''DOCKERLOG_IMAGENAME'', ''docker:imagename''),
      (''DOCKERLOG_ENTRYPOINT'', ''docker:entrypoint''),
      (''DOCKERLOG_CMD'', ''docker:cmd'')]"

fun logging_entries :: "allocator \<Rightarrow> (char list \<times> char list) list \<Rightarrow> 'h docker \<Rightarrow> (char list list \<times> 'h docker) outcome" where
  "logging_entries mem [] d = Inr ([], d)"
| "logging_entries mem ((env_key, mdata_key) # vars) d =
     bindr (mdataGet mem d mdata_key) (\<lambda>(data, d).
     bindr (case data of
              None \<Rightarrow> Inr []
            | Some data \<Rightarrow>
                (case mem (length env_key + length data + 2) of
                   None \<Rightarrow> fatal ERR_NO_MEMORY
                 | Some _ \<Rightarrow> Inr [env_key @ EQUALS # data])) (\<lambda>new.
     bindr (logging_entries mem vars d) (\<lambda>(env, d). Inr (new @ env, d))))"

definition getLoggingEnv :: "allocator \<Rightarrow> 'h docker \<Rightarrow> (char list option list \<times> 'h docker) outcome" where
  "getLoggingEnv mem d =
     (case mem (8 * (length logger_vars + 1)) of
        None \<Rightarrow> fatal ERR_NO_MEMORY
      | Some _ \<Rightarrow> bindr (logging_entries mem logger_vars d) (\<lambda>(env, d). Inr (map Some env @ [None], d)))"

text \<open>Opening a file that has to get a certain descriptor.\<close>

definition open_as :: "world \<Rightarrow> ('h, int) prog \<Rightarrow> int \<Rightarrow> ('h, unit) prog" where
  "open_as w opening want = bindp opening (\<lambda>fd. if fd \<noteq> want then failp ERR_OPEN_CONSOLE else skipp)"

definition logger_child ::
    "world \<Rightarrow> int \<Rightarrow> char list \<Rightarrow> char list option list \<Rightarrow> bool \<Rightarrow> ('h, unit) prog" where
  "logger_child w init_pid log_driver envp ctty =
     bindp (init_template w ''CT_PR_KEEP_EXEC'') (\<lambda>tmplfd.
     bindp (callp w (Fd (Close tmplfd))) (\<lambda>_.
     bindp (\<lambda>s. callp w (Fd (Dup2 (pr_log_fd s) 0)) s) (\<lambda>r.
     if r < 0 then failp ERR_DUP2
     else
       bindp (callp w (Fd (Fdopen 0))) (\<lambda>stream.
       if stream = 0 then failp ERR_FDOPEN_LOG
       else
         bindp (callp w (Fd (Closefrom 1))) (\<lambda>_.
         bindp (open_as w (callp w (Fd (Open ''/dev/null'' [O_WRONLY]))) 1) (\<lambda>_.
         bindp (open_as w (callp w (Fd (Open ''/dev/null'' [O_WRONLY]))) 2) (\<lambda>_.
         bindp (if ctty
                then bindp (makeMux w 0 1 False) (\<lambda>_.
                     bindp (open_as w (zfd_open w (zfd_path 1) [O_RDONLY]) 3) (\<lambda>_.
                     open_as w (callp w (Fd (Open ''/dev/null'' [O_RDONLY]))) 4))
                else bindp (makeMux w 1 3 False) (\<lambda>_.
                     bindp (makeMux w 2 4 False) (\<lambda>_.
                     bindp (open_as w (zfd_open w (zfd_path 3) [O_RDONLY]) 3) (\<lambda>_.
                     open_as w (zfd_open w (zfd_path 4) [O_RDONLY]) 4)))) (\<lambda>_.
         execp w (Execve (makePath w DOCKER_LOGGER MAXPATHLEN) [Some ''logger'', Some log_driver, None] (Some envp))
           (bindp (callp w (Proc (Kill init_pid ''SIGKILL''))) (\<lambda>_. failp ERR_EXEC_FAILED))))))))))"

definition setupLogging :: "allocator \<Rightarrow> world \<Rightarrow> bool \<Rightarrow> ('h, unit) prog" where
  "setupLogging mem w ctty =
     bindp (dkp (\<lambda>d. mdataGet mem d ''docker:logdriver'')) (\<lambda>data.
     bindp (case data of
              None \<Rightarrow> retp ''json-file''
            | Some data \<Rightarrow>
                if data = ''json-file'' then retp ''json-file''
                else (case strdup mem data of None \<Rightarrow> failp ERR_STRDUP | Some d \<Rightarrow> retp d)) (\<lambda>log_driver.
     if log_driver = ''json-file'' \<or> log_driver = ''none'' then skipp
     else
       bindp (callp w (Proc Getpid)) (\<lambda>init_pid.
       bindp (dkp (getLoggingEnv mem)) (\<lambda>envp.
       forkp w (\<lambda>pid.
       if pid = -1 then failp ERR_FORK_FAILED
       else if pid = 0 then logger_child w init_pid log_driver envp ctty
       else
         bindp (init_template w ''CT_PR_KEEP_EXEC'') (\<lambda>tmplfd.
         bindp (callp w (Fd (Close tmplfd))) (\<lambda>_. skipp)))))))"

definition mdata_is_true :: "allocator \<Rightarrow> char list \<Rightarrow> ('h, bool) prog" where
  "mdata_is_true mem key = bindp (dkp (\<lambda>d. mdataGet mem d key)) (\<lambda>data. retp (data = Some ''true''))"

definition getStdinStatus :: "allocator \<Rightarrow> ('h, bool) prog" where
  "getStdinStatus mem = mdata_is_true mem ''docker:open_stdin''"

definition getTtyStatus :: "allocator \<Rightarrow> ('h, bool) prog" where
  "getTtyStatus mem = mdata_is_true mem ''docker:tty''"

definition assertFd :: "int \<Rightarrow> int \<Rightarrow> ('h, unit) prog" where
  "assertFd actual expected = (if actual \<noteq> expected then failp ERR_UNEXPECTED else skipp)"

definition zfd_as :: "world \<Rightarrow> int \<Rightarrow> oflag list \<Rightarrow> int \<Rightarrow> ('h, unit) prog" where
  "zfd_as w i oflag want =
     bindp (zfd_open w (zfd_path i) oflag) (\<lambda>fd. if fd = -1 then failp ERR_OPEN_CONSOLE else assertFd fd want)"

definition close_or_fatal :: "world \<Rightarrow> int \<Rightarrow> ('h, unit) prog" where
  "close_or_fatal w fd = bindp (callp w (Fd (Close fd))) (\<lambda>r. if r = -1 then failp ERR_CLOSE else skipp)"

definition setupTerminal :: "allocator \<Rightarrow> world \<Rightarrow> bool \<Rightarrow> ('h, unit) prog" where
  "setupTerminal mem w ctty =
     bindp (getStdinStatus mem) (\<lambda>open_stdin.
     bindp (whenp open_stdin (bindp (close_or_fatal w 0) (\<lambda>_. zfd_as w 0 [O_RDWR] 0))) (\<lambda>_.
     bindp (close_or_fatal w 1) (\<lambda>_.
     bindp (close_or_fatal w 2) (\<lambda>_.
     if ctty
     then bindp (zfd_as w 0 [O_WRONLY] 1) (\<lambda>_.
          bindp (zfd_as w 0 [O_WRONLY] 2) (\<lambda>_.
          bindp (callp w (Proc Setsid)) (\<lambda>r.
          if r < 0 then failp ERR_OPEN_CONSOLE
          else
            bindp (callp w (Fd (Ioctl 1 TIOCSCTTY))) (\<lambda>r.
            if r < 0 then failp ERR_OPEN_CONSOLE else skipp))))
     else bindp (zfd_as w 1 [O_WRONLY] 1) (\<lambda>_. zfd_as w 2 [O_WRONLY] 2)))))"

section \<open>Mounts, names and the wait for a client\<close>

datatype brand = BRAND_LX | BRAND_JOYENT_MINIMAL

definition getBrand :: "allocator \<Rightarrow> ('h, brand) prog" where
  "getBrand mem =
     bindp (dkp (\<lambda>d. mdataGet mem d ''sdc:brand'')) (\<lambda>data.
     case data of
       None \<Rightarrow> failp ERR_NO_BRAND
     | Some data \<Rightarrow>
         if data = ''lx'' then retp BRAND_LX
         else if data = ''joyent-minimal'' then retp BRAND_JOYENT_MINIMAL
         else failp ERR_INVALID_BRAND)"

definition mountOSDevFD :: "world \<Rightarrow> ('h, unit) prog" where
  "mountOSDevFD w = zero_or_fatal w (Fs (Mount ''fd'' ''/dev/fd'' ''fd'' None)) ERR_MOUNT_DEVFD"

definition mountLXDevShm :: "world \<Rightarrow> ('h, unit) prog" where
  "mountLXDevShm w = zero_or_fatal w (Fs (Mount ''shm'' ''/dev/shm'' ''tmpfs'' (Some ''mode=1777''))) ERR_MOUNT_DEVSHM"

definition setupMtab :: "world \<Rightarrow> ('h, unit) prog" where
  "setupMtab w =
     bindp (callp w (Fs (Unlink ''/etc/mtab''))) (\<lambda>r.
     bindp (errnop w) (\<lambda>e.
     if r = -1 \<and> e \<noteq> ENOENT then failp ERR_UNLINK_MTAB
     else
       bindp (callp w (Fs (Mkdir ''/etc''))) (\<lambda>_.
       bindp (callp w (Fs (Symlink ''/proc/mounts'' ''/etc/mtab''))) (\<lambda>r.
       if r = -1 then failp ERR_WRITE_MTAB else skipp))))"

definition setupHostname :: "allocator \<Rightarrow> world \<Rightarrow> ('h, unit) prog" where
  "setupHostname mem w =
     bindp (dkp (\<lambda>d. bindr (mdataGet mem d ''sdc:hostname'') (\<lambda>(h, d). Inr (h, d\<lparr>dk_hostname := h\<rparr>)))) (\<lambda>hostname.
     case hostname of
       None \<Rightarrow> skipp
     | Some h \<Rightarrow> bindp (callp w (Net (Sethostname h))) (\<lambda>_. skipp))"

text \<open>The value \<^verbatim>\<open>gettimeofday\<close> stores, in milliseconds; 0 if it fails.\<close>

definition currentTimestamp :: "world \<Rightarrow> ('h, int) prog" where
  "currentTimestamp w =
     bindp (callp w (Proc Gettimeofday)) (\<lambda>r. if r \<noteq> 0 then retp 0 else valp w)"

fun wait_attaching :: "allocator \<Rightarrow> world \<Rightarrow> nat \<Rightarrow> bool \<Rightarrow> ('h, bool) prog" where
  "wait_attaching mem w 0 did_put s = faultp Fault_Fuel s"
| "wait_attaching mem w (Suc n) did_put s =
     bindp (dkp (\<lambda>d. mdataGet mem d ''docker:wait_for_attach'')) (\<lambda>timeout.
     case timeout of
       None \<Rightarrow> retp did_put
     | Some timeout \<Rightarrow>
         let timestamp = fst (strtol 10 timeout) in
         if timestamp \<le> 0 then failp ERR_ATTACH_NOT_TIMESTAMP
         else
           bindp (currentTimestamp w) (\<lambda>now.
           if now \<le> 0 then failp ERR_ATTACH_GETTIME
           else
             bindp (whenp (\<not> did_put) (dkp (\<lambda>d.
                 bindr (mdataPut mem d ''__dockerinit_waiting_for_attach'' timeout) (\<lambda>d. Inr ((), d))))) (\<lambda>_.
             if timestamp < now then failp ERR_ATTACH_TIMEDOUT
             else
               bindp (callp w (Proc (Pause ATTACH_CHECK_INTERVAL))) (\<lambda>_.
               wait_attaching mem w n True)))) s"

definition waitIfAttaching :: "allocator \<Rightarrow> world \<Rightarrow> nat \<Rightarrow> ('h, unit) prog" where
  "waitIfAttaching mem w fuel =
     bindp (wait_attaching mem w fuel False) (\<lambda>did_put.
     whenp did_put (dkp (\<lambda>d.
       bindr (mdataDelete mem d ''__dockerinit_waiting_for_attach'') (\<lambda>d. Inr ((), d)))))"

section \<open>The program\<close>

text \<open>The message for a failing \<^verbatim>\<open>execve\<close> prints a \<^verbatim>\<open>custr_t\<close> with \<^verbatim>\<open>%s\<close>.\<close>

definition execCmdline :: "allocator \<Rightarrow> world \<Rightarrow> strlist \<Rightarrow> strlist \<Rightarrow> char list \<Rightarrow> ('h, unit) prog" where
  "execCmdline mem w cmdline env workdir =
     bindp (purep (strlist_get cmdline 0)) (\<lambda>cmd.
     case cmd of
       None \<Rightarrow> faultp Fault_Null
     | Some cmd \<Rightarrow>
         bindp (purep (execName mem (w_stat w) cmd env workdir)) (\<lambda>execname.
         bindp (purep (custr_cstr execname)) (\<lambda>name.
         bindp (drop_privs w) (\<lambda>_.
         execp w (Execve name (strlist_array cmdline) (Some (strlist_array env))) (faultp Fault_UB)))))"

definition open_std :: "world \<Rightarrow> oflag list \<Rightarrow> int \<Rightarrow> ('h, unit) prog" where
  "open_std w oflag want =
     bindp (callp w (Fd (Open ''/dev/null'' oflag))) (\<lambda>tmpfd. if tmpfd \<noteq> want then failp ERR_OPEN else skipp)"

definition start_log :: "world \<Rightarrow> ('h, unit) prog" where
  "start_log w =
     bindp (callp w (Fs (Mkdir ''/var''))) (\<lambda>_.
     bindp (callp w (Fs (Mkdir ''/var/log''))) (\<lambda>_.
     bindp (open_std w [O_RDONLY] 0) (\<lambda>_.
     bindp (open_std w [O_WRONLY] 1) (\<lambda>_.
     bindp (open_std w [O_WRONLY] 2) (\<lambda>_.
     bindp (callp w (Fd (Open LOGFILE [O_WRONLY, O_CREAT, O_TRUNC, O_CLOEXEC]))) (\<lambda>log_fd.
     bindp (\<lambda>s. (Returned (), s\<lparr>pr_log_fd := log_fd\<rparr>)) (\<lambda>_.
     if log_fd = -1 then failp ERR_OPEN
     else
       bindp (callp w (Fd (Fdopen log_fd))) (\<lambda>stream.
       if stream = 0 then failp ERR_FDOPEN_LOG else skipp))))))))"

definition setup_brand :: "allocator \<Rightarrow> world \<Rightarrow> ('h, unit) prog" where
  "setup_brand mem w =
     bindp (getBrand mem) (\<lambda>b.
     case b of
       BRAND_LX \<Rightarrow> bindp (mountLXDevShm w) (\<lambda>_. setupMtab w)
     | BRAND_JOYENT_MINIMAL \<Rightarrow> mountOSDevFD w)"

definition provision_success :: "world \<Rightarrow> ('h, unit) prog" where
  "provision_success w =
     bindp (callp w (Fs (Rename ''/var/svc/provisioning'' ''/var/svc/provision_success''))) (\<lambda>ret.
     bindp (errnop w) (\<lambda>e.
     if ret \<noteq> 0 \<and> e \<noteq> ENOENT then failp ERR_RENAME_FAILED else skipp))"

definition dockerinit :: "('h, 'p) nv_ops \<Rightarrow> allocator \<Rightarrow> nat \<Rightarrow> world \<Rightarrow> ('h, unit) prog" where
  "dockerinit N mem fuel w =
     (case (strlist_alloc mem 0, strlist_alloc mem 0) of
        ((Ret_ok, Some env), (Ret_ok, Some cmdline)) \<Rightarrow>
          bindp (start_log w) (\<lambda>_.
          bindp (setup_brand mem w) (\<lambda>_.
          bindp (callp w (Fs (Mkdir ''/var/run''))) (\<lambda>_.
          bindp (callp w (Fs (Mkdir ''/var/run/network''))) (\<lambda>_.
          bindp (runIpmgmtd w fuel) (\<lambda>_.
          bindp (setupNetworking N mem fuel w) (\<lambda>_.
          bindp (killIpmgmtd mem w) (\<lambda>_.
          bindp (mountNfsVolumes N mem fuel w) (\<lambda>_.
          bindp (setupHostname mem w) (\<lambda>_.
          bindp (dkp (\<lambda>d. bindr (getUserGroupData mem (w_ns w) d) (\<lambda>d. Inr ((), d)))) (\<lambda>_.
          bindp (dkp (setupWorkdir mem (w_mkdirp w) (w_chdir w))) (\<lambda>workdir.
          bindp (dkp (\<lambda>d. buildCmdEnv N mem fuel d env)) (\<lambda>env.
          bindp (dkp (\<lambda>d. buildCmdline N mem fuel d cmdline)) (\<lambda>cmdline.
          bindp (getTtyStatus mem) (\<lambda>ctty.
          bindp (zfd_ready w fuel) (\<lambda>_.
          bindp (setupTerminal mem w ctty) (\<lambda>_.
          bindp (setupLogging mem w ctty) (\<lambda>_.
          bindp (waitIfAttaching mem w fuel) (\<lambda>_.
          bindp (callp w (Fd (Close 4))) (\<lambda>_.
          bindp (callp w (Fd (Close 5))) (\<lambda>_.
          bindp (callp w (Fd (Close 6))) (\<lambda>_.
          bindp (provision_success w) (\<lambda>_.
          bindp (purep (custr_cstr workdir)) (\<lambda>wd.
          execCmdline mem w cmdline env wd)))))))))))))))))))))))
      | _ \<Rightarrow> failp ERR_NO_MEMORY)"

section \<open>What each part leaves alone\<close>

lemma mdata_write_same_user:
  "mdataPut mem d k v = Inr d' \<Longrightarrow> same_user d d'" "mdataDelete mem d k = Inr d' \<Longrightarrow> same_user d d'"
  by (auto simp: mdataPut_def mdataDelete_def bindr_eq_Inr_iff same_user_def dest!: mdata_connect_frame split: if_splits option.splits)

lemma getLoggingEnv_same_user: "getLoggingEnv mem d = Inr (env, d') \<Longrightarrow> same_user d d'"
proof -
  have "logging_entries mem vs d = Inr (env, d') \<Longrightarrow> same_user d d'" for vs env d
  proof (induction vs arbitrary: d env)
    case (Cons v vs)
    obtain ek mk where v: "v = (ek, mk)" by (cases v)
    obtain data d1 env1 where "mdataGet mem d mk = Inr (data, d1)" "logging_entries mem vs d1 = Inr (env1, d')"
      using Cons.prems v by (auto simp: bindr_eq_Inr_iff)
    then show ?case using Cons.IH mdataGet_same_user same_user_trans by blast
  qed simp
  then show "getLoggingEnv mem d = Inr (env, d') \<Longrightarrow> ?thesis"
    by (auto simp: getLoggingEnv_def bindr_eq_Inr_iff split: option.splits)
qed

lemma template_tame [tame_intros]: "tame w b (init_template w flag)" "tame w b (clear_template w fd)"
  unfolding init_template_def clear_template_def by (auto intro!: tame_intros)

lemma wait_for_tame [tame_intros]: "tame w b (wait_for w n pid)"
proof (induction n)
  case 0
  show ?case by (rule tame_cong, rule wait_for.simps(1)) (rule tame_intros)
next
  case (Suc n)
  then show ?case by (intro tame_cong [OF wait_for.simps(2)]) (auto intro!: tame_intros)
qed

lemma runIpmgmtd_tame [tame_intros]: "tame w b (runIpmgmtd w fuel)"
  unfolding runIpmgmtd_def by (auto intro!: tame_intros split: wait_status.split)

lemma killIpmgmtd_tame [tame_intros]: "tame w b (killIpmgmtd mem w)"
  unfolding killIpmgmtd_def by (auto intro!: tame_intros)

lemma mountNfsVolumes_tame [tame_intros]: "tame w b (mountNfsVolumes N mem fuel w)"
proof -
  have one: "tame w b (doNfsMount w fuel v m r)" for v m r
    unfolding doNfsMount_def
    by (auto intro!: tame_intros split: wait_status.split)
  have "tame w b (mountNfsVolume N w fuel p)" for p
    unfolding mountNfsVolume_def by (auto intro!: tame_intros one split: option.split prod.split)
  then show ?thesis unfolding mountNfsVolumes_def by (intro for_mdata_lists_tame) (auto intro!: tame_intros)
qed

lemma zfd_tame [tame_intros]: "tame w b (zfd_ready w n)" "tame w b (zfd_open w path fl)"
proof -
  show "tame w b (zfd_ready w n)"
  proof (induction n)
    case 0
    show ?case by (rule tame_cong, rule zfd_ready.simps(1)) (rule tame_intros)
  next
    case (Suc n)
    then show ?case by (intro tame_cong [OF zfd_ready.simps(2)]) (auto intro!: tame_intros)
  qed
  have "tame w b (zfd_open_from w path fl k)" for k
  proof (induction k)
    case 0
    show ?case by (rule tame_cong, rule zfd_open_from.simps(1)) (rule tame_intros)
  next
    case (Suc k)
    then show ?case by (intro tame_cong [OF zfd_open_from.simps(2)]) (auto intro!: tame_intros)
  qed
  then show "tame w b (zfd_open w path fl)" by (simp add: zfd_open_def)
qed

lemma mux_tame [tame_intros]: "tame w b (makeMux w i j fc)" "tame w b m \<Longrightarrow> tame w b (open_as w m k)"
  unfolding makeMux_def open_as_def by (auto intro!: tame_intros)

lemma setupLogging_tame [tame_intros]: "tame w b (setupLogging mem w ctty)"
proof -
  have dup: "tame w True (\<lambda>s. callp w (Fd (Dup2 (pr_log_fd s) 0)) s)" by (auto simp: tame_def callp_def)
  have child: "tame w True (logger_child w p ld env ctty)" for p ld env
    unfolding logger_child_def by (auto intro!: tame_intros dup)
  have env: "tame w b (dkp (getLoggingEnv mem))" by (rule tame_dkp) (rule getLoggingEnv_same_user)
  show ?thesis
    unfolding setupLogging_def by (auto intro!: tame_intros env child split: option.split)
qed

lemma terminal_tame [tame_intros]:
  "tame w b (mdata_is_true mem k)" "tame w b (getTtyStatus mem)" "tame w b (assertFd i j)" "tame w b (zfd_as w i fl j)"
  "tame w b (close_or_fatal w i)" "tame w b (setupTerminal mem w ctty)"
proof -
  show t: "tame w b (mdata_is_true mem k)" for k unfolding mdata_is_true_def by (auto intro!: tame_intros)
  show "tame w b (getTtyStatus mem)" unfolding getTtyStatus_def by (rule t)
  show a: "tame w b (assertFd i j)" for i j unfolding assertFd_def by (auto intro!: tame_intros)
  show z: "tame w b (zfd_as w i fl j)" for i fl j unfolding zfd_as_def by (auto intro!: tame_intros a)
  show c: "tame w b (close_or_fatal w i)" for i unfolding close_or_fatal_def by (auto intro!: tame_intros)
  show "tame w b (setupTerminal mem w ctty)"
    unfolding setupTerminal_def getStdinStatus_def by (auto intro!: tame_intros t z c)
qed

lemma setup_tame [tame_intros]: "tame w b (setup_brand mem w)" "tame w b (setupHostname mem w)" "tame w b (provision_success w)"
  "tame w b (start_log w)"
proof -
  show "tame w b (setup_brand mem w)"
    unfolding setup_brand_def getBrand_def mountLXDevShm_def mountOSDevFD_def setupMtab_def
    by (auto intro!: tame_intros split: option.split brand.split)
  show "tame w b (setupHostname mem w)"
    unfolding setupHostname_def
    by (rule tame_bindp) (auto intro!: tame_intros simp: bindr_eq_Inr_iff same_user_def dest!: mdataGet_frame split: option.split)
  show "tame w b (provision_success w)" unfolding provision_success_def by (auto intro!: tame_intros)
  have "tame w b (\<lambda>s. (Returned (), s\<lparr>pr_log_fd := fd\<rparr>))" for fd by (auto simp: tame_def)
  then show "tame w b (start_log w)" unfolding start_log_def open_std_def by (auto intro!: tame_intros)
qed

lemma waitIfAttaching_tame [tame_intros]: "tame w b (waitIfAttaching mem w fuel)"
proof -
  have ts: "tame w b (currentTimestamp w)" unfolding currentTimestamp_def by (auto intro!: tame_intros)
  have put: "tame w b (dkp (\<lambda>d. bindr (mdataPut mem d k v) (\<lambda>d. Inr ((), d))))" for k v
    by (rule tame_dkp) (auto simp: bindr_eq_Inr_iff dest: mdata_write_same_user)
  have del: "tame w b (dkp (\<lambda>d. bindr (mdataDelete mem d k) (\<lambda>d. Inr ((), d))))" for k
    by (rule tame_dkp) (auto simp: bindr_eq_Inr_iff dest: mdata_write_same_user)
  have "tame w b (wait_attaching mem w n did_put)" for n did_put
  proof (induction n arbitrary: did_put)
    case 0
    show ?case by (rule tame_cong, rule wait_attaching.simps(1)) (rule tame_intros)
  next
    case (Suc n)
    then show ?case
      by (intro tame_cong [OF wait_attaching.simps(2)]) (auto intro!: tame_intros ts put split: option.split simp: Let_def)
  qed
  then show ?thesis unfolding waitIfAttaching_def by (auto intro!: tame_intros del)
qed

section \<open>The process that becomes the command\<close>

text \<open>User and group are those that \<open>docker:user\<close> asked for at some point.\<close>

definition found_user :: "allocator \<Rightarrow> world \<Rightarrow> 'h docker \<Rightarrow> bool" where
  "found_user mem w d \<longleftrightarrow> (\<exists>d0 d1. getUserGroupData mem (w_ns w) d0 = Inr d1 \<and> same_user d1 d)"

text \<open>How a process that is replaced ended: with the calls that make it that user, all granted, and
  \<^verbatim>\<open>execve\<close> behind them.\<close>

definition became_user :: "allocator \<Rightarrow> world \<Rightarrow> 'h process \<Rightarrow> bool" where
  "became_user mem w s \<longleftrightarrow> found_user mem w (pr_dk s) \<and>
     (\<exists>pre f a e. pr_calls s = pre @ privs_calls (pr_dk s) @ [Execve f a e] \<and> granted w pre (privs_calls (pr_dk s)))"

definition becomes :: "allocator \<Rightarrow> world \<Rightarrow> ('h docker \<Rightarrow> bool) \<Rightarrow> ('h, 'a) prog \<Rightarrow> bool" where
  "becomes mem w P m \<longleftrightarrow> (\<forall>s s'. P (pr_dk s) \<longrightarrow> m s = (Replaced, s') \<longrightarrow> in_child w (pr_calls s') \<or> became_user mem w s')"

lemma becomes_bindp:
  assumes "\<And>d d'. P d \<Longrightarrow> same_user d d' \<Longrightarrow> P d'" "tame w False m" "\<And>x. becomes mem w P (f x)"
  shows "becomes mem w P (bindp m f)"
  unfolding becomes_def
proof (intro allI impI)
  fix s s'
  assume "P (pr_dk s)" "bindp m f s = (Replaced, s')"
  from this(2) show "in_child w (pr_calls s') \<or> became_user mem w s'"
  proof (cases rule: bindp_cases)
    case replaced
    then show ?thesis using tameD [OF assms(2)] by blast
  next
    case (goes_on x s1)
    have "P (pr_dk s1)" using tameD [OF assms(2) goes_on(1)] assms(1) \<open>P (pr_dk s)\<close> by blast
    then show ?thesis using assms(3) goes_on(2) by (simp add: becomes_def)
  qed simp
qed

lemma becomes_user:
  assumes "\<And>x. becomes mem w (found_user mem w) (f x)"
  shows "becomes mem w P (bindp (dkp (\<lambda>d. bindr (getUserGroupData mem (w_ns w) d) (\<lambda>d. Inr ((), d)))) f)"
  unfolding becomes_def
proof (intro allI impI)
  fix s s'
  assume "bindp (dkp (\<lambda>d. bindr (getUserGroupData mem (w_ns w) d) (\<lambda>d. Inr ((), d)))) f s = (Replaced, s')"
  then show "in_child w (pr_calls s') \<or> became_user mem w s'"
  proof (cases rule: bindp_cases)
    case (goes_on x s1)
    then have "getUserGroupData mem (w_ns w) (pr_dk s) = Inr (pr_dk s1)" using dkp_run [OF goes_on(1)] by (auto simp: bindr_eq_Inr_iff)
    then have "found_user mem w (pr_dk s1)" unfolding found_user_def using same_user_refl by blast
    then show ?thesis using assms goes_on(2) by (simp add: becomes_def)
  qed (auto dest: dkp_run)
qed

lemma found_user_kept: "found_user mem w d \<Longrightarrow> same_user d d' \<Longrightarrow> found_user mem w d'"
  unfolding found_user_def using same_user_trans by blast

lemma becomes_next: "tame w False m \<Longrightarrow> (\<And>x. becomes mem w (\<lambda>_. True) (f x)) \<Longrightarrow> becomes mem w (\<lambda>_. True) (bindp m f)"
  and becomes_next_user: "tame w False m \<Longrightarrow> (\<And>x. becomes mem w (found_user mem w) (f x)) \<Longrightarrow> becomes mem w (found_user mem w) (bindp m f)"
  by (rule becomes_bindp; simp) (rule becomes_bindp [OF found_user_kept])

lemma becomes_exec: "becomes mem w (found_user mem w) (bindp (drop_privs w) (\<lambda>_. execp w (Execve f a e) (faultp flt)))"
  unfolding becomes_def
proof (intro allI impI)
  fix s s'
  assume u: "found_user mem w (pr_dk s)" and "bindp (drop_privs w) (\<lambda>_. execp w (Execve f a e) (faultp flt)) s = (Replaced, s')"
  from this(2) show "in_child w (pr_calls s') \<or> became_user mem w s'"
  proof (cases rule: bindp_cases)
    case replaced
    then show ?thesis using tameD [OF drop_privs_tame [of w False]] by blast
  next
    case (goes_on x s1)
    have "pr_dk s1 = pr_dk s" "pr_calls s1 = pr_calls s @ privs_calls (pr_dk s)" "granted w (pr_calls s) (privs_calls (pr_dk s))"
      using drop_privs_run [OF goes_on(1)] by auto
    moreover have "s' = s1\<lparr>pr_calls := pr_calls s1 @ [Execve f a e]\<rparr>"
      using goes_on(2) by (auto simp: execp_def bindp_callp faultp_def split: if_splits)
    ultimately show ?thesis using u by (auto simp: became_user_def)
  qed simp
qed

lemma execCmdline_becomes: "becomes mem w (found_user mem w) (execCmdline mem w cmdline env wd)"
  unfolding execCmdline_def
proof (intro becomes_next_user tame_intros)
  fix cmd
  show "becomes mem w (found_user mem w) (case cmd of None \<Rightarrow> faultp Fault_Null | Some cmd \<Rightarrow>
      bindp (purep (execName mem (w_stat w) cmd env wd)) (\<lambda>execname.
      bindp (purep (custr_cstr execname)) (\<lambda>name. bindp (drop_privs w) (\<lambda>_.
      execp w (Execve name (strlist_array cmdline) (Some (strlist_array env))) (faultp Fault_UB)))))"
  proof (cases cmd)
    case None
    then show ?thesis by (simp add: becomes_def faultp_def)
  next
    case (Some c)
    then show ?thesis by simp (intro becomes_next_user tame_intros becomes_exec)
  qed
qed

end
