(* ===== verification/Docker_Run.thy ===== *)
theory Docker_Run
  imports Docker_Init
begin

text \<open>
  Whole runs of \<^verbatim>\<open>dockerinit\<close> (theory \<^verbatim>\<open>Docker_Init\<close>): a zone in which one goes through, part by part, up to
  the command, and what holds of the process that becomes the command.
\<close>

section \<open>A run that goes through\<close>

text \<open>A zone in which every call succeeds; most keys have no value.\<close>

fun init_ret :: "call list \<Rightarrow> call \<Rightarrow> int" where
  "init_ret cs (Proc Fork) = 100"
| "init_ret cs (Proc Wait) = 100"
| "init_ret cs (Fd (Open f fl)) =
     (if f = ''/dev/null'' then (if fl = [O_RDONLY] then 0 else if cs \<noteq> [] \<and> last cs = Fd (Open f fl) then 2 else 1)
      else if f = ''/dev/zfd/1'' then 1 else if f = ''/dev/zfd/2'' then 2 else 3)"
| "init_ret cs (Fd (Fdopen fd)) = 1"
| "init_ret cs (Fd (Opendir d)) = 1"
| "init_ret cs c = 0"

definition init_world :: world where
  "init_world = world_sample\<lparr>w_ret := init_ret, w_names := (\<lambda>_. [''0''])\<rparr>"

definition init_talk :: "(char list \<times> char list option) list" where
  "init_talk = [(''sdc:brand'', Some ''lx''), (''sdc:nics'', None), (''sdc:routes'', None), (''sdc:nics'', None), (''sdc:routes'', None),
     (''docker:noipmgmtd'', None), (''docker:nfsvolumes'', None), (''sdc:hostname'', None), (''docker:user'', Some ''7''),
     (''docker:workdir'', None), (''docker:linkEnv'', None), (''docker:env'', None), (''docker:entrypoint'', None),
     (''docker:cmd'', Some (quoted ''/bin/ls'')), (''docker:tty'', None), (''docker:open_stdin'', None), (''docker:logdriver'', None),
     (''docker:wait_for_attach'', None)]"

definition init_process :: "tree_heap process" where
  "init_process = \<lparr>pr_dk = docker_sample (map (\<lambda>(k, v). int (length k + 5)) init_talk) (concat (map (\<lambda>(k, v). says v) init_talk)),
     pr_iph = False, pr_log_fd = -1, pr_calls = []\<rparr>"

text \<open>What of a process the rest of a run depends on; \<open>goes v p x v'\<close>: from there, \<open>p\<close> returns \<open>x\<close> and ends in \<open>v'\<close>.\<close>

type_synonym view = "mdata_proto option \<times> passwd option \<times> group option \<times> char list option"

definition way :: "'h process \<Rightarrow> view" where
  "way s = (dk_mdp (pr_dk s), dk_pwd (pr_dk s), dk_grp (pr_dk s), dk_hostname (pr_dk s))"

definition goes :: "view \<Rightarrow> (tree_heap, 'a) prog \<Rightarrow> 'a \<Rightarrow> view \<Rightarrow> bool" where
  "goes v p x v' \<longleftrightarrow> (\<forall>s. way s = v \<longrightarrow> (\<exists>s'. p s = (Returned x, s') \<and> way s' = v'))"

lemma goes_bindp: "goes v p x v1 \<Longrightarrow> goes v1 (f x) y v' \<Longrightarrow> goes v (bindp p f) y v'"
  unfolding goes_def bindp_def by (auto split: prod.splits ending.splits)

lemma goes_ret: "goes v (retp x) x v" "goes v skipp () v" "goes v (whenp False p) () v"
  by (auto simp: goes_def prog_defs whenp_def)

lemma goes_call: "(\<And>cs. w_ret w cs c = r) \<Longrightarrow> goes v (f r) x v' \<Longrightarrow> goes v (bindp (callp w c) f) x v'"
  by (rule goes_bindp [of _ _ r v]) (auto simp: goes_def callp_def way_def)

lemma goes_zero: "(\<And>cs. w_ret w cs c = 0) \<Longrightarrow> goes v (zero_or_fatal w c code) () v"
  by (auto simp: goes_def zero_or_fatal_run way_def)

lemma goes_errno: "(\<And>e. goes v (f e) x v') \<Longrightarrow> goes v (bindp (errnop w) f) x v'"
  by (auto simp: goes_def bindp_def prog_defs)

lemma goes_get: "mdata_step heap_base m k v m' \<Longrightarrow> goes (Some m, u) (dkp (\<lambda>d. mdataGet heap_base d k)) v (Some m', u)"
  unfolding goes_def way_def using mdataGet_step [OF _ good_heap_base] by (force simp: dkp_def)

lemma init_world_simps [simp]: "w_ret init_world = init_ret" "w_names init_world = (\<lambda>_. [''0''])" "w_ns init_world = w_ns world_sample"
  "w_status init_world = (\<lambda>_. Exited 0)" "w_inet_pton init_world = (\<lambda>_. None)" "w_mkdirp init_world = (\<lambda>_. True)"
  "w_chdir init_world = (\<lambda>_. True)" "w_stat init_world = w_stat world_sample"
  by (simp_all add: init_world_def world_sample_def)

lemma init_log: "goes v (start_log init_world) () v"
  unfolding goes_def by (simp add: start_log_def open_std_def bindp_callp bindp_def prog_defs LOGFILE_def way_def)

lemma init_brand:
  "mdata_step heap_base m ''sdc:brand'' (Some ''lx'') m' \<Longrightarrow> goes (Some m, u) (setup_brand heap_base init_world) () (Some m', u)"
  unfolding setup_brand_def getBrand_def
  by (rule goes_bindp [of _ _ BRAND_LX "(Some m', u)"], rule goes_bindp, erule goes_get)
    (simp_all add: goes_ret(1), simp add: goes_def mountLXDevShm_def setupMtab_def bindp_def zero_or_fatal_run prog_defs way_def)

lemma init_ipmgmtd: "goes v (runIpmgmtd init_world (Suc n)) () v"
  unfolding goes_def
  by (simp add: runIpmgmtd_def init_template_def clear_template_def forkp_def bindp_def zero_or_fatal_run prog_defs way_def)

lemma init_lists:
  "mdata_step heap_base m k None m' \<Longrightarrow> goes (Some m, u) (for_mdata_lists tree_nv heap_base fuel k body f) () (Some m', u)"
  unfolding for_mdata_lists_def by (rule goes_bindp, erule goes_get) (simp add: goes_ret)

lemma init_routes:
  assumes "mdata_step heap_base m ''sdc:routes'' None m'" "11 \<le> fuel"
  shows "goes (Some m, u) (setupStaticRoutes tree_nv heap_base fuel w b) () (Some m', u)"
  unfolding goes_def
proof (intro allI impI)
  fix s :: "tree_heap process"
  assume s: "way s = (Some m, u)"
  have get: "mdataGet heap_base (pr_dk s) ''sdc:routes'' = Inr (None, pr_dk s\<lparr>dk_mdp := Some m'\<rparr>)"
    using mdataGet_step [OF assms(1) good_heap_base] s by (auto simp: way_def)
  obtain nvl h where "getMdataArray tree_nv heap_base fuel (pr_dk s) ''sdc:routes'' True = Inr (nvl, Some 0, pr_dk s\<lparr>dk_mdp := Some m', dk_nv := h\<rparr>)"
    using tjh.getMdataArray_reads [OF get, of "[]" fuel True] assms(2) by (auto simp: md_array_def)
  then show "\<exists>s'. setupStaticRoutes tree_nv heap_base fuel w b s = (Returned (), s') \<and> way s' = (Some m', u)"
    using s by (cases nvl) (auto simp: setupStaticRoutes_def bindp_def dkp_def skipp_def retp_def nv_free_def nvl_free_def way_def)
qed

lemma init_network:
  assumes "mdata_step heap_base m ''sdc:nics'' None m1" "mdata_step heap_base m1 ''sdc:routes'' None m2"
    and "mdata_step heap_base m2 ''sdc:nics'' None m3" "mdata_step heap_base m3 ''sdc:routes'' None m4" "11 \<le> fuel"
  shows "goes (Some m, u) (setupNetworking tree_nv heap_base fuel init_world) () (Some m4, u)"
proof -
  have ends: "goes v (openIpadmHandle init_world) () v" "goes v (plumbIf init_world n) () v" "goes v (raiseIf init_world n a b) (-1) v"
    "goes v (closeIpadmHandle init_world) () v" for v n a b
    by (simp_all add: goes_def openIpadmHandle_def plumbIf_def Let_def raiseIf_def closeIpadmHandle_def bindp_def zero_or_fatal_run prog_defs way_def)
  show ?thesis
    unfolding setupNetworking_def setupInterfaces_def setupGateways_def
    by (rule goes_bindp ends init_lists init_routes assms)+
qed

lemma init_kill:
  "mdata_step heap_base m ''docker:noipmgmtd'' None m' \<Longrightarrow> goes (Some m, u) (killIpmgmtd heap_base init_world) () (Some m', u)"
  unfolding killIpmgmtd_def by (rule goes_bindp, erule goes_get) (simp add: goes_ret)

lemma init_hostname:
  "mdata_step heap_base m ''sdc:hostname'' None m' \<Longrightarrow>
   goes (Some m, pw, gr, h) (setupHostname heap_base init_world) () (Some m', pw, gr, None)"
  unfolding setupHostname_def goes_def way_def
  using mdataGet_step [OF _ good_heap_base] by (force simp: bindp_def prog_defs)

lemma init_user:
  assumes "mdata_step heap_base m ''docker:user'' (Some ''7'') m'" "way s = (Some m, None, None, h)"
  shows "\<exists>s'. dkp (\<lambda>d. bindr (getUserGroupData heap_base (w_ns init_world) d) (\<lambda>d. Inr ((), d))) s = (Returned (), s') \<and>
    way s' = (Some m', Some \<lparr>pw_name = ''lp'', pw_uid = 7, pw_gid = 8, pw_dir = ''/''\<rparr>, Some \<lparr>gr_name = ''lp'', gr_gid = 8\<rparr>, h)"
proof -
  let ?ns = "w_ns world_sample" and ?d = "pr_dk s"
  have get: "mdataGet heap_base ?d ''docker:user'' = Inr (Some ''7'', ?d\<lparr>dk_mdp := Some m'\<rparr>)"
    using mdataGet_step [OF assms(1) good_heap_base, of "pr_dk s"] assms(2) by (simp add: way_def)
  have seven: "eval_base 10 ''7'' = 7" by code_simp
  have u: "looked_up (getpwnam ?ns) (getpwuid ?ns) ERR_UID_NAN ''7'' = Inr (Some \<lparr>pw_name = ''lp'', pw_uid = 7, pw_gid = 8, pw_dir = ''/''\<rparr>)"
    using looked_up_number [of "''7''" "getpwnam ?ns" "getpwuid ?ns" ERR_UID_NAN] by (simp add: seven isdigit_def world_sample_def)
  have g: "getgrgid ?ns 8 = Some \<lparr>gr_name = ''lp'', gr_gid = 8\<rparr>" by (simp add: world_sample_def)
  have "dk_grp ?d = None" using assms(2) by (simp add: way_def)
  from getUserGroupData_runs [OF good_heap_base this _ _ get, of "''7''" None ?ns] u g show ?thesis
    using assms(2) by (simp add: dkp_def way_def)
qed

lemma init_workdir:
  assumes "mdata_step heap_base m ''docker:workdir'' None m'" "way s = (Some m, pw, u)" "\<forall>p. pw = Some p \<longrightarrow> nul_free (pw_dir p)"
  shows "\<exists>wd s'. dkp (setupWorkdir heap_base (w_mkdirp init_world) (w_chdir init_world)) s = (Returned wd, s') \<and>
    way s' = (Some m', pw, u) \<and> (\<exists>dir. custr_dyn wd dir \<and> nul_free dir)"
proof -
  have "mdataGet heap_base (pr_dk s) ''docker:workdir'' = Inr (None, pr_dk s\<lparr>dk_mdp := Some m'\<rparr>)" "dk_pwd (pr_dk s) = pw"
    using mdataGet_step [OF assms(1) good_heap_base] assms(2) by (auto simp: way_def)
  then show ?thesis
    using setupWorkdir_runs [OF good_heap_base, of "pr_dk s" None _ _ "\<lambda>_. True" "\<lambda>_. True"] assms(2,3)
    by (force simp: dkp_def way_def)
qed

lemma init_answers:
  assumes "mdata_step heap_base m k1 None m1" "mdata_step heap_base m1 k2 v m2" "md_array v xs" "way s = (Some m, u)"
  shows "answers heap_base (pr_dk s) [(k1, None, []), (k2, v, xs)] (pr_dk s\<lparr>dk_mdp := Some m2\<rparr>)"
  using mdataGet_step [OF assms(1) good_heap_base, of "pr_dk s"] assms(3,4)
    mdataGet_step [OF assms(2) good_heap_base, of "pr_dk s\<lparr>dk_mdp := Some m1\<rparr>"]
  by (simp add: way_def md_array_def)

lemma init_env:
  assumes "mdata_step heap_base m ''docker:linkEnv'' None m1" "mdata_step heap_base m1 ''docker:env'' None m2"
    and "way s = (Some m, Some \<lparr>pw_name = n, pw_uid = u, pw_gid = g, pw_dir = ''/''\<rparr>, gr, None)" "11 \<le> fuel" "strlist_holds env []"
  shows "\<exists>env' s' es. dkp (\<lambda>d. buildCmdEnv tree_nv heap_base fuel d env) s = (Returned env', s') \<and>
    way s' = (Some m2, Some \<lparr>pw_name = n, pw_uid = u, pw_gid = g, pw_dir = ''/''\<rparr>, gr, None) \<and>
    strlist_holds env' es \<and> (\<forall>e \<in> set es. nul_free e) \<and> length es < 2 ^ 32 \<and> length (env_path es) + 35 < 2 ^ 32"
proof -
  have d: "default_env (pr_dk s) = [(''TERM'', DEFAULT_TERM), (''HOME'', ''/''), (''PATH'', DEFAULT_PATH)]"
    using assms(3) by (simp add: way_def default_env_def)
  let ?es = "default_entries (pr_dk s)"
  have es: "\<forall>e \<in> set ?es. nul_free e" "length ?es < 2 ^ 32" "length (env_path ?es) + 35 < 2 ^ 32"
    by (simp_all add: d split_env_def env_path_def DEFAULT_TERM_def DEFAULT_PATH_def)
  have nf: "\<forall>(k, v) \<in> set (default_env (pr_dk s)). nul_free v" by (simp add: d DEFAULT_TERM_def DEFAULT_PATH_def)
  have "answers heap_base (pr_dk s) [(''docker:linkEnv'', None, []), (''docker:env'', None, [])] (pr_dk s\<lparr>dk_mdp := Some m2\<rparr>)"
    using init_answers [OF assms(1,2) _ assms(3)] by (simp add: md_array_def)
  from buildCmdEnv_builds [OF tnv.nvpair_library_axioms good_heap_base assms(5) this _ _ nf, of fuel] assms(4)
  obtain env' h' where env': "buildCmdEnv tree_nv heap_base fuel (pr_dk s) env = Inr (env', pr_dk s\<lparr>dk_mdp := Some m2, dk_nv := h'\<rparr>)"
    "strlist_holds env' ?es" by auto
  let ?s' = "s\<lparr>pr_dk := pr_dk s\<lparr>dk_mdp := Some m2, dk_nv := h'\<rparr>\<rparr>"
  have "dkp (\<lambda>d. buildCmdEnv tree_nv heap_base fuel d env) s = (Returned env', ?s')" by (simp add: dkp_def env'(1))
  moreover have "way ?s' = (Some m2, Some \<lparr>pw_name = n, pw_uid = u, pw_gid = g, pw_dir = ''/''\<rparr>, gr, None)"
    using assms(3) by (simp add: way_def)
  ultimately show ?thesis using env'(2) es by blast
qed

lemma init_cmdline:
  assumes "mdata_step heap_base m ''docker:entrypoint'' None m1" "mdata_step heap_base m1 ''docker:cmd'' (Some (quoted cmd)) m2"
    and "way s = (Some m, u)" "plain cmd" "3 * length cmd + 17 \<le> fuel" "strlist_holds cl []"
  shows "\<exists>cl' s'. dkp (\<lambda>d. buildCmdline tree_nv heap_base fuel d cl) s = (Returned cl', s') \<and> way s' = (Some m2, u) \<and> strlist_holds cl' [cmd]"
proof -
  have "answers heap_base (pr_dk s) [(''docker:entrypoint'', None, []), (''docker:cmd'', Some (quoted cmd), [cmd])] (pr_dk s\<lparr>dk_mdp := Some m2\<rparr>)"
    using init_answers [OF assms(1,2) _ assms(3)] quoted_text(1) [OF assms(4)] by (simp add: md_array_def)
  from buildCmdline_builds [OF tnv.nvpair_library_axioms good_heap_base assms(6) this, of fuel] assms(5)
  obtain cl' h' where "buildCmdline tree_nv heap_base fuel (pr_dk s) cl = Inr (cl', pr_dk s\<lparr>dk_mdp := Some m2, dk_nv := h'\<rparr>)"
    "strlist_holds cl' [cmd]" by (auto simp: quoted_def)
  then show ?thesis using assms(3) by (auto simp: dkp_def way_def)
qed

lemma init_true: "mdata_step heap_base m k None m' \<Longrightarrow> goes (Some m, u) (mdata_is_true heap_base k) False (Some m', u)"
  unfolding mdata_is_true_def by (rule goes_bindp, erule goes_get) (use goes_ret(1) [of _ False] in simp)

lemma init_zfd: "goes v (zfd_ready init_world (Suc n)) () v"
  by (simp add: goes_def bindp_def prog_defs way_def)

lemma init_zfd_open:
  assumes "f \<noteq> ''/dev/null''"
  shows "goes v (zfd_open init_world f fl) (init_ret [] (Fd (Open f fl))) v"
proof -
  have "goes v (zfd_open_from init_world f fl (Suc n)) (init_ret [] (Fd (Open f fl))) v" for n
    using assms by (simp add: goes_def bindp_def prog_defs way_def)
  from this [of 299] show ?thesis by (simp add: zfd_open_def ZFD_OPEN_RETRIES_def)
qed

lemma init_terminal:
  assumes "mdata_step heap_base m ''docker:open_stdin'' None m'"
  shows "goes (Some m, u) (setupTerminal heap_base init_world False) () (Some m', u)"
proof -
  have path: "zfd_path 1 = ''/dev/zfd/1''" "zfd_path 2 = ''/dev/zfd/2''" by code_simp+
  have closed: "goes v (close_or_fatal init_world fd) () v" for v fd
    by (simp add: goes_def close_or_fatal_def bindp_def prog_defs way_def)
  have zfd: "goes v (zfd_as init_world 1 [O_WRONLY] 1) () v" "goes v (zfd_as init_world 2 [O_WRONLY] 2) () v" for v
    unfolding zfd_as_def assertFd_def path by (rule goes_bindp, rule init_zfd_open, simp, simp add: goes_ret)+
  have "goes (Some m', u) (bindp (close_or_fatal init_world 1) (\<lambda>_. bindp (close_or_fatal init_world 2) (\<lambda>_.
      bindp (zfd_as init_world 1 [O_WRONLY] 1) (\<lambda>_. zfd_as init_world 2 [O_WRONLY] 2)))) () (Some m', u)"
    by (rule goes_bindp closed zfd)+
  then have "goes (Some m', u) (bindp (whenp False (bindp (close_or_fatal init_world 0) (\<lambda>_. zfd_as init_world 0 [O_RDWR] 0))) (\<lambda>_.
      bindp (close_or_fatal init_world 1) (\<lambda>_. bindp (close_or_fatal init_world 2) (\<lambda>_.
      bindp (zfd_as init_world 1 [O_WRONLY] 1) (\<lambda>_. zfd_as init_world 2 [O_WRONLY] 2))))) () (Some m', u)"
    by (rule goes_bindp [OF goes_ret(3)])
  then show ?thesis
    unfolding setupTerminal_def getStdinStatus_def by (intro goes_bindp [OF init_true [OF assms]]) simp
qed

lemma init_logging:
  "mdata_step heap_base m ''docker:logdriver'' None m' \<Longrightarrow> goes (Some m, u) (setupLogging heap_base init_world b) () (Some m', u)"
  unfolding setupLogging_def by (rule goes_bindp, erule goes_get) (simp add: goes_def bindp_def prog_defs)

lemma init_waiting:
  "mdata_step heap_base m ''docker:wait_for_attach'' None m' \<Longrightarrow>
   goes (Some m, u) (waitIfAttaching heap_base init_world (Suc n)) () (Some m', u)"
  unfolding waitIfAttaching_def
  by (rule goes_bindp [of _ _ False "(Some m', u)"], drule goes_get) (auto simp: goes_def bindp_def prog_defs whenp_def)

lemma init_provision: "goes v (provision_success init_world) () v"
  by (simp add: goes_def provision_success_def bindp_def prog_defs way_def)

lemma init_exec:
  assumes "strlist_holds cl [''/bin/ls'']" "strlist_holds env es" "length es < 2 ^ 32" "\<forall>e \<in> set es. nul_free e"
    and "nul_free wd" "length (env_path es) + 35 < 2 ^ 32"
  shows "\<exists>s'. execCmdline heap_base init_world cl env wd s = (Replaced, s')"
proof -
  have cmd: "strlist_get cl 0 = Inr (Some ''/bin/ls'')" using strlist_get_holds [OF assms(1), of 0] by simp
  have st: "w_stat world_sample ''/bin/ls'' = Some \<lparr>st_isdir = False, st_ixusr = True\<rparr>" by (simp add: world_sample_def)
  obtain c0 where c0: "execName heap_base (w_stat world_sample) ''/bin/ls'' env wd =
      bindr (custr_reset c0) (\<lambda>cu. or_fatal ERR_NO_MEMORY (strpath_append heap_base cu ''/bin/ls''))" "custr_dyn c0 []"
    using execName_start [OF good_heap_base assms(2-6), of "''/bin/ls''" "w_stat world_sample"] st by auto
  obtain cu where cu: "execName heap_base (w_stat world_sample) ''/bin/ls'' env wd = Inr cu" "custr_cstr cu = Inr (path_join [] ''/bin/ls'')"
    using command_path [OF good_heap_base c0(2), of "''/bin/ls''"] c0(1) by auto
  have "granted init_world cs (privs_calls d)" for cs d by (auto simp: privs_calls_def split: option.split)
  then have "drop_privs init_world s = (Returned (), s\<lparr>pr_calls := pr_calls s @ privs_calls (pr_dk s)\<rparr>)"
    by (rule drop_privs_granted) simp
  then show ?thesis by (simp add: execCmdline_def execp_def bindp_def prog_defs cmd cu)
qed

text \<open>From a part that goes through to the rest.\<close>

lemma goes_then: "way s = v \<Longrightarrow> goes v p x v' \<Longrightarrow> (\<And>s'. way s' = v' \<Longrightarrow> \<exists>t. f x s' = (Replaced, t)) \<Longrightarrow> \<exists>t. bindp p f s = (Replaced, t)"
  unfolding goes_def bindp_def by fastforce

lemma init_call: "(\<And>cs. init_ret cs c = 0) \<Longrightarrow> goes v (callp init_world c) 0 v"
  by (simp add: goes_def callp_def way_def)

lemma init_talks: "\<exists>m. dk_mdp (pr_dk init_process) = Some m \<and> talks heap_base m init_talk"
proof -
  let ?d = "pr_dk init_process"
  obtain m where m: "dk_mdp ?d = Some m" "handle_ready m (map (\<lambda>(k, v). int (length k + 5)) init_talk) (concat (map (\<lambda>(k, v). says v) init_talk))"
    using docker_sample_ready unfolding init_process_def v1_ready_def by auto
  have "plain ''/bin/ls''" by (simp add: plain_def)
  then have "sayable (Some (quoted ''/bin/ls''))" by (rule quoted_text)
  moreover have "sayable None" "sayable (Some ''lx'')" "sayable (Some ''7'')" by (simp_all add: sayable_def v1_line_ok_def)
  ultimately have "\<forall>(k, v) \<in> set init_talk. arg_ok (Some k) \<and> sayable v" by (simp add: init_talk_def arg_ok_def)
  from v1_talks [OF good_heap_base m(2) this] show ?thesis using m(1) by blast
qed

lemma init_end:
  fixes s :: "tree_heap process"
  assumes "mdata_step heap_base m ''docker:tty'' None m1" "mdata_step heap_base m1 ''docker:open_stdin'' None m2"
    and "mdata_step heap_base m2 ''docker:logdriver'' None m3" "mdata_step heap_base m3 ''docker:wait_for_attach'' None m4"
    and "way s = (Some m, u)" "custr_dyn workdir dir" "nul_free dir" "strlist_holds cl [''/bin/ls'']"
    and "strlist_holds env es" "length es < 2 ^ 32" "\<forall>e \<in> set es. nul_free e" "length (env_path es) + 35 < 2 ^ 32"
  shows "\<exists>t. bindp (mdata_is_true heap_base ''docker:tty'') (\<lambda>ctty.
    bindp (zfd_ready init_world 60) (\<lambda>_.
    bindp (setupTerminal heap_base init_world ctty) (\<lambda>_.
    bindp (setupLogging heap_base init_world ctty) (\<lambda>_.
    bindp (waitIfAttaching heap_base init_world 60) (\<lambda>_.
    bindp (callp init_world (Fd (Close 4))) (\<lambda>_.
    bindp (callp init_world (Fd (Close 5))) (\<lambda>_.
    bindp (callp init_world (Fd (Close 6))) (\<lambda>_.
    bindp (provision_success init_world) (\<lambda>_.
    bindp (purep (custr_cstr workdir)) (\<lambda>wd.
    execCmdline heap_base init_world cl env wd)))))))))) s = (Replaced, t)"
proof -
  have fuel: "(60 :: nat) = Suc 59" by simp
  have c: "init_ret cs (Fd (Close y)) = 0" for cs y by simp
  have wd: "goes v (purep (custr_cstr workdir)) dir v" for v
    using custr_dyn_reads [OF assms(6,7)] by (simp add: goes_def purep_def)
  show ?thesis
    by (rule goes_then [OF assms(5) init_true [OF assms(1)]], (erule goes_then,
        rule init_zfd [of _ 59, folded fuel] init_terminal [OF assms(2)] init_logging [OF assms(3)]
          init_waiting [of _ _ _ 59, OF assms(4), folded fuel] init_call [OF c] init_provision wd)+)
      (rule init_exec [OF assms(8-11,7,12)])
qed

lemma init_runs: "\<exists>s'. dockerinit tree_nv heap_base 60 init_world init_process = (Replaced, s')"
proof -
  obtain m where m: "dk_mdp (pr_dk init_process) = Some m" "talks heap_base m init_talk" using init_talks by blast
  then obtain m1 m2 m3 m4 m5 m6 m7 m8 m9 m10 m11 m12 m13 m14 m15 m16 m17 m18 where steps:
    "mdata_step heap_base m ''sdc:brand'' (Some ''lx'') m1" "mdata_step heap_base m1 ''sdc:nics'' None m2"
    "mdata_step heap_base m2 ''sdc:routes'' None m3" "mdata_step heap_base m3 ''sdc:nics'' None m4"
    "mdata_step heap_base m4 ''sdc:routes'' None m5" "mdata_step heap_base m5 ''docker:noipmgmtd'' None m6"
    "mdata_step heap_base m6 ''docker:nfsvolumes'' None m7" "mdata_step heap_base m7 ''sdc:hostname'' None m8"
    "mdata_step heap_base m8 ''docker:user'' (Some ''7'') m9" "mdata_step heap_base m9 ''docker:workdir'' None m10"
    "mdata_step heap_base m10 ''docker:linkEnv'' None m11" "mdata_step heap_base m11 ''docker:env'' None m12"
    "mdata_step heap_base m12 ''docker:entrypoint'' None m13" "mdata_step heap_base m13 ''docker:cmd'' (Some (quoted ''/bin/ls'')) m14"
    "mdata_step heap_base m14 ''docker:tty'' None m15" "mdata_step heap_base m15 ''docker:open_stdin'' None m16"
    "mdata_step heap_base m16 ''docker:logdriver'' None m17" "mdata_step heap_base m17 ''docker:wait_for_attach'' None m18"
    by (auto simp: init_talk_def)
  obtain sl where sl: "strlist_alloc heap_base 0 = (Ret_ok, Some sl)" "strlist_holds sl []"
    using strlist_alloc_ok [OF good_heap_base, of 0] by (auto simp: strlist_holds_def)
  have start: "way init_process = (Some m, None, None, Some ''box'')"
    using m(1) by (simp add: way_def init_process_def docker_sample_def)
  have fuel: "(60 :: nat) = Suc 59" "11 \<le> (60 :: nat)" by simp_all
  have c: "init_ret cs (Fs x) = 0" "init_ret cs (Fd (Close y)) = 0" for cs x y by simp_all
  note parts = init_log init_brand [OF steps(1)] init_call [OF c(1)] init_ipmgmtd [of _ 59, folded fuel(1)]
    init_network [OF steps(2-5) fuel(2)] init_kill [OF steps(6)] init_lists [OF steps(7)] init_hostname [OF steps(8)]
  show ?thesis
    unfolding dockerinit_def sl(1) prod.case cret.case option.case mountNfsVolumes_def getTtyStatus_def
  proof (rule goes_then [OF start init_log], (erule goes_then, rule parts)+, goal_cases)
    case (1 sa sb sc sd se sf sg sh s1)
    let ?pw = "\<lparr>pw_name = ''lp'', pw_uid = 7, pw_gid = 8, pw_dir = ''/''\<rparr>" and ?gr = "\<lparr>gr_name = ''lp'', gr_gid = 8\<rparr>"
    obtain s2 where s2: "dkp (\<lambda>d. bindr (getUserGroupData heap_base (w_ns init_world) d) (\<lambda>d. Inr ((), d))) s1 = (Returned (), s2)"
      "way s2 = (Some m9, Some ?pw, Some ?gr, None)" using init_user [OF steps(9) 1] by blast
    have nf: "\<forall>p. Some ?pw = Some p \<longrightarrow> nul_free (pw_dir p)" by simp
    obtain wd s3 dir where s3: "dkp (setupWorkdir heap_base (w_mkdirp init_world) (w_chdir init_world)) s2 = (Returned wd, s3)"
      "way s3 = (Some m10, Some ?pw, Some ?gr, None)" "custr_dyn wd dir" "nul_free dir" using init_workdir [OF steps(10) s2(2) nf] by blast
    obtain env s4 es where s4: "dkp (\<lambda>d. buildCmdEnv tree_nv heap_base 60 d sl) s3 = (Returned env, s4)"
      "way s4 = (Some m12, Some ?pw, Some ?gr, None)" "strlist_holds env es" "\<forall>e \<in> set es. nul_free e" "length es < 2 ^ 32"
      "length (env_path es) + 35 < 2 ^ 32" using init_env [OF steps(11,12) s3(2) fuel(2) sl(2)] by blast
    have cmd: "plain ''/bin/ls''" "3 * length ''/bin/ls'' + 17 \<le> 60" by (simp_all add: plain_def)
    obtain cl s5 where s5: "dkp (\<lambda>d. buildCmdline tree_nv heap_base 60 d sl) s4 = (Returned cl, s5)"
      "way s5 = (Some m14, Some ?pw, Some ?gr, None)" "strlist_holds cl [''/bin/ls'']"
      using init_cmdline [OF steps(13,14) s4(2) cmd sl(2)] by blast
    show ?case
      using init_end [OF steps(15-18) s5(2) s3(3,4) s5(3) s4(3,5,4,6)]
      by (simp only: bindp_def [of "dkp _"] s2(1) s3(1) s4(1) s5(1) prod.case ending.case)
  qed
qed

section \<open>Properties\<close>



end
