(* ===== verification/Fswatcher.thy ===== *)
theory Fswatcher
  imports Avl_Library Libc_Numbers
begin

text \<open>
  \<^verbatim>\<open>src/src/fswatcher.c\<close>: the program that watches files for \<^verbatim>\<open>vmadm\<close>. Two threads take their input from
  the standard input (commands) and from an event port (file events) and handle it under one mutex; a
  tree of nodes has the files that are watched.

  The heap is explicit: \<open>fw_heap\<close> has the blocks that are allocated, so that an access through a pointer to
  a freed block is a fault. The event port is the part of the kernel the program relies on: \<open>fw_port\<close> maps the
  address of an associated \<^verbatim>\<open>file_obj\<close> to the pointer handed over with it; an association ends when its
  event is delivered. What else the system answers within one critical section is the record
  \<^verbatim>\<open>fsw_env\<close>. The program is built with 32-bit \<^verbatim>\<open>long\<close>.
\<close>

unbundle bit_operations_syntax

section \<open>Constants\<close>

definition MAX_STAT_RETRY :: nat where "MAX_STAT_RETRY = 10"
definition SYSTEM_KEY :: nat where "SYSTEM_KEY = 0"
definition MAX_KEY_LEN :: nat where "MAX_KEY_LEN = 20"
definition PATH_MAX :: nat where "PATH_MAX = 1024"
definition MAX_CMD_LEN :: nat where "MAX_CMD_LEN = MAX_KEY_LEN + 1 + 7 + 1 + PATH_MAX + 1"

definition ERR_INVALID_COMMAND :: nat where "ERR_INVALID_COMMAND = 1"
definition ERR_INVALID_KEY :: nat where "ERR_INVALID_KEY = 2"
definition ERR_UNKNOWN_COMMAND :: nat where "ERR_UNKNOWN_COMMAND = 3"
definition ERR_CANNOT_ASSOCIATE :: nat where "ERR_CANNOT_ASSOCIATE = 4"
definition RESULT_SUCCESS :: nat where "RESULT_SUCCESS = 0"
definition RESULT_FAILURE :: nat where "RESULT_FAILURE = 1"

text \<open>The event bits of \<^verbatim>\<open>sys/port.h\<close>.\<close>

definition FILE_ACCESS :: "32 word" where "FILE_ACCESS = 0x1"
definition FILE_MODIFIED :: "32 word" where "FILE_MODIFIED = 0x2"
definition FILE_ATTRIB :: "32 word" where "FILE_ATTRIB = 0x4"
definition FILE_DELETE :: "32 word" where "FILE_DELETE = 0x10"
definition FILE_RENAME_TO :: "32 word" where "FILE_RENAME_TO = 0x20"
definition FILE_RENAME_FROM :: "32 word" where "FILE_RENAME_FROM = 0x40"
definition FILE_TRUNC :: "32 word" where "FILE_TRUNC = 0x100000"
definition FILE_NOFOLLOW :: "32 word" where "FILE_NOFOLLOW = 0x10000000"
definition UNMOUNTED :: "32 word" where "UNMOUNTED = 0x20000000"
definition MOUNTEDOVER :: "32 word" where "MOUNTEDOVER = 0x40000000"
definition FILE_EXCEPTION :: "32 word" where
  "FILE_EXCEPTION = UNMOUNTED OR FILE_DELETE OR FILE_RENAME_TO OR FILE_RENAME_FROM OR MOUNTEDOVER"

definition ELOOP :: errno where "ELOOP = E_OTHER 90"
definition ENOTDIR :: errno where "ENOTDIR = E_OTHER 20"

section \<open>State\<close>

text \<open>
  A node: its address (also that of its \<^verbatim>\<open>file_obj\<close>), the pointer to its name, the name there (which is
  never written again) and its hash.
\<close>

record files_tree_node =
  ftn_addr :: nat
  ftn_ptr :: nat
  ftn_name :: "char list"
  ftn_hash :: "32 word"

datatype cell = Node_cell | Name_cell "char list"

text \<open>What is printed: name-value lists, as JSON or plain.\<close>

datatype nvval =
    NV_str "char list" | NV_u64 nat | NV_u32 nat | NV_i32 int | NV_bool bool
  | NV_strs "char list list" | NV_u64s "nat list" | NV_nvl "(char list \<times> nvval) list"

type_synonym nvl = "(char list \<times> nvval) list"

datatype printed = Json nvl | Plain nvl

text \<open>Where the threads are: waiting, holding their input, or holding the mutex as well.\<close>

datatype thread = T_main | T_stdin | T_events
datatype stdin_pc = S_read | S_line "char list" | S_locked "char list"
datatype events_pc = E_wait | E_got nat "32 word" | E_locked nat "32 word"
datatype main_pc = M_ready | M_join

record 't fsw =
  fw_tree :: 't
  fw_heap :: "nat \<Rightarrow> cell option"
  fw_port :: "nat \<Rightarrow> nat option"
  fw_out :: "printed list"
  fw_opt_j :: bool
  fw_mutex :: "thread option"
  fw_in :: "char list"
  fw_stdin :: stdin_pc
  fw_events :: events_pc
  fw_main :: main_pc

text \<open>
  The system during one critical section: the clock, whether the functions on name-value lists succeed,
  the answers of successive calls of \<^verbatim>\<open>stat\<close> (\<open>None\<close>: success), whether \<^verbatim>\<open>port_associate\<close> succeeds, \<^verbatim>\<open>errno\<close>
  when a message prints it, what \<^verbatim>\<open>malloc\<close> and \<^verbatim>\<open>strdup\<close> return, and names and numbers of errors.
\<close>

record fsw_env =
  fe_time :: "(nat \<times> nat) option"
  fe_nv :: bool
  fe_stat :: "nat \<Rightarrow> errno option"
  fe_associate :: bool
  fe_errno :: errno
  fe_malloc :: "nat option"
  fe_strdup :: "nat option"
  fe_calloc :: bool
  fe_pid :: int
  fe_num :: "errno \<Rightarrow> int"
  fe_strerror :: "errno \<Rightarrow> char list"

section \<open>The tree of files\<close>

definition files_tree_node_comparator :: "files_tree_node comparator" where
  "files_tree_node_comparator l r =
     (if ftn_hash l < ftn_hash r then -1
      else if ftn_hash r < ftn_hash l then 1
      else (let ret = strcmp (ftn_name l) (ftn_name r)
            in if ret < 0 then -1 else if 0 < ret then 1 else 0))"

text \<open>\<^verbatim>\<open>char\<close> is signed: a byte from 128 on is subtracted.\<close>

definition djb2_step :: "32 word \<Rightarrow> char \<Rightarrow> 32 word" where
  "djb2_step hash c =
     (push_bit 5 hash + hash) + (let n = (of_char c :: int) in of_int (if n < 128 then n else n - 256))"

definition djb2 :: "char list \<Rightarrow> 32 word" where
  "djb2 str = foldl djb2_step 5381 str"

definition find_handle :: "('t, files_tree_node) avl_ops \<Rightarrow> 't fsw \<Rightarrow> char list \<Rightarrow> files_tree_node option" where
  "find_handle A s pathname =
     fst (avl_find A (fw_tree s) \<lparr>ftn_addr = 0, ftn_ptr = 0, ftn_name = pathname, ftn_hash = djb2 pathname\<rparr>)"

definition add_handle :: "('t, files_tree_node) avl_ops \<Rightarrow> files_tree_node \<Rightarrow> 't fsw \<Rightarrow> 't fsw" where
  "add_handle A ftn s = s\<lparr>fw_tree := avl_add A (fw_tree s) ftn\<rparr>"

definition remove_handle :: "('t, files_tree_node) avl_ops \<Rightarrow> files_tree_node \<Rightarrow> 't fsw \<Rightarrow> 't fsw" where
  "remove_handle A ftn s = s\<lparr>fw_tree := avl_remove A (fw_tree s) ftn\<rparr>"

definition free_block :: "nat \<Rightarrow> 't fsw \<Rightarrow> 't fsw outcome" where
  "free_block a s = (if fw_heap s a = None then Inl Fault_OOB else Inr (s\<lparr>fw_heap := (fw_heap s)(a := None)\<rparr>))"

definition destroy_handle :: "('t, files_tree_node) avl_ops \<Rightarrow> files_tree_node \<Rightarrow> 't fsw \<Rightarrow> 't fsw outcome" where
  "destroy_handle A ftn s =
     bindr (free_block (ftn_ptr ftn) (remove_handle A ftn s)) (free_block (ftn_addr ftn))"

text \<open>The string a pointer points to.\<close>

definition deref :: "'t fsw \<Rightarrow> nat \<Rightarrow> char list outcome" where
  "deref s p = (case fw_heap s p of Some (Name_cell str) \<Rightarrow> Inr str | _ \<Rightarrow> Inl Fault_OOB)"

section \<open>Messages\<close>

text \<open>\<^verbatim>\<open>vsnprintf\<close> into a buffer of 4096 bytes.\<close>

definition message_of :: "char list \<Rightarrow> char list" where
  "message_of text = take 4095 text"

definition make_nvlist :: "fsw_env \<Rightarrow> char list \<Rightarrow> nvl outcome" where
  "make_nvlist e type =
     (if \<not> fe_nv e then Inl (Fault_Exit 1)
      else (case fe_time e of
              None \<Rightarrow> Inl (Fault_Exit 1)
            | Some (sec, nsec) \<Rightarrow> Inr [(''type'', NV_str type), (''time'', NV_u64s [sec, nsec])]))"

definition print_nvlist :: "nvl \<Rightarrow> 't fsw \<Rightarrow> 't fsw" where
  "print_nvlist nvl s = s\<lparr>fw_out := fw_out s @ [if fw_opt_j s then Json nvl else Plain nvl]\<rparr>"

definition flag_names :: "(32 word \<times> char list) list" where
  "flag_names =
     [(FILE_ACCESS, ''FILE_ACCESS''), (FILE_ATTRIB, ''FILE_ATTRIB''), (FILE_DELETE, ''FILE_DELETE''),
      (FILE_EXCEPTION, ''FILE_EXCEPTION''), (FILE_MODIFIED, ''FILE_MODIFIED''), (FILE_RENAME_FROM, ''FILE_RENAME_FROM''),
      (FILE_RENAME_TO, ''FILE_RENAME_TO''), (FILE_TRUNC, ''FILE_TRUNC''), (FILE_NOFOLLOW, ''FILE_NOFOLLOW''),
      (MOUNTEDOVER, ''MOUNTEDOVER''), (UNMOUNTED, ''UNMOUNTED'')]"

definition changes_of :: "32 word \<Rightarrow> char list list" where
  "changes_of event = map snd (filter (\<lambda>(flag, name). event AND flag \<noteq> 0) flag_names)"

definition print_event :: "fsw_env \<Rightarrow> 32 word \<Rightarrow> char list \<Rightarrow> bool \<Rightarrow> 't fsw \<Rightarrow> 't fsw outcome" where
  "print_event e event pathname is_final s =
     bindr (make_nvlist e ''event'') (\<lambda>nvl.
     Inr (print_nvlist (nvl @ [(''changes'', NV_strs (changes_of event)), (''pathname'', NV_str pathname),
       (''revents'', NV_i32 (sint event)), (''final'', NV_bool is_final)]) s))"

definition print_ready :: "fsw_env \<Rightarrow> 't fsw \<Rightarrow> 't fsw outcome" where
  "print_ready e s = bindr (make_nvlist e ''ready'') (\<lambda>nvl. Inr (print_nvlist nvl s))"

definition print_error :: "fsw_env \<Rightarrow> nat \<Rightarrow> nat \<Rightarrow> char list \<Rightarrow> 't fsw \<Rightarrow> 't fsw outcome" where
  "print_error e key code text s =
     bindr (make_nvlist e ''error'') (\<lambda>nvl.
     Inr (print_nvlist (nvl @ [(''key'', NV_u64 key), (''code'', NV_u32 code), (''message'', NV_str (message_of text))]) s))"

definition print_response :: "fsw_env \<Rightarrow> nat \<Rightarrow> nat \<Rightarrow> char list \<Rightarrow> char list \<Rightarrow> 't fsw \<Rightarrow> 't fsw outcome" where
  "print_response e key code pathname text s =
     bindr (make_nvlist e ''response'') (\<lambda>nvl.
     Inr (print_nvlist (nvl @ [(''key'', NV_u64 key), (''code'', NV_u32 code), (''pathname'', NV_str pathname),
       (''message'', NV_str (message_of text)),
       (''result'', NV_str (if code = RESULT_SUCCESS then ''SUCCESS'' else ''FAIL''))]) s))"

text \<open>The walk that fills the array of names; it has room for as many as the tree has nodes.\<close>

fun filenames_from :: "('t, files_tree_node) avl_ops \<Rightarrow> 't \<Rightarrow> nat \<Rightarrow> files_tree_node option \<Rightarrow> char list list outcome" where
  "filenames_from A t n None = Inr []"
| "filenames_from A t 0 (Some ftn) = Inl Fault_OOB"
| "filenames_from A t (Suc n) (Some ftn) =
     bindr (filenames_from A t n (AVL_NEXT A t ftn)) (\<lambda>names. Inr (ftn_name ftn # names))"

definition print_status :: "('t, files_tree_node) avl_ops \<Rightarrow> fsw_env \<Rightarrow> nat \<Rightarrow> 't fsw \<Rightarrow> 't fsw outcome" where
  "print_status A e key s =
     bindr (make_nvlist e ''response'') (\<lambda>nvl.
     if \<not> fe_calloc e then Inl (Fault_Exit 1)
     else
       let numnodes = avl_numnodes A (fw_tree s) in
       bindr (filenames_from A (fw_tree s) numnodes (avl_first A (fw_tree s))) (\<lambda>filenames.
       Inr (print_nvlist (nvl @ [(''key'', NV_u64 key), (''code'', NV_u32 RESULT_SUCCESS), (''result'', NV_str ''SUCCESS''),
         (''data'', NV_nvl [(''files'', NV_strs filenames), (''files_count'', NV_u32 numnodes), (''pid'', NV_i32 (fe_pid e))])]) s)))"

section \<open>Watching\<close>

text \<open>\<open>i\<close> calls were made so far; the result is the error, \<open>None\<close> for a success.\<close>

function stat_file_from :: "fsw_env \<Rightarrow> nat \<Rightarrow> errno option outcome" where
  "stat_file_from e i =
     (if MAX_STAT_RETRY \<le> i then Inl Fault_Abort
      else (case fe_stat e i of
              None \<Rightarrow> Inr None
            | Some stat_err \<Rightarrow> if stat_err \<noteq> EINTR then Inr (Some stat_err) else stat_file_from e (i + 1)))"
  by pat_completeness auto

termination
  by (relation "measure (\<lambda>(e, i). MAX_STAT_RETRY - i)") auto

declare stat_file_from.simps [simp del]

definition stat_file :: "fsw_env \<Rightarrow> errno option outcome" where
  "stat_file e = stat_file_from e 0"

definition get_stat :: "fsw_env \<Rightarrow> errno option outcome" where
  "get_stat e =
     bindr (stat_file e) (\<lambda>stat_ret.
     case stat_ret of
       None \<Rightarrow> Inr None
     | Some err \<Rightarrow> if err \<in> {ELOOP, ENOTDIR, EACCES, ENOENT} then Inr (Some err) else Inl Fault_Abort)"

text \<open>The kernel keeps the object and the pointer of a new association, if it succeeds.\<close>

definition port_associate :: "fsw_env \<Rightarrow> files_tree_node \<Rightarrow> nat \<Rightarrow> 't fsw \<Rightarrow> 't fsw" where
  "port_associate e ftn name s = (if fe_associate e then s\<lparr>fw_port := (fw_port s)(ftn_addr ftn \<mapsto> name)\<rparr> else s)"

definition errno_text :: "fsw_env \<Rightarrow> errno \<Rightarrow> char list" where
  "errno_text e err = ''errno '' @ fmt_d (fe_num e err) @ '': '' @ fe_strerror e err"

definition is_last :: "32 word \<Rightarrow> bool" where
  "is_last revents \<longleftrightarrow> revents AND FILE_DELETE \<noteq> 0 \<or> revents AND FILE_RENAME_FROM \<noteq> 0 \<or>
     revents AND UNMOUNTED \<noteq> 0 \<or> revents AND MOUNTEDOVER \<noteq> 0"

definition rearm ::
    "('t, files_tree_node) avl_ops \<Rightarrow> fsw_env \<Rightarrow> nat \<Rightarrow> nat \<Rightarrow> 32 word \<Rightarrow> files_tree_node \<Rightarrow> char list \<Rightarrow> 't fsw \<Rightarrow> 't fsw outcome" where
  "rearm A e key name revents ftn str s =
     (let s = port_associate e ftn name s in
      if key \<noteq> SYSTEM_KEY
      then (if revents \<noteq> 0 then Inl Fault_Abort
            else if \<not> fe_associate e
            then bindr (print_response e key RESULT_FAILURE str (''port_associate(3c) failed with '' @ errno_text e (fe_errno e)) s)
                   (destroy_handle A ftn)
            else print_response e key RESULT_SUCCESS str ''port_associate(3c) started watching path'' s)
      else if revents = 0 then Inl Fault_Abort
      else bindr (print_event e revents str False s) (\<lambda>s.
           if \<not> fe_associate e
           then bindr (print_error e key ERR_CANNOT_ASSOCIATE
                  (''port_associate(3c) failed for '' @ [CHR 0x27] @ str @ [CHR 0x27] @ '', '' @ errno_text e (fe_errno e)) s)
                  (destroy_handle A ftn)
           else Inr s))"

definition check_and_rearm_event ::
    "('t, files_tree_node) avl_ops \<Rightarrow> fsw_env \<Rightarrow> nat \<Rightarrow> nat \<Rightarrow> 32 word \<Rightarrow> files_tree_node option \<Rightarrow> 't fsw \<Rightarrow> 't fsw outcome" where
  "check_and_rearm_event A e key name revents ftn s =
     bindr (deref s name) (\<lambda>str.
     case (case ftn of None \<Rightarrow> find_handle A s str | Some f \<Rightarrow> Some f) of
       None \<Rightarrow> Inr s
     | Some ftn \<Rightarrow>
         bindr (get_stat e) (\<lambda>stat_ret.
         let is_final = (stat_ret \<noteq> None \<or> is_last revents) in
         bindr (case stat_ret of
                  Some err \<Rightarrow>
                    if key \<noteq> SYSTEM_KEY
                    then print_response e key RESULT_FAILURE str (''stat(2) failed with '' @ errno_text e err) s
                    else Inr s
                | None \<Rightarrow> Inr s) (\<lambda>s.
         if is_final
         then bindr (if revents \<noteq> 0 then print_event e revents str True s else Inr s) (destroy_handle A ftn)
         else rearm A e key name revents ftn str s)))"

definition watch_path :: "('t, files_tree_node) avl_ops \<Rightarrow> fsw_env \<Rightarrow> char list \<Rightarrow> nat \<Rightarrow> 't fsw \<Rightarrow> 't fsw outcome" where
  "watch_path A e pathname key s =
     (if find_handle A s pathname \<noteq> None then print_response e key RESULT_SUCCESS pathname ''already watching'' s
      else (case fe_malloc e of
              None \<Rightarrow> Inl (Fault_Exit 1)
            | Some addr \<Rightarrow>
                (case fe_strdup e of
                   None \<Rightarrow> Inl (Fault_Exit 1)
                 | Some dupname \<Rightarrow>
                     let s = s\<lparr>fw_heap := (fw_heap s)(addr \<mapsto> Node_cell, dupname \<mapsto> Name_cell pathname)\<rparr>;
                         ftn = \<lparr>ftn_addr = addr, ftn_ptr = dupname, ftn_name = pathname, ftn_hash = djb2 pathname\<rparr>
                     in check_and_rearm_event A e key dupname 0 (Some ftn) (add_handle A ftn s))))"

text \<open>\<^verbatim>\<open>port_dissociate\<close> succeeds for an object that is associated.\<close>

definition unwatch_path :: "('t, files_tree_node) avl_ops \<Rightarrow> fsw_env \<Rightarrow> char list \<Rightarrow> nat \<Rightarrow> 't fsw \<Rightarrow> 't fsw outcome" where
  "unwatch_path A e pathname key s =
     (case find_handle A s pathname of
        None \<Rightarrow>
          print_response e key RESULT_FAILURE pathname
            (''not watching '' @ [CHR 0x27] @ pathname @ [CHR 0x27] @ '', cannot unwatch'') s
      | Some ftn \<Rightarrow>
          let ret = (fw_port s (ftn_addr ftn) \<noteq> None);
              s = s\<lparr>fw_port := (fw_port s)(ftn_addr ftn := None)\<rparr> in
          bindr (destroy_handle A ftn s) (\<lambda>s.
          if \<not> ret
          then print_response e key RESULT_FAILURE pathname (''failed to unregister '' @ [CHR 0x27] @ pathname @ [CHR 0x27] @ '' (errno '' @
                 fmt_d (fe_num e (fe_errno e)) @ ''): '' @ fe_strerror e (fe_errno e)) s
          else print_response e key RESULT_SUCCESS pathname (''no longer watching '' @ [CHR 0x27] @ pathname @ [CHR 0x27]) s))"

section \<open>Commands\<close>

text \<open>\<^verbatim>\<open>sscanf(str, "%llu %s %s", ...)\<close>: the number of conversions, and what they stored.\<close>

definition scan_word :: "char list \<Rightarrow> char list \<times> char list" where
  "scan_word s = (let s = dropWhile isspace s in (takeWhile (\<lambda>c. \<not> isspace c) s, dropWhile (\<lambda>c. \<not> isspace c) s))"

definition sscanf_command :: "char list \<Rightarrow> nat \<times> nat \<times> char list \<times> char list" where
  "sscanf_command str =
     (if scan_number 10 str = None then (0, 0, [], [])
      else
        let (key, r) = strtoul 10 str;
            (cmd, r) = scan_word r;
            (path, _) = scan_word r
        in (if cmd = [] then 1 else if path = [] then 2 else 3, key, cmd, path))"

definition process_stdin_line :: "('t, files_tree_node) avl_ops \<Rightarrow> fsw_env \<Rightarrow> char list \<Rightarrow> 't fsw \<Rightarrow> 't fsw outcome" where
  "process_stdin_line A e str s =
     (if MAX_CMD_LEN < length str then print_error e SYSTEM_KEY ERR_INVALID_COMMAND ''command line too long'' s
      else
        let (res, key, cmd, path) = sscanf_command str in
        if \<not> (res = 2 \<or> res = 3) then print_error e SYSTEM_KEY ERR_INVALID_COMMAND ''invalid command line'' s
        else if key = SYSTEM_KEY then print_error e SYSTEM_KEY ERR_INVALID_KEY ''invalid key: 0'' s
        else if cmd = ''UNWATCH''
        then (if path = [] then print_error e SYSTEM_KEY ERR_INVALID_COMMAND ''invalid command line - UNWATCH requires pathname'' s
              else unwatch_path A e path key s)
        else if cmd = ''WATCH''
        then (if path = [] then print_error e SYSTEM_KEY ERR_INVALID_COMMAND ''invalid command line - WATCH requires pathname'' s
              else watch_path A e path key s)
        else if cmd = ''STATUS''
        then (if path \<noteq> [] then print_error e SYSTEM_KEY ERR_INVALID_COMMAND ''invalid command line - STATUS takes no arguments'' s
              else print_status A e key s)
        else print_error e key ERR_UNKNOWN_COMMAND (''unknown command '' @ [CHR 0x27] @ cmd @ [CHR 0x27]) s)"

section \<open>Threads\<close>

text \<open>\<^verbatim>\<open>fgets\<close> with a buffer of \<open>n\<close> bytes: the characters it takes, up to a newline or \<open>n - 1\<close> of them.\<close>

definition fgets_take :: "nat \<Rightarrow> char list \<Rightarrow> nat" where
  "fgets_take n s = min (n - 1) (case dropWhile (\<lambda>c. c \<noteq> NL) s of [] \<Rightarrow> length s | _ \<Rightarrow> Suc (length (takeWhile (\<lambda>c. c \<noteq> NL) s)))"

text \<open>The options as \<^verbatim>\<open>getopt\<close> returns them.\<close>

fun parse_opts :: "char list \<Rightarrow> bool \<times> bool \<Rightarrow> (bool \<times> bool) outcome" where
  "parse_opts [] opts = Inr opts"
| "parse_opts (c # cs) (j, r) =
     (if c = CHR ''h'' then Inl (Fault_Exit 0)
      else if c = CHR ''j'' then parse_opts cs (True, r)
      else if c = CHR ''r'' then parse_opts cs (j, True)
      else Inl (Fault_Exit 1))"

text \<open>
  \<^verbatim>\<open>main\<close> up to the creation of the threads, and \<^verbatim>\<open>create_thread\<close>: \<open>port_ok\<close> and \<open>threads_ok\<close> tell whether the
  event port and the threads can be created.
\<close>

definition fsw_main :: "('t, files_tree_node) avl_ops \<Rightarrow> bool \<Rightarrow> bool \<Rightarrow> char list \<Rightarrow> char list \<Rightarrow> 't fsw outcome" where
  "fsw_main A port_ok threads_ok cmdline input =
     bindr (parse_opts cmdline (False, False)) (\<lambda>(opt_j, opt_r).
     if \<not> port_ok \<or> \<not> threads_ok then Inl (Fault_Exit 1)
     else Inr \<lparr>fw_tree = avl_create A files_tree_node_comparator, fw_heap = (\<lambda>_. None), fw_port = (\<lambda>_. None), fw_out = [],
       fw_opt_j = opt_j, fw_mutex = (if opt_r then Some T_main else None), fw_in = input, fw_stdin = S_read,
       fw_events = E_wait, fw_main = (if opt_r then M_ready else M_join)\<rparr>)"

text \<open>The memory allocator hands out blocks that are not in use.\<close>

definition fresh_blocks :: "fsw_env \<Rightarrow> 't fsw \<Rightarrow> bool" where
  "fresh_blocks e s \<longleftrightarrow> (\<forall>a. fe_malloc e = Some a \<longrightarrow> fw_heap s a = None) \<and>
     (\<forall>p. fe_strdup e = Some p \<longrightarrow> fw_heap s p = None) \<and> (fe_malloc e = fe_strdup e \<longrightarrow> fe_malloc e = None)"

text \<open>
  The steps of the program. A thread works under the mutex and releases it at the end of the step; reading
  a line and taking an event from the port need no mutex. \<open>Inl\<close>: the program ends.
\<close>

inductive fsw_step :: "('t, files_tree_node) avl_ops \<Rightarrow> 't fsw \<Rightarrow> 't fsw outcome \<Rightarrow> bool" for A where
  ready: "fw_main s = M_ready \<Longrightarrow> fw_mutex s = Some T_main \<Longrightarrow>
    fsw_step A s (bindr (print_ready e s) (\<lambda>s. Inr (s\<lparr>fw_main := M_join, fw_mutex := None\<rparr>)))"
| read_line: "fw_stdin s = S_read \<Longrightarrow> fw_in s \<noteq> [] \<Longrightarrow> n = fgets_take (MAX_CMD_LEN + 1) (fw_in s) \<Longrightarrow>
    fsw_step A s (Inr (s\<lparr>fw_stdin := S_line (takeWhile (\<lambda>c. c \<noteq> NUL) (take n (fw_in s))), fw_in := drop n (fw_in s)\<rparr>))"
| closed: "fw_stdin s = S_read \<Longrightarrow> fw_in s = [] \<Longrightarrow> fsw_step A s (Inl (Fault_Exit 0))"
| lock_stdin: "fw_stdin s = S_line l \<Longrightarrow> fw_mutex s = None \<Longrightarrow>
    fsw_step A s (Inr (s\<lparr>fw_stdin := S_locked l, fw_mutex := Some T_stdin\<rparr>))"
| work_stdin: "fw_stdin s = S_locked l \<Longrightarrow> fresh_blocks e s \<Longrightarrow>
    fsw_step A s (bindr (process_stdin_line A e l s) (\<lambda>s. Inr (s\<lparr>fw_stdin := S_read, fw_mutex := None\<rparr>)))"
| port_get: "fw_events s = E_wait \<Longrightarrow> fw_port s a = Some p \<Longrightarrow> revents \<noteq> 0 \<Longrightarrow>
    fsw_step A s (Inr (s\<lparr>fw_events := E_got p revents, fw_port := (fw_port s)(a := None)\<rparr>))"
| lock_events: "fw_events s = E_got p revents \<Longrightarrow> fw_mutex s = None \<Longrightarrow>
    fsw_step A s (Inr (s\<lparr>fw_events := E_locked p revents, fw_mutex := Some T_events\<rparr>))"
| work_events: "fw_events s = E_locked p revents \<Longrightarrow> fresh_blocks e s \<Longrightarrow>
    fsw_step A s (bindr (check_and_rearm_event A e SYSTEM_KEY p revents None s) (\<lambda>s. Inr (s\<lparr>fw_events := E_wait, fw_mutex := None\<rparr>)))"

inductive fsw_reach :: "('t, files_tree_node) avl_ops \<Rightarrow> 't fsw \<Rightarrow> 't fsw outcome \<Rightarrow> bool" for A s0 where
  start: "fsw_reach A s0 (Inr s0)"
| further: "fsw_reach A s0 (Inr s) \<Longrightarrow> fsw_step A s r \<Longrightarrow> fsw_reach A s0 r"

section \<open>The comparator\<close>

lemma comparator_zero [simp]:
  "files_tree_node_comparator l r = 0 \<longleftrightarrow> ftn_hash l = ftn_hash r \<and> ftn_name l = ftn_name r"
  using strcmp_antisym [of "ftn_name l" "ftn_name r"]
  by (auto simp: files_tree_node_comparator_def Let_def linorder_neq_iff)

lemma files_order [simp]: "comparator_order files_tree_node_comparator"
  unfolding comparator_order_def
proof (intro conjI allI impI)
  fix x y z :: files_tree_node
  show "files_tree_node_comparator x x = 0" by simp
  show "files_tree_node_comparator x y < 0 \<longleftrightarrow> 0 < files_tree_node_comparator y x"
    using strcmp_antisym [of "ftn_name x" "ftn_name y"] by (auto simp: files_tree_node_comparator_def Let_def)
  assume "files_tree_node_comparator x y \<le> 0" "files_tree_node_comparator y z \<le> 0"
  then show "files_tree_node_comparator x z \<le> 0"
    using strcmp_trans [of "ftn_name x" "ftn_name y" "ftn_name z"]
    by (auto simp: files_tree_node_comparator_def Let_def split: if_splits)
qed

lemma files_trichotomy:
  "files_tree_node_comparator x y \<noteq> 0 \<Longrightarrow> files_tree_node_comparator x y < 0 \<or> files_tree_node_comparator y x < 0"
  using comparator_facts(2) [OF files_order, of y x] by linarith

section \<open>Nodes, blocks and associations\<close>

text \<open>
  What the nodes \<open>ns\<close>, the heap and the associations have to do with each other: each node has two blocks of its
  own and nothing else is allocated, an association is that of a node, and a node is associated unless its
  name is in \<open>H\<close>.
\<close>

definition tracks :: "files_tree_node list \<Rightarrow> (nat \<Rightarrow> cell option) \<Rightarrow> (nat \<Rightarrow> nat option) \<Rightarrow> nat set \<Rightarrow> bool" where
  "tracks ns heap port H \<longleftrightarrow>
     (\<forall>n \<in> set ns. heap (ftn_addr n) = Some Node_cell \<and> heap (ftn_ptr n) = Some (Name_cell (ftn_name n)) \<and>
        ftn_hash n = djb2 (ftn_name n)) \<and>
     inj_on ftn_addr (set ns) \<and> inj_on ftn_ptr (set ns) \<and> inj_on ftn_name (set ns) \<and> distinct ns \<and>
     dom heap = ftn_addr ` set ns \<union> ftn_ptr ` set ns \<and>
     (\<forall>a p. port a = Some p \<longrightarrow> (\<exists>n \<in> set ns. a = ftn_addr n \<and> p = ftn_ptr n)) \<and>
     (\<forall>n \<in> set ns. port (ftn_addr n) = None \<longleftrightarrow> ftn_ptr n \<in> H) \<and> H \<subseteq> ftn_ptr ` set ns"

lemma tracks_separate: "tracks ns heap port H \<Longrightarrow> n \<in> set ns \<Longrightarrow> m \<in> set ns \<Longrightarrow> ftn_addr n \<noteq> ftn_ptr m"
  unfolding tracks_def by (metis cell.distinct(1) option.inject)

lemma tracks_destroy:
  assumes "tracks ns heap port H" "n \<in> set ns" "ftn_ptr n \<in> H"
  shows "tracks (remove1 n ns) (heap(ftn_ptr n := None, ftn_addr n := None)) port (H - {ftn_ptr n})"
proof -
  have ns: "set (remove1 n ns) = set ns - {n}" using assms(1) by (simp add: tracks_def)
  have inj: "inj_on ftn_addr (set ns)" "inj_on ftn_ptr (set ns)" "inj_on ftn_name (set ns)" using assms(1) by (simp_all add: tracks_def)
  have other: "ftn_addr m \<noteq> ftn_addr n" "ftn_ptr m \<noteq> ftn_ptr n" "ftn_addr m \<noteq> ftn_ptr n" "ftn_ptr m \<noteq> ftn_addr n"
    if "m \<in> set ns - {n}" for m
    using that inj assms(2) tracks_separate [OF assms(1)] by (auto simp: inj_on_def dest: sym)
  have img: "ftn_addr ` (set ns - {n}) = ftn_addr ` set ns - {ftn_addr n}" "ftn_ptr ` (set ns - {n}) = ftn_ptr ` set ns - {ftn_ptr n}"
    using other assms(2) by auto
  have sep: "ftn_addr n \<notin> ftn_ptr ` set ns" "ftn_ptr n \<notin> ftn_addr ` set ns" using tracks_separate [OF assms(1)] assms(2) by fastforce+
  have port: "port (ftn_addr n) = None" using assms by (auto simp: tracks_def)
  have assoc: "\<exists>m \<in> set ns - {n}. a = ftn_addr m \<and> p = ftn_ptr m" if "port a = Some p" for a p
    using that assms(1) port unfolding tracks_def by (metis DiffI insertE option.distinct(1) singletonD)
  show ?thesis
    unfolding tracks_def ns
    using assms(1) other sep img assoc
    by (auto simp: tracks_def intro: inj_on_subset [OF inj(1)] inj_on_subset [OF inj(2)] inj_on_subset [OF inj(3)])
qed

lemma tracks_associate:
  assumes "tracks ns heap port H" "n \<in> set ns"
  shows "tracks ns heap (port(ftn_addr n \<mapsto> ftn_ptr n)) (H - {ftn_ptr n})"
  using assms unfolding tracks_def inj_on_def by (auto split: if_splits)

lemma tracks_dissociate:
  assumes "tracks ns heap port H" "n \<in> set ns"
  shows "tracks ns heap (port(ftn_addr n := None)) (insert (ftn_ptr n) H)"
  using assms unfolding tracks_def inj_on_def by (auto split: if_splits)

lemma tracks_add:
  assumes "tracks ns heap port H" "heap a = None" "heap p = None" "a \<noteq> p" "path \<notin> ftn_name ` set ns"
    and "n = \<lparr>ftn_addr = a, ftn_ptr = p, ftn_name = path, ftn_hash = djb2 path\<rparr>"
    and "set ns' = insert n (set ns)" "distinct ns'"
  shows "tracks ns' (heap(a \<mapsto> Node_cell, p \<mapsto> Name_cell path)) port (insert p H)"
proof -
  have dom: "dom heap = ftn_addr ` set ns \<union> ftn_ptr ` set ns" using assms(1) by (simp add: tracks_def)
  then have new: "ftn_addr m \<noteq> a" "ftn_ptr m \<noteq> a" "ftn_addr m \<noteq> p" "ftn_ptr m \<noteq> p" if "m \<in> set ns" for m
    using that assms(2,3) by blast+
  have "port a = None" using assms(1,2) dom unfolding tracks_def by (metis domIff imageI option.exhaust UnI1)
  then show ?thesis
    using assms(1,4-8) new dom unfolding tracks_def by (auto simp: inj_on_def) blast
qed

section \<open>Operations keep the invariant\<close>

definition watching :: "(files_tree_node comparator \<Rightarrow> 't \<Rightarrow> bool) \<Rightarrow> ('t \<Rightarrow> files_tree_node list) \<Rightarrow> nat set \<Rightarrow> 't fsw \<Rightarrow> bool" where
  "watching avl_ok nodes H s \<longleftrightarrow>
     avl_ok files_tree_node_comparator (fw_tree s) \<and> tracks (nodes (fw_tree s)) (fw_heap s) (fw_port s) H"

text \<open>What the operations leave alone.\<close>

definition fw_rest :: "'t fsw \<Rightarrow> bool \<times> thread option \<times> char list \<times> stdin_pc \<times> events_pc \<times> main_pc" where
  "fw_rest s = (fw_opt_j s, fw_mutex s, fw_in s, fw_stdin s, fw_events s, fw_main s)"

text \<open>The environment has what the program asks for, and \<^verbatim>\<open>stat\<close> gives no answer the program has no plan for.\<close>

definition env_ok :: "fsw_env \<Rightarrow> bool" where
  "env_ok e \<longleftrightarrow> fe_nv e \<and> fe_time e \<noteq> None \<and> fe_malloc e \<noteq> None \<and> fe_strdup e \<noteq> None \<and> fe_calloc e \<and>
     (\<exists>r. get_stat e = Inr r)"

text \<open>The computation returns with a result in \<open>Q\<close>; else the environment is to blame and the program says so.\<close>

definition works :: "fsw_env \<Rightarrow> 'a outcome \<Rightarrow> ('a \<Rightarrow> bool) \<Rightarrow> bool" where
  "works e m Q \<longleftrightarrow> (case m of Inl f \<Rightarrow> f \<in> {Fault_Abort, Fault_Exit 1} \<and> \<not> env_ok e | Inr x \<Rightarrow> Q x)"

lemma works_simps [simp]: "works e (Inr x) Q \<longleftrightarrow> Q x" "works e (Inl f) Q \<longleftrightarrow> f \<in> {Fault_Abort, Fault_Exit 1} \<and> \<not> env_ok e"
  by (simp_all add: works_def)

lemma works_bindI: "works e m R \<Longrightarrow> (\<And>x. R x \<Longrightarrow> works e (f x) Q) \<Longrightarrow> works e (bindr m f) Q"
  by (cases m) simp_all

lemma works_mono: "works e m R \<Longrightarrow> (\<And>x. R x \<Longrightarrow> Q x) \<Longrightarrow> works e m Q"
  by (cases m) simp_all

lemma works_returns: "works e m Q \<Longrightarrow> env_ok e \<Longrightarrow> returns m Q"
  by (cases m) simp_all

lemma get_stat_works: "works e (get_stat e) (\<lambda>_. True)"
proof -
  have "stat_file_from e i = Inl f \<Longrightarrow> f = Fault_Abort" for i f
  proof (induction e i rule: stat_file_from.induct)
    case (1 e i)
    then show ?case by (auto simp: stat_file_from.simps [of e i] split: if_splits option.splits)
  qed
  then have abort: "get_stat e = Inl f \<Longrightarrow> f = Fault_Abort" for f
    by (auto simp: get_stat_def stat_file_def bindr_eq_Inl_iff split: option.splits if_splits)
  show ?thesis
  proof (cases "get_stat e")
    case (Inl f)
    then show ?thesis using abort by (simp add: env_ok_def)
  qed simp
qed

text \<open>A message that answers a command, and the list in a message.\<close>

fun nvl_of :: "printed \<Rightarrow> nvl" where
  "nvl_of (Json nvl) = nvl"
| "nvl_of (Plain nvl) = nvl"

definition answers_command :: "nat \<Rightarrow> char list \<Rightarrow> bool \<Rightarrow> printed \<Rightarrow> bool" where
  "answers_command key path success m \<longleftrightarrow> map_of (nvl_of m) ''type'' = Some (NV_str ''response'') \<and>
     map_of (nvl_of m) ''key'' = Some (NV_u64 key) \<and> map_of (nvl_of m) ''pathname'' = Some (NV_str path) \<and>
     map_of (nvl_of m) ''result'' = Some (NV_str (if success then ''SUCCESS'' else ''FAIL''))"

definition reports_event :: "32 word \<Rightarrow> char list \<Rightarrow> bool \<Rightarrow> printed \<Rightarrow> bool" where
  "reports_event revents path final m \<longleftrightarrow> map_of (nvl_of m) ''type'' = Some (NV_str ''event'') \<and>
     map_of (nvl_of m) ''changes'' = Some (NV_strs (changes_of revents)) \<and>
     map_of (nvl_of m) ''pathname'' = Some (NV_str path) \<and> map_of (nvl_of m) ''final'' = Some (NV_bool final)"

lemma make_nvlist_works:
  "works e (make_nvlist e type) (\<lambda>nvl. \<exists>sec nsec. nvl = [(''type'', NV_str type), (''time'', NV_u64s [sec, nsec])])"
  by (auto simp: make_nvlist_def env_ok_def split: option.split)

lemma nvl_of_if [simp]: "nvl_of (if b then Json nvl else Plain nvl) = nvl"
  by simp

lemma print_works:
  shows print_response_works: "works e (print_response e key code path text s)
     (\<lambda>s'. \<exists>m. s' = s\<lparr>fw_out := fw_out s @ [m]\<rparr> \<and> answers_command key path (code = RESULT_SUCCESS) m)"
  and print_event_works: "works e (print_event e revents path final s)
     (\<lambda>s'. \<exists>m. s' = s\<lparr>fw_out := fw_out s @ [m]\<rparr> \<and> reports_event revents path final m)"
  and print_error_works: "works e (print_error e key code text s) (\<lambda>s'. \<exists>m. s' = s\<lparr>fw_out := fw_out s @ [m]\<rparr> \<and>
     map_of (nvl_of m) ''type'' = Some (NV_str ''error'') \<and> map_of (nvl_of m) ''key'' = Some (NV_u64 key))"
  unfolding print_response_def print_event_def print_error_def
  by (rule works_bindI [OF make_nvlist_works], elim exE, simp only: works_simps, rule exI, rule conjI, rule print_nvlist_def,
      simp add: answers_command_def reports_event_def)+

locale file_tree = avl_library A avl_ok nodes
  for A :: "('t, files_tree_node) avl_ops" and avl_ok nodes
begin

abbreviation paths :: "'t fsw \<Rightarrow> char list set" where
  "paths s \<equiv> ftn_name ` set (nodes (fw_tree s))"

lemma find_handle_name:
  assumes "watching avl_ok nodes H s"
  shows "find_handle A s path = List.find (\<lambda>n. ftn_name n = path) (nodes (fw_tree s))"
proof -
  have "List.find (\<lambda>x. djb2 path = ftn_hash x \<and> path = ftn_name x) ns = List.find (\<lambda>n. ftn_name n = path) ns"
    if "\<forall>n \<in> set ns. ftn_hash n = djb2 (ftn_name n)" for ns
    using that by (induction ns) auto
  moreover have "\<forall>n \<in> set (nodes (fw_tree s)). ftn_hash n = djb2 (ftn_name n)" "avl_ok files_tree_node_comparator (fw_tree s)"
    using assms by (simp_all add: watching_def tracks_def)
  ultimately show ?thesis by (simp add: find_handle_def find [of files_tree_node_comparator])
qed

lemma find_handle_some: "watching avl_ok nodes H s \<Longrightarrow> find_handle A s path = Some n \<Longrightarrow> n \<in> set (nodes (fw_tree s)) \<and> ftn_name n = path"
  using find_handle_name [of H s path] by (auto simp: find_Some_iff)

lemma find_handle_none: "watching avl_ok nodes H s \<Longrightarrow> find_handle A s path = None \<longleftrightarrow> path \<notin> paths s"
  using find_handle_name [of H s path] by (auto simp: find_None_iff)

lemma find_handle_node:
  assumes "watching avl_ok nodes H s" "n \<in> set (nodes (fw_tree s))"
  shows "find_handle A s (ftn_name n) = Some n"
proof -
  have inj: "inj_on ftn_name (set (nodes (fw_tree s)))" using assms(1) by (simp add: watching_def tracks_def)
  obtain m where m: "find_handle A s (ftn_name n) = Some m" using find_handle_none [OF assms(1)] assms(2) by blast
  then show ?thesis using find_handle_some [OF assms(1) m] inj assms(2) by (auto dest: inj_onD)
qed

lemma destroy_handle_works:
  assumes "watching avl_ok nodes H s" "n \<in> set (nodes (fw_tree s))" "ftn_ptr n \<in> H"
  shows "\<exists>s'. destroy_handle A n s = Inr s' \<and> watching avl_ok nodes (H - {ftn_ptr n}) s' \<and>
    paths s' = paths s - {ftn_name n} \<and> fw_out s' = fw_out s \<and> fw_rest s' = fw_rest s"
proof -
  have t: "tracks (nodes (fw_tree s)) (fw_heap s) (fw_port s) H" using assms(1) by (simp add: watching_def)
  have rem: "avl_ok files_tree_node_comparator (avl_remove A (fw_tree s) n)" "nodes (avl_remove A (fw_tree s) n) = remove1 n (nodes (fw_tree s))"
    using removal [of files_tree_node_comparator] assms(1,2) by (simp_all add: watching_def)
  have heap: "fw_heap s (ftn_ptr n) \<noteq> None" "fw_heap s (ftn_addr n) \<noteq> None" "ftn_addr n \<noteq> ftn_ptr n"
    using t assms(2) tracks_separate [OF t assms(2,2)] by (auto simp: tracks_def)
  let ?s' = "s\<lparr>fw_tree := avl_remove A (fw_tree s) n, fw_heap := (fw_heap s)(ftn_ptr n := None, ftn_addr n := None)\<rparr>"
  have "destroy_handle A n s = Inr ?s'"
    using heap by (auto simp: destroy_handle_def free_block_def remove_handle_def)
  moreover have "watching avl_ok nodes (H - {ftn_ptr n}) ?s'"
    using rem tracks_destroy [OF t assms(2,3)] by (simp add: watching_def)
  moreover have "paths ?s' = paths s - {ftn_name n}"
    using t assms(2) by (auto simp: rem(2) tracks_def inj_on_def)
  ultimately show ?thesis by (auto simp: fw_rest_def)
qed

end

lemma fw_frame [simp]: "watching avl_ok nodes H (s\<lparr>fw_out := x\<rparr>) \<longleftrightarrow> watching avl_ok nodes H s"
  "watching avl_ok nodes H (s\<lparr>fw_mutex := mu\<rparr>) \<longleftrightarrow> watching avl_ok nodes H s"
  "watching avl_ok nodes H (s\<lparr>fw_in := i\<rparr>) \<longleftrightarrow> watching avl_ok nodes H s"
  "watching avl_ok nodes H (s\<lparr>fw_stdin := st\<rparr>) \<longleftrightarrow> watching avl_ok nodes H s"
  "watching avl_ok nodes H (s\<lparr>fw_events := ev\<rparr>) \<longleftrightarrow> watching avl_ok nodes H s"
  "watching avl_ok nodes H (s\<lparr>fw_main := ma\<rparr>) \<longleftrightarrow> watching avl_ok nodes H s"
  "fw_rest (s\<lparr>fw_out := x\<rparr>) = fw_rest s" "fw_rest (s\<lparr>fw_port := po\<rparr>) = fw_rest s" "fw_rest (s\<lparr>fw_tree := t\<rparr>) = fw_rest s"
  "fw_rest (s\<lparr>fw_heap := he\<rparr>) = fw_rest s"
  by (simp_all add: watching_def fw_rest_def)

context file_tree
begin

lemma deref_node: "watching avl_ok nodes H s \<Longrightarrow> n \<in> set (nodes (fw_tree s)) \<Longrightarrow> deref s (ftn_ptr n) = Inr (ftn_name n)"
  by (simp add: watching_def tracks_def deref_def)

lemma associated: "watching avl_ok nodes H s \<Longrightarrow> n \<in> set (nodes (fw_tree s)) \<Longrightarrow>
  watching avl_ok nodes (H - {ftn_ptr n}) (s\<lparr>fw_port := (fw_port s)(ftn_addr n \<mapsto> ftn_ptr n)\<rparr>)"
  using tracks_associate by (simp add: watching_def)

text \<open>The two ends of a watch: \<open>left\<close> says that the file is no longer watched.\<close>

definition settled :: "nat set \<Rightarrow> 't fsw \<Rightarrow> files_tree_node \<Rightarrow> bool \<Rightarrow> 't fsw \<Rightarrow> bool" where
  "settled H s n left s' \<longleftrightarrow> watching avl_ok nodes (H - {ftn_ptr n}) s' \<and>
     paths s' = (if left then paths s - {ftn_name n} else paths s) \<and> fw_rest s' = fw_rest s"

lemma destroys:
  assumes "watching avl_ok nodes H s" "n \<in> set (nodes (fw_tree s))" "ftn_ptr n \<in> H"
  shows "works e (destroy_handle A n (s\<lparr>fw_out := out\<rparr>)) (\<lambda>s'. settled H s n True s' \<and> fw_out s' = out)"
  using destroy_handle_works [of H "s\<lparr>fw_out := out\<rparr>" n] assms by (auto simp: settled_def)

lemma rearm_watch_works:
  assumes "watching avl_ok nodes H s" "n \<in> set (nodes (fw_tree s))" "ftn_ptr n \<in> H" "key \<noteq> SYSTEM_KEY"
  shows "works e (rearm A e key (ftn_ptr n) 0 n (ftn_name n) s) (\<lambda>s'. \<exists>ok m.
    settled H s n (\<not> ok) s' \<and> fw_out s' = fw_out s @ [m] \<and> answers_command key (ftn_name n) ok m)"
proof (cases "fe_associate e")
  case True
  let ?s = "port_associate e n (ftn_ptr n) s"
  have "settled H s n False (?s\<lparr>fw_out := out\<rparr>)" "fw_out ?s = fw_out s" for out
    using associated [OF assms(1,2)] True by (simp_all add: settled_def port_associate_def)
  then show ?thesis
    using True assms(4) by (auto simp: rearm_def Let_def intro!: works_mono [OF print_response_works] exI [of _ True])
next
  case False
  then show ?thesis
    using assms(4) by (auto simp: rearm_def Let_def port_associate_def RESULT_FAILURE_def RESULT_SUCCESS_def
        intro!: works_bindI [OF print_response_works] works_mono [OF destroys [OF assms(1-3)]] exI [of _ False])
qed

lemma rearm_event_works:
  assumes "watching avl_ok nodes H s" "n \<in> set (nodes (fw_tree s))" "ftn_ptr n \<in> H" "revents \<noteq> 0"
  shows "works e (rearm A e SYSTEM_KEY (ftn_ptr n) revents n (ftn_name n) s) (\<lambda>s'. \<exists>left m ms.
    settled H s n left s' \<and> fw_out s' = fw_out s @ m # ms \<and> reports_event revents (ftn_name n) False m \<and>
    (ms = [] \<longleftrightarrow> \<not> left))"
proof (cases "fe_associate e")
  case True
  let ?s = "port_associate e n (ftn_ptr n) s"
  have "settled H s n False (?s\<lparr>fw_out := out\<rparr>)" "fw_out ?s = fw_out s" for out
    using associated [OF assms(1,2)] True by (simp_all add: settled_def port_associate_def)
  then show ?thesis
    using True assms(4) by (auto simp: rearm_def Let_def intro!: works_mono [OF print_event_works] exI [of _ False])
next
  case False
  then show ?thesis
    using assms(4) by (auto simp: rearm_def Let_def port_associate_def
        intro!: works_bindI [OF print_event_works] works_bindI [OF print_error_works] works_mono [OF destroys [OF assms(1-3)]] exI [of _ True])
qed

end

context file_tree
begin

lemma check_watch_works:
  assumes "watching avl_ok nodes H s" "n \<in> set (nodes (fw_tree s))" "ftn_ptr n \<in> H" "key \<noteq> SYSTEM_KEY"
  shows "works e (check_and_rearm_event A e key (ftn_ptr n) 0 (Some n) s) (\<lambda>s'. \<exists>ok m.
    settled H s n (\<not> ok) s' \<and> fw_out s' = fw_out s @ [m] \<and> answers_command key (ftn_name n) ok m)"
proof -
  have last: "works e (bindr (print_response e key RESULT_FAILURE (ftn_name n) msg s) (destroy_handle A n)) (\<lambda>s'. \<exists>ok m.
      settled H s n (\<not> ok) s' \<and> fw_out s' = fw_out s @ [m] \<and> answers_command key (ftn_name n) ok m)" for msg
    by (auto simp: RESULT_FAILURE_def RESULT_SUCCESS_def intro!: works_bindI [OF print_response_works]
        works_mono [OF destroys [OF assms(1-3)]] exI [of _ False])
  have "is_last 0 = False" by (simp add: is_last_def)
  then show ?thesis
    using assms(4) deref_node [OF assms(1,2)] last rearm_watch_works [OF assms, of e]
    by (auto simp: check_and_rearm_event_def Let_def intro!: works_bindI [OF get_stat_works] split: option.split)
qed

lemma check_event_works:
  assumes "watching avl_ok nodes H s" "n \<in> set (nodes (fw_tree s))" "ftn_ptr n \<in> H" "revents \<noteq> 0"
  shows "works e (check_and_rearm_event A e SYSTEM_KEY (ftn_ptr n) revents None s) (\<lambda>s'. \<exists>left m ms.
    settled H s n left s' \<and> fw_out s' = fw_out s @ m # ms \<and>
    reports_event revents (ftn_name n) (left \<and> ms = []) m \<and> (is_last revents \<longrightarrow> left \<and> ms = []))"
proof -
  have last: "works e (bindr (print_event e revents (ftn_name n) True s) (destroy_handle A n)) (\<lambda>s'. \<exists>left m ms.
      settled H s n left s' \<and> fw_out s' = fw_out s @ m # ms \<and>
      reports_event revents (ftn_name n) (left \<and> ms = []) m \<and> (is_last revents \<longrightarrow> left \<and> ms = []))"
    by (auto intro!: works_bindI [OF print_event_works] works_mono [OF destroys [OF assms(1-3)]] exI [of _ True])
  have again: "works e (rearm A e SYSTEM_KEY (ftn_ptr n) revents n (ftn_name n) s) (\<lambda>s'. \<exists>left m ms.
      settled H s n left s' \<and> fw_out s' = fw_out s @ m # ms \<and>
      reports_event revents (ftn_name n) (left \<and> ms = []) m \<and> (is_last revents \<longrightarrow> left \<and> ms = []))" if "\<not> is_last revents"
    by (rule works_mono [OF rearm_event_works [OF assms]]) (use that in auto)
  show ?thesis
    using deref_node [OF assms(1,2)] find_handle_node [OF assms(1,2)] assms(4) last again
    by (auto simp: check_and_rearm_event_def Let_def intro!: works_bindI [OF get_stat_works] split: option.split)
qed

lemma settled_new:
  assumes "settled H1 s1 n left s'" "H1 = insert (ftn_ptr n) H" "ftn_ptr n \<notin> H" "paths s1 = insert (ftn_name n) P" "ftn_name n \<notin> P"
    and "fw_rest s1 = fw_rest s"
  shows "watching avl_ok nodes H s' \<and> fw_rest s' = fw_rest s \<and> paths s' = (if left then P else insert (ftn_name n) P)"
proof -
  have "H1 - {ftn_ptr n} = H" "insert (ftn_name n) P - {ftn_name n} = P" using assms(2,3,5) by auto
  then show ?thesis using assms(1,4,6) by (simp add: settled_def)
qed

lemma watch_path_works:
  assumes "watching avl_ok nodes H s" "fresh_blocks e s" "key \<noteq> SYSTEM_KEY"
  shows "works e (watch_path A e path key s) (\<lambda>s'. \<exists>ok m. watching avl_ok nodes H s' \<and> fw_rest s' = fw_rest s \<and>
    paths s' = (if ok then insert path (paths s) else paths s) \<and> (path \<in> paths s \<longrightarrow> ok) \<and>
    fw_out s' = fw_out s @ [m] \<and> answers_command key path ok m)"
proof (cases "path \<in> paths s")
  case True
  then show ?thesis
    using assms find_handle_none [OF assms(1), of path]
    by (auto simp: watch_path_def RESULT_SUCCESS_def intro!: works_mono [OF print_response_works] exI [of _ True])
next
  case False
  show ?thesis
  proof (cases "fe_malloc e = None \<or> fe_strdup e = None")
    case True
    then show ?thesis using False find_handle_none [OF assms(1), of path] by (auto simp: watch_path_def env_ok_def split: option.split)
  next
    case blocks: False
    then obtain a p where ap: "fe_malloc e = Some a" "fe_strdup e = Some p" by auto
    let ?n = "\<lparr>ftn_addr = a, ftn_ptr = p, ftn_name = path, ftn_hash = djb2 path\<rparr>"
    let ?s = "add_handle A ?n (s\<lparr>fw_heap := (fw_heap s)(a \<mapsto> Node_cell, p \<mapsto> Name_cell path)\<rparr>)"
    have t: "avl_ok files_tree_node_comparator (fw_tree s)" "tracks (nodes (fw_tree s)) (fw_heap s) (fw_port s) H"
      using assms(1) by (simp_all add: watching_def)
    have fresh: "fw_heap s a = None" "fw_heap s p = None" "a \<noteq> p" using assms(2) ap by (auto simp: fresh_blocks_def)
    have new: "\<forall>x \<in> set (nodes (fw_tree s)). files_tree_node_comparator ?n x \<noteq> 0" using False by auto
    note add = addition [OF t(1) new]
    have ok: "avl_ok files_tree_node_comparator (fw_tree ?s)" using add by (simp add: add_handle_def)
    have ns: "set (nodes (fw_tree ?s)) = insert ?n (set (nodes (fw_tree s)))"
      using add files_trichotomy [OF new [rule_format]] by (auto simp: add_handle_def)
    have H: "watching avl_ok nodes (insert p H) ?s"
      using ok tracks_add [OF t(2) fresh False refl ns] sorted_comparator_distinct [OF files_order ordered [OF ok]]
      by (simp add: watching_def add_handle_def)
    have paths: "paths ?s = insert path (paths s)" "path \<notin> paths s" using ns False by auto
    have p: "p \<notin> H" using t(2) fresh(2) by (auto simp: tracks_def)
    have "works e (check_and_rearm_event A e key p 0 (Some ?n) ?s) (\<lambda>s'. \<exists>ok m.
        settled (insert p H) ?s ?n (\<not> ok) s' \<and> fw_out s' = fw_out ?s @ [m] \<and> answers_command key path ok m)"
      using check_watch_works [OF H, of ?n key e] ns assms(3) by simp
    then have "works e (check_and_rearm_event A e key p 0 (Some ?n) ?s) (\<lambda>s'. \<exists>ok m. watching avl_ok nodes H s' \<and> fw_rest s' = fw_rest s \<and>
        paths s' = (if ok then insert path (paths s) else paths s) \<and> (path \<in> paths s \<longrightarrow> ok) \<and>
        fw_out s' = fw_out s @ [m] \<and> answers_command key path ok m)"
    proof (rule works_mono, elim exE conjE)
      fix s' ok m
      assume r: "settled (insert p H) ?s ?n (\<not> ok) s'" "fw_out s' = fw_out ?s @ [m]" "answers_command key path ok m"
      have "watching avl_ok nodes H s' \<and> fw_rest s' = fw_rest s \<and> paths s' = (if ok then insert path (paths s) else paths s)"
        using settled_new [OF r(1), of H "paths s" s] p paths by (simp add: add_handle_def)
      then show "\<exists>ok m. watching avl_ok nodes H s' \<and> fw_rest s' = fw_rest s \<and>
          paths s' = (if ok then insert path (paths s) else paths s) \<and> (path \<in> paths s \<longrightarrow> ok) \<and>
          fw_out s' = fw_out s @ [m] \<and> answers_command key path ok m"
        using r(2,3) False by (intro exI [of _ ok] exI [of _ m]) (simp add: add_handle_def)
    qed
    then show ?thesis using ap False find_handle_none [OF assms(1), of path] by (simp add: watch_path_def Let_def)
  qed
qed

end

definition lists_files :: "nat \<Rightarrow> char list list \<Rightarrow> printed \<Rightarrow> bool" where
  "lists_files key names m \<longleftrightarrow> map_of (nvl_of m) ''type'' = Some (NV_str ''response'') \<and>
     map_of (nvl_of m) ''key'' = Some (NV_u64 key) \<and>
     (\<exists>pid. map_of (nvl_of m) ''data'' =
        Some (NV_nvl [(''files'', NV_strs names), (''files_count'', NV_u32 (length names)), (''pid'', NV_i32 pid)]))"

context file_tree
begin

lemma unwatch_path_works:
  assumes "watching avl_ok nodes H s" "\<forall>n \<in> set (nodes (fw_tree s)). ftn_name n = path \<longrightarrow> ftn_ptr n \<notin> H"
  shows "works e (unwatch_path A e path key s) (\<lambda>s'. \<exists>m. watching avl_ok nodes H s' \<and> fw_rest s' = fw_rest s \<and>
    paths s' = paths s - {path} \<and> fw_out s' = fw_out s @ [m] \<and> answers_command key path (path \<in> paths s) m)"
proof (cases "find_handle A s path")
  case None
  then show ?thesis
    using assms(1) find_handle_none [OF assms(1), of path]
    by (auto simp: unwatch_path_def RESULT_FAILURE_def RESULT_SUCCESS_def intro!: works_mono [OF print_response_works])
next
  case (Some n)
  then have n: "n \<in> set (nodes (fw_tree s))" "ftn_name n = path" using find_handle_some [OF assms(1) Some] by auto
  then have "ftn_ptr n \<notin> H" using assms(2) by blast
  then have assoc: "fw_port s (ftn_addr n) \<noteq> None" and H: "insert (ftn_ptr n) H - {ftn_ptr n} = H"
    using assms(1) n(1) by (auto simp: watching_def tracks_def)
  let ?s = "s\<lparr>fw_port := (fw_port s)(ftn_addr n := None)\<rparr>"
  have "watching avl_ok nodes (insert (ftn_ptr n) H) ?s"
    using assms(1) tracks_dissociate [OF _ n(1)] by (simp add: watching_def)
  from destroy_handle_works [OF this, of n] obtain s' where s': "destroy_handle A n ?s = Inr s'" "watching avl_ok nodes H s'"
    "paths s' = paths s - {path}" "fw_out s' = fw_out s" "fw_rest s' = fw_rest s"
    using n H by auto
  have in_tree: "path \<in> paths s" using n by blast
  have "unwatch_path A e path key s = print_response e key RESULT_SUCCESS path (''no longer watching '' @ [CHR 0x27] @ path @ [CHR 0x27]) s'"
    using Some assoc s'(1) by (auto simp: unwatch_path_def)
  then have "works e (unwatch_path A e path key s) (\<lambda>x. \<exists>m. x = s'\<lparr>fw_out := fw_out s @ [m]\<rparr> \<and> answers_command key path True m)"
    using print_response_works [of e key RESULT_SUCCESS path _ s'] s'(4) by simp
  then show ?thesis
  proof (rule works_mono, elim exE conjE)
    fix x m
    assume "x = s'\<lparr>fw_out := fw_out s @ [m]\<rparr>" "answers_command key path True m"
    then show "\<exists>m. watching avl_ok nodes H x \<and> fw_rest x = fw_rest s \<and> paths x = paths s - {path} \<and>
        fw_out x = fw_out s @ [m] \<and> answers_command key path (path \<in> paths s) m"
      using s'(2,3,5) in_tree by (intro exI [of _ m]) simp
  qed
qed

lemma filenames_from_nodes:
  "avl_ok cmp t \<Longrightarrow> nodes t = xs @ ys \<Longrightarrow> length ys \<le> k \<Longrightarrow>
   filenames_from A t k (case ys of [] \<Rightarrow> None | y # _ \<Rightarrow> Some y) = Inr (map ftn_name ys)"
proof (induction ys arbitrary: xs k)
  case (Cons y ys)
  then obtain k' where k: "k = Suc k'" by (cases k) auto
  show ?case using Cons.IH [of "xs @ [y]" k'] Cons.prems next_node [OF Cons.prems(1,2)] by (simp add: k)
qed simp

lemma print_status_works:
  assumes "watching avl_ok nodes H s"
  shows "works e (print_status A e key s) (\<lambda>s'. \<exists>m. s' = s\<lparr>fw_out := fw_out s @ [m]\<rparr> \<and>
    lists_files key (map ftn_name (nodes (fw_tree s))) m)"
proof -
  have ok: "avl_ok files_tree_node_comparator (fw_tree s)" using assms by (simp add: watching_def)
  have names: "filenames_from A (fw_tree s) (avl_numnodes A (fw_tree s)) (avl_first A (fw_tree s)) = Inr (map ftn_name (nodes (fw_tree s)))"
    using filenames_from_nodes [OF ok, of "[]"] by (simp add: first_node [OF ok] numnodes [OF ok])
  show ?thesis
  proof (cases "fe_calloc e")
    case True
    then have eq: "print_status A e key s = bindr (make_nvlist e ''response'') (\<lambda>nvl.
        Inr (print_nvlist (nvl @ [(''key'', NV_u64 key), (''code'', NV_u32 RESULT_SUCCESS), (''result'', NV_str ''SUCCESS''),
          (''data'', NV_nvl [(''files'', NV_strs (map ftn_name (nodes (fw_tree s)))),
            (''files_count'', NV_u32 (avl_numnodes A (fw_tree s))), (''pid'', NV_i32 (fe_pid e))])]) s))"
      by (simp add: print_status_def Let_def names)
    show ?thesis
      unfolding eq
      by (rule works_bindI [OF make_nvlist_works], elim exE, simp only: works_simps, rule exI, rule conjI, rule print_nvlist_def)
        (simp add: lists_files_def numnodes [OF ok])
  next
    case False
    then show ?thesis by (auto simp: print_status_def env_ok_def intro: works_bindI [OF make_nvlist_works])
  qed
qed

text \<open>Any line.\<close>

lemma process_stdin_line_works:
  assumes "watching avl_ok nodes H s" "fresh_blocks e s"
    and "\<And>res key path n. sscanf_command l = (res, key, ''UNWATCH'', path) \<Longrightarrow> n \<in> set (nodes (fw_tree s)) \<Longrightarrow>
      ftn_name n = path \<Longrightarrow> ftn_ptr n \<notin> H"
  shows "works e (process_stdin_line A e l s) (\<lambda>s'. watching avl_ok nodes H s' \<and> fw_rest s' = fw_rest s \<and>
    (\<exists>m. fw_out s' = fw_out s @ [m]))"
proof -
  obtain res key cmd path where scan: "sscanf_command l = (res, key, cmd, path)" by (cases "sscanf_command l")
  have err: "works e (print_error e k code msg s) (\<lambda>s'. watching avl_ok nodes H s' \<and> fw_rest s' = fw_rest s \<and>
      (\<exists>m. fw_out s' = fw_out s @ [m]))" for k code msg
    using assms(1) by (auto intro!: works_mono [OF print_error_works])
  have un: "works e (unwatch_path A e path key s) (\<lambda>s'. watching avl_ok nodes H s' \<and> fw_rest s' = fw_rest s \<and>
      (\<exists>m. fw_out s' = fw_out s @ [m]))" if "cmd = ''UNWATCH''"
    by (rule works_mono [OF unwatch_path_works [OF assms(1)]]) (use assms(3) scan that in auto)
  have wa: "works e (watch_path A e path key s) (\<lambda>s'. watching avl_ok nodes H s' \<and> fw_rest s' = fw_rest s \<and>
      (\<exists>m. fw_out s' = fw_out s @ [m]))" if "key \<noteq> SYSTEM_KEY"
    by (rule works_mono [OF watch_path_works [OF assms(1,2) that]]) auto
  have st: "works e (print_status A e key s) (\<lambda>s'. watching avl_ok nodes H s' \<and> fw_rest s' = fw_rest s \<and>
      (\<exists>m. fw_out s' = fw_out s @ [m]))"
    by (rule works_mono [OF print_status_works [OF assms(1)]]) (use assms(1) in auto)
  show ?thesis unfolding process_stdin_line_def scan Let_def prod.case using err un wa st by simp
qed

end

interpretation lf: file_tree list_avl list_avl_ok snd
  by unfold_locales

end
