(* ===== verification/Fswatcher_Runs.thy ===== *)
theory Fswatcher_Runs
  imports Fswatcher
begin

text \<open>
  Runs of \<^verbatim>\<open>fswatcher\<close> (theory \<^verbatim>\<open>Fswatcher\<close>): the invariant of its two threads, what its commands do to the
  set of watched files, the order of its first message, and the race between an \<^verbatim>\<open>UNWATCH\<close> command and an
  event that was taken from the port but not handled yet.
\<close>

section \<open>The invariant\<close>

text \<open>The name pointer of the event the event thread holds.\<close>

fun hand_of :: "events_pc \<Rightarrow> nat option" where
  "hand_of E_wait = None"
| "hand_of (E_got p revents) = Some p"
| "hand_of (E_locked p revents) = Some p"

definition in_hand :: "'t fsw \<Rightarrow> nat set" where
  "in_hand s = set_option (hand_of (fw_events s))"

text \<open>The mutex is held by the thread that says so, an event in hand has a reason, and a line fits the buffer.\<close>

definition locks_ok :: "'t fsw \<Rightarrow> bool" where
  "locks_ok s \<longleftrightarrow> (fw_mutex s = Some T_stdin \<longleftrightarrow> (\<exists>l. fw_stdin s = S_locked l)) \<and>
     (fw_mutex s = Some T_events \<longleftrightarrow> (\<exists>p r. fw_events s = E_locked p r)) \<and>
     (fw_mutex s = Some T_main \<longleftrightarrow> fw_main s = M_ready) \<and>
     (\<forall>p r. fw_events s = E_got p r \<or> fw_events s = E_locked p r \<longrightarrow> r \<noteq> 0) \<and>
     (\<forall>l. fw_stdin s = S_line l \<or> fw_stdin s = S_locked l \<longrightarrow> length l \<le> MAX_CMD_LEN)"

definition fsw_ok :: "(files_tree_node comparator \<Rightarrow> 't \<Rightarrow> bool) \<Rightarrow> ('t \<Rightarrow> files_tree_node list) \<Rightarrow> 't fsw \<Rightarrow> bool" where
  "fsw_ok avl_ok nodes s \<longleftrightarrow> watching avl_ok nodes (in_hand s) s \<and> locks_ok s"

text \<open>The command at work is \<^verbatim>\<open>UNWATCH\<close> for the file whose event is in hand.\<close>

definition racy :: "('t, files_tree_node) avl_ops \<Rightarrow> 't fsw \<Rightarrow> bool" where
  "racy A s \<longleftrightarrow> (\<exists>l res key path ftn. fw_stdin s = S_locked l \<and> sscanf_command l = (res, key, ''UNWATCH'', path) \<and>
     find_handle A s path = Some ftn \<and> ftn_ptr ftn \<in> in_hand s)"

inductive calm_reach :: "('t, files_tree_node) avl_ops \<Rightarrow> 't fsw \<Rightarrow> 't fsw outcome \<Rightarrow> bool" for A s0 where
  calm_start: "calm_reach A s0 (Inr s0)"
| calm_further: "calm_reach A s0 (Inr s) \<Longrightarrow> \<not> racy A s \<Longrightarrow> fsw_step A s r \<Longrightarrow> calm_reach A s0 r"

text \<open>A step ends well: in a state of the invariant, or with an exit or an abort.\<close>

definition ends_well :: "(files_tree_node comparator \<Rightarrow> 't \<Rightarrow> bool) \<Rightarrow> ('t \<Rightarrow> files_tree_node list) \<Rightarrow> 't fsw outcome \<Rightarrow> bool" where
  "ends_well avl_ok nodes r \<longleftrightarrow>
     (case r of Inl f \<Rightarrow> f \<in> {Fault_Exit 0, Fault_Exit 1, Fault_Abort} | Inr s \<Rightarrow> fsw_ok avl_ok nodes s)"

lemma ends_well_works: "works e m Q \<Longrightarrow> (\<And>s. Q s \<Longrightarrow> fsw_ok avl_ok nodes (f s)) \<Longrightarrow> ends_well avl_ok nodes (bindr m (\<lambda>s. Inr (f s)))"
  by (cases m) (auto simp: ends_well_def)

lemma in_hand_simps [simp]:
  "in_hand (s\<lparr>fw_mutex := mu\<rparr>) = in_hand s" "in_hand (s\<lparr>fw_in := i\<rparr>) = in_hand s" "in_hand (s\<lparr>fw_stdin := st\<rparr>) = in_hand s"
  "in_hand (s\<lparr>fw_main := ma\<rparr>) = in_hand s" "in_hand (s\<lparr>fw_out := out\<rparr>) = in_hand s" "in_hand (s\<lparr>fw_port := po\<rparr>) = in_hand s"
  "in_hand (s\<lparr>fw_events := ev\<rparr>) = set_option (hand_of ev)"
  by (simp_all add: in_hand_def)

lemma tracks_port: "tracks ns heap port H \<Longrightarrow> port a = Some p \<Longrightarrow> \<exists>n \<in> set ns. a = ftn_addr n \<and> p = ftn_ptr n"
  by (simp add: tracks_def)

lemma print_ready_works: "works e (print_ready e s) (\<lambda>s'. \<exists>m. s' = s\<lparr>fw_out := fw_out s @ [m]\<rparr> \<and>
    map_of (nvl_of m) ''type'' = Some (NV_str ''ready''))"
  unfolding print_ready_def
  by (rule works_bindI [OF make_nvlist_works], elim exE, simp only: works_simps, rule exI, rule conjI, rule print_nvlist_def) simp

context file_tree
begin

lemma step_ends_well:
  assumes "fsw_ok avl_ok nodes s" "\<not> racy A s" "fsw_step A s r"
  shows "ends_well avl_ok nodes r"
  using assms(3)
proof cases
  case (ready e)
  show ?thesis
    unfolding ready(1) by (rule ends_well_works [OF print_ready_works]) (use assms(1) ready in \<open>auto simp: fsw_ok_def locks_ok_def\<close>)
next
  case (read_line n)
  have "n \<le> MAX_CMD_LEN" using read_line(4) by (simp add: fgets_take_def)
  then have "length (takeWhile (\<lambda>c. c \<noteq> NUL) (take n (fw_in s))) \<le> MAX_CMD_LEN"
    using length_takeWhile_le [of "\<lambda>c. c \<noteq> NUL" "take n (fw_in s)"] by simp
  then show ?thesis using assms(1) read_line by (auto simp: ends_well_def fsw_ok_def locks_ok_def)
next
  case closed
  then show ?thesis by (simp add: ends_well_def)
next
  case (lock_stdin l)
  then show ?thesis using assms(1) by (auto simp: ends_well_def fsw_ok_def locks_ok_def)
next
  case (work_stdin l e)
  have w: "watching avl_ok nodes (in_hand s) s" using assms(1) by (simp add: fsw_ok_def)
  have calm: "ftn_ptr n \<notin> in_hand s" if "sscanf_command l = (res, key, ''UNWATCH'', path)" "n \<in> set (nodes (fw_tree s))"
      "ftn_name n = path" for res key path n
    using assms(2) find_handle_node [OF w that(2)] that work_stdin(2) by (auto simp: racy_def)
  show ?thesis
    unfolding work_stdin(1)
    by (rule ends_well_works [OF process_stdin_line_works [OF w work_stdin(3) calm]])
      (use assms(1) work_stdin(2) in \<open>auto simp: fsw_ok_def locks_ok_def in_hand_def fw_rest_def\<close>)
next
  case (port_get a p revents)
  then have h: "in_hand s = {}" by (simp add: in_hand_def)
  have w: "watching avl_ok nodes {} s" using assms(1) h by (simp add: fsw_ok_def)
  then obtain n where "n \<in> set (nodes (fw_tree s))" "a = ftn_addr n" "p = ftn_ptr n"
    using tracks_port [of "nodes (fw_tree s)" "fw_heap s" "fw_port s" "{}" a p] port_get(3) w by (auto simp: watching_def)
  then have "watching avl_ok nodes {p} (s\<lparr>fw_port := (fw_port s)(a := None)\<rparr>)"
    using w tracks_dissociate [of "nodes (fw_tree s)" "fw_heap s" "fw_port s" "{}" n] by (simp add: watching_def)
  then show ?thesis
    using assms(1) port_get by (auto simp: ends_well_def fsw_ok_def locks_ok_def watching_def)
next
  case (lock_events p revents)
  then show ?thesis using assms(1) by (auto simp: ends_well_def fsw_ok_def locks_ok_def in_hand_def)
next
  case (work_events p revents e)
  then have h: "in_hand s = {p}" by (simp add: in_hand_def)
  have w: "watching avl_ok nodes {p} s" and l: "locks_ok s" using assms(1) h by (simp_all add: fsw_ok_def)
  then obtain n where n: "n \<in> set (nodes (fw_tree s))" "ftn_ptr n = p" by (auto simp: watching_def tracks_def)
  have r: "revents \<noteq> 0" using l work_events(2) by (auto simp: locks_ok_def)
  have "works e (check_and_rearm_event A e SYSTEM_KEY p revents None s) (\<lambda>s'. watching avl_ok nodes {} s' \<and> fw_rest s' = fw_rest s)"
    using check_event_works [OF w n(1) _ r, of e] n(2) by (auto elim!: works_mono simp: settled_def)
  then show ?thesis
    unfolding work_events(1)
    by (rule ends_well_works) (use l work_events(2) in \<open>auto simp: fsw_ok_def locks_ok_def fw_rest_def\<close>)
qed

lemma main_ok: "fsw_main A port_ok threads_ok cmdline input = Inr s0 \<Longrightarrow> fsw_ok avl_ok nodes s0"
  using create [OF files_order]
  by (auto simp: fsw_main_def bindr_eq_Inr_iff fsw_ok_def watching_def tracks_def locks_ok_def in_hand_def split: if_splits)

lemma calm_ends_well: "calm_reach A s0 r \<Longrightarrow> fsw_ok avl_ok nodes s0 \<Longrightarrow> ends_well avl_ok nodes r"
proof (induction rule: calm_reach.induct)
  case calm_start
  then show ?case by (simp add: ends_well_def)
next
  case (calm_further s r)
  then show ?case using step_ends_well by (simp add: ends_well_def)
qed

end

section \<open>What every run keeps\<close>

text \<open>An operation only adds messages and leaves the threads alone, whatever the state is.\<close>

definition adds :: "'t fsw \<Rightarrow> 't fsw outcome \<Rightarrow> bool" where
  "adds s m \<longleftrightarrow> ensures m (\<lambda>s'. fw_rest s' = fw_rest s \<and> (\<exists>ms. fw_out s' = fw_out s @ ms))"

lemma adds_bindI: "adds s m \<Longrightarrow> (\<And>s'. adds s' (f s')) \<Longrightarrow> adds s (bindr m f)"
  by (cases m) (auto simp: adds_def ensures_def, metis append.assoc)

lemma adds_simps [simp]: "adds s (Inl f)" "adds s (Inr s)"
  by (simp_all add: adds_def)

lemma adds_update: "fw_rest s1 = fw_rest s \<Longrightarrow> fw_out s1 = fw_out s \<Longrightarrow> adds s1 m \<Longrightarrow> adds s m"
  by (simp add: adds_def)

lemma adds_print: "adds s (print_response e key code path msg s)" "adds s (print_event e revents path final s)" "adds s (print_error e key code msg s)"
  unfolding print_response_def print_event_def print_error_def
  by (auto simp: adds_def ensures_def bindr_eq_Inr_iff print_nvlist_def)

lemma adds_destroy: "adds s (destroy_handle A n s)"
  by (auto simp: adds_def ensures_def destroy_handle_def free_block_def remove_handle_def bindr_eq_Inr_iff split: if_splits)

lemma adds_status: "adds s (print_status A e key s)"
  by (auto simp: adds_def ensures_def print_status_def Let_def bindr_eq_Inr_iff print_nvlist_def split: if_splits)

lemma adds_rearm: "adds s (rearm A e key name revents n str s)"
  unfolding rearm_def Let_def
  by (rule adds_update [of "port_associate e n name s"])
    (auto simp: port_associate_def intro!: adds_bindI adds_print adds_destroy)

lemma adds_check: "adds s (check_and_rearm_event A e key name revents ftn s)"
proof -
  have "adds s (bindr (get_stat e) (\<lambda>stat_ret. bindr (case stat_ret of
        Some err \<Rightarrow> if key \<noteq> SYSTEM_KEY then print_response e key RESULT_FAILURE str (msg err) s else Inr s
      | None \<Rightarrow> Inr s) (\<lambda>s. if fin stat_ret then bindr (if revents \<noteq> 0 then print_event e revents str True s else Inr s) (destroy_handle A n)
      else rearm A e key name revents n str s)))" for str msg fin n
    by (cases "get_stat e") (auto intro!: adds_bindI adds_print adds_rearm adds_destroy split: option.split)
  then show ?thesis
    unfolding check_and_rearm_event_def Let_def by (cases "deref s name") (auto split: option.split)
qed

lemma adds_line: "adds s (process_stdin_line A e l s)"
proof -
  have "adds s (watch_path A e path key s)" for path key
    unfolding watch_path_def Let_def
    by (auto split: option.split intro!: adds_print adds_update [OF _ _ adds_check] simp: add_handle_def)
  moreover have "adds s (unwatch_path A e path key s)" for path key
    unfolding unwatch_path_def Let_def
    by (auto split: option.split intro!: adds_print adds_update [OF _ _ adds_bindI [OF adds_destroy]])
  ultimately show ?thesis
    unfolding process_stdin_line_def by (auto simp: Let_def split: prod.split intro!: adds_print adds_status)
qed

lemma first_ready:
  assumes "fsw_reach A s0 r" "fw_mutex s0 = Some T_main" "fw_out s0 = []" "fw_main s0 = M_ready"
    "fw_stdin s0 = S_read" "fw_events s0 = E_wait"
  shows "\<forall>s. r = Inr s \<longrightarrow> (if fw_main s = M_ready then fw_out s = [] \<and> fw_mutex s = Some T_main \<and>
      (\<forall>l. fw_stdin s \<noteq> S_locked l) \<and> (\<forall>p v. fw_events s \<noteq> E_locked p v)
    else (\<exists>m ms. fw_out s = m # ms \<and> map_of (nvl_of m) ''type'' = Some (NV_str ''ready'')))"
  using assms(1)
proof (induction rule: fsw_reach.induct)
  case start
  then show ?case using assms(2-6) by simp
next
  case (further s r)
  from further.hyps(2) show ?case
  proof cases
    case (ready e)
    show ?thesis
    proof (intro allI impI)
      fix s'
      assume "r = Inr s'"
      then obtain m where "s' = s\<lparr>fw_out := fw_out s @ [m], fw_main := M_join, fw_mutex := None\<rparr>" "map_of (nvl_of m) ''type'' = Some (NV_str ''ready'')"
        using ready(1) print_ready_works [of e s] by (cases "print_ready e s") auto
      then show "if fw_main s' = M_ready then fw_out s' = [] \<and> fw_mutex s' = Some T_main \<and>
          (\<forall>l. fw_stdin s' \<noteq> S_locked l) \<and> (\<forall>p v. fw_events s' \<noteq> E_locked p v)
        else (\<exists>m ms. fw_out s' = m # ms \<and> map_of (nvl_of m) ''type'' = Some (NV_str ''ready''))"
        using further.IH ready(2) by auto
    qed
  next
    case (work_stdin l e)
    then show ?thesis using further.IH adds_line [of s A e l] by (auto simp: adds_def ensures_def bindr_eq_Inr_iff fw_rest_def split: if_splits)
  next
    case (work_events p revents e)
    then show ?thesis
      using further.IH adds_check [of s A e SYSTEM_KEY p revents None]
      by (auto simp: adds_def ensures_def bindr_eq_Inr_iff fw_rest_def split: if_splits)
  qed (use further.IH in \<open>auto split: if_splits\<close>)
qed

section \<open>A run\<close>

text \<open>A system in which everything succeeds, and the states of a run without options.\<close>

definition fsw_env_sample :: fsw_env where
  "fsw_env_sample = \<lparr>fe_time = Some (7, 0), fe_nv = True, fe_stat = (\<lambda>_. None), fe_associate = True, fe_errno = ENOENT,
     fe_malloc = Some 1, fe_strdup = Some 2, fe_calloc = True, fe_pid = 9, fe_num = (\<lambda>_. 2), fe_strerror = (\<lambda>_. ''none'')\<rparr>"

abbreviation fsw_state where
  "fsw_state tree heap port out mutex input stdin events \<equiv>
     \<lparr>fw_tree = (files_tree_node_comparator, tree), fw_heap = heap, fw_port = port, fw_out = out, fw_opt_j = False, fw_mutex = mutex,
      fw_in = input, fw_stdin = stdin, fw_events = events, fw_main = M_join\<rparr>"

abbreviation node_sample :: files_tree_node where
  "node_sample \<equiv> \<lparr>ftn_addr = 1, ftn_ptr = 2, ftn_name = ''/a'', ftn_hash = djb2 ''/a''\<rparr>"

definition line1 :: "char list" where "line1 = ''1 WATCH /a'' @ [NL]"
definition line2 :: "char list" where "line2 = ''2 UNWATCH /a'' @ [NL]"

lemma lines_scanned: "sscanf_command line1 = (3, 1, ''WATCH'', ''/a'')" "sscanf_command line2 = (3, 2, ''UNWATCH'', ''/a'')"
  by (simp_all add: sscanf_command_def line1_def line2_def scan_number_def skip_sign_def skip_0x_def isspace_def is_base_digit_def
      digit_val_def strtoul_def scan_word_def eval_base_def ULONG_MAX_def Let_def)

lemma lines_fit: "length line1 \<le> MAX_CMD_LEN" "length line2 \<le> MAX_CMD_LEN"
  by (simp_all add: line1_def line2_def MAX_CMD_LEN_def MAX_KEY_LEN_def PATH_MAX_def)

lemma lines_read: "fgets_take (MAX_CMD_LEN + 1) (line1 @ line2) = length line1" "fgets_take (MAX_CMD_LEN + 1) line2 = length line2"
  "takeWhile (\<lambda>c. c \<noteq> NUL) line1 = line1" "takeWhile (\<lambda>c. c \<noteq> NUL) line2 = line2" "line1 \<noteq> []" "line2 \<noteq> []"
  by (simp_all add: fgets_take_def line1_def line2_def MAX_CMD_LEN_def MAX_KEY_LEN_def PATH_MAX_def)

lemma stat_sample: "get_stat fsw_env_sample = Inr None"
  by (simp add: get_stat_def stat_file_def stat_file_from.simps [of _ 0] MAX_STAT_RETRY_def fsw_env_sample_def)

lemma watch_sample:
  "\<exists>m. process_stdin_line list_avl fsw_env_sample line1 (fsw_state [] (\<lambda>_. None) (\<lambda>_. None) [] (Some T_stdin) input (S_locked line1) E_wait) =
     Inr (fsw_state [node_sample] [1 \<mapsto> Node_cell, 2 \<mapsto> Name_cell ''/a''] [1 \<mapsto> 2] [m] (Some T_stdin) input (S_locked line1) E_wait)"
  using lines_scanned lines_fit stat_sample
  by (simp add: process_stdin_line_def SYSTEM_KEY_def watch_path_def find_handle_def list_avl_def fsw_env_sample_def add_handle_def Let_def
      check_and_rearm_event_def deref_def is_last_def rearm_def port_associate_def print_response_def make_nvlist_def print_nvlist_def)

lemma unwatch_sample:
  "\<exists>m. process_stdin_line list_avl (fsw_env_sample\<lparr>fe_malloc := Some 3, fe_strdup := Some 4\<rparr>) line2
       (fsw_state [node_sample] [1 \<mapsto> Node_cell, 2 \<mapsto> Name_cell ''/a''] (\<lambda>_. None) out mutex [] (S_locked line2) ev) =
     Inr (fsw_state [] (\<lambda>_. None) (\<lambda>_. None) (out @ [m]) mutex [] (S_locked line2) ev)"
  using lines_scanned lines_fit
  by (simp add: process_stdin_line_def SYSTEM_KEY_def unwatch_path_def find_handle_def list_avl_def fsw_env_sample_def
      destroy_handle_def free_block_def remove_handle_def Let_def print_response_def make_nvlist_def print_nvlist_def)

text \<open>The command at hand, with the mutex held.\<close>

abbreviation at_work where
  "at_work m input l \<equiv> fsw_state [] (\<lambda>_. None) (\<lambda>_. None) [] m input l E_wait"

lemma start_sample: "fsw_main list_avl True True [] input = Inr (at_work None input S_read)"
  by (simp add: fsw_main_def list_avl_def)

lemma reads_sample:
  "fsw_step list_avl (at_work None (line1 @ line2) S_read) (Inr (at_work None line2 (S_line line1)))"
  "fsw_step list_avl (fsw_state tr he po out None line2 S_read ev) (Inr (fsw_state tr he po out None [] (S_line line2) ev))"
  using fsw_step.read_line [OF _ _ refl, of "at_work None (line1 @ line2) S_read" list_avl]
    fsw_step.read_line [OF _ _ refl, of "fsw_state tr he po out None line2 S_read ev" list_avl]
  by (simp_all add: lines_read [unfolded Suc_eq_plus1 [symmetric]])

lemma locks_sample:
  "fsw_step list_avl (fsw_state tr he po out None input (S_line l) ev) (Inr (fsw_state tr he po out (Some T_stdin) input (S_locked l) ev))"
  using fsw_step.lock_stdin [of "fsw_state tr he po out None input (S_line l) ev" l list_avl] by simp

lemma not_racy_sample: "\<not> racy list_avl (fsw_state tr he po out mutex input stdin E_wait)"
  by (simp add: racy_def in_hand_def)

lemma watched_sample: "\<exists>m. fsw_step list_avl (at_work (Some T_stdin) line2 (S_locked line1))
  (Inr (fsw_state [node_sample] [1 \<mapsto> Node_cell, 2 \<mapsto> Name_cell ''/a''] [1 \<mapsto> 2] [m] None line2 S_read E_wait))"
proof -
  obtain m where m: "process_stdin_line list_avl fsw_env_sample line1 (at_work (Some T_stdin) line2 (S_locked line1)) =
     Inr (fsw_state [node_sample] [1 \<mapsto> Node_cell, 2 \<mapsto> Name_cell ''/a''] [1 \<mapsto> 2] [m] (Some T_stdin) line2 (S_locked line1) E_wait)"
    using watch_sample [of line2] by blast
  show ?thesis
    using fsw_step.work_stdin [of "at_work (Some T_stdin) line2 (S_locked line1)" line1 fsw_env_sample list_avl] m
    by (auto simp: fresh_blocks_def fsw_env_sample_def)
qed

lemma calm_sample:
  assumes "fsw_main list_avl True True [] (line1 @ line2) = Inr s0"
  shows "\<exists>m. calm_reach list_avl s0 (Inr (fsw_state [node_sample] [1 \<mapsto> Node_cell, 2 \<mapsto> Name_cell ''/a''] [1 \<mapsto> 2] [m] None line2 S_read E_wait))"
proof -
  have s0: "s0 = at_work None (line1 @ line2) S_read" using assms start_sample [of "line1 @ line2"] by simp
  note go = calm_further [OF _ not_racy_sample]
  have "calm_reach list_avl s0 (Inr (at_work (Some T_stdin) line2 (S_locked line1)))"
    by (rule go [OF go [OF calm_start [of list_avl s0, unfolded s0] reads_sample(1)] locks_sample, folded s0])
  then show ?thesis using watched_sample go by blast
qed

lemma scanned_path: "sscanf_command l = (3, key, cmd, path) \<Longrightarrow> path \<noteq> []"
  by (auto simp: sscanf_command_def Let_def split: prod.splits if_splits)

section \<open>Properties\<close>

definition watched :: "('t \<Rightarrow> files_tree_node list) \<Rightarrow> 't fsw \<Rightarrow> char list set" where
  "watched nodes s = ftn_name ` set (nodes (fw_tree s))"



text \<open>C15: The commands of the file watcher refine operations on a set of paths. In every such run, for a line that
  is at work with a key other than 0 while the system gives the program what it asks for: \<^verbatim>\<open>WATCH\<close> prints exactly
  one response, with the key and the path; the path is in the set afterwards if it says \<^verbatim>\<open>SUCCESS\<close>, which it
  does for a file already watched, and the set is the same if not. \<^verbatim>\<open>UNWATCH\<close> succeeds exactly for a
  file that is watched, and takes it out. \<^verbatim>\<open>STATUS\<close> lists the files that are watched and changes nothing.\<close>

theorem fswatcher_commands:
  assumes "avl_library A avl_ok nodes" "fsw_main A port_ok threads_ok cmdline input = Inr s0" "calm_reach A s0 (Inr s)"
    and "fw_stdin s = S_locked l" "\<not> racy A s" "fresh_blocks e s" "env_ok e" "key \<noteq> 0"
  shows "(sscanf_command l = (3, key, ''WATCH'', path) \<longrightarrow>
      returns (process_stdin_line A e l s) (\<lambda>s'. \<exists>ok m. fw_out s' = fw_out s @ [m] \<and> answers_command key path ok m \<and>
        watched nodes s' = (if ok then insert path (watched nodes s) else watched nodes s) \<and> (path \<in> watched nodes s \<longrightarrow> ok))) \<and>
    (sscanf_command l = (3, key, ''UNWATCH'', path) \<longrightarrow>
      returns (process_stdin_line A e l s) (\<lambda>s'. \<exists>m. fw_out s' = fw_out s @ [m] \<and>
        answers_command key path (path \<in> watched nodes s) m \<and> watched nodes s' = watched nodes s - {path})) \<and>
    (sscanf_command l = (2, key, ''STATUS'', []) \<longrightarrow>
      returns (process_stdin_line A e l s) (\<lambda>s'. \<exists>m names. s' = s\<lparr>fw_out := fw_out s @ [m]\<rparr> \<and>
        lists_files key names m \<and> set names = watched nodes s \<and> distinct names))"
proof (intro conjI impI)
  have ft: "file_tree A avl_ok nodes" using assms(1) by (rule file_tree.intro)
  have ok: "fsw_ok avl_ok nodes s"
    using file_tree.calm_ends_well [OF ft assms(3) file_tree.main_ok [OF ft assms(2)]] by (simp add: ends_well_def)
  have w: "watching avl_ok nodes (in_hand s) s" and len: "\<not> MAX_CMD_LEN < length l"
    using ok assms(4) by (auto simp: fsw_ok_def locks_ok_def)
  have key: "key \<noteq> SYSTEM_KEY" using assms(8) by (simp add: SYSTEM_KEY_def)
  {
    assume l: "sscanf_command l = (3, key, ''WATCH'', path)"
    then have "process_stdin_line A e l s = watch_path A e path key s"
      using scanned_path [OF l] len key by (simp add: process_stdin_line_def)
    with works_returns [OF file_tree.watch_path_works [OF ft w assms(6) key] assms(7), of path]
    show "returns (process_stdin_line A e l s) (\<lambda>s'. \<exists>ok m. fw_out s' = fw_out s @ [m] \<and> answers_command key path ok m \<and>
        watched nodes s' = (if ok then insert path (watched nodes s) else watched nodes s) \<and> (path \<in> watched nodes s \<longrightarrow> ok))"
      unfolding watched_def by (simp only:, elim returns_mono) blast
  next
    assume l: "sscanf_command l = (3, key, ''UNWATCH'', path)"
    then have run: "process_stdin_line A e l s = unwatch_path A e path key s"
      using scanned_path [OF l] len key by (simp add: process_stdin_line_def)
    have "\<forall>n \<in> set (nodes (fw_tree s)). ftn_name n = path \<longrightarrow> ftn_ptr n \<notin> in_hand s"
      using assms(4,5) l file_tree.find_handle_node [OF ft w] by (auto simp: racy_def)
    from works_returns [OF file_tree.unwatch_path_works [OF ft w this] assms(7), of key]
    show "returns (process_stdin_line A e l s) (\<lambda>s'. \<exists>m. fw_out s' = fw_out s @ [m] \<and>
        answers_command key path (path \<in> watched nodes s) m \<and> watched nodes s' = watched nodes s - {path})"
      unfolding watched_def run by (elim returns_mono) blast
  next
    assume l: "sscanf_command l = (2, key, ''STATUS'', [])"
    then have run: "process_stdin_line A e l s = print_status A e key s" using len key by (simp add: process_stdin_line_def)
    have names: "distinct (map ftn_name (nodes (fw_tree s)))" "set (map ftn_name (nodes (fw_tree s))) = watched nodes s"
      using w by (simp_all add: watching_def tracks_def distinct_map watched_def)
    from works_returns [OF file_tree.print_status_works [OF ft w] assms(7), of key]
    show "returns (process_stdin_line A e l s) (\<lambda>s'. \<exists>m names. s' = s\<lparr>fw_out := fw_out s @ [m]\<rparr> \<and>
        lists_files key names m \<and> set names = watched nodes s \<and> distinct names)"
      unfolding run by (elim returns_mono) (use names in blast)
  }
qed

theorem fswatcher_commands_witness:
  "returns (process_stdin_line list_avl fsw_env_sample line1 (at_work (Some T_stdin) line2 (S_locked line1)))
     (\<lambda>s'. \<exists>ok m. fw_out s' = [m] \<and> answers_command 1 ''/a'' ok m \<and> watched snd s' = (if ok then {''/a''} else {}))"
proof -
  let ?s = "at_work (Some T_stdin) line2 (S_locked line1)"
  have start: "fsw_main list_avl True True [] (line1 @ line2) = Inr (at_work None (line1 @ line2) S_read)" by (rule start_sample)
  note go = calm_further [OF _ not_racy_sample]
  have reach: "calm_reach list_avl (at_work None (line1 @ line2) S_read) (Inr (at_work (Some T_stdin) line2 (S_locked line1)))"
    by (rule go [OF go [OF calm_start reads_sample(1)] locks_sample])
  have env: "env_ok fsw_env_sample" using stat_sample by (simp add: env_ok_def fsw_env_sample_def)
  have "fresh_blocks fsw_env_sample (at_work (Some T_stdin) line2 (S_locked line1))" by (simp add: fresh_blocks_def fsw_env_sample_def)
  from fswatcher_commands [OF la.avl_library_axioms start reach _ not_racy_sample this env, of line1 1 "''/a''"] lines_scanned(1)
  have "returns (process_stdin_line list_avl fsw_env_sample line1 ?s)
     (\<lambda>s'. \<exists>ok m. fw_out s' = fw_out ?s @ [m] \<and> answers_command 1 ''/a'' ok m \<and>
       watched snd s' = (if ok then insert ''/a'' (watched snd ?s) else watched snd ?s) \<and> (''/a'' \<in> watched snd ?s \<longrightarrow> ok))"
    by simp
  then show ?thesis
  proof (rule returns_mono, elim exE)
    fix s' ok m
    assume "fw_out s' = fw_out ?s @ [m] \<and> answers_command 1 ''/a'' ok m \<and>
      watched snd s' = (if ok then insert ''/a'' (watched snd ?s) else watched snd ?s) \<and> (''/a'' \<in> watched snd ?s \<longrightarrow> ok)"
    moreover have "watched snd ?s = {}" by (simp add: watched_def)
    ultimately show "\<exists>ok m. fw_out s' = [m] \<and> answers_command 1 ''/a'' ok m \<and> watched snd s' = (if ok then {''/a''} else {})"
      by (intro exI [of _ ok] exI [of _ m]) simp
  qed
qed

text \<open>C16: The ready message comes first. Whenever the option \<^verbatim>\<open>-r\<close> is given, in every run, whatever the threads do
  in the meantime, the first message printed is the one of type \<^verbatim>\<open>ready\<close>: \<^verbatim>\<open>main\<close> takes the mutex before it
  creates the threads.\<close>

theorem fswatcher_ready_first:
  assumes "fsw_main A port_ok threads_ok cmdline input = Inr s0" "CHR ''r'' \<in> set cmdline" "fsw_reach A s0 (Inr s)" "fw_out s \<noteq> []"
  shows "map_of (nvl_of (hd (fw_out s))) ''type'' = Some (NV_str ''ready'')"
proof -
  have "parse_opts cs (j, r) = Inr (j', r') \<Longrightarrow> r' \<longleftrightarrow> r \<or> CHR ''r'' \<in> set cs" for cs j r j' r'
    by (induction cs arbitrary: j r) (auto split: if_splits)
  then have "fw_main s0 = M_ready \<and> fw_mutex s0 = Some T_main \<and> fw_out s0 = [] \<and> fw_stdin s0 = S_read \<and> fw_events s0 = E_wait"
    using assms(1,2) by (fastforce simp: fsw_main_def bindr_eq_Inr_iff split: if_splits)
  then show ?thesis using first_ready [OF assms(3)] assms(4) by (auto split: if_splits)
qed

theorem fswatcher_ready_first_witness:
  "\<exists>s0 s m. fsw_main list_avl True True ''jr'' [] = Inr s0 \<and> fsw_reach list_avl s0 (Inr s) \<and> fw_out s = [m] \<and>
     map_of (nvl_of m) ''type'' = Some (NV_str ''ready'')"
proof -
  obtain s0 where s0: "fsw_main list_avl True True ''jr'' [] = Inr s0" "fw_main s0 = M_ready" "fw_mutex s0 = Some T_main" "fw_out s0 = []"
    by (simp add: fsw_main_def)
  obtain s where s: "bindr (print_ready fsw_env_sample s0) (\<lambda>s. Inr (s\<lparr>fw_main := M_join, fw_mutex := None\<rparr>)) = Inr s"
    "\<exists>m. fw_out s = [m]"
    using s0(4) by (auto simp: print_ready_def make_nvlist_def fsw_env_sample_def print_nvlist_def)
  have reach: "fsw_reach list_avl s0 (Inr s)" using further [OF start fsw_step.ready [OF s0(2,3), of list_avl fsw_env_sample]] s(1) by simp
  have "CHR ''r'' \<in> set ''jr''" "fw_out s \<noteq> []" using s(2) by auto
  from fswatcher_ready_first [OF s0(1) this(1) reach this(2)] show ?thesis using s0(1) reach s(2) by fastforce
qed


end
