(* ===== verification/Spec2Isabelle.thy ===== *)
theory Spec2Isabelle
  imports Mancf Mancheck_Runs Docker_Run Fswatcher_Runs
begin

text \<open>
  \<^bold>\<open>SmartOS live: the C side of the platform image.\<close>

  The repository builds the SmartOS live image. Most of it is shell and JavaScript and the vendored
  JavaScript engine of a lint tool; the logic it has of its own in C is in a few programs and libraries, and
  these are modelled here, function by function, from the sources.

  \<^bold>\<open>Parts and how they interact.\<close>

  \<^item> \<^verbatim>\<open>src/src/dockerinit/mdata-client\<close>: the client of the metadata service of a zone. A request is framed
    (\<^verbatim>\<open>proto.c\<close>, with \<^verbatim>\<open>base64.c\<close>, \<^verbatim>\<open>crc32.c\<close>, \<^verbatim>\<open>reqid.c\<close>), sent over a socket or a serial line and answered line by
    line (\<^verbatim>\<open>plat/sunos.c\<close>, \<^verbatim>\<open>plat/unix_common.c\<close>); strings grow in \<^verbatim>\<open>dynstr.c\<close>; four command-line programs
    (\<^verbatim>\<open>mdata_get.c\<close> and so on) are its users, and so is \<^verbatim>\<open>dockerinit\<close>.
  \<^item> \<^verbatim>\<open>src/src/common/strings\<close>: growable strings, lists of strings and paths (\<^verbatim>\<open>custr.c\<close>, \<^verbatim>\<open>strlist.c\<close>,
    \<^verbatim>\<open>strpath.c\<close>), shared by \<^verbatim>\<open>dockerinit\<close> and the build tools.
  \<^item> \<^verbatim>\<open>src/src/dockerinit\<close>: the init process of a Docker zone and the helper of \<^verbatim>\<open>docker exec\<close>. Both read the
    configuration of the container from the metadata service, as text or JSON (\<^verbatim>\<open>json-nvlist.c\<close>), set up
    network, mounts, terminal and logger, become the user of the container and execute its command
    (\<^verbatim>\<open>docker-common.c\<close>, \<^verbatim>\<open>dockerinit.c\<close>, \<^verbatim>\<open>dockerexec.c\<close>).
  \<^item> \<^verbatim>\<open>src/src/fswatcher.c\<close>: the program through which \<^verbatim>\<open>vmadm\<close> and others watch files; two threads over one
    tree of files.
  \<^item> \<^verbatim>\<open>src/tools/common\<close>: what the build tools share: a line parser, a set of strings over the AVL trees of the C
    library, the reader of manifests (\<^verbatim>\<open>parser.c\<close>, \<^verbatim>\<open>strset.c\<close>, \<^verbatim>\<open>manifest.c\<close>). Two tools are
    built from all of them and the strings: \<^verbatim>\<open>src/tools/mancf\<close> orders the manual sections of a manifest,
    \<^verbatim>\<open>src/tools/mancheck\<close> checks that every command has a manual page that is shipped.

  \<^bold>\<open>How C is rendered.\<close> Theory \<^verbatim>\<open>Cmodel_Prelude\<close>: a function is an \<^verbatim>\<open>outcome\<close>, the state it leaves or a fault (an
  access outside a block or to a freed one, a null pointer, undefined arithmetic, \<^verbatim>\<open>abort\<close>, an exit with its
  status, no further input, fuel used up); a function that returns -1 with \<^verbatim>\<open>errno\<close> returns a \<^verbatim>\<open>cret\<close> next to
  its state. Buffers are lists of bytes, an unwritten byte is \<open>None\<close>, every write is checked against the
  bounds. The allocator is a parameter that may fail. What the system answers is a parameter, too: a list of
  port events, a record of answers, or, for \<^verbatim>\<open>dockerinit\<close>, a function of all calls made so far. Integers that may
  wrap around are words or are reduced explicitly. \<^verbatim>\<open>Libc_Numbers\<close> has \<^verbatim>\<open>strtoul\<close>, \<^verbatim>\<open>strtol\<close>, \<^verbatim>\<open>atoi\<close> and the
  printing conversions; \<^verbatim>\<open>String_Buffer\<close> the contract of a growable string, as a locale.

  \<^bold>\<open>Theories.\<close>

  \<^item> \<^verbatim>\<open>Dynstr\<close>, \<^verbatim>\<open>Custr\<close>, \<^verbatim>\<open>Strpath\<close>, \<^verbatim>\<open>Strlist\<close>: the string libraries. An append refines concatenation, and it is
    shown exactly when it writes one byte behind its block; a path is joined as its components are; a
    list of strings refines a partial map from indices.
  \<^item> \<^verbatim>\<open>Base64\<close>, \<^verbatim>\<open>Crc32\<close>: equal to their reference definitions; decoding undoes encoding.
  \<^item> \<^verbatim>\<open>Mdata_Wire\<close>: frames of both protocol versions; a printed frame is read back, an accepted frame carries the
    checksum of its body. \<^verbatim>\<open>Mdata_Plat\<close>: sockets, serial lines and reading a line. \<^verbatim>\<open>Mdata_Proto\<close>: the protocol
    engine as it is written. \<^verbatim>\<open>Mdata_Session\<close>: its invariant, for arbitrary input. \<^verbatim>\<open>Mdata_Delivery\<close>: an answer of the
    host reaches the caller of \<^verbatim>\<open>proto_execute\<close>, in both versions. \<^verbatim>\<open>Mdata_Tools\<close>: the command-line programs.
  \<^item> \<^verbatim>\<open>Nvpair\<close>: the name-value library as a parameter, its laws as locales, and an instance. \<^verbatim>\<open>Json_Nvlist\<close>: the
    pushdown parser. \<^verbatim>\<open>Json_Safety\<close>: it ends and is safe on any text; how it reads past an unterminated one.
    \<^verbatim>\<open>Json_Grammar\<close>, \<^verbatim>\<open>Json_Roundtrip\<close>: a text of the grammar is parsed to the lists it stands for.
  \<^item> \<^verbatim>\<open>Docker_Env\<close>: environment entries, the search path and the search for the command. \<^verbatim>\<open>Docker_Mdata\<close>: what a zone
    learns from its metadata: environment, command line, user. \<^verbatim>\<open>Docker_Process\<close>: programs that call the system,
    as a state monad with three endings, and the calls that change the user. \<^verbatim>\<open>Docker_Exec\<close>, \<^verbatim>\<open>Docker_Net\<close>,
    \<^verbatim>\<open>Docker_Init\<close>: the helper, the network and the init process. \<^verbatim>\<open>Docker_Run\<close>: whole runs; the command is
    never executed except as the user the metadata name.
  \<^item> \<^verbatim>\<open>Avl_Library\<close>: the AVL trees as a parameter, with the laws of their manual page as a locale and an instance.
    \<^verbatim>\<open>Strset\<close>: the string set refines a set, a walk refines a walk over the sorted list. \<^verbatim>\<open>Fswatcher\<close>: the file
    watcher with an explicit heap, its threads as a step relation. \<^verbatim>\<open>Fswatcher_Runs\<close>: the invariant of its runs by
    rule induction, its commands as operations on a set, the order of its messages, and a race.
  \<^item> \<^verbatim>\<open>Line_Parser\<close>, \<^verbatim>\<open>Manifest\<close>: splitting lines and reading manifests, with round trips from printed lines.
    \<^verbatim>\<open>Mancf\<close>: the index of the manual sections; the output is the greedy order the rules ask for, and the
    rules have no cycle. \<^verbatim>\<open>Mancheck\<close>: the checker of manual pages and the language of its configuration files,
    which are read back as they are written. \<^verbatim>\<open>Mancheck_Runs\<close>: what a whole run reports, and its exit status.

  \<^bold>\<open>Interfaces\<close> are locales, each with an interpretation on definitions of the model: a growable string
  (\<^verbatim>\<open>String_Buffer\<close>), the allocator (\<^verbatim>\<open>working_heap\<close>), the name-value library (\<^verbatim>\<open>nvpair_library\<close> and its
  extensions), callbacks over arrays (\<^verbatim>\<open>array_callback\<close>), a set of strings (\<^verbatim>\<open>string_set\<close>), the trees
  (\<^verbatim>\<open>avl_library\<close>, \<^verbatim>\<open>string_avl\<close>, \<^verbatim>\<open>set_heap\<close>, \<^verbatim>\<open>file_tree\<close>). The libraries outside the repository are the only ones that
  are interpreted on an instance written here.

  \<^bold>\<open>Fuel.\<close> Loops over data are structural or have a measure. Fuel bounds the loops that need not end: the main loop
  of the JSON parser, for which \<open>3 * length + 5\<close> turns are proved to be enough for any text; a walk over a
  set whose callback may add to it, for which the number of nodes is enough when it does not; the loop of
  \<^verbatim>\<open>mancf\<close>, for which the number of sections is enough; and the loops
  of \<^verbatim>\<open>dockerinit\<close> that wait for the outside world (a child process, a device, a client that attaches), where
  running out of fuel is a fault of its own and excluded in the properties that say that something happens.

  \<^bold>\<open>Not modelled.\<close> Log and debug output and the text of diagnostics, except where a program's output is its result.
  The Linux variant of the metadata client (\<^verbatim>\<open>plat/linux.c\<close>), which is not built here. Small programs that only
  hand data from one system interface to another (\<^verbatim>\<open>bootparams.c\<close>, \<^verbatim>\<open>sysinfo_mod.c\<close>, \<^verbatim>\<open>sysevent.c\<close>, \<^verbatim>\<open>vmunbundle.c\<close>,
  \<^verbatim>\<open>zfs_send.c\<close>, \<^verbatim>\<open>zfs_recv.c\<close>, \<^verbatim>\<open>routeinfo\<close>, \<^verbatim>\<open>lx_hook_postnet\<close>, \<^verbatim>\<open>disk_size.c\<close>, \<^verbatim>\<open>removable_disk.c\<close>, \<^verbatim>\<open>cryptpass.c\<close>,
  \<^verbatim>\<open>nomknod.c\<close>, \<^verbatim>\<open>measure_terminal.c\<close>, \<^verbatim>\<open>qemu-exec.c\<close>, \<^verbatim>\<open>sdc-on-tty.c\<close>) and build tools that check or copy files
  (\<^verbatim>\<open>tools/builder\<close>, \<^verbatim>\<open>tools/tzcheck\<close>, \<^verbatim>\<open>tools/ucodecheck\<close>,
  \<^verbatim>\<open>tools/format_image\<close>). Vendored code: the JavaScript engine under \<^verbatim>\<open>tools/javascriptlint\<close> and the DTrace provider
  \<^verbatim>\<open>node-dtrace-provider\<close>.
\<close>

end
